(* ===== verification/Prelude.thy ===== *)
theory Prelude
  imports Main "HOL-Library.Word" "HOL-Library.Sublist"
begin

text \<open>
  Shared vocabulary of the development: the machine integers of the Rust code, its clock
  values, the saturating and checked operations it uses, the counters it increments, and
  generic list and word lemmas.

  Unsigned integers are words of their Rust width, so \<open>+\<close> wraps as it does in the release
  profile of the workspace (\<open>Cargo.toml\<close> leaves \<open>overflow-checks\<close> off there).  An
  \<open>Instant\<close> and a \<open>Duration\<close> are natural numbers of nanoseconds; every call of
  \<open>Instant::now()\<close> is an argument of the operation that makes it.
\<close>

section \<open>Machine types\<close>

type_synonym u8 = "8 word"
type_synonym u16 = "16 word"
type_synonym u32 = "32 word"
type_synonym u64 = "64 word"

type_synonym hash = "256 word"
type_synonym pubkey = "256 word"
type_synonym signature = "512 word"

type_synonym instant = nat
type_synonym duration = nat

named_theorems word_nat "readings of word operations as natural numbers"
declare split_paired_All [simp del] split_paired_Ex [simp del]

named_theorems frame "fields an operation leaves alone"

section \<open>Saturating and checked arithmetic\<close>

definition sat_add :: "'a::len word \<Rightarrow> 'a word \<Rightarrow> 'a word" where
  "sat_add a b = (if a + b < a then - 1 else a + b)"

definition sat_sub :: "'a::len word \<Rightarrow> 'a word \<Rightarrow> 'a word" where
  "sat_sub a b = (if b \<le> a then a - b else 0)"

definition checked_sub :: "'a::len word \<Rightarrow> 'a word \<Rightarrow> 'a word option" where
  "checked_sub a b = (if b \<le> a then Some (a - b) else None)"

text \<open>\<open>now.saturating_duration_since(t)\<close>, \<open>d.as_micros()\<close>, and the two ways the code
  narrows a 128-bit count: clamped with \<open>min\<close> or cut off with \<open>as\<close>.\<close>

definition since :: "instant \<Rightarrow> instant \<Rightarrow> duration" where
  "since now t = now - t"

definition as_micros :: "duration \<Rightarrow> nat" where
  "as_micros d = d div 1000"

definition clamp_u32 :: "nat \<Rightarrow> u32" where
  "clamp_u32 n = of_nat (min n (2 ^ 32 - 1))"

definition clamp_u64 :: "nat \<Rightarrow> u64" where
  "clamp_u64 n = of_nat (min n (2 ^ 64 - 1))"

definition trunc_u64 :: "nat \<Rightarrow> u64" where
  "trunc_u64 n = of_nat n"

lemma unat_sat_sub [word_nat]: "unat (sat_sub a b) = unat a - unat b"
  by (auto simp: sat_sub_def unat_sub word_le_nat_alt)

lemma unat_max_word: "unat (- 1 :: 'a::len word) = 2 ^ LENGTH('a) - 1"
  by (simp add: unsigned_minus_1_eq_mask mask_eq_exp_minus_1)

lemma unat_bound: "unat (a :: 'a::len word) < 2 ^ LENGTH('a)"
  by (rule unsigned_less)

lemma nat_overflow_mod: "\<not> x + y < m \<Longrightarrow> x < m \<Longrightarrow> y < m \<Longrightarrow> (x + y) mod m = x + y - m" for x y m :: nat
  by (subst mod_if) (simp add: mod_if)

lemma nat_overflow_less: "\<not> x + y < m \<Longrightarrow> x < m \<Longrightarrow> y < m \<Longrightarrow> x + y - m < x" for x y m :: nat
  by arith

lemma unat_sat_add [word_nat]:
  "unat (sat_add a b) = min (unat a + unat b) (2 ^ LENGTH('a) - 1)" for a b :: "'a::len word"
proof (cases "unat a + unat b < 2 ^ LENGTH('a)")
  case True
  then have "unat (a + b) = unat a + unat b"
    by (simp add: unat_word_ariths)
  with True show ?thesis
    by (simp add: sat_add_def word_less_nat_alt)
next
  case False
  let ?M = "2 ^ LENGTH('a) :: nat"
  have ab: "unat a < ?M" "unat b < ?M" by (rule unat_bound)+
  have "unat (a + b) = (unat a + unat b) mod ?M" by (rule unat_word_ariths)
  also have "\<dots> = unat a + unat b - ?M"
    using False ab by (rule nat_overflow_mod)
  finally have sum: "unat (a + b) = unat a + unat b - ?M" .
  have "unat a + unat b - ?M < unat a" using False ab by (rule nat_overflow_less)
  with sum have "a + b < a" by (simp add: word_less_nat_alt)
  then have "sat_add a b = - 1" by (simp add: sat_add_def)
  with False show ?thesis by (simp add: unat_max_word)
qed

lemma sat_add_mono: "a \<le> sat_add a b" for a b :: "'a::len word"
proof -
  have "unat a \<le> 2 ^ LENGTH('a) - 1" using unat_bound [of a] by linarith
  then show ?thesis by (simp add: word_le_nat_alt unat_sat_add)
qed

lemma unat_clamp_u32 [word_nat]: "unat (clamp_u32 n) = min n (2 ^ 32 - 1)"
proof -
  have "min n (2 ^ 32 - 1) < (2::nat) ^ 32" by (simp add: min_def)
  then show ?thesis by (simp add: clamp_u32_def unat_of_nat)
qed

lemma unat_clamp_u64 [word_nat]: "unat (clamp_u64 n) = min n (2 ^ 64 - 1)"
proof -
  have "min n (2 ^ 64 - 1) < (2::nat) ^ 64" by (simp add: min_def)
  then show ?thesis by (simp add: clamp_u64_def unat_of_nat)
qed

lemma checked_sub_Some [word_nat]:
  "checked_sub a b = Some c \<longleftrightarrow> unat b \<le> unat a \<and> c = a - b"
  by (auto simp: checked_sub_def word_le_nat_alt)

lemma checked_sub_None [word_nat]: "checked_sub a b = None \<longleftrightarrow> unat a < unat b"
  by (auto simp: checked_sub_def word_le_nat_alt)

section \<open>Words that step by one\<close>

text \<open>
  The distance to a target shrinks by one on every increment until the target is reached, also
  across a wrap-around: the measure of the loops that walk an index towards a pending entry.
\<close>

lemma unat_minus_Suc_less: "a \<noteq> b \<Longrightarrow> unat (a - (b + 1)) < unat (a - b)"
  for a b :: "'a::len word"
proof -
  assume "a \<noteq> b"
  then have nz: "a - b \<noteq> 0" by simp
  have "a - (b + 1) = (a - b) - 1" by (simp add: algebra_simps)
  then have "unat (a - (b + 1)) = unat ((a - b) - 1)" by (rule arg_cong)
  also have "\<dots> = unat (a - b) - 1"
    using nz by (simp add: unat_minus_one)
  finally have eq: "unat (a - (b + 1)) = unat (a - b) - 1" .
  have "0 < unat (a - b)" using nz by (simp add: unat_gt_0)
  then show ?thesis unfolding eq by (rule diff_less [OF zero_less_one])
qed

lemma unat_Suc: "a < b \<Longrightarrow> unat (a + 1) = unat a + 1" for a b :: "'a::len word"
proof -
  assume "a < b"
  then have "unat a < unat b" by (simp add: word_less_nat_alt)
  then have "unat a + 1 < 2 ^ LENGTH('a)" using unat_bound [of b] by linarith
  then show ?thesis by (simp add: unat_word_ariths)
qed

lemma word_less_Suc_le: "a < b \<Longrightarrow> a + 1 \<le> b" for a b :: "'a::len word"
  by (simp add: word_le_nat_alt unat_Suc word_less_nat_alt)

lemma word_less_neq_Suc: "a < b \<Longrightarrow> a + 1 \<noteq> b \<Longrightarrow> a + 1 < b" for a b :: "'a::len word"
  using word_less_Suc_le by fastforce

section \<open>Lists\<close>

lemma subseq_append_mono: "subseq xs ys \<Longrightarrow> subseq us vs \<Longrightarrow> subseq (xs @ us) (ys @ vs)"
  by (rule list_emb_append_mono)

lemma distinct_map_subseq: "subseq xs ys \<Longrightarrow> distinct (map f ys) \<Longrightarrow> distinct (map f xs)"
  by (metis subseq_map subseq_conv_nths distinct_nthsI)

lemma sorted_wrt_map_fst_filter:
  "sorted_wrt R (map fst xs) \<Longrightarrow> sorted_wrt R (map fst (filter P xs))"
  by (induction xs) auto

lemma length_filter_neq_in: "x \<in> set xs \<Longrightarrow> length (filter (\<lambda>y. y \<noteq> x) xs) < length xs"
  by (induction xs) (auto simp: less_Suc_eq_le)

text \<open>\<open>xs.chunks(n)\<close>\<close>

fun chunks :: "nat \<Rightarrow> 'a list \<Rightarrow> 'a list list" where
  "chunks n [] = []"
| "chunks n (x # xs) = take (max 1 n) (x # xs) # chunks n (drop (max 1 n) (x # xs))"

lemma concat_chunks [simp]: "concat (chunks n xs) = xs"
proof (induction n xs rule: chunks.induct)
  case (2 n x xs)
  then show ?case unfolding chunks.simps concat.simps by (simp only: append_take_drop_id)
qed simp

lemma length_chunks_le: "c \<in> set (chunks n xs) \<Longrightarrow> 0 < n \<Longrightarrow> length c \<le> n"
  by (induction n xs rule: chunks.induct) auto

lemma fold_invariant: "(\<And>x st. P st \<Longrightarrow> P (f x st)) \<Longrightarrow> P st \<Longrightarrow> P (fold f xs st)"
  by (induction xs arbitrary: st) auto

lemma find_in_set: "find P xs = Some x \<Longrightarrow> x \<in> set xs \<and> P x"
  by (induction xs) (auto split: if_splits)

lemma find_none_set: "find P xs = None \<Longrightarrow> x \<in> set xs \<Longrightarrow> \<not> P x"
  by (induction xs) (auto split: if_splits)

text \<open>A cyclic scan visits every index.\<close>

lemma cyclic_range:
  assumes "start < (n::nat)"
  shows "set (map (\<lambda>k. (start + k) mod n) [0..<n]) = {0..<n}"
proof -
  have "i \<in> (\<lambda>k. (start + k) mod n) ` {0..<n}" if "i < n" for i
  proof (cases "start \<le> i")
    case True
    with that show ?thesis by (intro image_eqI [where x = "i - start"]) simp_all
  next
    case False
    then have "start + (i + n - start) = i + n" using assms by simp
    with False that assms show ?thesis by (intro image_eqI [where x = "i + n - start"]) simp_all
  qed
  with assms show ?thesis by auto
qed

section \<open>Numbers as text\<close>

text \<open>\<open>{:x}\<close> and \<open>{}\<close> of an unsigned integer.\<close>

definition hex_digit :: "nat \<Rightarrow> char" where
  "hex_digit d = ''0123456789abcdef'' ! d"

lemma hex_digit_cases: "d < 16 \<Longrightarrow> d \<in> {0, 1, 2, 3, 4, 5, 6, 7, 8, 9, 10, 11, 12, 13, 14, 15}"
  for d :: nat
  by (simp only: insert_iff empty_iff) arith

fun hex_digits :: "nat \<Rightarrow> string" where
  "hex_digits n = (if n < 16 then [hex_digit n] else hex_digits (n div 16) @ [hex_digit (n mod 16)])"

declare hex_digits.simps [simp del]

text \<open>\<open>format!("{:0wx}", n)\<close>: at least \<open>w\<close> lower-case hexadecimal digits.\<close>

definition hex_pad :: "nat \<Rightarrow> nat \<Rightarrow> string" where
  "hex_pad w n = (let ds = hex_digits n in replicate (w - length ds) CHR ''0'' @ ds)"

text \<open>Decimal numbers: \<open>to_string()\<close>, and \<open>parse::<u64>()\<close> of a text without a sign.\<close>

fun dec_digits :: "nat \<Rightarrow> string" where
  "dec_digits n = (if n < 10 then [char_of (48 + n)] else dec_digits (n div 10) @ [char_of (48 + n mod 10)])"

declare dec_digits.simps [simp del]

definition is_ascii_digit :: "char \<Rightarrow> bool" where
  "is_ascii_digit c \<longleftrightarrow> 48 \<le> (of_char c :: nat) \<and> (of_char c :: nat) \<le> 57"

definition dec_value :: "string \<Rightarrow> nat" where
  "dec_value ds = fold (\<lambda>c n. 10 * n + (of_char c - 48)) ds 0"

definition parse_u64 :: "string \<Rightarrow> u64 option" where
  "parse_u64 ds = (if ds \<noteq> [] \<and> list_all is_ascii_digit ds \<and> dec_value ds < 2 ^ 64 then Some (of_nat (dec_value ds)) else None)"

lemma dec_digit_char: "d < 10 \<Longrightarrow> is_ascii_digit (char_of (48 + d))" "d < 10 \<Longrightarrow> of_char (char_of (48 + d :: nat)) = 48 + d"
  by (simp_all add: is_ascii_digit_def)

lemma dec_digits_read: "dec_digits n \<noteq> [] \<and> list_all is_ascii_digit (dec_digits n) \<and> dec_value (dec_digits n) = n"
proof (induction n rule: dec_digits.induct)
  case (1 n)
  show ?case
  proof (cases "n < 10")
    case True
    then show ?thesis by (simp add: dec_digits.simps [of n] dec_digit_char dec_value_def)
  next
    case False
    have "n mod 10 < 10" by simp
    with 1 [OF False] False show ?thesis
      by (simp add: dec_digits.simps [of n] dec_digit_char dec_value_def)
  qed
qed


end
