(* ===== verification/Entries.thy ===== *)
theory Entries
  imports Prelude
begin

text \<open>
  The PoH entries the sources deliver (\<open>crates/entry-sources/src/observation.rs\<close>): an
  observation of one entry by one source, with its position in the slot, its hash, its hash
  count and the signatures of its transactions.
\<close>

datatype source_kind = Yellowstone | ShredStream

record entry_obs =
  obs_source :: source_kind
  obs_observed_at :: instant
  obs_slot :: u64
  obs_entry_index :: u32
  obs_num_hashes :: u64
  obs_entry_hash :: hash
  obs_tx_count :: u32
  obs_signatures :: "signature list"
  obs_first_shred_at :: "instant option"
  obs_leader :: "pubkey option"

definition obs_is_tick :: "entry_obs \<Rightarrow> bool" where
  "obs_is_tick o1 \<longleftrightarrow> obs_tx_count o1 = 0"

text \<open>The key by which the two sources' sightings of one entry are recognised.\<close>

definition obs_key :: "entry_obs \<Rightarrow> u64 \<times> hash" where
  "obs_key o1 = (obs_slot o1, obs_entry_hash o1)"

text \<open>A plain observation, for examples.\<close>

definition sample_obs :: "u64 \<Rightarrow> u32 \<Rightarrow> hash \<Rightarrow> u32 \<Rightarrow> instant \<Rightarrow> entry_obs" where
  "sample_obs s i h n t =
     \<lparr>obs_source = ShredStream, obs_observed_at = t, obs_slot = s, obs_entry_index = i,
      obs_num_hashes = 62500, obs_entry_hash = h, obs_tx_count = n, obs_signatures = [],
      obs_first_shred_at = None, obs_leader = None\<rparr>"

lemma sample_obs_sel [simp]:
  "obs_slot (sample_obs s i h n t) = s"
  "obs_entry_index (sample_obs s i h n t) = i"
  "obs_entry_hash (sample_obs s i h n t) = h"
  "obs_tx_count (sample_obs s i h n t) = n"
  "obs_observed_at (sample_obs s i h n t) = t"
  "obs_signatures (sample_obs s i h n t) = []"
  "obs_num_hashes (sample_obs s i h n t) = 62500"
  "obs_source (sample_obs s i h n t) = ShredStream"
  by (simp_all add: sample_obs_def)

section \<open>Source warm-up\<close>

text \<open>
  The gate in front of each source (\<open>spawn_warmup\<close> in \<open>bin/phase3_run.rs\<close>): the slot seen
  first may be incomplete, so nothing is forwarded before an entry of a later slot arrives.
\<close>

record warmup =
  wu_startup_slot :: "u64 option"
  wu_warm :: bool
  wu_first_full_slot :: u64

definition warmup_init :: warmup where
  "warmup_init = \<lparr>wu_startup_slot = None, wu_warm = False, wu_first_full_slot = 0\<rparr>"

text \<open>One received observation: the new gate and what is forwarded with \<open>try_send\<close>.\<close>

definition warmup_step :: "warmup \<Rightarrow> entry_obs \<Rightarrow> warmup \<times> entry_obs list" where
  "warmup_step w o1 =
     (if wu_warm w then (w, [o1])
      else (case wu_startup_slot w of
              None \<Rightarrow> (w\<lparr>wu_startup_slot := Some (obs_slot o1)\<rparr>, [])
            | Some s0 \<Rightarrow>
                if obs_slot o1 \<le> s0 then (w, [])
                else (w\<lparr>wu_warm := True, wu_first_full_slot := obs_slot o1\<rparr>, [o1])))"

fun warmup_run :: "warmup \<Rightarrow> entry_obs list \<Rightarrow> entry_obs list" where
  "warmup_run w [] = []"
| "warmup_run w (o1 # os) = snd (warmup_step w o1) @ warmup_run (fst (warmup_step w o1)) os"

text \<open>The gate as a reference: drop the observations up to the first slot after the start.\<close>

definition warmup_spec :: "entry_obs list \<Rightarrow> entry_obs list" where
  "warmup_spec os = (case os of [] \<Rightarrow> []
     | o1 # rest \<Rightarrow> dropWhile (\<lambda>x. obs_slot x \<le> obs_slot o1) rest)"

lemma warmup_run_warm: "wu_warm w \<Longrightarrow> warmup_run w os = os"
  by (induction os) (simp_all add: warmup_step_def)

lemma warmup_run_waiting: "\<not> wu_warm w \<Longrightarrow> wu_startup_slot w = Some s0 \<Longrightarrow>
    warmup_run w os = dropWhile (\<lambda>x. obs_slot x \<le> s0) os"
  by (induction os) (simp_all add: warmup_step_def warmup_run_warm)

lemma warmup_run_init: "warmup_run warmup_init os = warmup_spec os"
  by (cases os) (simp_all add: warmup_spec_def warmup_init_def warmup_step_def warmup_run_waiting)

end
