(* ===== verification/BTreeMap.thy ===== *)
theory BTreeMap
  imports Prelude
begin

text \<open>
  The ordered map of the Rust standard library as the program uses it: insertion with
  replacement, removal, iteration in key order, the first and last entry, and the eviction loop
  that pops the first entry while its key is below a cutoff.  The representation is the
  association list in key order.  The contract the clients rely on is the locale
  \<open>ordered_map\<close>, extended by \<open>window_map\<close> with the eviction of a key prefix; both are
  interpreted on this representation.  The same representation stands for a hash map whose
  iteration order nothing observes.
\<close>

type_synonym ('k, 'v) btree = "('k \<times> 'v) list"

definition bt_ok :: "('k::linorder, 'v) btree \<Rightarrow> bool" where
  "bt_ok m \<longleftrightarrow> sorted_wrt (<) (map fst m)"

definition bt_get :: "('k, 'v) btree \<Rightarrow> 'k \<Rightarrow> 'v option" where
  "bt_get m k = map_of m k"

fun bt_insert :: "'k::linorder \<Rightarrow> 'v \<Rightarrow> ('k, 'v) btree \<Rightarrow> ('k, 'v) btree" where
  "bt_insert k v [] = [(k, v)]"
| "bt_insert k v ((a, b) # m) =
     (if k < a then (k, v) # (a, b) # m
      else if k = a then (k, v) # m
      else (a, b) # bt_insert k v m)"

definition bt_remove :: "'k \<Rightarrow> ('k, 'v) btree \<Rightarrow> ('k, 'v) btree" where
  "bt_remove k m = filter (\<lambda>e. fst e \<noteq> k) m"

definition bt_keys :: "('k, 'v) btree \<Rightarrow> 'k list" where
  "bt_keys m = map fst m"

definition bt_first :: "('k, 'v) btree \<Rightarrow> ('k \<times> 'v) option" where
  "bt_first m = (case m of [] \<Rightarrow> None | e # _ \<Rightarrow> Some e)"

definition bt_last :: "('k, 'v) btree \<Rightarrow> ('k \<times> 'v) option" where
  "bt_last m = (if m = [] then None else Some (last m))"

definition bt_retain :: "('k \<Rightarrow> 'v \<Rightarrow> bool) \<Rightarrow> ('k, 'v) btree \<Rightarrow> ('k, 'v) btree" where
  "bt_retain P m = filter (\<lambda>e. P (fst e) (snd e)) m"

text \<open>\<open>entry(k).or_default()\<close>: the value at \<open>k\<close>, a default one when there is none.\<close>

definition bt_get_or :: "'v \<Rightarrow> ('k, 'v) btree \<Rightarrow> 'k \<Rightarrow> 'v" where
  "bt_get_or d m k = (case bt_get m k of None \<Rightarrow> d | Some v \<Rightarrow> v)"

text \<open>
  The loop \<open>while let Some((&k, _)) = m.iter().next()\<close> that removes the first entry as long
  as its key is below the cutoff.
\<close>

fun bt_evict :: "'k::linorder \<Rightarrow> ('k, 'v) btree \<Rightarrow> ('k, 'v) btree" where
  "bt_evict c [] = []"
| "bt_evict c ((k, v) # m) = (if k < c then bt_evict c m else (k, v) # m)"

section \<open>Laws of the representation\<close>

lemma bt_ok_Nil [simp]: "bt_ok []"
  by (simp add: bt_ok_def)

lemma bt_ok_Cons [simp]: "bt_ok (e # m) \<longleftrightarrow> (\<forall>k \<in> fst ` set m. fst e < k) \<and> bt_ok m"
  by (auto simp: bt_ok_def)

lemma bt_ok_append: "bt_ok (m @ m') \<longleftrightarrow>
    bt_ok m \<and> bt_ok m' \<and> (\<forall>k \<in> fst ` set m. \<forall>j \<in> fst ` set m'. k < j)"
  by (auto simp: bt_ok_def sorted_wrt_append)

lemma bt_keys_insert [simp]: "fst ` set (bt_insert k v m) = insert k (fst ` set m)"
  by (induction m rule: bt_insert.induct) auto

lemma bt_ok_insert [simp]: "bt_ok m \<Longrightarrow> bt_ok (bt_insert k v m)"
  by (induction k v m rule: bt_insert.induct) (auto simp: not_less_iff_gr_or_eq)

lemma bt_get_insert [simp]: "bt_get (bt_insert k v m) j = (if j = k then Some v else bt_get m j)"
  by (induction k v m rule: bt_insert.induct) (auto simp: bt_get_def)

lemma bt_insert_subset: "set (bt_insert k v m) \<subseteq> insert (k, v) (set m)"
  by (induction k v m rule: bt_insert.induct) auto

lemma bt_get_Nil [simp]: "bt_get [] k = None"
  by (simp add: bt_get_def)

lemma bt_get_Cons [simp]: "bt_get ((a, b) # m) k = (if k = a then Some b else bt_get m k)"
  by (simp add: bt_get_def)

lemma bt_get_filter_key: "bt_get (filter (\<lambda>e. P (fst e)) m) k = (if P k then bt_get m k else None)"
  by (induction m) (auto simp: bt_get_def)

lemma bt_get_remove [simp]: "bt_get (bt_remove k m) j = (if j = k then None else bt_get m j)"
  by (simp add: bt_remove_def bt_get_filter_key [where P = "\<lambda>x. x \<noteq> k"])

lemma bt_ok_filter [simp]: "bt_ok m \<Longrightarrow> bt_ok (filter P m)"
  by (simp add: bt_ok_def sorted_wrt_map_fst_filter)

lemma bt_ok_remove [simp]: "bt_ok m \<Longrightarrow> bt_ok (bt_remove k m)"
  by (simp add: bt_remove_def)

lemma bt_ok_retain [simp]: "bt_ok m \<Longrightarrow> bt_ok (bt_retain P m)"
  by (simp add: bt_retain_def)

lemma bt_get_in_keys: "bt_get m k \<noteq> None \<longleftrightarrow> k \<in> fst ` set m"
  by (force simp: bt_get_def map_of_eq_None_iff)

lemma bt_get_None: "bt_get m k = None \<longleftrightarrow> k \<notin> fst ` set m"
  using bt_get_in_keys [of m k] by blast

lemma bt_ok_distinct: "bt_ok m \<Longrightarrow> distinct (map fst m)"
  by (simp add: bt_ok_def strict_sorted_iff)

lemma bt_get_in_set: "bt_ok m \<Longrightarrow> bt_get m k = Some v \<longleftrightarrow> (k, v) \<in> set m"
  by (simp add: bt_get_def bt_ok_distinct)

lemma bt_get_retain: "bt_ok m \<Longrightarrow> bt_get (bt_retain P m) k =
    (case bt_get m k of None \<Rightarrow> None | Some v \<Rightarrow> if P k v then Some v else None)"
proof (induction m)
  case (Cons e m)
  then have "bt_get m (fst e) = None" by (auto simp: bt_get_None)
  with Cons show ?case by (cases e) (auto simp: bt_retain_def)
qed (simp add: bt_retain_def)

lemma bt_retain_subset: "set (bt_retain P m) \<subseteq> set m"
  by (auto simp: bt_retain_def)

lemma bt_evict_filter: "bt_ok m \<Longrightarrow> bt_evict c m = filter (\<lambda>e. \<not> fst e < c) m"
proof (induction c m rule: bt_evict.induct)
  case (2 c k v m)
  then have "\<not> k < c \<Longrightarrow> \<forall>e \<in> set m. \<not> fst e < c" by (fastforce dest: less_trans)
  with 2 show ?case by (auto intro!: filter_True [symmetric])
qed simp

lemma bt_get_evict: "bt_ok m \<Longrightarrow> bt_get (bt_evict c m) k = (if k < c then None else bt_get m k)"
  using bt_get_filter_key [of "\<lambda>x. \<not> x < c" m k] by (simp add: bt_evict_filter)

lemma bt_ok_evict: "bt_ok m \<Longrightarrow> bt_ok (bt_evict c m)"
  by (simp add: bt_evict_filter)

lemma bt_first_least: "bt_ok m \<Longrightarrow> bt_first m = Some (k, v) \<Longrightarrow> bt_get m j \<noteq> None \<Longrightarrow> k \<le> j"
  by (auto simp: bt_first_def bt_get_def split: list.splits if_splits dest!: map_of_SomeD)

lemma bt_last_greatest: "bt_ok m \<Longrightarrow> bt_last m = Some (k, v) \<Longrightarrow> bt_get m j \<noteq> None \<Longrightarrow> j \<le> k"
proof (induction m rule: rev_induct)
  case (snoc e m)
  then have "e = (k, v)" and "j \<in> insert k (fst ` set m)"
    unfolding bt_get_in_keys by (auto simp: bt_last_def)
  with snoc.prems(1) show ?case by (auto simp: bt_ok_append intro: less_imp_le)
qed (simp add: bt_last_def)

lemma bt_last_in: "bt_last m = Some (k, v) \<Longrightarrow> (k, v) \<in> set m"
  by (metis bt_last_def last_in_set option.distinct(1) option.inject)

lemma bt_get_or_simps [simp]:
  "bt_get m k = None \<Longrightarrow> bt_get_or d m k = d"
  "bt_get m k = Some v \<Longrightarrow> bt_get_or d m k = v"
  by (simp_all add: bt_get_or_def)

lemma bt_get_or_insert [simp]: "bt_get_or d (bt_insert k v m) j = (if j = k then v else bt_get_or d m j)"
  by (simp add: bt_get_or_def)

lemma bt_get_or_remove [simp]: "bt_get_or d (bt_remove k m) j = (if j = k then d else bt_get_or d m j)"
  by (simp add: bt_get_or_def)

lemma bt_get_or_Nil [simp]: "bt_get_or d [] j = d"
  by (simp add: bt_get_or_def)

section \<open>The interface\<close>

locale ordered_map =
  fixes get :: "'m \<Rightarrow> 'k::linorder \<Rightarrow> 'v option"
    and ins :: "'k \<Rightarrow> 'v \<Rightarrow> 'm \<Rightarrow> 'm"
    and del :: "'k \<Rightarrow> 'm \<Rightarrow> 'm"
    and keys :: "'m \<Rightarrow> 'k list"
    and ok :: "'m \<Rightarrow> bool"
  assumes get_ins: "ok m \<Longrightarrow> get (ins k v m) j = (if j = k then Some v else get m j)"
    and get_del: "ok m \<Longrightarrow> get (del k m) j = (if j = k then None else get m j)"
    and ok_ins: "ok m \<Longrightarrow> ok (ins k v m)"
    and ok_del: "ok m \<Longrightarrow> ok (del k m)"
    and keys_get: "ok m \<Longrightarrow> set (keys m) = {k. get m k \<noteq> None}"
    and keys_sorted: "ok m \<Longrightarrow> sorted_wrt (<) (keys m)"
begin

lemma keys_ins: "ok m \<Longrightarrow> set (keys (ins k v m)) = insert k (set (keys m))"
  by (auto simp: keys_get ok_ins get_ins)

lemma keys_del: "ok m \<Longrightarrow> set (keys (del k m)) = set (keys m) - {k}"
  by (auto simp: keys_get ok_del get_del)

lemma length_keys: "ok m \<Longrightarrow> length (keys m) = card {k. get m k \<noteq> None}"
  using keys_sorted keys_get by (metis distinct_card strict_sorted_iff)

lemma length_keys_ins: "ok m \<Longrightarrow>
    length (keys (ins k v m)) = (if get m k = None then Suc (length (keys m)) else length (keys m))"
proof -
  assume ok: "ok m"
  have "{j. get (ins k v m) j \<noteq> None} = insert k {j. get m j \<noteq> None}"
    using ok by (auto simp: get_ins)
  moreover have "finite {j. get m j \<noteq> None}"
    using keys_get [OF ok] by (metis List.finite_set)
  ultimately show ?thesis
    using ok by (auto simp: length_keys ok_ins card_insert_if)
qed

lemma length_keys_del: "ok m \<Longrightarrow> get m k \<noteq> None \<Longrightarrow> Suc (length (keys (del k m))) = length (keys m)"
proof -
  assume ok: "ok m" and k: "get m k \<noteq> None"
  have "{j. get (del k m) j \<noteq> None} = {j. get m j \<noteq> None} - {k}"
    using ok by (auto simp: get_del)
  moreover have fin: "finite {j. get m j \<noteq> None}"
    using keys_get [OF ok] by (metis List.finite_set)
  ultimately show ?thesis
    using ok k card_Suc_Diff1 [OF fin, of k] by (simp add: length_keys ok_del)
qed

end

locale window_map = ordered_map +
  fixes evict :: "'b::linorder \<Rightarrow> 'a \<Rightarrow> 'a"
  assumes get_evict: "ok m \<Longrightarrow> get (evict c m) k = (if k < c then None else get m k)"
    and ok_evict: "ok m \<Longrightarrow> ok (evict c m)"
begin

text \<open>An insertion followed by an eviction keeps exactly the keys from the cutoff on.\<close>

lemma get_evict_ins: "ok m \<Longrightarrow>
    get (evict c (ins k v m)) j = (if j < c then None else if j = k then Some v else get m j)"
  by (simp add: get_evict ok_ins get_ins)

lemma keys_evict: "ok m \<Longrightarrow> set (keys (evict c m)) = {k \<in> set (keys m). c \<le> k}"
  by (auto simp: keys_get ok_evict get_evict not_less split: if_splits)

lemma evict_idem: "ok m \<Longrightarrow> get (evict c (evict c m)) k = get (evict c m) k"
  by (simp add: get_evict ok_evict)

end

interpretation bt: window_map bt_get bt_insert bt_remove bt_keys bt_ok bt_evict
proof unfold_locales
  fix m :: "('a, 'b) btree" and c k
  show "bt_ok m \<Longrightarrow> set (bt_keys m) = {k. bt_get m k \<noteq> None}"
    unfolding bt_get_in_keys by (simp add: bt_keys_def)
  show "bt_ok m \<Longrightarrow> sorted_wrt (<) (bt_keys m)"
    by (simp add: bt_keys_def bt_ok_def)
qed (simp_all add: bt_get_evict bt_ok_evict)

end
