(* ===== verification/Channel.thy ===== *)
theory Channel
  imports Prelude
begin

text \<open>
  The sending half of a crossbeam channel.  A bounded channel refuses a message when it holds
  as many unread messages as its capacity, a closed one refuses every message.  The record keeps
  what was accepted, how much of it the receiver has read, and the history of everything that
  was offered, accepted or not: the order properties of a component are stated on the offers,
  and what arrives is a subsequence of them.  (A channel of capacity zero, which the program
  never creates, would need a waiting receiver and always refuses here.)
\<close>

record 'a chan =
  ch_offered :: "'a list"
  ch_sent :: "'a list"
  ch_taken :: nat
  ch_cap :: "nat option"
  ch_open :: bool

definition chan_new :: "nat option \<Rightarrow> 'a chan" where
  "chan_new c = \<lparr>ch_offered = [], ch_sent = [], ch_taken = 0, ch_cap = c, ch_open = True\<rparr>"

definition ch_room :: "'a chan \<Rightarrow> bool" where
  "ch_room c \<longleftrightarrow> ch_open c \<and>
     (case ch_cap c of None \<Rightarrow> True | Some n \<Rightarrow> length (ch_sent c) - ch_taken c < n)"

text \<open>\<open>tx.try_send(x)\<close>; the flag is \<open>is_ok()\<close>.\<close>

definition try_send :: "'a chan \<Rightarrow> 'a \<Rightarrow> 'a chan \<times> bool" where
  "try_send c x =
     (let c' = c\<lparr>ch_offered := ch_offered c @ [x]\<rparr> in
      if ch_room c then (c'\<lparr>ch_sent := ch_sent c @ [x]\<rparr>, True) else (c', False))"

text \<open>The receiver reads one message, or goes away.\<close>

definition ch_take :: "'a chan \<Rightarrow> 'a chan" where
  "ch_take c = (if ch_taken c < length (ch_sent c) then c\<lparr>ch_taken := ch_taken c + 1\<rparr> else c)"

definition ch_close :: "'a chan \<Rightarrow> 'a chan" where
  "ch_close c = c\<lparr>ch_open := False\<rparr>"

definition ch_ok :: "'a chan \<Rightarrow> bool" where
  "ch_ok c \<longleftrightarrow> subseq (ch_sent c) (ch_offered c)"

lemma ch_offered_try_send [simp]: "ch_offered (fst (try_send c x)) = ch_offered c @ [x]"
  by (simp add: try_send_def Let_def)

lemma ch_sent_try_send: "ch_sent (fst (try_send c x)) =
    (if snd (try_send c x) then ch_sent c @ [x] else ch_sent c)"
  by (simp add: try_send_def Let_def)

lemma ch_ok_new [simp]: "ch_ok (chan_new c)"
  by (simp add: ch_ok_def chan_new_def)

lemma ch_offered_new [simp]: "ch_offered (chan_new c) = []"
  by (simp add: chan_new_def)

lemma ch_sent_new [simp]: "ch_sent (chan_new c) = []"
  by (simp add: chan_new_def)

lemma ch_ok_try_send [simp]: "ch_ok c \<Longrightarrow> ch_ok (fst (try_send c x))"
  by (auto simp: ch_ok_def try_send_def Let_def intro: subseq_append_mono)

lemma ch_ok_take [simp]: "ch_ok c \<Longrightarrow> ch_ok (ch_take c)"
  by (simp add: ch_ok_def ch_take_def)

lemma ch_ok_close [simp]: "ch_ok c \<Longrightarrow> ch_ok (ch_close c)"
  by (simp add: ch_ok_def ch_close_def)

lemma try_send_unbounded: "ch_open c \<Longrightarrow> ch_cap c = None \<Longrightarrow> snd (try_send c x)"
  by (simp add: try_send_def ch_room_def Let_def)

section \<open>Lossy sinks\<close>

text \<open>
  What every emitting component relies on: an offer is recorded, and it is either accepted, and
  then delivered after everything accepted before, or refused, and then what was delivered is
  unchanged.  The client counts the refusals.
\<close>

locale lossy_sink =
  fixes send :: "'c \<Rightarrow> 'a \<Rightarrow> 'c \<times> bool"
    and offered :: "'c \<Rightarrow> 'a list"
    and delivered :: "'c \<Rightarrow> 'a list"
  assumes offered_send: "offered (fst (send c x)) = offered c @ [x]"
    and accepted: "snd (send c x) \<Longrightarrow> delivered (fst (send c x)) = delivered c @ [x]"
    and refused: "\<not> snd (send c x) \<Longrightarrow> delivered (fst (send c x)) = delivered c"
begin

text \<open>Offering a list of messages one after the other, and counting the refusals.\<close>

fun send_all :: "'c \<times> nat \<Rightarrow> 'a list \<Rightarrow> 'c \<times> nat" where
  "send_all (c, n) [] = (c, n)"
| "send_all (c, n) (x # xs) =
     (let (c', ok) = send c x in send_all (c', if ok then n else Suc n) xs)"

lemma offered_send_all: "offered (fst (send_all (c, n) xs)) = offered c @ xs"
  by (induction xs arbitrary: c n) (auto simp: offered_send split: prod.splits,
      metis fst_conv offered_send append_Cons append_Nil append_assoc)

lemma delivered_subseq: "subseq (delivered c) (offered c) \<Longrightarrow>
    subseq (delivered (fst (send c x))) (offered (fst (send c x)))"
  by (cases "snd (send c x)") (auto simp: offered_send accepted refused intro: subseq_append_mono)

lemma delivered_subseq_all: "subseq (delivered c) (offered c) \<Longrightarrow>
    subseq (delivered (fst (send_all (c, n) xs))) (offered (fst (send_all (c, n) xs)))"
proof (induction xs arbitrary: c n)
  case (Cons x xs)
  obtain c' ok where s: "send c x = (c', ok)" by (cases "send c x")
  with Cons.prems have "subseq (delivered c') (offered c')"
    using delivered_subseq [of c x] by simp
  with Cons.IH s show ?case by simp
qed simp

text \<open>Every offer is delivered or counted.\<close>

lemma refusals_counted:
  "length (delivered (fst (send_all (c, n) xs))) + snd (send_all (c, n) xs) =
     length (delivered c) + n + length xs"
proof (induction xs arbitrary: c n)
  case (Cons x xs)
  obtain c' ok where s: "send c x = (c', ok)" by (cases "send c x")
  then have "length (delivered c') = length (delivered c) + (if ok then 1 else 0)"
    using accepted [of c x] refused [of c x] by auto
  with s Cons.IH show ?case by (simp split: if_splits)
qed simp

end

interpretation sink: lossy_sink try_send ch_offered ch_sent
  by unfold_locales (simp_all add: ch_sent_try_send)

end
