(* ===== verification/Merger.thy ===== *)
theory Merger
  imports Entries BTreeMap Channel
begin

text \<open>
  The two-source entry merger
  (\<open>crates/tick-trigger-fan-out-bench/src/merger.rs\<close>): one thread selects an observation from
  the ShredStream or the Yellowstone channel, emits the first sighting of each
  (slot, entry hash), absorbs the other source's confirmation while recording its latency, and
  drops the rest.  Keys of slots more than 200 behind the highest slot are forgotten.  The order
  in which \<open>select!\<close> picks from the two channels is the list of loop events.
\<close>

section \<open>State\<close>

definition DEDUP_WINDOW_SLOTS :: u64 where
  "DEDUP_WINDOW_SLOTS = 200"

record merged_entry =
  me_observation :: entry_obs
  me_first_seen_source :: source_kind

record merger_counters =
  mc_ss_received :: u64
  mc_ys_received :: u64
  mc_ss_first :: u64
  mc_ys_first :: u64
  mc_confirmed_by_both :: u64
  mc_confirm_latency_sum_ns :: u64
  mc_confirm_latency_min_ns :: u64
  mc_confirm_latency_max_ns :: u64
  mc_duplicates :: u64
  mc_output_full :: u64

definition merger_counters_new :: merger_counters where
  "merger_counters_new =
     \<lparr>mc_ss_received = 0, mc_ys_received = 0, mc_ss_first = 0, mc_ys_first = 0,
      mc_confirmed_by_both = 0, mc_confirm_latency_sum_ns = 0,
      mc_confirm_latency_min_ns = - 1, mc_confirm_latency_max_ns = 0,
      mc_duplicates = 0, mc_output_full = 0\<rparr>"

text \<open>The snapshot replaces the sentinel minimum while nothing was confirmed.\<close>

definition merger_snapshot :: "merger_counters \<Rightarrow> merger_counters" where
  "merger_snapshot c =
     (let confirmed = mc_confirmed_by_both c in
      \<lparr>mc_ss_received = mc_ss_received c, mc_ys_received = mc_ys_received c,
       mc_ss_first = mc_ss_first c, mc_ys_first = mc_ys_first c,
       mc_confirmed_by_both = confirmed,
       mc_confirm_latency_sum_ns = mc_confirm_latency_sum_ns c,
       mc_confirm_latency_min_ns = (if confirmed = 0 then 0 else mc_confirm_latency_min_ns c),
       mc_confirm_latency_max_ns = mc_confirm_latency_max_ns c,
       mc_duplicates = mc_duplicates c, mc_output_full = mc_output_full c\<rparr>)"

definition record_confirm_latency :: "u64 \<Rightarrow> merger_counters \<Rightarrow> merger_counters" where
  "record_confirm_latency d c = c\<lparr>
     mc_confirmed_by_both := mc_confirmed_by_both c + 1,
     mc_confirm_latency_sum_ns := mc_confirm_latency_sum_ns c + d,
     mc_confirm_latency_min_ns := min (mc_confirm_latency_min_ns c) d,
     mc_confirm_latency_max_ns := max (mc_confirm_latency_max_ns c) d\<rparr>"

datatype dedup_state = Primary source_kind instant | Confirmed

record merger =
  mg_state :: "u64 \<times> hash \<Rightarrow> dedup_state option"
  mg_slot_index :: "(u64, hash list) btree"
  mg_max_slot :: u64
  mg_counters :: merger_counters
  mg_out :: "merged_entry chan"

definition merger_init :: "nat option \<Rightarrow> merger" where
  "merger_init cap =
     \<lparr>mg_state = (\<lambda>_. None), mg_slot_index = [], mg_max_slot = 0,
      mg_counters = merger_counters_new, mg_out = chan_new cap\<rparr>"

section \<open>One observation\<close>

text \<open>The vacant entry: remember the key, count the winner, emit.\<close>

definition count_first :: "source_kind \<Rightarrow> merger_counters \<Rightarrow> merger_counters" where
  "count_first src c = (case src of
     ShredStream \<Rightarrow> c\<lparr>mc_ss_first := mc_ss_first c + 1\<rparr>
   | Yellowstone \<Rightarrow> c\<lparr>mc_ys_first := mc_ys_first c + 1\<rparr>)"

definition merger_emit :: "merged_entry \<Rightarrow> merger \<Rightarrow> merger" where
  "merger_emit e m =
     (let (out', ok) = try_send (mg_out m) e; m' = m\<lparr>mg_out := out'\<rparr> in
      if ok then m'
      else m'\<lparr>mg_counters := (mg_counters m')\<lparr>mc_output_full := mc_output_full (mg_counters m') + 1\<rparr>\<rparr>)"

definition merger_first :: "entry_obs \<Rightarrow> source_kind \<Rightarrow> merger \<Rightarrow> merger" where
  "merger_first o1 src m =
     (let s = obs_slot o1; h = obs_entry_hash o1;
          m1 = m\<lparr>mg_state := (mg_state m)((s, h) \<mapsto> Primary src (obs_observed_at o1)),
                 mg_slot_index :=
                   bt_insert s (bt_get_or [] (mg_slot_index m) s @ [h]) (mg_slot_index m),
                 mg_counters := count_first src (mg_counters m)\<rparr>
      in merger_emit \<lparr>me_observation = o1, me_first_seen_source = src\<rparr> m1)"

definition merger_again :: "entry_obs \<Rightarrow> source_kind \<Rightarrow> dedup_state \<Rightarrow> merger \<Rightarrow> merger" where
  "merger_again o1 src d m =
     (case d of
        Primary src0 t0 \<Rightarrow>
          if src0 \<noteq> src
          then m\<lparr>mg_state := (mg_state m)((obs_slot o1, obs_entry_hash o1) \<mapsto> Confirmed),
                 mg_counters :=
                   record_confirm_latency (clamp_u64 (since (obs_observed_at o1) t0)) (mg_counters m)\<rparr>
          else m\<lparr>mg_counters := (mg_counters m)\<lparr>mc_duplicates := mc_duplicates (mg_counters m) + 1\<rparr>\<rparr>
      | Confirmed \<Rightarrow>
          m\<lparr>mg_counters := (mg_counters m)\<lparr>mc_duplicates := mc_duplicates (mg_counters m) + 1\<rparr>\<rparr>)"

text \<open>The expired slots, in key order up to the first one that is not below the cutoff, and
  the removal of each with its keys.\<close>

definition expired_slots :: "u64 \<Rightarrow> (u64, hash list) btree \<Rightarrow> u64 list" where
  "expired_slots cutoff idx = takeWhile (\<lambda>s. s < cutoff) (bt_keys idx)"

definition drop_slot :: "u64 \<Rightarrow> merger \<Rightarrow> merger" where
  "drop_slot s m =
     (case bt_get (mg_slot_index m) s of
        None \<Rightarrow> m
      | Some hs \<Rightarrow> m\<lparr>mg_slot_index := bt_remove s (mg_slot_index m),
                      mg_state := fold (\<lambda>h st. st((s, h) := None)) hs (mg_state m)\<rparr>)"

definition merger_advance :: "u64 \<Rightarrow> merger \<Rightarrow> merger" where
  "merger_advance s m =
     (if s > mg_max_slot m
      then let m1 = m\<lparr>mg_max_slot := s\<rparr> in
           if s > DEDUP_WINDOW_SLOTS
           then let cutoff = s - DEDUP_WINDOW_SLOTS
                in fold drop_slot (expired_slots cutoff (mg_slot_index m1)) m1
           else m1
      else m)"

definition merger_process :: "entry_obs \<Rightarrow> source_kind \<Rightarrow> merger \<Rightarrow> merger" where
  "merger_process o1 src m =
     merger_advance (obs_slot o1)
       (case mg_state m (obs_slot o1, obs_entry_hash o1) of
          None \<Rightarrow> merger_first o1 src m
        | Some d \<Rightarrow> merger_again o1 src d m)"

section \<open>The loop\<close>

datatype merger_event =
    MRecv source_kind entry_obs
  | MRead
  | MDisconnected source_kind
  | MStop

definition count_received :: "source_kind \<Rightarrow> merger_counters \<Rightarrow> merger_counters" where
  "count_received src c = (case src of
     ShredStream \<Rightarrow> c\<lparr>mc_ss_received := mc_ss_received c + 1\<rparr>
   | Yellowstone \<Rightarrow> c\<lparr>mc_ys_received := mc_ys_received c + 1\<rparr>)"

definition merger_recv :: "source_kind \<Rightarrow> entry_obs \<Rightarrow> merger \<Rightarrow> merger" where
  "merger_recv src o1 m =
     merger_process o1 src (m\<lparr>mg_counters := count_received src (mg_counters m)\<rparr>)"

text \<open>A closed source channel or the stop flag ends the loop; \<open>MRead\<close> is the supervisor
  reading from the output channel.\<close>

fun merger_run :: "merger \<Rightarrow> merger_event list \<Rightarrow> merger" where
  "merger_run m [] = m"
| "merger_run m (MRecv src o1 # es) = merger_run (merger_recv src o1 m) es"
| "merger_run m (MRead # es) = merger_run (m\<lparr>mg_out := ch_take (mg_out m)\<rparr>) es"
| "merger_run m (MDisconnected src # es) = m"
| "merger_run m (MStop # es) = m"

section \<open>The index covers the dedup map\<close>

definition merger_inv :: "merger \<Rightarrow> bool" where
  "merger_inv m \<longleftrightarrow> bt_ok (mg_slot_index m) \<and>
     (\<forall>k. mg_state m k = None \<longleftrightarrow> snd k \<notin> set (bt_get_or [] (mg_slot_index m) (fst k)))"

lemma merger_inv_init [simp]: "merger_inv (merger_init cap)"
  by (simp add: merger_inv_def merger_init_def)

lemma merger_emit_frame [simp]:
  "mg_state (merger_emit e m) = mg_state m"
  "mg_slot_index (merger_emit e m) = mg_slot_index m"
  "mg_max_slot (merger_emit e m) = mg_max_slot m"
  "ch_offered (mg_out (merger_emit e m)) = ch_offered (mg_out m) @ [e]"
  by (simp_all add: merger_emit_def Let_def case_prod_beta)

lemma merger_first_simps [simp]:
  "mg_state (merger_first o1 src m) =
     (mg_state m)(obs_key o1 \<mapsto> Primary src (obs_observed_at o1))"
  "mg_slot_index (merger_first o1 src m) =
     bt_insert (obs_slot o1) (bt_get_or [] (mg_slot_index m) (obs_slot o1) @ [obs_entry_hash o1])
       (mg_slot_index m)"
  "mg_max_slot (merger_first o1 src m) = mg_max_slot m"
  "ch_offered (mg_out (merger_first o1 src m)) =
     ch_offered (mg_out m) @ [\<lparr>me_observation = o1, me_first_seen_source = src\<rparr>]"
  by (simp_all add: merger_first_def Let_def obs_key_def)

lemma merger_again_frame [simp]:
  "mg_slot_index (merger_again o1 src d m) = mg_slot_index m"
  "mg_max_slot (merger_again o1 src d m) = mg_max_slot m"
  "mg_out (merger_again o1 src d m) = mg_out m"
  by (simp_all add: merger_again_def split: dedup_state.splits)

lemma merger_again_dom: "mg_state m (obs_key o1) = Some d \<Longrightarrow>
    mg_state (merger_again o1 src d m) k = None \<longleftrightarrow> mg_state m k = None"
  by (auto simp: merger_again_def obs_key_def split: dedup_state.splits)

lemma merger_inv_first: "merger_inv m \<Longrightarrow> merger_inv (merger_first o1 src m)"
  by (auto simp: merger_inv_def obs_key_def)

lemma merger_inv_again: "merger_inv m \<Longrightarrow> mg_state m (obs_key o1) = Some d \<Longrightarrow>
    merger_inv (merger_again o1 src d m)"
  by (simp add: merger_inv_def merger_again_dom)

lemma fold_forget: "fold (\<lambda>h st. st((s, h) := None)) hs st k =
    (if fst k = s \<and> snd k \<in> set hs then None else st k)"
  by (induction hs arbitrary: st) auto

lemma drop_slot_frame [simp]:
  "mg_max_slot (drop_slot s m) = mg_max_slot m"
  "mg_counters (drop_slot s m) = mg_counters m"
  "mg_out (drop_slot s m) = mg_out m"
  by (simp_all add: drop_slot_def split: option.splits)

lemma drop_slot_state: "merger_inv m \<Longrightarrow>
    mg_state (drop_slot s m) k = (if fst k = s then None else mg_state m k)"
  by (auto simp: merger_inv_def drop_slot_def fold_forget split: option.splits)

lemma merger_inv_drop: "merger_inv m \<Longrightarrow> merger_inv (drop_slot s m)"
  using drop_slot_state [of m s]
  by (auto simp: merger_inv_def drop_slot_def split: option.splits)

lemma drop_slots:
  "merger_inv m \<Longrightarrow> merger_inv (fold drop_slot ss m) \<and>
     mg_state (fold drop_slot ss m) k = (if fst k \<in> set ss then None else mg_state m k)"
  by (induction ss arbitrary: m) (simp_all add: merger_inv_drop drop_slot_state)

lemma drop_slots_frame [simp]:
  "mg_max_slot (fold drop_slot ss m) = mg_max_slot m"
  "mg_counters (fold drop_slot ss m) = mg_counters m"
  "mg_out (fold drop_slot ss m) = mg_out m"
  by (induction ss arbitrary: m) simp_all

lemma set_takeWhile_sorted: "sorted_wrt (<) xs \<Longrightarrow> set (takeWhile (\<lambda>s. s < c) xs) = {s \<in> set xs. s < c}"
  for c :: "'a::linorder"
  by (induction xs) (auto dest: order.strict_trans2 less_trans)

lemma set_expired: "bt_ok idx \<Longrightarrow> set (expired_slots c idx) = {s. bt_get idx s \<noteq> None \<and> s < c}"
  using bt.keys_get [of idx] by (auto simp: expired_slots_def set_takeWhile_sorted bt.keys_sorted)

definition dedup_floor :: "u64 \<Rightarrow> u64" where
  "dedup_floor s = sat_sub s DEDUP_WINDOW_SLOTS"

lemma dedup_floor_alt: "dedup_floor s = (if s > DEDUP_WINDOW_SLOTS then s - DEDUP_WINDOW_SLOTS else 0)"
  by (auto simp: dedup_floor_def sat_sub_def)

lemma dedup_floor_mono: "a \<le> b \<Longrightarrow> dedup_floor a \<le> dedup_floor b"
  by (simp add: dedup_floor_def word_le_nat_alt unat_sat_sub)

lemma merger_advance_frame [simp]:
  "mg_counters (merger_advance s m) = mg_counters m"
  "mg_out (merger_advance s m) = mg_out m"
  "mg_max_slot (merger_advance s m) = max s (mg_max_slot m)"
  by (auto simp: merger_advance_def Let_def)

lemma merger_advance_state: "merger_inv m \<Longrightarrow> merger_inv (merger_advance s m) \<and>
    mg_state (merger_advance s m) k =
      (if s > mg_max_slot m \<and> fst k < dedup_floor s then None else mg_state m k)"
proof -
  assume inv: "merger_inv m"
  let ?m = "m\<lparr>mg_max_slot := s\<rparr>" and ?c = "s - DEDUP_WINDOW_SLOTS"
  from inv have inv': "merger_inv ?m" by (simp add: merger_inv_def)
  have none: "mg_state m k = None" if "bt_get (mg_slot_index m) (fst k) = None"
    using inv that by (simp add: merger_inv_def)
  have "fst k \<in> set (expired_slots ?c (mg_slot_index ?m)) \<longleftrightarrow>
      bt_get (mg_slot_index m) (fst k) \<noteq> None \<and> fst k < ?c"
    using inv by (simp add: set_expired merger_inv_def)
  with drop_slots [OF inv', of "expired_slots ?c (mg_slot_index ?m)" k] none inv inv'
  show ?thesis by (auto simp: merger_advance_def Let_def dedup_floor_alt)
qed

lemma merger_process_frame [simp]:
  "mg_max_slot (merger_process o1 src m) = max (obs_slot o1) (mg_max_slot m)"
  "mg_max_slot (merger_recv src o1 m) = max (obs_slot o1) (mg_max_slot m)"
  by (simp_all add: merger_recv_def merger_process_def split: option.splits)


section \<open>What the merger promises\<close>

text \<open>
  The reference: of every key the first arrival, with the source it came from, in arrival order,
  up to the end of the loop.
\<close>

fun first_arrivals :: "(u64 \<times> hash) set \<Rightarrow> merger_event list \<Rightarrow> merged_entry list" where
  "first_arrivals K [] = []"
| "first_arrivals K (MRecv src o1 # es) =
     (if obs_key o1 \<in> K then first_arrivals K es
      else \<lparr>me_observation = o1, me_first_seen_source = src\<rparr> # first_arrivals (insert (obs_key o1) K) es)"
| "first_arrivals K (MRead # es) = first_arrivals K es"
| "first_arrivals K (MDisconnected src # es) = []"
| "first_arrivals K (MStop # es) = []"

text \<open>No arrival is for a slot the merger has already forgotten.\<close>

fun within_window :: "u64 \<Rightarrow> merger_event list \<Rightarrow> bool" where
  "within_window mx [] \<longleftrightarrow> True"
| "within_window mx (MRecv src o1 # es) \<longleftrightarrow>
     dedup_floor mx \<le> obs_slot o1 \<and> within_window (max (obs_slot o1) mx) es"
| "within_window mx (MRead # es) \<longleftrightarrow> within_window mx es"
| "within_window mx (MDisconnected src # es) \<longleftrightarrow> True"
| "within_window mx (MStop # es) \<longleftrightarrow> True"

definition knows :: "merger \<Rightarrow> (u64 \<times> hash) set \<Rightarrow> bool" where
  "knows m K \<longleftrightarrow> (\<forall>k. dedup_floor (mg_max_slot m) \<le> fst k \<longrightarrow> (mg_state m k = None \<longleftrightarrow> k \<notin> K))"

lemma knows_advance:
  assumes "merger_inv m" "knows m K"
  shows "knows (merger_advance s m) K"
  unfolding knows_def
proof (intro allI impI)
  fix k :: "u64 \<times> hash"
  assume k: "dedup_floor (mg_max_slot (merger_advance s m)) \<le> fst k"
  have "dedup_floor (mg_max_slot m) \<le> dedup_floor (max s (mg_max_slot m))"
    by (simp add: dedup_floor_mono)
  with k have "dedup_floor (mg_max_slot m) \<le> fst k" by simp
  moreover have "s > mg_max_slot m \<Longrightarrow> \<not> fst k < dedup_floor s"
    using k by (simp add: max_def not_less split: if_splits)
  ultimately show "mg_state (merger_advance s m) k = None \<longleftrightarrow> k \<notin> K"
    using assms by (auto simp: merger_advance_state knows_def)
qed

lemma merger_process_knows:
  assumes inv: "merger_inv m" and K: "knows m K" and w: "dedup_floor (mg_max_slot m) \<le> obs_slot o1"
  shows "merger_inv (merger_process o1 src m)"
    and "knows (merger_process o1 src m) (insert (obs_key o1) K)"
    and "ch_offered (mg_out (merger_process o1 src m)) = ch_offered (mg_out m) @
      (if obs_key o1 \<in> K then [] else [\<lparr>me_observation = o1, me_first_seen_source = src\<rparr>])"
proof -
  have st: "mg_state m (obs_key o1) = None \<longleftrightarrow> obs_key o1 \<notin> K"
    using K w by (simp add: knows_def obs_key_def)
  let ?m = "case mg_state m (obs_key o1) of None \<Rightarrow> merger_first o1 src m | Some d \<Rightarrow> merger_again o1 src d m"
  have proc: "merger_process o1 src m = merger_advance (obs_slot o1) ?m"
    by (simp add: merger_process_def obs_key_def)
  have inv': "merger_inv ?m"
    using inv by (auto simp: merger_inv_first merger_inv_again split: option.splits)
  have "knows ?m (insert (obs_key o1) K)"
    using K st by (auto simp: knows_def merger_again_dom split: option.splits)
  with inv' show "knows (merger_process o1 src m) (insert (obs_key o1) K)"
    unfolding proc by (rule knows_advance)
  from inv' show "merger_inv (merger_process o1 src m)"
    unfolding proc by (simp add: merger_advance_state)
  from st show "ch_offered (mg_out (merger_process o1 src m)) = ch_offered (mg_out m) @
      (if obs_key o1 \<in> K then [] else [\<lparr>me_observation = o1, me_first_seen_source = src\<rparr>])"
    unfolding proc by (auto split: option.splits)
qed

lemma merger_inv_counters [simp]:
  "merger_inv (m\<lparr>mg_counters := c\<rparr>) = merger_inv m" "merger_inv (m\<lparr>mg_out := ch\<rparr>) = merger_inv m"
  "knows (m\<lparr>mg_counters := c\<rparr>) K = knows m K" "knows (m\<lparr>mg_out := ch\<rparr>) K = knows m K"
  by (simp_all add: merger_inv_def knows_def)

lemma ch_offered_take [simp]: "ch_offered (ch_take c) = ch_offered c"
  by (simp add: ch_take_def)

lemma merger_run_offers:
  "merger_inv m \<Longrightarrow> knows m K \<Longrightarrow> within_window (mg_max_slot m) es \<Longrightarrow>
   ch_offered (mg_out (merger_run m es)) = ch_offered (mg_out m) @ first_arrivals K es"
proof (induction m es arbitrary: K rule: merger_run.induct)
  case (2 m src o1 es)
  let ?m = "m\<lparr>mg_counters := count_received src (mg_counters m)\<rparr>"
  have "merger_inv ?m" "knows ?m K" "dedup_floor (mg_max_slot ?m) \<le> obs_slot o1"
    using 2 by simp_all
  note step = merger_process_knows [OF this, of src]
  have "insert (obs_key o1) K = K" if "obs_key o1 \<in> K" using that by blast
  with 2 step show ?case
    by (cases "obs_key o1 \<in> K") (simp_all add: merger_recv_def)
qed simp_all

lemma first_arrivals_fresh: "e \<in> set (first_arrivals K es) \<Longrightarrow> obs_key (me_observation e) \<notin> K"
  by (induction K es rule: first_arrivals.induct) (fastforce split: if_splits)+

lemma first_arrivals_distinct: "distinct (map (\<lambda>e. obs_key (me_observation e)) (first_arrivals K es))"
proof (induction K es rule: first_arrivals.induct)
  case (2 K src o1 es)
  have "obs_key o1 \<notin> (\<lambda>e. obs_key (me_observation e)) ` set (first_arrivals (insert (obs_key o1) K) es)"
    using first_arrivals_fresh [where K = "insert (obs_key o1) K"] by force
  with 2 show ?case by (simp only: first_arrivals.simps) simp
qed simp_all

section \<open>Counting\<close>

definition merger_count_inv :: "merger \<Rightarrow> bool" where
  "merger_count_inv m \<longleftrightarrow> (let c = mg_counters m in
     mc_ss_received c + mc_ys_received c =
       of_nat (length (ch_sent (mg_out m))) + mc_output_full c
         + mc_confirmed_by_both c + mc_duplicates c
     \<and> mc_ss_first c + mc_ys_first c = of_nat (length (ch_offered (mg_out m)))
     \<and> of_nat (length (ch_offered (mg_out m))) =
         of_nat (length (ch_sent (mg_out m))) + mc_output_full c)"

definition latency_inv :: "merger_counters \<Rightarrow> bool" where
  "latency_inv c \<longleftrightarrow>
     mc_confirmed_by_both c = 0 \<and> mc_confirm_latency_min_ns c = - 1 \<and> mc_confirm_latency_max_ns c = 0
     \<or> mc_confirm_latency_min_ns c \<le> mc_confirm_latency_max_ns c"

lemma latency_inv_record [simp]: "latency_inv (record_confirm_latency d c)"
  by (simp add: latency_inv_def record_confirm_latency_def min.coboundedI2)

lemma merger_recv_latency: "latency_inv (mg_counters m) \<Longrightarrow> latency_inv (mg_counters (merger_recv src o1 m))"
proof -
  assume inv: "latency_inv (mg_counters m)"
  then have "latency_inv (count_received src (mg_counters m))"
    by (cases src) (simp_all add: latency_inv_def count_received_def)
  moreover have "latency_inv (mg_counters (merger_first o1 src m'))" if "latency_inv (mg_counters m')" for m'
    using that by (cases src) (simp_all add: latency_inv_def merger_first_def merger_emit_def
        count_first_def Let_def case_prod_beta)
  moreover have "latency_inv (mg_counters (merger_again o1 src d m'))" if "latency_inv (mg_counters m')" for m' d
    using that by (cases d) (simp_all add: merger_again_def latency_inv_def [where c = "x\<lparr>mc_duplicates := y\<rparr>" for x y]
        latency_inv_def [of "mg_counters m'"])
  ultimately show ?thesis
    by (simp add: merger_recv_def merger_process_def split: option.splits)
qed

lemma merger_run_latency: "latency_inv (mg_counters m) \<Longrightarrow> latency_inv (mg_counters (merger_run m es))"
  by (induction m es rule: merger_run.induct) (simp_all add: merger_recv_latency)

lemma merger_recv_counts: "merger_count_inv m \<Longrightarrow> merger_count_inv (merger_recv src o1 m)"
  by (cases src)
    (auto simp: merger_count_inv_def merger_recv_def merger_process_def merger_first_def
      merger_again_def merger_emit_def count_received_def count_first_def record_confirm_latency_def
      Let_def ch_sent_try_send case_prod_beta algebra_simps
      split: option.splits dedup_state.splits if_splits)

lemma merger_run_counts: "merger_count_inv m \<Longrightarrow> merger_count_inv (merger_run m es)"
proof (induction m es rule: merger_run.induct)
  case (3 m es)
  then show ?case by (simp add: merger_count_inv_def ch_take_def)
qed (simp_all add: merger_recv_counts)


lemma merger_run_ch_ok: "ch_ok (mg_out m) \<Longrightarrow> ch_ok (mg_out (merger_run m es))"
proof (induction m es rule: merger_run.induct)
  case (2 m src o1 es)
  have "ch_ok (mg_out (merger_recv src o1 m))"
    using 2(2) by (auto simp: merger_recv_def merger_process_def merger_first_def merger_emit_def
        Let_def case_prod_beta split: option.splits)
  with 2 show ?case by simp
qed simp_all

section \<open>Properties\<close>

text \<open>
  C1. As long as no arrival is for a slot already behind the deduplication window, the merger
  offers downstream exactly the first arrival of every (slot, entry hash), tagged with the source
  that delivered it first, in arrival order and once per key; what a full output channel lets
  through is a subsequence of that.
\<close>

theorem merger_exactly_once:
  assumes "within_window 0 es"
  shows "ch_offered (mg_out (merger_run (merger_init cap) es)) = first_arrivals {} es
    \<and> distinct (map (\<lambda>e. obs_key (me_observation e)) (first_arrivals {} es))
    \<and> subseq (ch_sent (mg_out (merger_run (merger_init cap) es))) (first_arrivals {} es)"
proof -
  have "knows (merger_init cap) {}" "ch_ok (mg_out (merger_init cap))"
    by (simp_all add: knows_def merger_init_def)
  moreover have "within_window (mg_max_slot (merger_init cap)) es"
    using assms by (simp add: merger_init_def)
  ultimately have "ch_offered (mg_out (merger_run (merger_init cap) es)) = first_arrivals {} es"
    by (simp add: merger_run_offers) (simp add: merger_init_def)
  then show ?thesis
    using merger_run_ch_ok [of "merger_init cap" es]
    by (simp add: first_arrivals_distinct ch_ok_def merger_init_def)
qed

definition merger_demo :: "merger_event list" where
  "merger_demo =
     [MRecv ShredStream (sample_obs 100 0 7 1 10), MRecv Yellowstone (sample_obs 100 0 7 1 25),
      MRead, MRecv Yellowstone (sample_obs 350 0 8 0 30), MRecv ShredStream (sample_obs 160 1 9 2 40)]"

theorem merger_exactly_once_witness:
  "within_window 0 merger_demo \<and>
   map (\<lambda>e. (obs_key (me_observation e), me_first_seen_source e))
     (ch_offered (mg_out (merger_run (merger_init (Some 8)) merger_demo))) =
   [((100, 7), ShredStream), ((350, 8), Yellowstone), ((160, 9), ShredStream)]"
proof -
  have w: "within_window 0 merger_demo"
    by (simp add: merger_demo_def dedup_floor_alt DEDUP_WINDOW_SLOTS_def)
  show ?thesis using w merger_exactly_once [OF w, of "Some 8"]
    by (simp add: merger_demo_def obs_key_def)
qed

text \<open>
  Every received observation is accounted for: it was delivered downstream, refused by a full
  output channel, absorbed as the other source's confirmation, or counted as a duplicate; and the
  two first-seen counters together count the offers.  The equations hold modulo \<open>2^64\<close>, for
  every order of arrivals, reads and shutdown.
\<close>

theorem merger_accounting:
  "let m = merger_run (merger_init cap) es; c = mg_counters m; ch = mg_out m in
     mc_ss_received c + mc_ys_received c =
       of_nat (length (ch_sent ch)) + mc_output_full c + mc_confirmed_by_both c + mc_duplicates c
     \<and> mc_ss_first c + mc_ys_first c = of_nat (length (ch_offered ch))
     \<and> mc_confirm_latency_min_ns (merger_snapshot c) \<le> mc_confirm_latency_max_ns (merger_snapshot c)"
proof -
  have "merger_count_inv (merger_init cap)" "latency_inv (mg_counters (merger_init cap))"
    by (simp_all add: merger_count_inv_def latency_inv_def merger_init_def merger_counters_new_def)
  then have "merger_count_inv (merger_run (merger_init cap) es)"
      "latency_inv (mg_counters (merger_run (merger_init cap) es))"
    by (simp_all add: merger_run_counts merger_run_latency)
  then show ?thesis
    by (auto simp: merger_count_inv_def latency_inv_def merger_snapshot_def Let_def)
qed

text \<open>
  Outside the window the promise fails: an entry that arrives again after its slot fell more
  than 200 slots behind is taken for new and emitted a second time.
\<close>

theorem merger_reemits_after_eviction:
  "map (\<lambda>e. obs_key (me_observation e))
     (ch_offered (mg_out (merger_run (merger_init None)
        [MRecv ShredStream (sample_obs 1 0 7 1 10), MRecv ShredStream (sample_obs 300 0 8 0 20),
         MRecv Yellowstone (sample_obs 1 0 7 1 30)]))) = [(1, 7), (300, 8), (1, 7)]"
  by (simp add: merger_recv_def merger_process_def merger_first_def merger_emit_def merger_advance_def
      merger_init_def drop_slot_def expired_slots_def bt_keys_def bt_get_or_def DEDUP_WINDOW_SLOTS_def
      try_send_def chan_new_def ch_room_def count_received_def count_first_def obs_key_def Let_def
      bt_remove_def)

end
