(* ===== verification/PohSupervisor.thy ===== *)
theory PohSupervisor
  imports Merger
begin

text \<open>
  The PoH supervisor (\<open>crates/tick-trigger-fan-out-bench/src/poh_supervisor.rs\<close>): it puts the
  merger's entries of every slot into index order, buffers what arrives early, replaces what does
  not arrive in time by \<open>Missing\<close> markers, and closes every slot with \<open>SlotComplete\<close> or
  \<open>SlotIncomplete\<close>.  The handlers are translated with their counters and their
  \<open>try_send\<close> calls; what they promise is proved in \<open>PohOrder\<close>.
\<close>

section \<open>Events and state\<close>

definition TICKS_PER_SLOT :: u8 where
  "TICKS_PER_SLOT = 64"

record ordered_entry =
  oe_slot :: u64
  oe_entry_index :: u32
  oe_tick_idx_in_slot :: u8
  oe_cumulative_hashes_in_slot :: u64
  oe_observation :: entry_obs
  oe_was_reordered :: bool
  oe_wait_duration_us :: u32
  oe_tick_uncertain :: bool

record ordered_missing =
  om_slot :: u64
  om_entry_index :: u32
  om_waited_for_us :: u32

record ordered_slot_complete =
  oc_slot :: u64
  oc_total_entries :: u32
  oc_last_entry_hash :: hash
  oc_last_tick_observed :: u8
  oc_missing_count :: u32

record ordered_slot_incomplete =
  oi_slot :: u64
  oi_last_seen_index :: u32
  oi_last_entry_hash :: hash
  oi_last_tick_observed :: u8
  oi_missing_count :: u32

datatype ordered_event =
    OEntry ordered_entry
  | OMissing ordered_missing
  | OSlotComplete ordered_slot_complete
  | OSlotIncomplete ordered_slot_incomplete

record poh_counters =
  pc_entries_emitted_immediate :: u64
  pc_entries_emitted_reordered :: u64
  pc_entries_missing_timeout :: u64
  pc_slots_complete :: u64
  pc_slots_incomplete :: u64
  pc_slots_with_missing :: u64
  pc_reorder_wait_sum_us :: u64
  pc_reorder_wait_max_us :: u64
  pc_pending_peak_size :: u64
  pc_pending_drops_capacity :: u64
  pc_duplicates_dropped :: u64
  pc_output_full :: u64
  pc_late_arrivals_after_seal :: u64

definition poh_counters_new :: poh_counters where
  "poh_counters_new =
     \<lparr>pc_entries_emitted_immediate = 0, pc_entries_emitted_reordered = 0,
      pc_entries_missing_timeout = 0, pc_slots_complete = 0, pc_slots_incomplete = 0,
      pc_slots_with_missing = 0, pc_reorder_wait_sum_us = 0, pc_reorder_wait_max_us = 0,
      pc_pending_peak_size = 0, pc_pending_drops_capacity = 0, pc_duplicates_dropped = 0,
      pc_output_full = 0, pc_late_arrivals_after_seal = 0\<rparr>"

record pending_entry =
  pe_merged :: merged_entry
  pe_buffered_at :: instant

record poh_slot =
  ps_next_expected_idx :: u32
  ps_pending :: "(u32, pending_entry) btree"
  ps_cumulative_hashes :: u64
  ps_hashes_since_last_tick :: u64
  ps_tick_idx :: u8
  ps_last_entry_hash :: "hash option"
  ps_last_entry_index :: u32
  ps_has_missing :: bool
  ps_missing_count :: u32
  ps_total_emitted :: u32
  ps_last_emit_at :: "instant option"
  ps_sealed :: bool

definition poh_slot_default :: poh_slot where
  "poh_slot_default =
     \<lparr>ps_next_expected_idx = 0, ps_pending = [], ps_cumulative_hashes = 0,
      ps_hashes_since_last_tick = 0, ps_tick_idx = 0, ps_last_entry_hash = None,
      ps_last_entry_index = 0, ps_has_missing = False, ps_missing_count = 0,
      ps_total_emitted = 0, ps_last_emit_at = None, ps_sealed = False\<rparr>"

record poh_cfg =
  cf_entry_timeout :: duration
  cf_slot_seal_lag_slots :: u64
  cf_max_pending_per_slot :: nat
  cf_tick_check_interval :: duration

text \<open>What every handler may touch besides the slot states: the counters and the output.\<close>

record poh_io =
  io_counters :: poh_counters
  io_out :: "ordered_event chan"

record supervisor =
  sup_slots :: "(u64, poh_slot) btree"
  sup_max_slot :: u64
  sup_last_sweep :: instant
  sup_io :: poh_io

definition supervisor_init :: "nat option \<Rightarrow> instant \<Rightarrow> supervisor" where
  "supervisor_init cap now =
     \<lparr>sup_slots = [], sup_max_slot = 0, sup_last_sweep = now,
      sup_io = \<lparr>io_counters = poh_counters_new, io_out = chan_new cap\<rparr>\<rparr>"

section \<open>Emitting\<close>

definition poh_send :: "ordered_event \<Rightarrow> poh_io \<Rightarrow> poh_io" where
  "poh_send e io =
     (let (out', ok) = try_send (io_out io) e; io' = io\<lparr>io_out := out'\<rparr> in
      if ok then io'
      else io'\<lparr>io_counters := (io_counters io')\<lparr>pc_output_full := pc_output_full (io_counters io') + 1\<rparr>\<rparr>)"

definition count_emitted :: "bool \<Rightarrow> u32 \<Rightarrow> poh_counters \<Rightarrow> poh_counters" where
  "count_emitted was_reordered wait_us c =
     (if was_reordered
      then c\<lparr>pc_entries_emitted_reordered := pc_entries_emitted_reordered c + 1,
             pc_reorder_wait_sum_us := pc_reorder_wait_sum_us c + ucast wait_us,
             pc_reorder_wait_max_us := max (pc_reorder_wait_max_us c) (ucast wait_us)\<rparr>
      else c\<lparr>pc_entries_emitted_immediate := pc_entries_emitted_immediate c + 1\<rparr>)"

text \<open>\<open>emit_entry\<close>: the update of the slot's PoH state, the event it builds from the updated
  state, and the whole operation.\<close>

definition note_entry :: "entry_obs \<Rightarrow> instant \<Rightarrow> poh_slot \<Rightarrow> poh_slot" where
  "note_entry o1 now ps =
     (let ps1 = ps\<lparr>ps_cumulative_hashes := sat_add (ps_cumulative_hashes ps) (obs_num_hashes o1),
                   ps_hashes_since_last_tick :=
                     sat_add (ps_hashes_since_last_tick ps) (obs_num_hashes o1)\<rparr>;
          ps2 = (if obs_tx_count o1 = 0 \<and> ps_tick_idx ps1 < TICKS_PER_SLOT
                 then ps1\<lparr>ps_tick_idx := sat_add (ps_tick_idx ps1) 1, ps_hashes_since_last_tick := 0\<rparr>
                 else ps1)
      in ps2\<lparr>ps_last_entry_hash := Some (obs_entry_hash o1),
             ps_last_entry_index := obs_entry_index o1,
             ps_last_emit_at := Some now,
             ps_total_emitted := sat_add (ps_total_emitted ps2) 1\<rparr>)"

definition entry_event :: "entry_obs \<Rightarrow> bool \<Rightarrow> u32 \<Rightarrow> poh_slot \<Rightarrow> ordered_entry" where
  "entry_event o1 was_reordered wait_us ps =
     \<lparr>oe_slot = obs_slot o1, oe_entry_index = obs_entry_index o1,
      oe_tick_idx_in_slot = ps_tick_idx ps, oe_cumulative_hashes_in_slot = ps_cumulative_hashes ps,
      oe_observation = o1, oe_was_reordered = was_reordered,
      oe_wait_duration_us = wait_us, oe_tick_uncertain = ps_has_missing ps\<rparr>"

definition emit_entry ::
    "merged_entry \<Rightarrow> instant \<Rightarrow> bool \<Rightarrow> u32 \<Rightarrow> poh_slot \<times> poh_io \<Rightarrow> poh_slot \<times> poh_io" where
  "emit_entry merged now was_reordered wait_us si =
     (let (ps, io) = si; o1 = me_observation merged; ps3 = note_entry o1 now ps;
          io1 = io\<lparr>io_counters := count_emitted was_reordered wait_us (io_counters io)\<rparr>
      in (ps3, poh_send (OEntry (entry_event o1 was_reordered wait_us ps3)) io1))"

lemma note_entry_frame [simp]:
  "ps_pending (note_entry o1 now ps) = ps_pending ps"
  "ps_next_expected_idx (note_entry o1 now ps) = ps_next_expected_idx ps"
  "ps_has_missing (note_entry o1 now ps) = ps_has_missing ps"
  "ps_missing_count (note_entry o1 now ps) = ps_missing_count ps"
  "ps_sealed (note_entry o1 now ps) = ps_sealed ps"
  "ps_total_emitted (note_entry o1 now ps) = sat_add (ps_total_emitted ps) 1"
  by (simp_all add: note_entry_def Let_def)

definition emit_missing ::
    "poh_cfg \<Rightarrow> u64 \<Rightarrow> instant \<Rightarrow> poh_slot \<times> poh_io \<Rightarrow> poh_slot \<times> poh_io" where
  "emit_missing cfg slot now si =
     (let (ps, io) = si;
          waited = (case bt_first (ps_pending ps) of
              Some (_, p) \<Rightarrow> clamp_u32 (as_micros (since now (pe_buffered_at p)))
            | None \<Rightarrow> clamp_u32 (as_micros (cf_entry_timeout cfg)));
          e = OMissing \<lparr>om_slot = slot, om_entry_index = ps_next_expected_idx ps,
                        om_waited_for_us = waited\<rparr>;
          ps1 = ps\<lparr>ps_missing_count := sat_add (ps_missing_count ps) 1,
                   ps_has_missing := True,
                   ps_next_expected_idx := ps_next_expected_idx ps + 1\<rparr>;
          io1 = io\<lparr>io_counters := (io_counters io)
                 \<lparr>pc_entries_missing_timeout := pc_entries_missing_timeout (io_counters io) + 1\<rparr>\<rparr>
      in (ps1, poh_send e io1))"

text \<open>The three lines that every drain repeats: pop the first pending entry, emit it as reordered
  with its wait, step the expected index.\<close>

definition advance_next :: "poh_slot \<times> poh_io \<Rightarrow> poh_slot \<times> poh_io" where
  "advance_next si = (let (ps, io) = si in
     (ps\<lparr>ps_next_expected_idx := ps_next_expected_idx ps + 1\<rparr>, io))"

definition pop_emit :: "pending_entry \<Rightarrow> instant \<Rightarrow> poh_slot \<times> poh_io \<Rightarrow> poh_slot \<times> poh_io" where
  "pop_emit p now si =
     (let (ps, io) = si;
          wait_us = clamp_u32 (as_micros (since now (pe_buffered_at p)))
      in advance_next (emit_entry (pe_merged p) now True wait_us
           (ps\<lparr>ps_pending := tl (ps_pending ps)\<rparr>, io)))"

lemma emit_entry_frame [simp]:
  "ps_pending (fst (emit_entry m now r w si)) = ps_pending (fst si)"
  "ps_next_expected_idx (fst (emit_entry m now r w si)) = ps_next_expected_idx (fst si)"
  "ps_has_missing (fst (emit_entry m now r w si)) = ps_has_missing (fst si)"
  "ps_missing_count (fst (emit_entry m now r w si)) = ps_missing_count (fst si)"
  "ps_sealed (fst (emit_entry m now r w si)) = ps_sealed (fst si)"
  by (simp_all add: emit_entry_def Let_def case_prod_beta)

lemma emit_missing_frame [simp]:
  "ps_pending (fst (emit_missing cfg s now si)) = ps_pending (fst si)"
  "ps_next_expected_idx (fst (emit_missing cfg s now si)) = ps_next_expected_idx (fst si) + 1"
  "ps_sealed (fst (emit_missing cfg s now si)) = ps_sealed (fst si)"
  "ps_tick_idx (fst (emit_missing cfg s now si)) = ps_tick_idx (fst si)"
  by (simp_all add: emit_missing_def Let_def case_prod_beta)

lemma advance_next_frame [simp]:
  "ps_pending (fst (advance_next si)) = ps_pending (fst si)"
  "ps_next_expected_idx (fst (advance_next si)) = ps_next_expected_idx (fst si) + 1"
  "ps_sealed (fst (advance_next si)) = ps_sealed (fst si)"
  "ps_tick_idx (fst (advance_next si)) = ps_tick_idx (fst si)"
  "snd (advance_next si) = snd si"
  by (simp_all add: advance_next_def Let_def case_prod_beta)

lemma pop_emit_frame [simp]:
  "ps_pending (fst (pop_emit p now si)) = tl (ps_pending (fst si))"
  "ps_next_expected_idx (fst (pop_emit p now si)) = ps_next_expected_idx (fst si) + 1"
  "ps_sealed (fst (pop_emit p now si)) = ps_sealed (fst si)"
  by (simp_all add: pop_emit_def Let_def case_prod_beta)

section \<open>The three draining loops\<close>

text \<open>How far the expected index is from the first pending one: the measure of the loops that
  emit \<open>Missing\<close> markers.\<close>

definition gap_to_first :: "poh_slot \<Rightarrow> nat" where
  "gap_to_first ps = (case bt_first (ps_pending ps) of
     None \<Rightarrow> 0 | Some (i, _) \<Rightarrow> unat (i - ps_next_expected_idx ps))"

lemma bt_first_Some: "bt_first m = Some e \<longleftrightarrow> (\<exists>m'. m = e # m')"
  by (auto simp: bt_first_def split: list.splits)

lemma bt_first_None: "bt_first m = None \<longleftrightarrow> m = []"
  by (auto simp: bt_first_def split: list.splits)

lemma gap_emit_missing:
  assumes "bt_first (ps_pending (fst si)) = Some (i, p)" "i \<noteq> ps_next_expected_idx (fst si)"
  shows "gap_to_first (fst (emit_missing cfg s now si)) < gap_to_first (fst si)"
  using assms unat_minus_Suc_less [OF assms(2)] by (simp add: gap_to_first_def)

lemma gap_emit_missing_pair:
  "ps_pending ps = (i, p) # m \<Longrightarrow> i \<noteq> ps_next_expected_idx ps \<Longrightarrow>
     gap_to_first (fst (emit_missing cfg s now (ps, io))) < gap_to_first ps"
  using gap_emit_missing [of "(ps, io)" i p cfg s now] by (simp add: bt_first_def)

function drain_consecutive_pending :: "instant \<Rightarrow> poh_slot \<times> poh_io \<Rightarrow> poh_slot \<times> poh_io" where
  "drain_consecutive_pending now si =
     (case bt_first (ps_pending (fst si)) of
        None \<Rightarrow> si
      | Some (first_idx, p) \<Rightarrow>
          if first_idx \<noteq> ps_next_expected_idx (fst si) then si
          else drain_consecutive_pending now (pop_emit p now si))"
  by pat_completeness auto
termination
  by (relation "measure (\<lambda>(now, si). length (ps_pending (fst si)))")
     (auto simp: bt_first_Some)

function sweep_slot :: "poh_cfg \<Rightarrow> u64 \<Rightarrow> instant \<Rightarrow> poh_slot \<times> poh_io \<Rightarrow> poh_slot \<times> poh_io" where
  "sweep_slot cfg slot_key now si =
     (case bt_first (ps_pending (fst si)) of
        None \<Rightarrow> si
      | Some (first_idx, p) \<Rightarrow>
          if first_idx = ps_next_expected_idx (fst si)
          then sweep_slot cfg slot_key now (pop_emit p now si)
          else if since now (pe_buffered_at p) \<ge> cf_entry_timeout cfg
          then sweep_slot cfg slot_key now (emit_missing cfg slot_key now si)
          else si)"
  by pat_completeness auto
termination
  by (relation "measures [\<lambda>(cfg, s, now, si). length (ps_pending (fst si)),
                          \<lambda>(cfg, s, now, si). gap_to_first (fst si)]")
     (auto simp: bt_first_Some gap_emit_missing_pair)

function seal_flush :: "poh_cfg \<Rightarrow> u64 \<Rightarrow> instant \<Rightarrow> u32 \<Rightarrow> poh_slot \<times> poh_io \<Rightarrow> poh_slot \<times> poh_io" where
  "seal_flush cfg slot_key now max_idx si =
     (if ps_next_expected_idx (fst si) \<le> max_idx
      then (case bt_first (ps_pending (fst si)) of
              None \<Rightarrow> si
            | Some (first_idx, p) \<Rightarrow>
                if first_idx = ps_next_expected_idx (fst si)
                then seal_flush cfg slot_key now max_idx (pop_emit p now si)
                else seal_flush cfg slot_key now max_idx (emit_missing cfg slot_key now si))
      else si)"
  by pat_completeness auto
termination
  by (relation "measures [\<lambda>(cfg, s, now, mx, si). length (ps_pending (fst si)),
                          \<lambda>(cfg, s, now, mx, si). gap_to_first (fst si)]")
     (auto simp: bt_first_Some gap_emit_missing_pair)

declare drain_consecutive_pending.simps [simp del] sweep_slot.simps [simp del] seal_flush.simps [simp del]

section \<open>The handlers\<close>

definition seal_state :: "poh_cfg \<Rightarrow> u64 \<Rightarrow> instant \<Rightarrow> poh_slot \<times> poh_io \<Rightarrow> poh_slot \<times> poh_io" where
  "seal_state cfg slot_key now si =
     (let (ps, io) = (case bt_last (ps_pending (fst si)) of
              None \<Rightarrow> si
            | Some (max_idx, _) \<Rightarrow> seal_flush cfg slot_key now max_idx si);
          ps1 = ps\<lparr>ps_sealed := True\<rparr>;
          c1 = (if ps_has_missing ps1
                then (io_counters io)\<lparr>pc_slots_with_missing := pc_slots_with_missing (io_counters io) + 1\<rparr>
                else io_counters io);
          last_hash = (case ps_last_entry_hash ps1 of None \<Rightarrow> 0 | Some h \<Rightarrow> h)
      in if ps_tick_idx ps1 \<ge> TICKS_PER_SLOT
         then (ps1, poh_send (OSlotComplete
                \<lparr>oc_slot = slot_key, oc_total_entries = ps_total_emitted ps1,
                 oc_last_entry_hash = last_hash, oc_last_tick_observed = ps_tick_idx ps1,
                 oc_missing_count = ps_missing_count ps1\<rparr>)
               (io\<lparr>io_counters := c1\<lparr>pc_slots_complete := pc_slots_complete c1 + 1\<rparr>\<rparr>))
         else (ps1, poh_send (OSlotIncomplete
                \<lparr>oi_slot = slot_key, oi_last_seen_index = ps_last_entry_index ps1,
                 oi_last_entry_hash = last_hash, oi_last_tick_observed = ps_tick_idx ps1,
                 oi_missing_count = ps_missing_count ps1\<rparr>)
               (io\<lparr>io_counters := c1\<lparr>pc_slots_incomplete := pc_slots_incomplete c1 + 1\<rparr>\<rparr>)))"

type_synonym slots_io = "(u64, poh_slot) btree \<times> poh_io"

definition seal_slot :: "poh_cfg \<Rightarrow> instant \<Rightarrow> u64 \<Rightarrow> slots_io \<Rightarrow> slots_io" where
  "seal_slot cfg now slot_key st =
     (case bt_get (fst st) slot_key of
        None \<Rightarrow> st
      | Some ps \<Rightarrow>
          if ps_sealed ps then st
          else let (ps', io') = seal_state cfg slot_key now (ps, snd st)
               in (bt_insert slot_key ps' (fst st), io'))"

definition process_state :: "poh_cfg \<Rightarrow> merged_entry \<Rightarrow> instant \<Rightarrow> poh_slot \<times> poh_io \<Rightarrow> poh_slot \<times> poh_io" where
  "process_state cfg merged now si =
     (let (ps0, io) = si; o1 = me_observation merged; idx = obs_entry_index o1 in
      if ps_sealed ps0
      then (ps0, io\<lparr>io_counters := (io_counters io)
              \<lparr>pc_late_arrivals_after_seal := pc_late_arrivals_after_seal (io_counters io) + 1\<rparr>\<rparr>)
      else
        let ps = (if ps_last_emit_at ps0 = None then ps0\<lparr>ps_last_emit_at := Some now\<rparr> else ps0) in
        if idx = ps_next_expected_idx ps
        then drain_consecutive_pending now (advance_next (emit_entry merged now False 0 (ps, io)))
        else if idx > ps_next_expected_idx ps
        then if length (ps_pending ps) \<ge> cf_max_pending_per_slot cfg
             then (ps, io\<lparr>io_counters := (io_counters io)
                    \<lparr>pc_pending_drops_capacity := pc_pending_drops_capacity (io_counters io) + 1\<rparr>\<rparr>)
             else let pend = bt_insert idx \<lparr>pe_merged = merged, pe_buffered_at = now\<rparr> (ps_pending ps)
                  in (ps\<lparr>ps_pending := pend\<rparr>,
                      io\<lparr>io_counters := (io_counters io)\<lparr>pc_pending_peak_size :=
                           max (pc_pending_peak_size (io_counters io)) (of_nat (length pend))\<rparr>\<rparr>)
        else ((if obs_tx_count o1 = 0 \<and> ps_tick_idx ps < TICKS_PER_SLOT
               then ps\<lparr>ps_tick_idx := sat_add (ps_tick_idx ps) 1\<rparr> else ps),
              io\<lparr>io_counters := (io_counters io)
                \<lparr>pc_duplicates_dropped := pc_duplicates_dropped (io_counters io) + 1\<rparr>\<rparr>))"

definition poh_process :: "poh_cfg \<Rightarrow> merged_entry \<Rightarrow> instant \<Rightarrow> slots_io \<Rightarrow> slots_io" where
  "poh_process cfg merged now st =
     (let slot = obs_slot (me_observation merged);
          (ps', io') = process_state cfg merged now (bt_get_or poh_slot_default (fst st) slot, snd st)
      in (bt_insert slot ps' (fst st), io'))"

text \<open>Phase A of the sweep for one slot, then the three phases.\<close>

definition sweep_one :: "poh_cfg \<Rightarrow> instant \<Rightarrow> u64 \<Rightarrow> slots_io \<Rightarrow> slots_io" where
  "sweep_one cfg now slot_key st =
     (case bt_get (fst st) slot_key of
        None \<Rightarrow> st
      | Some ps \<Rightarrow>
          if ps_sealed ps then st
          else let (ps', io') = sweep_slot cfg slot_key now (ps, snd st)
               in (bt_insert slot_key ps' (fst st), io'))"

definition to_seal :: "poh_cfg \<Rightarrow> u64 \<Rightarrow> (u64, poh_slot) btree \<Rightarrow> u64 list" where
  "to_seal cfg max_slot slots =
     map fst (filter (\<lambda>e. fst e \<le> max_slot - cf_slot_seal_lag_slots cfg \<and> \<not> ps_sealed (snd e)) slots)"

definition poh_sweep :: "poh_cfg \<Rightarrow> u64 \<Rightarrow> instant \<Rightarrow> slots_io \<Rightarrow> slots_io" where
  "poh_sweep cfg max_slot now st =
     (let st1 = fold (sweep_one cfg now) (bt_keys (fst st)) st;
          st2 = (if max_slot \<ge> cf_slot_seal_lag_slots cfg
                 then fold (seal_slot cfg now) (to_seal cfg max_slot (fst st1)) st1
                 else st1);
          drop_cutoff = sat_sub max_slot (cf_slot_seal_lag_slots cfg + 10)
      in (bt_retain (\<lambda>s ps. s > drop_cutoff \<or> \<not> ps_sealed ps) (fst st2), snd st2))"

section \<open>The loop\<close>

text \<open>
  \<open>SRecv m t u\<close> is one turn of the loop that received \<open>m\<close>, with the clock reading \<open>t\<close> inside
  \<open>process\<close> and \<open>u\<close> after it; \<open>STimeout u\<close> is a turn in which nothing arrived within the
  check interval; \<open>SRead\<close> is the engine reading from the output.
\<close>

datatype sup_event =
    SRecv merged_entry instant instant
  | STimeout instant
  | SRead

definition sup_maybe_sweep :: "poh_cfg \<Rightarrow> instant \<Rightarrow> supervisor \<Rightarrow> supervisor" where
  "sup_maybe_sweep cfg now sv =
     (if since now (sup_last_sweep sv) \<ge> cf_tick_check_interval cfg
      then let (slots', io') = poh_sweep cfg (sup_max_slot sv) now (sup_slots sv, sup_io sv)
           in sv\<lparr>sup_slots := slots', sup_io := io', sup_last_sweep := now\<rparr>
      else sv)"

definition sup_recv :: "poh_cfg \<Rightarrow> merged_entry \<Rightarrow> instant \<Rightarrow> supervisor \<Rightarrow> supervisor" where
  "sup_recv cfg merged now sv =
     (let s = obs_slot (me_observation merged);
          (slots', io') = poh_process cfg merged now (sup_slots sv, sup_io sv)
      in sv\<lparr>sup_max_slot := (if s > sup_max_slot sv then s else sup_max_slot sv),
            sup_slots := slots', sup_io := io'\<rparr>)"

fun sup_step :: "poh_cfg \<Rightarrow> sup_event \<Rightarrow> supervisor \<Rightarrow> supervisor" where
  "sup_step cfg (SRecv merged t u) sv = sup_maybe_sweep cfg u (sup_recv cfg merged t sv)"
| "sup_step cfg (STimeout u) sv = sup_maybe_sweep cfg u sv"
| "sup_step cfg SRead sv = sv\<lparr>sup_io := (sup_io sv)\<lparr>io_out := ch_take (io_out (sup_io sv))\<rparr>\<rparr>"

definition sup_run :: "poh_cfg \<Rightarrow> sup_event list \<Rightarrow> supervisor \<Rightarrow> supervisor" where
  "sup_run cfg es sv = fold (sup_step cfg) es sv"

text \<open>After the stop flag or a closed input: a last sweep, then every remaining slot is sealed.\<close>

definition sup_shutdown :: "poh_cfg \<Rightarrow> instant \<Rightarrow> supervisor \<Rightarrow> supervisor" where
  "sup_shutdown cfg now sv =
     (let st1 = poh_sweep cfg (sup_max_slot sv) now (sup_slots sv, sup_io sv);
          st2 = fold (seal_slot cfg now) (bt_keys (fst st1)) st1
      in sv\<lparr>sup_slots := fst st2, sup_io := snd st2\<rparr>)"

end
