(* ===== verification/PohOrder.thy ===== *)
theory PohOrder
  imports PohSupervisor
begin

text \<open>
  What the PoH supervisor promises: the contract of its handlers is the grammar of the event
  stream of one slot, \<open>seg_run\<close>, which each of them refines (\<open>follows\<close>,
  \<open>handles\<close>); the supervisor's invariant \<open>sup_ok\<close> lifts it to all slots and adds that
  counters count what was offered and that every observed slot is open or has ended.
\<close>

section \<open>The grammar of one slot's events\<close>

fun event_slot :: "ordered_event \<Rightarrow> u64" where
  "event_slot (OEntry e) = oe_slot e"
| "event_slot (OMissing e) = om_slot e"
| "event_slot (OSlotComplete e) = oc_slot e"
| "event_slot (OSlotIncomplete e) = oi_slot e"

fun is_end :: "ordered_event \<Rightarrow> bool" where
  "is_end (OSlotComplete e) = True"
| "is_end (OSlotIncomplete e) = True"
| "is_end (OEntry e) = False"
| "is_end (OMissing e) = False"

definition slot_events :: "u64 \<Rightarrow> ordered_event list \<Rightarrow> ordered_event list" where
  "slot_events s evs = filter (\<lambda>e. event_slot e = s) evs"

record segment =
  sg_next :: u32
  sg_missing :: u32
  sg_emitted :: u32

definition seg_init :: segment where
  "seg_init = \<lparr>sg_next = 0, sg_missing = 0, sg_emitted = 0\<rparr>"

fun seg_step :: "segment \<Rightarrow> ordered_event \<Rightarrow> segment option" where
  "seg_step sg (OEntry e) =
     (if oe_entry_index e = sg_next sg \<and> obs_entry_index (oe_observation e) = sg_next sg
         \<and> obs_slot (oe_observation e) = oe_slot e
         \<and> oe_tick_idx_in_slot e \<le> TICKS_PER_SLOT \<and> (oe_tick_uncertain e \<longleftrightarrow> sg_missing sg \<noteq> 0)
         \<and> (oe_was_reordered e \<or> oe_wait_duration_us e = 0)
      then Some (sg\<lparr>sg_next := sg_next sg + 1, sg_emitted := sat_add (sg_emitted sg) 1\<rparr>) else None)"
| "seg_step sg (OMissing e) =
     (if om_entry_index e = sg_next sg
      then Some (sg\<lparr>sg_next := sg_next sg + 1, sg_missing := sat_add (sg_missing sg) 1\<rparr>) else None)"
| "seg_step sg (OSlotComplete e) =
     (if oc_total_entries e = sg_emitted sg \<and> oc_missing_count e = sg_missing sg
         \<and> oc_last_tick_observed e = TICKS_PER_SLOT
      then Some seg_init else None)"
| "seg_step sg (OSlotIncomplete e) =
     (if oi_missing_count e = sg_missing sg \<and> oi_last_tick_observed e < TICKS_PER_SLOT
      then Some seg_init else None)"

fun seg_run :: "segment \<Rightarrow> ordered_event list \<Rightarrow> segment option" where
  "seg_run sg [] = Some sg"
| "seg_run sg (e # es) = (case seg_step sg e of None \<Rightarrow> None | Some sg' \<Rightarrow> seg_run sg' es)"

lemma seg_run_append: "seg_run sg (xs @ ys) =
    (case seg_run sg xs of None \<Rightarrow> None | Some sg' \<Rightarrow> seg_run sg' ys)"
  by (induction sg xs rule: seg_run.induct) (auto split: option.splits)

lemma slot_events_append [simp]: "slot_events s (xs @ ys) = slot_events s xs @ slot_events s ys"
  by (simp add: slot_events_def)

lemma slot_events_Nil [simp]: "slot_events s [] = []"
  by (simp add: slot_events_def)

lemma slot_events_all: "\<forall>e \<in> set evs. event_slot e = s \<Longrightarrow>
    slot_events t evs = (if t = s then evs else [])"
  by (auto simp: slot_events_def intro: filter_True filter_False)

section \<open>The invariant of one slot\<close>

definition pend_ok :: "u64 \<Rightarrow> poh_slot \<Rightarrow> bool" where
  "pend_ok s ps \<longleftrightarrow> bt_ok (ps_pending ps) \<and>
     (\<forall>(i, p) \<in> set (ps_pending ps). ps_next_expected_idx ps \<le> i
        \<and> obs_entry_index (me_observation (pe_merged p)) = i
        \<and> obs_slot (me_observation (pe_merged p)) = s)"

definition slot_inv :: "u64 \<Rightarrow> poh_slot \<Rightarrow> bool" where
  "slot_inv s ps \<longleftrightarrow> pend_ok s ps \<and> (ps_has_missing ps \<longleftrightarrow> ps_missing_count ps \<noteq> 0)
     \<and> ps_tick_idx ps \<le> TICKS_PER_SLOT"

definition seg_of :: "poh_slot \<Rightarrow> segment" where
  "seg_of ps = \<lparr>sg_next = ps_next_expected_idx ps, sg_missing = ps_missing_count ps,
                sg_emitted = ps_total_emitted ps\<rparr>"

text \<open>What the counters of a run of offers must say.\<close>

definition tally :: "(ordered_event \<Rightarrow> bool) \<Rightarrow> ordered_event chan \<Rightarrow> u64" where
  "tally P ch = of_nat (length (filter P (ch_offered ch)))"

fun is_entry :: "bool \<Rightarrow> ordered_event \<Rightarrow> bool" where
  "is_entry r (OEntry e) = (oe_was_reordered e = r)"
| "is_entry r e = False"

fun is_missing :: "ordered_event \<Rightarrow> bool" where
  "is_missing (OMissing e) = True"
| "is_missing e = False"

fun is_complete :: "ordered_event \<Rightarrow> bool" where
  "is_complete (OSlotComplete e) = True"
| "is_complete e = False"

fun is_incomplete :: "ordered_event \<Rightarrow> bool" where
  "is_incomplete (OSlotIncomplete e) = True"
| "is_incomplete e = False"

definition counts_ok :: "poh_io \<Rightarrow> bool" where
  "counts_ok io \<longleftrightarrow> (let c = io_counters io; ch = io_out io in
     pc_entries_emitted_immediate c = tally (is_entry False) ch
     \<and> pc_entries_emitted_reordered c = tally (is_entry True) ch
     \<and> pc_entries_missing_timeout c = tally is_missing ch
     \<and> pc_slots_complete c = tally is_complete ch
     \<and> pc_slots_incomplete c = tally is_incomplete ch
     \<and> of_nat (length (ch_offered ch)) = of_nat (length (ch_sent ch)) + pc_output_full c
     \<and> ch_ok ch)"

text \<open>
  The handlers' common contract: new events are appended, all of the slot at hand, and they take
  the segment of the old state to the segment of the new one.
\<close>

definition emits :: "u64 \<Rightarrow> poh_slot \<times> poh_io \<Rightarrow> poh_slot \<times> poh_io \<Rightarrow> ordered_event list \<Rightarrow> bool" where
  "emits s si si' evs \<longleftrightarrow>
     ch_offered (io_out (snd si')) = ch_offered (io_out (snd si)) @ evs
     \<and> (\<forall>e \<in> set evs. event_slot e = s)
     \<and> (slot_inv s (fst si) \<longrightarrow> slot_inv s (fst si'))
     \<and> (counts_ok (snd si) \<longrightarrow> counts_ok (snd si'))"

definition follows :: "u64 \<Rightarrow> poh_slot \<times> poh_io \<Rightarrow> poh_slot \<times> poh_io \<Rightarrow> bool" where
  "follows s si si' \<longleftrightarrow> (\<exists>evs. emits s si si' evs
     \<and> (slot_inv s (fst si) \<longrightarrow> seg_run (seg_of (fst si)) evs = Some (seg_of (fst si'))))"

lemma emits_refl: "emits s si si []"
  by (simp add: emits_def)

lemma emits_trans: "emits s a b xs \<Longrightarrow> emits s b c ys \<Longrightarrow> emits s a c (xs @ ys)"
  by (auto simp: emits_def)

lemma follows_refl [simp]: "follows s si si"
  by (auto simp: follows_def intro: exI [of _ "[]"] emits_refl)

lemma follows_trans [trans]: "follows s a b \<Longrightarrow> follows s b c \<Longrightarrow> follows s a c"
proof -
  assume "follows s a b" "follows s b c"
  then obtain xs ys where x: "emits s a b xs" "slot_inv s (fst a) \<longrightarrow> seg_run (seg_of (fst a)) xs = Some (seg_of (fst b))"
    and y: "emits s b c ys" "slot_inv s (fst b) \<longrightarrow> seg_run (seg_of (fst b)) ys = Some (seg_of (fst c))"
    by (auto simp: follows_def)
  have "slot_inv s (fst a) \<Longrightarrow> slot_inv s (fst b)" using x(1) by (simp add: emits_def)
  with x y show ?thesis unfolding follows_def
    by (intro exI [of _ "xs @ ys"]) (simp add: emits_trans seg_run_append)
qed

lemma follows_inv: "follows s a b \<Longrightarrow> slot_inv s (fst a) \<Longrightarrow> slot_inv s (fst b)"
  by (auto simp: follows_def emits_def)

section \<open>The operations refine the grammar\<close>

lemma tally_snoc: "ch_offered ch' = ch_offered ch @ [e] \<Longrightarrow>
    tally P ch' = tally P ch + (if P e then 1 else 0)"
  by (simp add: tally_def)

lemma poh_send_offered [simp]: "ch_offered (io_out (poh_send e io)) = ch_offered (io_out io) @ [e]"
  by (simp add: poh_send_def Let_def case_prod_beta)

lemma tally_send: "tally P (io_out (poh_send e io)) = tally P (io_out io) + (if P e then 1 else 0)"
  by (rule tally_snoc) simp

lemma poh_send_counters:
  "pc_entries_emitted_immediate (io_counters (poh_send e io)) = pc_entries_emitted_immediate (io_counters io)"
  "pc_entries_emitted_reordered (io_counters (poh_send e io)) = pc_entries_emitted_reordered (io_counters io)"
  "pc_entries_missing_timeout (io_counters (poh_send e io)) = pc_entries_missing_timeout (io_counters io)"
  "pc_slots_complete (io_counters (poh_send e io)) = pc_slots_complete (io_counters io)"
  "pc_slots_incomplete (io_counters (poh_send e io)) = pc_slots_incomplete (io_counters io)"
  by (simp_all add: poh_send_def Let_def case_prod_beta)

lemma poh_send_full:
  "of_nat (length (ch_offered (io_out io))) = of_nat (length (ch_sent (io_out io))) + pc_output_full (io_counters io)
   \<Longrightarrow> of_nat (length (ch_offered (io_out (poh_send e io)))) =
      of_nat (length (ch_sent (io_out (poh_send e io)))) + pc_output_full (io_counters (poh_send e io))"
  by (simp add: poh_send_def Let_def case_prod_beta ch_sent_try_send algebra_simps)

lemma poh_send_ch_ok: "ch_ok (io_out io) \<Longrightarrow> ch_ok (io_out (poh_send e io))"
  by (simp add: poh_send_def Let_def case_prod_beta)

lemma counts_ok_send: "counts_ok io \<Longrightarrow>
   pc_entries_emitted_immediate c = pc_entries_emitted_immediate (io_counters io) + (if is_entry False e then 1 else 0) \<Longrightarrow>
   pc_entries_emitted_reordered c = pc_entries_emitted_reordered (io_counters io) + (if is_entry True e then 1 else 0) \<Longrightarrow>
   pc_entries_missing_timeout c = pc_entries_missing_timeout (io_counters io) + (if is_missing e then 1 else 0) \<Longrightarrow>
   pc_slots_complete c = pc_slots_complete (io_counters io) + (if is_complete e then 1 else 0) \<Longrightarrow>
   pc_slots_incomplete c = pc_slots_incomplete (io_counters io) + (if is_incomplete e then 1 else 0) \<Longrightarrow>
   pc_output_full c = pc_output_full (io_counters io) \<Longrightarrow>
   counts_ok (poh_send e (io\<lparr>io_counters := c\<rparr>))"
  unfolding counts_ok_def Let_def poh_send_counters tally_send
  by (intro conjI poh_send_full poh_send_ch_ok) simp_all

lemma sat_add_1_neq_0 [simp]: "sat_add a 1 \<noteq> (0 :: 'a::len word)"
proof
  assume z: "sat_add a 1 = 0"
  with sat_add_mono [of a 1] have "a = 0" by simp
  with z show False by (simp add: sat_add_def split: if_splits)
qed

lemma sat_add_1_tick: "t < TICKS_PER_SLOT \<Longrightarrow> sat_add t 1 \<le> TICKS_PER_SLOT"
  by (simp add: TICKS_PER_SLOT_def word_le_nat_alt word_less_nat_alt unat_sat_add)

lemma note_entry_tick: "ps_tick_idx ps \<le> TICKS_PER_SLOT \<Longrightarrow> ps_tick_idx (note_entry o1 now ps) \<le> TICKS_PER_SLOT"
  by (simp add: note_entry_def Let_def sat_add_1_tick)

lemma count_emitted_ok: "counts_ok io \<Longrightarrow>
    counts_ok (poh_send (OEntry (entry_event o1 r w ps)) (io\<lparr>io_counters := count_emitted r w (io_counters io)\<rparr>))"
  by (rule counts_ok_send) (simp_all add: count_emitted_def entry_event_def)

lemma pend_ok_past: "pend_ok s ps \<Longrightarrow> \<forall>k \<in> fst ` set (ps_pending ps). ps_next_expected_idx ps < k \<Longrightarrow>
    pend_ok s (ps\<lparr>ps_next_expected_idx := ps_next_expected_idx ps + 1\<rparr>)"
  using word_less_Suc_le by (fastforce simp: pend_ok_def)

lemma pend_ok_cong: "ps_pending ps = ps_pending qs \<Longrightarrow> ps_next_expected_idx ps = ps_next_expected_idx qs \<Longrightarrow>
    pend_ok s ps = pend_ok s qs"
  by (simp add: pend_ok_def)

lemma oe_slot_entry_event [simp]: "oe_slot (entry_event o1 r w ps) = obs_slot o1"
  by (simp add: entry_event_def)

lemma emit_entry_follows:
  assumes "obs_entry_index (me_observation m) = ps_next_expected_idx ps"
    "obs_slot (me_observation m) = s" "r \<or> w = 0"
    "\<forall>k \<in> fst ` set (ps_pending ps). ps_next_expected_idx ps < k"
  shows "follows s (ps, io) (advance_next (emit_entry m now r w (ps, io)))"
proof -
  let ?o = "me_observation m"
  let ?ps = "note_entry ?o now ps"
  let ?io = "poh_send (OEntry (entry_event ?o r w ?ps)) (io\<lparr>io_counters := count_emitted r w (io_counters io)\<rparr>)"
  have eq: "advance_next (emit_entry m now r w (ps, io)) = (?ps\<lparr>ps_next_expected_idx := ps_next_expected_idx ps + 1\<rparr>, ?io)"
    by (simp add: emit_entry_def advance_next_def Let_def)
  have inv: "slot_inv s (?ps\<lparr>ps_next_expected_idx := ps_next_expected_idx ps + 1\<rparr>)" if "slot_inv s ps"
    using that pend_ok_past [of s ?ps] pend_ok_cong [of ?ps ps s] assms(4)
    by (simp add: slot_inv_def note_entry_tick)
  have "seg_run (seg_of ps) [OEntry (entry_event ?o r w ?ps)] =
      Some (seg_of (?ps\<lparr>ps_next_expected_idx := ps_next_expected_idx ps + 1\<rparr>))" if "slot_inv s ps"
    using that assms(1-3) by (auto simp: seg_of_def slot_inv_def entry_event_def note_entry_tick)
  then show ?thesis
    using inv assms(2) unfolding follows_def emits_def eq
    by (intro exI [of _ "[OEntry (entry_event ?o r w ?ps)]"])
      (simp add: count_emitted_ok)
qed

lemma emit_missing_follows:
  assumes "\<forall>k \<in> fst ` set (ps_pending ps). ps_next_expected_idx ps < k"
  shows "follows s (ps, io) (emit_missing cfg s now (ps, io))"
proof -
  obtain waited where eq: "emit_missing cfg s now (ps, io) =
     (let e = OMissing \<lparr>om_slot = s, om_entry_index = ps_next_expected_idx ps, om_waited_for_us = waited\<rparr>;
          ps0 = ps\<lparr>ps_missing_count := sat_add (ps_missing_count ps) 1, ps_has_missing := True\<rparr>
      in (ps0\<lparr>ps_next_expected_idx := ps_next_expected_idx ps0 + 1\<rparr>,
          poh_send e (io\<lparr>io_counters := (io_counters io)
                 \<lparr>pc_entries_missing_timeout := pc_entries_missing_timeout (io_counters io) + 1\<rparr>\<rparr>)))"
    by (simp add: emit_missing_def Let_def)
  let ?e = "OMissing \<lparr>om_slot = s, om_entry_index = ps_next_expected_idx ps, om_waited_for_us = waited\<rparr>"
  let ?ps = "ps\<lparr>ps_missing_count := sat_add (ps_missing_count ps) 1, ps_has_missing := True\<rparr>"
  have "counts_ok io \<Longrightarrow> counts_ok (poh_send ?e (io\<lparr>io_counters := (io_counters io)
                 \<lparr>pc_entries_missing_timeout := pc_entries_missing_timeout (io_counters io) + 1\<rparr>\<rparr>))"
    by (rule counts_ok_send) simp_all
  moreover have "slot_inv s (?ps\<lparr>ps_next_expected_idx := ps_next_expected_idx ?ps + 1\<rparr>)" if "slot_inv s ps"
  proof -
    have "pend_ok s ?ps" using that pend_ok_cong [of ?ps ps s] by (simp add: slot_inv_def)
    then have "pend_ok s (?ps\<lparr>ps_next_expected_idx := ps_next_expected_idx ?ps + 1\<rparr>)"
      by (rule pend_ok_past) (use assms in simp)
    with that show ?thesis by (simp add: slot_inv_def)
  qed
  ultimately show ?thesis unfolding follows_def emits_def eq Let_def
    by (intro exI [of _ "[?e]"]) (simp add: seg_of_def)
qed

lemma pop_emit_follows:
  assumes "slot_inv s ps" "ps_pending ps = (ps_next_expected_idx ps, p) # m"
  shows "follows s (ps, io) (pop_emit p now (ps, io))"
proof -
  let ?ps = "ps\<lparr>ps_pending := m\<rparr>"
  have "slot_inv s ?ps" "seg_of ?ps = seg_of ps" using assms by (simp_all add: slot_inv_def pend_ok_def seg_of_def)
  then have "follows s (ps, io) (?ps, io)"
    by (auto simp: follows_def emits_def intro: exI [of _ "[]"])
  also have "follows s (?ps, io) (pop_emit p now (ps, io))"
  proof -
    have "pop_emit p now (ps, io) = advance_next (emit_entry (pe_merged p) now True
            (clamp_u32 (as_micros (since now (pe_buffered_at p)))) (?ps, io))"
      using assms(2) by (simp add: pop_emit_def)
    moreover have "follows s (?ps, io) \<dots>"
      by (rule emit_entry_follows) (use assms in \<open>auto simp: slot_inv_def pend_ok_def\<close>)
    ultimately show ?thesis by simp
  qed
  finally show ?thesis .
qed


lemma slot_inv_first:
  assumes "slot_inv s (fst si)" "bt_first (ps_pending (fst si)) = Some (i, p)"
  shows "\<exists>m. ps_pending (fst si) = (i, p) # m" "ps_next_expected_idx (fst si) \<le> i"
    "i \<noteq> ps_next_expected_idx (fst si) \<Longrightarrow> \<forall>k \<in> fst ` set (ps_pending (fst si)). ps_next_expected_idx (fst si) < k"
proof -
  obtain m where m: "ps_pending (fst si) = (i, p) # m" using assms(2) by (auto simp: bt_first_Some)
  then show "\<exists>m. ps_pending (fst si) = (i, p) # m" "ps_next_expected_idx (fst si) \<le> i"
    using assms(1) by (auto simp: slot_inv_def pend_ok_def)
  then show "\<forall>k \<in> fst ` set (ps_pending (fst si)). ps_next_expected_idx (fst si) < k"
    if "i \<noteq> ps_next_expected_idx (fst si)"
    using that m assms(1) by (auto simp: slot_inv_def pend_ok_def intro: le_less_trans)
qed

lemma pop_emit_first:
  assumes "slot_inv s (fst si)" "bt_first (ps_pending (fst si)) = Some (ps_next_expected_idx (fst si), p)"
  shows "follows s si (pop_emit p now si)"
proof -
  obtain m where "ps_pending (fst si) = (ps_next_expected_idx (fst si), p) # m"
    using assms(2) by (auto simp: bt_first_Some)
  with assms(1) pop_emit_follows [of s "fst si" p m "snd si" now] show ?thesis by simp
qed

lemma emit_missing_first:
  assumes "slot_inv s (fst si)" "bt_first (ps_pending (fst si)) = Some (i, p)" "i \<noteq> ps_next_expected_idx (fst si)"
  shows "follows s si (emit_missing cfg s now si)"
  using emit_missing_follows [OF slot_inv_first(3) [OF assms], of s "snd si" cfg now] by simp

lemma drain_follows: "slot_inv s (fst si) \<Longrightarrow> follows s si (drain_consecutive_pending now si)"
proof (induction now si rule: drain_consecutive_pending.induct)
  case (1 now si)
  show ?case
  proof (cases "\<exists>p. bt_first (ps_pending (fst si)) = Some (ps_next_expected_idx (fst si), p)")
    case True
    then obtain p where p: "bt_first (ps_pending (fst si)) = Some (ps_next_expected_idx (fst si), p)" by blast
    note step = pop_emit_first [OF 1(2) p, of now]
    also have "follows s (pop_emit p now si) (drain_consecutive_pending now (pop_emit p now si))"
      using follows_inv [OF step 1(2)] p by (intro 1(1)) simp_all
    finally show ?thesis using p by (subst drain_consecutive_pending.simps) simp
  next
    case False
    then show ?thesis by (subst drain_consecutive_pending.simps) (auto split: option.splits)
  qed
qed

lemma sweep_slot_follows: "slot_inv s (fst si) \<Longrightarrow> follows s si (sweep_slot cfg s now si)"
proof (induction cfg s now si rule: sweep_slot.induct)
  case (1 cfg s now si)
  show ?case
  proof (cases "bt_first (ps_pending (fst si))")
    case None
    then show ?thesis by (subst sweep_slot.simps) simp
  next
    case (Some e)
    obtain i p where f: "bt_first (ps_pending (fst si)) = Some (i, p)" using Some by (cases e) simp
    consider "i = ps_next_expected_idx (fst si)"
      | "i \<noteq> ps_next_expected_idx (fst si)" "since now (pe_buffered_at p) \<ge> cf_entry_timeout cfg"
      | "i \<noteq> ps_next_expected_idx (fst si)" "\<not> since now (pe_buffered_at p) \<ge> cf_entry_timeout cfg" by blast
    then show ?thesis
    proof cases
      case 1
      note step = pop_emit_first [OF "1.prems" f [unfolded 1], of now]
      have "follows s (pop_emit p now si) (sweep_slot cfg s now (pop_emit p now si))"
        by (rule "1.IH"(1) [OF f refl 1 follows_inv [OF step "1.prems"]])
      with step show ?thesis using 1 f by (subst sweep_slot.simps) (simp add: follows_trans)
    next
      case 2
      note step = emit_missing_first [OF "1.prems" f 2(1), of cfg now]
      have "follows s (emit_missing cfg s now si) (sweep_slot cfg s now (emit_missing cfg s now si))"
        by (rule "1.IH"(2) [OF f refl 2 follows_inv [OF step "1.prems"]])
      with step show ?thesis using 2 f by (subst sweep_slot.simps) (simp add: follows_trans)
    next
      case 3
      then show ?thesis using f by (subst sweep_slot.simps) simp
    qed
  qed
qed

lemma seal_flush_follows: "slot_inv s (fst si) \<Longrightarrow> follows s si (seal_flush cfg s now mx si)"
proof (induction cfg s now mx si rule: seal_flush.induct)
  case (1 cfg s now mx si)
  show ?case
  proof (cases "ps_next_expected_idx (fst si) \<le> mx \<and> bt_first (ps_pending (fst si)) \<noteq> None")
    case False
    then show ?thesis by (subst seal_flush.simps) auto
  next
    case True
    then obtain i p where le: "ps_next_expected_idx (fst si) \<le> mx"
      and f: "bt_first (ps_pending (fst si)) = Some (i, p)" by auto
    show ?thesis
    proof (cases "i = ps_next_expected_idx (fst si)")
      case i: True
      note step = pop_emit_first [OF "1.prems" f [unfolded i], of now]
      have "follows s (pop_emit p now si) (seal_flush cfg s now mx (pop_emit p now si))"
        by (rule "1.IH"(1) [OF le f refl i follows_inv [OF step "1.prems"]])
      with step show ?thesis using i f le by (subst seal_flush.simps) (simp add: follows_trans)
    next
      case i: False
      note step = emit_missing_first [OF "1.prems" f i, of cfg now]
      have "follows s (emit_missing cfg s now si) (seal_flush cfg s now mx (emit_missing cfg s now si))"
        by (rule "1.IH"(2) [OF le f refl i follows_inv [OF step "1.prems"]])
      with step show ?thesis using i f le by (subst seal_flush.simps) (simp add: follows_trans)
    qed
  qed
qed

text \<open>The flush stops only when the buffer is empty.\<close>

lemma seal_flush_empties:
  "slot_inv s (fst si) \<Longrightarrow> \<forall>k \<in> fst ` set (ps_pending (fst si)). k \<le> mx \<Longrightarrow>
   ps_pending (fst (seal_flush cfg s now mx si)) = []"
proof (induction cfg s now mx si rule: seal_flush.induct)
  case (1 cfg s now mx si)
  show ?case
  proof (cases "bt_first (ps_pending (fst si))")
    case None
    then have "ps_pending (fst si) = []" by (simp add: bt_first_None)
    then show ?thesis by (subst seal_flush.simps) (simp add: bt_first_def)
  next
    case (Some e)
    obtain i p m where f: "bt_first (ps_pending (fst si)) = Some (i, p)" and m: "ps_pending (fst si) = (i, p) # m"
      using Some by (cases e) (auto simp: bt_first_Some)
    from m "1.prems" slot_inv_first(2) [OF "1.prems"(1) f]
    have le: "ps_next_expected_idx (fst si) \<le> mx" by (auto intro: order_trans)
    show ?thesis
    proof (cases "i = ps_next_expected_idx (fst si)")
      case i: True
      note step = pop_emit_first [OF "1.prems"(1) f [unfolded i], of now]
      have "ps_pending (fst (seal_flush cfg s now mx (pop_emit p now si))) = []"
        using "1.prems"(2) m by (intro "1.IH"(1) [OF le f refl i follows_inv [OF step "1.prems"(1)]]) simp
      then show ?thesis using i f le by (subst seal_flush.simps) simp
    next
      case i: False
      note step = emit_missing_first [OF "1.prems"(1) f i, of cfg now]
      have "ps_pending (fst (seal_flush cfg s now mx (emit_missing cfg s now si))) = []"
        using "1.prems"(2) m by (intro "1.IH"(2) [OF le f refl i follows_inv [OF step "1.prems"(1)]]) simp
      then show ?thesis using i f le by (subst seal_flush.simps) simp
    qed
  qed
qed


section \<open>The contract of the handlers\<close>

definition slot_seg :: "poh_slot \<Rightarrow> segment" where
  "slot_seg ps = (if ps_sealed ps then seg_init else seg_of ps)"

definition handles :: "u64 \<Rightarrow> poh_slot \<times> poh_io \<Rightarrow> poh_slot \<times> poh_io \<Rightarrow> bool" where
  "handles s si si' \<longleftrightarrow> (\<exists>evs. emits s si si' evs \<and>
     (slot_inv s (fst si) \<longrightarrow>
        seg_run (slot_seg (fst si)) evs = Some (slot_seg (fst si'))
        \<and> (ps_sealed (fst si') \<longrightarrow> ps_sealed (fst si) \<or> (\<exists>e \<in> set evs. is_end e))))"

lemma follows_handles: "follows s si si' \<Longrightarrow> ps_sealed (fst si') = ps_sealed (fst si) \<Longrightarrow>
    \<not> ps_sealed (fst si) \<Longrightarrow> handles s si si'"
  by (auto simp: follows_def handles_def slot_seg_def)

lemma drain_sealed [simp]: "ps_sealed (fst (drain_consecutive_pending now si)) = ps_sealed (fst si)"
proof (induction now si rule: drain_consecutive_pending.induct)
  case (1 now si)
  then show ?case by (subst drain_consecutive_pending.simps) (auto split: option.splits if_splits)
qed

lemma sweep_sealed [simp]: "ps_sealed (fst (sweep_slot cfg s now si)) = ps_sealed (fst si)"
proof (induction cfg s now si rule: sweep_slot.induct)
  case (1 cfg s now si)
  then show ?case by (subst sweep_slot.simps) (auto split: option.splits if_splits)
qed

lemma seal_flush_sealed [simp]: "ps_sealed (fst (seal_flush cfg s now mx si)) = ps_sealed (fst si)"
proof (induction cfg s now mx si rule: seal_flush.induct)
  case (1 cfg s now mx si)
  then show ?case by (subst seal_flush.simps) (auto split: option.splits if_splits)
qed

definition seal_end :: "u64 \<Rightarrow> poh_slot \<Rightarrow> ordered_event" where
  "seal_end s ps = (let h = (case ps_last_entry_hash ps of None \<Rightarrow> 0 | Some h \<Rightarrow> h) in
     if ps_tick_idx ps \<ge> TICKS_PER_SLOT
     then OSlotComplete \<lparr>oc_slot = s, oc_total_entries = ps_total_emitted ps, oc_last_entry_hash = h,
            oc_last_tick_observed = ps_tick_idx ps, oc_missing_count = ps_missing_count ps\<rparr>
     else OSlotIncomplete \<lparr>oi_slot = s, oi_last_seen_index = ps_last_entry_index ps,
            oi_last_entry_hash = h, oi_last_tick_observed = ps_tick_idx ps,
            oi_missing_count = ps_missing_count ps\<rparr>)"

definition seal_drained :: "poh_cfg \<Rightarrow> u64 \<Rightarrow> instant \<Rightarrow> poh_slot \<times> poh_io \<Rightarrow> poh_slot \<times> poh_io" where
  "seal_drained cfg s now si = (case bt_last (ps_pending (fst si)) of
     None \<Rightarrow> si | Some (mx, _) \<Rightarrow> seal_flush cfg s now mx si)"

lemma seal_drained_follows: "slot_inv s (fst si) \<Longrightarrow> follows s si (seal_drained cfg s now si)"
  by (auto simp: seal_drained_def seal_flush_follows split: option.splits)

lemma seal_drained_empty: "slot_inv s (fst si) \<Longrightarrow> ps_pending (fst (seal_drained cfg s now si)) = []"
proof (cases "bt_last (ps_pending (fst si))")
  case None
  then show ?thesis by (simp add: seal_drained_def bt_last_def split: if_splits)
next
  case (Some e)
  assume inv: "slot_inv s (fst si)"
  obtain mx p where e: "e = (mx, p)" by (cases e)
  have "\<forall>k \<in> fst ` set (ps_pending (fst si)). k \<le> mx"
    using inv bt_last_greatest [of "ps_pending (fst si)" mx p] Some e
    by (metis bt_get_in_keys pend_ok_def slot_inv_def)
  with inv Some e show ?thesis by (simp add: seal_drained_def seal_flush_empties)
qed

lemma seal_state_eq:
  assumes "\<not> ps_sealed (fst si)"
  shows "\<exists>c. seal_state cfg s now si =
     (let (ps, io) = seal_drained cfg s now si
      in (ps\<lparr>ps_sealed := True\<rparr>, poh_send (seal_end s ps) (io\<lparr>io_counters := c\<rparr>)))
   \<and> (counts_ok (snd (seal_drained cfg s now si)) \<longrightarrow>
        counts_ok (poh_send (seal_end s (fst (seal_drained cfg s now si)))
          ((snd (seal_drained cfg s now si))\<lparr>io_counters := c\<rparr>)))"
proof -
  obtain ps io where d: "seal_drained cfg s now si = (ps, io)" by fastforce
  let ?c1 = "if ps_has_missing ps
                then (io_counters io)\<lparr>pc_slots_with_missing := pc_slots_with_missing (io_counters io) + 1\<rparr>
                else io_counters io"
  let ?c = "if ps_tick_idx ps \<ge> TICKS_PER_SLOT then ?c1\<lparr>pc_slots_complete := pc_slots_complete ?c1 + 1\<rparr>
            else ?c1\<lparr>pc_slots_incomplete := pc_slots_incomplete ?c1 + 1\<rparr>"
  have "seal_state cfg s now si =
     (ps\<lparr>ps_sealed := True\<rparr>, poh_send (seal_end s ps) (io\<lparr>io_counters := ?c\<rparr>))"
    using d by (simp add: seal_state_def seal_drained_def seal_end_def Let_def)
  moreover have "counts_ok (poh_send (seal_end s ps) (io\<lparr>io_counters := ?c\<rparr>))" if "counts_ok io"
    using that by (rule counts_ok_send) (simp_all add: seal_end_def Let_def)
  ultimately show ?thesis using d by (intro exI [of _ ?c]) simp
qed

lemma seal_end_facts [simp]: "event_slot (seal_end s ps) = s" "is_end (seal_end s ps)"
  by (simp_all add: seal_end_def Let_def)

lemma seal_end_step: "slot_inv s ps \<Longrightarrow> seg_step (seg_of ps) (seal_end s ps) = Some seg_init"
  by (auto simp: seal_end_def Let_def seg_of_def slot_inv_def not_le)

lemma seal_state_sealed [simp]: "ps_sealed (fst (seal_state cfg s now si))"
  by (auto simp: seal_state_def Let_def case_prod_beta)

lemma seal_state_handles:
  assumes "slot_inv s (fst si)" "\<not> ps_sealed (fst si)"
  shows "handles s si (seal_state cfg s now si) \<and> ps_pending (fst (seal_state cfg s now si)) = []"
proof -
  obtain ps io where d: "seal_drained cfg s now si = (ps, io)" by fastforce
  obtain c where eq: "seal_state cfg s now si = (ps\<lparr>ps_sealed := True\<rparr>, poh_send (seal_end s ps) (io\<lparr>io_counters := c\<rparr>))"
    and c: "counts_ok io \<longrightarrow> counts_ok (poh_send (seal_end s ps) (io\<lparr>io_counters := c\<rparr>))"
    using seal_state_eq [OF assms(2), of cfg s now] d by auto
  from seal_drained_follows [OF assms(1), of cfg now] obtain evs where
    e: "emits s si (ps, io) evs" and run: "seg_run (seg_of (fst si)) evs = Some (seg_of ps)"
    using assms(1) d by (auto simp: follows_def)
  have inv: "slot_inv s ps" using e assms(1) by (simp add: emits_def)
  then have inv': "slot_inv s (ps\<lparr>ps_sealed := True\<rparr>)" by (simp add: slot_inv_def pend_ok_def)
  have emp: "ps_pending ps = []" using seal_drained_empty [OF assms(1), of cfg now] d by simp
  have "emits s si (seal_state cfg s now si) (evs @ [seal_end s ps])"
    using e c inv' eq by (auto simp: emits_def)
  moreover have "seg_run (slot_seg (fst si)) (evs @ [seal_end s ps]) = Some seg_init"
    using run assms(2) seal_end_step [OF inv] by (simp add: slot_seg_def seg_run_append)
  ultimately show ?thesis using eq emp unfolding handles_def
    by (intro conjI exI [of _ "evs @ [seal_end s ps]"]) (auto simp: slot_seg_def)
qed

lemma counts_ok_frame:
  "counts_ok io \<Longrightarrow>
   pc_entries_emitted_immediate c = pc_entries_emitted_immediate (io_counters io) \<Longrightarrow>
   pc_entries_emitted_reordered c = pc_entries_emitted_reordered (io_counters io) \<Longrightarrow>
   pc_entries_missing_timeout c = pc_entries_missing_timeout (io_counters io) \<Longrightarrow>
   pc_slots_complete c = pc_slots_complete (io_counters io) \<Longrightarrow>
   pc_slots_incomplete c = pc_slots_incomplete (io_counters io) \<Longrightarrow>
   pc_output_full c = pc_output_full (io_counters io) \<Longrightarrow>
   counts_ok (io\<lparr>io_counters := c\<rparr>)"
  by (simp add: counts_ok_def Let_def)

lemma quiet_handles:
  assumes "seg_of ps' = seg_of ps" "ps_sealed ps' = ps_sealed ps" "slot_inv s ps \<Longrightarrow> slot_inv s ps'"
    "counts_ok io \<Longrightarrow> counts_ok io'" "io_out io' = io_out io"
  shows "handles s (ps, io) (ps', io')"
  unfolding handles_def using assms by (intro exI [of _ "[]"]) (auto simp: emits_def slot_seg_def)

lemma slot_inv_cong: "pend_ok s ps' \<Longrightarrow> ps_has_missing ps' = ps_has_missing ps \<Longrightarrow>
    ps_missing_count ps' = ps_missing_count ps \<Longrightarrow> ps_tick_idx ps' \<le> TICKS_PER_SLOT \<Longrightarrow>
    slot_inv s ps \<Longrightarrow> slot_inv s ps'"
  by (simp add: slot_inv_def)

definition process_open :: "poh_cfg \<Rightarrow> merged_entry \<Rightarrow> instant \<Rightarrow> poh_slot \<Rightarrow> poh_slot" where
  "process_open cfg merged now ps = (if ps_last_emit_at ps = None then ps\<lparr>ps_last_emit_at := Some now\<rparr> else ps)"

lemma process_open_frame [simp]:
  "ps_pending (process_open cfg m now ps) = ps_pending ps"
  "ps_next_expected_idx (process_open cfg m now ps) = ps_next_expected_idx ps"
  "ps_has_missing (process_open cfg m now ps) = ps_has_missing ps"
  "ps_missing_count (process_open cfg m now ps) = ps_missing_count ps"
  "ps_sealed (process_open cfg m now ps) = ps_sealed ps"
  "ps_tick_idx (process_open cfg m now ps) = ps_tick_idx ps"
  "ps_total_emitted (process_open cfg m now ps) = ps_total_emitted ps"
  by (simp_all add: process_open_def)

lemma slot_inv_open: "slot_inv s ps \<Longrightarrow> slot_inv s (process_open cfg m now ps)"
  by (simp add: slot_inv_def pend_ok_def)

text \<open>Buffered entries between two handlers lie strictly beyond the expected index.\<close>

definition settled :: "poh_slot \<Rightarrow> bool" where
  "settled ps \<longleftrightarrow> (\<forall>k \<in> fst ` set (ps_pending ps). k \<noteq> ps_next_expected_idx ps)"

lemma drain_settled: "slot_inv s (fst si) \<Longrightarrow> settled (fst (drain_consecutive_pending now si))"
proof (induction now si rule: drain_consecutive_pending.induct)
  case (1 now si)
  show ?case
  proof (cases "\<exists>p. bt_first (ps_pending (fst si)) = Some (ps_next_expected_idx (fst si), p)")
    case True
    then obtain p where p: "bt_first (ps_pending (fst si)) = Some (ps_next_expected_idx (fst si), p)" by blast
    note step = pop_emit_first [OF 1(2) p, of now]
    have "settled (fst (drain_consecutive_pending now (pop_emit p now si)))"
      using follows_inv [OF step 1(2)] p by (intro 1(1)) simp_all
    then show ?thesis using p by (subst drain_consecutive_pending.simps) simp
  next
    case False
    then have "drain_consecutive_pending now si = si"
      by (subst drain_consecutive_pending.simps) (auto split: option.splits)
    moreover have "settled (fst si)"
      using False slot_inv_first(3) [OF 1(2)]
      by (cases "bt_first (ps_pending (fst si))") (fastforce simp: bt_first_None settled_def)+
    ultimately show ?thesis by simp
  qed
qed

lemma sweep_settled: "slot_inv s (fst si) \<Longrightarrow> settled (fst (sweep_slot cfg s now si))"
proof (induction cfg s now si rule: sweep_slot.induct)
  case (1 cfg s now si)
  show ?case
  proof (cases "bt_first (ps_pending (fst si))")
    case None
    then have "ps_pending (fst si) = []" by (simp add: bt_first_None)
    then show ?thesis by (subst sweep_slot.simps) (simp add: settled_def bt_first_def)
  next
    case (Some e)
    obtain i p where f: "bt_first (ps_pending (fst si)) = Some (i, p)" using Some by (cases e) simp
    consider "i = ps_next_expected_idx (fst si)"
      | "i \<noteq> ps_next_expected_idx (fst si)" "since now (pe_buffered_at p) \<ge> cf_entry_timeout cfg"
      | "i \<noteq> ps_next_expected_idx (fst si)" "\<not> since now (pe_buffered_at p) \<ge> cf_entry_timeout cfg" by blast
    then show ?thesis
    proof cases
      case 1
      note step = pop_emit_first [OF "1.prems" f [unfolded 1], of now]
      show ?thesis using 1 f "1.IH"(1) [OF f refl 1 follows_inv [OF step "1.prems"]]
        by (subst sweep_slot.simps) simp
    next
      case 2
      note step = emit_missing_first [OF "1.prems" f 2(1), of cfg now]
      show ?thesis using 2 f "1.IH"(2) [OF f refl 2 follows_inv [OF step "1.prems"]]
        by (subst sweep_slot.simps) simp
    next
      case 3
      then have "settled (fst si)"
        using slot_inv_first(3) [OF "1.prems" f] by (auto simp: settled_def)
      then show ?thesis using 3 f by (subst sweep_slot.simps) simp
    qed
  qed
qed

lemma process_state_handles:
  assumes "obs_slot (me_observation m) = s" "slot_inv s ps" "settled ps"
  shows "handles s (ps, io) (process_state cfg m now (ps, io))
    \<and> settled (fst (process_state cfg m now (ps, io)))"
proof -
  let ?idx = "obs_entry_index (me_observation m)" and ?ps = "process_open cfg m now ps"
  have inv: "slot_inv s ?ps" and set: "settled ?ps"
    using assms by (simp_all add: slot_inv_open settled_def)
  have op: "handles s (ps, io) r" if "handles s (?ps, io) r" for r
    using that inv assms(2) by (auto simp: handles_def emits_def slot_seg_def seg_of_def)
  note frame = counts_ok_frame [where io = io]
  show ?thesis
  proof (cases "ps_sealed ps")
    case True
    then show ?thesis using assms(3)
      by (auto simp: process_state_def intro!: quiet_handles counts_ok_frame)
  next
    case opn: False
    consider "?idx = ps_next_expected_idx ps" | "?idx > ps_next_expected_idx ps" "length (ps_pending ps) \<ge> cf_max_pending_per_slot cfg"
      | "?idx > ps_next_expected_idx ps" "\<not> length (ps_pending ps) \<ge> cf_max_pending_per_slot cfg"
      | "?idx < ps_next_expected_idx ps" by fastforce
    then show ?thesis
    proof cases
      case 1
      let ?si = "advance_next (emit_entry m now False 0 (?ps, io))"
      have lt: "\<forall>k \<in> fst ` set (ps_pending ?ps). ps_next_expected_idx ?ps < k"
        using inv set by (fastforce simp: slot_inv_def pend_ok_def settled_def)
      have f: "follows s (?ps, io) ?si"
        by (rule emit_entry_follows) (use 1 assms(1) lt in auto)
      have inv1: "slot_inv s (fst ?si)" using follows_inv [OF f] inv by simp
      have eq: "process_state cfg m now (ps, io) = drain_consecutive_pending now ?si"
        using 1 opn unfolding process_open_def by (auto simp: process_state_def Let_def)
      have "follows s (?ps, io) (process_state cfg m now (ps, io))"
        unfolding eq using f drain_follows [OF inv1] by (rule follows_trans)
      then have "handles s (?ps, io) (process_state cfg m now (ps, io))"
        using opn by (intro follows_handles) (simp_all add: eq)
      then show ?thesis using op drain_settled [OF inv1] by (simp add: eq)
    next
      case 2
      then have eq: "process_state cfg m now (ps, io) = (?ps, io\<lparr>io_counters := (io_counters io)
                    \<lparr>pc_pending_drops_capacity := pc_pending_drops_capacity (io_counters io) + 1\<rparr>\<rparr>)"
        using opn by (auto simp: process_state_def Let_def process_open_def)
      show ?thesis unfolding eq using set by (auto intro!: op quiet_handles counts_ok_frame)
    next
      case 3
      let ?pend = "bt_insert ?idx \<lparr>pe_merged = m, pe_buffered_at = now\<rparr> (ps_pending ps)"
      have eq: "process_state cfg m now (ps, io) = (?ps\<lparr>ps_pending := ?pend\<rparr>,
                      io\<lparr>io_counters := (io_counters io)\<lparr>pc_pending_peak_size :=
                           max (pc_pending_peak_size (io_counters io)) (of_nat (length ?pend))\<rparr>\<rparr>)"
        using 3 opn by (auto simp: process_state_def Let_def process_open_def)
      have "slot_inv s (?ps\<lparr>ps_pending := ?pend\<rparr>)"
      proof (rule slot_inv_cong [OF _ _ _ _ inv])
        have "set ?pend \<subseteq> insert (?idx, \<lparr>pe_merged = m, pe_buffered_at = now\<rparr>) (set (ps_pending ps))"
          by (rule bt_insert_subset)
        then show "pend_ok s (?ps\<lparr>ps_pending := ?pend\<rparr>)"
          using inv 3(1) assms(1) by (fastforce simp: slot_inv_def pend_ok_def)
      qed (use inv in \<open>simp_all add: slot_inv_def\<close>)
      moreover have "settled (?ps\<lparr>ps_pending := ?pend\<rparr>)" using set 3(1) by (auto simp: settled_def)
      ultimately show ?thesis unfolding eq by (auto intro!: op quiet_handles counts_ok_frame simp: seg_of_def)
    next
      case 4
      let ?ps' = "if obs_tx_count (me_observation m) = 0 \<and> ps_tick_idx ?ps < TICKS_PER_SLOT
               then ?ps\<lparr>ps_tick_idx := sat_add (ps_tick_idx ?ps) 1\<rparr> else ?ps"
      have eq: "process_state cfg m now (ps, io) = (?ps', io\<lparr>io_counters := (io_counters io)
                \<lparr>pc_duplicates_dropped := pc_duplicates_dropped (io_counters io) + 1\<rparr>\<rparr>)"
        using 4 opn by (auto simp: process_state_def Let_def process_open_def)
      have "slot_inv s ?ps'" "settled ?ps'"
        using inv set by (auto simp: slot_inv_def pend_ok_def settled_def sat_add_1_tick)
      then show ?thesis unfolding eq by (auto intro!: op quiet_handles counts_ok_frame simp: seg_of_def)
    qed
  qed
qed

section \<open>The invariant of the supervisor\<close>

text \<open>\<open>K\<close> is the set of slots an entry was received for.\<close>

definition slot_agrees :: "u64 \<Rightarrow> poh_slot option \<Rightarrow> ordered_event list \<Rightarrow> bool" where
  "slot_agrees s ops evs \<longleftrightarrow> (case ops of
       None \<Rightarrow> seg_run seg_init evs = Some seg_init
     | Some ps \<Rightarrow> seg_run seg_init evs = Some (slot_seg ps) \<and> slot_inv s ps \<and> settled ps
         \<and> (ps_sealed ps \<longrightarrow> (\<exists>e \<in> set evs. is_end e)))"

definition sup_ok :: "u64 set \<Rightarrow> slots_io \<Rightarrow> bool" where
  "sup_ok K st \<longleftrightarrow> bt_ok (fst st) \<and> counts_ok (snd st) \<and>
     (\<forall>s. let evs = slot_events s (ch_offered (io_out (snd st))) in
        slot_agrees s (bt_get (fst st) s) evs
        \<and> (s \<in> K \<longrightarrow> bt_get (fst st) s \<noteq> None \<or> (\<exists>e \<in> set evs. is_end e)))"

lemma slot_default_ok [simp]: "slot_inv s poh_slot_default" "settled poh_slot_default"
    "slot_seg poh_slot_default = seg_init" "\<not> ps_sealed poh_slot_default"
  by (simp_all add: slot_inv_def pend_ok_def settled_def slot_seg_def seg_of_def seg_init_def
      poh_slot_default_def)

lemma sup_ok_update:
  assumes ok: "sup_ok K (slots, io)" and ps: "ps = bt_get_or poh_slot_default slots s"
    and h: "handles s (ps, io) (ps', io')" and set: "settled ps'"
  shows "sup_ok (insert s K) (bt_insert s ps' slots, io')"
proof -
  from h obtain evs where e: "emits s (ps, io) (ps', io') evs"
    and run: "slot_inv s ps \<longrightarrow> seg_run (slot_seg ps) evs = Some (slot_seg ps')
        \<and> (ps_sealed ps' \<longrightarrow> ps_sealed ps \<or> (\<exists>e \<in> set evs. is_end e))"
    by (auto simp: handles_def)
  have ag: "slot_agrees s (bt_get slots s) (slot_events s (ch_offered (io_out io)))"
    using ok by (simp add: sup_ok_def Let_def)
  have inv: "slot_inv s ps" using ag ps by (cases "bt_get slots s") (simp_all add: slot_agrees_def)
  have old: "seg_run seg_init (slot_events s (ch_offered (io_out io))) = Some (slot_seg ps)"
    using ag ps by (cases "bt_get slots s") (simp_all add: slot_agrees_def)
  have ended: "\<exists>e \<in> set (slot_events s (ch_offered (io_out io))). is_end e" if "ps_sealed ps"
    using ag ps that by (cases "bt_get slots s") (simp_all add: slot_agrees_def)
  have off: "slot_events t (ch_offered (io_out io')) =
      slot_events t (ch_offered (io_out io)) @ (if t = s then evs else [])" for t
    using e slot_events_all [of evs s t] by (simp add: emits_def)
  have inv': "slot_inv s ps'" and cnt: "counts_ok io'"
    using e inv ok by (simp_all add: emits_def sup_ok_def)
  have "slot_agrees s (Some ps') (slot_events s (ch_offered (io_out io')))"
    using run inv old ended set inv' by (auto simp: slot_agrees_def off seg_run_append)
  with ok cnt show ?thesis unfolding sup_ok_def Let_def
    by (auto simp: off)
qed

lemma sup_ok_mono: "sup_ok K st \<Longrightarrow> J \<subseteq> K \<Longrightarrow> sup_ok J st"
  by (auto simp: sup_ok_def Let_def)

lemma poh_process_ok:
  assumes "sup_ok K st"
  shows "sup_ok (insert (obs_slot (me_observation m)) K) (poh_process cfg m now st)"
proof -
  let ?s = "obs_slot (me_observation m)" and ?ps = "bt_get_or poh_slot_default (fst st) (obs_slot (me_observation m))"
  obtain slots io where st: "st = (slots, io)" by (cases st)
  obtain ps' io' where p: "process_state cfg m now (?ps, io) = (ps', io')" by fastforce
  have "slot_agrees ?s (bt_get slots ?s) (slot_events ?s (ch_offered (io_out io)))"
    using assms by (simp add: sup_ok_def Let_def st)
  then have "slot_inv ?s ?ps" "settled ?ps"
    by (cases "bt_get slots ?s"; simp add: slot_agrees_def st)+
  from process_state_handles [OF refl this, of io cfg now]
  have "handles ?s (?ps, io) (ps', io')" "settled ps'" by (simp_all add: p)
  with sup_ok_update [of K slots io ?ps ?s ps' io'] assms st p show ?thesis
    by (simp add: poh_process_def Let_def)
qed

lemma sup_ok_slot: "sup_ok K st \<Longrightarrow> bt_get (fst st) s = Some ps \<Longrightarrow>
    slot_inv s ps \<and> settled ps"
  by (auto simp: sup_ok_def Let_def slot_agrees_def dest!: spec [of _ s])

lemma sup_ok_in: "sup_ok (insert s K) st' \<Longrightarrow> sup_ok K st'"
  by (rule sup_ok_mono) auto

lemma sweep_one_ok:
  assumes "sup_ok K st"
  shows "sup_ok K (sweep_one cfg now s st)"
proof (cases "\<exists>ps. bt_get (fst st) s = Some ps \<and> \<not> ps_sealed ps")
  case True
  then obtain ps where ps: "bt_get (fst st) s = Some ps" "\<not> ps_sealed ps" by blast
  obtain ps' io' where p: "sweep_slot cfg s now (ps, snd st) = (ps', io')" by fastforce
  have inv: "slot_inv s (fst (ps, snd st))" using sup_ok_slot [OF assms ps(1)] by simp
  have "handles s (ps, snd st) (ps', io')" "settled ps'"
    using follows_handles [OF sweep_slot_follows [OF inv]] sweep_settled [OF inv, of cfg now] ps(2) p
    by (metis fst_conv sweep_sealed)+
  with sup_ok_update [of K "fst st" "snd st" ps s ps' io'] assms ps p show ?thesis
    by (simp add: sweep_one_def sup_ok_in)
next
  case False
  then show ?thesis using assms by (auto simp: sweep_one_def split: option.splits)
qed

lemma seal_slot_ok:
  assumes "sup_ok K st"
  shows "sup_ok K (seal_slot cfg now s st)"
proof (cases "\<exists>ps. bt_get (fst st) s = Some ps \<and> \<not> ps_sealed ps")
  case True
  then obtain ps where ps: "bt_get (fst st) s = Some ps" "\<not> ps_sealed ps" by blast
  obtain ps' io' where p: "seal_state cfg s now (ps, snd st) = (ps', io')" by fastforce
  have inv: "slot_inv s (fst (ps, snd st))" using sup_ok_slot [OF assms ps(1)] by simp
  have "handles s (ps, snd st) (ps', io')" "settled ps'"
    using seal_state_handles [OF inv, of cfg now] ps(2) p by (simp_all add: settled_def)
  with sup_ok_update [of K "fst st" "snd st" ps s ps' io'] assms ps p show ?thesis
    by (simp add: seal_slot_def sup_ok_in)
next
  case False
  then show ?thesis using assms by (auto simp: seal_slot_def split: option.splits)
qed

lemma fold_inv: "(\<And>x st. P st \<Longrightarrow> P (f x st)) \<Longrightarrow> P st \<Longrightarrow> P (fold f xs st)"
  by (induction xs arbitrary: st) auto

lemma sup_ok_retain:
  assumes "sup_ok K (slots, io)" "\<And>s ps. bt_get slots s = Some ps \<Longrightarrow> \<not> Q s ps \<Longrightarrow> ps_sealed ps"
  shows "sup_ok K (bt_retain Q slots, io)"
proof -
  have ok: "bt_ok slots" using assms(1) by (simp add: sup_ok_def)
  have "slot_agrees s (bt_get (bt_retain Q slots) s) (slot_events s (ch_offered (io_out io)))
      \<and> (s \<in> K \<longrightarrow> bt_get (bt_retain Q slots) s \<noteq> None \<or> (\<exists>e \<in> set (slot_events s (ch_offered (io_out io))). is_end e))" for s
  proof -
    have "slot_agrees s (bt_get slots s) (slot_events s (ch_offered (io_out io)))"
      and K: "s \<in> K \<Longrightarrow> bt_get slots s \<noteq> None \<or> (\<exists>e \<in> set (slot_events s (ch_offered (io_out io))). is_end e)"
      using assms(1) by (simp_all add: sup_ok_def Let_def)
    then show ?thesis using assms(2) [of s] ok
      by (cases "bt_get slots s") (auto simp: bt_get_retain slot_agrees_def slot_seg_def)
  qed
  then show ?thesis using assms(1) ok by (simp add: sup_ok_def Let_def)
qed

lemma poh_sweep_ok:
  assumes "sup_ok K st"
  shows "sup_ok K (poh_sweep cfg mx now st)"
proof -
  let ?st1 = "fold (sweep_one cfg now) (bt_keys (fst st)) st"
  let ?st2 = "if mx \<ge> cf_slot_seal_lag_slots cfg then fold (seal_slot cfg now) (to_seal cfg mx (fst ?st1)) ?st1 else ?st1"
  have "sup_ok K ?st1" by (rule fold_inv [where P = "sup_ok K"]) (simp_all add: sweep_one_ok assms)
  then have "sup_ok K ?st2" by (simp add: fold_inv [where P = "sup_ok K"] seal_slot_ok)
  then show ?thesis unfolding poh_sweep_def Let_def
    by (intro sup_ok_retain) simp_all
qed

definition sup_st :: "supervisor \<Rightarrow> slots_io" where
  "sup_st sv = (sup_slots sv, sup_io sv)"

lemma maybe_sweep_ok: "sup_ok K (sup_st sv) \<Longrightarrow> sup_ok K (sup_st (sup_maybe_sweep cfg now sv))"
  using poh_sweep_ok [of K "sup_st sv" cfg "sup_max_slot sv" now]
  by (simp add: sup_maybe_sweep_def sup_st_def case_prod_beta)

lemma sup_recv_ok: "sup_ok K (sup_st sv) \<Longrightarrow>
    sup_ok (insert (obs_slot (me_observation m)) K) (sup_st (sup_recv cfg m now sv))"
  using poh_process_ok [of K "sup_st sv" m cfg now]
  by (simp add: sup_recv_def sup_st_def case_prod_beta Let_def)

fun received_slots :: "sup_event list \<Rightarrow> u64 set" where
  "received_slots [] = {}"
| "received_slots (SRecv m t u # es) = insert (obs_slot (me_observation m)) (received_slots es)"
| "received_slots (_ # es) = received_slots es"

lemma sup_ok_read: "sup_ok K (slots, io) \<Longrightarrow> sup_ok K (slots, io\<lparr>io_out := ch_take (io_out io)\<rparr>)"
  by (simp add: sup_ok_def counts_ok_def tally_def Let_def) (simp add: ch_take_def)

lemma sup_run_ok: "sup_ok K (sup_st sv) \<Longrightarrow> sup_ok (K \<union> received_slots es) (sup_st (sup_run cfg es sv))"
proof (induction es arbitrary: K sv)
  case (Cons e es)
  show ?case
  proof (cases e)
    case (SRecv m t u)
    have "sup_ok (insert (obs_slot (me_observation m)) K) (sup_st (sup_step cfg e sv))"
      using Cons.prems SRecv by (simp add: maybe_sweep_ok sup_recv_ok)
    from Cons.IH [OF this] SRecv show ?thesis by (simp add: sup_run_def)
  next
    case (STimeout u)
    have "sup_ok K (sup_st (sup_step cfg e sv))" using Cons.prems STimeout by (simp add: maybe_sweep_ok)
    from Cons.IH [OF this] STimeout show ?thesis by (simp add: sup_run_def)
  next
    case SRead
    have "sup_ok K (sup_st (sup_step cfg e sv))" using Cons.prems SRead sup_ok_read by (simp add: sup_st_def)
    from Cons.IH [OF this] SRead show ?thesis by (simp add: sup_run_def)
  qed
qed (simp add: sup_run_def)

lemma supervisor_init_ok: "sup_ok {} (sup_st (supervisor_init cap now))"
  by (simp add: sup_ok_def sup_st_def supervisor_init_def counts_ok_def tally_def Let_def
      poh_counters_new_def slot_agrees_def)

section \<open>What is sealed\<close>

definition unsealed :: "slots_io \<Rightarrow> u64 \<Rightarrow> bool" where
  "unsealed st s \<longleftrightarrow> (\<exists>ps. bt_get (fst st) s = Some ps \<and> \<not> ps_sealed ps)"

lemma unsealed_seal: "unsealed (seal_slot cfg now t st) s \<longleftrightarrow> unsealed st s \<and> s \<noteq> t"
proof (cases "bt_get (fst st) t")
  case None
  then show ?thesis by (auto simp: unsealed_def seal_slot_def)
next
  case (Some ps)
  have "ps_sealed (fst (seal_state cfg t now (ps, snd st)))" by simp
  with Some show ?thesis by (auto simp: unsealed_def seal_slot_def case_prod_beta)
qed

lemma unsealed_seal_all: "unsealed (fold (seal_slot cfg now) ks st) s \<longleftrightarrow> unsealed st s \<and> s \<notin> set ks"
  by (induction ks arbitrary: st) (auto simp: unsealed_seal)

lemma unsealed_sweep_one: "unsealed (sweep_one cfg now t st) s \<longleftrightarrow> unsealed st s"
proof (cases "bt_get (fst st) t")
  case None
  then show ?thesis by (auto simp: unsealed_def sweep_one_def)
next
  case (Some ps)
  have "ps_sealed (fst (sweep_slot cfg t now (ps, snd st))) = ps_sealed ps" by simp
  with Some show ?thesis by (auto simp: unsealed_def sweep_one_def case_prod_beta)
qed

lemma unsealed_key: "unsealed st s \<Longrightarrow> s \<in> set (bt_keys (fst st))"
  unfolding unsealed_def bt_keys_def set_map using bt_get_in_keys [of "fst st" s] by auto

lemma shutdown_sealed: "\<not> unsealed (sup_st (sup_shutdown cfg now sv)) s"
proof -
  let ?st1 = "poh_sweep cfg (sup_max_slot sv) now (sup_slots sv, sup_io sv)"
  have "sup_st (sup_shutdown cfg now sv) = fold (seal_slot cfg now) (bt_keys (fst ?st1)) ?st1"
    by (simp add: sup_shutdown_def sup_st_def Let_def)
  then show ?thesis using unsealed_key [of ?st1 s] by (simp add: unsealed_seal_all)
qed

lemma sweep_seals:
  assumes "sup_ok K st" "cf_slot_seal_lag_slots cfg \<le> mx" "s \<le> mx - cf_slot_seal_lag_slots cfg"
  shows "\<not> unsealed (poh_sweep cfg mx now st) s"
proof -
  let ?st1 = "fold (sweep_one cfg now) (bt_keys (fst st)) st"
  let ?st2 = "fold (seal_slot cfg now) (to_seal cfg mx (fst ?st1)) ?st1"
  have ok: "sup_ok K ?st1" by (rule fold_inv [where P = "sup_ok K"]) (simp_all add: sweep_one_ok assms)
  have ok2: "sup_ok K ?st2" by (rule fold_inv [where P = "sup_ok K"]) (simp_all add: seal_slot_ok ok)
  have "s \<in> set (to_seal cfg mx (fst ?st1))" if "unsealed ?st1 s"
  proof -
    from that obtain ps where "bt_get (fst ?st1) s = Some ps" "\<not> ps_sealed ps" by (auto simp: unsealed_def)
    moreover have "bt_ok (fst ?st1)" using ok by (simp add: sup_ok_def)
    ultimately have "(s, ps) \<in> set (fst ?st1)" by (simp add: bt_get_in_set)
    with \<open>\<not> ps_sealed ps\<close> show ?thesis using assms(3) by (force simp: to_seal_def)
  qed
  then have "\<not> unsealed ?st2 s" by (auto simp: unsealed_seal_all)
  then show ?thesis using assms(2) ok2
    by (auto simp: poh_sweep_def Let_def unsealed_def sup_ok_def bt_get_retain split: option.splits if_splits)
qed

lemma shutdown_ok: "sup_ok K (sup_st sv) \<Longrightarrow> sup_ok K (sup_st (sup_shutdown cfg now sv))"
proof -
  assume "sup_ok K (sup_st sv)"
  then have "sup_ok K (poh_sweep cfg (sup_max_slot sv) now (sup_st sv))" by (rule poh_sweep_ok)
  then show ?thesis
    by (simp add: sup_shutdown_def sup_st_def Let_def fold_inv [where P = "sup_ok K"] seal_slot_ok)
qed

lemma slot_agrees_run: "slot_agrees s ops evs \<Longrightarrow>
    seg_run seg_init evs = Some (case ops of None \<Rightarrow> seg_init | Some ps \<Rightarrow> slot_seg ps)"
  by (auto simp: slot_agrees_def split: option.splits)

section \<open>Properties\<close>

text \<open>
  C2. For every run of the supervisor, whatever the order of arrivals, duplicates, timeouts and
  sweeps, the events it offers for one slot are a run of the grammar: consecutive entry indices
  from 0, each either an entry observed at that index or a \<open>Missing\<close> marker, every entry flagged
  uncertain exactly when a marker came before it, an end event with the right counts, complete
  exactly at tick 64; the grammar's state is the slot's state.  What a full channel lets through
  is a subsequence.
\<close>

theorem poh_grammar:
  "let sv = sup_run cfg es (supervisor_init cap t0); off = ch_offered (io_out (sup_io sv)) in
     (\<forall>s. seg_run seg_init (slot_events s off) =
          Some (case bt_get (sup_slots sv) s of None \<Rightarrow> seg_init | Some ps \<Rightarrow> slot_seg ps))
     \<and> subseq (ch_sent (io_out (sup_io sv))) off"
proof -
  let ?sv = "sup_run cfg es (supervisor_init cap t0)"
  have "sup_ok (received_slots es) (sup_st ?sv)"
    using sup_run_ok [OF supervisor_init_ok] by simp
  then have ag: "slot_agrees s (bt_get (sup_slots ?sv) s) (slot_events s (ch_offered (io_out (sup_io ?sv))))"
    and ch: "ch_ok (io_out (sup_io ?sv))" for s
    by (simp_all add: sup_ok_def sup_st_def counts_ok_def Let_def)
  from slot_agrees_run [OF ag] ch show ?thesis
    unfolding Let_def ch_ok_def by blast
qed

text \<open>
  C3. After the shutdown sequence every slot an entry was received for has its end event, no
  segment is left open, and nothing is left buffered or unsealed: never neither
  \<open>SlotComplete\<close> nor \<open>SlotIncomplete\<close>.
\<close>

theorem poh_every_slot_ends:
  assumes "s \<in> received_slots es"
  shows "let sv = sup_shutdown cfg now (sup_run cfg es (supervisor_init cap t0));
             evs = slot_events s (ch_offered (io_out (sup_io sv))) in
     (\<exists>e \<in> set evs. is_end e) \<and> seg_run seg_init evs = Some seg_init"
proof -
  let ?sv = "sup_shutdown cfg now (sup_run cfg es (supervisor_init cap t0))"
  let ?evs = "slot_events s (ch_offered (io_out (sup_io ?sv)))"
  have "sup_ok (received_slots es) (sup_st (sup_run cfg es (supervisor_init cap t0)))"
    using sup_run_ok [OF supervisor_init_ok] by simp
  then have ok: "sup_ok (received_slots es) (sup_st ?sv)" by (rule shutdown_ok)
  have uns: "\<not> unsealed (sup_st ?sv) s" by (rule shutdown_sealed)
  have ag: "slot_agrees s (bt_get (sup_slots ?sv) s) ?evs"
    and K: "bt_get (sup_slots ?sv) s \<noteq> None \<or> (\<exists>e \<in> set ?evs. is_end e)"
    using ok assms by (simp_all add: sup_ok_def sup_st_def Let_def)
  have run: "seg_run seg_init ?evs = Some seg_init"
    using ag uns by (cases "bt_get (sup_slots ?sv) s") (auto simp: slot_agrees_def unsealed_def sup_st_def slot_seg_def)
  have "\<exists>e \<in> set ?evs. is_end e"
    using K ag uns by (cases "bt_get (sup_slots ?sv) s") (auto simp: slot_agrees_def unsealed_def sup_st_def)
  with run show ?thesis by (auto simp: Let_def)
qed

text \<open>
  The counters are exact (modulo \<open>2^64\<close>) for every run: entries emitted directly and from
  the buffer, markers, complete and incomplete slots count the offered events of that kind, and
  every offer was delivered or counted as refused.
\<close>

theorem poh_counters_exact:
  "let sv = sup_shutdown cfg now (sup_run cfg es (supervisor_init cap t0));
       c = io_counters (sup_io sv); ch = io_out (sup_io sv) in
     pc_entries_emitted_immediate c = tally (is_entry False) ch
     \<and> pc_entries_emitted_reordered c = tally (is_entry True) ch
     \<and> pc_entries_missing_timeout c = tally is_missing ch
     \<and> pc_slots_complete c = tally is_complete ch
     \<and> pc_slots_incomplete c = tally is_incomplete ch
     \<and> of_nat (length (ch_offered ch)) = of_nat (length (ch_sent ch)) + pc_output_full c"
proof -
  have "sup_ok (received_slots es) (sup_st (sup_run cfg es (supervisor_init cap t0)))"
    using sup_run_ok [OF supervisor_init_ok] by simp
  then have "sup_ok (received_slots es) (sup_st (sup_shutdown cfg now (sup_run cfg es (supervisor_init cap t0))))"
    by (rule shutdown_ok)
  then show ?thesis by (simp add: sup_ok_def sup_st_def counts_ok_def Let_def)
qed

definition demo_cfg :: poh_cfg where
  "demo_cfg = \<lparr>cf_entry_timeout = 100, cf_slot_seal_lag_slots = 5, cf_max_pending_per_slot = 16,
               cf_tick_check_interval = 10\<rparr>"

definition merged_of :: "entry_obs \<Rightarrow> merged_entry" where
  "merged_of o1 = \<lparr>me_observation = o1, me_first_seen_source = ShredStream\<rparr>"

fun event_shape :: "ordered_event \<Rightarrow> u64 \<times> u32 \<times> string" where
  "event_shape (OEntry e) = (oe_slot e, oe_entry_index e, ''entry'')"
| "event_shape (OMissing e) = (om_slot e, om_entry_index e, ''missing'')"
| "event_shape (OSlotComplete e) = (oc_slot e, oc_total_entries e, ''complete'')"
| "event_shape (OSlotIncomplete e) = (oi_slot e, oi_last_seen_index e, ''incomplete'')"


lemma drain_Nil: "ps_pending ps = [] \<Longrightarrow> drain_consecutive_pending now (ps, io) = (ps, io)"
  by (subst drain_consecutive_pending.simps) (simp add: bt_first_def)

lemma drain_Cons: "ps_pending ps = (i, p) # m \<Longrightarrow> drain_consecutive_pending now (ps, io) =
    (if i = ps_next_expected_idx ps then drain_consecutive_pending now (pop_emit p now (ps, io)) else (ps, io))"
  by (subst drain_consecutive_pending.simps) (simp add: bt_first_def)

lemma sweep_slot_Nil: "ps_pending ps = [] \<Longrightarrow> sweep_slot cfg s now (ps, io) = (ps, io)"
  by (subst sweep_slot.simps) (simp add: bt_first_def)

lemma sweep_slot_Cons: "ps_pending ps = (i, p) # m \<Longrightarrow> sweep_slot cfg s now (ps, io) =
    (if i = ps_next_expected_idx ps then sweep_slot cfg s now (pop_emit p now (ps, io))
     else if since now (pe_buffered_at p) \<ge> cf_entry_timeout cfg
     then sweep_slot cfg s now (emit_missing cfg s now (ps, io)) else (ps, io))"
  by (subst sweep_slot.simps) (simp add: bt_first_def)

lemma seal_flush_Nil: "ps_pending ps = [] \<Longrightarrow> seal_flush cfg s now mx (ps, io) = (ps, io)"
  by (subst seal_flush.simps) (simp add: bt_first_def)

lemma seal_flush_Cons: "ps_pending ps = (i, p) # m \<Longrightarrow> seal_flush cfg s now mx (ps, io) =
    (if ps_next_expected_idx ps \<le> mx
     then if i = ps_next_expected_idx ps then seal_flush cfg s now mx (pop_emit p now (ps, io))
          else seal_flush cfg s now mx (emit_missing cfg s now (ps, io))
     else (ps, io))"
  by (subst seal_flush.simps) (simp add: bt_first_def)

lemmas poh_eval =
  sup_run_def sup_recv_def sup_maybe_sweep_def sup_shutdown_def supervisor_init_def
  poh_process_def process_state_def poh_sweep_def sweep_one_def seal_slot_def to_seal_def seal_state_def
  drain_Nil drain_Cons sweep_slot_Nil sweep_slot_Cons seal_flush_Nil seal_flush_Cons
  pop_emit_def emit_missing_def emit_entry_def advance_next_def note_entry_def entry_event_def
  count_emitted_def poh_send_def poh_slot_default_def poh_counters_new_def
  bt_keys_def bt_first_def bt_last_def bt_retain_def try_send_def ch_room_def chan_new_def ch_take_def
  since_def as_micros_def clamp_u32_def sat_add_def sat_sub_def TICKS_PER_SLOT_def Let_def

definition demo_reopen :: "sup_event list" where
  "demo_reopen =
     [SRecv (merged_of (sample_obs 7 0 1 1 0)) 0 1, SRecv (merged_of (sample_obs 50 0 2 1 0)) 2 30,
      SRecv (merged_of (sample_obs 7 1 1 1 0)) 31 100]"

text \<open>
  The two end events the module comment excludes: after a sealed slot's state was dropped, a
  late entry opens the slot again, its index 0 is reported missing although it was emitted, and
  the slot ends a second time.
\<close>

theorem poh_slot_ends_twice:
  "map event_shape (slot_events 7 (ch_offered (io_out (sup_io
      (sup_run demo_cfg demo_reopen (supervisor_init None 0)))))) =
    [(7, 0, ''entry''), (7, 0, ''incomplete''),
     (7, 0, ''missing''), (7, 1, ''entry''), (7, 1, ''incomplete'')]"
  by (simp add: poh_eval demo_cfg_def merged_of_def demo_reopen_def slot_events_def)

text \<open>
  Two entries buffered for the same index (the merger passes on both when their hashes differ):
  the second replaces the first, which is neither emitted nor counted anywhere.
\<close>

theorem poh_buffer_overwrites:
  "let sv = sup_run demo_cfg
        [SRecv (merged_of (sample_obs 7 2 1 1 0)) 0 1, SRecv (merged_of (sample_obs 7 2 2 1 0)) 2 3,
         STimeout 200] (supervisor_init None 0); c = io_counters (sup_io sv) in
     map event_shape (ch_offered (io_out (sup_io sv))) =
       [(7, 0, ''missing''), (7, 1, ''missing''), (7, 2, ''entry'')]
     \<and> pc_entries_emitted_immediate c + pc_entries_emitted_reordered c = 1
     \<and> pc_pending_drops_capacity c = 0 \<and> pc_duplicates_dropped c = 0
     \<and> pc_late_arrivals_after_seal c = 0
     \<and> map (\<lambda>(s, ps). ps_pending ps) (sup_slots sv) = [[]]"
  by (simp add: poh_eval demo_cfg_def merged_of_def)

definition demo_gap :: "sup_event list" where
  "demo_gap = [SRecv (merged_of (sample_obs 7 0 1 1 0)) 0 1, SRecv (merged_of (sample_obs 7 2 2 1 0)) 2 3,
               STimeout 200]"

theorem poh_every_slot_ends_witness:
  "(7::u64) \<in> received_slots demo_gap \<and>
   (let sv = sup_shutdown demo_cfg 1000 (sup_run demo_cfg demo_gap (supervisor_init (Some 8) 0));
        evs = slot_events 7 (ch_offered (io_out (sup_io sv))) in
     map event_shape evs = [(7, 0, ''entry''), (7, 1, ''missing''), (7, 2, ''entry''), (7, 2, ''incomplete'')]
     \<and> seg_run seg_init evs = Some seg_init)"
proof -
  have r: "(7::u64) \<in> received_slots demo_gap"
    by (simp add: demo_gap_def merged_of_def)
  have "map event_shape (slot_events 7 (ch_offered (io_out (sup_io
      (sup_shutdown demo_cfg 1000 (sup_run demo_cfg demo_gap (supervisor_init (Some 8) 0))))))) =
    [(7, 0, ''entry''), (7, 1, ''missing''), (7, 2, ''entry''), (7, 2, ''incomplete'')]"
    by (simp add: poh_eval demo_cfg_def merged_of_def demo_gap_def slot_events_def)
  with r poh_every_slot_ends [OF r, of demo_cfg 1000 "Some 8" 0] show ?thesis
    by (simp add: Let_def)
qed

text \<open>
  Sealing is prompt: whatever state the loop is in, a sweep leaves no unsealed slot at or
  behind the newest slot minus the lag.
\<close>

theorem poh_sweep_seals_lagging:
  assumes "cf_slot_seal_lag_slots cfg \<le> mx"
    and "s \<le> mx - cf_slot_seal_lag_slots cfg"
    and "sv = sup_run cfg es (supervisor_init cap t0)"
    and "bt_get (fst (poh_sweep cfg mx now (sup_slots sv, sup_io sv))) s = Some ps"
  shows "ps_sealed ps"
proof -
  have "sup_ok (received_slots es) (sup_st sv)"
    using sup_run_ok [OF supervisor_init_ok, of es cfg cap t0] assms(3) by simp
  from sweep_seals [OF this assms(1,2), of now] assms(4) show ?thesis
    by (auto simp: unsealed_def sup_st_def)
qed

theorem poh_sweep_seals_lagging_witness:
  "\<exists>ps. bt_get (fst (poh_sweep demo_cfg 12 4 (let sv = sup_run demo_cfg demo_gap (supervisor_init None 0)
      in (sup_slots sv, sup_io sv)))) 7 = Some ps \<and> ps_sealed ps"
proof -
  let ?sv = "sup_run demo_cfg demo_gap (supervisor_init None 0)"
  have "bt_get (fst (poh_sweep demo_cfg 12 4 (sup_slots ?sv, sup_io ?sv))) 7 \<noteq> None"
    by (simp add: poh_eval demo_cfg_def merged_of_def demo_gap_def)
  then obtain ps where ps: "bt_get (fst (poh_sweep demo_cfg 12 4 (sup_slots ?sv, sup_io ?sv))) 7 = Some ps"
    by blast
  have "cf_slot_seal_lag_slots demo_cfg \<le> (12::u64)" "(7::u64) \<le> 12 - cf_slot_seal_lag_slots demo_cfg"
    by (simp_all add: demo_cfg_def)
  from poh_sweep_seals_lagging [OF this refl ps] ps show ?thesis by (simp add: Let_def)
qed

end
