(* ===== verification/Ordering.thy ===== *)
theory Ordering
  imports BTreeMap Entries
begin

text \<open>
  The per-slot ordering tracker (\<open>crates/tick-trigger-fan-out-bench/src/ordering.rs\<close>): it
  watches the merger's emissions and reports for every sealed slot how disordered its entries
  arrived and which indices were never seen.  The report of a slot is characterised on the list
  of its arrivals, and the tracker is shown to deliver exactly these reports for every stream
  whose entries do not come later than the sealing lag.
\<close>

section \<open>State\<close>

record slot_report =
  sr_slot :: u64
  sr_entries_seen :: u32
  sr_max_index :: u32
  sr_out_of_order_count :: u32
  sr_max_backward_gap :: u32
  sr_missing_indices :: "u32 list"
  sr_last_entry_was_tick :: bool
  sr_last_entry_tx_count :: u32

record ordering_counters =
  oc_slots_sealed :: u64
  oc_slots_fully_ordered :: u64
  oc_slots_with_disorder :: u64
  oc_slots_with_gaps :: u64
  oc_slots_ending_on_tick :: u64
  oc_total_out_of_order :: u64
  oc_total_missing_indices :: u64

definition ordering_counters_new :: ordering_counters where
  "ordering_counters_new =
     \<lparr>oc_slots_sealed = 0, oc_slots_fully_ordered = 0, oc_slots_with_disorder = 0,
      oc_slots_with_gaps = 0, oc_slots_ending_on_tick = 0, oc_total_out_of_order = 0,
      oc_total_missing_indices = 0\<rparr>"

text \<open>The index set is a map to \<open>unit\<close>, as in the standard library.\<close>

record slot_progress =
  sp_seen_indices :: "(u32, unit) btree"
  sp_max_index_at_arrival :: u32
  sp_out_of_order :: u32
  sp_max_backward_gap :: u32
  sp_last_entry :: "(u32 \<times> u32) option"

definition slot_progress_default :: slot_progress where
  "slot_progress_default =
     \<lparr>sp_seen_indices = [], sp_max_index_at_arrival = 0, sp_out_of_order = 0,
      sp_max_backward_gap = 0, sp_last_entry = None\<rparr>"

record ordering_tracker =
  ot_counters :: ordering_counters
  ot_in_progress :: "(u64, slot_progress) btree"
  ot_sealed_reports :: "slot_report list"
  ot_high_water :: u64
  ot_seal_lag :: u64

definition tracker_new :: "u64 \<Rightarrow> ordering_tracker" where
  "tracker_new lag =
     \<lparr>ot_counters = ordering_counters_new, ot_in_progress = [], ot_sealed_reports = [],
      ot_high_water = 0, ot_seal_lag = lag\<rparr>"

section \<open>Operations\<close>

definition prog_step :: "u32 \<times> u32 \<Rightarrow> slot_progress \<Rightarrow> slot_progress" where
  "prog_step a prog = (let (idx, tx_count) = a;
      prog1 =
       (if idx < sp_max_index_at_arrival prog
        then let gap = sp_max_index_at_arrival prog - idx;
                 p = prog\<lparr>sp_out_of_order := sp_out_of_order prog + 1\<rparr>
             in if gap > sp_max_backward_gap p then p\<lparr>sp_max_backward_gap := gap\<rparr> else p
        else if idx > sp_max_index_at_arrival prog
        then prog\<lparr>sp_max_index_at_arrival := idx, sp_last_entry := Some (idx, tx_count)\<rparr>
        else prog)
    in prog1\<lparr>sp_seen_indices := bt_insert idx () (sp_seen_indices prog1)\<rparr>)"

definition build_report :: "u64 \<Rightarrow> slot_progress \<Rightarrow> slot_report" where
  "build_report slot prog =
     (let (last_idx, last_tx_count) = (case sp_last_entry prog of None \<Rightarrow> (0, 0) | Some e \<Rightarrow> e);
          missing = (if sp_seen_indices prog \<noteq> []
                     then filter (\<lambda>i. bt_get (sp_seen_indices prog) i = None)
                            (map of_nat [0..<Suc (unat last_idx)])
                     else [])
      in \<lparr>sr_slot = slot, sr_entries_seen = of_nat (length (sp_seen_indices prog)),
          sr_max_index = last_idx, sr_out_of_order_count = sp_out_of_order prog,
          sr_max_backward_gap = sp_max_backward_gap prog, sr_missing_indices = missing,
          sr_last_entry_was_tick = (last_tx_count = 0), sr_last_entry_tx_count = last_tx_count\<rparr>)"

definition update_counters :: "slot_report \<Rightarrow> ordering_counters \<Rightarrow> ordering_counters" where
  "update_counters r c =
     (let c = c\<lparr>oc_slots_sealed := oc_slots_sealed c + 1\<rparr>;
          c = (if sr_out_of_order_count r = 0 \<and> sr_missing_indices r = []
               then c\<lparr>oc_slots_fully_ordered := oc_slots_fully_ordered c + 1\<rparr> else c);
          c = (if sr_out_of_order_count r > 0
               then c\<lparr>oc_slots_with_disorder := oc_slots_with_disorder c + 1\<rparr> else c);
          c = (if sr_missing_indices r \<noteq> []
               then c\<lparr>oc_slots_with_gaps := oc_slots_with_gaps c + 1\<rparr> else c);
          c = (if sr_last_entry_was_tick r
               then c\<lparr>oc_slots_ending_on_tick := oc_slots_ending_on_tick c + 1\<rparr> else c)
      in c\<lparr>oc_total_out_of_order := oc_total_out_of_order c + ucast (sr_out_of_order_count r),
           oc_total_missing_indices :=
             oc_total_missing_indices c + of_nat (length (sr_missing_indices r))\<rparr>)"

text \<open>The loop over the slots to seal, shared by \<open>maybe_seal\<close> and \<open>flush_all\<close>.\<close>

definition seal_one :: "u64 \<Rightarrow> ordering_tracker \<Rightarrow> ordering_tracker" where
  "seal_one slot t =
     (case bt_get (ot_in_progress t) slot of
        None \<Rightarrow> t
      | Some prog \<Rightarrow>
          let report = build_report slot prog in
          t\<lparr>ot_in_progress := bt_remove slot (ot_in_progress t),
            ot_counters := update_counters report (ot_counters t),
            ot_sealed_reports := ot_sealed_reports t @ [report]\<rparr>)"

definition maybe_seal :: "ordering_tracker \<Rightarrow> ordering_tracker" where
  "maybe_seal t =
     (if ot_high_water t \<le> ot_seal_lag t then t
      else fold seal_one
             (filter (\<lambda>s. s \<le> ot_high_water t - ot_seal_lag t) (bt_keys (ot_in_progress t))) t)"

definition flush_all :: "ordering_tracker \<Rightarrow> ordering_tracker" where
  "flush_all t = fold seal_one (bt_keys (ot_in_progress t)) t"

definition tracker_note :: "entry_obs \<Rightarrow> ordering_tracker \<Rightarrow> ordering_tracker" where
  "tracker_note o1 t =
     (let slot = obs_slot o1;
          t1 = (if slot > ot_high_water t then t\<lparr>ot_high_water := slot\<rparr> else t);
          prog = bt_get_or slot_progress_default (ot_in_progress t1) slot
      in t1\<lparr>ot_in_progress :=
             bt_insert slot (prog_step (obs_entry_index o1, obs_tx_count o1) prog) (ot_in_progress t1)\<rparr>)"

definition tracker_observe :: "entry_obs \<Rightarrow> ordering_tracker \<Rightarrow> ordering_tracker" where
  "tracker_observe o1 t = maybe_seal (tracker_note o1 t)"

definition tracker_run :: "u64 \<Rightarrow> entry_obs list \<Rightarrow> ordering_tracker" where
  "tracker_run lag es = fold tracker_observe es (tracker_new lag)"

section \<open>One slot\<close>

definition progress_of :: "(u32 \<times> u32) list \<Rightarrow> slot_progress" where
  "progress_of xs = fold prog_step xs slot_progress_default"

text \<open>The reference: how many of the indices lie below the maximum before them, and by how much
  at most.\<close>

fun disorder :: "u32 \<Rightarrow> u32 list \<Rightarrow> nat" where
  "disorder mx [] = 0"
| "disorder mx (i # is) = (if i < mx then 1 else 0) + disorder (max mx i) is"

fun worst_gap :: "u32 \<Rightarrow> u32 list \<Rightarrow> u32" where
  "worst_gap mx [] = 0"
| "worst_gap mx (i # is) = max (if i < mx then mx - i else 0) (worst_gap (max mx i) is)"

definition top_index :: "u32 list \<Rightarrow> u32" where
  "top_index is = fold max is 0"

lemma disorder_append: "disorder mx (xs @ ys) = disorder mx xs + disorder (fold max xs mx) ys"
  by (induction mx xs rule: disorder.induct) (simp_all add: max.commute)

lemma worst_gap_append: "worst_gap mx (xs @ ys) = max (worst_gap mx xs) (worst_gap (fold max xs mx) ys)"
proof (induction mx xs rule: worst_gap.induct)
  case (1 mx)
  have "(0::u32) \<le> worst_gap mx ys" by simp
  then show ?case by (simp add: max_def)
qed (simp add: max.assoc max.commute max.left_commute)

lemma progress_snoc: "progress_of (xs @ [a]) = prog_step a (progress_of xs)"
  by (simp add: progress_of_def)

lemma disorder_le: "disorder mx xs \<le> length xs"
  by (induction mx xs rule: disorder.induct) auto

lemma disorder_0_sorted: "disorder mx xs = 0 \<longleftrightarrow> sorted (mx # xs)"
proof (induction mx xs rule: disorder.induct)
  case (2 mx i "is")
  then show ?case by (cases "i < mx") (auto simp: not_less max_absorb2 intro: order_trans)
qed simp

lemma progress_facts:
  "let p = progress_of xs; is = map fst xs in
     bt_ok (sp_seen_indices p) \<and> fst ` set (sp_seen_indices p) = set is
     \<and> sp_max_index_at_arrival p = top_index is
     \<and> sp_out_of_order p = of_nat (disorder 0 is)
     \<and> sp_max_backward_gap p = worst_gap 0 is
     \<and> (case sp_last_entry p of None \<Rightarrow> top_index is = 0
          | Some (i, n) \<Rightarrow> i = top_index is \<and> i \<noteq> 0 \<and> (i, n) \<in> set xs)"
proof (induction xs rule: rev_induct)
  case Nil
  show ?case by (simp add: progress_of_def slot_progress_default_def top_index_def)
next
  case (snoc a xs)
  obtain i n where a: "a = (i, n)" by (cases a)
  have top: "top_index (map fst xs @ [i]) = max i (top_index (map fst xs))"
    by (simp add: top_index_def)
  have gap0: "(0::u32) \<le> worst_gap 0 (map fst xs)" by simp
  from snoc show ?case
    by (auto simp: a Let_def progress_snoc prog_step_def disorder_append worst_gap_append
        top top_index_def [symmetric] max_def not_less split: option.splits if_splits)
qed


lemma top_index_max: "top_index (i # is) = Max (set (i # is))"
  by (simp add: top_index_def Max.set_eq_fold [symmetric] del: set_simps)

lemma set_indices_upto: "set (map of_nat [0..<Suc (unat (m::u32))]) = {..m}"
proof -
  have "i \<in> of_nat ` {0..<Suc (unat m)}" if "i \<le> m" for i :: u32
    using that by (intro image_eqI [where x = "unat i"]) (simp_all add: word_le_nat_alt less_Suc_eq_le)
  moreover have "(of_nat k :: u32) \<le> m" if "k < Suc (unat m)" for k
  proof -
    have "unat (of_nat k :: u32) \<le> k" by (simp add: unat_of_nat)
    with that show ?thesis by (simp add: word_le_nat_alt)
  qed
  ultimately show ?thesis by (auto simp del: upt_Suc)
qed

lemma distinct_indices_upto: "distinct (map of_nat [0..<Suc (unat (m::u32))] :: u32 list)"
proof -
  have "inj_on (of_nat :: nat \<Rightarrow> u32) {0..<Suc (unat m)}"
  proof (rule inj_onI)
    fix x y assume "x \<in> {0..<Suc (unat m)}" "y \<in> {0..<Suc (unat m)}" "(of_nat x :: u32) = of_nat y"
    moreover from this have "x < 2 ^ 32" "y < 2 ^ 32" using unat_bound [of m] by auto
    ultimately show "x = y" by (simp add: word_of_nat_eq_iff take_bit_nat_eq_self)
  qed
  then show ?thesis by (simp add: distinct_map del: upt_Suc)
qed

lemma card_atMost_word: "card {..m} = unat m + 1" for m :: u32
  using distinct_card [OF distinct_indices_upto [of m]] set_indices_upto [of m] by simp

lemma last_entry_default: "sp_last_entry (progress_of xs) = None \<or>
    (\<exists>n. sp_last_entry (progress_of xs) = Some (top_index (map fst xs), n) \<and> (top_index (map fst xs), n) \<in> set xs)"
  using progress_facts [of xs] by (auto simp: Let_def split: option.splits)

lemma report_max_index: "sr_max_index (build_report s (progress_of xs)) = top_index (map fst xs)"
  using progress_facts [of xs] by (auto simp: build_report_def Let_def split: option.splits)

lemma report_missing:
  assumes "xs \<noteq> []"
  shows "sr_missing_indices (build_report s (progress_of xs)) =
    filter (\<lambda>i. i \<notin> set (map fst xs)) (map of_nat [0..<Suc (unat (top_index (map fst xs)))])"
proof -
  let ?p = "progress_of xs"
  have f: "fst ` set (sp_seen_indices ?p) = set (map fst xs)" using progress_facts [of xs] by (simp add: Let_def)
  then have ne: "sp_seen_indices ?p \<noteq> []" using assms by auto
  have "(case sp_last_entry ?p of None \<Rightarrow> (0, 0) | Some e \<Rightarrow> e) = (top_index (map fst xs), snd (case sp_last_entry ?p of None \<Rightarrow> (0, 0) | Some e \<Rightarrow> e))"
    using progress_facts [of xs] by (auto simp: Let_def split: option.splits)
  then show ?thesis using ne f
    by (simp add: build_report_def Let_def case_prod_beta bt_get_None del: upt_Suc) (metis fst_conv)
qed


section \<open>The tracker\<close>

definition seal_reports :: "ordering_tracker \<Rightarrow> u64 list \<Rightarrow> slot_report list" where
  "seal_reports t ks = map (\<lambda>s. build_report s (the (bt_get (ot_in_progress t) s))) ks"

lemma seal_all:
  assumes "bt_ok (ot_in_progress t)" "distinct ks" "\<forall>s \<in> set ks. bt_get (ot_in_progress t) s \<noteq> None"
  shows "let t' = fold seal_one ks t in
     bt_ok (ot_in_progress t')
     \<and> (\<forall>s. bt_get (ot_in_progress t') s = (if s \<in> set ks then None else bt_get (ot_in_progress t) s))
     \<and> ot_sealed_reports t' = ot_sealed_reports t @ seal_reports t ks
     \<and> ot_counters t' = fold update_counters (seal_reports t ks) (ot_counters t)
     \<and> ot_high_water t' = ot_high_water t \<and> ot_seal_lag t' = ot_seal_lag t"
  using assms
proof (induction ks arbitrary: t)
  case (Cons s ks)
  from Cons.prems(3) obtain p where p: "bt_get (ot_in_progress t) s = Some p" by auto
  let ?t = "seal_one s t"
  have f: "ot_in_progress ?t = bt_remove s (ot_in_progress t)"
      "ot_sealed_reports ?t = ot_sealed_reports t @ [build_report s p]"
      "ot_counters ?t = update_counters (build_report s p) (ot_counters t)"
      "ot_high_water ?t = ot_high_water t" "ot_seal_lag ?t = ot_seal_lag t"
    using p by (simp_all add: seal_one_def Let_def)
  have t1: "bt_ok (ot_in_progress ?t)" "\<forall>k \<in> set ks. bt_get (ot_in_progress ?t) k \<noteq> None"
    using Cons.prems by (auto simp: f)
  have "seal_reports ?t ks = seal_reports t ks"
    using Cons.prems(2) by (auto simp: seal_reports_def f)
  moreover have "seal_reports t (s # ks) = build_report s p # seal_reports t ks"
    by (simp add: seal_reports_def p)
  ultimately show ?case using Cons.IH [OF t1(1) _ t1(2)] Cons.prems(2)
    by (auto simp: Let_def f)
qed (simp add: seal_reports_def)

definition arrivals :: "u64 \<Rightarrow> entry_obs list \<Rightarrow> (u32 \<times> u32) list" where
  "arrivals s es = map (\<lambda>o1. (obs_entry_index o1, obs_tx_count o1)) (filter (\<lambda>o1. obs_slot o1 = s) es)"

text \<open>No entry comes for a slot that is already as far behind as the lag says.\<close>

definition behind :: "u64 \<Rightarrow> u64 \<Rightarrow> u64 \<Rightarrow> bool" where
  "behind lag hw s \<longleftrightarrow> lag < hw \<and> s \<le> hw - lag"

fun timely :: "u64 \<Rightarrow> u64 \<Rightarrow> entry_obs list \<Rightarrow> bool" where
  "timely lag hw [] \<longleftrightarrow> True"
| "timely lag hw (o1 # es) \<longleftrightarrow> \<not> behind lag hw (obs_slot o1) \<and> timely lag (max hw (obs_slot o1)) es"

definition high_slot :: "entry_obs list \<Rightarrow> u64" where
  "high_slot es = fold max (map obs_slot es) 0"

definition full_report :: "entry_obs list \<Rightarrow> u64 \<Rightarrow> slot_report" where
  "full_report es s = build_report s (progress_of (arrivals s es))"

definition tracks :: "u64 \<Rightarrow> entry_obs list \<Rightarrow> (u64 \<Rightarrow> bool) \<Rightarrow> ordering_tracker \<Rightarrow> bool" where
  "tracks lag es closed t \<longleftrightarrow> bt_ok (ot_in_progress t)
     \<and> ot_high_water t = high_slot es \<and> ot_seal_lag t = lag
     \<and> (\<forall>s. bt_get (ot_in_progress t) s =
           (if arrivals s es \<noteq> [] \<and> \<not> closed s then Some (progress_of (arrivals s es)) else None))
     \<and> set (ot_sealed_reports t) = full_report es ` {s. arrivals s es \<noteq> [] \<and> closed s}
     \<and> distinct (map sr_slot (ot_sealed_reports t))
     \<and> ot_counters t = fold update_counters (ot_sealed_reports t) ordering_counters_new"

lemma sr_slot_report [simp]: "sr_slot (build_report s p) = s"
  by (simp add: build_report_def Let_def case_prod_beta)

lemma sr_slot_full [simp]: "sr_slot (full_report es s) = s"
  by (simp add: full_report_def)

lemma arrivals_snoc: "arrivals s (es @ [o1]) = arrivals s es @
    (if obs_slot o1 = s then [(obs_entry_index o1, obs_tx_count o1)] else [])"
  by (simp add: arrivals_def)

lemma high_slot_snoc: "high_slot (es @ [o1]) = max (obs_slot o1) (high_slot es)"
  by (simp add: high_slot_def)

text \<open>Sealing a further set of slots.\<close>

lemma tracks_seal:
  assumes t: "tracks lag es closed t" and ks: "distinct ks"
    and set: "set ks = {s. arrivals s es \<noteq> [] \<and> \<not> closed s \<and> closed' s}"
    and mono: "\<And>s. closed s \<Longrightarrow> closed' s"
  shows "tracks lag es closed' (fold seal_one ks t)"
proof -
  have get: "bt_get (ot_in_progress t) s = Some (progress_of (arrivals s es))" if "s \<in> set ks" for s
    using t that set by (auto simp: tracks_def)
  then have reps: "seal_reports t ks = map (full_report es) ks"
    by (simp add: seal_reports_def full_report_def)
  have dis: "distinct (map sr_slot (ot_sealed_reports t @ map (full_report es) ks))"
    using t ks set by (auto simp: tracks_def distinct_map comp_def)
  have "bt_ok (ot_in_progress t)" using t by (simp add: tracks_def)
  from seal_all [OF this ks] get have
    s: "bt_ok (ot_in_progress (fold seal_one ks t))"
      "\<And>s. bt_get (ot_in_progress (fold seal_one ks t)) s =
         (if s \<in> set ks then None else bt_get (ot_in_progress t) s)"
      "ot_sealed_reports (fold seal_one ks t) = ot_sealed_reports t @ map (full_report es) ks"
      "ot_counters (fold seal_one ks t) = fold update_counters (map (full_report es) ks) (ot_counters t)"
      "ot_high_water (fold seal_one ks t) = ot_high_water t" "ot_seal_lag (fold seal_one ks t) = ot_seal_lag t"
    by (simp_all add: Let_def reps)
  have "set (ot_sealed_reports t @ map (full_report es) ks) = full_report es ` {s. arrivals s es \<noteq> [] \<and> closed' s}"
    using t set mono by (auto simp: tracks_def)
  with t dis set mono s(1) show ?thesis unfolding tracks_def s(2-) by auto
qed

lemma tracks_observe:
  assumes t: "tracks lag es (behind lag (high_slot es)) t"
    and tm: "\<not> behind lag (high_slot es) (obs_slot o1)"
  shows "tracks lag (es @ [o1]) (behind lag (high_slot (es @ [o1]))) (tracker_observe o1 t)"
proof -
  let ?s = "obs_slot o1" and ?es = "es @ [o1]" and ?c = "behind lag (high_slot es)"
  let ?n = "tracker_note o1 t"
  have other: "arrivals s ?es = arrivals s es" if "s \<noteq> ?s" for s using that by (simp add: arrivals_snoc)
  have full: "full_report ?es s = full_report es s" if "?c s" for s
    using that tm other [of s] by (cases "s = ?s") (simp_all add: full_report_def)
  have closed: "arrivals s ?es = arrivals s es" if "?c s" for s
    using that tm other [of s] by (cases "s = ?s") simp_all
  have noted: "tracks lag ?es ?c ?n"
  proof -
    have prog: "bt_get_or slot_progress_default (ot_in_progress t) ?s = progress_of (arrivals ?s es)"
      using t tm by (auto simp: tracks_def bt_get_or_def progress_of_def)
    have "set (ot_sealed_reports t) = full_report ?es ` {s. arrivals s ?es \<noteq> [] \<and> ?c s}"
      using t full closed by (auto simp: tracks_def image_iff)
    with t tm prog other show ?thesis
      by (auto simp: tracks_def tracker_note_def Let_def high_slot_snoc max_def arrivals_snoc progress_snoc)
  qed
  have hw: "ot_high_water ?n = high_slot ?es" "ot_seal_lag ?n = lag" using noted by (simp_all add: tracks_def)
  have mono: "?c s \<Longrightarrow> behind lag (high_slot ?es) s" for s
    by (auto simp: behind_def high_slot_snoc word_le_nat_alt word_less_nat_alt max_def unat_sub split: if_splits)
  show ?thesis
  proof (cases "lag < high_slot ?es")
    case False
    then have "behind lag (high_slot ?es) = ?c" using mono by (auto simp: behind_def fun_eq_iff)
    with noted False hw show ?thesis by (simp add: tracker_observe_def maybe_seal_def not_less)
  next
    case True
    let ?ks = "filter (\<lambda>s. s \<le> high_slot ?es - lag) (bt_keys (ot_in_progress ?n))"
    have ok: "bt_ok (ot_in_progress ?n)" using noted by (simp add: tracks_def)
    have keys: "set (bt_keys (ot_in_progress ?n)) = {s. arrivals s ?es \<noteq> [] \<and> \<not> ?c s}"
      using bt.keys_get [OF ok] noted by (auto simp: tracks_def)
    have "distinct ?ks" using ok by (simp add: bt_keys_def bt_ok_distinct)
    moreover have "set ?ks = {s. arrivals s ?es \<noteq> [] \<and> \<not> ?c s \<and> behind lag (high_slot ?es) s}"
      using keys True by (auto simp: behind_def)
    ultimately have "tracks lag ?es (behind lag (high_slot ?es)) (fold seal_one ?ks ?n)"
      using mono by (rule tracks_seal [OF noted])
    moreover have "\<not> ot_high_water ?n \<le> ot_seal_lag ?n" using True hw by (simp add: not_le)
    ultimately show ?thesis using hw by (simp add: tracker_observe_def maybe_seal_def)
  qed
qed

lemma timely_snoc: "timely lag hw (es @ [o1]) \<longleftrightarrow>
    timely lag hw es \<and> \<not> behind lag (fold max (map obs_slot es) hw) (obs_slot o1)"
  by (induction es arbitrary: hw) (auto simp: max.commute)

lemma tracker_run_tracks: "timely lag 0 es \<Longrightarrow> tracks lag es (behind lag (high_slot es)) (tracker_run lag es)"
proof (induction es rule: rev_induct)
  case Nil
  show ?case by (simp add: tracks_def tracker_run_def tracker_new_def high_slot_def arrivals_def)
next
  case (snoc o1 es)
  then show ?case using tracks_observe [of lag es "tracker_run lag es" o1]
    by (simp add: timely_snoc tracker_run_def high_slot_def)
qed

lemma flush_tracks:
  assumes "tracks lag es closed t"
  shows "tracks lag es (\<lambda>s. True) (flush_all t)"
proof -
  have ok: "bt_ok (ot_in_progress t)" using assms by (simp add: tracks_def)
  have "set (bt_keys (ot_in_progress t)) = {s. arrivals s es \<noteq> [] \<and> \<not> closed s \<and> True}"
    using bt.keys_get [OF ok] assms by (auto simp: tracks_def)
  then show ?thesis unfolding flush_all_def
    using ok by (intro tracks_seal [OF assms]) (simp_all add: bt_keys_def bt_ok_distinct)
qed


lemma counters_fold: "fold update_counters rs c =
   \<lparr>oc_slots_sealed = oc_slots_sealed c + of_nat (length rs),
    oc_slots_fully_ordered = oc_slots_fully_ordered c
      + of_nat (length (filter (\<lambda>r. sr_out_of_order_count r = 0 \<and> sr_missing_indices r = []) rs)),
    oc_slots_with_disorder = oc_slots_with_disorder c
      + of_nat (length (filter (\<lambda>r. sr_out_of_order_count r > 0) rs)),
    oc_slots_with_gaps = oc_slots_with_gaps c
      + of_nat (length (filter (\<lambda>r. sr_missing_indices r \<noteq> []) rs)),
    oc_slots_ending_on_tick = oc_slots_ending_on_tick c
      + of_nat (length (filter sr_last_entry_was_tick rs)),
    oc_total_out_of_order = oc_total_out_of_order c
      + (\<Sum>r\<leftarrow>rs. ucast (sr_out_of_order_count r)),
    oc_total_missing_indices = oc_total_missing_indices c
      + (\<Sum>r\<leftarrow>rs. of_nat (length (sr_missing_indices r)))\<rparr>"
  by (induction rs arbitrary: c) (simp_all add: update_counters_def Let_def)

section \<open>Properties\<close>

text \<open>
  C17. The report of a slot describes its arrivals: the maximum index, the number of distinct
  indices, exactly the indices up to the maximum that never arrived, how many entries came after a
  higher index and by how much at most.  The disorder count is zero exactly when the indices
  arrived in order.
\<close>

theorem ordering_report_exact:
  assumes "xs \<noteq> []" "length xs < 2 ^ 32"
  shows "let r = build_report s (progress_of xs); is = map fst xs in
     sr_max_index r = Max (set is)
     \<and> set (sr_missing_indices r) = {..Max (set is)} - set is
     \<and> length (sr_missing_indices r) + card (set is) = unat (Max (set is)) + 1
     \<and> sr_entries_seen r = of_nat (card (set is))
     \<and> unat (sr_out_of_order_count r) = disorder 0 is
     \<and> sr_max_backward_gap r = worst_gap 0 is
     \<and> (sr_out_of_order_count r = 0 \<longleftrightarrow> sorted is)"
proof -
  let ?is = "map fst xs" and ?r = "build_report s (progress_of xs)" and ?p = "progress_of xs"
  have top: "top_index ?is = Max (set ?is)" using assms(1) by (cases xs) (simp_all only: list.map top_index_max)
  have mx: "sr_max_index ?r = Max (set ?is)" using report_max_index [of s xs] top by simp
  have miss: "set (sr_missing_indices ?r) = {..Max (set ?is)} - set ?is"
    and dist: "distinct (sr_missing_indices ?r)"
    unfolding report_missing [OF assms(1)] top set_filter set_indices_upto
    using distinct_indices_upto by (auto intro: distinct_filter)
  have sub: "set ?is \<subseteq> {..Max (set ?is)}" by (auto simp del: set_map intro: Max_ge)
  have "length (sr_missing_indices ?r) = card ({..Max (set ?is)} - set ?is)"
    using distinct_card [OF dist] miss by simp
  also have "\<dots> = unat (Max (set ?is)) + 1 - card (set ?is)"
    using sub by (simp only: card_Diff_subset [OF finite_set sub] card_atMost_word)
  finally have len: "length (sr_missing_indices ?r) + card (set ?is) = unat (Max (set ?is)) + 1"
    using card_mono [OF finite sub] card_atMost_word by simp
  have f: "bt_ok (sp_seen_indices ?p)" "fst ` set (sp_seen_indices ?p) = set ?is"
      "sp_out_of_order ?p = of_nat (disorder 0 ?is)" "sp_max_backward_gap ?p = worst_gap 0 ?is"
    using progress_facts [of xs] by (simp_all add: Let_def)
  have "length (sp_seen_indices ?p) = card (set ?is)"
    using distinct_card [OF bt_ok_distinct [OF f(1)]] f(2) by simp
  then have seen: "sr_entries_seen ?r = of_nat (card (set ?is))"
    by (simp add: build_report_def Let_def case_prod_beta)
  have dis: "unat (sr_out_of_order_count ?r) = disorder 0 ?is"
    using disorder_le [of 0 ?is] assms(2)
    by (simp add: build_report_def Let_def case_prod_beta f(3) unat_of_nat)
  have "sr_out_of_order_count ?r = 0 \<longleftrightarrow> disorder 0 ?is = 0" unfolding dis [symmetric] by (simp add: unat_eq_0)
  then have "sr_out_of_order_count ?r = 0 \<longleftrightarrow> sorted ?is" by (simp add: disorder_0_sorted)
  moreover have "sr_max_backward_gap ?r = worst_gap 0 ?is"
    by (simp add: build_report_def Let_def case_prod_beta f(4))
  ultimately show ?thesis unfolding Let_def using mx miss len seen dis by blast
qed

definition arrivals_demo :: "(u32 \<times> u32) list" where
  "arrivals_demo = [(0, 1), (1, 1), (5, 1), (3, 1), (4, 1), (6, 0)]"

theorem ordering_report_exact_witness:
  "let r = build_report 100 (progress_of arrivals_demo) in
     unat (sr_out_of_order_count r) = 2 \<and> sr_max_backward_gap r = 2 \<and> sr_entries_seen r = 6"
proof -
  have "arrivals_demo \<noteq> []" "length arrivals_demo < 2 ^ 32" by (simp_all add: arrivals_demo_def)
  note ex = ordering_report_exact [OF this, of 100, unfolded Let_def]
  have "disorder 0 (map fst arrivals_demo) = 2" "worst_gap 0 (map fst arrivals_demo) = 2"
    "card (set (map fst arrivals_demo)) = 6"
    by (simp_all add: arrivals_demo_def max_def word_le_nat_alt)
  with ex show ?thesis unfolding Let_def by simp
qed

text \<open>
  For every stream in which no entry comes for a slot that is already behind the sealing lag,
  the tracker, flushed at the end, has reported every slot that had an entry exactly once, each
  with the report of all its arrivals; and the counters are the sums over these reports.
\<close>

theorem ordering_tracker_exact:
  assumes "timely lag 0 es"
  shows "let t = flush_all (tracker_run lag es); rs = ot_sealed_reports t; c = ot_counters t in
     set rs = full_report es ` (obs_slot ` set es)
     \<and> distinct (map sr_slot rs) \<and> ot_in_progress t = []
     \<and> oc_slots_sealed c = of_nat (length rs)
     \<and> oc_slots_with_gaps c = of_nat (length (filter (\<lambda>r. sr_missing_indices r \<noteq> []) rs))
     \<and> oc_slots_with_disorder c = of_nat (length (filter (\<lambda>r. sr_out_of_order_count r > 0) rs))
     \<and> oc_total_missing_indices c = (\<Sum>r\<leftarrow>rs. of_nat (length (sr_missing_indices r)))"
proof -
  let ?t = "flush_all (tracker_run lag es)"
  have t: "tracks lag es (\<lambda>s. True) ?t" by (rule flush_tracks [OF tracker_run_tracks [OF assms]])
  then have "bt_get (ot_in_progress ?t) s = None" for s by (simp add: tracks_def)
  then have "ot_in_progress ?t = []" by (metis bt_get_None emptyE image_is_empty set_empty subsetI subset_empty)
  moreover have "{s. arrivals s es \<noteq> []} = obs_slot ` set es"
    by (auto simp: arrivals_def filter_empty_conv)
  ultimately show ?thesis using t
    by (simp add: tracks_def Let_def counters_fold ordering_counters_new_def)
qed

definition ordering_demo :: "entry_obs list" where
  "ordering_demo = [sample_obs 100 0 1 1 0, sample_obs 100 2 2 0 0, sample_obs 101 0 3 1 0,
                    sample_obs 100 1 4 1 0, sample_obs 105 0 5 1 0]"

theorem ordering_tracker_exact_witness:
  "timely 3 0 ordering_demo \<and>
   set (ot_sealed_reports (flush_all (tracker_run 3 ordering_demo))) =
     full_report ordering_demo ` {100, 101, 105}"
proof -
  have t: "timely 3 0 ordering_demo" by (simp add: ordering_demo_def behind_def)
  then show ?thesis using ordering_tracker_exact [OF t]
    by (simp add: Let_def) (simp add: ordering_demo_def insert_commute)
qed

text \<open>
  A slot whose only entry is index 0 with transactions is reported as ending on a tick with no
  transactions: \<open>last_entry\<close> is recorded only for an index above the initial maximum 0.
\<close>

theorem ordering_lone_entry_is_no_tick:
  "let r = full_report [sample_obs 100 0 7 3 0] 100 in
     sr_last_entry_was_tick r \<and> sr_last_entry_tx_count r = 0 \<and> sr_entries_seen r = 1"
  by (simp add: full_report_def arrivals_def progress_of_def prog_step_def slot_progress_default_def
      build_report_def Let_def)

text \<open>
  An entry that comes after its slot was sealed is not counted as disorder of that slot: it
  opens the slot afresh, and the slot is reported a second time.
\<close>

theorem ordering_late_entry_reports_twice:
  "map (\<lambda>r. (sr_slot r, sr_out_of_order_count r, sr_entries_seen r))
     (ot_sealed_reports (tracker_run 3 [sample_obs 100 0 1 1 0, sample_obs 100 2 2 0 0,
        sample_obs 104 0 3 1 0, sample_obs 100 1 4 1 0])) = [(100, 0, 2), (100, 0, 1)]"
  by (simp add: tracker_run_def tracker_new_def tracker_observe_def tracker_note_def maybe_seal_def
      seal_one_def build_report_def prog_step_def slot_progress_default_def bt_keys_def bt_get_or_def
      bt_remove_def Let_def)

end
