(* ===== verification/NonceState.thy ===== *)
theory NonceState
  imports Prelude
begin

text \<open>
  Parsing of the 80-byte nonce account
  (\<open>crates/tick-trigger-fan-out-bench/src/nonce/state.rs\<close>): the error branches in the order of
  the code, the byte layout, and the round trip with the layout the program's own encoder writes.
\<close>

section \<open>Bytes\<close>

text \<open>\<open>u32::from_le_bytes\<close> and the 32-byte arrays, which are words read big-endian.\<close>

definition be_nat :: "u8 list \<Rightarrow> nat" where
  "be_nat bs = foldl (\<lambda>a b. a * 256 + unat b) 0 bs"

definition be_bytes :: "nat \<Rightarrow> nat \<Rightarrow> u8 list" where
  "be_bytes k n = map (\<lambda>i. of_nat (n div 256 ^ i)) (rev [0..<k])"

definition from_be_bytes :: "u8 list \<Rightarrow> 'a::len word" where
  "from_be_bytes bs = of_nat (be_nat bs)"

definition from_le_bytes :: "u8 list \<Rightarrow> 'a::len word" where
  "from_le_bytes bs = from_be_bytes (rev bs)"

definition to_be_bytes :: "nat \<Rightarrow> 'a::len word \<Rightarrow> u8 list" where
  "to_be_bytes k w = be_bytes k (unat w)"

definition to_le_bytes :: "nat \<Rightarrow> 'a::len word \<Rightarrow> u8 list" where
  "to_le_bytes k w = rev (to_be_bytes k w)"

lemma be_nat_foldl: "foldl (\<lambda>a b. a * 256 + unat b) n bs = n * 256 ^ length bs + be_nat bs"
proof (induction bs arbitrary: n)
  case (Cons b bs)
  show ?case using Cons [of "n * 256 + unat b"] Cons [of "unat b"]
    by (simp add: be_nat_def algebra_simps)
qed (simp add: be_nat_def)

lemma be_nat_Cons: "be_nat (b # bs) = unat b * 256 ^ length bs + be_nat bs"
  using be_nat_foldl [of "unat b" bs] by (simp add: be_nat_def)

lemma length_be_bytes [simp]: "length (be_bytes k n) = k"
  by (simp add: be_bytes_def)

lemma be_nat_bytes: "be_nat (be_bytes k n) = n mod 256 ^ k"
proof (induction k)
  case 0
  show ?case by (simp add: be_bytes_def be_nat_def)
next
  case (Suc k)
  have "be_bytes (Suc k) n = of_nat (n div 256 ^ k) # be_bytes k n"
    by (simp add: be_bytes_def)
  moreover have "unat (of_nat (n div 256 ^ k) :: u8) = n div 256 ^ k mod 256"
    by (simp add: unat_of_nat)
  ultimately show ?case
    using Suc mod_mult2_eq [of n "256 ^ k" 256] by (simp add: be_nat_Cons mult.commute)
qed

lemma from_to_be_bytes [simp]: "LENGTH('a) \<le> 8 * k \<Longrightarrow> from_be_bytes (to_be_bytes k w) = w"
  for w :: "'a::len word"
proof -
  assume le: "LENGTH('a) \<le> 8 * k"
  have "unat w < 2 ^ LENGTH('a)" by (rule unat_bound)
  also have "\<dots> \<le> 2 ^ (8 * k)" using le by (intro power_increasing) simp_all
  also have "\<dots> = 256 ^ k" by (simp add: power_mult)
  finally show ?thesis by (simp add: from_be_bytes_def to_be_bytes_def be_nat_bytes)
qed

lemma from_to_le_bytes [simp]: "LENGTH('a) \<le> 8 * k \<Longrightarrow> from_le_bytes (to_le_bytes k w) = w"
  for w :: "'a::len word"
  by (simp add: from_le_bytes_def to_le_bytes_def)

lemma length_to_bytes [simp]: "length (to_be_bytes k w) = k" "length (to_le_bytes k w) = k"
  by (simp_all add: to_le_bytes_def to_be_bytes_def)

section \<open>The parser\<close>

record nonce_account_state =
  na_authority :: pubkey
  na_blockhash :: hash

datatype nonce_parse_error = TooShort nat | Uninitialized | Bincode u32

text \<open>\<open>data[a..b]\<close>\<close>

definition bytes_at :: "nat \<Rightarrow> nat \<Rightarrow> u8 list \<Rightarrow> u8 list" where
  "bytes_at a b data = take (b - a) (drop a data)"

definition parse_nonce_account_data :: "u8 list \<Rightarrow> nonce_parse_error + nonce_account_state" where
  "parse_nonce_account_data data =
     (if length data < 80 then Inl (TooShort (length data))
      else let state_disc = (from_le_bytes (bytes_at 4 8 data) :: u32) in
        if state_disc = 0 then Inl Uninitialized
        else if state_disc \<noteq> 1 then Inl (Bincode state_disc)
        else Inr \<lparr>na_authority = from_be_bytes (bytes_at 8 40 data),
                  na_blockhash = from_be_bytes (bytes_at 40 72 data)\<rparr>)"

text \<open>The layout, as the module's tests write it: version, discriminant, authority, durable nonce,
  and the eight bytes of the fee calculator, which the parser ignores.\<close>

definition nonce_account_bytes :: "u32 \<Rightarrow> u32 \<Rightarrow> pubkey \<Rightarrow> hash \<Rightarrow> u8 list \<Rightarrow> u8 list" where
  "nonce_account_bytes version disc authority blockhash rest =
     to_le_bytes 4 version @ to_le_bytes 4 disc @ to_be_bytes 32 authority @ to_be_bytes 32 blockhash @ rest"

lemma bytes_at_layout:
  "bytes_at 4 8 (nonce_account_bytes v d a b rest) = to_le_bytes 4 d"
  "bytes_at 8 40 (nonce_account_bytes v d a b rest) = to_be_bytes 32 a"
  "bytes_at 40 72 (nonce_account_bytes v d a b rest) = to_be_bytes 32 b"
  "length (nonce_account_bytes v d a b rest) = 72 + length rest"
  by (simp_all add: bytes_at_def nonce_account_bytes_def)

text \<open>
  The parser on any well laid out account: a wrong discriminant is an error that names it, the
  discriminant 1 gives back exactly the authority and the durable nonce that were written, whatever
  the version and the trailing bytes; anything shorter than 80 bytes is refused with its length.
\<close>

theorem nonce_parse_roundtrip:
  "let data = nonce_account_bytes version disc authority blockhash rest in
     parse_nonce_account_data data =
       (if length rest < 8 then Inl (TooShort (72 + length rest))
        else if disc = 0 then Inl Uninitialized
        else if disc = 1 then Inr \<lparr>na_authority = authority, na_blockhash = blockhash\<rparr>
        else Inl (Bincode disc))"
  by (simp add: parse_nonce_account_data_def bytes_at_layout Let_def)

end
