(* ===== verification/NonceManager.thy ===== *)
theory NonceManager
  imports BTreeMap NonceState
begin

text \<open>
  The durable nonce pool (\<open>crates/tick-trigger-fan-out-bench/src/nonce/manager.rs\<close>), its RPC
  safety net (\<open>rpc_fallback.rs\<close>) and its start-up (\<open>bootstrap.rs\<close>).  Every method takes the
  write lock of one entry at a time and is modelled as one step; \<open>Instant::now()\<close> is an
  argument, the RPC client a parameter.  The locale \<open>lease_pool\<close> states what the users of the
  pool rely on: a nonce handed out is not handed out again until an event gives it back.
\<close>

section \<open>State\<close>

type_synonym nonce_id = u16

datatype nonce_state =
    Ready (nonce_hash: hash)
  | InFlight (nonce_hash: hash) (nonce_since: instant)
  | AwaitingUpdate (nonce_hash: hash) (nonce_since: instant)
  | Stale (nonce_hash: hash) (nonce_since: instant)

fun is_ready :: "nonce_state \<Rightarrow> bool" where
  "is_ready (Ready b) = True"
| "is_ready _ = False"

fun is_stale :: "nonce_state \<Rightarrow> bool" where
  "is_stale (Stale b t) = True"
| "is_stale _ = False"

record nonce_entry =
  ne_id :: nonce_id
  ne_pubkey :: pubkey
  ne_state :: nonce_state

record nonce_manager =
  nm_entries :: "nonce_entry list"
  nm_pubkey_index :: "(pubkey, nat) btree"
  nm_rr_cursor :: u64

definition nonce_manager_new :: "(nonce_id \<times> pubkey \<times> hash) list \<Rightarrow> nonce_manager" where
  "nonce_manager_new es =
     \<lparr>nm_entries = map (\<lambda>(i, pk, bh). \<lparr>ne_id = i, ne_pubkey = pk, ne_state = Ready bh\<rparr>) es,
      nm_pubkey_index = fold (\<lambda>(idx, pk). bt_insert pk idx) (enumerate 0 (map (fst \<circ> snd) es)) [],
      nm_rr_cursor = 0\<rparr>"

definition set_state :: "nat \<Rightarrow> nonce_state \<Rightarrow> nonce_manager \<Rightarrow> nonce_manager" where
  "set_state i st nm = nm\<lparr>nm_entries := (nm_entries nm)[i := (nm_entries nm ! i)\<lparr>ne_state := st\<rparr>]\<rparr>"

definition state_at :: "nonce_manager \<Rightarrow> nat \<Rightarrow> nonce_state" where
  "state_at nm i = ne_state (nm_entries nm ! i)"

text \<open>\<open>get_by_pubkey\<close> and \<open>get_by_id\<close>, as indices.\<close>

definition get_by_pubkey :: "pubkey \<Rightarrow> nonce_manager \<Rightarrow> nat option" where
  "get_by_pubkey pk nm = bt_get (nm_pubkey_index nm) pk"

definition get_by_id :: "nonce_id \<Rightarrow> nonce_manager \<Rightarrow> nat option" where
  "get_by_id i nm = find (\<lambda>k. ne_id (nm_entries nm ! k) = i) [0..<length (nm_entries nm)]"

section \<open>Operations\<close>

definition find_ready :: "nonce_manager \<Rightarrow> nat option" where
  "find_ready nm = (let n = length (nm_entries nm); start = unat (nm_rr_cursor nm) mod n in
     find (\<lambda>i. is_ready (state_at nm i)) (map (\<lambda>offset. (start + offset) mod n) [0..<n]))"

definition take_index :: "instant \<Rightarrow> nonce_manager \<Rightarrow> nat option \<times> nonce_manager" where
  "take_index now nm =
     (if nm_entries nm = [] then (None, nm)
      else let nm1 = nm\<lparr>nm_rr_cursor := nm_rr_cursor nm + 1\<rparr> in
        (case find_ready nm of
           None \<Rightarrow> (None, nm1)
         | Some i \<Rightarrow> (Some i, set_state i (InFlight (nonce_hash (state_at nm i)) now) nm1)))"

definition take_ready :: "instant \<Rightarrow> nonce_manager \<Rightarrow> (nonce_id \<times> pubkey \<times> hash) option \<times> nonce_manager" where
  "take_ready now nm = (let (k, nm') = take_index now nm in
     (map_option (\<lambda>i. (ne_id (nm_entries nm ! i), ne_pubkey (nm_entries nm ! i), nonce_hash (state_at nm i))) k, nm'))"

definition ready_count :: "nonce_manager \<Rightarrow> nat" where
  "ready_count nm = length (filter (\<lambda>e. is_ready (ne_state e)) (nm_entries nm))"

definition on_account_update :: "pubkey \<Rightarrow> hash \<Rightarrow> nonce_manager \<Rightarrow> bool \<times> nonce_manager" where
  "on_account_update pk new_blockhash nm =
     (case get_by_pubkey pk nm of
        None \<Rightarrow> (False, nm)
      | Some i \<Rightarrow> if nonce_hash (state_at nm i) \<noteq> new_blockhash
                 then (True, set_state i (Ready new_blockhash) nm) else (False, nm))"

definition on_observed_landing :: "nonce_id \<Rightarrow> instant \<Rightarrow> nonce_manager \<Rightarrow> nonce_manager" where
  "on_observed_landing nonce_id now nm =
     (case get_by_id nonce_id nm of
        None \<Rightarrow> nm
      | Some i \<Rightarrow> (case state_at nm i of
          InFlight blockhash_used t \<Rightarrow> set_state i (AwaitingUpdate blockhash_used now) nm
        | _ \<Rightarrow> nm))"

definition on_landing_with_blockhash :: "nonce_id \<Rightarrow> hash \<Rightarrow> nonce_manager \<Rightarrow> bool \<times> nonce_manager" where
  "on_landing_with_blockhash nonce_id new_blockhash nm =
     (case get_by_id nonce_id nm of
        None \<Rightarrow> (False, nm)
      | Some i \<Rightarrow> (case state_at nm i of
          Ready blockhash \<Rightarrow>
            if blockhash \<noteq> new_blockhash then (True, set_state i (Ready new_blockhash) nm) else (False, nm)
        | _ \<Rightarrow> (True, set_state i (Ready new_blockhash) nm)))"

definition timed_out :: "duration \<Rightarrow> duration \<Rightarrow> instant \<Rightarrow> nonce_state \<Rightarrow> bool" where
  "timed_out in_flight_deadline awaiting_update_deadline now st =
     (case st of
        InFlight b t \<Rightarrow> since now t \<ge> in_flight_deadline
      | AwaitingUpdate b t \<Rightarrow> since now t \<ge> awaiting_update_deadline
      | _ \<Rightarrow> False)"

definition tick_timeouts ::
    "duration \<Rightarrow> duration \<Rightarrow> instant \<Rightarrow> nonce_manager \<Rightarrow> (nonce_id \<times> pubkey) list \<times> nonce_manager" where
  "tick_timeouts d1 d2 now nm =
     (map (\<lambda>e. (ne_id e, ne_pubkey e)) (filter (\<lambda>e. timed_out d1 d2 now (ne_state e)) (nm_entries nm)),
      nm\<lparr>nm_entries := map (\<lambda>e. if timed_out d1 d2 now (ne_state e)
           then e\<lparr>ne_state := Stale (nonce_hash (ne_state e)) now\<rparr> else e) (nm_entries nm)\<rparr>)"

definition restore_unchanged :: "nonce_id \<Rightarrow> nonce_manager \<Rightarrow> bool \<times> nonce_manager" where
  "restore_unchanged nonce_id nm =
     (case get_by_id nonce_id nm of
        None \<Rightarrow> (False, nm)
      | Some i \<Rightarrow> (case state_at nm i of
          Ready b \<Rightarrow> (False, nm)
        | st \<Rightarrow> (True, set_state i (Ready (nonce_hash st)) nm)))"

definition on_fallback_refresh :: "pubkey \<Rightarrow> hash \<Rightarrow> nonce_manager \<Rightarrow> nonce_manager" where
  "on_fallback_refresh pk observed_blockhash nm =
     (case get_by_pubkey pk nm of
        None \<Rightarrow> nm
      | Some i \<Rightarrow> (case state_at nm i of
          Stale blockhash_used t \<Rightarrow>
            if blockhash_used = observed_blockhash then set_state i (Ready blockhash_used) nm
            else set_state i (Ready observed_blockhash) nm
        | _ \<Rightarrow> nm))"

text \<open>What the other threads do to the pool.\<close>

datatype nonce_event =
    NAccountUpdate pubkey hash
  | NObservedLanding nonce_id instant
  | NLandingHash nonce_id hash
  | NTimeouts duration duration instant
  | NRestore nonce_id
  | NFallback pubkey hash

fun nonce_act :: "nonce_event \<Rightarrow> nonce_manager \<Rightarrow> nonce_manager" where
  "nonce_act (NAccountUpdate pk h) nm = snd (on_account_update pk h nm)"
| "nonce_act (NObservedLanding i t) nm = on_observed_landing i t nm"
| "nonce_act (NLandingHash i h) nm = snd (on_landing_with_blockhash i h nm)"
| "nonce_act (NTimeouts d1 d2 t) nm = snd (tick_timeouts d1 d2 t nm)"
| "nonce_act (NRestore i) nm = snd (restore_unchanged i nm)"
| "nonce_act (NFallback pk h) nm = on_fallback_refresh pk h nm"

section \<open>Leases\<close>

text \<open>A pool hands out free keys and gets them back by events; \<open>frees\<close> says which.\<close>

locale lease_pool =
  fixes take_one :: "'t \<Rightarrow> 's \<Rightarrow> 'k option \<times> 's"
    and act :: "'e \<Rightarrow> 's \<Rightarrow> 's"
    and frees :: "'e \<Rightarrow> 's \<Rightarrow> 'k set"
    and free_keys :: "'s \<Rightarrow> 'k set"
  assumes take_some: "take_one t s = (Some k, s') \<Longrightarrow> k \<in> free_keys s \<and> free_keys s' = free_keys s - {k}"
    and take_none: "take_one t s = (None, s') \<Longrightarrow> free_keys s = {} \<and> free_keys s' = {}"
    and act_free: "free_keys (act e s) \<subseteq> free_keys s \<union> frees e s"
begin

fun after :: "'s \<Rightarrow> ('t + 'e) list \<Rightarrow> 's" where
  "after s [] = s"
| "after s (Inl t # es) = after (snd (take_one t s)) es"
| "after s (Inr e # es) = after (act e s) es"

lemma after_append: "after s (xs @ ys) = after (after s xs) ys"
  by (induction s xs rule: after.induct) auto

lemma take_shrinks: "free_keys (snd (take_one t s)) \<subseteq> free_keys s"
proof -
  obtain k s' where "take_one t s = (k, s')" by fastforce
  then show ?thesis using take_some [of t s] take_none [of t s] by (cases k) auto
qed

lemma stays_leased:
  "k \<notin> free_keys s \<Longrightarrow> k \<in> free_keys (after s es) \<Longrightarrow>
   \<exists>xs e ys. es = xs @ Inr e # ys \<and> k \<in> frees e (after s xs)"
proof (induction s es rule: after.induct)
  case (2 s t es)
  have "k \<notin> free_keys (snd (take_one t s))" using 2(2) take_shrinks by blast
  with 2 obtain xs e ys where "es = xs @ Inr e # ys" "k \<in> frees e (after (snd (take_one t s)) xs)" by auto
  then show ?case by (intro exI [of _ "Inl t # xs"] exI [of _ e] exI [of _ ys]) simp
next
  case (3 s e es)
  show ?case
  proof (cases "k \<in> frees e s")
    case True
    then show ?thesis by (intro exI [of _ "[]"] exI [of _ e] exI [of _ es]) simp
  next
    case False
    then have "k \<notin> free_keys (act e s)" using 3(2) act_free by blast
    with 3 obtain xs f ys where "es = xs @ Inr f # ys" "k \<in> frees f (after (act e s) xs)" by auto
    then show ?thesis by (intro exI [of _ "Inr e # xs"] exI [of _ f] exI [of _ ys]) simp
  qed
qed simp

text \<open>Between two leases of the same key lies an event that freed it.\<close>

lemma exclusive:
  assumes "take_one t s = (Some k, s')" "take_one t' (after s' es) = (Some k, s'')"
  shows "\<exists>xs e ys. es = xs @ Inr e # ys \<and> k \<in> frees e (after s' xs)"
proof (rule stays_leased)
  show "k \<notin> free_keys s'" using take_some [OF assms(1)] by simp
  show "k \<in> free_keys (after s' es)" using take_some [OF assms(2)] by simp
qed

lemma take_some_iff: "(fst (take_one t s) \<noteq> None) = (free_keys s \<noteq> {})"
proof (cases "take_one t s")
  case (Pair k s')
  show ?thesis
  proof (cases k)
    case None
    with Pair have "free_keys s = {}" using take_none [of t s s'] by simp
    with Pair None show ?thesis by simp
  next
    case (Some x)
    with Pair have "x \<in> free_keys s" using take_some [of t s x s'] by simp
    with Pair Some show ?thesis by auto
  qed
qed

end

section \<open>The manager is a lease pool\<close>

definition ready_set :: "nonce_manager \<Rightarrow> nat set" where
  "ready_set nm = {i. i < length (nm_entries nm) \<and> is_ready (state_at nm i)}"

fun releases :: "nonce_event \<Rightarrow> nonce_manager \<Rightarrow> nat set" where
  "releases (NAccountUpdate pk h) nm =
     {i. get_by_pubkey pk nm = Some i \<and> nonce_hash (state_at nm i) \<noteq> h}"
| "releases (NLandingHash i h) nm = {k. get_by_id i nm = Some k}"
| "releases (NRestore i) nm = {k. get_by_id i nm = Some k}"
| "releases (NFallback pk h) nm = {i. get_by_pubkey pk nm = Some i \<and> is_stale (state_at nm i)}"
| "releases _ nm = {}"

lemma entries_set_state [simp]: "length (nm_entries (set_state i st nm)) = length (nm_entries nm)"
  "nm_pubkey_index (set_state i st nm) = nm_pubkey_index nm"
  "nm_rr_cursor (set_state i st nm) = nm_rr_cursor nm"
  by (simp_all add: set_state_def)

lemma state_at_set: "i < length (nm_entries nm) \<Longrightarrow>
    state_at (set_state i st nm) k = (if k = i then st else state_at nm k)"
  by (simp add: state_at_def set_state_def)

lemma set_state_out: "length (nm_entries nm) \<le> i \<Longrightarrow> set_state i st nm = nm"
  by (simp add: set_state_def list_update_beyond)

lemma ready_set_set: "ready_set (set_state i st nm) =
    (if i < length (nm_entries nm) then (if is_ready st then insert i (ready_set nm) else ready_set nm - {i})
     else ready_set nm)"
  by (auto simp: ready_set_def state_at_set set_state_out not_less)

lemma ready_set_cursor [simp]: "ready_set (nm\<lparr>nm_rr_cursor := c\<rparr>) = ready_set nm"
  by (simp add: ready_set_def state_at_def)

lemma scan_range: "nm_entries nm \<noteq> [] \<Longrightarrow> set (let n = length (nm_entries nm); start = unat (nm_rr_cursor nm) mod n in
     map (\<lambda>offset. (start + offset) mod n) [0..<n]) = {0..<length (nm_entries nm)}"
  unfolding Let_def by (rule cyclic_range) simp

lemma find_ready_Some: "nm_entries nm \<noteq> [] \<Longrightarrow> find_ready nm = Some i \<Longrightarrow> i \<in> ready_set nm"
  using scan_range [of nm] find_in_set [of "\<lambda>i. is_ready (state_at nm i)" _ i]
  unfolding find_ready_def ready_set_def Let_def by fastforce

lemma find_ready_None: "nm_entries nm \<noteq> [] \<Longrightarrow> find_ready nm = None \<Longrightarrow> ready_set nm = {}"
  using scan_range [of nm] find_none_set [of "\<lambda>i. is_ready (state_at nm i)"]
  unfolding find_ready_def ready_set_def Let_def by (metis (mono_tags, lifting) Collect_empty_eq atLeastLessThan_iff zero_le)

lemma state_hash_cursor [simp]: "set_state i st (nm\<lparr>nm_rr_cursor := c\<rparr>) = (set_state i st nm)\<lparr>nm_rr_cursor := c\<rparr>"
  by (simp add: set_state_def)

lemma timeouts_state: "i < length (nm_entries nm) \<Longrightarrow> state_at (snd (tick_timeouts d1 d2 now nm)) i =
    (if timed_out d1 d2 now (state_at nm i) then Stale (nonce_hash (state_at nm i)) now else state_at nm i)"
  by (simp add: state_at_def tick_timeouts_def)

lemma timeouts_length [simp]: "length (nm_entries (snd (tick_timeouts d1 d2 now nm))) = length (nm_entries nm)"
  by (simp add: tick_timeouts_def)

interpretation nonces: lease_pool take_index nonce_act releases ready_set
proof
  fix t s s' and k :: nat
  show "take_index t s = (Some k, s') \<Longrightarrow> k \<in> ready_set s \<and> ready_set s' = ready_set s - {k}"
    by (auto simp: take_index_def Let_def ready_set_set dest: find_ready_Some split: if_splits option.splits)
      (auto simp: ready_set_def)
next
  fix t s s'
  show "take_index t s = (None, s') \<Longrightarrow> ready_set s = {} \<and> ready_set s' = {}"
    by (auto simp: take_index_def Let_def dest: find_ready_None split: if_splits option.splits)
      (auto simp: ready_set_def)
next
  fix e s
  show "ready_set (nonce_act e s) \<subseteq> ready_set s \<union> releases e s"
  proof (cases e)
    case (NTimeouts d1 d2 t)
    then show ?thesis by (auto simp: ready_set_def timeouts_state split: if_splits)
  qed (auto simp: on_account_update_def on_observed_landing_def on_landing_with_blockhash_def
      restore_unchanged_def on_fallback_refresh_def ready_set_set
      split: option.splits nonce_state.splits if_splits)
qed

section \<open>Runs\<close>

fun nonce_run :: "nonce_manager \<Rightarrow> (instant + nonce_event) list \<Rightarrow> nonce_manager" where
  "nonce_run nm [] = nm"
| "nonce_run nm (Inl t # es) = nonce_run (snd (take_index t nm)) es"
| "nonce_run nm (Inr e # es) = nonce_run (nonce_act e nm) es"

lemma nonce_run_after: "nonce_run nm es = nonces.after nm es"
  by (induction nm es rule: nonce_run.induct) auto

text \<open>The edges of the state machine.\<close>

inductive nonce_edge :: "nonce_state \<Rightarrow> nonce_state \<Rightarrow> bool" where
  lease: "nonce_edge (Ready b) (InFlight b t)"
| landed: "nonce_edge (InFlight b t) (AwaitingUpdate b t')"
| lost: "nonce_edge (InFlight b t) (Stale b t')"
| expired: "nonce_edge (AwaitingUpdate b t) (Stale b t')"
| renewed: "st \<noteq> Ready b \<Longrightarrow> nonce_edge st (Ready b)"

code_pred nonce_edge .

inductive_cases edge_from_ready: "nonce_edge (Ready b) st"
inductive_cases edge_to_in_flight: "nonce_edge st (InFlight b t)"
inductive_cases edge_to_stale: "nonce_edge st (Stale b t)"

inductive_simps edge_simps [simp]:
  "nonce_edge (Ready b) (InFlight c t)"
  "nonce_edge (InFlight b t) (AwaitingUpdate c t')"
  "nonce_edge (InFlight b t) (Stale c t')"
  "nonce_edge (AwaitingUpdate b t) (Stale c t')"
  "nonce_edge st (Ready c)"

definition moved :: "nonce_manager \<Rightarrow> nonce_manager \<Rightarrow> bool" where
  "moved nm nm' \<longleftrightarrow> map (\<lambda>e. (ne_id e, ne_pubkey e)) (nm_entries nm') = map (\<lambda>e. (ne_id e, ne_pubkey e)) (nm_entries nm)
     \<and> nm_pubkey_index nm' = nm_pubkey_index nm
     \<and> (\<forall>i < length (nm_entries nm). state_at nm' i = state_at nm i \<or> nonce_edge (state_at nm i) (state_at nm' i))"

lemma moved_refl [simp]: "moved nm nm"
  by (simp add: moved_def)

lemma ids_set_state: "map (\<lambda>e. (ne_id e, ne_pubkey e)) (nm_entries (set_state i st nm)) =
    map (\<lambda>e. (ne_id e, ne_pubkey e)) (nm_entries nm)"
  by (cases "i < length (nm_entries nm)")
    (simp_all add: set_state_def map_update list_update_same_conv list_update_beyond)

lemma moved_set_state: "nonce_edge (state_at nm i) st \<or> state_at nm i = st \<Longrightarrow> moved nm (set_state i st nm)"
proof (cases "i < length (nm_entries nm)")
  case True
  assume "nonce_edge (state_at nm i) st \<or> state_at nm i = st"
  with True show ?thesis unfolding moved_def ids_set_state by (auto simp: state_at_set)
qed (simp add: set_state_out)

lemma moved_cursor [simp]: "moved nm (nm'\<lparr>nm_rr_cursor := c\<rparr>) = moved nm nm'"
  by (simp add: moved_def state_at_def)

lemma take_moved: "moved nm (snd (take_index t nm))"
proof (cases "nm_entries nm = [] \<or> find_ready nm = None")
  case True
  then show ?thesis by (auto simp: take_index_def Let_def)
next
  case False
  then obtain i where i: "find_ready nm = Some i" "nm_entries nm \<noteq> []" by auto
  with find_ready_Some have "is_ready (state_at nm i)" by (auto simp: ready_set_def)
  then have "moved nm (set_state i (InFlight (nonce_hash (state_at nm i)) t) nm)"
    by (intro moved_set_state) (cases "state_at nm i", simp_all)
  with i show ?thesis by (simp add: take_index_def Let_def)
qed

lemma timeouts_moved: "moved nm (snd (tick_timeouts d1 d2 now nm))"
proof -
  have "nonce_edge st (Stale (nonce_hash st) now)" if "timed_out d1 d2 now st" for st
    using that by (cases st) (simp_all add: timed_out_def)
  then show ?thesis unfolding moved_def
    by (auto simp: timeouts_state) (simp_all add: tick_timeouts_def comp_def if_distrib cong: if_cong)
qed

lemma act_moved: "moved nm (nonce_act e nm)"
proof (cases e)
  case (NTimeouts d1 d2 t)
  then show ?thesis by (simp add: timeouts_moved)
qed (auto simp: on_account_update_def on_observed_landing_def on_landing_with_blockhash_def
    restore_unchanged_def on_fallback_refresh_def intro!: moved_set_state
    split: option.splits nonce_state.splits)

text \<open>Which events may change the hash an entry holds.\<close>

fun carries_hash :: "nonce_event \<Rightarrow> bool" where
  "carries_hash (NAccountUpdate pk h) = True"
| "carries_hash (NLandingHash i h) = True"
| "carries_hash (NFallback pk h) = True"
| "carries_hash _ = False"

lemma act_hash: "\<not> carries_hash e \<Longrightarrow> i < length (nm_entries nm) \<Longrightarrow>
    nonce_hash (state_at (nonce_act e nm) i) = nonce_hash (state_at nm i)"
proof (cases e)
  case (NTimeouts d1 d2 t)
  then show "i < length (nm_entries nm) \<Longrightarrow> ?thesis" by (simp add: timeouts_state)
next
  case (NObservedLanding j t)
  assume i: "i < length (nm_entries nm)"
  show ?thesis
    using NObservedLanding i by (cases "get_by_id j nm"; cases "the (get_by_id j nm) < length (nm_entries nm)")
      (auto simp: on_observed_landing_def state_at_set set_state_out not_less split: nonce_state.splits)
next
  case (NRestore j)
  assume i: "i < length (nm_entries nm)"
  show ?thesis
    using NRestore i by (cases "get_by_id j nm"; cases "the (get_by_id j nm) < length (nm_entries nm)")
      (auto simp: restore_unchanged_def state_at_set set_state_out not_less split: nonce_state.splits)
qed simp_all

section \<open>The pubkey index\<close>

definition index_ok :: "nonce_manager \<Rightarrow> bool" where
  "index_ok nm \<longleftrightarrow> (\<forall>pk i. get_by_pubkey pk nm = Some i \<longleftrightarrow>
     i < length (nm_entries nm) \<and> ne_pubkey (nm_entries nm ! i) = pk)"

lemma index_fold: "distinct pks \<Longrightarrow>
  bt_get (fold (\<lambda>(idx, pk). bt_insert pk idx) (enumerate n pks) m) pk =
    (if pk \<in> set pks then Some (n + (LEAST i. i < length pks \<and> pks ! i = pk)) else bt_get m pk)"
proof (induction pks arbitrary: n m)
  case (Cons x pks)
  show ?case
  proof (cases "pk = x")
    case True
    then have "pk \<notin> set pks" using Cons.prems by simp
    moreover have "(LEAST i. i < length (x # pks) \<and> (x # pks) ! i = pk) = 0"
      using True by (intro Least_equality) simp_all
    ultimately show ?thesis using True Cons by (simp add: Cons.IH)
  next
    case False
    have "(LEAST i. i < length (x # pks) \<and> (x # pks) ! i = pk) =
        Suc (LEAST i. i < length pks \<and> pks ! i = pk)" if p: "pk \<in> set pks"
    proof -
      obtain j where j: "j < length pks" "pks ! j = pk" using p by (auto simp: in_set_conv_nth)
      show ?thesis using Least_Suc [of "\<lambda>i. i < length (x # pks) \<and> (x # pks) ! i = pk" "Suc j"] j False
        by simp
    qed
    then show ?thesis using False Cons by (auto simp: Cons.IH)
  qed
qed simp

lemma least_nth: "distinct xs \<Longrightarrow> j < length xs \<Longrightarrow> (LEAST i. i < length xs \<and> xs ! i = xs ! j) = j"
  by (rule Least_equality) (auto simp: nth_eq_iff_index_eq)

lemma first_index: "distinct xs \<Longrightarrow>
    (if k \<in> set xs then Some (LEAST i. i < length xs \<and> xs ! i = k) else None) = Some i
     \<longleftrightarrow> i < length xs \<and> xs ! i = k"
  by (auto simp: in_set_conv_nth least_nth nth_eq_iff_index_eq)

lemma index_ok_new: "distinct (map (fst \<circ> snd) es) \<Longrightarrow> index_ok (nonce_manager_new es)"
proof -
  assume d: "distinct (map (fst \<circ> snd) es)"
  let ?pks = "map (fst \<circ> snd) es"
  have pk: "ne_pubkey (nm_entries (nonce_manager_new es) ! i) = ?pks ! i" if "i < length es" for i
    using that by (simp add: nonce_manager_new_def case_prod_beta)
  have len: "length (nm_entries (nonce_manager_new es)) = length es" by (simp add: nonce_manager_new_def)
  have "get_by_pubkey k (nonce_manager_new es) = Some i \<longleftrightarrow> i < length es \<and> ?pks ! i = k" for k i
  proof -
    have g: "get_by_pubkey k (nonce_manager_new es) =
        (if k \<in> set ?pks then Some (LEAST i. i < length ?pks \<and> ?pks ! i = k) else None)"
      using index_fold [OF d, of 0 "[]" k] by (simp add: get_by_pubkey_def nonce_manager_new_def)
    show ?thesis unfolding g using first_index [OF d, of k i] by simp
  qed
  then show ?thesis using len pk by (auto simp: index_ok_def)
qed

lemma moved_index: "moved nm nm' \<Longrightarrow> index_ok nm \<Longrightarrow> index_ok nm'"
proof -
  assume m: "moved nm nm'" and ok: "index_ok nm"
  then have len: "length (nm_entries nm') = length (nm_entries nm)"
    using map_eq_imp_length_eq by (auto simp: moved_def)
  have "ne_pubkey (nm_entries nm' ! i) = ne_pubkey (nm_entries nm ! i)" if "i < length (nm_entries nm)" for i
  proof -
    have "map (\<lambda>e. (ne_id e, ne_pubkey e)) (nm_entries nm') ! i = map (\<lambda>e. (ne_id e, ne_pubkey e)) (nm_entries nm) ! i"
      using m by (simp add: moved_def)
    with that len show ?thesis by simp
  qed
  with len m ok show ?thesis by (auto simp: index_ok_def get_by_pubkey_def moved_def)
qed

lemma run_index: "index_ok nm \<Longrightarrow> index_ok (nonce_run nm es)"
  by (induction nm es rule: nonce_run.induct) (simp_all add: moved_index [OF take_moved] moved_index [OF act_moved])


section \<open>The RPC safety net\<close>

text \<open>\<open>refresh_batch\<close> for one chunk, for all chunks (a failing request returns early, with the
  chunks before it applied), and one round of the polling loop.\<close>

definition refresh_one :: "pubkey \<times> u8 list option \<Rightarrow> nat \<times> nonce_manager \<Rightarrow> nat \<times> nonce_manager" where
  "refresh_one a st = (let (pk, acc_opt) = a; (refreshed, nm) = st in
     case acc_opt of
       None \<Rightarrow> st
     | Some data \<Rightarrow> (case parse_nonce_account_data data of
         Inl e \<Rightarrow> st
       | Inr state \<Rightarrow> (refreshed + 1, on_fallback_refresh pk (na_blockhash state) nm)))"

type_synonym 'err rpc = "pubkey list \<Rightarrow> 'err + u8 list option list"

fun refresh_chunks :: "'err rpc \<Rightarrow> pubkey list list \<Rightarrow> nat \<times> nonce_manager \<Rightarrow> ('err + nat) \<times> nonce_manager" where
  "refresh_chunks rpc [] st = (Inr (fst st), snd st)"
| "refresh_chunks rpc (chunk # cs) st =
     (case rpc chunk of
        Inl e \<Rightarrow> (Inl e, snd st)
      | Inr accounts \<Rightarrow> refresh_chunks rpc cs (fold refresh_one (zip chunk accounts) st))"

definition refresh_batch :: "'err rpc \<Rightarrow> pubkey list \<Rightarrow> nonce_manager \<Rightarrow> ('err + nat) \<times> nonce_manager" where
  "refresh_batch rpc pubkeys nm = refresh_chunks rpc (chunks 100 pubkeys) (0, nm)"

definition poll_once ::
    "'err rpc \<Rightarrow> duration \<Rightarrow> duration \<Rightarrow> instant \<Rightarrow> nonce_manager \<Rightarrow> nonce_manager" where
  "poll_once rpc in_flight_deadline awaiting_update_deadline now nm =
     (let nm1 = snd (tick_timeouts in_flight_deadline awaiting_update_deadline now nm);
          stale_pubkeys = map ne_pubkey (filter (\<lambda>e. is_stale (ne_state e)) (nm_entries nm1))
      in if stale_pubkeys \<noteq> [] then snd (refresh_batch rpc stale_pubkeys nm1) else nm1)"

lemma refresh_chunks_concat:
  assumes "\<And>c. rpc c = Inr (map f c)"
  shows "snd (refresh_chunks rpc cs st) = snd (fold refresh_one (map (\<lambda>pk. (pk, f pk)) (concat cs)) st)"
proof (induction cs arbitrary: st)
  case (Cons c cs)
  have "zip c (map f c) = map (\<lambda>pk. (pk, f pk)) c" by (simp add: zip_map2 zip_same_conv_map)
  with Cons assms [of c] show ?case by simp
qed simp

lemma fallback_state: "index_ok nm \<Longrightarrow> i < length (nm_entries nm) \<Longrightarrow>
    state_at (on_fallback_refresh pk h nm) i =
      (if ne_pubkey (nm_entries nm ! i) = pk \<and> is_stale (state_at nm i) then Ready h else state_at nm i)"
proof -
  assume ok: "index_ok nm" and i: "i < length (nm_entries nm)"
  show ?thesis
  proof (cases "get_by_pubkey pk nm")
    case None
    with ok i have "ne_pubkey (nm_entries nm ! i) \<noteq> pk" by (metis index_ok_def option.distinct(1))
    with None show ?thesis by (simp add: on_fallback_refresh_def)
  next
    case (Some j)
    with ok have j: "j < length (nm_entries nm)" "ne_pubkey (nm_entries nm ! j) = pk" by (auto simp: index_ok_def)
    have "ne_pubkey (nm_entries nm ! i) = pk \<longleftrightarrow> i = j"
      using ok i j Some by (metis index_ok_def option.inject)
    with Some j i show ?thesis
      by (auto simp: on_fallback_refresh_def state_at_set split: nonce_state.splits)
  qed
qed

lemma pubkey_moved: "moved nm nm' \<Longrightarrow> length (nm_entries nm') = length (nm_entries nm) \<and>
    (\<forall>i < length (nm_entries nm). ne_pubkey (nm_entries nm' ! i) = ne_pubkey (nm_entries nm ! i))"
proof -
  assume m: "moved nm nm'"
  then have len: "length (nm_entries nm') = length (nm_entries nm)"
    using map_eq_imp_length_eq by (auto simp: moved_def)
  have "ne_pubkey (nm_entries nm' ! i) = ne_pubkey (nm_entries nm ! i)" if "i < length (nm_entries nm)" for i
  proof -
    have "map (\<lambda>e. (ne_id e, ne_pubkey e)) (nm_entries nm') ! i = map (\<lambda>e. (ne_id e, ne_pubkey e)) (nm_entries nm) ! i"
      using m by (simp add: moved_def)
    with that len show ?thesis by simp
  qed
  with len show ?thesis by simp
qed

lemma refresh_all:
  assumes "index_ok nm" "i < length (nm_entries nm)"
    and "\<And>pk. parse_nonce_account_data (data pk) = Inr (chain pk)"
  shows "state_at (snd (fold refresh_one (map (\<lambda>pk. (pk, Some (data pk))) pks) (n, nm))) i =
    (if ne_pubkey (nm_entries nm ! i) \<in> set pks \<and> is_stale (state_at nm i)
     then Ready (na_blockhash (chain (ne_pubkey (nm_entries nm ! i)))) else state_at nm i)"
  using assms(1,2)
proof (induction pks arbitrary: n nm)
  case (Cons pk pks)
  let ?nm = "on_fallback_refresh pk (na_blockhash (chain pk)) nm"
  have m: "moved nm ?nm" using act_moved [of nm "NFallback pk (na_blockhash (chain pk))"] by simp
  note pm = pubkey_moved [OF m]
  have "refresh_one (pk, Some (data pk)) (n, nm) = (n + 1, ?nm)"
    using assms(3) [of pk] by (simp add: refresh_one_def)
  with Cons.IH [of ?nm "n + 1"] moved_index [OF m Cons.prems(1)] pm Cons.prems
    fallback_state [OF Cons.prems, of pk "na_blockhash (chain pk)"]
  show ?case by auto
qed simp

section \<open>Start-up\<close>

text \<open>
  \<open>bootstrap\<close> after the configuration file was read and decoded: the base58 parser and the RPC
  client are parameters, every early return is an error value.
\<close>

record nonce_config_entry =
  nc_id :: nonce_id
  nc_pubkey :: string
  nc_initial_blockhash :: string

datatype 'err bootstrap_error =
    InvalidPubkey string
  | RpcFailed 'err
  | NotOnChain string
  | ParseFailed string nonce_parse_error
  | AuthorityMismatch string pubkey

fun parse_pubkeys :: "(string \<Rightarrow> pubkey option) \<Rightarrow> nonce_config_entry list \<Rightarrow> 'err bootstrap_error + pubkey list" where
  "parse_pubkeys from_str [] = Inr []"
| "parse_pubkeys from_str (e # es) =
     (case from_str (nc_pubkey e) of
        None \<Rightarrow> Inl (InvalidPubkey (nc_pubkey e))
      | Some pk \<Rightarrow> (case parse_pubkeys from_str es of Inl err \<Rightarrow> Inl err | Inr pks \<Rightarrow> Inr (pk # pks)))"

fun fetch_accounts :: "'err rpc \<Rightarrow> pubkey list list \<Rightarrow> 'err bootstrap_error + u8 list option list" where
  "fetch_accounts rpc [] = Inr []"
| "fetch_accounts rpc (c # cs) =
     (case rpc c of
        Inl e \<Rightarrow> Inl (RpcFailed e)
      | Inr batch \<Rightarrow> (case fetch_accounts rpc cs of Inl err \<Rightarrow> Inl err | Inr rest \<Rightarrow> Inr (batch @ rest)))"

fun check_accounts ::
    "(string \<Rightarrow> pubkey option) \<Rightarrow> pubkey \<Rightarrow> (nonce_config_entry \<times> u8 list option) list
      \<Rightarrow> 'err bootstrap_error + (nonce_id \<times> pubkey \<times> hash) list" where
  "check_accounts from_str expected_authority [] = Inr []"
| "check_accounts from_str expected_authority ((entry, acc_opt) # rest) =
     (case acc_opt of
        None \<Rightarrow> Inl (NotOnChain (nc_pubkey entry))
      | Some data \<Rightarrow> (case parse_nonce_account_data data of
          Inl e \<Rightarrow> Inl (ParseFailed (nc_pubkey entry) e)
        | Inr state \<Rightarrow>
            if na_authority state \<noteq> expected_authority
            then Inl (AuthorityMismatch (nc_pubkey entry) (na_authority state))
            else (case check_accounts from_str expected_authority rest of
                Inl err \<Rightarrow> Inl err
              | Inr res \<Rightarrow> Inr ((nc_id entry, the (from_str (nc_pubkey entry)), na_blockhash state) # res))))"

definition bootstrap ::
    "(string \<Rightarrow> pubkey option) \<Rightarrow> 'err rpc \<Rightarrow> nonce_config_entry list \<Rightarrow> pubkey
      \<Rightarrow> 'err bootstrap_error + (nonce_id \<times> pubkey \<times> hash) list" where
  "bootstrap from_str rpc accounts expected_authority =
     (case parse_pubkeys from_str accounts of
        Inl e \<Rightarrow> Inl e
      | Inr pubkeys \<Rightarrow> (case fetch_accounts rpc (chunks 100 pubkeys) of
          Inl e \<Rightarrow> Inl e
        | Inr accs \<Rightarrow> check_accounts from_str expected_authority (zip accounts accs)))"

lemma parse_pubkeys_ok: "parse_pubkeys from_str es = Inr pks \<Longrightarrow>
    map (from_str \<circ> nc_pubkey) es = map Some pks"
  by (induction es arbitrary: pks) (auto split: option.splits sum.splits)

lemma fetch_length:
  assumes "\<And>c accs. rpc c = Inr accs \<Longrightarrow> length accs = length c"
  shows "fetch_accounts rpc cs = Inr accs \<Longrightarrow> length accs = length (concat cs)"
  by (induction cs arbitrary: accs) (auto split: sum.splits dest: assms)

text \<open>One configuration entry, its account and its entry in the pool.\<close>

definition nonce_checked :: "(string \<Rightarrow> pubkey option) \<Rightarrow> pubkey \<Rightarrow> nonce_config_entry \<Rightarrow> nonce_id \<times> pubkey \<times> hash \<Rightarrow> bool" where
  "nonce_checked from_str auth e r \<longleftrightarrow> fst r = nc_id e \<and> from_str (nc_pubkey e) = Some (fst (snd r))
     \<and> (\<exists>data. parse_nonce_account_data data = Inr \<lparr>na_authority = auth, na_blockhash = snd (snd r)\<rparr>)"

lemma check_accounts_ok:
  "check_accounts from_str auth (zip es accs) = (Inr res :: 'err bootstrap_error + _) \<Longrightarrow> length accs = length es \<Longrightarrow>
   map (from_str \<circ> nc_pubkey) es = map Some pks \<Longrightarrow> list_all2 (nonce_checked from_str auth) es res"
proof (induction es accs arbitrary: res pks rule: list_induct2')
  case (4 e es a accs)
  from "4.prems"(1) obtain data st res' where d: "a = Some data" "parse_nonce_account_data data = Inr st"
      "na_authority st = auth" "check_accounts from_str auth (zip es accs) = (Inr res' :: 'err bootstrap_error + _)"
      "res = (nc_id e, the (from_str (nc_pubkey e)), na_blockhash st) # res'"
    by (fastforce split: option.splits sum.splits if_splits)
  from "4.prems"(3) obtain pk pks' where "from_str (nc_pubkey e) = Some pk" "map (from_str \<circ> nc_pubkey) es = map Some pks'"
    by (cases pks) (auto simp: comp_def)
  note pk = this
  have "Inr st = (Inr \<lparr>na_authority = auth, na_blockhash = na_blockhash st\<rparr> :: nonce_parse_error + _)"
    using d(3) by simp
  with d(2) have "parse_nonce_account_data data = Inr \<lparr>na_authority = auth, na_blockhash = na_blockhash st\<rparr>" by simp
  then have "nonce_checked from_str auth e (nc_id e, the (from_str (nc_pubkey e)), na_blockhash st)"
    using pk(1) unfolding nonce_checked_def by auto
  moreover have "list_all2 (nonce_checked from_str auth) es res'"
    using "4.IH" [OF d(4) _ pk(2)] "4.prems"(2) by simp
  ultimately show ?case using d(5) by simp
qed simp_all

lemma set_state_hash: "nonce_hash st = nonce_hash (state_at nm i) \<Longrightarrow>
    nonce_hash (state_at (set_state i st nm) k) = nonce_hash (state_at nm k)"
  by (cases "i < length (nm_entries nm)") (simp_all add: state_at_set set_state_out)

lemma state_at_cursor [simp]: "state_at (nm\<lparr>nm_rr_cursor := c\<rparr>) i = state_at nm i"
  by (simp add: state_at_def)

lemma take_hash: "nonce_hash (state_at (snd (take_index t nm)) i) = nonce_hash (state_at nm i)"
  by (simp add: take_index_def Let_def set_state_hash split: option.splits)

section \<open>Properties\<close>

text \<open>
  C8. Exclusive leases: if the pool hands out the same nonce twice, then in between an event gave
  it back: a landing with its new hash, a restore, an account update with a different hash, or a
  fallback refresh of that nonce while stale.  No sequence of takes, timeouts and observed landings
  alone can.
\<close>

theorem nonce_lease_exclusive:
  assumes "take_index t nm = (Some k, nm1)"
    and "take_index t' (nonce_run nm1 es) = (Some k, nm2)"
  shows "\<exists>xs e ys. es = xs @ Inr e # ys \<and> k \<in> releases e (nonce_run nm1 xs)"
  using nonces.exclusive [OF assms(1) assms(2) [unfolded nonce_run_after]]
  by (simp add: nonce_run_after)

definition nonce_demo :: nonce_manager where
  "nonce_demo = nonce_manager_new [(7, 70, 1)]"

theorem nonce_lease_exclusive_witness:
  "let nm1 = snd (take_index 5 nonce_demo);
       es = [Inr (NObservedLanding 7 6), Inl 7, Inr (NLandingHash 7 2)] in
     fst (take_index 8 (nonce_run nm1 es)) = Some 0
     \<and> (\<exists>xs e ys. es = xs @ Inr e # ys \<and> 0 \<in> releases e (nonce_run nm1 xs))"
proof -
  let ?nm1 = "snd (take_index 5 nonce_demo)"
  let ?es = "[Inr (NObservedLanding 7 6), Inl 7, Inr (NLandingHash 7 2)]"
  have t: "take_index 5 nonce_demo = (Some 0, ?nm1)"
    "fst (take_index 8 (nonce_run ?nm1 ?es)) = Some 0"
    by (simp_all add: nonce_demo_def nonce_manager_new_def take_index_def find_ready_def set_state_def
        state_at_def on_observed_landing_def on_landing_with_blockhash_def get_by_id_def Let_def)
  then have "take_index 8 (nonce_run ?nm1 ?es) = (Some 0, snd (take_index 8 (nonce_run ?nm1 ?es)))"
    by (metis prod.collapse)
  from nonce_lease_exclusive [OF t(1) this] t(2) show ?thesis unfolding Let_def by blast
qed

text \<open>
  The allocator succeeds exactly when some nonce is ready, whatever the cursor; it answers with
  the id, key and hash of a ready entry, moves only that entry, to \<open>InFlight\<close> with the same
  hash, and so there is one ready nonce less.
\<close>

theorem nonce_take_ready_exact:
  "case take_ready now nm of
     (None, nm') \<Rightarrow> ready_count nm = 0 \<and> nm_entries nm' = nm_entries nm
   | (Some (i, pk, h), nm') \<Rightarrow> (\<exists>k < length (nm_entries nm).
         nm_entries nm ! k = \<lparr>ne_id = i, ne_pubkey = pk, ne_state = Ready h\<rparr>
         \<and> nm_entries nm' = (nm_entries nm)[k := \<lparr>ne_id = i, ne_pubkey = pk, ne_state = InFlight h now\<rparr>]
         \<and> Suc (ready_count nm') = ready_count nm)"
proof -
  have count: "ready_count m = card (ready_set m)" for m
    unfolding ready_count_def ready_set_def state_at_def length_filter_conv_card by simp
  have fin: "finite (ready_set nm)" by (simp add: ready_set_def)
  obtain k nm' where t: "take_index now nm = (k, nm')" by fastforce
  show ?thesis
  proof (cases k)
    case None
    with t have "ready_set nm = {}" using nonces.take_none by blast
    moreover have "nm_entries nm' = nm_entries nm"
      using t None by (auto simp: take_index_def Let_def split: option.splits if_splits)
    ultimately show ?thesis using t None by (simp add: take_ready_def count)
  next
    case (Some j)
    with t have j: "j \<in> ready_set nm" "ready_set nm' = ready_set nm - {j}"
      using nonces.take_some by blast+
    then obtain h where h: "state_at nm j = Ready h" "j < length (nm_entries nm)"
      by (auto simp: ready_set_def elim: is_ready.elims)
    have eta: "e\<lparr>ne_state := s\<rparr> = \<lparr>ne_id = ne_id e, ne_pubkey = ne_pubkey e, ne_state = s\<rparr>" for e :: nonce_entry and s
      by simp
    have "nm_entries nm' = (nm_entries nm)[j := (nm_entries nm ! j)\<lparr>ne_state := InFlight h now\<rparr>]"
      using t Some h by (auto simp: take_index_def Let_def set_state_def split: option.splits if_splits)
    moreover have "Suc (ready_count nm') = ready_count nm"
      using card.remove [OF fin j(1)] by (simp only: count j(2))
    ultimately show ?thesis using t Some h
      by (auto simp: take_ready_def state_at_def eta intro!: exI [of _ j])
  qed
qed

text \<open>
  C14. The state machine: every operation, with any arguments, leaves each nonce where it is or
  moves it along one edge of Ready, InFlight, AwaitingUpdate, Stale, Ready; ids and keys never
  change; and only an operation that brings a hash from the chain can change the hash an entry
  holds.
\<close>

theorem nonce_state_machine:
  "let nm' = (case e of Inl t \<Rightarrow> snd (take_index t nm) | Inr ev \<Rightarrow> nonce_act ev nm) in
     map (\<lambda>e. (ne_id e, ne_pubkey e)) (nm_entries nm') = map (\<lambda>e. (ne_id e, ne_pubkey e)) (nm_entries nm)
     \<and> (\<forall>i < length (nm_entries nm).
          (state_at nm' i = state_at nm i \<or> nonce_edge (state_at nm i) (state_at nm' i))
          \<and> (nonce_hash (state_at nm' i) \<noteq> nonce_hash (state_at nm i) \<longrightarrow>
               (\<exists>ev. e = Inr ev \<and> carries_hash ev)))"
proof (cases e)
  case (Inl t)
  have "nonce_hash (state_at (snd (take_index t nm)) i) = nonce_hash (state_at nm i)"
    if "i < length (nm_entries nm)" for i
    by (rule take_hash)
  with Inl take_moved [of nm t] show ?thesis by (simp add: moved_def)
next
  case (Inr ev)
  with act_moved [of nm ev] act_hash [of ev _ nm] show ?thesis
    by (auto simp: moved_def)
qed

theorem nonce_state_machine_witness:
  "let nm' = nonce_act (NRestore 7) (snd (take_index 5 nonce_demo)) in
     0 < length (nm_entries nonce_demo) \<and> state_at nm' 0 = Ready 1
     \<and> nonce_edge (state_at (snd (take_index 5 nonce_demo)) 0) (state_at nm' 0)"
proof -
  let ?nm = "snd (take_index 5 nonce_demo)"
  have s: "state_at ?nm 0 = InFlight 1 5" "state_at (nonce_act (NRestore 7) ?nm) 0 = Ready 1" "length (nm_entries ?nm) = 1"
    by (simp_all add: nonce_demo_def nonce_manager_new_def take_index_def find_ready_def set_state_def
        state_at_def restore_unchanged_def get_by_id_def Let_def)
  with nonce_state_machine [where e = "Inr (NRestore 7)" and nm = ?nm] show ?thesis
    by (simp add: Let_def) (simp add: nonce_demo_def nonce_manager_new_def)
qed

text \<open>
  The safety net recovers: in any state the pool can reach from distinct keys, if the chain
  answers for every key, one polling round leaves no nonce stale; every nonce that was stale or past
  its deadline is ready again with the hash on chain, every other one is untouched.
\<close>

theorem rpc_poll_recovers:
  assumes "distinct (map (fst \<circ> snd) es)"
    and "\<forall>pk. parse_nonce_account_data (data pk) = Inr (chain pk)"
    and "nm = nonce_run (nonce_manager_new es) evs"
    and "i < length (nm_entries nm)"
  shows "state_at (poll_once (\<lambda>c. Inr (map (\<lambda>pk. Some (data pk)) c)) d1 d2 now nm) i =
    (if is_stale (state_at nm i) \<or> timed_out d1 d2 now (state_at nm i)
     then Ready (na_blockhash (chain (ne_pubkey (nm_entries nm ! i)))) else state_at nm i)"
proof -
  let ?rpc = "\<lambda>c. Inr (map (\<lambda>pk. Some (data pk)) c)" and ?nm1 = "snd (tick_timeouts d1 d2 now nm)"
  let ?pks = "map ne_pubkey (filter (\<lambda>e. is_stale (ne_state e)) (nm_entries ?nm1))"
  have ok: "index_ok nm" using assms(1,3) by (simp add: run_index index_ok_new)
  have m: "moved nm ?nm1" by (rule timeouts_moved)
  note ok1 = moved_index [OF m ok]
  note pm = pubkey_moved [OF m]
  have st: "is_stale (state_at ?nm1 i) \<longleftrightarrow> is_stale (state_at nm i) \<or> timed_out d1 d2 now (state_at nm i)"
    using assms(4) by (cases "state_at nm i") (auto simp: timeouts_state timed_out_def)
  have mem: "is_stale (state_at ?nm1 i) \<longrightarrow> ne_pubkey (nm_entries ?nm1 ! i) \<in> set ?pks"
    using assms(4) by (auto simp: state_at_def intro!: image_eqI [where x = "nm_entries ?nm1 ! i"])
  have poll: "poll_once ?rpc d1 d2 now nm = snd (fold refresh_one (map (\<lambda>pk. (pk, Some (data pk))) ?pks) (0, ?nm1))"
  proof (cases "?pks = []")
    case True
    then show ?thesis unfolding poll_once_def Let_def by (simp only: if_False simp_thms list.map fold_simps snd_conv not_True_eq_False)
  next
    case False
    have "snd (refresh_chunks ?rpc (chunks 100 ?pks) (0, ?nm1)) =
        snd (fold refresh_one (map (\<lambda>pk. (pk, Some (data pk))) ?pks) (0, ?nm1))"
      by (simp only: refresh_chunks_concat [OF refl, where f = "\<lambda>pk. Some (data pk)"] concat_chunks)
    with False show ?thesis unfolding poll_once_def Let_def refresh_batch_def by (simp only: if_True simp_thms not_False_eq_True)
  qed
  have len: "i < length (nm_entries ?nm1)" and pk: "ne_pubkey (nm_entries ?nm1 ! i) = ne_pubkey (nm_entries nm ! i)"
    using pm assms(4) by simp_all
  have "parse_nonce_account_data (data pk) = Inr (chain pk)" for pk using assms(2) by simp
  note all = refresh_all [OF ok1 len this, where pks = ?pks and n = 0]
  show ?thesis
  proof (cases "is_stale (state_at ?nm1 i)")
    case True
    moreover have "ne_pubkey (nm_entries nm ! i) \<in> set ?pks" using mem True pk by metis
    ultimately show ?thesis using st unfolding poll all pk by (simp only: simp_thms if_True)
  next
    case False
    then have "state_at ?nm1 i = state_at nm i" using st assms(4) by (simp add: timeouts_state)
    with False st show ?thesis unfolding poll all by simp
  qed
qed

theorem rpc_poll_recovers_witness:
  "state_at (poll_once (\<lambda>c. Inr (map (\<lambda>pk. Some (nonce_account_bytes 1 1 9 33 (replicate 8 0))) c) :: unit + u8 list option list)
      10 100 20 (snd (take_index 5 nonce_demo))) 0 = Ready 33"
proof -
  let ?data = "\<lambda>pk::pubkey. nonce_account_bytes 1 1 9 33 (replicate 8 0)"
  have p: "\<forall>pk. parse_nonce_account_data (?data pk) = Inr ((\<lambda>pk. \<lparr>na_authority = 9, na_blockhash = 33\<rparr>) pk)"
    by (simp add: parse_nonce_account_data_def bytes_at_layout)
  have nm: "snd (take_index 5 nonce_demo) = nonce_run (nonce_manager_new [(7, 70, 1)]) [Inl 5]"
    by (simp add: nonce_demo_def)
  have s: "state_at (snd (take_index 5 nonce_demo)) 0 = InFlight 1 5" "0 < length (nm_entries (snd (take_index 5 nonce_demo)))"
    by (simp_all add: nonce_demo_def nonce_manager_new_def take_index_def find_ready_def set_state_def
        state_at_def Let_def)
  have "distinct (map (fst \<circ> snd) [(7::nonce_id, 70::pubkey, 1::hash)])" by simp
  from rpc_poll_recovers [OF this p nm s(2), of 10 100 20] s show ?thesis
    by (simp add: timed_out_def since_def)
qed

text \<open>
  A successful start-up has checked every configured account: one pool entry per configuration
  entry, in order, with its id and its key, the authority on chain being the expected one and the
  hash the one on chain (the client returns one answer per key asked, as documented).
\<close>

theorem bootstrap_checks_all:
  assumes "\<And>c accs. (rpc :: 'err rpc) c = Inr accs \<Longrightarrow> length accs = length c"
    and "bootstrap from_str rpc accounts auth = Inr res"
  shows "list_all2 (nonce_checked from_str auth) accounts res
    \<and> ready_count (nonce_manager_new res) = length accounts"
proof -
  from assms(2) obtain pks accs where p: "parse_pubkeys from_str accounts = (Inr pks :: 'err bootstrap_error + _)"
    and a: "fetch_accounts rpc (chunks 100 pks) = Inr accs"
    and c: "check_accounts from_str auth (zip accounts accs) = (Inr res :: 'err bootstrap_error + _)"
    by (auto simp: bootstrap_def split: sum.splits)
  note m = parse_pubkeys_ok [OF p]
  have "length accs = length accounts"
    using fetch_length [OF assms(1) a] map_eq_imp_length_eq [OF m] by simp
  from check_accounts_ok [OF c this m] have all: "list_all2 (nonce_checked from_str auth) accounts res" .
  have "filter (\<lambda>e. is_ready (ne_state e)) (nm_entries (nonce_manager_new res)) = nm_entries (nonce_manager_new res)"
    by (rule filter_True) (auto simp: nonce_manager_new_def)
  with all show ?thesis
    by (simp add: ready_count_def list_all2_lengthD) (simp add: nonce_manager_new_def)
qed

theorem bootstrap_checks_all_witness:
  "\<exists>res. bootstrap (\<lambda>s. Some 70) (\<lambda>c. Inr (map (\<lambda>pk. Some (nonce_account_bytes 1 1 9 33 (replicate 8 0))) c) :: unit + u8 list option list)
      [\<lparr>nc_id = 7, nc_pubkey = ''k'', nc_initial_blockhash = ''''\<rparr>] 9 = Inr res
    \<and> ready_count (nonce_manager_new res) = 1"
proof -
  let ?rpc = "\<lambda>c. Inr (map (\<lambda>pk. Some (nonce_account_bytes 1 1 9 33 (replicate 8 0))) c) :: unit + u8 list option list"
  have "bootstrap (\<lambda>s. Some 70) ?rpc [\<lparr>nc_id = 7, nc_pubkey = ''k'', nc_initial_blockhash = ''''\<rparr>] 9 = Inr [(7, 70, 33)]"
    by (simp add: bootstrap_def parse_nonce_account_data_def bytes_at_layout)
  from this bootstrap_checks_all [OF _ this] show ?thesis by force
qed

end
