(* ===== verification/SlotHashCache.thy ===== *)
theory SlotHashCache
  imports BTreeMap NonceState
begin

text \<open>
  The rolling cache of the last entry hash of every slot and the local computation of the next
  durable nonce (\<open>crates/tick-trigger-fan-out-bench/src/nonce/local_compute.rs\<close>).  The hash
  function \<open>hashv\<close> of the Solana SDK is a parameter.
\<close>

definition DURABLE_NONCE_HASH_PREFIX :: "u8 list" where
  "DURABLE_NONCE_HASH_PREFIX = [68, 85, 82, 65, 66, 76, 69, 95, 78, 79, 78, 67, 69]"

definition compute_next_durable_nonce :: "(u8 list list \<Rightarrow> hash) \<Rightarrow> hash \<Rightarrow> hash" where
  "compute_next_durable_nonce hashv recent_blockhash =
     hashv [DURABLE_NONCE_HASH_PREFIX, to_be_bytes 32 recent_blockhash]"

record slot_hash_cache =
  hc_inner :: "(u64, hash) btree"
  hc_window :: u64

definition hash_cache_new :: "u64 \<Rightarrow> slot_hash_cache" where
  "hash_cache_new window = \<lparr>hc_inner = [], hc_window = window\<rparr>"

definition record_entry :: "u64 \<Rightarrow> hash \<Rightarrow> slot_hash_cache \<Rightarrow> slot_hash_cache" where
  "record_entry slot entry_hash c =
     (let m = bt_insert slot entry_hash (hc_inner c) in
      c\<lparr>hc_inner := (case bt_last m of
          None \<Rightarrow> m
        | Some (max_slot, _) \<Rightarrow>
            if max_slot > hc_window c then bt_evict (max_slot - hc_window c) m else m)\<rparr>)"

definition record_slot_complete :: "u64 \<Rightarrow> hash \<Rightarrow> slot_hash_cache \<Rightarrow> slot_hash_cache" where
  "record_slot_complete slot last_entry_hash c = record_entry slot last_entry_hash c"

text \<open>The loop \<open>for back in 1..=max_lookback\<close>, with the number of rounds left.\<close>

fun nonce_walk :: "(u8 list list \<Rightarrow> hash) \<Rightarrow> (u64, hash) btree \<Rightarrow> u64 \<Rightarrow> u64 \<Rightarrow> nat \<Rightarrow> (u64 \<times> hash \<times> hash) option" where
  "nonce_walk hashv m landed_slot back 0 = None"
| "nonce_walk hashv m landed_slot back (Suc n) =
     (case checked_sub landed_slot back of
        None \<Rightarrow> None
      | Some s \<Rightarrow> (case bt_get m s of
          Some h \<Rightarrow> Some (s, h, compute_next_durable_nonce hashv h)
        | None \<Rightarrow> nonce_walk hashv m landed_slot (back + 1) n))"

definition next_nonce_for_landed_slot ::
    "(u8 list list \<Rightarrow> hash) \<Rightarrow> u64 \<Rightarrow> u64 \<Rightarrow> slot_hash_cache \<Rightarrow> (u64 \<times> hash \<times> hash) option" where
  "next_nonce_for_landed_slot hashv landed_slot max_lookback c =
     nonce_walk hashv (hc_inner c) landed_slot 1 (unat max_lookback)"

definition hash_cache_run :: "u64 \<Rightarrow> (u64 \<times> hash) list \<Rightarrow> slot_hash_cache" where
  "hash_cache_run window xs = fold (\<lambda>(s, h). record_entry s h) xs (hash_cache_new window)"

section \<open>What the cache holds\<close>

definition last_write :: "u64 \<Rightarrow> (u64 \<times> hash) list \<Rightarrow> hash option" where
  "last_write s xs = map_of (rev xs) s"

definition top_slot :: "(u64 \<times> hash) list \<Rightarrow> u64" where
  "top_slot xs = fold max (map fst xs) 0"

lemma top_slot_snoc: "top_slot (xs @ [(s, h)]) = max s (top_slot xs)"
  by (simp add: top_slot_def)

lemma top_slot_ge: "(s, h) \<in> set xs \<Longrightarrow> s \<le> top_slot xs"
  by (induction xs rule: rev_induct) (auto simp: top_slot_def max.coboundedI2)

definition cache_floor :: "u64 \<Rightarrow> u64 \<Rightarrow> u64" where
  "cache_floor window mx = sat_sub mx window"

lemma cache_floor_mono: "a \<le> b \<Longrightarrow> cache_floor w a \<le> cache_floor w b"
  by (simp add: cache_floor_def word_le_nat_alt unat_sat_sub)

lemma cache_floor_le: "cache_floor w a \<le> a"
  by (simp add: cache_floor_def word_le_nat_alt unat_sat_sub)

definition cache_holds :: "slot_hash_cache \<Rightarrow> (u64 \<times> hash) list \<Rightarrow> bool" where
  "cache_holds c xs \<longleftrightarrow> bt_ok (hc_inner c) \<and>
     (\<forall>s. bt_get (hc_inner c) s = (if s < cache_floor (hc_window c) (top_slot xs) then None else last_write s xs))"

lemma record_entry_frame [frame]: "hc_window (record_entry s h c) = hc_window c"
  by (simp add: record_entry_def Let_def)

lemma record_entry_holds:
  assumes c: "cache_holds c xs"
  shows "cache_holds (record_entry s h c) (xs @ [(s, h)])"
proof -
  let ?m = "bt_insert s h (hc_inner c)" and ?ys = "xs @ [(s, h)]" and ?f = "cache_floor (hc_window c)"
  have ok: "bt_ok ?m" using c by (simp add: cache_holds_def)
  obtain k v where last: "bt_last ?m = Some (k, v)"
    by (cases "bt_last ?m") (auto simp: bt_last_def elim: bt_insert.elims split: if_splits)
  have k_in: "bt_get ?m k = Some v" using bt_last_in [OF last] bt_get_in_set [OF ok, of k v] by blast
  have "k = top_slot ?ys"
  proof (rule antisym)
    have "k = s \<or> last_write k xs = Some v"
      using k_in c by (auto simp: cache_holds_def split: if_splits)
    then show "k \<le> top_slot ?ys"
      using top_slot_ge [of k v xs] map_of_SomeD [of "rev xs" k v]
      by (auto simp: last_write_def top_slot_snoc max.coboundedI2)
    have "top_slot xs \<le> k \<or> top_slot xs = 0"
    proof (cases "xs = []")
      case True
      then show ?thesis by (simp add: top_slot_def)
    next
      case False
      have "top_slot ys = 0 \<or> top_slot ys \<in> fst ` set ys" for ys
        by (induction ys rule: rev_induct) (auto simp: top_slot_def max_def)
      then show ?thesis
      proof
        assume "top_slot xs \<in> fst ` set xs"
        then have "last_write (top_slot xs) xs \<noteq> None" by (auto simp: last_write_def map_of_eq_None_iff)
        then have "bt_get (hc_inner c) (top_slot xs) \<noteq> None"
          using c cache_floor_le [of "hc_window c" "top_slot xs"] by (auto simp: cache_holds_def not_less)
        then show ?thesis using bt_last_greatest [OF ok last, of "top_slot xs"] by auto
      qed simp
    qed
    moreover have "s \<le> k" using bt_last_greatest [OF ok last, of s] by simp
    ultimately show "top_slot ?ys \<le> k" by (auto simp: top_slot_snoc)
  qed
  then have inner: "hc_inner (record_entry s h c) = bt_evict (?f (top_slot ?ys)) ?m"
  proof (cases "top_slot ?ys > hc_window c")
    case True
    with last \<open>k = top_slot ?ys\<close> show ?thesis
      by (simp add: record_entry_def Let_def cache_floor_def sat_sub_def less_imp_le)
  next
    case False
    then have "?f (top_slot ?ys) = 0" by (auto simp: cache_floor_def sat_sub_def)
    then have "bt_evict (?f (top_slot ?ys)) ?m = ?m" by (simp add: bt_evict_filter [OF ok])
    with False last \<open>k = top_slot ?ys\<close> show ?thesis by (simp add: record_entry_def Let_def)
  qed
  have "?f (top_slot xs) \<le> ?f (top_slot ?ys)" by (simp add: cache_floor_mono top_slot_snoc)
  with c show ?thesis unfolding cache_holds_def inner
    by (auto simp: record_entry_def Let_def bt_ok_evict ok bt_get_evict last_write_def)
qed

lemma hash_cache_run_holds: "cache_holds (hash_cache_run w xs) xs \<and> hc_window (hash_cache_run w xs) = w"
proof (induction xs rule: rev_induct)
  case Nil
  show ?case by (simp add: hash_cache_run_def cache_holds_def hash_cache_new_def last_write_def)
next
  case (snoc a xs)
  then show ?case
    by (cases a) (simp add: hash_cache_run_def record_entry_holds record_entry_frame)
qed

section \<open>The lookup\<close>

definition in_lookback :: "u64 \<Rightarrow> u64 \<Rightarrow> u64 \<Rightarrow> bool" where
  "in_lookback landed lookback s \<longleftrightarrow> unat s < unat landed \<and> unat landed \<le> unat s + unat lookback"

lemma nonce_walk_spec:
  assumes "0 < unat bk" "unat bk + n \<le> 2 ^ 64"
  shows "nonce_walk hashv m landed bk n = r \<longleftrightarrow>
    (let P = \<lambda>s. unat s + unat bk \<le> unat landed \<and> unat landed < unat s + unat bk + n \<and> bt_get m s \<noteq> None in
      case r of None \<Rightarrow> (\<nexists>s. P s)
      | Some (s, h, x) \<Rightarrow> P s \<and> (\<forall>t. P t \<longrightarrow> t \<le> s) \<and> bt_get m s = Some h
          \<and> x = compute_next_durable_nonce hashv h)"
  using assms
proof (induction n arbitrary: bk)
  case 0
  then show ?case by (auto simp: Let_def split: option.splits)
next
  case (Suc n)
  show ?case
  proof (cases "checked_sub landed bk")
    case None
    then have "unat landed < unat bk" by (simp add: checked_sub_None)
    then show ?thesis using None by (auto simp: Let_def split: option.splits)
  next
    case (Some s)
    then have s: "unat bk \<le> unat landed" "s = landed - bk" by (simp_all add: checked_sub_Some)
    then have us: "unat s = unat landed - unat bk" by (simp add: unat_sub word_le_nat_alt)
    have eqs: "t = s" if "unat t + unat bk = unat landed" for t
    proof -
      have "unat t = unat s" using that us by simp
      then show ?thesis by (simp add: unsigned_word_eqI)
    qed
    have IH: "nonce_walk hashv m landed (bk + 1) n = r \<longleftrightarrow>
      (let P = \<lambda>s. unat s + (unat bk + 1) \<le> unat landed \<and> unat landed < unat s + (unat bk + 1) + n \<and> bt_get m s \<noteq> None in
        case r of None \<Rightarrow> (\<nexists>s. P s)
        | Some (s, h, x) \<Rightarrow> P s \<and> (\<forall>t. P t \<longrightarrow> t \<le> s) \<and> bt_get m s = Some h
            \<and> x = compute_next_durable_nonce hashv h)"
    proof (cases "n = 0")
      case True
      then show ?thesis by (auto simp: Let_def split: option.splits)
    next
      case False
      then have ub: "unat (bk + 1) = unat bk + 1"
        using Suc.prems by (subst unat_word_ariths) simp
      show ?thesis using Suc.IH [of "bk + 1", unfolded ub] Suc.prems by simp
    qed
    show ?thesis
    proof (cases "bt_get m s")
      case None
      have "unat t + unat bk \<le> unat landed \<and> unat landed < unat t + unat bk + Suc n \<and> bt_get m t \<noteq> None
        \<longleftrightarrow> unat t + (unat bk + 1) \<le> unat landed \<and> unat landed < unat t + (unat bk + 1) + n \<and> bt_get m t \<noteq> None" for t
        using None eqs [of t] by (cases "unat t + unat bk = unat landed") auto
      with IH Some None Suc.prems show ?thesis by (simp add: Let_def)
    next
      case (Some h)
      have "t \<le> s" if "unat t + unat bk \<le> unat landed" for t
        using that us by (simp add: word_le_nat_alt)
      moreover have "unat s + unat bk \<le> unat landed" "unat landed < unat s + unat bk + Suc n"
        using us s by simp_all
      ultimately show ?thesis using Some \<open>checked_sub landed bk = Some s\<close>
        by (auto simp: Let_def split: option.splits intro: antisym) (metis antisym option.inject)+
    qed
  qed
qed


section \<open>Properties\<close>

definition cached :: "u64 \<Rightarrow> (u64 \<times> hash) list \<Rightarrow> u64 \<Rightarrow> bool" where
  "cached window xs s \<longleftrightarrow> cache_floor window (top_slot xs) \<le> s \<and> last_write s xs \<noteq> None"

text \<open>
  For every sequence of recorded entries, the lookup for a landed slot finds the newest slot
  among the at most \<open>max_lookback\<close> slots before it that was recorded and is not below the cache
  window, and answers with the hash last recorded for that slot and the durable nonce derived from
  it; it answers nothing only if there is no such slot.
\<close>

theorem next_nonce_latest_cached:
  "case next_nonce_for_landed_slot hashv landed lookback (hash_cache_run w xs) of
     None \<Rightarrow> (\<nexists>s. in_lookback landed lookback s \<and> cached w xs s)
   | Some (s, h, x) \<Rightarrow> in_lookback landed lookback s \<and> cached w xs s
       \<and> (\<forall>t. in_lookback landed lookback t \<and> cached w xs t \<longrightarrow> t \<le> s)
       \<and> last_write s xs = Some h \<and> x = compute_next_durable_nonce hashv h"
proof -
  let ?c = "hash_cache_run w xs"
  have get: "bt_get (hc_inner ?c) s = (if cached w xs s then last_write s xs else None)" for s
    using hash_cache_run_holds [of w xs] by (auto simp: cache_holds_def cached_def not_less)
  have P: "unat s + unat (1::u64) \<le> unat landed \<and> unat landed < unat s + unat (1::u64) + unat lookback
      \<and> bt_get (hc_inner ?c) s \<noteq> None \<longleftrightarrow> in_lookback landed lookback s \<and> cached w xs s" for s
    by (auto simp: get in_lookback_def cached_def)
  have "unat (1::u64) + unat lookback \<le> 2 ^ 64" using unat_bound [of lookback] by simp
  then have "nonce_walk hashv (hc_inner ?c) landed 1 (unat lookback) = r \<longleftrightarrow>
      (case r of None \<Rightarrow> (\<nexists>s. in_lookback landed lookback s \<and> cached w xs s)
      | Some (s, h, x) \<Rightarrow> (in_lookback landed lookback s \<and> cached w xs s)
          \<and> (\<forall>t. in_lookback landed lookback t \<and> cached w xs t \<longrightarrow> t \<le> s) \<and> bt_get (hc_inner ?c) s = Some h
          \<and> x = compute_next_durable_nonce hashv h)" for r
    by (subst nonce_walk_spec) (simp_all only: P Let_def, simp)
  from this [THEN iffD1, OF refl] show ?thesis
    unfolding next_nonce_for_landed_slot_def by (auto simp: get split: option.splits if_splits)
qed

lemma nonce_walk_numeral: "nonce_walk hashv m landed bk (numeral k) =
     (case checked_sub landed bk of
        None \<Rightarrow> None
      | Some s \<Rightarrow> (case bt_get m s of
          Some h \<Rightarrow> Some (s, h, compute_next_durable_nonce hashv h)
        | None \<Rightarrow> nonce_walk hashv m landed (bk + 1) (pred_numeral k)))"
  by (simp add: numeral_eq_Suc)

theorem next_nonce_latest_cached_witness:
  "next_nonce_for_landed_slot (\<lambda>bs. 9) 100 5 (hash_cache_run 64 [(97, 3), (98, 4), (98, 5)]) = Some (98, 5, 9)
   \<and> in_lookback 100 5 98 \<and> cached 64 [(97, 3), (98, 4), (98, 5)] 98"
proof -
  have eq: "next_nonce_for_landed_slot (\<lambda>bs. 9) 100 5 (hash_cache_run 64 [(97, 3), (98, 4), (98, 5)]) = Some (98, 5, 9)"
    by (simp add: next_nonce_for_landed_slot_def hash_cache_run_def record_entry_def hash_cache_new_def
        bt_last_def checked_sub_def compute_next_durable_nonce_def Let_def nonce_walk_numeral)
  with next_nonce_latest_cached [where hashv = "\<lambda>bs. 9" and landed = 100 and lookback = 5 and w = 64 and xs = "[(97, 3), (98, 4), (98, 5)]"] show ?thesis by simp
qed

end
