(* ===== verification/TriggerEngine.thy ===== *)
theory TriggerEngine
  imports PohSupervisor SlotHashCache
begin

text \<open>
  The trigger engine (\<open>crates/tick-trigger-fan-out-bench/src/trigger_engine.rs\<close>): for every
  ordered entry it checks the schedule, fires each scheduled tick once, and matches the entry's
  signatures against the pending ones.  One event of the model is one turn of the loop or one step
  of another thread on what the engine shares: the schedule pump, a sender registering a
  signature, a reader of an output channel.
\<close>

section \<open>State\<close>

definition from_slot_tick :: "u64 \<Rightarrow> u8 \<Rightarrow> u64" where
  "from_slot_tick slot tick = or (push_bit 8 slot) (ucast tick)"

record trigger_event =
  te_trigger_id :: u64
  te_slot :: u64
  te_tick :: u8
  te_trigger_observed_at :: instant
  te_tick_uncertain :: bool

record match_event =
  mv_signature :: signature
  mv_observed_at :: instant
  mv_observed_slot :: u64
  mv_observed_entry_index :: u32
  mv_observed_tick :: u8
  mv_observed_source :: source_kind

record engine_counters =
  ec_entries_seen :: u64
  ec_schedule_hits :: u64
  ec_trigger_tx_full :: u64
  ec_schedule_duplicate_suppressed :: u64
  ec_triggers_with_uncertain_tick :: u64
  ec_sig_lookups :: u64
  ec_sig_hits :: u64
  ec_match_tx_full :: u64

definition engine_counters_new :: engine_counters where
  "engine_counters_new =
     \<lparr>ec_entries_seen = 0, ec_schedule_hits = 0, ec_trigger_tx_full = 0,
      ec_schedule_duplicate_suppressed = 0, ec_triggers_with_uncertain_tick = 0,
      ec_sig_lookups = 0, ec_sig_hits = 0, ec_match_tx_full = 0\<rparr>"

record engine =
  en_fired :: "(u64 \<times> u8) set"
  en_last_compact_slot :: u64
  en_schedule :: "(u64 \<times> u8) set"
  en_pending_sigs :: "signature set"
  en_counters :: engine_counters
  en_trigger_tx :: "trigger_event chan"
  en_match_tx :: "match_event chan"
  en_slot_hash_cache :: "slot_hash_cache option"

definition engine_init :: "nat option \<Rightarrow> nat option \<Rightarrow> slot_hash_cache option \<Rightarrow> engine" where
  "engine_init trigger_cap match_cap cache =
     \<lparr>en_fired = {}, en_last_compact_slot = 0, en_schedule = {}, en_pending_sigs = {},
      en_counters = engine_counters_new, en_trigger_tx = chan_new trigger_cap,
      en_match_tx = chan_new match_cap, en_slot_hash_cache = cache\<rparr>"

section \<open>One ordered event\<close>

definition feed_cache :: "u64 \<Rightarrow> hash \<Rightarrow> engine \<Rightarrow> engine" where
  "feed_cache slot h en = en\<lparr>en_slot_hash_cache := map_option (record_entry slot h) (en_slot_hash_cache en)\<rparr>"

definition engine_fire :: "ordered_entry \<Rightarrow> instant \<Rightarrow> engine \<Rightarrow> engine" where
  "engine_fire e now en =
     (let c = en_counters en;
          c1 = c\<lparr>ec_schedule_hits := ec_schedule_hits c + 1\<rparr>;
          c2 = (if oe_tick_uncertain e
                then c1\<lparr>ec_triggers_with_uncertain_tick := ec_triggers_with_uncertain_tick c1 + 1\<rparr> else c1);
          trig = \<lparr>te_trigger_id = from_slot_tick (oe_slot e) (oe_tick_idx_in_slot e),
                  te_slot = oe_slot e, te_tick = oe_tick_idx_in_slot e,
                  te_trigger_observed_at = now, te_tick_uncertain = oe_tick_uncertain e\<rparr>;
          (tx, ok) = try_send (en_trigger_tx en) trig;
          c3 = (if ok then c2 else c2\<lparr>ec_trigger_tx_full := ec_trigger_tx_full c2 + 1\<rparr>)
      in en\<lparr>en_fired := insert (oe_slot e, oe_tick_idx_in_slot e) (en_fired en),
            en_trigger_tx := tx, en_counters := c3\<rparr>)"

definition engine_schedule :: "ordered_entry \<Rightarrow> instant \<Rightarrow> engine \<Rightarrow> engine" where
  "engine_schedule e now en =
     (let key = (oe_slot e, oe_tick_idx_in_slot e) in
      if oe_tick_idx_in_slot e > 0 \<and> key \<in> en_schedule en
      then if key \<notin> en_fired en then engine_fire e now en
           else en\<lparr>en_counters := (en_counters en)\<lparr>ec_schedule_duplicate_suppressed :=
                  ec_schedule_duplicate_suppressed (en_counters en) + 1\<rparr>\<rparr>
      else en)"

text \<open>One signature of the entry, with the clock reading of its match.\<close>

definition engine_sig :: "ordered_entry \<Rightarrow> signature \<times> instant \<Rightarrow> engine \<Rightarrow> engine" where
  "engine_sig e st en = (let (sig, now) = st; c = en_counters en;
        c1 = c\<lparr>ec_sig_lookups := ec_sig_lookups c + 1\<rparr> in
     if sig \<in> en_pending_sigs en
     then let c2 = c1\<lparr>ec_sig_hits := ec_sig_hits c1 + 1\<rparr>;
              m = \<lparr>mv_signature = sig, mv_observed_at = now, mv_observed_slot = oe_slot e,
                   mv_observed_entry_index = oe_entry_index e,
                   mv_observed_tick = oe_tick_idx_in_slot e,
                   mv_observed_source = obs_source (oe_observation e)\<rparr>;
              (tx, ok) = try_send (en_match_tx en) m;
              c3 = (if ok then c2 else c2\<lparr>ec_match_tx_full := ec_match_tx_full c2 + 1\<rparr>)
          in en\<lparr>en_pending_sigs := en_pending_sigs en - {sig}, en_match_tx := tx, en_counters := c3\<rparr>
     else en\<lparr>en_counters := c1\<rparr>)"

definition engine_compact :: "u64 \<Rightarrow> engine \<Rightarrow> engine" where
  "engine_compact slot en =
     (if slot > en_last_compact_slot en + 256
      then let cutoff = sat_sub slot 256 in
        en\<lparr>en_last_compact_slot := slot, en_fired := {k \<in> en_fired en. fst k \<ge> cutoff}\<rparr>
      else en)"

text \<open>\<open>now\<close> is the clock at the trigger, \<open>clk i\<close> at the match of the i-th signature.\<close>

definition engine_entry :: "ordered_entry \<Rightarrow> instant \<Rightarrow> (nat \<Rightarrow> instant) \<Rightarrow> engine \<Rightarrow> engine" where
  "engine_entry e now clk en =
     (let en1 = en\<lparr>en_counters := (en_counters en)\<lparr>ec_entries_seen := ec_entries_seen (en_counters en) + 1\<rparr>\<rparr>;
          en2 = feed_cache (oe_slot e) (obs_entry_hash (oe_observation e)) en1;
          en3 = engine_schedule e now en2;
          sigs = obs_signatures (oe_observation e);
          en4 = fold (engine_sig e) (zip sigs (map clk [0..<length sigs])) en3
      in engine_compact (oe_slot e) en4)"

datatype engine_event =
    EOrdered ordered_event instant "nat \<Rightarrow> instant"
  | EScheduleStore "(u64 \<times> u8) set"
  | EPendingInsert signature
  | EPendingRemove signature
  | ETakeTrigger
  | ETakeMatch

fun engine_step :: "engine_event \<Rightarrow> engine \<Rightarrow> engine" where
  "engine_step (EOrdered (OEntry e) now clk) en = engine_entry e now clk en"
| "engine_step (EOrdered (OMissing m) now clk) en = en"
| "engine_step (EOrdered (OSlotComplete c) now clk) en = feed_cache (oc_slot c) (oc_last_entry_hash c) en"
| "engine_step (EOrdered (OSlotIncomplete i) now clk) en = feed_cache (oi_slot i) (oi_last_entry_hash i) en"
| "engine_step (EScheduleStore s) en = en\<lparr>en_schedule := s\<rparr>"
| "engine_step (EPendingInsert sig) en = en\<lparr>en_pending_sigs := insert sig (en_pending_sigs en)\<rparr>"
| "engine_step (EPendingRemove sig) en = en\<lparr>en_pending_sigs := en_pending_sigs en - {sig}\<rparr>"
| "engine_step ETakeTrigger en = en\<lparr>en_trigger_tx := ch_take (en_trigger_tx en)\<rparr>"
| "engine_step ETakeMatch en = en\<lparr>en_match_tx := ch_take (en_match_tx en)\<rparr>"

definition engine_run :: "engine_event list \<Rightarrow> engine \<Rightarrow> engine" where
  "engine_run es en = fold engine_step es en"

section \<open>Frames\<close>

lemma feed_cache_frame [simp]:
  "en_fired (feed_cache s h en) = en_fired en" "en_schedule (feed_cache s h en) = en_schedule en"
  "en_pending_sigs (feed_cache s h en) = en_pending_sigs en" "en_counters (feed_cache s h en) = en_counters en"
  "en_trigger_tx (feed_cache s h en) = en_trigger_tx en" "en_match_tx (feed_cache s h en) = en_match_tx en"
  "en_last_compact_slot (feed_cache s h en) = en_last_compact_slot en"
  by (simp_all add: feed_cache_def)

lemma engine_schedule_frame [simp]:
  "en_schedule (engine_schedule e now en) = en_schedule en"
  "en_pending_sigs (engine_schedule e now en) = en_pending_sigs en"
  "en_match_tx (engine_schedule e now en) = en_match_tx en"
  "en_slot_hash_cache (engine_schedule e now en) = en_slot_hash_cache en"
  "en_last_compact_slot (engine_schedule e now en) = en_last_compact_slot en"
  by (simp_all add: engine_schedule_def engine_fire_def Let_def case_prod_beta)

lemma engine_sig_frame [simp]:
  "en_schedule (engine_sig e st en) = en_schedule en" "en_fired (engine_sig e st en) = en_fired en"
  "en_trigger_tx (engine_sig e st en) = en_trigger_tx en"
  "en_slot_hash_cache (engine_sig e st en) = en_slot_hash_cache en"
  "en_last_compact_slot (engine_sig e st en) = en_last_compact_slot en"
  by (simp_all add: engine_sig_def Let_def case_prod_beta)

lemma fold_frame: "(\<And>x s. g (f x s) = g s) \<Longrightarrow> g (fold f xs s) = g s"
  by (induction xs arbitrary: s) auto

lemma engine_sigs_frame [simp]:
  "en_schedule (fold (engine_sig e) xs en) = en_schedule en" "en_fired (fold (engine_sig e) xs en) = en_fired en"
  "en_trigger_tx (fold (engine_sig e) xs en) = en_trigger_tx en"
  "en_slot_hash_cache (fold (engine_sig e) xs en) = en_slot_hash_cache en"
  "en_last_compact_slot (fold (engine_sig e) xs en) = en_last_compact_slot en"
  by (rule fold_frame; simp)+

lemma engine_compact_frame [simp]:
  "en_schedule (engine_compact s en) = en_schedule en" "en_pending_sigs (engine_compact s en) = en_pending_sigs en"
  "en_counters (engine_compact s en) = en_counters en" "en_trigger_tx (engine_compact s en) = en_trigger_tx en"
  "en_match_tx (engine_compact s en) = en_match_tx en" "en_slot_hash_cache (engine_compact s en) = en_slot_hash_cache en"
  by (simp_all add: engine_compact_def Let_def)

section \<open>Trigger identifiers\<close>

lemma trigger_id_high: "drop_bit 8 (from_slot_tick slot tick) = take_bit 56 slot"
  by (rule bit_word_eqI) (auto simp: from_slot_tick_def bit_simps dest: bit_imp_le_length)

lemma trigger_id_low: "(ucast (from_slot_tick slot tick) :: u8) = tick"
  by (rule bit_word_eqI) (auto simp: from_slot_tick_def bit_simps)


section \<open>The schedule\<close>

definition trigger_of :: "ordered_entry \<Rightarrow> instant \<Rightarrow> trigger_event" where
  "trigger_of e now = \<lparr>te_trigger_id = from_slot_tick (oe_slot e) (oe_tick_idx_in_slot e),
     te_slot = oe_slot e, te_tick = oe_tick_idx_in_slot e,
     te_trigger_observed_at = now, te_tick_uncertain = oe_tick_uncertain e\<rparr>"

text \<open>The reference remembers every tick it ever fired.\<close>

fun ref_triggers :: "(u64 \<times> u8) set \<Rightarrow> (u64 \<times> u8) set \<Rightarrow> engine_event list \<Rightarrow> trigger_event list" where
  "ref_triggers S F [] = []"
| "ref_triggers S F (EOrdered (OEntry e) now clk # es) =
     (let key = (oe_slot e, oe_tick_idx_in_slot e) in
      if oe_tick_idx_in_slot e > 0 \<and> key \<in> S \<and> key \<notin> F
      then trigger_of e now # ref_triggers S (insert key F) es else ref_triggers S F es)"
| "ref_triggers S F (EScheduleStore s # es) = ref_triggers s F es"
| "ref_triggers S F (_ # es) = ref_triggers S F es"

text \<open>No entry is more than 256 slots behind the newest one.\<close>

fun recent :: "u64 \<Rightarrow> engine_event list \<Rightarrow> bool" where
  "recent mx [] \<longleftrightarrow> True"
| "recent mx (EOrdered (OEntry e) now clk # es) \<longleftrightarrow>
     sat_sub mx 256 \<le> oe_slot e \<and> recent (max (oe_slot e) mx) es"
| "recent mx (_ # es) \<longleftrightarrow> recent mx es"

definition fired_agrees :: "u64 \<Rightarrow> (u64 \<times> u8) set \<Rightarrow> engine \<Rightarrow> bool" where
  "fired_agrees mx F en \<longleftrightarrow> (\<forall>k. sat_sub mx 256 \<le> fst k \<longrightarrow> (k \<in> en_fired en \<longleftrightarrow> k \<in> F))"

lemma sat_sub_mono: "a \<le> b \<Longrightarrow> sat_sub a c \<le> sat_sub b c"
  by (simp add: word_le_nat_alt unat_sat_sub)

lemma engine_compact_fired: "k \<in> en_fired (engine_compact s en) \<longleftrightarrow>
    k \<in> en_fired en \<and> (s > en_last_compact_slot en + 256 \<longrightarrow> sat_sub s 256 \<le> fst k)"
  by (auto simp: engine_compact_def Let_def)

lemma engine_entry_fired:
  assumes "fired_agrees mx F en" "sat_sub mx 256 \<le> oe_slot e"
  defines "key \<equiv> (oe_slot e, oe_tick_idx_in_slot e)"
  defines "hit \<equiv> oe_tick_idx_in_slot e > 0 \<and> key \<in> en_schedule en \<and> key \<notin> F"
  shows "ch_offered (en_trigger_tx (engine_entry e now clk en)) =
      ch_offered (en_trigger_tx en) @ (if hit then [trigger_of e now] else [])"
    and "fired_agrees (max (oe_slot e) mx) (if hit then insert key F else F) (engine_entry e now clk en)"
    and "en_schedule (engine_entry e now clk en) = en_schedule en"
proof -
  have key: "key \<in> en_fired en \<longleftrightarrow> key \<in> F" using assms(1,2) by (simp add: fired_agrees_def key_def)
  show "ch_offered (en_trigger_tx (engine_entry e now clk en)) =
      ch_offered (en_trigger_tx en) @ (if hit then [trigger_of e now] else [])"
    using key unfolding hit_def key_def
    by (auto simp: engine_entry_def Let_def engine_schedule_def engine_fire_def trigger_of_def case_prod_beta)
  have fired: "k \<in> en_fired (engine_entry e now clk en) \<longleftrightarrow>
      (k \<in> en_fired en \<or> hit \<and> k = key) \<and>
      (oe_slot e > en_last_compact_slot en + 256 \<longrightarrow> sat_sub (oe_slot e) 256 \<le> fst k)" for k
    using key unfolding hit_def key_def
    by (auto simp: engine_entry_def Let_def engine_compact_fired engine_schedule_def engine_fire_def case_prod_beta)
  show "fired_agrees (max (oe_slot e) mx) (if hit then insert key F else F) (engine_entry e now clk en)"
    unfolding fired_agrees_def
  proof (intro allI impI)
    fix k :: "u64 \<times> u8"
    assume k: "sat_sub (max (oe_slot e) mx) 256 \<le> fst k"
    have "sat_sub mx 256 \<le> fst k" "sat_sub (oe_slot e) 256 \<le> fst k"
      using k sat_sub_mono [of mx "max (oe_slot e) mx" 256] sat_sub_mono [of "oe_slot e" "max (oe_slot e) mx" 256]
      by (simp_all add: order_trans)
    then show "k \<in> en_fired (engine_entry e now clk en) \<longleftrightarrow> k \<in> (if hit then insert key F else F)"
      using assms(1) by (auto simp: fired fired_agrees_def)
  qed
  show "en_schedule (engine_entry e now clk en) = en_schedule en"
    by (simp add: engine_entry_def Let_def)
qed

lemma engine_run_triggers:
  "fired_agrees mx F en \<Longrightarrow> recent mx es \<Longrightarrow>
   ch_offered (en_trigger_tx (engine_run es en)) = ch_offered (en_trigger_tx en) @ ref_triggers (en_schedule en) F es"
proof (induction es arbitrary: mx F en)
  case (Cons ev es)
  have quiet: ?case if "en_fired (engine_step ev en) = en_fired en"
    "ch_offered (en_trigger_tx (engine_step ev en)) = ch_offered (en_trigger_tx en)"
    "ref_triggers (en_schedule en) F (ev # es) = ref_triggers (en_schedule (engine_step ev en)) F es"
    "recent mx (ev # es) = recent mx es"
  proof -
    have "fired_agrees mx F (engine_step ev en)" using Cons.prems(1) that(1) by (simp add: fired_agrees_def)
    from Cons.IH [OF this] Cons.prems(2) that show ?thesis by (simp add: engine_run_def)
  qed
  show ?case
  proof (cases ev)
    case (EOrdered oev now clk)
    show ?thesis
    proof (cases oev)
      case (OEntry e)
      have w: "sat_sub mx 256 \<le> oe_slot e" "recent (max (oe_slot e) mx) es"
        using Cons.prems(2) EOrdered OEntry by simp_all
      note step = engine_entry_fired [OF Cons.prems(1) w(1), of now clk]
      show ?thesis using Cons.IH [OF step(2) w(2)] step(1,3) EOrdered OEntry
        by (auto simp: engine_run_def Let_def)
    qed (rule quiet; simp add: EOrdered)+
  next
    case ETakeTrigger
    then show ?thesis by (intro quiet) (simp_all add: ch_take_def)
  qed (rule quiet; simp)+
qed (simp add: engine_run_def)

lemma ref_triggers_fresh:
  "distinct (map (\<lambda>t. (te_slot t, te_tick t)) (ref_triggers S F es))
   \<and> (\<forall>t \<in> set (ref_triggers S F es). (te_slot t, te_tick t) \<notin> F \<and> te_tick t > 0
        \<and> te_trigger_id t = from_slot_tick (te_slot t) (te_tick t))"
proof (induction S F es rule: ref_triggers.induct)
  case (2 S F e now clk es)
  let ?key = "(oe_slot e, oe_tick_idx_in_slot e)"
  show ?case
  proof (cases "oe_tick_idx_in_slot e > 0 \<and> ?key \<in> S \<and> ?key \<notin> F")
    case True
    from 2(1) [OF refl True] True show ?thesis by (auto simp: Let_def trigger_of_def)
  next
    case False
    from 2(2) [OF refl False] False show ?thesis unfolding ref_triggers.simps Let_def by (simp only: if_False simp_thms) blast
  qed
qed simp_all

section \<open>The signatures\<close>

lemma engine_sigs_spec:
  "\<exists>ms. ch_offered (en_match_tx (fold (engine_sig e) sts en)) = ch_offered (en_match_tx en) @ ms
     \<and> en_pending_sigs (fold (engine_sig e) sts en) = en_pending_sigs en - fst ` set sts
     \<and> distinct (map mv_signature ms) \<and> mv_signature ` set ms = en_pending_sigs en \<inter> fst ` set sts
     \<and> (\<forall>m \<in> set ms. (mv_signature m, mv_observed_at m) \<in> set sts \<and> mv_observed_slot m = oe_slot e
          \<and> mv_observed_entry_index m = oe_entry_index e \<and> mv_observed_tick m = oe_tick_idx_in_slot e
          \<and> mv_observed_source m = obs_source (oe_observation e))"
proof (induction sts arbitrary: en)
  case (Cons st sts)
  obtain sig now where st: "st = (sig, now)" by (cases st)
  let ?en = "engine_sig e st en"
  obtain ms where IH: "ch_offered (en_match_tx (fold (engine_sig e) sts ?en)) = ch_offered (en_match_tx ?en) @ ms"
     "en_pending_sigs (fold (engine_sig e) sts ?en) = en_pending_sigs ?en - fst ` set sts"
     "distinct (map mv_signature ms)" "mv_signature ` set ms = en_pending_sigs ?en \<inter> fst ` set sts"
     "\<forall>m \<in> set ms. (mv_signature m, mv_observed_at m) \<in> set sts \<and> mv_observed_slot m = oe_slot e
          \<and> mv_observed_entry_index m = oe_entry_index e \<and> mv_observed_tick m = oe_tick_idx_in_slot e
          \<and> mv_observed_source m = obs_source (oe_observation e)"
    using Cons [of ?en] by blast
  show ?case
  proof (cases "sig \<in> en_pending_sigs en")
    case True
    let ?m = "\<lparr>mv_signature = sig, mv_observed_at = now, mv_observed_slot = oe_slot e,
                   mv_observed_entry_index = oe_entry_index e,
                   mv_observed_tick = oe_tick_idx_in_slot e,
                   mv_observed_source = obs_source (oe_observation e)\<rparr>"
    have en: "en_pending_sigs ?en = en_pending_sigs en - {sig}"
      "ch_offered (en_match_tx ?en) = ch_offered (en_match_tx en) @ [?m]"
      using True st by (simp_all add: engine_sig_def Let_def case_prod_beta)
    have "sig \<notin> mv_signature ` set ms" unfolding IH(4) en by simp
    with IH True st en show ?thesis by (intro exI [of _ "?m # ms"]) auto
  next
    case False
    then have en: "en_pending_sigs ?en = en_pending_sigs en" "en_match_tx ?en = en_match_tx en"
      using st by (simp_all add: engine_sig_def Let_def)
    with IH False st show ?thesis by (intro exI [of _ ms]) auto
  qed
qed simp

lemma engine_entry_matches:
  "\<exists>ms. ch_offered (en_match_tx (engine_entry e now clk en)) = ch_offered (en_match_tx en) @ ms
     \<and> en_pending_sigs (engine_entry e now clk en) = en_pending_sigs en - set (obs_signatures (oe_observation e))
     \<and> distinct (map mv_signature ms)
     \<and> mv_signature ` set ms = en_pending_sigs en \<inter> set (obs_signatures (oe_observation e))
     \<and> (\<forall>m \<in> set ms. mv_observed_slot m = oe_slot e \<and> mv_observed_entry_index m = oe_entry_index e
          \<and> mv_observed_tick m = oe_tick_idx_in_slot e \<and> mv_observed_source m = obs_source (oe_observation e))"
proof -
  let ?sigs = "obs_signatures (oe_observation e)"
  have set: "fst ` set (zip ?sigs (map clk [0..<length ?sigs])) = set ?sigs"
    by (metis diff_zero length_map length_upt map_fst_zip set_map)
  show ?thesis
    using engine_sigs_spec [of e "zip ?sigs (map clk [0..<length ?sigs])"
       "engine_schedule e now (feed_cache (oe_slot e) (obs_entry_hash (oe_observation e))
          (en\<lparr>en_counters := (en_counters en)\<lparr>ec_entries_seen := ec_entries_seen (en_counters en) + 1\<rparr>\<rparr>))"]
    unfolding set by (auto simp: engine_entry_def Let_def)
qed

definition match_count :: "signature \<Rightarrow> engine \<Rightarrow> nat" where
  "match_count sig en = count_list (map mv_signature (ch_offered (en_match_tx en))) sig"

definition match_budget :: "signature \<Rightarrow> engine \<Rightarrow> nat" where
  "match_budget sig en = match_count sig en + (if sig \<in> en_pending_sigs en then 1 else 0)"

fun registrations :: "signature \<Rightarrow> engine_event list \<Rightarrow> nat" where
  "registrations sig [] = 0"
| "registrations sig (EPendingInsert s # es) = (if s = sig then 1 else 0) + registrations sig es"
| "registrations sig (_ # es) = registrations sig es"

lemma count_list_distinct: "distinct xs \<Longrightarrow> count_list xs x = (if x \<in> set xs then 1 else 0)"
  by (induction xs) auto

lemma engine_entry_budget: "match_budget sig (engine_entry e now clk en) = match_budget sig en"
proof -
  obtain ms where "ch_offered (en_match_tx (engine_entry e now clk en)) = ch_offered (en_match_tx en) @ ms"
     "en_pending_sigs (engine_entry e now clk en) = en_pending_sigs en - set (obs_signatures (oe_observation e))"
     "distinct (map mv_signature ms)"
     "mv_signature ` set ms = en_pending_sigs en \<inter> set (obs_signatures (oe_observation e))"
    using engine_entry_matches [of e now clk en] by blast
  then show ?thesis by (auto simp: match_budget_def match_count_def count_list_distinct)
qed

lemma engine_run_budget: "match_budget sig (engine_run es en) \<le> match_budget sig en + registrations sig es"
proof (induction es arbitrary: en)
  case (Cons ev es)
  have "match_budget sig (engine_step ev en) \<le> match_budget sig en + registrations sig [ev]"
  proof (cases ev)
    case (EOrdered oev now clk)
    then show ?thesis by (cases oev) (simp_all add: engine_entry_budget, simp_all add: match_budget_def match_count_def)
  qed (auto simp: match_budget_def match_count_def ch_take_def)
  moreover have "registrations sig (ev # es) = registrations sig [ev] + registrations sig es" by (cases ev) auto
  ultimately show ?case using Cons [of "engine_step ev en"] by (simp add: engine_run_def)
qed (simp add: engine_run_def)

section \<open>Counters\<close>

definition engine_counts :: "engine \<Rightarrow> bool" where
  "engine_counts en \<longleftrightarrow> (let c = en_counters en; tr = en_trigger_tx en; ma = en_match_tx en in
     ec_schedule_hits c = of_nat (length (ch_offered tr))
     \<and> of_nat (length (ch_offered tr)) = of_nat (length (ch_sent tr)) + ec_trigger_tx_full c
     \<and> ec_triggers_with_uncertain_tick c = of_nat (length (filter te_tick_uncertain (ch_offered tr)))
     \<and> ec_sig_hits c = of_nat (length (ch_offered ma))
     \<and> of_nat (length (ch_offered ma)) = of_nat (length (ch_sent ma)) + ec_match_tx_full c)"

lemmas engine_counts_unfold = engine_counts_def [unfolded Let_def]

lemma engine_fire_counts: "engine_counts en \<Longrightarrow> engine_counts (engine_fire e now en)"
  by (auto simp: engine_counts_unfold engine_fire_def Let_def case_prod_beta ch_sent_try_send algebra_simps)

lemma engine_sig_counts: "engine_counts en \<Longrightarrow> engine_counts (engine_sig e st en)"
  by (auto simp: engine_counts_unfold engine_sig_def Let_def case_prod_beta ch_sent_try_send algebra_simps)

lemma engine_dup_counts: "engine_counts en \<Longrightarrow>
    engine_counts (en\<lparr>en_counters := (en_counters en)\<lparr>ec_schedule_duplicate_suppressed := x\<rparr>\<rparr>)"
  by (simp add: engine_counts_unfold Let_def)

lemma engine_schedule_counts: "engine_counts en \<Longrightarrow> engine_counts (engine_schedule e now en)"
  by (simp add: engine_schedule_def Let_def engine_fire_counts engine_dup_counts)

lemma engine_entry_counts:
  assumes "engine_counts en"
  shows "engine_counts (engine_entry e now clk en)"
proof -
  let ?en1 = "feed_cache (oe_slot e) (obs_entry_hash (oe_observation e))
     (en\<lparr>en_counters := (en_counters en)\<lparr>ec_entries_seen := ec_entries_seen (en_counters en) + 1\<rparr>\<rparr>)"
  have "engine_counts ?en1" using assms by (simp add: engine_counts_unfold)
  then have "engine_counts (engine_schedule e now ?en1)"
    by (rule engine_schedule_counts)
  then have "engine_counts (fold (engine_sig e) sts (engine_schedule e now ?en1))" for sts
    by (rule fold_invariant [where P = engine_counts, rotated]) (rule engine_sig_counts)
  then show ?thesis by (simp add: engine_entry_def Let_def engine_counts_unfold)
qed

lemma engine_run_counts: "engine_counts en \<Longrightarrow> engine_counts (engine_run es en)"
  unfolding engine_run_def
proof (rule fold_invariant [where P = engine_counts])
  fix ev en
  assume c: "engine_counts en"
  show "engine_counts (engine_step ev en)"
  proof (cases ev)
    case (EOrdered oev now clk)
    then show ?thesis using c
      by (cases oev) (simp_all add: engine_entry_counts, simp_all add: engine_counts_unfold)
  qed (use c in \<open>auto simp: engine_counts_unfold ch_take_def\<close>)
qed


section \<open>Properties\<close>

text \<open>
  C7. Each scheduled tick fires once: as long as no entry is more than 256 slots behind the newest,
  the triggers offered are exactly those of a reference that never forgets what it fired, one per
  (slot, tick), for scheduled ticks above 0 only, with the identifier of that (slot, tick); what a
  full channel lets through is a subsequence.
\<close>

theorem engine_fires_once:
  assumes "recent 0 es"
  shows "let en = engine_run es (engine_init tc mc cache); off = ch_offered (en_trigger_tx en) in
     off = ref_triggers {} {} es \<and> distinct (map (\<lambda>t. (te_slot t, te_tick t)) off)
     \<and> (\<forall>t \<in> set off. te_tick t > 0 \<and> te_trigger_id t = from_slot_tick (te_slot t) (te_tick t))"
proof -
  have "fired_agrees 0 {} (engine_init tc mc cache)" by (simp add: fired_agrees_def engine_init_def)
  from engine_run_triggers [OF this assms]
  have "ch_offered (en_trigger_tx (engine_run es (engine_init tc mc cache))) = ref_triggers {} {} es"
    by (simp add: engine_init_def)
  then show ?thesis using ref_triggers_fresh [of "{}" "{}" es] by (simp add: Let_def)
qed

definition entry_at :: "u64 \<Rightarrow> u8 \<Rightarrow> signature list \<Rightarrow> ordered_entry" where
  "entry_at s k sigs = \<lparr>oe_slot = s, oe_entry_index = 0, oe_tick_idx_in_slot = k,
     oe_cumulative_hashes_in_slot = 0, oe_observation = (sample_obs s 0 7 0 0)\<lparr>obs_signatures := sigs\<rparr>,
     oe_was_reordered = False, oe_wait_duration_us = 0, oe_tick_uncertain = False\<rparr>"

definition engine_demo :: "engine_event list" where
  "engine_demo = [EScheduleStore {(5, 3)}, EOrdered (OEntry (entry_at 5 2 [])) 1 (\<lambda>i. 0),
     EOrdered (OEntry (entry_at 5 3 [])) 2 (\<lambda>i. 0), EOrdered (OEntry (entry_at 5 3 [])) 3 (\<lambda>i. 0)]"

theorem engine_fires_once_witness:
  "recent 0 engine_demo \<and>
   map te_tick (ch_offered (en_trigger_tx (engine_run engine_demo (engine_init None None None)))) = [3]"
proof -
  have r: "recent 0 engine_demo" by (simp add: engine_demo_def entry_at_def sat_sub_def)
  have "map te_tick (ref_triggers {} {} engine_demo) = [3]"
    by (simp add: engine_demo_def entry_at_def trigger_of_def Let_def)
  with r engine_fires_once [OF r, of None None None] show ?thesis by (simp add: Let_def)
qed

text \<open>
  A match is reported at most once per registration: the matches offered for a signature, plus
  the pending one if any, never exceed the number of times a sender registered it.
\<close>

theorem engine_matches_bounded:
  "let en = engine_run es (engine_init tc mc cache) in
     count_list (map mv_signature (ch_offered (en_match_tx en))) sig
       + (if sig \<in> en_pending_sigs en then 1 else 0) \<le> registrations sig es"
  using engine_run_budget [of sig es "engine_init tc mc cache"]
  by (simp add: match_budget_def match_count_def engine_init_def Let_def)

text \<open>
  No pending signature is missed: an entry removes from the pending set exactly the signatures
  it carries, and offers one match for each pending one among them, with the entry's position,
  and nothing else.
\<close>

theorem engine_entry_matches_all:
  "let en' = engine_entry e now clk en; sigs = set (obs_signatures (oe_observation e)) in
     en_pending_sigs en' = en_pending_sigs en - sigs
     \<and> (\<exists>ms. ch_offered (en_match_tx en') = ch_offered (en_match_tx en) @ ms
          \<and> distinct (map mv_signature ms) \<and> mv_signature ` set ms = en_pending_sigs en \<inter> sigs
          \<and> set (map (\<lambda>m. (mv_observed_slot m, mv_observed_entry_index m, mv_observed_tick m)) ms)
              \<subseteq> {(oe_slot e, oe_entry_index e, oe_tick_idx_in_slot e)})"
  using engine_entry_matches [of e now clk en] unfolding Let_def by fastforce

text \<open>
  The counters count: schedule hits and signature hits are the offers (modulo \<open>2^64\<close>), every
  offer was delivered or counted as refused, and the uncertain triggers are counted.
\<close>

theorem engine_counters_exact:
  "let en = engine_run es (engine_init tc mc cache); c = en_counters en;
       tr = en_trigger_tx en; ma = en_match_tx en in
     ec_schedule_hits c = of_nat (length (ch_offered tr))
     \<and> of_nat (length (ch_offered tr)) = of_nat (length (ch_sent tr)) + ec_trigger_tx_full c
     \<and> ec_triggers_with_uncertain_tick c = of_nat (length (filter te_tick_uncertain (ch_offered tr)))
     \<and> ec_sig_hits c = of_nat (length (ch_offered ma))
     \<and> of_nat (length (ch_offered ma)) = of_nat (length (ch_sent ma)) + ec_match_tx_full c"
proof -
  have "engine_counts (engine_init tc mc cache)"
    by (simp add: engine_counts_unfold engine_init_def engine_counters_new_def)
  from engine_run_counts [OF this, of es] show ?thesis by (simp add: engine_counts_unfold Let_def)
qed

text \<open>
  The identifier packs slot and tick without loss below slot \<open>2^56\<close>: its low byte is the
  tick and the bits above are the slot's low 56 bits, so distinct pairs have distinct identifiers
  there, and only there.
\<close>

theorem trigger_id_roundtrip:
  "drop_bit 8 (from_slot_tick slot tick) = take_bit 56 slot
   \<and> (ucast (from_slot_tick slot tick) :: u8) = tick
   \<and> (from_slot_tick slot tick = from_slot_tick slot' tick' \<longleftrightarrow>
        take_bit 56 slot = take_bit 56 slot' \<and> tick = tick')"
proof -
  have "from_slot_tick slot tick = from_slot_tick slot' tick'"
    if "take_bit 56 slot = take_bit 56 slot'" "tick = tick'"
  proof -
    have "push_bit 8 slot = push_bit 8 slot'"
    proof (rule bit_word_eqI)
      fix n assume "n < LENGTH(64)"
      then show "bit (push_bit 8 slot) n = bit (push_bit 8 slot') n"
        using arg_cong [OF that(1), of "\<lambda>w. bit w (n - 8)"] by (auto simp: bit_simps)
    qed
    with that(2) show ?thesis by (simp add: from_slot_tick_def)
  qed
  then show ?thesis using trigger_id_high trigger_id_low by metis
qed

end
