(* ===== verification/Schedule.thy ===== *)
theory Schedule
  imports Channel
begin

text \<open>
  The schedule generator (\<open>crates/tick-trigger-fan-out-bench/src/schedule.rs\<close>) and the pump that
  feeds it to the engine and the preparer (\<open>schedule-pump\<close> in \<open>bin/phase3_run.rs\<close>).  The random
  generator is a parameter: \<open>draw\<close> stands for \<open>rng.random_range(1..=64)\<close>.  Its rejection loop
  may run forever for a bad generator, so it is a partial function; it is shown to return for
  every generator that keeps producing every tick.
\<close>

record schedule_entry =
  se_slot :: u64
  se_tick :: u8

record 'r schedule =
  sc_rng :: 'r
  sc_next_slot :: u64
  sc_chunk_size :: u64
  sc_triggers_per_slot :: u32

definition schedule_new :: "'r \<Rightarrow> u64 \<Rightarrow> u64 \<Rightarrow> u32 \<Rightarrow> 'r schedule" where
  "schedule_new rng start_slot chunk_size triggers_per_slot =
     \<lparr>sc_rng = rng, sc_next_slot = start_slot, sc_chunk_size = max chunk_size 1,
      sc_triggers_per_slot = max triggers_per_slot 1\<rparr>"

text \<open>The seed when none is configured: nanoseconds since the epoch, or a constant when the clock
  is before the epoch.\<close>

definition schedule_seed :: "u64 option \<Rightarrow> nat option \<Rightarrow> u64" where
  "schedule_seed seed since_epoch_ns = (case seed of
     Some s \<Rightarrow> s
   | None \<Rightarrow> (case since_epoch_ns of Some d \<Rightarrow> trunc_u64 d | None \<Rightarrow> 0xDEADBEEF))"

partial_function (option) pick_ticks ::
    "('r \<Rightarrow> u8 \<times> 'r) \<Rightarrow> nat \<Rightarrow> u8 list \<Rightarrow> 'r \<Rightarrow> (u8 list \<times> 'r) option" where
  "pick_ticks draw n picked r =
     (if length picked < n \<and> length picked < 64
      then (let (tick, r') = draw r in
            pick_ticks draw n (if tick \<notin> set picked then picked @ [tick] else picked) r')
      else Some (picked, r))"

declare pick_ticks.simps [code]

fun chunk_slots ::
    "('r \<Rightarrow> u8 \<times> 'r) \<Rightarrow> nat \<Rightarrow> u64 list \<Rightarrow> 'r \<Rightarrow> (schedule_entry list \<times> 'r) option" where
  "chunk_slots draw n [] r = Some ([], r)"
| "chunk_slots draw n (slot # slots) r =
     (case pick_ticks draw n [] r of
        None \<Rightarrow> None
      | Some (picked, r') \<Rightarrow> (case chunk_slots draw n slots r' of
          None \<Rightarrow> None
        | Some (out, r'') \<Rightarrow> Some (map (\<lambda>tick. \<lparr>se_slot = slot, se_tick = tick\<rparr>) picked @ out, r'')))"

definition chunk_range :: "'r schedule \<Rightarrow> u64 list" where
  "chunk_range s = map (\<lambda>offset. sc_next_slot s + of_nat offset) [0..<unat (sc_chunk_size s)]"

definition next_chunk :: "('r \<Rightarrow> u8 \<times> 'r) \<Rightarrow> 'r schedule \<Rightarrow> (schedule_entry list \<times> 'r schedule) option" where
  "next_chunk draw s =
     (case chunk_slots draw (unat (sc_triggers_per_slot s)) (chunk_range s) (sc_rng s) of
        None \<Rightarrow> None
      | Some (out, r) \<Rightarrow> Some (out, s\<lparr>sc_rng := r, sc_next_slot := sat_add (sc_next_slot s) (sc_chunk_size s)\<rparr>))"

section \<open>The pump\<close>

record 'r pump =
  pu_sched :: "'r schedule"
  pu_accumulated :: "(u64 \<times> u8) set"
  pu_tx :: "schedule_entry chan"
  pu_snapshot :: "(u64 \<times> u8) set"

definition pump_emit :: "schedule_entry \<Rightarrow> 'r pump \<Rightarrow> 'r pump" where
  "pump_emit e p = p\<lparr>pu_accumulated := insert (se_slot e, se_tick e) (pu_accumulated p),
                     pu_tx := fst (try_send (pu_tx p) e)\<rparr>"

definition pump_chunk :: "('r \<Rightarrow> u8 \<times> 'r) \<Rightarrow> 'r pump \<Rightarrow> 'r pump option" where
  "pump_chunk draw p = (case next_chunk draw (pu_sched p) of
     None \<Rightarrow> None
   | Some (out, s) \<Rightarrow> Some (fold pump_emit out (p\<lparr>pu_sched := s\<rparr>)))"

definition pump_store :: "'r pump \<Rightarrow> 'r pump" where
  "pump_store p = p\<lparr>pu_snapshot := pu_accumulated p\<rparr>"

fun pump_chunks :: "('r \<Rightarrow> u8 \<times> 'r) \<Rightarrow> nat \<Rightarrow> 'r pump \<Rightarrow> 'r pump option" where
  "pump_chunks draw 0 p = Some p"
| "pump_chunks draw (Suc n) p = (case pump_chunk draw p of None \<Rightarrow> None | Some p' \<Rightarrow> pump_chunks draw n p')"

text \<open>The pre-seeding (a chunk size of zero divides by zero, which panics and ends the thread), and
  one turn of the loop.\<close>

definition pump_new :: "'r schedule \<Rightarrow> nat option \<Rightarrow> 'r pump" where
  "pump_new sched cap =
     \<lparr>pu_sched = sched, pu_accumulated = {}, pu_tx = chan_new cap, pu_snapshot = {}\<rparr>"

definition pump_start :: "('r \<Rightarrow> u8 \<times> 'r) \<Rightarrow> u64 \<Rightarrow> u64 \<Rightarrow> 'r pump \<Rightarrow> 'r pump option" where
  "pump_start draw lead_slots chunk_size p =
     (if chunk_size = 0 then None
      else map_option pump_store (pump_chunks draw (unat (max (lead_slots div chunk_size) 1 + 1)) p))"

definition pump_turn :: "('r \<Rightarrow> u8 \<times> 'r) \<Rightarrow> 'r pump \<Rightarrow> 'r pump option" where
  "pump_turn draw p = map_option pump_store (pump_chunk draw p)"

fun pump_turns :: "('r \<Rightarrow> u8 \<times> 'r) \<Rightarrow> nat \<Rightarrow> 'r pump \<Rightarrow> 'r pump option" where
  "pump_turns draw 0 p = Some p"
| "pump_turns draw (Suc n) p = Option.bind (pump_turn draw p) (pump_turns draw n)"

definition pump_run :: "('r \<Rightarrow> u8 \<times> 'r) \<Rightarrow> u64 \<Rightarrow> u64 \<Rightarrow> nat \<Rightarrow> 'r pump \<Rightarrow> 'r pump option" where
  "pump_run draw lead_slots chunk_size n p =
     Option.bind (pump_start draw lead_slots chunk_size p) (pump_turns draw n)"

section \<open>What a chunk holds\<close>

definition good_draw :: "('r \<Rightarrow> u8 \<times> 'r) \<Rightarrow> bool" where
  "good_draw draw \<longleftrightarrow> (\<forall>r. 1 \<le> fst (draw r) \<and> fst (draw r) \<le> 64)"

fun draws :: "('r \<Rightarrow> u8 \<times> 'r) \<Rightarrow> nat \<Rightarrow> 'r \<Rightarrow> 'r" where
  "draws draw 0 r = r"
| "draws draw (Suc n) r = draws draw n (snd (draw r))"

text \<open>From every state the generator eventually produces every tick.\<close>

definition fair_draw :: "('r \<Rightarrow> u8 \<times> 'r) \<Rightarrow> bool" where
  "fair_draw draw \<longleftrightarrow> (\<forall>r t. 1 \<le> t \<and> t \<le> 64 \<longrightarrow> (\<exists>n. fst (draw (draws draw n r)) = t))"

definition ticks_ok :: "u8 list \<Rightarrow> bool" where
  "ticks_ok ts \<longleftrightarrow> distinct ts \<and> (\<forall>t \<in> set ts. 1 \<le> t \<and> t \<le> 64)"

lemma tick_set: "{t :: u8. 1 \<le> t \<and> t \<le> 64} = of_nat ` {1..64}"
proof
  show "{t :: u8. 1 \<le> t \<and> t \<le> 64} \<subseteq> of_nat ` {1..64}"
  proof
    fix t :: u8 assume "t \<in> {t. 1 \<le> t \<and> t \<le> 64}"
    then show "t \<in> of_nat ` {1..64}"
      by (intro image_eqI [where x = "unat t"]) (simp_all add: word_le_nat_alt)
  qed
  show "of_nat ` {1..64} \<subseteq> {t :: u8. 1 \<le> t \<and> t \<le> 64}"
    by (auto simp: word_le_nat_alt unat_of_nat)
qed

lemma card_ticks: "card {t :: u8. 1 \<le> t \<and> t \<le> 64} = 64"
proof -
  have "inj_on (of_nat :: nat \<Rightarrow> u8) {1..64}"
    by (rule inj_onI) (simp add: word_of_nat_eq_iff take_bit_nat_eq_self)
  then show ?thesis unfolding tick_set by (simp add: card_image)
qed

lemma ticks_ok_length: "ticks_ok ts \<Longrightarrow> length ts \<le> 64"
proof -
  assume ok: "ticks_ok ts"
  then have "set ts \<subseteq> {t. 1 \<le> t \<and> t \<le> 64}" by (auto simp: ticks_ok_def)
  from card_mono [OF _ this] ok show ?thesis by (simp add: card_ticks ticks_ok_def distinct_card)
qed

lemma pick_ticks_ok:
  assumes "good_draw draw" "pick_ticks draw n picked r = Some y" "ticks_ok picked" "length picked \<le> min n 64"
  shows "ticks_ok (fst y) \<and> length (fst y) = min n 64"
proof -
  let ?P = "\<lambda>draw (n::nat) picked (r::'a) y. good_draw draw \<longrightarrow> ticks_ok picked \<longrightarrow> length picked \<le> min n 64 \<longrightarrow>
      ticks_ok (fst y) \<and> length (fst (y :: u8 list \<times> 'a)) = min n 64"
  have "?P draw n picked r y"
  proof (rule pick_ticks.raw_induct [where P = ?P, OF _ assms(2)], intro impI)
    fix f and draw :: "'a \<Rightarrow> u8 \<times> 'a" and n picked r y
    assume IH: "\<And>n picked r b y. f n picked r b = Some y \<Longrightarrow> ?P n picked r b y"
      and step: "(if length picked < n \<and> length picked < 64
          then let (tick, r') = draw r in f draw n (if tick \<notin> set picked then picked @ [tick] else picked) r'
          else Some (picked, r)) = Some y"
      and ok: "good_draw draw" "ticks_ok picked" "length picked \<le> min n 64"
    show "ticks_ok (fst y) \<and> length (fst y) = min n 64"
    proof (cases "length picked < n \<and> length picked < 64")
      case True
      obtain t s where d: "draw r = (t, s)" by fastforce
      let ?p = "if t \<notin> set picked then picked @ [t] else picked"
      have "1 \<le> t" "t \<le> 64" using ok(1) d unfolding good_draw_def by (metis fst_conv)+
      then have "ticks_ok ?p" using ok(2) by (auto simp: ticks_ok_def)
      moreover have "f draw n ?p s = Some y" using step True d by simp
      moreover have "length ?p \<le> min n 64" using True by auto
      ultimately show ?thesis using IH ok(1) by blast
    next
      case False
      then show ?thesis using step ok by auto
    qed
  qed
  then show ?thesis using assms by blast
qed

text \<open>The rejection loop returns: each new tick is a finite number of draws away.\<close>

lemma pick_ticks_step: "length picked < n \<and> length picked < 64 \<Longrightarrow>
    pick_ticks draw n picked r =
      pick_ticks draw n (if fst (draw r) \<notin> set picked then picked @ [fst (draw r)] else picked) (snd (draw r))"
  by (subst pick_ticks.simps) (simp add: case_prod_beta)

lemma pick_ticks_until:
  assumes "length picked < n" "length picked < 64" "fst (draw (draws draw k r)) \<notin> set picked"
  shows "\<exists>t r'. t \<notin> set picked \<and> pick_ticks draw n picked r = pick_ticks draw n (picked @ [t]) r'"
  using assms(3)
proof (induction k arbitrary: r)
  case 0
  then show ?case using pick_ticks_step [of picked n draw r] assms(1,2) by auto
next
  case (Suc k)
  show ?case
  proof (cases "fst (draw r) \<in> set picked")
    case True
    with Suc pick_ticks_step [of picked n draw r] assms(1,2) show ?thesis by simp
  next
    case False
    then show ?thesis using pick_ticks_step [of picked n draw r] assms(1,2) by auto
  qed
qed

lemma pick_ticks_returns:
  assumes "fair_draw draw"
  shows "pick_ticks draw n picked r \<noteq> None"
proof (induction "min n 64 - length picked" arbitrary: picked r rule: less_induct)
  case less
  show ?case
  proof (cases "length picked < n \<and> length picked < 64")
    case False
    then show ?thesis by (subst pick_ticks.simps) auto
  next
    case True
    have "\<not> {t :: u8. 1 \<le> t \<and> t \<le> 64} \<subseteq> set picked"
    proof
      assume "{t :: u8. 1 \<le> t \<and> t \<le> 64} \<subseteq> set picked"
      from card_mono [OF _ this] show False
        using True card_length [of picked] by (simp add: card_ticks)
    qed
    then obtain t where "1 \<le> t" "t \<le> 64" "t \<notin> set picked" by auto
    with assms obtain k where "fst (draw (draws draw k r)) \<notin> set picked"
      unfolding fair_draw_def by metis
    with pick_ticks_until [of picked n draw k r] True obtain u r'
      where "pick_ticks draw n picked r = pick_ticks draw n (picked @ [u]) r'" by blast
    moreover have "pick_ticks draw n (picked @ [u]) r' \<noteq> None"
      using True by (intro less) auto
    ultimately show ?thesis by simp
  qed
qed

lemma chunk_slots_returns: "fair_draw draw \<Longrightarrow> chunk_slots draw n slots r \<noteq> None"
proof (induction draw n slots r rule: chunk_slots.induct)
  case (2 draw n slot slots r)
  then show ?case using pick_ticks_returns [OF 2(2), of n "[]" r] by (auto split: option.splits)
qed simp

lemma chunk_slots_ok:
  "good_draw draw \<Longrightarrow> chunk_slots draw n slots r = Some (out, r') \<Longrightarrow> distinct slots \<Longrightarrow>
   se_slot ` set out \<subseteq> set slots \<and> length out = length slots * min n 64 \<and> distinct out \<and>
   (\<forall>s \<in> set slots. let ts = map se_tick (filter (\<lambda>e. se_slot e = s) out) in
      ticks_ok ts \<and> length ts = min n 64)"
proof (induction draw n slots r arbitrary: out r' rule: chunk_slots.induct)
  case (2 draw n slot slots r)
  then obtain picked r1 out' where p: "pick_ticks draw n [] r = Some (picked, r1)"
    and o: "chunk_slots draw n slots r1 = Some (out', r')"
    and out: "out = map (\<lambda>tick. \<lparr>se_slot = slot, se_tick = tick\<rparr>) picked @ out'"
    by (auto split: option.splits)
  have pk: "ticks_ok picked" "length picked = min n 64"
    using pick_ticks_ok [OF 2(2) p] by (auto simp: ticks_ok_def)
  have IH: "se_slot ` set out' \<subseteq> set slots" "length out' = length slots * min n 64" "distinct out'"
    "\<forall>s \<in> set slots. let ts = map se_tick (filter (\<lambda>e. se_slot e = s) out') in ticks_ok ts \<and> length ts = min n 64"
    using 2(1) [OF p refl 2(2) o] 2(4) by auto
  have slot: "slot \<notin> set slots" using 2(4) by simp
  have dist: "distinct out"
    unfolding out using pk(1) IH(1,3) slot by (auto simp: ticks_ok_def distinct_map inj_on_def)
  have other: "filter (\<lambda>e. se_slot e = s) out = filter (\<lambda>e. se_slot e = s) out'" if "s \<in> set slots" for s
    using that slot by (auto simp: out filter_empty_conv)
  have "filter (\<lambda>e. se_slot e = slot) out' = []" using IH(1) slot by (auto simp: filter_empty_conv)
  then have this_slot: "map se_tick (filter (\<lambda>e. se_slot e = slot) out) = picked"
    by (simp add: out filter_map comp_def)
  have "se_slot ` set out \<subseteq> set (slot # slots)" using IH(1) by (auto simp: out)
  moreover have "length out = length (slot # slots) * min n 64" using pk IH(2) by (simp add: out)
  moreover have "length (filter (\<lambda>e. se_slot e = slot) out) = min n 64"
    using arg_cong [OF this_slot, of length] pk(2) by simp
  ultimately show ?case using dist pk(1) other this_slot IH(4) by (simp add: Let_def)
qed simp

lemma distinct_chunk_range: "distinct (chunk_range s)"
proof -
  have "inj_on (\<lambda>i. sc_next_slot s + of_nat i) {0..<unat (sc_chunk_size s)}"
  proof (rule inj_onI)
    fix i j assume "i \<in> {0..<unat (sc_chunk_size s)}" "j \<in> {0..<unat (sc_chunk_size s)}"
      and eq: "sc_next_slot s + of_nat i = sc_next_slot s + of_nat j"
    then have "i < 2 ^ 64" "j < 2 ^ 64" using unat_bound [of "sc_chunk_size s"] by auto
    with eq show "i = j" by (simp add: word_of_nat_eq_iff take_bit_nat_eq_self)
  qed
  then show ?thesis by (simp add: chunk_range_def distinct_map)
qed


section \<open>Properties\<close>

text \<open>
  A chunk for every sound and fair generator: the call returns; the entries are those of the
  next \<open>chunk_size\<close> slots, each with \<open>min triggers_per_slot 64\<close> distinct ticks from 1 to 64 and
  no entry twice; and the cursor moves on by the chunk size.
\<close>

theorem schedule_chunk_exact:
  assumes "good_draw draw" "fair_draw draw"
  shows "\<exists>out s'. next_chunk draw s = Some (out, s')
    \<and> distinct out \<and> se_slot ` set out \<subseteq> set (chunk_range s)
    \<and> length out = unat (sc_chunk_size s) * min (unat (sc_triggers_per_slot s)) 64
    \<and> (\<forall>slot \<in> set (chunk_range s). let ts = map se_tick (filter (\<lambda>e. se_slot e = slot) out) in
         ticks_ok ts \<and> length ts = min (unat (sc_triggers_per_slot s)) 64)
    \<and> sc_next_slot s' = sat_add (sc_next_slot s) (sc_chunk_size s)"
proof -
  from chunk_slots_returns [OF assms(2)] obtain out r where
    o: "chunk_slots draw (unat (sc_triggers_per_slot s)) (chunk_range s) (sc_rng s) = Some (out, r)"
    by (metis option.exhaust prod.exhaust)
  from chunk_slots_ok [OF assms(1) o distinct_chunk_range] o show ?thesis
    by (simp add: next_chunk_def chunk_range_def)
qed

definition cyclic_draw :: "nat \<Rightarrow> u8 \<times> nat" where
  "cyclic_draw r = (of_nat (r mod 64 + 1), Suc r)"

lemma cyclic_draws: "draws cyclic_draw n r = r + n"
  by (induction n arbitrary: r) (simp_all add: cyclic_draw_def)

lemma cyclic_good_fair: "good_draw cyclic_draw" "fair_draw cyclic_draw"
proof -
  have "(of_nat (r mod 64 + 1) :: u8) \<in> {t. 1 \<le> t \<and> t \<le> 64}" for r :: nat
    unfolding tick_set by (rule imageI) (simp add: Suc_leI)
  then show "good_draw cyclic_draw" by (simp add: good_draw_def cyclic_draw_def)
  show "fair_draw cyclic_draw" unfolding fair_draw_def
  proof (intro allI impI)
    fix r :: nat and t :: u8 assume "1 \<le> t \<and> t \<le> 64"
    then have "t \<in> of_nat ` {1..64}" using tick_set by blast
    then obtain j where j: "t = of_nat j" "1 \<le> j" "j \<le> 64" by auto
    obtain k where k: "t = of_nat (Suc k)" "k < 64" using j by (cases j) auto
    have "r \<le> 64 * r" by simp
    then have "(r + (64 * r - r + k)) mod 64 = k" using k(2) by simp
    then have "fst (cyclic_draw (draws cyclic_draw (64 * r - r + k) r)) = t"
      by (simp only: cyclic_draws cyclic_draw_def fst_conv k(1) Suc_eq_plus1)
    then show "\<exists>n. fst (cyclic_draw (draws cyclic_draw n r)) = t" by blast
  qed
qed

theorem schedule_chunk_exact_witness:
  "\<exists>out s'. next_chunk cyclic_draw (schedule_new 5 100 30 2) = Some (out, s')
     \<and> length out = 60 \<and> distinct out \<and> sc_next_slot s' = 130"
  using schedule_chunk_exact [OF cyclic_good_fair, of "schedule_new 5 100 30 2"]
  by (auto simp: schedule_new_def max_def sat_add_def word_le_nat_alt)

definition pump_ok :: "'r pump \<Rightarrow> bool" where
  "pump_ok p \<longleftrightarrow> pu_accumulated p = (\<lambda>e. (se_slot e, se_tick e)) ` set (ch_offered (pu_tx p))"

lemma pump_emit_ok: "pump_ok p \<Longrightarrow> pump_ok (pump_emit e p)"
  by (simp add: pump_ok_def pump_emit_def)

lemma pump_chunk_ok: "pump_ok p \<Longrightarrow> pump_chunk draw p = Some p' \<Longrightarrow> pump_ok p'"
proof (cases "next_chunk draw (pu_sched p)")
  case (Some r)
  assume p: "pump_ok p" and c: "pump_chunk draw p = Some p'"
  obtain out s where r: "r = (out, s)" by (cases r)
  have "pump_ok (p\<lparr>pu_sched := s\<rparr>)" using p by (simp add: pump_ok_def)
  then have "pump_ok (fold pump_emit out (p\<lparr>pu_sched := s\<rparr>))"
    by (rule fold_invariant [where P = pump_ok, rotated]) (rule pump_emit_ok)
  with c Some r show ?thesis by (simp add: pump_chunk_def)
qed (simp add: pump_chunk_def)

lemma pump_chunks_ok: "pump_ok p \<Longrightarrow> pump_chunks draw n p = Some p' \<Longrightarrow> pump_ok p'"
  by (induction n arbitrary: p) (auto split: option.splits dest: pump_chunk_ok)

lemma pump_chunk_returns: "fair_draw draw \<Longrightarrow> \<exists>p'. pump_chunk draw p = Some p'"
  using chunk_slots_returns [of draw "unat (sc_triggers_per_slot (pu_sched p))"
      "chunk_range (pu_sched p)" "sc_rng (pu_sched p)"]
  by (auto simp: pump_chunk_def next_chunk_def split: option.splits)

lemma pump_chunks_returns: "fair_draw draw \<Longrightarrow> \<exists>p'. pump_chunks draw n p = Some p'"
  by (induction n arbitrary: p) (use pump_chunk_returns in \<open>fastforce split: option.splits\<close>)+

definition pump_stored :: "'r pump \<Rightarrow> bool" where
  "pump_stored p \<longleftrightarrow> pump_ok p \<and> pu_snapshot p = pu_accumulated p"

lemma pump_turns_ok:
  "fair_draw draw \<Longrightarrow> pump_stored p \<Longrightarrow> \<exists>p'. pump_turns draw n p = Some p' \<and> pump_stored p'"
proof (induction n arbitrary: p)
  case (Suc n)
  obtain q where q: "pump_chunk draw p = Some q" using pump_chunk_returns Suc.prems(1) by blast
  with Suc.prems(2) have "pump_ok q" by (auto simp: pump_stored_def dest: pump_chunk_ok)
  then have "pump_stored (pump_store q)" by (auto simp: pump_stored_def pump_ok_def pump_store_def)
  with Suc.IH [OF Suc.prems(1)] q show ?case by (simp add: pump_turn_def)
qed simp

text \<open>
  For every fair generator and every non-zero chunk size the pump's pre-seeding and each later
  turn return, and afterwards the snapshot the engine fires on holds exactly the entries that were
  offered to the preparer, so no trigger is scheduled that the preparer was never asked to sign.
\<close>

theorem pump_snapshot_offered:
  assumes "fair_draw draw" "chunk_size \<noteq> 0"
  shows "\<exists>p. pump_run draw lead_slots chunk_size n (pump_new sched cap) = Some p
    \<and> pu_snapshot p = (\<lambda>e. (se_slot e, se_tick e)) ` set (ch_offered (pu_tx p))"
proof -
  have "pump_ok (pump_new sched cap)" by (simp add: pump_ok_def pump_new_def)
  moreover obtain q where q: "pump_chunks draw (unat (max (lead_slots div chunk_size) 1 + 1)) (pump_new sched cap) = Some q"
    using pump_chunks_returns assms(1) by blast
  ultimately have "pump_ok q" by (rule pump_chunks_ok)
  then have "pump_stored (pump_store q)" by (auto simp: pump_stored_def pump_ok_def pump_store_def)
  from pump_turns_ok [OF assms(1) this] obtain p
    where "pump_turns draw n (pump_store q) = Some p" "pump_stored p" by blast
  with q assms(2) show ?thesis
    by (simp add: pump_run_def pump_start_def pump_stored_def pump_ok_def)
qed

theorem pump_snapshot_offered_witness:
  "\<exists>p. pump_run cyclic_draw 60 30 3 (pump_new (schedule_new 5 100 30 2) (Some 64)) = Some p
    \<and> pu_snapshot p = (\<lambda>e. (se_slot e, se_tick e)) ` set (ch_offered (pu_tx p))"
  by (rule pump_snapshot_offered [OF cyclic_good_fair(2)]) simp

end
