(* ===== verification/KeyStore.thy ===== *)
theory KeyStore
  imports Prelude "HOL-Library.AList"
begin

text \<open>
  Hash maps that hand values over: the pool of signed transactions, the recorder's open attempts.
  A map is an association list with distinct keys (its order is unspecified in the program and
  nothing here depends on it).  The interface says what an insertion, a removal and an eviction do
  to a lookup; from it follows that what is taken out was put in since the last take, so that no
  value is handed out twice.
\<close>

type_synonym ('k, 'v) hmap = "('k \<times> 'v) list"

definition hm_ok :: "('k, 'v) hmap \<Rightarrow> bool" where
  "hm_ok m \<longleftrightarrow> distinct (map fst m)"

definition hm_get :: "('k, 'v) hmap \<Rightarrow> 'k \<Rightarrow> 'v option" where
  "hm_get m k = map_of m k"

definition hm_insert :: "'k \<Rightarrow> 'v \<Rightarrow> ('k, 'v) hmap \<Rightarrow> ('k, 'v) hmap" where
  "hm_insert k v m = AList.update k v m"

definition hm_delete :: "'k \<Rightarrow> ('k, 'v) hmap \<Rightarrow> ('k, 'v) hmap" where
  "hm_delete k m = AList.delete k m"

text \<open>\<open>remove(&k)\<close>\<close>

definition hm_remove :: "'k \<Rightarrow> ('k, 'v) hmap \<Rightarrow> 'v option \<times> ('k, 'v) hmap" where
  "hm_remove k m = (hm_get m k, hm_delete k m)"

definition hm_retain :: "('k \<Rightarrow> 'v \<Rightarrow> bool) \<Rightarrow> ('k, 'v) hmap \<Rightarrow> ('k, 'v) hmap" where
  "hm_retain P m = filter (\<lambda>e. P (fst e) (snd e)) m"

definition hm_keys :: "('k, 'v) hmap \<Rightarrow> 'k list" where
  "hm_keys m = map fst m"

definition hm_of :: "('b \<Rightarrow> 'k) \<Rightarrow> ('b \<Rightarrow> 'v) \<Rightarrow> 'b list \<Rightarrow> ('k, 'v) hmap" where
  "hm_of key val xs = fold (\<lambda>x. hm_insert (key x) (val x)) xs []"

lemma hm_ok_Nil [simp]: "hm_ok []"
  by (simp add: hm_ok_def)

lemma hm_get_Nil [simp]: "hm_get [] k = None"
  by (simp add: hm_get_def)

lemma hm_ok_insert [simp]: "hm_ok m \<Longrightarrow> hm_ok (hm_insert k v m)"
  by (simp add: hm_ok_def hm_insert_def distinct_update)

lemma hm_ok_delete [simp]: "hm_ok m \<Longrightarrow> hm_ok (hm_delete k m)"
  by (simp add: hm_ok_def hm_delete_def distinct_delete)

lemma hm_get_insert [simp]: "hm_get (hm_insert k v m) j = (if j = k then Some v else hm_get m j)"
  by (simp add: hm_get_def hm_insert_def update_conv')

lemma hm_get_delete [simp]: "hm_get (hm_delete k m) j = (if j = k then None else hm_get m j)"
  by (simp add: hm_get_def hm_delete_def delete_conv')

lemma hm_ok_retain [simp]: "hm_ok m \<Longrightarrow> hm_ok (hm_retain P m)"
  by (auto simp: hm_ok_def hm_retain_def distinct_map intro: inj_on_subset)

lemma hm_get_retain: "hm_ok m \<Longrightarrow> hm_get (hm_retain P m) k =
    (case hm_get m k of None \<Rightarrow> None | Some v \<Rightarrow> if P k v then Some v else None)"
  by (induction m) (auto simp: hm_retain_def hm_get_def hm_ok_def map_of_eq_None_iff split: option.splits)

lemma hm_keys_get: "k \<in> set (hm_keys m) \<longleftrightarrow> hm_get m k \<noteq> None"
  by (simp add: hm_keys_def hm_get_def map_of_eq_None_iff)

lemma hm_get_in_set: "hm_ok m \<Longrightarrow> hm_get m k = Some v \<longleftrightarrow> (k, v) \<in> set m"
  by (simp add: hm_ok_def hm_get_def)

lemma hm_distinct_keys: "hm_ok m \<Longrightarrow> distinct (hm_keys m)"
  by (simp add: hm_ok_def hm_keys_def)

lemma hm_delete_absent: "hm_get m k = None \<Longrightarrow> hm_delete k m = m"
  by (simp add: hm_delete_def hm_get_def map_of_eq_None_iff delete_idem)

lemma length_hm_delete: "hm_ok m \<Longrightarrow> length (hm_delete k m) + (if hm_get m k = None then 0 else 1) = length m"
proof (induction m)
  case (Cons e m)
  obtain a b where e: "e = (a, b)" by (cases e)
  show ?case
  proof (cases "a = k")
    case True
    with Cons.prems e have "hm_get m k = None" by (simp add: hm_ok_def hm_get_def map_of_eq_None_iff)
    from hm_delete_absent [OF this] True e show ?thesis by (simp add: hm_delete_def hm_get_def)
  next
    case False
    with Cons e show ?thesis by (simp add: hm_ok_def hm_delete_def hm_get_def)
  qed
qed (simp add: hm_delete_def)

lemma length_hm_insert: "length (hm_insert k v m) = length m + (if hm_get m k = None then 1 else 0)"
  by (induction m) (auto simp: hm_insert_def hm_get_def split: prod.splits if_splits)

lemma length_hm_retain: "length (hm_retain P m) \<le> length m"
  by (simp add: hm_retain_def)

lemma hm_keys_insert: "hm_keys (hm_insert k v m) = (if hm_get m k = None then hm_keys m @ [k] else hm_keys m)"
  by (simp add: hm_keys_def hm_insert_def hm_get_def update_keys map_of_eq_None_iff)

lemma set_hm_keys_insert: "set (hm_keys (hm_insert k v m)) = insert k (set (hm_keys m))"
  by (auto simp: hm_keys_insert) (simp add: hm_keys_get)

lemma hm_keys_delete: "hm_keys (hm_delete k m) = removeAll k (hm_keys m)"
  by (simp add: hm_keys_def hm_delete_def delete_keys)

lemma hm_count_insert: "hm_get m k = None \<Longrightarrow>
    length (filter P (hm_insert k v m)) = length (filter P m) + (if P (k, v) then 1 else 0)"
  by (induction m) (auto simp: hm_insert_def hm_get_def split: if_splits)

lemma hm_count_delete: "hm_ok m \<Longrightarrow> hm_get m k = Some v \<Longrightarrow>
    length (filter P m) = length (filter P (hm_delete k m)) + (if P (k, v) then 1 else 0)"
proof (induction m)
  case (Cons e m)
  obtain a b where e: "e = (a, b)" by (cases e)
  show ?case
  proof (cases "a = k")
    case True
    with Cons.prems e have "hm_get m k = None" by (simp add: hm_ok_def hm_get_def map_of_eq_None_iff)
    from hm_delete_absent [OF this] True e Cons.prems(2) show ?thesis by (simp add: hm_delete_def hm_get_def)
  next
    case False
    with Cons e show ?thesis by (simp add: hm_ok_def hm_delete_def hm_get_def)
  qed
qed (simp add: hm_get_def)

lemma hm_fold_delete:
  "hm_keys (fold hm_delete ks m) = filter (\<lambda>k. k \<notin> set ks) (hm_keys m)"
  "hm_get (fold hm_delete ks m) j = (if j \<in> set ks then None else hm_get m j)"
  "hm_ok m \<Longrightarrow> hm_ok (fold hm_delete ks m)"
proof -
  show "hm_keys (fold hm_delete ks m) = filter (\<lambda>k. k \<notin> set ks) (hm_keys m)"
    by (induction ks arbitrary: m) (simp_all add: hm_keys_delete removeAll_filter_not_eq, metis (lifting) filter_cong)
  show "hm_get (fold hm_delete ks m) j = (if j \<in> set ks then None else hm_get m j)"
    by (induction ks arbitrary: m) simp_all
  show "hm_ok m \<Longrightarrow> hm_ok (fold hm_delete ks m)"
    by (induction ks arbitrary: m) simp_all
qed

section \<open>The interface\<close>

locale hand_over =
  fixes look :: "'m \<Rightarrow> 'k \<Rightarrow> 'v option"
    and put :: "'k \<Rightarrow> 'v \<Rightarrow> 'm \<Rightarrow> 'm"
    and take_out :: "'k \<Rightarrow> 'm \<Rightarrow> 'v option \<times> 'm"
    and evict :: "'c \<Rightarrow> 'm \<Rightarrow> 'm"
    and ok :: "'m \<Rightarrow> bool"
  assumes put_ok: "ok m \<Longrightarrow> ok (put k v m)"
    and take_ok: "ok m \<Longrightarrow> ok (snd (take_out k m))"
    and evict_ok: "ok m \<Longrightarrow> ok (evict c m)"
    and look_put: "ok m \<Longrightarrow> look (put k v m) j = (if j = k then Some v else look m j)"
    and take_look: "ok m \<Longrightarrow> fst (take_out k m) = look m k"
    and look_take: "ok m \<Longrightarrow> look (snd (take_out k m)) j = (if j = k then None else look m j)"
    and look_evict: "ok m \<Longrightarrow> look (evict c m) j = None \<or> look (evict c m) j = look m j"
begin

text \<open>The changes between two takes: puts, takes of any key, evictions.\<close>

fun apply_change :: "('k \<times> 'v) + ('k + 'c) \<Rightarrow> 'm \<Rightarrow> 'm" where
  "apply_change (Inl (k, v)) m = put k v m"
| "apply_change (Inr (Inl k)) m = snd (take_out k m)"
| "apply_change (Inr (Inr c)) m = evict c m"

lemma apply_ok: "ok m \<Longrightarrow> ok (apply_change x m)"
  by (cases "(x, m)" rule: apply_change.cases) (simp_all add: put_ok take_ok evict_ok)

lemma look_apply:
  assumes "ok m" "look (apply_change x m) k = Some v"
  shows "look m k = Some v \<or> x = Inl (k, v)"
proof (cases "(x, m)" rule: apply_change.cases)
  case (1 j w m')
  with assms show ?thesis by (cases "j = k") (simp_all add: look_put)
next
  case (2 j m')
  with assms show ?thesis by (simp add: look_take split: if_splits)
next
  case (3 c m')
  with assms look_evict [of m c k] show ?thesis by auto
qed

lemma look_fold: "ok m \<Longrightarrow> look (fold apply_change xs m) k = Some v \<Longrightarrow> look m k = Some v \<or> Inl (k, v) \<in> set xs"
proof (induction xs arbitrary: m)
  case (Cons x xs)
  have "look (apply_change x m) k = Some v \<or> Inl (k, v) \<in> set xs"
    by (rule Cons.IH [OF apply_ok [OF Cons.prems(1)]]) (use Cons.prems(2) in simp)
  then show ?case using look_apply [OF Cons.prems(1)] by fastforce
qed simp

text \<open>What a take hands out after an earlier take of the same key was put in between them.\<close>

lemma handed_out_once:
  assumes "ok m" "fst (take_out k (fold apply_change xs (snd (take_out k m)))) = Some v"
  shows "Inl (k, v) \<in> set xs"
proof -
  let ?m = "snd (take_out k m)"
  have okm: "ok ?m" using assms(1) by (rule take_ok)
  then have "ok (fold apply_change xs ?m)" by (rule fold_invariant [where P = ok, rotated]) (rule apply_ok)
  from take_look [OF this] assms(2) have "look (fold apply_change xs ?m) k = Some v" by simp
  from look_fold [OF okm this] show ?thesis using look_take [OF assms(1), of k k] by simp
qed

end

interpretation hmap: hand_over hm_get hm_insert hm_remove "\<lambda>P. hm_retain P" hm_ok
  by unfold_locales (auto simp: hm_remove_def hm_get_retain split: option.splits)

end
