(* ===== verification/Config.thy ===== *)
theory Config
  imports Prelude
begin

text \<open>
  The run configuration (\<open>crates/tick-trigger-fan-out-bench/src/config.rs\<close>).  Each section of the
  JSON file is a record of what the file holds, \<open>option\<close> for a field with a default; \<open>resolve\<close>
  fills the defaults in as the \<open>serde\<close> attributes say.  Reading and decoding the file is left out;
  a path is its string.
\<close>

section \<open>Defaults\<close>

definition default_nonce_config_path :: string where
  "default_nonce_config_path = ''nonce-config.json''"
definition default_nonce_rpc_poll_secs :: u64 where "default_nonce_rpc_poll_secs = 15"
definition default_in_flight_deadline_secs :: u64 where "default_in_flight_deadline_secs = 45"
definition default_awaiting_update_deadline_secs :: u64 where "default_awaiting_update_deadline_secs = 15"
definition default_blockhash_refresh_secs :: u64 where "default_blockhash_refresh_secs = 5"
definition default_source_channel_capacity :: u64 where "default_source_channel_capacity = 65536"
definition default_entry_timeout_ms :: u64 where "default_entry_timeout_ms = 150"
definition default_slot_seal_lag_slots :: u64 where "default_slot_seal_lag_slots = 10"
definition default_chunk_size_slots :: u64 where "default_chunk_size_slots = 30"
definition default_lead_slots :: u64 where "default_lead_slots = 100"
definition default_self_transfer_lamports :: u64 where "default_self_transfer_lamports = 1"
definition default_priority_fee :: u64 where "default_priority_fee = 5000"
definition default_compute_unit_limit :: u32 where "default_compute_unit_limit = 200000"
definition default_tip_percentile :: u32 where "default_tip_percentile = 75"
definition default_tip_floor_lamports :: u64 where "default_tip_floor_lamports = 15000"
definition default_tip_ceiling_lamports :: u64 where "default_tip_ceiling_lamports = 2000000"
definition default_tip_refresh_interval_ms :: u64 where "default_tip_refresh_interval_ms = 30000"
definition default_min_balance_lamports :: u64 where "default_min_balance_lamports = 1500000"
definition default_observation_deadline_secs :: u64 where "default_observation_deadline_secs = 90"
definition default_triggers_per_slot :: u32 where "default_triggers_per_slot = 1"

lemmas config_defaults =
  default_nonce_rpc_poll_secs_def default_in_flight_deadline_secs_def
  default_awaiting_update_deadline_secs_def default_blockhash_refresh_secs_def
  default_source_channel_capacity_def default_entry_timeout_ms_def
  default_slot_seal_lag_slots_def default_chunk_size_slots_def default_lead_slots_def
  default_self_transfer_lamports_def default_priority_fee_def default_compute_unit_limit_def
  default_tip_percentile_def default_tip_floor_lamports_def default_tip_ceiling_lamports_def
  default_tip_refresh_interval_ms_def default_min_balance_lamports_def
  default_observation_deadline_secs_def default_triggers_per_slot_def

definition or_default :: "'a option \<Rightarrow> 'a \<Rightarrow> 'a" where
  "or_default x d = (case x of None \<Rightarrow> d | Some v \<Rightarrow> v)"

section \<open>The sections of the file\<close>

record nonce_config =
  nf_enabled :: bool
  nf_config_path :: string
  nf_rpc_poll_interval_secs :: u64
  nf_in_flight_deadline_secs :: u64
  nf_awaiting_update_deadline_secs :: u64

text \<open>A section that is present, with what it leaves out; and an absent section, which takes the
  derived \<open>Default\<close> of the struct: every field zero, empty or false.\<close>

definition nonce_config_resolve ::
    "bool option \<Rightarrow> string option \<Rightarrow> u64 option \<Rightarrow> u64 option \<Rightarrow> u64 option \<Rightarrow> nonce_config" where
  "nonce_config_resolve enabled path poll inflight awaiting =
     \<lparr>nf_enabled = or_default enabled False,
      nf_config_path = or_default path default_nonce_config_path,
      nf_rpc_poll_interval_secs = or_default poll default_nonce_rpc_poll_secs,
      nf_in_flight_deadline_secs = or_default inflight default_in_flight_deadline_secs,
      nf_awaiting_update_deadline_secs = or_default awaiting default_awaiting_update_deadline_secs\<rparr>"

definition nonce_config_default :: nonce_config where
  "nonce_config_default =
     \<lparr>nf_enabled = False, nf_config_path = '''', nf_rpc_poll_interval_secs = 0,
      nf_in_flight_deadline_secs = 0, nf_awaiting_update_deadline_secs = 0\<rparr>"

record supervisor_config =
  sf_entry_timeout_ms :: u64
  sf_slot_seal_lag_slots :: u64

definition supervisor_config_resolve :: "u64 option \<Rightarrow> u64 option \<Rightarrow> supervisor_config" where
  "supervisor_config_resolve timeout lag =
     \<lparr>sf_entry_timeout_ms = or_default timeout default_entry_timeout_ms,
      sf_slot_seal_lag_slots = or_default lag default_slot_seal_lag_slots\<rparr>"

record schedule_config =
  hf_seed :: "u64 option"
  hf_chunk_size_slots :: u64
  hf_lead_slots :: u64

definition schedule_config_resolve :: "u64 option \<Rightarrow> u64 option \<Rightarrow> u64 option \<Rightarrow> schedule_config" where
  "schedule_config_resolve seed chunk lead =
     \<lparr>hf_seed = seed, hf_chunk_size_slots = or_default chunk default_chunk_size_slots,
      hf_lead_slots = or_default lead default_lead_slots\<rparr>"

record tx_config =
  xf_self_transfer_lamports :: u64
  xf_priority_fee_microlamports :: u64
  xf_compute_unit_limit :: u32

definition tx_config_resolve :: "u64 option \<Rightarrow> u64 option \<Rightarrow> u32 option \<Rightarrow> tx_config" where
  "tx_config_resolve self_transfer fee limit =
     \<lparr>xf_self_transfer_lamports = or_default self_transfer default_self_transfer_lamports,
      xf_priority_fee_microlamports = or_default fee default_priority_fee,
      xf_compute_unit_limit = or_default limit default_compute_unit_limit\<rparr>"

datatype sender_kind = Helius | Jito | Triton

record sender_config =
  sd_id :: u8
  sd_name :: string
  sd_kind :: sender_kind
  sd_endpoint_url :: string
  sd_tip_lamports :: u64
  sd_enabled :: bool
  sd_regions :: "string list"
  sd_outbound_ips :: "string list"
  sd_min_send_interval_ms :: u64
  sd_tip_percentile :: u32
  sd_tip_floor_lamports :: u64
  sd_tip_ceiling_lamports :: u64
  sd_tip_refresh_interval_ms :: u64

text \<open>A sender that gives only the required fields.\<close>

definition sender_config_min :: "u8 \<Rightarrow> string \<Rightarrow> sender_kind \<Rightarrow> string \<Rightarrow> sender_config" where
  "sender_config_min i name kind url =
     \<lparr>sd_id = i, sd_name = name, sd_kind = kind, sd_endpoint_url = url, sd_tip_lamports = 0,
      sd_enabled = True, sd_regions = [], sd_outbound_ips = [], sd_min_send_interval_ms = 0,
      sd_tip_percentile = default_tip_percentile, sd_tip_floor_lamports = default_tip_floor_lamports,
      sd_tip_ceiling_lamports = default_tip_ceiling_lamports,
      sd_tip_refresh_interval_ms = default_tip_refresh_interval_ms\<rparr>"

record run_config =
  rf_output_dir :: string
  rf_min_balance_lamports :: u64
  rf_observation_deadline_secs :: u64
  rf_duration :: string
  rf_triggers_per_slot :: u32

definition run_config_resolve ::
    "string \<Rightarrow> string \<Rightarrow> u64 option \<Rightarrow> u64 option \<Rightarrow> u32 option \<Rightarrow> run_config" where
  "run_config_resolve dir duration bal deadline triggers =
     \<lparr>rf_output_dir = dir, rf_min_balance_lamports = or_default bal default_min_balance_lamports,
      rf_observation_deadline_secs = or_default deadline default_observation_deadline_secs,
      rf_duration = duration,
      rf_triggers_per_slot = or_default triggers default_triggers_per_slot\<rparr>"

end
