(* ===== verification/TxBuilder.thy ===== *)
theory TxBuilder
  imports Config
begin

text \<open>
  The transactions (\<open>crates/tick-trigger-fan-out-bench/src/tx_builder.rs\<close>).  An instruction is
  symbolic: the builder call of the Solana interface crates with its arguments.  A key pair is
  its public key and its signing function, a parameter of everything that signs.
\<close>

section \<open>The memo\<close>

definition memo_payload :: "u8 \<Rightarrow> u64 \<Rightarrow> string" where
  "memo_payload sender_id trigger_id =
     hex_pad 2 (unat sender_id) @ '':'' @ hex_pad 16 (unat trigger_id)"

section \<open>Transactions\<close>

definition RENT_EXEMPT_MIN_LAMPORTS :: u64 where "RENT_EXEMPT_MIN_LAMPORTS = 890880"

definition BASE_TX_FEE_LAMPORTS :: u64 where "BASE_TX_FEE_LAMPORTS = 5000"

datatype instruction =
    AdvanceNonceAccount pubkey pubkey
  | SetComputeUnitLimit u32
  | SetComputeUnitPrice u64
  | Memo pubkey string
  | Transfer pubkey pubkey u64

record message =
  ms_payer :: pubkey
  ms_instructions :: "instruction list"
  ms_recent_blockhash :: hash

record transaction =
  tr_message :: message
  tr_signature :: signature

record keypair =
  kp_pubkey :: pubkey
  kp_sign :: "message \<Rightarrow> signature"

record nonce_params =
  np_nonce_pubkey :: pubkey
  np_authority :: pubkey

record build_params =
  bp_payer :: keypair
  bp_blockhash :: hash
  bp_sender_id :: u8
  bp_trigger_id :: u64
  bp_tip_account :: "pubkey option"
  bp_tip_lamports :: u64
  bp_nonce :: "nonce_params option"
  bp_tx_cfg :: tx_config
  bp_fund_tipper :: "(pubkey \<times> u64) option"

definition sign_tx :: "keypair \<Rightarrow> instruction list \<Rightarrow> hash \<Rightarrow> transaction" where
  "sign_tx kp ixs blockhash =
     (let msg = \<lparr>ms_payer = kp_pubkey kp, ms_instructions = ixs, ms_recent_blockhash = blockhash\<rparr>
      in \<lparr>tr_message = msg, tr_signature = kp_sign kp msg\<rparr>)"

definition build_instructions :: "build_params \<Rightarrow> instruction list" where
  "build_instructions p =
     (let payer_pk = kp_pubkey (bp_payer p) in
      (case bp_nonce p of None \<Rightarrow> [] | Some np \<Rightarrow> [AdvanceNonceAccount (np_nonce_pubkey np) (np_authority np)])
      @ [SetComputeUnitLimit (xf_compute_unit_limit (bp_tx_cfg p))]
      @ (if xf_priority_fee_microlamports (bp_tx_cfg p) > 0
         then [SetComputeUnitPrice (xf_priority_fee_microlamports (bp_tx_cfg p))] else [])
      @ [Memo payer_pk (memo_payload (bp_sender_id p) (bp_trigger_id p))]
      @ (case bp_tip_account p of None \<Rightarrow> []
         | Some tip \<Rightarrow> if bp_tip_lamports p > 0 then [Transfer payer_pk tip (bp_tip_lamports p)] else [])
      @ [Transfer payer_pk payer_pk (xf_self_transfer_lamports (bp_tx_cfg p))]
      @ (case bp_fund_tipper p of None \<Rightarrow> [] | Some (tipper, amount) \<Rightarrow> [Transfer payer_pk tipper amount]))"

text \<open>The built transaction and its signature are one value: \<open>tr_signature\<close> is \<open>signatures[0]\<close>.\<close>

definition build :: "build_params \<Rightarrow> transaction" where
  "build p = sign_tx (bp_payer p) (build_instructions p) (bp_blockhash p)"

definition build_tipper_tx ::
    "keypair \<Rightarrow> hash \<Rightarrow> pubkey \<Rightarrow> u64 \<Rightarrow> pubkey \<Rightarrow> u64 \<Rightarrow> transaction" where
  "build_tipper_tx tipper blockhash tip_account tip_lamports main_wallet rent_exempt_lamports =
     sign_tx tipper
       [Transfer (kp_pubkey tipper) tip_account tip_lamports,
        Transfer (kp_pubkey tipper) main_wallet rent_exempt_lamports]
       blockhash"

section \<open>The memo is readable and unique\<close>

definition hex_value :: "char \<Rightarrow> nat" where
  "hex_value c = (if of_char c < (58::nat) then of_char c - 48 else of_char c - 87)"

definition unhex :: "string \<Rightarrow> nat" where
  "unhex s = fold (\<lambda>c n. 16 * n + hex_value c) s 0"

definition is_hex :: "char \<Rightarrow> bool" where
  "is_hex c \<longleftrightarrow> c \<in> set ''0123456789abcdef''"

text \<open>Reading a memo back: the two halves around the colon.\<close>

definition memo_read :: "string \<Rightarrow> u8 \<times> u64" where
  "memo_read m = (of_nat (unhex (take 2 m)), of_nat (unhex (drop 3 m)))"

lemma hex_digit_value: "d < 16 \<Longrightarrow> hex_value (hex_digit d) = d"
  using hex_digit_cases [of d] by (auto simp: hex_value_def hex_digit_def)

lemma hex_digit_is_hex: "d < 16 \<Longrightarrow> is_hex (hex_digit d)"
  unfolding is_hex_def hex_digit_def by (rule nth_mem) simp

lemma unhex_snoc [simp]: "unhex (s @ [c]) = 16 * unhex s + hex_value c"
  by (simp add: unhex_def)

lemma unhex_hex_digits [simp]: "unhex (hex_digits n) = n"
proof (induction n rule: hex_digits.induct)
  case (1 n)
  show ?case
  proof (cases "n < 16")
    case True
    then show ?thesis by (simp add: hex_digits.simps [of n] unhex_def hex_digit_value)
  next
    case False
    with 1 show ?thesis by (simp add: hex_digits.simps [of n] hex_digit_value)
  qed
qed

lemma unhex_zeros: "unhex (replicate k CHR ''0'' @ s) = unhex s"
proof -
  have "fold (\<lambda>c n. 16 * n + hex_value c) (replicate k CHR ''0'') 0 = 0"
    by (induction k) (simp_all add: hex_value_def)
  then show ?thesis by (simp add: unhex_def)
qed

lemma unhex_hex_pad [simp]: "unhex (hex_pad w n) = n"
  by (simp add: hex_pad_def Let_def unhex_zeros)

lemma hex_digits_is_hex: "c \<in> set (hex_digits n) \<Longrightarrow> is_hex c"
  by (induction n rule: hex_digits.induct)
    (subst (asm) (2) hex_digits.simps, auto simp: hex_digit_is_hex split: if_splits)

lemma hex_pad_is_hex: "c \<in> set (hex_pad w n) \<Longrightarrow> is_hex c"
  by (auto simp: hex_pad_def Let_def hex_digits_is_hex) (simp add: is_hex_def)

lemma length_hex_digits: "n < 16 ^ k \<Longrightarrow> 0 < k \<Longrightarrow> length (hex_digits n) \<le> k"
proof (induction n arbitrary: k rule: hex_digits.induct)
  case (1 n)
  show ?case
  proof (cases "n < 16")
    case True
    with 1(3) show ?thesis by (simp add: hex_digits.simps [of n])
  next
    case False
    obtain j where k: "k = Suc j" using 1(3) by (cases k) auto
    have j: "0 < j" using False 1(2) k by (cases j) auto
    have "n div 16 < 16 ^ j" using 1(2) k by (simp add: less_mult_imp_div_less mult.commute)
    from 1(1) [OF False this j] k show ?thesis using False by (simp add: hex_digits.simps [of n])
  qed
qed

lemma length_hex_pad: "n < 16 ^ w \<Longrightarrow> 0 < w \<Longrightarrow> length (hex_pad w n) = w"
  using length_hex_digits [of n w] by (simp add: hex_pad_def Let_def)

lemma length_memo_parts:
  "length (hex_pad 2 (unat (s :: u8))) = 2" "length (hex_pad 16 (unat (t :: u64))) = 16"
  using unat_bound [of s] unat_bound [of t] by (simp_all add: length_hex_pad)

lemma memo_read_payload: "memo_read (memo_payload s t) = (s, t)"
  by (simp add: memo_read_def memo_payload_def length_memo_parts)

lemma memo_payload_inj: "memo_payload s t = memo_payload s' t' \<longleftrightarrow> s = s' \<and> t = t'"
  by (metis memo_read_payload prod.inject)

text \<open>
  The memo is 19 ASCII characters, hexadecimal digits around a colon at position 2, and both
  the sender and the trigger can be read back from it, so it is unique for the pair.
\<close>

theorem memo_roundtrip:
  "memo_read (memo_payload sender_id trigger_id) = (sender_id, trigger_id)
   \<and> length (memo_payload sender_id trigger_id) = 19
   \<and> memo_payload sender_id trigger_id ! 2 = CHR '':''
   \<and> filter (\<lambda>c. \<not> is_hex c) (memo_payload sender_id trigger_id) = '':''"
proof -
  have "filter (\<lambda>c. \<not> is_hex c) (hex_pad w n) = []" for w n
    by (auto simp: filter_empty_conv hex_pad_is_hex)
  moreover have "\<not> is_hex (CHR '':'')" by (simp add: is_hex_def)
  ultimately show ?thesis
    by (simp add: memo_read_payload, simp add: memo_payload_def length_memo_parts nth_append)
qed

section \<open>What a built transaction does\<close>

text \<open>
  The lamports an account loses to others in a list of instructions (a transfer to itself moves
  nothing), and the fee of one signature, which the payer of the message bears.
\<close>

fun moves :: "pubkey \<Rightarrow> instruction \<Rightarrow> int" where
  "moves pk (Transfer a b n) =
     (if a = pk then int (unat n) else 0) - (if b = pk then int (unat n) else 0)"
| "moves pk _ = 0"

definition outflow :: "pubkey \<Rightarrow> instruction list \<Rightarrow> int" where
  "outflow pk ixs = sum_list (map (moves pk) ixs)"

definition spends :: "pubkey \<Rightarrow> transaction \<Rightarrow> int" where
  "spends pk tx = outflow pk (ms_instructions (tr_message tx))
     + (if ms_payer (tr_message tx) = pk then int (unat BASE_TX_FEE_LAMPORTS) else 0)"

lemma outflow_simps [simp]:
  "outflow pk [] = 0" "outflow pk (i # ixs) = moves pk i + outflow pk ixs"
  "outflow pk (ixs @ jxs) = outflow pk ixs + outflow pk jxs"
  by (simp_all add: outflow_def)

definition is_nonced :: "transaction \<Rightarrow> bool" where
  "is_nonced tx = (case ms_instructions (tr_message tx) of AdvanceNonceAccount _ _ # _ \<Rightarrow> True | _ \<Rightarrow> False)"

fun memo_of :: "instruction list \<Rightarrow> string option" where
  "memo_of [] = None"
| "memo_of (Memo _ s # ixs) = Some s"
| "memo_of (_ # ixs) = memo_of ixs"

lemma memo_of_append: "memo_of (xs @ ys) = (case memo_of xs of None \<Rightarrow> memo_of ys | Some s \<Rightarrow> Some s)"
  by (induction xs rule: memo_of.induct) auto

lemma memo_of_build: "memo_of (build_instructions p) = Some (memo_payload (bp_sender_id p) (bp_trigger_id p))"
  by (simp add: build_instructions_def memo_of_append Let_def split: option.splits)

lemma build_fields:
  "ms_instructions (tr_message (build p)) = build_instructions p"
  "ms_payer (tr_message (build p)) = kp_pubkey (bp_payer p)"
  "ms_recent_blockhash (tr_message (build p)) = bp_blockhash p"
  "tr_signature (build p) = kp_sign (bp_payer p) (tr_message (build p))"
  by (simp_all add: build_def sign_tx_def Let_def)

lemma build_nonced: "is_nonced (build p) \<longleftrightarrow> bp_nonce p \<noteq> None"
  by (simp add: is_nonced_def build_fields build_instructions_def Let_def split: option.splits)

lemma rent_fee: "unat RENT_EXEMPT_MIN_LAMPORTS = 890880" "unat BASE_TX_FEE_LAMPORTS = 5000"
  by (simp_all add: RENT_EXEMPT_MIN_LAMPORTS_def BASE_TX_FEE_LAMPORTS_def)

lemma build_outflow:
  "outflow pk (build_instructions p) =
     (case bp_tip_account p of None \<Rightarrow> 0 | Some t \<Rightarrow> moves pk (Transfer (kp_pubkey (bp_payer p)) t (bp_tip_lamports p)))
   + (case bp_fund_tipper p of None \<Rightarrow> 0 | Some (t, n) \<Rightarrow> moves pk (Transfer (kp_pubkey (bp_payer p)) t n))"
  by (auto simp: build_instructions_def Let_def word_gt_0 split: option.splits)

lemma advance_only_first:
  "filter (\<lambda>i. \<exists>n a. i = AdvanceNonceAccount n a) (build_instructions p) =
     (case bp_nonce p of None \<Rightarrow> [] | Some np \<Rightarrow> take 1 (build_instructions p))"
  by (auto simp: build_instructions_def Let_def split: option.splits)

text \<open>
  Every built transaction is attributable: its memo reads back as the sender and the trigger it
  was built for (so two that differ there have different messages), it is signed by the payer over
  exactly the message it carries, with the given blockhash, and it advances a nonce account exactly
  in nonce mode, exactly once and as its first instruction.
\<close>

theorem build_attributable:
  "map_option memo_read (memo_of (ms_instructions (tr_message (build p)))) = Some (bp_sender_id p, bp_trigger_id p)
   \<and> ms_recent_blockhash (tr_message (build p)) = bp_blockhash p
   \<and> tr_signature (build p) = kp_sign (bp_payer p) (tr_message (build p))
   \<and> is_nonced (build p) = (bp_nonce p \<noteq> None)
   \<and> filter (\<lambda>i. \<exists>n a. i = AdvanceNonceAccount n a) (ms_instructions (tr_message (build p))) =
       (if is_nonced (build p) then take 1 (ms_instructions (tr_message (build p))) else [])"
  by (cases "bp_nonce p") (simp_all add: build_fields memo_of_build memo_read_payload build_nonced advance_only_first)

text \<open>
  The two transactions of a bundle settle: if the first funds the throwaway tipper with the tip,
  the rent-exempt minimum and one fee, then over both the tipper ends with the balance it had, the
  tip account has gained the tip, and the wallet has paid the tip and two fees, its own tip aside.
\<close>

theorem tipper_settles:
  assumes "bp_fund_tipper p = Some (kp_pubkey tipper, tip + RENT_EXEMPT_MIN_LAMPORTS + BASE_TX_FEE_LAMPORTS)"
    and "unat tip + 895880 < 2 ^ 64" "bp_tip_account p = None"
    and "distinct [kp_pubkey (bp_payer p), kp_pubkey tipper, tip_account]"
  shows "let tx1 = build p;
             tx2 = build_tipper_tx tipper bh tip_account tip (kp_pubkey (bp_payer p)) RENT_EXEMPT_MIN_LAMPORTS
         in spends (kp_pubkey tipper) tx1 + spends (kp_pubkey tipper) tx2 = 0
          \<and> spends tip_account tx1 + spends tip_account tx2 = - int (unat tip)
          \<and> spends (kp_pubkey (bp_payer p)) tx1 + spends (kp_pubkey (bp_payer p)) tx2 = int (unat tip) + 10000"
proof -
  have "unat (tip + RENT_EXEMPT_MIN_LAMPORTS + BASE_TX_FEE_LAMPORTS) = unat tip + 895880"
    using assms(2) by (simp add: unat_word_ariths rent_fee)
  then have "uint (tip + RENT_EXEMPT_MIN_LAMPORTS + BASE_TX_FEE_LAMPORTS) = uint tip + 895880"
    by (metis int_plus of_nat_numeral uint_nat)
  with assms(1,3,4) show ?thesis
    by (auto simp: spends_def build_fields build_outflow build_tipper_tx_def sign_tx_def Let_def rent_fee)
qed

definition demo_key :: "pubkey \<Rightarrow> keypair" where
  "demo_key pk = \<lparr>kp_pubkey = pk, kp_sign = (\<lambda>m. of_nat (length (ms_instructions m)))\<rparr>"

definition demo_params :: "(pubkey \<times> u64) option \<Rightarrow> build_params" where
  "demo_params fund =
     \<lparr>bp_payer = demo_key 1, bp_blockhash = 7, bp_sender_id = 2, bp_trigger_id = 25601,
      bp_tip_account = None, bp_tip_lamports = 0, bp_nonce = None,
      bp_tx_cfg = tx_config_resolve None None None, bp_fund_tipper = fund\<rparr>"

theorem tipper_settles_witness:
  "spends 5 (build (demo_params (Some (5, 15000 + RENT_EXEMPT_MIN_LAMPORTS + BASE_TX_FEE_LAMPORTS))))
   + spends 5 (build_tipper_tx (demo_key 5) 8 9 15000 1 RENT_EXEMPT_MIN_LAMPORTS) = 0"
  using tipper_settles [of "demo_params (Some (5, 15000 + RENT_EXEMPT_MIN_LAMPORTS + BASE_TX_FEE_LAMPORTS))"
      "demo_key 5" 15000 9 8]
  by (simp add: demo_params_def demo_key_def Let_def)

end
