(* ===== verification/TxPool.thy ===== *)
theory TxPool
  imports KeyStore TxBuilder
begin

text \<open>
  The pool of signed transactions (\<open>crates/tick-trigger-fan-out-bench/src/tx_pool.rs\<close>), filled by
  the preparer and emptied by the dispatcher, and the blockhash cache
  (\<open>blockhash_cache.rs\<close>) with the two loops of its refresher thread.  Fetch results and clock
  readings are arguments.
\<close>

section \<open>The pool\<close>

record bundle_meta =
  bm_tip_account :: pubkey
  bm_tip_lamports :: u64

record pre_signed_tx =
  pt_sender_id :: u8
  pt_tx :: transaction
  pt_signature :: signature
  pt_blockhash :: hash
  pt_prepared_at :: instant
  pt_nonce_id :: "u16 option"
  pt_bundle_metadata :: "bundle_meta option"

type_synonym tx_pool = "(u64 \<times> u8, pre_signed_tx list) hmap"

definition pool_take :: "u64 \<times> u8 \<Rightarrow> tx_pool \<Rightarrow> pre_signed_tx list option \<times> tx_pool" where
  "pool_take k pool = hm_remove k pool"

definition pool_insert_all :: "u64 \<times> u8 \<Rightarrow> pre_signed_tx list \<Rightarrow> tx_pool \<Rightarrow> tx_pool" where
  "pool_insert_all k txs pool = hm_insert k txs pool"

definition pool_len :: "tx_pool \<Rightarrow> nat" where
  "pool_len pool = length pool"

definition pool_evict_below :: "u64 \<Rightarrow> tx_pool \<Rightarrow> tx_pool" where
  "pool_evict_below cutoff pool = hm_retain (\<lambda>k _. fst k \<ge> cutoff) pool"

interpretation pool: hand_over hm_get pool_insert_all pool_take pool_evict_below hm_ok
  by unfold_locales
    (auto simp: pool_insert_all_def pool_take_def pool_evict_below_def hm_remove_def hm_get_retain
      split: option.splits)

lemma pool_get_evict: "hm_ok pool \<Longrightarrow>
    hm_get (pool_evict_below c pool) k = (if fst k \<ge> c then hm_get pool k else None)"
  by (auto simp: pool_evict_below_def hm_get_retain split: option.splits)

text \<open>The changes the two threads make between two takes.\<close>

definition pool_change :: "(u64 \<times> u8) \<times> pre_signed_tx list + ((u64 \<times> u8) + u64) \<Rightarrow> tx_pool \<Rightarrow> tx_pool" where
  "pool_change x pool = (case x of
     Inl (k, txs) \<Rightarrow> pool_insert_all k txs pool
   | Inr (Inl k) \<Rightarrow> snd (pool_take k pool)
   | Inr (Inr c) \<Rightarrow> pool_evict_below c pool)"

lemma pool_change_eq: "pool_change = pool.apply_change"
proof (intro ext)
  fix x pool show "pool_change x pool = pool.apply_change x pool"
    by (cases "(x, pool)" rule: pool.apply_change.cases) (simp_all add: pool_change_def)
qed

text \<open>
  A trigger's transactions are handed out at most once: if the dispatcher takes the same slot
  and tick twice, the second time it gets a list that the preparer inserted in between, however
  many other inserts, takes and evictions happened.
\<close>

theorem pool_takes_once:
  assumes "hm_ok pool"
    and "fst (pool_take k (fold pool_change xs (snd (pool_take k pool)))) = Some txs"
  shows "Inl (k, txs) \<in> set xs"
  using pool.handed_out_once [OF assms(1)] assms(2) by (simp add: pool_change_eq)

theorem pool_takes_once_witness:
  "fst (pool_take (100, 3) (fold pool_change [Inr (Inr 99), Inl ((100, 3), [])]
      (snd (pool_take (100, 3) [((100, 3), [])])))) = Some []
   \<and> Inl ((100, 3), []) \<in> set [Inr (Inr 99) :: (u64 \<times> u8) \<times> pre_signed_tx list + ((u64 \<times> u8) + u64), Inl ((100, 3), [])]"
proof -
  let ?p = "[((100, 3), [])] :: tx_pool"
  let ?xs = "[Inr (Inr 99), Inl ((100, 3), [])] :: ((u64 \<times> u8) \<times> pre_signed_tx list + ((u64 \<times> u8) + u64)) list"
  have ok: "hm_ok ?p" by (simp add: hm_ok_def)
  have t: "fst (pool_take (100, 3) (fold pool_change ?xs (snd (pool_take (100, 3) ?p)))) = Some []"
    by (simp add: pool_take_def hm_remove_def pool_change_def pool_insert_all_def)
  with pool_takes_once [OF ok t] show ?thesis by blast
qed

section \<open>The blockhash cache\<close>

record blockhash_cache =
  bc_inner :: hash
  bc_last_refresh_ns :: u64
  bc_refresh_errors :: u64

definition cache_new :: blockhash_cache where
  "cache_new = \<lparr>bc_inner = 0, bc_last_refresh_ns = 0, bc_refresh_errors = 0\<rparr>"

definition cache_is_empty :: "blockhash_cache \<Rightarrow> bool" where
  "cache_is_empty c \<longleftrightarrow> bc_last_refresh_ns c = 0"

text \<open>Nanoseconds since the epoch, or 0 when the clock is before it.\<close>

definition update_last_refresh :: "nat option \<Rightarrow> blockhash_cache \<Rightarrow> blockhash_cache" where
  "update_last_refresh wall c = c\<lparr>bc_last_refresh_ns := (case wall of Some ns \<Rightarrow> trunc_u64 ns | None \<Rightarrow> 0)\<rparr>"

definition cache_fetch :: "'e + hash \<Rightarrow> nat option \<Rightarrow> blockhash_cache \<Rightarrow> blockhash_cache" where
  "cache_fetch r wall c = (case r of
     Inr h \<Rightarrow> update_last_refresh wall (c\<lparr>bc_inner := h\<rparr>)
   | Inl _ \<Rightarrow> c\<lparr>bc_refresh_errors := bc_refresh_errors c + 1\<rparr>)"

text \<open>The refresher: first the loop that retries with a growing pause, then the steady loop.\<close>

datatype refresher_phase = Priming duration | Steady instant

record refresher =
  rf_cache :: blockhash_cache
  rf_phase :: refresher_phase

definition refresher_new :: refresher where
  "refresher_new = \<lparr>rf_cache = cache_new, rf_phase = Priming 200000000\<rparr>"

text \<open>One turn at time \<open>now\<close>, with what the node would answer and the wall clock after it; the
  result says whether the node was asked.\<close>

definition refresh_turn :: "duration \<Rightarrow> instant \<Rightarrow> 'e + hash \<Rightarrow> nat option \<Rightarrow> refresher \<Rightarrow> bool \<times> refresher" where
  "refresh_turn refresh_interval now r wall rf = (case rf_phase rf of
     Priming backoff \<Rightarrow> (True,
       rf\<lparr>rf_cache := cache_fetch r wall (rf_cache rf),
          rf_phase := (case r of Inr _ \<Rightarrow> Steady (now + refresh_interval)
                       | Inl _ \<Rightarrow> Priming (min (backoff * 2) 5000000000))\<rparr>)
   | Steady nxt \<Rightarrow>
       if now < nxt then (False, rf)
       else (True, rf\<lparr>rf_cache := cache_fetch r wall (rf_cache rf), rf_phase := Steady (now + refresh_interval)\<rparr>))"

text \<open>A run, and the answers it really got.\<close>

fun refresh_run :: "duration \<Rightarrow> (instant \<times> ('e + hash) \<times> nat option) list \<Rightarrow> refresher \<Rightarrow> ('e + hash) list \<times> refresher" where
  "refresh_run d [] rf = ([], rf)"
| "refresh_run d ((now, r, wall) # es) rf =
     (let (asked, rf') = refresh_turn d now r wall rf; (rs, rf'') = refresh_run d es rf'
      in (if asked then r # rs else rs, rf''))"

definition good_hashes :: "('e + hash) list \<Rightarrow> hash list" where
  "good_hashes rs = concat (map (\<lambda>r. case r of Inr h \<Rightarrow> [h] | Inl _ \<Rightarrow> []) rs)"

definition failures :: "('e + hash) list \<Rightarrow> nat" where
  "failures rs = length (filter (\<lambda>r. case r of Inr h \<Rightarrow> False | Inl _ \<Rightarrow> True) rs)"

text \<open>A wall clock reading past the epoch (that does not happen to wrap to zero).\<close>

definition wall_ok :: "nat option \<Rightarrow> bool" where
  "wall_ok wall = (case wall of Some ns \<Rightarrow> ns mod 2 ^ 64 \<noteq> 0 | None \<Rightarrow> False)"

definition phase_ok :: "refresher \<Rightarrow> bool" where
  "phase_ok rf = (case rf_phase rf of Priming b \<Rightarrow> 200000000 \<le> b \<and> b \<le> 5000000000 | Steady _ \<Rightarrow> True)"

lemma good_hashes_Cons [simp]: "good_hashes (Inr h # rs) = h # good_hashes rs"
    "good_hashes (Inl e # rs) = good_hashes rs" "good_hashes [] = []"
  by (simp_all add: good_hashes_def)

lemma failures_Cons [simp]: "failures (Inr h # rs) = failures rs"
    "failures (Inl e # rs) = Suc (failures rs)" "failures [] = 0"
  by (simp_all add: failures_def)

lemma refresh_run_inv:
  assumes "refresh_run d es rf = (rs, rf')" "phase_ok rf"
    and "\<forall>e \<in> set es. wall_ok (snd (snd e))"
  shows "bc_inner (rf_cache rf') = last (bc_inner (rf_cache rf) # good_hashes rs)
    \<and> bc_refresh_errors (rf_cache rf') = bc_refresh_errors (rf_cache rf) + of_nat (failures rs)
    \<and> cache_is_empty (rf_cache rf') = (cache_is_empty (rf_cache rf) \<and> good_hashes rs = [])
    \<and> phase_ok rf'"
  using assms
proof (induction es arbitrary: rf rs rf')
  case (Cons e es)
  obtain now r wall where e: "e = (now, r, wall)" by (cases e)
  obtain asked rf1 where t: "refresh_turn d now r wall rf = (asked, rf1)" by fastforce
  obtain rs1 where r1: "refresh_run d es rf1 = (rs1, rf')" "rs = (if asked then r # rs1 else rs1)"
    using Cons.prems(1) e t by (auto simp: Let_def split: prod.splits)
  obtain ns where w: "wall = Some ns" "ns mod 2 ^ 64 \<noteq> 0"
    using Cons.prems(3) e by (auto simp: wall_ok_def split: option.splits)
  have ns: "trunc_u64 ns \<noteq> 0" using w(2)
    by (simp add: trunc_u64_def word_of_nat_eq_0_iff dvd_eq_mod_eq_0)
  have ok1: "phase_ok rf1" using t Cons.prems(2)
    by (auto simp: refresh_turn_def phase_ok_def split: refresher_phase.splits sum.splits if_splits)
  have rest: "\<forall>e \<in> set es. wall_ok (snd (snd e))"
    using Cons.prems(3) by simp
  have c1: "rf_cache rf1 = (if asked then cache_fetch r wall (rf_cache rf) else rf_cache rf)"
    using t by (auto simp: refresh_turn_def split: refresher_phase.splits if_splits)
  note IH = Cons.IH [OF r1(1) ok1 rest]
  show ?case
  proof (cases "asked")
    case False
    with IH c1 r1(2) show ?thesis by simp
  next
    case True
    with IH c1 r1(2) ns w(1) show ?thesis
      by (cases r) (simp_all add: cache_fetch_def update_last_refresh_def cache_is_empty_def)
  qed
qed simp

text \<open>
  Under a clock past the epoch, the cache holds after any run the hash of the last successful
  fetch, counts every failed one, and is empty exactly while no fetch succeeded; the retry pause
  stays between 200 ms and 5 s.
\<close>

theorem blockhash_cache_last_success:
  assumes "\<forall>e \<in> set es. wall_ok (snd (snd e))"
  shows "let (rs, rf) = refresh_run refresh_interval es refresher_new; c = rf_cache rf in
     bc_inner c = last (0 # good_hashes rs) \<and> bc_refresh_errors c = of_nat (failures rs)
     \<and> cache_is_empty c = (good_hashes rs = [])
     \<and> (case rf_phase rf of Priming b \<Rightarrow> 200000000 \<le> b \<and> b \<le> 5000000000 | Steady _ \<Rightarrow> good_hashes rs \<noteq> [])"
proof -
  have steady: "rf_phase (snd (refresh_run d es rf)) = Steady t \<Longrightarrow>
      (\<forall>t. rf_phase rf \<noteq> Steady t) \<Longrightarrow> good_hashes (fst (refresh_run d es rf)) \<noteq> []"
    for d t rf and es :: "(instant \<times> ('a + hash) \<times> nat option) list"
  proof (induction es arbitrary: rf)
    case (Cons e es)
    obtain now r wall where e: "e = (now, r, wall)" by (cases e)
    from Cons.prems(2) obtain b where "rf_phase rf = Priming b" by (cases "rf_phase rf") auto
    moreover obtain rf1 where t: "refresh_turn d now r wall rf = (True, rf1)"
      and ph: "rf_phase rf1 = (case r of Inr _ \<Rightarrow> Steady (now + d) | Inl _ \<Rightarrow> Priming (min (b * 2) 5000000000))"
      using calculation by (simp add: refresh_turn_def)
    ultimately show ?case
      using Cons.IH [of rf1] Cons.prems(1) e by (cases r) (auto simp: Let_def split: prod.splits)
  qed simp
  obtain rs rf where r: "refresh_run refresh_interval es refresher_new = (rs, rf)" by fastforce
  have "phase_ok refresher_new" by (simp add: phase_ok_def refresher_new_def)
  note inv = refresh_run_inv [OF r this assms]
  have new: "bc_inner (rf_cache refresher_new) = 0" "bc_refresh_errors (rf_cache refresher_new) = 0"
    "cache_is_empty (rf_cache refresher_new)" "rf_phase refresher_new \<noteq> Steady t" for t
    by (simp_all add: refresher_new_def cache_new_def cache_is_empty_def)
  have "rf_phase rf = Steady t \<Longrightarrow> good_hashes rs \<noteq> []" for t
    using steady [of refresh_interval es refresher_new t] new(4) r by simp
  with inv new(1-3) show ?thesis
    by (simp add: r Let_def phase_ok_def split: refresher_phase.splits)
qed

theorem blockhash_cache_last_success_witness:
  "let (rs, rf) = refresh_run 10 [(1, Inl (), Some 5), (2, Inr 7, Some 6), (3, Inr 8, Some 7), (20, Inr 9, Some 8)] refresher_new
   in rs = [Inl (), Inr 7, Inr 9] \<and> bc_inner (rf_cache rf) = 9 \<and> bc_refresh_errors (rf_cache rf) = 1"
proof -
  let ?es = "[(1, Inl (), Some 5), (2, Inr 7, Some 6), (3, Inr 8, Some 7), (20, Inr 9, Some 8)] :: (instant \<times> (unit + hash) \<times> nat option) list"
  have "fst (refresh_run 10 ?es refresher_new) = [Inl (), Inr 7, Inr 9]"
    by (simp add: refresh_turn_def refresher_new_def Let_def)
  moreover have "\<forall>e \<in> set ?es. wall_ok (snd (snd e))" by (simp add: wall_ok_def)
  ultimately show ?thesis using blockhash_cache_last_success [of ?es 10]
    by (auto simp: Let_def split: prod.splits)
qed

end
