(* ===== verification/RoundRobin.thy ===== *)
theory RoundRobin
  imports Config
begin

text \<open>
  Round-robin choice: the interface of everything that steps a cursor over a fixed list, and its
  first provider, the tip account rotator
  (\<open>crates/tick-trigger-fan-out-bench/src/tip_accounts.rs\<close>).
\<close>

section \<open>The interface\<close>

locale round_robin =
  fixes pick :: "'s \<Rightarrow> 'a option \<times> 's"
    and items :: "'s \<Rightarrow> 'a list"
    and cursor :: "'s \<Rightarrow> nat"
  assumes pick_empty: "items s = [] \<Longrightarrow> fst (pick s) = None"
    and pick_item: "items s \<noteq> [] \<Longrightarrow> fst (pick s) = Some (items s ! (cursor s mod length (items s)))"
    and items_pick: "items (snd (pick s)) = items s"
    and cursor_pick: "items s \<noteq> [] \<Longrightarrow> Suc (cursor s) < 2 ^ 64 \<Longrightarrow> cursor (snd (pick s)) = Suc (cursor s)"
begin

fun picks :: "nat \<Rightarrow> 's \<Rightarrow> 'a option list" where
  "picks 0 s = []"
| "picks (Suc n) s = fst (pick s) # picks n (snd (pick s))"

lemma picks_nth: "items s \<noteq> [] \<Longrightarrow> cursor s + n < 2 ^ 64 \<Longrightarrow>
    picks n s = map (\<lambda>i. Some (items s ! ((cursor s + i) mod length (items s)))) [0..<n]"
proof (induction n arbitrary: s)
  case (Suc n)
  have c: "cursor (snd (pick s)) = Suc (cursor s)" using cursor_pick Suc.prems by simp
  have "picks n (snd (pick s)) = map (\<lambda>i. Some (items s ! ((Suc (cursor s) + i) mod length (items s)))) [0..<n]"
    using Suc.IH [of "snd (pick s)"] Suc.prems by (simp add: items_pick c)
  also have "\<dots> = map (\<lambda>i. Some (items s ! ((cursor s + i) mod length (items s)))) [Suc 0..<Suc n]"
    by (rule nth_equalityI) (simp_all del: upt_Suc)
  finally have "picks (Suc n) s = map (\<lambda>i. Some (items s ! ((cursor s + i) mod length (items s)))) (0 # [Suc 0..<Suc n])"
    using Suc.prems by (simp add: pick_item)
  then show ?case by (simp only: upt_conv_Cons [of 0 "Suc n", OF zero_less_Suc])
qed simp

text \<open>As many picks as there are items give every item as often as the list holds it.\<close>

lemma picks_window:
  assumes "items s \<noteq> []" "cursor s + length (items s) < 2 ^ 64"
  shows "set (picks (length (items s)) s) = Some ` set (items s)"
proof -
  let ?n = "length (items s)"
  have n: "0 < ?n" using assms(1) by simp
  have "set (picks ?n s) = (\<lambda>j. Some (items s ! j)) ` ((\<lambda>i. (cursor s + i) mod ?n) ` {0..<?n})"
    by (simp add: picks_nth [OF assms] image_image)
  also have "(\<lambda>i. (cursor s + i) mod ?n) ` {0..<?n} = (\<lambda>i. (cursor s mod ?n + i) mod ?n) ` {0..<?n}"
    by (simp add: mod_simps)
  also have "\<dots> = {0..<?n}"
    using cyclic_range [of "cursor s mod ?n" ?n] n by simp
  also have "(\<lambda>j. Some (items s ! j)) ` {0..<?n} = Some ` set (items s)"
    using arg_cong [OF nth_image [of ?n "items s"], of "image Some"] by (simp add: image_image)
  finally show ?thesis .
qed

end

section \<open>The tip account rotator\<close>

text \<open>The hard-coded account lists and their base-58 reading are parameters.\<close>

definition tip_accounts_for :: "pubkey list \<Rightarrow> pubkey list \<Rightarrow> sender_kind \<Rightarrow> pubkey list" where
  "tip_accounts_for helius_tip_accounts jito_tip_accounts kind = (case kind of
     Helius \<Rightarrow> helius_tip_accounts
   | Jito \<Rightarrow> jito_tip_accounts
   | Triton \<Rightarrow> [])"

record tip_rotator =
  ro_accounts :: "pubkey list"
  ro_cursor :: u64

definition rotator_new :: "pubkey list \<Rightarrow> tip_rotator" where
  "rotator_new accounts = \<lparr>ro_accounts = accounts, ro_cursor = 0\<rparr>"

definition rotator_next :: "tip_rotator \<Rightarrow> pubkey option \<times> tip_rotator" where
  "rotator_next r =
     (if ro_accounts r = [] then (None, r)
      else (Some (ro_accounts r ! (unat (ro_cursor r) mod length (ro_accounts r))),
            r\<lparr>ro_cursor := ro_cursor r + 1\<rparr>))"

lemma unat_Suc_cursor: "Suc (unat c) < 2 ^ 64 \<Longrightarrow> unat (c + 1) = Suc (unat c)" for c :: u64
  by (simp add: unat_word_ariths)

interpretation tips: round_robin rotator_next ro_accounts "\<lambda>r. unat (ro_cursor r)"
  by unfold_locales (simp_all add: rotator_next_def unat_Suc_cursor)

lemma rotator_accounts [simp]: "ro_accounts (snd (rotator_next r)) = ro_accounts r"
  by (rule tips.items_pick)

lemma rotator_member: "fst (rotator_next r) = Some a \<Longrightarrow> a \<in> set (ro_accounts r)"
  by (auto simp: rotator_next_def split: if_splits)

end
