(* ===== verification/Preparer.thy ===== *)
theory Preparer
  imports TxPool RoundRobin Schedule NonceManager TriggerEngine "HOL-Library.Multiset"
begin

text \<open>
  The preparer (\<open>crates/tick-trigger-fan-out-bench/src/preparer.rs\<close>): it signs, ahead of time, one
  transaction per enabled sender for every schedule entry.  One turn of its loop is one step on
  the state it shares with the dispatcher (the pool) and the nonce poller (the manager).  The
  values it loads from elsewhere in a turn (clocks, the current slot, the live tips) are in a
  record of readings; the library shuffle is a parameter.
\<close>

record preparer_counters =
  pn_triggers_prepared :: u64
  pn_variants_signed :: u64
  pn_signing_errors :: u64
  pn_blockhash_not_ready :: u64
  pn_pool_evictions :: u64
  pn_nonce_stall :: u64
  pn_entries_past_slot :: u64

definition preparer_counters_new :: preparer_counters where
  "preparer_counters_new =
     \<lparr>pn_triggers_prepared = 0, pn_variants_signed = 0, pn_signing_errors = 0,
      pn_blockhash_not_ready = 0, pn_pool_evictions = 0, pn_nonce_stall = 0,
      pn_entries_past_slot = 0\<rparr>"

record preparer_cfg =
  pf_keypair :: keypair
  pf_tx_cfg :: tx_config
  pf_shuffle_seed :: u64
  pf_shuffle :: "u64 \<Rightarrow> pre_signed_tx list \<Rightarrow> pre_signed_tx list"

record sender_slot =
  sl_config :: sender_config
  sl_tip_rotator :: tip_rotator

record preparer =
  pr_senders :: "sender_slot list"
  pr_rx :: "schedule_entry list"
  pr_pending :: "schedule_entry option"
  pr_last_evict :: instant
  pr_pool :: tx_pool
  pr_nonce_manager :: "nonce_manager option"
  pr_blockhash_cache :: blockhash_cache
  pr_counters :: preparer_counters

text \<open>What one turn reads: the current slot, the clock at the preparation and at the lease, the
  live tip of each Jito sender, and at the eviction check the clock (twice) and the slot again.\<close>

record readings =
  rd_current_slot :: u64
  rd_prepared_at :: instant
  rd_lease_at :: instant
  rd_tips :: "u8 \<Rightarrow> u64 option"
  rd_elapsed_at :: instant
  rd_evict_at :: instant
  rd_evict_slot :: u64

section \<open>Start\<close>

definition sender_slots :: "(sender_kind \<Rightarrow> pubkey list) \<Rightarrow> sender_config list \<Rightarrow> sender_slot list" where
  "sender_slots tips senders =
     map (\<lambda>s. \<lparr>sl_config = s, sl_tip_rotator = rotator_new (tips (sd_kind s))\<rparr>) (filter sd_enabled senders)"

text \<open>Without an enabled sender the thread ends at once.\<close>

definition preparer_new ::
    "(sender_kind \<Rightarrow> pubkey list) \<Rightarrow> sender_config list \<Rightarrow> schedule_entry list \<Rightarrow> instant \<Rightarrow>
     nonce_manager option \<Rightarrow> blockhash_cache \<Rightarrow> preparer option" where
  "preparer_new tips senders rx now manager cache =
     (let slots = sender_slots tips senders in
      if slots = [] then None
      else Some \<lparr>pr_senders = slots, pr_rx = rx, pr_pending = None, pr_last_evict = now,
                 pr_pool = [], pr_nonce_manager = manager, pr_blockhash_cache = cache,
                 pr_counters = preparer_counters_new\<rparr>)"

section \<open>Signing\<close>

record lease =
  le_blockhash :: hash
  le_nonce_params :: "nonce_params option"
  le_nonce_id :: "nonce_id option"

definition sign_variant ::
    "preparer_cfg \<Rightarrow> readings \<Rightarrow> lease \<Rightarrow> u64 \<Rightarrow> sender_slot \<Rightarrow> pre_signed_tx option \<times> sender_slot" where
  "sign_variant cfg rd le trigger_id slot =
     (let sc = sl_config slot;
          is_jito = (sd_kind sc = Jito);
          (tip_account, rot) = (if sd_tip_lamports sc > 0 \<or> is_jito
             then rotator_next (sl_tip_rotator slot) else (None, sl_tip_rotator slot));
          effective = (if is_jito
             then (case rd_tips rd (sd_id sc) of
                     None \<Rightarrow> None
                   | Some lamports \<Rightarrow> (case tip_account of
                       None \<Rightarrow> None
                     | Some pk \<Rightarrow> Some (lamports, Some pk)))
             else Some (sd_tip_lamports sc, tip_account))
      in (case effective of
            None \<Rightarrow> None
          | Some (lamports, account) \<Rightarrow>
              let built = build \<lparr>bp_payer = pf_keypair cfg, bp_blockhash = le_blockhash le,
                    bp_sender_id = sd_id sc, bp_trigger_id = trigger_id, bp_tip_account = account,
                    bp_tip_lamports = lamports, bp_nonce = le_nonce_params le,
                    bp_tx_cfg = pf_tx_cfg cfg, bp_fund_tipper = None\<rparr>
              in Some \<lparr>pt_sender_id = sd_id sc, pt_tx = built, pt_signature = tr_signature built,
                       pt_blockhash = le_blockhash le, pt_prepared_at = rd_prepared_at rd,
                       pt_nonce_id = le_nonce_id le,
                       pt_bundle_metadata = (if is_jito
                         then Some \<lparr>bm_tip_account = the account, bm_tip_lamports = lamports\<rparr> else None)\<rparr>,
          slot\<lparr>sl_tip_rotator := rot\<rparr>))"

fun sign_all ::
    "preparer_cfg \<Rightarrow> readings \<Rightarrow> lease \<Rightarrow> u64 \<Rightarrow> sender_slot list \<Rightarrow> preparer_counters \<Rightarrow>
     pre_signed_tx list \<times> sender_slot list \<times> preparer_counters" where
  "sign_all cfg rd le trigger_id [] c = ([], [], c)"
| "sign_all cfg rd le trigger_id (slot # slots) c =
     (case sign_variant cfg rd le trigger_id slot of
        (None, slot') \<Rightarrow>
          (let (vs, ss, c') = sign_all cfg rd le trigger_id slots
                 (c\<lparr>pn_signing_errors := pn_signing_errors c + 1\<rparr>)
           in (vs, slot' # ss, c'))
      | (Some v, slot') \<Rightarrow>
          (let (vs, ss, c') = sign_all cfg rd le trigger_id slots
                 (c\<lparr>pn_variants_signed := pn_variants_signed c + 1\<rparr>)
           in (v # vs, slot' # ss, c')))"

definition perm_seed :: "u64 \<Rightarrow> schedule_entry \<Rightarrow> u64" where
  "perm_seed shuffle_seed e =
     xor (xor (shuffle_seed * 0x9E3779B97F4A7C15) (push_bit 8 (se_slot e))) (ucast (se_tick e))"

definition maybe_evict :: "readings \<Rightarrow> preparer \<Rightarrow> preparer" where
  "maybe_evict rd pr =
     (if since (rd_elapsed_at rd) (pr_last_evict pr) < 500000000 then pr
      else let pr1 = pr\<lparr>pr_last_evict := rd_evict_at rd\<rparr>; current = rd_evict_slot rd in
        if current = 0 then pr1
        else let cutoff = sat_sub current 4;
                 before = pool_len (pr_pool pr1);
                 pool = pool_evict_below cutoff (pr_pool pr1);
                 after = pool_len pool;
                 c = pr_counters pr1
             in pr1\<lparr>pr_pool := pool, pr_counters := (if before > after
                   then c\<lparr>pn_pool_evictions := pn_pool_evictions c + of_nat (before - after)\<rparr> else c)\<rparr>)"

section \<open>One turn\<close>

text \<open>The blockhash of the trigger: a leased nonce, or the cached blockhash; \<open>None\<close> is a stall.\<close>

definition take_lease :: "preparer_cfg \<Rightarrow> readings \<Rightarrow> preparer \<Rightarrow> lease option \<times> preparer" where
  "take_lease cfg rd pr = (case pr_nonce_manager pr of
     Some mgr \<Rightarrow>
       (case take_ready (rd_lease_at rd) mgr of
          (Some (i, nonce_pubkey, nonce_blockhash), mgr') \<Rightarrow>
            (Some \<lparr>le_blockhash = nonce_blockhash,
                   le_nonce_params = Some \<lparr>np_nonce_pubkey = nonce_pubkey, np_authority = kp_pubkey (pf_keypair cfg)\<rparr>,
                   le_nonce_id = Some i\<rparr>,
             pr\<lparr>pr_nonce_manager := Some mgr'\<rparr>)
        | (None, mgr') \<Rightarrow>
            (None, pr\<lparr>pr_nonce_manager := Some mgr',
                      pr_counters := (pr_counters pr)\<lparr>pn_nonce_stall := pn_nonce_stall (pr_counters pr) + 1\<rparr>\<rparr>))
   | None \<Rightarrow>
       if cache_is_empty (pr_blockhash_cache pr)
       then (None, pr\<lparr>pr_counters := (pr_counters pr)\<lparr>pn_blockhash_not_ready := pn_blockhash_not_ready (pr_counters pr) + 1\<rparr>\<rparr>)
       else (Some \<lparr>le_blockhash = bc_inner (pr_blockhash_cache pr), le_nonce_params = None, le_nonce_id = None\<rparr>, pr))"

definition is_past :: "u64 \<Rightarrow> schedule_entry \<Rightarrow> bool" where
  "is_past current e \<longleftrightarrow> current > 0 \<and> se_slot e + 1 < current"

definition prepare_signed :: "preparer_cfg \<Rightarrow> readings \<Rightarrow> schedule_entry \<Rightarrow> lease \<Rightarrow> preparer \<Rightarrow> preparer" where
  "prepare_signed cfg rd e le pr =
     (let (variants, slots, c) = sign_all cfg rd le (from_slot_tick (se_slot e) (se_tick e)) (pr_senders pr) (pr_counters pr)
      in maybe_evict rd (pr\<lparr>pr_senders := slots,
           pr_pool := pool_insert_all (se_slot e, se_tick e)
             (pf_shuffle cfg (perm_seed (pf_shuffle_seed cfg) e) variants) (pr_pool pr),
           pr_counters := c\<lparr>pn_triggers_prepared := pn_triggers_prepared c + 1\<rparr>\<rparr>))"

definition prepare_entry :: "preparer_cfg \<Rightarrow> readings \<Rightarrow> schedule_entry \<Rightarrow> preparer \<Rightarrow> preparer" where
  "prepare_entry cfg rd e pr =
     (if is_past (rd_current_slot rd) e
      then pr\<lparr>pr_counters := (pr_counters pr)\<lparr>pn_entries_past_slot := pn_entries_past_slot (pr_counters pr) + 1\<rparr>\<rparr>
      else (case take_lease cfg rd pr of
              (None, pr1) \<Rightarrow> pr1\<lparr>pr_pending := Some e\<rparr>
            | (Some le, pr1) \<Rightarrow> prepare_signed cfg rd e le pr1))"

text \<open>A turn retries the entry it kept, or receives the next one, or times out.\<close>

definition preparer_turn :: "preparer_cfg \<Rightarrow> readings \<Rightarrow> preparer \<Rightarrow> preparer" where
  "preparer_turn cfg rd pr = (case pr_pending pr of
     Some e \<Rightarrow> prepare_entry cfg rd e (pr\<lparr>pr_pending := None\<rparr>)
   | None \<Rightarrow> (case pr_rx pr of
       [] \<Rightarrow> maybe_evict rd pr
     | e # rx \<Rightarrow> prepare_entry cfg rd e (pr\<lparr>pr_rx := rx\<rparr>)))"

text \<open>Between two turns the other threads act: entries arrive, the dispatcher takes from the pool,
  the manager and the cache change.\<close>

datatype preparer_event =
    PTurn readings
  | PArrive schedule_entry
  | PPoolTake "u64 \<times> u8"
  | PNonces "nonce_manager option"
  | PBlockhash blockhash_cache

fun preparer_step :: "preparer_cfg \<Rightarrow> preparer_event \<Rightarrow> preparer \<Rightarrow> preparer" where
  "preparer_step cfg (PTurn rd) pr = preparer_turn cfg rd pr"
| "preparer_step cfg (PArrive e) pr = pr\<lparr>pr_rx := pr_rx pr @ [e]\<rparr>"
| "preparer_step cfg (PPoolTake k) pr = pr\<lparr>pr_pool := snd (pool_take k (pr_pool pr))\<rparr>"
| "preparer_step cfg (PNonces m) pr = pr\<lparr>pr_nonce_manager := m\<rparr>"
| "preparer_step cfg (PBlockhash c) pr = pr\<lparr>pr_blockhash_cache := c\<rparr>"

definition preparer_run :: "preparer_cfg \<Rightarrow> preparer_event list \<Rightarrow> preparer \<Rightarrow> preparer" where
  "preparer_run cfg es pr = fold (preparer_step cfg) es pr"

section \<open>Frames\<close>

lemma maybe_evict_frame [frame]:
  "pr_senders (maybe_evict rd pr) = pr_senders pr" "pr_rx (maybe_evict rd pr) = pr_rx pr"
  "pr_pending (maybe_evict rd pr) = pr_pending pr"
  "pr_nonce_manager (maybe_evict rd pr) = pr_nonce_manager pr"
  "pn_triggers_prepared (pr_counters (maybe_evict rd pr)) = pn_triggers_prepared (pr_counters pr)"
  "pn_variants_signed (pr_counters (maybe_evict rd pr)) = pn_variants_signed (pr_counters pr)"
  "pn_signing_errors (pr_counters (maybe_evict rd pr)) = pn_signing_errors (pr_counters pr)"
  "pn_entries_past_slot (pr_counters (maybe_evict rd pr)) = pn_entries_past_slot (pr_counters pr)"
  by (simp_all add: maybe_evict_def Let_def)

lemma take_lease_frame [frame]:
  "pr_senders (snd (take_lease cfg rd pr)) = pr_senders pr"
  "pr_rx (snd (take_lease cfg rd pr)) = pr_rx pr"
  "pr_pool (snd (take_lease cfg rd pr)) = pr_pool pr"
  "pr_last_evict (snd (take_lease cfg rd pr)) = pr_last_evict pr"
  "pr_pending (snd (take_lease cfg rd pr)) = pr_pending pr"
  "pn_triggers_prepared (pr_counters (snd (take_lease cfg rd pr))) = pn_triggers_prepared (pr_counters pr)"
  "pn_variants_signed (pr_counters (snd (take_lease cfg rd pr))) = pn_variants_signed (pr_counters pr)"
  "pn_signing_errors (pr_counters (snd (take_lease cfg rd pr))) = pn_signing_errors (pr_counters pr)"
  "pn_entries_past_slot (pr_counters (snd (take_lease cfg rd pr))) = pn_entries_past_slot (pr_counters pr)"
  by (auto simp: take_lease_def split: option.splits prod.splits)

text \<open>The counters of one signing round, and who signs.\<close>

lemma sign_all_counts:
  "sign_all cfg rd le tid slots c = (vs, slots', c') \<Longrightarrow>
     pn_variants_signed c' = pn_variants_signed c + of_nat (length vs)
   \<and> pn_variants_signed c' + pn_signing_errors c' = pn_variants_signed c + pn_signing_errors c + of_nat (length slots)
   \<and> pn_triggers_prepared c' = pn_triggers_prepared c \<and> pn_entries_past_slot c' = pn_entries_past_slot c
   \<and> map sl_config slots' = map sl_config slots"
proof (induction cfg rd le tid slots c arbitrary: vs slots' c' rule: sign_all.induct)
  case (2 cfg rd le tid slot slots c)
  obtain v slot1 where v: "sign_variant cfg rd le tid slot = (v, slot1)" by fastforce
  have cfg1: "sl_config slot1 = sl_config slot"
    using v by (auto simp: sign_variant_def Let_def split: prod.splits)
  show ?case
  proof (cases v)
    case None
    with 2(1) [OF v [symmetric] None] 2(3) v cfg1 show ?thesis
      by (auto simp: Let_def algebra_simps split: prod.splits)
  next
    case (Some w)
    with 2(2) [OF v [symmetric] Some] 2(3) v cfg1 show ?thesis
      by (auto simp: Let_def algebra_simps split: prod.splits)
  qed
qed simp

section \<open>No entry is lost\<close>

definition in_hand :: "preparer \<Rightarrow> schedule_entry list" where
  "in_hand pr = (case pr_pending pr of None \<Rightarrow> [] | Some e \<Rightarrow> [e]) @ pr_rx pr"

definition accounted :: "preparer \<Rightarrow> u64" where
  "accounted pr = pn_triggers_prepared (pr_counters pr) + pn_entries_past_slot (pr_counters pr)"

definition signing_balance :: "preparer \<Rightarrow> u64" where
  "signing_balance pr = pn_variants_signed (pr_counters pr) + pn_signing_errors (pr_counters pr)
     - of_nat (length (pr_senders pr)) * pn_triggers_prepared (pr_counters pr)"

fun arrivals_of :: "preparer_event list \<Rightarrow> schedule_entry list" where
  "arrivals_of [] = []"
| "arrivals_of (PArrive e # es) = e # arrivals_of es"
| "arrivals_of (_ # es) = arrivals_of es"

lemma balance_step: "a = b + n \<Longrightarrow> a - n * (t + 1) = b - n * t" for a :: "'a::comm_ring_1"
  by (simp add: algebra_simps)

lemma prepare_entry_inv:
  assumes "pr_pending pr = None"
  shows "\<exists>handled. [e] = handled @ (case pr_pending (prepare_entry cfg rd e pr) of None \<Rightarrow> [] | Some e \<Rightarrow> [e])
    \<and> pr_rx (prepare_entry cfg rd e pr) = pr_rx pr
    \<and> accounted (prepare_entry cfg rd e pr) = accounted pr + of_nat (length handled)
    \<and> signing_balance (prepare_entry cfg rd e pr) = signing_balance pr
    \<and> length (pr_senders (prepare_entry cfg rd e pr)) = length (pr_senders pr)"
proof (cases "is_past (rd_current_slot rd) e")
  case True
  with assms show ?thesis
    by (intro exI [of _ "[e]"]) (simp add: prepare_entry_def accounted_def signing_balance_def)
next
  case False
  obtain le pr1 where t: "take_lease cfg rd pr = (le, pr1)" by fastforce
  note f = take_lease_frame [of cfg rd pr, unfolded t snd_conv]
  show ?thesis
  proof (cases le)
    case None
    with False t f show ?thesis
      by (intro exI [of _ "[]"]) (simp add: prepare_entry_def accounted_def signing_balance_def)
  next
    case (Some l)
    obtain vs slots c where s: "sign_all cfg rd l (from_slot_tick (se_slot e) (se_tick e)) (pr_senders pr1) (pr_counters pr1) = (vs, slots, c)"
      by (metis prod.exhaust)
    note cnt = sign_all_counts [OF s]
    have len: "length slots = length (pr_senders pr1)" using cnt by (metis length_map)
    have sum: "pn_variants_signed c + pn_signing_errors c = pn_variants_signed (pr_counters pr)
        + pn_signing_errors (pr_counters pr) + of_nat (length (pr_senders pr))"
      using cnt [THEN conjunct2, THEN conjunct1] by (simp only: f)
    have prep: "pn_triggers_prepared c = pn_triggers_prepared (pr_counters pr)"
      using cnt by (simp only: f)
    have p: "prepare_entry cfg rd e pr = prepare_signed cfg rd e l pr1"
      using False t Some by (simp add: prepare_entry_def)
    have "pr_pending (prepare_signed cfg rd e l pr1) = None"
      "pr_rx (prepare_signed cfg rd e l pr1) = pr_rx pr"
      "length (pr_senders (prepare_signed cfg rd e l pr1)) = length (pr_senders pr)"
      "accounted (prepare_signed cfg rd e l pr1) = accounted pr + 1"
      by (simp_all only: prepare_signed_def s Let_def prod.case)
        (simp_all add: frame f len cnt assms accounted_def)
    moreover have "signing_balance (prepare_signed cfg rd e l pr1) = signing_balance pr"
    proof -
      have "signing_balance (prepare_signed cfg rd e l pr1) = pn_variants_signed c + pn_signing_errors c
          - of_nat (length (pr_senders pr)) * (pn_triggers_prepared (pr_counters pr) + 1)"
        by (simp only: prepare_signed_def s Let_def prod.case signing_balance_def) (simp add: frame f len prep)
      then show ?thesis by (simp only: balance_step [OF sum] signing_balance_def)
    qed
    ultimately show ?thesis unfolding p by (intro exI [of _ "[e]"]) simp
  qed
qed

lemma preparer_turn_inv:
  "\<exists>handled. in_hand pr = handled @ in_hand (preparer_turn cfg rd pr)
    \<and> accounted (preparer_turn cfg rd pr) = accounted pr + of_nat (length handled)
    \<and> signing_balance (preparer_turn cfg rd pr) = signing_balance pr
    \<and> length (pr_senders (preparer_turn cfg rd pr)) = length (pr_senders pr)"
proof (cases "pr_pending pr")
  case (Some e)
  then show ?thesis
    using prepare_entry_inv [of "pr\<lparr>pr_pending := None\<rparr>" e cfg rd]
    by (fastforce simp: preparer_turn_def in_hand_def accounted_def signing_balance_def)
next
  case None
  show ?thesis
  proof (cases "pr_rx pr")
    case Nil
    with None show ?thesis
      by (intro exI [of _ "[]"]) (simp add: preparer_turn_def in_hand_def accounted_def signing_balance_def frame)
  next
    case (Cons e rx)
    with None show ?thesis
      using prepare_entry_inv [of "pr\<lparr>pr_rx := rx\<rparr>" e cfg rd]
      by (fastforce simp: preparer_turn_def in_hand_def accounted_def signing_balance_def)
  qed
qed

text \<open>
  C9. No schedule entry is lost: at any moment of any run the entries that came in are, in order,
  those that were prepared or dropped as past, the one waiting for a nonce or a blockhash, and
  those still in the channel; and every prepared trigger accounts for one signature or one signing
  error per enabled sender.
\<close>

theorem preparer_accounting:
  "\<exists>handled. in_hand pr @ arrivals_of es = handled @ in_hand (preparer_run cfg es pr)
    \<and> accounted (preparer_run cfg es pr) = accounted pr + of_nat (length handled)
    \<and> signing_balance (preparer_run cfg es pr) = signing_balance pr"
proof (induction es arbitrary: pr)
  case (Cons ev es)
  have "\<exists>handled. in_hand pr @ arrivals_of [ev] = handled @ in_hand (preparer_step cfg ev pr)
    \<and> accounted (preparer_step cfg ev pr) = accounted pr + of_nat (length handled)
    \<and> signing_balance (preparer_step cfg ev pr) = signing_balance pr"
  proof (cases ev)
    case (PTurn rd)
    then show ?thesis using preparer_turn_inv [of pr cfg rd] by auto
  qed (auto simp: in_hand_def accounted_def signing_balance_def)
  then obtain h where h: "in_hand pr @ arrivals_of [ev] = h @ in_hand (preparer_step cfg ev pr)"
    "accounted (preparer_step cfg ev pr) = accounted pr + of_nat (length h)"
    "signing_balance (preparer_step cfg ev pr) = signing_balance pr" by blast
  from Cons.IH [of "preparer_step cfg ev pr"] obtain h' where
    h': "in_hand (preparer_step cfg ev pr) @ arrivals_of es = h' @ in_hand (preparer_run cfg (ev # es) pr)"
    "accounted (preparer_run cfg (ev # es) pr) = accounted (preparer_step cfg ev pr) + of_nat (length h')"
    "signing_balance (preparer_run cfg (ev # es) pr) = signing_balance (preparer_step cfg ev pr)"
    by (auto simp: preparer_run_def)
  have "arrivals_of (ev # es) = arrivals_of [ev] @ arrivals_of es" by (cases ev) simp_all
  then have "in_hand pr @ arrivals_of (ev # es) = (in_hand pr @ arrivals_of [ev]) @ arrivals_of es" by simp
  also have "\<dots> = (h @ h') @ in_hand (preparer_run cfg (ev # es) pr)" using h(1) h'(1) by simp
  finally show ?case using h h' by (intro exI [of _ "h @ h'"]) simp
qed (simp add: preparer_run_def)

section \<open>What is signed\<close>

definition can_sign :: "readings \<Rightarrow> sender_slot \<Rightarrow> bool" where
  "can_sign rd slot \<longleftrightarrow> sd_kind (sl_config slot) \<noteq> Jito
     \<or> (rd_tips rd (sd_id (sl_config slot)) \<noteq> None \<and> ro_accounts (sl_tip_rotator slot) \<noteq> [])"

definition variant_ok :: "preparer_cfg \<Rightarrow> lease \<Rightarrow> u64 \<Rightarrow> pre_signed_tx \<Rightarrow> bool" where
  "variant_ok cfg le trigger_id v \<longleftrightarrow>
     map_option memo_read (memo_of (ms_instructions (tr_message (pt_tx v)))) = Some (pt_sender_id v, trigger_id)
     \<and> ms_recent_blockhash (tr_message (pt_tx v)) = le_blockhash le
     \<and> is_nonced (pt_tx v) = (le_nonce_params le \<noteq> None)
     \<and> pt_signature v = kp_sign (pf_keypair cfg) (tr_message (pt_tx v))
     \<and> pt_blockhash v = le_blockhash le \<and> pt_nonce_id v = le_nonce_id le"

lemma fst_rotator_next: "fst (rotator_next r) = None \<longleftrightarrow> ro_accounts r = []"
  by (simp add: rotator_next_def)

lemma sign_variant_spec:
  "sign_variant cfg rd le tid slot = (v, slot') \<Longrightarrow> (v = None \<longleftrightarrow> \<not> can_sign rd slot)
    \<and> (\<forall>w. v = Some w \<longrightarrow> pt_sender_id w = sd_id (sl_config slot) \<and> variant_ok cfg le tid w)"
  using fst_rotator_next [of "sl_tip_rotator slot"]
  by (auto simp: sign_variant_def can_sign_def variant_ok_def build_fields memo_of_build memo_read_payload
      build_nonced Let_def split: prod.splits option.splits if_splits)

lemma sign_all_spec:
  "sign_all cfg rd le tid slots c = (vs, slots', c') \<Longrightarrow>
     map pt_sender_id vs = map (sd_id \<circ> sl_config) (filter (can_sign rd) slots)
     \<and> list_all (variant_ok cfg le tid) vs"
proof (induction cfg rd le tid slots c arbitrary: vs slots' c' rule: sign_all.induct)
  case (2 cfg rd le tid slot slots c)
  obtain v slot1 where v: "sign_variant cfg rd le tid slot = (v, slot1)" by fastforce
  note spec = sign_variant_spec [OF v]
  show ?case
  proof (cases v)
    case None
    with 2(1) [OF v [symmetric] None] 2(3) v spec show ?thesis by (auto simp: Let_def split: prod.splits)
  next
    case (Some w)
    with 2(2) [OF v [symmetric] Some] 2(3) v spec show ?thesis by (auto simp: Let_def split: prod.splits)
  qed
qed simp

definition kept :: "readings \<Rightarrow> instant \<Rightarrow> u64 \<Rightarrow> bool" where
  "kept rd last_evict slot \<longleftrightarrow> since (rd_elapsed_at rd) last_evict < 500000000
     \<or> rd_evict_slot rd = 0 \<or> sat_sub (rd_evict_slot rd) 4 \<le> slot"

lemma maybe_evict_get: "hm_ok (pr_pool pr) \<Longrightarrow> hm_get (pr_pool (maybe_evict rd pr)) k =
    (if kept rd (pr_last_evict pr) (fst k) then hm_get (pr_pool pr) k else None)"
  by (auto simp: maybe_evict_def kept_def Let_def pool_get_evict)

lemma maybe_evict_ok: "hm_ok (pr_pool pr) \<Longrightarrow> hm_ok (pr_pool (maybe_evict rd pr))"
  by (simp add: maybe_evict_def Let_def pool.evict_ok)

text \<open>
  C10. A turn that finds a lease puts into the pool, under the slot and tick of its entry, one signed
  transaction for every enabled sender that can sign (a Jito sender needs a live tip and a tip
  account), in some order: each attributable to its sender and this trigger, carrying the leased
  hash, advancing the nonce exactly in nonce mode, with the signature the matcher will look for.
  It stays there unless the eviction of the same turn already found the slot more than four behind.
\<close>

theorem preparer_signs_each_sender:
  assumes shuffle: "\<And>s vs. mset (pf_shuffle cfg s vs) = mset vs"
    and pool: "hm_ok (pr_pool pr)"
    and entry: "pr_pending pr = None" "pr_rx pr = e # rx" "\<not> is_past (rd_current_slot rd) e"
    and le: "fst (take_lease cfg rd (pr\<lparr>pr_rx := rx\<rparr>)) = Some le"
  shows "\<exists>vs. hm_get (pr_pool (preparer_turn cfg rd pr)) (se_slot e, se_tick e) =
       (if kept rd (pr_last_evict pr) (se_slot e) then Some vs else None)
     \<and> mset (map pt_sender_id vs) = mset (map (sd_id \<circ> sl_config) (filter (can_sign rd) (pr_senders pr)))
     \<and> (\<forall>v \<in> set vs. variant_ok cfg le (from_slot_tick (se_slot e) (se_tick e)) v)"
proof -
  let ?tid = "from_slot_tick (se_slot e) (se_tick e)"
  obtain pr1 where t: "take_lease cfg rd (pr\<lparr>pr_rx := rx\<rparr>) = (Some le, pr1)"
    using le by (metis fst_conv surj_pair)
  note f = take_lease_frame [of cfg rd "pr\<lparr>pr_rx := rx\<rparr>", unfolded t snd_conv]
  obtain vs slots c where s: "sign_all cfg rd le ?tid (pr_senders pr) (pr_counters pr1) = (vs, slots, c)"
    by (metis prod.exhaust)
  let ?vs = "pf_shuffle cfg (perm_seed (pf_shuffle_seed cfg) e) vs"
  have "preparer_turn cfg rd pr = prepare_signed cfg rd e le pr1"
    using entry t by (simp add: preparer_turn_def prepare_entry_def)
  then have "hm_get (pr_pool (preparer_turn cfg rd pr)) (se_slot e, se_tick e) =
      (if kept rd (pr_last_evict pr) (se_slot e) then Some ?vs else None)"
    using pool f s by (simp add: prepare_signed_def maybe_evict_get pool.put_ok pool.look_put)
  moreover have "mset (map pt_sender_id ?vs) = mset (map (sd_id \<circ> sl_config) (filter (can_sign rd) (pr_senders pr)))"
    using shuffle sign_all_spec [OF s] by (metis mset_map)
  moreover have "\<forall>v \<in> set ?vs. variant_ok cfg le ?tid v"
    using sign_all_spec [OF s] mset_eq_setD [OF shuffle] by (auto simp: list_all_iff)
  ultimately show ?thesis by blast
qed

definition demo_cfg :: preparer_cfg where
  "demo_cfg = \<lparr>pf_keypair = demo_key 1, pf_tx_cfg = tx_config_resolve None None None,
     pf_shuffle_seed = 5, pf_shuffle = (\<lambda>s vs. vs)\<rparr>"

definition demo_readings :: readings where
  "demo_readings = \<lparr>rd_current_slot = 0, rd_prepared_at = 3, rd_lease_at = 4, rd_tips = (\<lambda>i. None),
     rd_elapsed_at = 5, rd_evict_at = 5, rd_evict_slot = 0\<rparr>"

definition demo_preparer :: preparer where
  "demo_preparer = \<lparr>pr_senders = sender_slots (\<lambda>k. [8, 9])
       [sender_config_min 3 ''a'' Triton ''u'', sender_config_min 4 ''b'' Jito ''u''],
     pr_rx = [\<lparr>se_slot = 100, se_tick = 7\<rparr>], pr_pending = None, pr_last_evict = 0, pr_pool = [],
     pr_nonce_manager = None,
     pr_blockhash_cache = \<lparr>bc_inner = 77, bc_last_refresh_ns = 1, bc_refresh_errors = 0\<rparr>,
     pr_counters = preparer_counters_new\<rparr>"

theorem preparer_signs_each_sender_witness:
  "\<exists>vs. hm_get (pr_pool (preparer_turn demo_cfg demo_readings demo_preparer)) (100, 7) = Some vs
     \<and> map pt_sender_id vs = [3]"
proof -
  let ?le = "\<lparr>le_blockhash = 77, le_nonce_params = None, le_nonce_id = None\<rparr>"
  have "fst (take_lease demo_cfg demo_readings (demo_preparer\<lparr>pr_rx := []\<rparr>)) = Some ?le"
    by (simp add: take_lease_def demo_preparer_def cache_is_empty_def)
  moreover have "hm_ok (pr_pool demo_preparer)" "pr_pending demo_preparer = None"
    "pr_rx demo_preparer = [\<lparr>se_slot = 100, se_tick = 7\<rparr>]" "\<And>s vs. mset (pf_shuffle demo_cfg s vs) = mset vs"
    "\<not> is_past (rd_current_slot demo_readings) \<lparr>se_slot = 100, se_tick = 7\<rparr>"
    by (simp_all add: demo_preparer_def demo_cfg_def is_past_def demo_readings_def)
  ultimately have "\<exists>vs. hm_get (pr_pool (preparer_turn demo_cfg demo_readings demo_preparer)) (100, 7) =
       (if kept demo_readings (pr_last_evict demo_preparer) 100 then Some vs else None)
     \<and> mset (map pt_sender_id vs) = mset (map (sd_id \<circ> sl_config) (filter (can_sign demo_readings) (pr_senders demo_preparer)))"
    using preparer_signs_each_sender [of demo_cfg demo_preparer "\<lparr>se_slot = 100, se_tick = 7\<rparr>" "[]" demo_readings ?le]
    by auto
  moreover have "kept demo_readings (pr_last_evict demo_preparer) 100"
    by (simp add: kept_def demo_readings_def)
  moreover have "map (sd_id \<circ> sl_config) (filter (can_sign demo_readings) (pr_senders demo_preparer)) = [3]"
    by (simp add: demo_preparer_def sender_slots_def sender_config_min_def can_sign_def demo_readings_def)
  ultimately show ?thesis by (auto simp flip: mset_map)
qed

end
