(* ===== verification/Senders.thy ===== *)
theory Senders
  imports RoundRobin TxBuilder
begin

text \<open>
  The senders (\<open>crates/tick-trigger-fan-out-bench/src/senders/\<close>): Helius, Jito and Triton behind the
  \<open>TxSender\<close> interface, and the Jito tip updater.  The HTTP client, the JSON decoder, the base-64
  encoding of a transaction and the parsing of a signature are parameters; every clock reading is
  an argument.
\<close>

section \<open>Replies and outcomes\<close>

type_synonym i32 = "32 word"

record send_outcome =
  so_send_at :: instant
  so_send_ack_at :: "instant option"
  so_signature :: signature
  so_http_status :: "u16 option"
  so_rpc_err_code :: "i32 option"
  so_rpc_err_message :: "string option"
  so_provider_request_id :: "string option"
  so_error :: "string option"
  so_endpoint_url_used :: "string option"

record json_rpc_error =
  je_code :: i32
  je_message :: string

record json_rpc_response =
  jr_result :: "string option"
  jr_error :: "json_rpc_error option"

text \<open>What a POST gives: the text of a client error, or a status with the body.\<close>

type_synonym http_reply = "string + (u16 \<times> string)"

definition http_body_error :: "u16 \<Rightarrow> string \<Rightarrow> string" where
  "http_body_error status body = ''HTTP '' @ dec_digits (unat status) @ '' body: '' @ body"

record send_request =
  sq_method :: string
  sq_transaction :: string
  sq_encoding :: string
  sq_skip_preflight :: bool
  sq_preflight_commitment :: "string option"
  sq_max_retries :: u64

section \<open>Helius\<close>

record helius_sender =
  hs_id :: u8
  hs_name :: string
  hs_endpoint :: string

definition helius_request :: "string \<Rightarrow> send_request" where
  "helius_request b64 =
     \<lparr>sq_method = ''sendTransaction'', sq_transaction = b64, sq_encoding = ''base64'',
      sq_skip_preflight = True, sq_preflight_commitment = Some ''processed'', sq_max_retries = 0\<rparr>"

definition helius_outcome ::
    "(string \<Rightarrow> json_rpc_response option) \<Rightarrow> (string \<Rightarrow> signature option) \<Rightarrow> string \<Rightarrow>
     instant \<Rightarrow> instant \<Rightarrow> signature \<Rightarrow> http_reply \<Rightarrow> send_outcome" where
  "helius_outcome from_str parse_sig endpoint send_at ack_at signature result = (case result of
     Inl e \<Rightarrow>
       \<lparr>so_send_at = send_at, so_send_ack_at = None, so_signature = signature, so_http_status = None,
        so_rpc_err_code = None, so_rpc_err_message = None, so_provider_request_id = None,
        so_error = Some (''network: '' @ e), so_endpoint_url_used = Some endpoint\<rparr>
   | Inr (status, body_text) \<Rightarrow> (case from_str body_text of
       Some parsed \<Rightarrow> (case jr_error parsed of
           Some err \<Rightarrow>
             \<lparr>so_send_at = send_at, so_send_ack_at = Some ack_at, so_signature = signature,
              so_http_status = Some status, so_rpc_err_code = Some (je_code err),
              so_rpc_err_message = Some (je_message err), so_provider_request_id = None,
              so_error = Some (je_message err), so_endpoint_url_used = Some endpoint\<rparr>
         | None \<Rightarrow>
             \<lparr>so_send_at = send_at, so_send_ack_at = Some ack_at,
              so_signature = (case Option.bind (jr_result parsed) parse_sig of Some s \<Rightarrow> s | None \<Rightarrow> signature),
              so_http_status = Some status, so_rpc_err_code = None, so_rpc_err_message = None,
              so_provider_request_id = None, so_error = None, so_endpoint_url_used = Some endpoint\<rparr>)
     | None \<Rightarrow>
         \<lparr>so_send_at = send_at, so_send_ack_at = Some ack_at, so_signature = signature,
          so_http_status = Some status, so_rpc_err_code = None,
          so_rpc_err_message = Some (''non-JSONRPC body: '' @ body_text), so_provider_request_id = None,
          so_error = Some (http_body_error status body_text), so_endpoint_url_used = Some endpoint\<rparr>))"

definition helius_send ::
    "(string \<Rightarrow> json_rpc_response option) \<Rightarrow> (string \<Rightarrow> signature option) \<Rightarrow> (transaction \<Rightarrow> string) \<Rightarrow>
     (string \<Rightarrow> send_request \<Rightarrow> http_reply) \<Rightarrow> helius_sender \<Rightarrow> instant \<Rightarrow> instant \<Rightarrow> transaction \<Rightarrow> send_outcome" where
  "helius_send from_str parse_sig encode post hs send_at ack_at tx =
     helius_outcome from_str parse_sig (hs_endpoint hs) send_at ack_at (tr_signature tx)
       (post (hs_endpoint hs) (helius_request (encode tx)))"

section \<open>Triton\<close>

text \<open>\<open>url.split_once("://")\<close>, and the first piece of \<open>split('/')\<close>.\<close>

fun split_scheme :: "string \<Rightarrow> (string \<times> string) option" where
  "split_scheme [] = None"
| "split_scheme (c # s) = (if take 3 (c # s) = ''://'' then Some ([], drop 3 (c # s))
     else map_option (\<lambda>(a, b). (c # a, b)) (split_scheme s))"

definition upto_slash :: "string \<Rightarrow> string" where
  "upto_slash s = takeWhile (\<lambda>c. c \<noteq> CHR ''/'') s"

definition redact_endpoint :: "string \<Rightarrow> string" where
  "redact_endpoint url = (case split_scheme url of
     Some (scheme, rest) \<Rightarrow> scheme @ ''://'' @ upto_slash rest
   | None \<Rightarrow> upto_slash url)"

record triton_sender =
  ts_id :: u8
  ts_name :: string
  ts_endpoint :: string
  ts_endpoint_display :: string

definition triton_new :: "u8 \<Rightarrow> string \<Rightarrow> string \<Rightarrow> triton_sender" where
  "triton_new i name endpoint =
     \<lparr>ts_id = i, ts_name = name, ts_endpoint = endpoint, ts_endpoint_display = redact_endpoint endpoint\<rparr>"

definition build_body :: "(transaction \<Rightarrow> string) \<Rightarrow> transaction \<Rightarrow> send_request" where
  "build_body encode tx =
     \<lparr>sq_method = ''sendTransaction'', sq_transaction = encode tx, sq_encoding = ''base64'',
      sq_skip_preflight = True, sq_preflight_commitment = None, sq_max_retries = 0\<rparr>"

datatype parsed_reply =
    ParsedOk "string option"
  | RpcError i32 string
  | NonJson string

definition parse_reply :: "(string \<Rightarrow> json_rpc_response option) \<Rightarrow> string \<Rightarrow> parsed_reply" where
  "parse_reply from_str body = (case from_str body of
     Some r \<Rightarrow> (case jr_error r of
         Some err \<Rightarrow> RpcError (je_code err) (je_message err)
       | None \<Rightarrow> ParsedOk (jr_result r))
   | None \<Rightarrow> NonJson body)"

definition triton_outcome ::
    "(string \<Rightarrow> json_rpc_response option) \<Rightarrow> (string \<Rightarrow> signature option) \<Rightarrow> string \<Rightarrow>
     instant \<Rightarrow> instant \<Rightarrow> signature \<Rightarrow> http_reply \<Rightarrow> send_outcome" where
  "triton_outcome from_str parse_sig redacted send_at ack_at signature result = (case result of
     Inl e \<Rightarrow>
       \<lparr>so_send_at = send_at, so_send_ack_at = None, so_signature = signature, so_http_status = None,
        so_rpc_err_code = None, so_rpc_err_message = None, so_provider_request_id = None,
        so_error = Some (''network: '' @ e), so_endpoint_url_used = Some redacted\<rparr>
   | Inr (status, body_text) \<Rightarrow> (case parse_reply from_str body_text of
       ParsedOk returned \<Rightarrow>
         \<lparr>so_send_at = send_at, so_send_ack_at = Some ack_at,
          so_signature = (case Option.bind returned parse_sig of Some s \<Rightarrow> s | None \<Rightarrow> signature),
          so_http_status = Some status, so_rpc_err_code = None, so_rpc_err_message = None,
          so_provider_request_id = None, so_error = None, so_endpoint_url_used = Some redacted\<rparr>
     | RpcError code message \<Rightarrow>
         \<lparr>so_send_at = send_at, so_send_ack_at = Some ack_at, so_signature = signature,
          so_http_status = Some status, so_rpc_err_code = Some code,
          so_rpc_err_message = Some message, so_provider_request_id = None,
          so_error = Some message, so_endpoint_url_used = Some redacted\<rparr>
     | NonJson body \<Rightarrow>
         \<lparr>so_send_at = send_at, so_send_ack_at = Some ack_at, so_signature = signature,
          so_http_status = Some status, so_rpc_err_code = None,
          so_rpc_err_message = Some (''non-JSONRPC body: '' @ body), so_provider_request_id = None,
          so_error = Some (http_body_error status body), so_endpoint_url_used = Some redacted\<rparr>))"

definition triton_send ::
    "(string \<Rightarrow> json_rpc_response option) \<Rightarrow> (string \<Rightarrow> signature option) \<Rightarrow> (transaction \<Rightarrow> string) \<Rightarrow>
     (string \<Rightarrow> send_request \<Rightarrow> http_reply) \<Rightarrow> triton_sender \<Rightarrow> instant \<Rightarrow> instant \<Rightarrow> transaction \<Rightarrow> send_outcome" where
  "triton_send from_str parse_sig encode post ts send_at ack_at tx =
     triton_outcome from_str parse_sig (ts_endpoint_display ts) send_at ack_at (tr_signature tx)
       (post (ts_endpoint ts) (build_body encode tx))"

section \<open>Jito\<close>

text \<open>\<open>s.replace(pat, by)\<close> for a pattern that is not empty.\<close>

function replace_all :: "string \<Rightarrow> string \<Rightarrow> string \<Rightarrow> string" where
  "replace_all pat by [] = []"
| "replace_all pat by (c # s) =
     (if pat \<noteq> [] \<and> take (length pat) (c # s) = pat
      then by @ replace_all pat by (drop (length pat) (c # s))
      else c # replace_all pat by s)"
  by pat_completeness auto
termination by (relation "measure (\<lambda>(pat, by, s). length s)") auto

record jito_counters =
  jc_txs_sent :: u64
  jc_first_reply_json_rpc :: u64
  jc_ip_send_count :: "u64 list"

definition jito_counters_new :: jito_counters where
  "jito_counters_new = \<lparr>jc_txs_sent = 0, jc_first_reply_json_rpc = 0, jc_ip_send_count = replicate 8 0\<rparr>"

record jito_sender =
  js_id :: u8
  js_name :: string
  js_endpoint_template :: string
  js_hosts :: "string list"
  js_ip_count :: nat
  js_ip_cursor :: u64
  js_min_send_interval :: duration
  js_last_send_at :: "instant option"
  js_counters :: jito_counters

text \<open>The client grid is hosts times addresses; an empty address list is one default client.\<close>

definition jito_new ::
    "u8 \<Rightarrow> string \<Rightarrow> string \<Rightarrow> string list \<Rightarrow> string list \<Rightarrow> u64 \<Rightarrow> jito_sender" where
  "jito_new i name template regions outbound_ips min_send_interval_ms =
     \<lparr>js_id = i, js_name = name, js_endpoint_template = template,
      js_hosts = map (\<lambda>r. replace_all ''{region}'' r template) regions,
      js_ip_count = max (length outbound_ips) 1, js_ip_cursor = 0,
      js_min_send_interval = unat min_send_interval_ms * 1000000, js_last_send_at = None,
      js_counters = jito_counters_new\<rparr>"

definition next_ip_idx :: "jito_sender \<Rightarrow> nat \<times> jito_sender" where
  "next_ip_idx js = (unat (js_ip_cursor js) mod js_ip_count js, js\<lparr>js_ip_cursor := js_ip_cursor js + 1\<rparr>)"

datatype fanout_reply =
    FanoutSuccess string instant string "u16 option"
  | FanoutError string instant "u16 option" "i32 option" "string option" string

definition parse_json_rpc_reply ::
    "(string \<Rightarrow> json_rpc_response option) \<Rightarrow> string \<Rightarrow> u16 \<Rightarrow> string \<Rightarrow> instant \<Rightarrow> fanout_reply" where
  "parse_json_rpc_reply from_str host_url status body ack_at = (case from_str body of
     Some parsed \<Rightarrow> (case jr_error parsed of
         Some err \<Rightarrow> FanoutError host_url ack_at (Some status) (Some (je_code err)) (Some (je_message err)) (je_message err)
       | None \<Rightarrow> (case jr_result parsed of
           Some sig \<Rightarrow> FanoutSuccess host_url ack_at sig (Some status)
         | None \<Rightarrow> FanoutError host_url ack_at (Some status) None (Some ''empty result'') ''empty result''))
   | None \<Rightarrow> FanoutError host_url ack_at (Some status) None
       (Some (''non-JSONRPC body: '' @ body)) (http_body_error status body))"

definition fanout_task ::
    "(string \<Rightarrow> json_rpc_response option) \<Rightarrow> string \<Rightarrow> instant \<Rightarrow> http_reply \<Rightarrow> fanout_reply" where
  "fanout_task from_str host_url ack_at result = (case result of
     Inr (status, text) \<Rightarrow> parse_json_rpc_reply from_str host_url status text ack_at
   | Inl e \<Rightarrow> FanoutError host_url ack_at None None None (''network: '' @ e))"

definition jito_failure :: "instant \<Rightarrow> instant option \<Rightarrow> signature \<Rightarrow> string \<Rightarrow> send_outcome" where
  "jito_failure send_at ack signature err =
     \<lparr>so_send_at = send_at, so_send_ack_at = ack, so_signature = signature, so_http_status = None,
      so_rpc_err_code = None, so_rpc_err_message = None, so_provider_request_id = None,
      so_error = Some err, so_endpoint_url_used = None\<rparr>"

text \<open>The local throttle: \<open>Inl now\<close> refuses the send, \<open>Inr\<close> lets it pass.\<close>

definition jito_throttle :: "instant \<Rightarrow> jito_sender \<Rightarrow> instant + jito_sender" where
  "jito_throttle now js =
     (if js_min_send_interval js > 0
      then (case js_last_send_at js of
              Some prev \<Rightarrow> if since now prev < js_min_send_interval js then Inl now
                          else Inr (js\<lparr>js_last_send_at := Some now\<rparr>)
            | None \<Rightarrow> Inr (js\<lparr>js_last_send_at := Some now\<rparr>))
      else Inr js)"

definition jito_count_send :: "nat \<Rightarrow> jito_counters \<Rightarrow> jito_counters" where
  "jito_count_send ip_idx c =
     (let c1 = c\<lparr>jc_txs_sent := jc_txs_sent c + 1\<rparr> in
      if ip_idx < length (jc_ip_send_count c1)
      then c1\<lparr>jc_ip_send_count := (jc_ip_send_count c1)[ip_idx := jc_ip_send_count c1 ! ip_idx + 1]\<rparr>
      else c1)"

definition jito_outcome :: "instant \<Rightarrow> signature \<Rightarrow> fanout_reply \<Rightarrow> send_outcome" where
  "jito_outcome send_at signature reply = (case reply of
     FanoutSuccess host_url ack_at sig_str http_status \<Rightarrow>
       \<lparr>so_send_at = send_at, so_send_ack_at = Some ack_at, so_signature = signature,
        so_http_status = http_status, so_rpc_err_code = None, so_rpc_err_message = None,
        so_provider_request_id = Some sig_str, so_error = None, so_endpoint_url_used = Some host_url\<rparr>
   | FanoutError host_url ack_at http_status code message err \<Rightarrow>
       \<lparr>so_send_at = send_at, so_send_ack_at = Some ack_at, so_signature = signature,
        so_http_status = http_status, so_rpc_err_code = code, so_rpc_err_message = message,
        so_provider_request_id = None, so_error = Some err, so_endpoint_url_used = Some host_url\<rparr>)"

text \<open>
  One send: the clocks (at entry, at the throttle, at the fan-out), and the reply that arrives
  first: which host, when, and what; \<open>None\<close> when every task was dropped.  The result also says
  which host was posted to from which address.
\<close>

definition jito_send ::
    "(string \<Rightarrow> json_rpc_response option) \<Rightarrow> instant \<Rightarrow> instant \<Rightarrow> instant \<Rightarrow> (nat \<times> instant \<times> http_reply) option \<Rightarrow>
     transaction \<Rightarrow> jito_sender \<Rightarrow> send_outcome \<times> (string \<times> nat) list \<times> jito_sender" where
  "jito_send from_str t_init now send_at first tx js =
     (let signature = tr_signature tx in
      case jito_throttle now js of
        Inl n \<Rightarrow> (jito_failure n (Some n) signature ''throttled_local'', [], js)
      | Inr js1 \<Rightarrow>
          if js_hosts js1 = []
          then (jito_failure t_init None signature ''no regions configured'', [], js1)
          else
            let (ip_idx, js2) = next_ip_idx js1;
                js3 = js2\<lparr>js_counters := jito_count_send ip_idx (js_counters js2)\<rparr>;
                posts = map (\<lambda>h. (h, ip_idx)) (js_hosts js3)
            in (case first of
                  None \<Rightarrow> (jito_failure send_at None signature ''all fan-out tasks dropped without reply'', posts, js3)
                | Some (host_idx, ack_at, result) \<Rightarrow>
                    let reply = fanout_task from_str (js_hosts js3 ! host_idx) ack_at result;
                        js4 = (case reply of
                          FanoutSuccess _ _ _ _ \<Rightarrow> js3\<lparr>js_counters := (js_counters js3)\<lparr>jc_first_reply_json_rpc :=
                            jc_first_reply_json_rpc (js_counters js3) + 1\<rparr>\<rparr>
                        | FanoutError _ _ _ _ _ _ \<Rightarrow> js3)
                    in (jito_outcome send_at signature reply, posts, js4)))"

section \<open>The sender contract\<close>

text \<open>
  What the dispatcher and the recorder rely on, whichever sender answers: a success carries the
  time and status of its acknowledgement and no error code; an error code comes with the message
  that is also the error; a failed send keeps the signature that was registered.
\<close>

datatype send_class = Accepted | Rejected | Failed

text \<open>Accepted: no error, an acknowledgement and a status.  Rejected: an error code, whose message is
  the recorded error.  Failed: an error without a code, and the registered signature.\<close>

definition class_holds :: "signature \<Rightarrow> send_outcome \<Rightarrow> send_class \<Rightarrow> bool" where
  "class_holds sig so k = (case k of
     Accepted \<Rightarrow> so_error so = None \<and> so_send_ack_at so \<noteq> None \<and> so_http_status so \<noteq> None \<and> so_rpc_err_code so = None
   | Rejected \<Rightarrow> so_rpc_err_code so \<noteq> None \<and> so_error so = so_rpc_err_message so \<and> so_error so \<noteq> None
       \<and> so_signature so = sig
   | Failed \<Rightarrow> so_error so \<noteq> None \<and> so_rpc_err_code so = None \<and> so_signature so = sig)"

definition class_ok :: "signature \<Rightarrow> send_outcome \<Rightarrow> bool" where
  "class_ok sig so \<longleftrightarrow> length (filter (class_holds sig so) [Accepted, Rejected, Failed]) = 1"

locale sender_contract =
  fixes outcome :: "'r \<Rightarrow> signature \<Rightarrow> send_outcome"
  assumes success: "so_error (outcome r sig) = None \<Longrightarrow> so_send_ack_at (outcome r sig) \<noteq> None
      \<and> so_http_status (outcome r sig) \<noteq> None \<and> so_rpc_err_code (outcome r sig) = None"
    and rejection: "so_rpc_err_code (outcome r sig) \<noteq> None \<Longrightarrow>
      so_error (outcome r sig) = so_rpc_err_message (outcome r sig) \<and> so_http_status (outcome r sig) \<noteq> None"
    and failure: "so_error (outcome r sig) \<noteq> None \<Longrightarrow> so_signature (outcome r sig) = sig"
    and requested: "so_provider_request_id (outcome r sig) \<noteq> None \<Longrightarrow> so_error (outcome r sig) = None"
begin

lemma classified: "class_ok sig (outcome r sig)"
  unfolding class_ok_def class_holds_def using success [of r sig] rejection [of r sig] failure [of r sig]
  by (cases "so_error (outcome r sig)"; cases "so_rpc_err_code (outcome r sig)") auto

end

interpretation helius: sender_contract
  "\<lambda>(send_at, ack_at, r) sig. helius_outcome from_str parse_sig endpoint send_at ack_at sig r"
  for from_str parse_sig endpoint
  by unfold_locales (auto simp: helius_outcome_def split: sum.splits option.splits)

interpretation triton: sender_contract
  "\<lambda>(send_at, ack_at, r) sig. triton_outcome from_str parse_sig redacted send_at ack_at sig r"
  for from_str parse_sig redacted
  by unfold_locales (auto simp: triton_outcome_def split: sum.splits parsed_reply.splits)

lemma fanout_task_simps:
  "fanout_task from_str h t (Inl e) = FanoutError h t None None None (''network: '' @ e)"
  "fanout_task from_str h t (Inr (status, text)) = parse_json_rpc_reply from_str h status text t"
  by (simp_all add: fanout_task_def)

interpretation jito: sender_contract
  "\<lambda>(send_at, host, ack_at, r) sig. jito_outcome send_at sig (fanout_task from_str host ack_at r)"
  for from_str
  by unfold_locales (auto simp: jito_outcome_def fanout_task_def parse_json_rpc_reply_def
      split: sum.splits option.splits fanout_reply.splits)

text \<open>
  Whatever the provider or the network answers, the outcome of a send is exactly one of accepted
  (no error, an acknowledgement and a status), rejected (an error code whose message is the recorded
  error) and failed in transport; this holds for Helius, Triton and the first reply of Jito alike,
  and a send that did not succeed keeps the signature that was registered.
\<close>

theorem sender_outcomes_classified:
  "class_ok sig (helius_outcome from_str parse_sig endpoint send_at ack_at sig r)
   \<and> class_ok sig (triton_outcome from_str parse_sig endpoint send_at ack_at sig r)
   \<and> class_ok sig (jito_outcome send_at sig (fanout_task from_str endpoint ack_at r))"
  using helius.classified [of sig from_str parse_sig endpoint "(send_at, ack_at, r)"]
    triton.classified [of sig from_str parse_sig endpoint "(send_at, ack_at, r)"]
    jito.classified [of sig from_str "(send_at, endpoint, ack_at, r)"]
  by simp

text \<open>
  Triton and Helius treat a reply alike: their two decoders, written independently, give the
  same outcome for every reply, up to the endpoint they report.
\<close>

theorem triton_agrees_with_helius:
  "triton_outcome from_str parse_sig endpoint send_at ack_at sig r =
   helius_outcome from_str parse_sig endpoint send_at ack_at sig r"
  by (auto simp: triton_outcome_def helius_outcome_def parse_reply_def split: sum.splits option.splits)

section \<open>The token stays private\<close>

lemma split_scheme_append:
  "CHR '':'' \<notin> set scheme \<Longrightarrow> split_scheme (scheme @ ''://'' @ rest) = Some (scheme, rest)"
proof (induction scheme)
  case (Cons c scheme)
  from Cons.prems have "c \<noteq> CHR '':''" by auto
  with Cons show ?case by simp
qed simp

lemma upto_slash_append: "CHR ''/'' \<notin> set host \<Longrightarrow> upto_slash (host @ ''/'' @ rest) = host"
  unfolding upto_slash_def by (subst takeWhile_append2) auto

text \<open>
  A token in the path of the endpoint never reaches a reply's record: the outcome of a send that
  got an answer is the same for every token, whatever the answer.
\<close>

theorem triton_token_private:
  assumes "CHR '':'' \<notin> set scheme" "CHR ''/'' \<notin> set host"
  shows "let url = (\<lambda>token. scheme @ ''://'' @ host @ ''/'' @ token) in
     ts_endpoint_display (triton_new i name (url token)) = scheme @ ''://'' @ host
     \<and> triton_send from_str parse_sig encode (\<lambda>u q. Inr reply) (triton_new i name (url token)) send_at ack_at tx =
       triton_send from_str parse_sig encode (\<lambda>u q. Inr reply) (triton_new i name (url token')) send_at ack_at tx"
proof -
  have "redact_endpoint (scheme @ ''://'' @ host @ ''/'' @ t) = scheme @ ''://'' @ host" for t
    unfolding redact_endpoint_def split_scheme_append [OF assms(1)] using upto_slash_append [OF assms(2)] by simp
  then show ?thesis by (simp add: triton_new_def triton_send_def Let_def)
qed

theorem triton_token_private_witness:
  "ts_endpoint_display (triton_new 1 ''t'' (''https'' @ ''://'' @ ''a.com'' @ ''/'' @ ''SECRET'')) = ''https'' @ ''://'' @ ''a.com''"
proof -
  have "CHR '':'' \<notin> set ''https''" "CHR ''/'' \<notin> set ''a.com''" by simp_all
  from triton_token_private [OF this, where token = "''SECRET''", unfolded Let_def, THEN conjunct1] show ?thesis .
qed

text \<open>
  Two ways past the redaction: a token in the query of an endpoint without a path stays in the
  displayed endpoint, and when the client's error text names the URL it was posting to, as the HTTP
  client's texts do, the recorded error holds the whole endpoint with its token.
\<close>

theorem triton_token_leaks:
  "ts_endpoint_display (triton_new i name ''https://a.com?api-key=SECRET'') = ''https://a.com?api-key=SECRET''
   \<and> so_error (triton_send from_str parse_sig encode (\<lambda>url q. Inl (''error sending request for url ('' @ url @ '')''))
        (triton_new i name url) send_at ack_at tx)
     = Some (''network: error sending request for url ('' @ url @ '')'')"
  by (simp add: triton_new_def triton_send_def triton_outcome_def redact_endpoint_def upto_slash_def)

section \<open>The Jito throttle and rotation\<close>

type_synonym jito_call = "instant \<times> instant \<times> instant \<times> (nat \<times> instant \<times> http_reply) option \<times> transaction"

text \<open>A sequence of sends: the fan-outs that were made, each with its throttle time.\<close>

fun jito_run :: "(string \<Rightarrow> json_rpc_response option) \<Rightarrow> jito_call list \<Rightarrow> jito_sender \<Rightarrow>
    (instant \<times> (string \<times> nat) list) list \<times> jito_sender" where
  "jito_run from_str [] js = ([], js)"
| "jito_run from_str ((t_init, now, send_at, first, tx) # calls) js =
     (let (so, posts, js') = jito_send from_str t_init now send_at first tx js;
          (rest, js'') = jito_run from_str calls js'
      in (if posts = [] then rest else (now, posts) # rest, js''))"

lemma jito_send_cases:
  assumes "jito_send from_str t_init now send_at first tx js = (so, posts, js')"
  shows "js_hosts js' = js_hosts js \<and> js_ip_count js' = js_ip_count js
     \<and> js_min_send_interval js' = js_min_send_interval js
     \<and> (if posts = [] then js_ip_cursor js' = js_ip_cursor js
           \<and> (js_last_send_at js' = js_last_send_at js
              \<or> js_last_send_at js' = Some now \<and> (\<forall>p. js_last_send_at js = Some p \<longrightarrow> p + js_min_send_interval js \<le> now))
           \<and> js_counters js' = js_counters js
        else posts = map (\<lambda>h. (h, unat (js_ip_cursor js) mod js_ip_count js)) (js_hosts js)
           \<and> js_ip_cursor js' = js_ip_cursor js + 1
           \<and> (js_min_send_interval js > 0 \<longrightarrow> js_last_send_at js' = Some now
               \<and> (\<forall>p. js_last_send_at js = Some p \<longrightarrow> p + js_min_send_interval js \<le> now)))"
proof (cases "jito_throttle now js")
  case (Inl n)
  with assms show ?thesis by (auto simp: jito_send_def)
next
  case (Inr js1)
  then have t: "js_hosts js1 = js_hosts js" "js_ip_count js1 = js_ip_count js" "js_ip_cursor js1 = js_ip_cursor js"
    "js_min_send_interval js1 = js_min_send_interval js" "js_counters js1 = js_counters js"
    "js_last_send_at js1 = js_last_send_at js \<and> js_min_send_interval js = 0
     \<or> js_last_send_at js1 = Some now \<and> (\<forall>p. js_last_send_at js = Some p \<longrightarrow> p + js_min_send_interval js \<le> now)"
    by (auto simp: jito_throttle_def since_def split: if_splits option.splits)
  with Inr assms show ?thesis
    by (auto simp: jito_send_def next_ip_idx_def Let_def split: if_splits option.splits prod.splits fanout_reply.splits)
qed

definition throttle_ok :: "duration \<Rightarrow> instant option \<Rightarrow> instant list \<Rightarrow> bool" where
  "throttle_ok d prev ts \<longleftrightarrow> sorted_wrt (\<lambda>a b. a + d \<le> b) ts \<and> (\<forall>p t. prev = Some p \<longrightarrow> t \<in> set ts \<longrightarrow> p + d \<le> t)"

lemma throttle_ok_pass:
  assumes "throttle_ok d (Some now) ts" "\<forall>p. prev = Some p \<longrightarrow> p + d \<le> now"
  shows "throttle_ok d prev ts" "throttle_ok d prev (now # ts)"
proof -
  have "p + d \<le> t" if "prev = Some p" "t \<in> set ts" for p t
  proof -
    have "now + d \<le> t" using assms(1) that(2) by (simp add: throttle_ok_def)
    moreover have "p + d \<le> now" using assms(2) that(1) by simp
    ultimately show ?thesis by linarith
  qed
  with assms show "throttle_ok d prev ts" "throttle_ok d prev (now # ts)"
    by (auto simp: throttle_ok_def)
qed

lemma jito_run_inv:
  assumes "jito_run from_str calls js = (outs, js')"
  shows "(js_min_send_interval js > 0 \<longrightarrow> throttle_ok (js_min_send_interval js) (js_last_send_at js) (map fst outs))
    \<and> (unat (js_ip_cursor js) + length calls < 2 ^ 64 \<longrightarrow>
       map snd outs = map (\<lambda>k. map (\<lambda>h. (h, (unat (js_ip_cursor js) + k) mod js_ip_count js)) (js_hosts js)) [0..<length outs])
    \<and> length outs \<le> length calls"
  using assms
proof (induction calls arbitrary: js outs js')
  case (Cons call calls)
  obtain t_init now send_at first tx where c: "call = (t_init, now, send_at, first, tx)" by (cases call)
  obtain so posts js1 where s: "jito_send from_str t_init now send_at first tx js = (so, posts, js1)" by (metis prod.exhaust)
  obtain rest js2 where r: "jito_run from_str calls js1 = (rest, js2)" by fastforce
  have outs: "outs = (if posts = [] then rest else (now, posts) # rest)"
    using Cons.prems c s r by simp
  note sc = jito_send_cases [OF s] and IH = Cons.IH [OF r]
  let ?d = "js_min_send_interval js" and ?c = "unat (js_ip_cursor js)"
  show ?case
  proof (cases "posts = []")
    case True
    have "throttle_ok ?d (js_last_send_at js) (map fst outs)" if d: "?d > 0"
    proof -
      have ih: "throttle_ok ?d (js_last_send_at js1) (map fst rest)" using IH sc d by simp
      from sc True consider "js_last_send_at js1 = js_last_send_at js"
        | "js_last_send_at js1 = Some now" "\<forall>p. js_last_send_at js = Some p \<longrightarrow> p + ?d \<le> now" by auto
      then show ?thesis
      proof cases
        case 1
        with ih outs True show ?thesis by simp
      next
        case 2
        from throttle_ok_pass(1) [OF ih [unfolded 2(1)] 2(2)] outs True show ?thesis by simp
      qed
    qed
    with True sc IH outs show ?thesis by auto
  next
    case False
    have th: "throttle_ok ?d (js_last_send_at js) (map fst outs)" if d: "?d > 0"
    proof -
      have l: "js_last_send_at js1 = Some now" "\<forall>p. js_last_send_at js = Some p \<longrightarrow> p + ?d \<le> now"
        using sc False d by auto
      have ih: "throttle_ok ?d (Some now) (map fst rest)" using IH sc d l(1) by simp
      from throttle_ok_pass(2) [OF ih l(2)] outs False show ?thesis by simp
    qed
    have "map snd outs = map (\<lambda>k. map (\<lambda>h. (h, (?c + k) mod js_ip_count js)) (js_hosts js)) [0..<length outs]"
      if b: "?c + length (call # calls) < 2 ^ 64"
    proof -
      have cur: "unat (js_ip_cursor js1) = Suc ?c" using sc False b by (simp add: unat_Suc_cursor)
      have "map snd rest = map (\<lambda>k. map (\<lambda>h. (h, (Suc ?c + k) mod js_ip_count js)) (js_hosts js)) [0..<length rest]"
        using IH cur b sc False by simp
      also have "\<dots> = map (\<lambda>k. map (\<lambda>h. (h, (?c + k) mod js_ip_count js)) (js_hosts js)) [Suc 0..<Suc (length rest)]"
        by (rule nth_equalityI) (simp_all del: upt_Suc)
      finally show ?thesis using outs False sc by (simp add: upt_conv_Cons [of 0 "Suc (length rest)"] del: upt_Suc)
    qed
    with th IH outs False show ?thesis by auto
  qed
qed (simp add: throttle_ok_def)

text \<open>
  C15. The local throttle bounds the rate: in any sequence of sends the fan-outs that really go out
  are at least the minimum interval apart, also after a refused send; and the source address
  rotates: the k-th fan-out of a fresh sender posts to every region from address k modulo the
  number of addresses.
\<close>

theorem jito_throttle_and_rotation:
  assumes "min_interval_ms > 0" "length calls < 2 ^ 64"
  shows "let js = jito_new i name template regions ips min_interval_ms; outs = fst (jito_run from_str calls js) in
     sorted_wrt (\<lambda>a b. a + unat min_interval_ms * 1000000 \<le> b) (map fst outs)
     \<and> map snd outs = map (\<lambda>k. map (\<lambda>h. (h, k mod max (length ips) 1)) (js_hosts js)) [0..<length outs]"
proof -
  obtain outs js' where r: "jito_run from_str calls (jito_new i name template regions ips min_interval_ms) = (outs, js')"
    by fastforce
  have "unat min_interval_ms > 0" using assms(1) by (simp add: word_gt_0 unat_gt_0)
  moreover have "js_min_send_interval (jito_new i name template regions ips min_interval_ms) = unat min_interval_ms * 1000000"
    "js_last_send_at (jito_new i name template regions ips min_interval_ms) = None"
    "js_ip_cursor (jito_new i name template regions ips min_interval_ms) = 0"
    "js_ip_count (jito_new i name template regions ips min_interval_ms) = max (length ips) 1"
    by (simp_all add: jito_new_def)
  ultimately show ?thesis using jito_run_inv [OF r] assms(2)
    unfolding Let_def r fst_conv throttle_ok_def by simp
qed

definition demo_tx :: transaction where
  "demo_tx = build (demo_params None)"

definition demo_calls :: "jito_call list" where
  "demo_calls = [(0, 1, 2, None, demo_tx), (3, 500000, 6, None, demo_tx), (7, 2000000, 9, None, demo_tx)]"

theorem jito_throttle_and_rotation_witness:
  "map fst (fst (jito_run (\<lambda>b. None) demo_calls (jito_new 1 ''j'' ''h'' [''ny''] [] 1))) = [1, 2000000]
   \<and> sorted_wrt (\<lambda>a b. a + 1000000 \<le> b) (map fst (fst (jito_run (\<lambda>b. None) demo_calls (jito_new 1 ''j'' ''h'' [''ny''] [] 1))))"
proof -
  have "map fst (fst (jito_run (\<lambda>b. None) demo_calls (jito_new 1 ''j'' ''h'' [''ny''] [] 1))) = [1, 2000000]"
    by (simp add: demo_calls_def jito_new_def jito_send_def jito_throttle_def since_def next_ip_idx_def Let_def)
  moreover have "(1::u64) > 0" "length demo_calls < 2 ^ 64" by (simp_all add: demo_calls_def)
  ultimately show ?thesis
    using jito_throttle_and_rotation [of 1 demo_calls 1 "''j''" "''h''" "[''ny'']" "[]" "\<lambda>b. None"]
    by (simp add: Let_def)
qed

end
