(* ===== verification/JitoTip.thy ===== *)
theory JitoTip
  imports Senders
begin

text \<open>
  The Jito tip updater (\<open>senders/jito/tip_updater.rs\<close>): it keeps the tip the preparer reads.  The
  interpolation is done in floating point; its arithmetic is a parameter, the choice of the two
  surrounding points is modelled over any linear order.
\<close>

record 'f tip_amounts =
  ta_25th :: 'f
  ta_50th :: 'f
  ta_75th :: 'f
  ta_95th :: 'f
  ta_99th :: 'f

fun surrounding_from :: "('f::linorder \<times> 'f) list \<Rightarrow> 'f \<Rightarrow> (('f \<times> 'f) \<times> ('f \<times> 'f)) option" where
  "surrounding_from (p # q # ps) target =
     (if fst p \<le> target \<and> target \<le> fst q then Some (p, q) else surrounding_from (q # ps) target)"
| "surrounding_from _ target = None"

definition surrounding_pair :: "('f::linorder \<times> 'f) list \<Rightarrow> 'f \<Rightarrow> ('f \<times> 'f) \<times> ('f \<times> 'f)" where
  "surrounding_pair points target = (case surrounding_from points target of
     Some r \<Rightarrow> r
   | None \<Rightarrow> if target < fst (points ! 0) then (points ! 0, points ! 1)
       else (points ! (length points - 2), points ! (length points - 1)))"

text \<open>\<open>pct\<close> is \<open>u32 as f64\<close>, \<open>ln\<close> the logarithm, \<open>blend\<close> the log-linear formula and \<open>exp\<close>.\<close>

definition log_interpolate_percentile ::
    "(nat \<Rightarrow> 'f) \<Rightarrow> ('f \<Rightarrow> 'f) \<Rightarrow> ('f \<times> 'f \<Rightarrow> 'f \<times> 'f \<Rightarrow> 'f \<Rightarrow> 'f) \<Rightarrow> 'f::linorder tip_amounts \<Rightarrow> 'f \<Rightarrow> 'f" where
  "log_interpolate_percentile pct ln blend amounts target =
     (let points = [(pct 25, ln (ta_25th amounts)), (pct 50, ln (ta_50th amounts)),
                    (pct 75, ln (ta_75th amounts)), (pct 95, ln (ta_95th amounts)),
                    (pct 99, ln (ta_99th amounts))];
          (lower, upper) = surrounding_pair points target
      in blend lower upper target)"

text \<open>\<open>u64::clamp\<close> panics when the bounds are the wrong way round.\<close>

definition clamp_checked :: "u64 \<Rightarrow> u64 \<Rightarrow> u64 \<Rightarrow> u64 option" where
  "clamp_checked x lo hi = (if lo \<le> hi then Some (if x < lo then lo else if hi < x then hi else x) else None)"

record tip_updater =
  tu_current_lamports :: u64
  tu_percentile :: u32
  tu_floor_lamports :: u64
  tu_ceiling_lamports :: u64

definition tip_updater_new :: "u32 \<Rightarrow> u64 \<Rightarrow> u64 \<Rightarrow> tip_updater" where
  "tip_updater_new percentile lo hi =
     \<lparr>tu_current_lamports = lo, tu_percentile = percentile, tu_floor_lamports = lo, tu_ceiling_lamports = hi\<rparr>"

text \<open>
  What a fetch gives: the text of an HTTP or decoding error, or the decoded list; \<open>lamports\<close> is the
  conversion of the interpolated tip to an integer.  \<open>None\<close> is the panic of \<open>clamp\<close>.
\<close>

definition fetch_and_compute ::
    "('f tip_amounts \<Rightarrow> nat \<Rightarrow> u64) \<Rightarrow> string + 'f tip_amounts list \<Rightarrow> tip_updater \<Rightarrow> (string + u64) option" where
  "fetch_and_compute lamports reply tu = (case reply of
     Inl e \<Rightarrow> Some (Inl e)
   | Inr [] \<Rightarrow> Some (Inl ''empty tip floor response'')
   | Inr (amounts # _) \<Rightarrow>
       map_option Inr (clamp_checked (lamports amounts (unat (tu_percentile tu))) (tu_floor_lamports tu) (tu_ceiling_lamports tu)))"

definition tip_refresh ::
    "('f tip_amounts \<Rightarrow> nat \<Rightarrow> u64) \<Rightarrow> string + 'f tip_amounts list \<Rightarrow> tip_updater \<Rightarrow> tip_updater option" where
  "tip_refresh lamports reply tu = (case fetch_and_compute lamports reply tu of
     None \<Rightarrow> None
   | Some (Inl e) \<Rightarrow> Some tu
   | Some (Inr v) \<Rightarrow> Some (tu\<lparr>tu_current_lamports := v\<rparr>))"

text \<open>The task: it ends at a panic, and the tip stays at its last value.\<close>

fun tip_run :: "('f tip_amounts \<Rightarrow> nat \<Rightarrow> u64) \<Rightarrow> (string + 'f tip_amounts list) list \<Rightarrow> tip_updater \<Rightarrow> bool \<times> tip_updater" where
  "tip_run lamports [] tu = (True, tu)"
| "tip_run lamports (r # rs) tu = (case tip_refresh lamports r tu of
     None \<Rightarrow> (False, tu)
   | Some tu' \<Rightarrow> tip_run lamports rs tu')"

definition usable :: "string + 'f tip_amounts list \<Rightarrow> bool" where
  "usable r = (case r of Inr (a # _) \<Rightarrow> True | _ \<Rightarrow> False)"

lemma surrounding_from_brackets:
  "sorted (map fst points) \<Longrightarrow> surrounding_from points t = Some (p, q) \<Longrightarrow>
     fst p \<le> t \<and> t \<le> fst q \<and> {p, q} \<subseteq> set points"
  by (induction points t rule: surrounding_from.induct) (auto split: if_splits)

lemma surrounding_from_none:
  "surrounding_from (p # ps) t = None \<Longrightarrow> ps \<noteq> [] \<Longrightarrow> fst p \<le> t \<Longrightarrow> fst (last ps) < t"
proof (induction "p # ps" t arbitrary: p ps rule: surrounding_from.induct)
  case (1 p q qs t)
  then have "fst q < t" by (auto split: if_splits)
  with 1 show ?case by (cases qs) (auto split: if_splits)
qed simp

text \<open>
  For sorted points the pair brackets a target within them; below the first or above the last
  it is the outermost pair on that side, so the interpolation always uses two neighbours.
\<close>

theorem surrounding_pair_brackets:
  assumes "sorted (map fst points)" "length points = Suc (Suc n)"
  shows "let (p, q) = surrounding_pair points t in
     {p, q} \<subseteq> set points \<and>
     (fst p \<le> t \<and> t \<le> fst q
      \<or> t < fst (hd points) \<and> p = hd points
      \<or> fst (last points) < t \<and> q = last points)"
proof (cases "surrounding_from points t")
  case (Some r)
  obtain p q where r: "r = (p, q)" by (cases r)
  from surrounding_from_brackets [OF assms(1) Some [unfolded r]] Some r show ?thesis
    by (simp add: surrounding_pair_def)
next
  case None
  obtain p q ps where ps: "points = p # q # ps" using assms(2) by (cases points; cases "tl points") auto
  show ?thesis
  proof (cases "t < fst p")
    case True
    with None ps show ?thesis by (simp add: surrounding_pair_def)
  next
    case False
    have "fst (last points) < t"
      using surrounding_from_none [of p "q # ps" t, OF None [unfolded ps]] False ps by simp
    moreover have "last points = points ! (length points - 1)" using ps by (simp add: last_conv_nth)
    moreover have "points ! (length points - 2) \<in> set points" "points ! (length points - 1) \<in> set points"
      by (rule nth_mem, simp add: ps)+
    ultimately show ?thesis
      using None False ps by (simp only: surrounding_pair_def Let_def option.case prod.case) simp
  qed
qed

lemma clamp_bounds: "lo \<le> hi \<Longrightarrow> clamp_checked x lo hi = Some y \<Longrightarrow> lo \<le> y \<and> y \<le> hi"
  for x :: u64
  by (auto simp: clamp_checked_def not_less split: if_splits)

lemma tip_refresh_unusable: "\<not> usable r \<Longrightarrow> tip_refresh lamports r tu = Some tu"
  by (auto simp: tip_refresh_def fetch_and_compute_def usable_def split: sum.splits list.splits)

lemma tip_refresh_usable: "usable r \<Longrightarrow> \<exists>x. tip_refresh lamports r tu =
    map_option (\<lambda>v. tu\<lparr>tu_current_lamports := v\<rparr>) (clamp_checked x (tu_floor_lamports tu) (tu_ceiling_lamports tu))"
  by (auto simp: tip_refresh_def fetch_and_compute_def usable_def option.case_eq_if map_option_case
      split: sum.splits list.splits)

text \<open>
  The tip is bounded at all times: it starts at the floor and after any sequence of fetches,
  failed or not, it lies between the floor and the ceiling; when the two are the wrong way round
  the first usable answer ends the task and the tip stays at the floor for good.
\<close>

theorem tip_always_bounded:
  "let (alive, tu) = tip_run lamports rs (tip_updater_new percentile lo hi) in
     (if lo \<le> hi then alive \<and> lo \<le> tu_current_lamports tu \<and> tu_current_lamports tu \<le> hi
      else tu_current_lamports tu = lo \<and> alive = (\<not> list_ex usable rs))"
proof -
  have "let (alive, tu') = tip_run lamports rs tu in
     (if lo \<le> hi then alive \<and> lo \<le> tu_current_lamports tu' \<and> tu_current_lamports tu' \<le> hi
      else tu_current_lamports tu' = lo \<and> alive = (\<not> list_ex usable rs))"
    if "tu_floor_lamports tu = lo" "tu_ceiling_lamports tu = hi"
      "if lo \<le> hi then lo \<le> tu_current_lamports tu \<and> tu_current_lamports tu \<le> hi else tu_current_lamports tu = lo" for tu
    using that
  proof (induction rs arbitrary: tu)
    case (Cons r rs)
    show ?case
    proof (cases "usable r")
      case False
      with Cons.IH [OF Cons.prems] show ?thesis by (simp add: tip_refresh_unusable split: prod.splits)
    next
      case True
      then obtain x where t: "tip_refresh lamports r tu = map_option (\<lambda>v. tu\<lparr>tu_current_lamports := v\<rparr>) (clamp_checked x lo hi)"
        using tip_refresh_usable [of r lamports tu] Cons.prems(1,2) by auto
      show ?thesis
      proof (cases "lo \<le> hi")
        case False
        with t True Cons.prems show ?thesis by (simp add: clamp_checked_def)
      next
        case le: True
        then obtain y where y: "clamp_checked x lo hi = Some y" by (simp add: clamp_checked_def)
        from Cons.IH [of "tu\<lparr>tu_current_lamports := y\<rparr>"] Cons.prems(1,2) le y t clamp_bounds [OF le y]
        show ?thesis by simp
      qed
    qed
  qed simp
  then show ?thesis by (simp add: tip_updater_new_def)
qed

end
