(* ===== verification/Recorder.thy ===== *)
theory Recorder
  imports Senders KeyStore TriggerEngine NonceManager "HOL-Library.Multiset"
begin

text \<open>
  The recorder (\<open>crates/tick-trigger-fan-out-bench/src/recorder.rs\<close>): it follows every attempt, a
  trigger sent through one sender, from its registration to its one record.  The three input
  channels are one sequence of events, in the order \<open>select!\<close> serves them.  The output file is the
  list of records written; whether the n-th write succeeds is a parameter.  Signatures and hashes
  are recorded as values (the file holds their base-58 text).
\<close>

section \<open>Events and records\<close>

type_synonym attempt_key = "u64 \<times> u8"

record register_event =
  rg_trigger_id :: u64
  rg_sender_id :: u8
  rg_sender_name :: string
  rg_endpoint_url :: string
  rg_protocol :: string
  rg_signature :: signature
  rg_slot :: u64
  rg_tick :: u8
  rg_trigger_observed_at :: instant
  rg_prepared_at :: instant
  rg_blockhash :: hash
  rg_nonce_id :: "nonce_id option"

record send_event =
  sv_trigger_id :: u64
  sv_sender_id :: u8
  sv_outcome :: send_outcome

datatype final_outcome = Landed | SendError | UnknownPending

record trigger_record =
  wr_trigger_id :: u64
  wr_slot :: u64
  wr_tick :: u8
  wr_sender_id :: u8
  wr_sender_name :: string
  wr_endpoint_url :: string
  wr_protocol :: string
  wr_tx_signature :: signature
  wr_blockhash :: hash
  wr_trigger_observed_at_ns :: u64
  wr_prepared_at_ns :: u64
  wr_send_at_ns :: u64
  wr_send_ack_at_ns :: "u64 option"
  wr_observed_at_ns :: "u64 option"
  wr_wall_prepared_to_send_ns :: "u64 option"
  wr_wall_send_rtt_ns :: "u64 option"
  wr_wall_send_to_observed_ns :: "u64 option"
  wr_wall_trigger_to_observed_ns :: "u64 option"
  wr_observed_slot :: "u64 option"
  wr_observed_entry_index :: "u32 option"
  wr_observed_tick :: "u8 option"
  wr_observed_source :: "string option"
  wr_http_status :: "u16 option"
  wr_rpc_err_code :: "i32 option"
  wr_rpc_err_message :: "string option"
  wr_send_error :: "string option"
  wr_endpoint_url_used :: "string option"
  wr_provider_request_id :: "string option"
  wr_final_outcome :: final_outcome

record recorder_counters =
  rn_records_landed :: u64
  rn_records_send_error :: u64
  rn_records_unknown_pending :: u64
  rn_register_events :: u64
  rn_send_events :: u64
  rn_match_events :: u64
  rn_write_errors :: u64
  rn_nonce_advanced_local :: u64
  rn_nonce_local_compute_miss :: u64

definition recorder_counters_new :: recorder_counters where
  "recorder_counters_new =
     \<lparr>rn_records_landed = 0, rn_records_send_error = 0, rn_records_unknown_pending = 0,
      rn_register_events = 0, rn_send_events = 0, rn_match_events = 0, rn_write_errors = 0,
      rn_nonce_advanced_local = 0, rn_nonce_local_compute_miss = 0\<rparr>"

section \<open>Aggregates\<close>

record per_sender_stats =
  st_sender_id :: u8
  st_attempts :: u64
  st_landed :: u64
  st_send_error :: u64
  st_unknown_pending :: u64
  st_send_rtt_us_sum :: u64
  st_send_rtt_us_count :: u64
  st_send_to_observed_us_sum :: u64
  st_send_to_observed_us_count :: u64

definition stats_new :: "u8 \<Rightarrow> per_sender_stats" where
  "stats_new i = \<lparr>st_sender_id = i, st_attempts = 0, st_landed = 0, st_send_error = 0,
     st_unknown_pending = 0, st_send_rtt_us_sum = 0, st_send_rtt_us_count = 0,
     st_send_to_observed_us_sum = 0, st_send_to_observed_us_count = 0\<rparr>"

record aggregate_state =
  ag_first_send_at :: "instant option"
  ag_last_send_at :: "instant option"
  ag_triggers_attempted :: "u64 set"
  ag_triggers_landed :: "u64 set"
  ag_per_sender :: "(u8, per_sender_stats) hmap"
  ag_attempts_total :: u64
  ag_attempts_landed :: u64
  ag_attempts_send_error :: u64
  ag_attempts_unknown_pending :: u64

definition aggregate_new :: aggregate_state where
  "aggregate_new = \<lparr>ag_first_send_at = None, ag_last_send_at = None, ag_triggers_attempted = {},
     ag_triggers_landed = {}, ag_per_sender = [], ag_attempts_total = 0, ag_attempts_landed = 0,
     ag_attempts_send_error = 0, ag_attempts_unknown_pending = 0\<rparr>"

text \<open>\<open>entry(id).or_insert(..)\<close> followed by an update in place.\<close>

definition with_stats :: "u8 \<Rightarrow> (per_sender_stats \<Rightarrow> per_sender_stats) \<Rightarrow> (u8, per_sender_stats) hmap \<Rightarrow> (u8, per_sender_stats) hmap" where
  "with_stats i f m = hm_insert i (f (case hm_get m i of Some s \<Rightarrow> s | None \<Rightarrow> stats_new i)) m"

definition record_register :: "register_event \<Rightarrow> aggregate_state \<Rightarrow> aggregate_state" where
  "record_register reg ag = ag
     \<lparr>ag_triggers_attempted := insert (rg_trigger_id reg) (ag_triggers_attempted ag),
      ag_per_sender := with_stats (rg_sender_id reg) (\<lambda>s. s\<lparr>st_attempts := st_attempts s + 1\<rparr>) (ag_per_sender ag),
      ag_attempts_total := ag_attempts_total ag + 1\<rparr>"

definition record_send :: "send_event \<Rightarrow> aggregate_state \<Rightarrow> aggregate_state" where
  "record_send ev ag =
     (let send_at = so_send_at (sv_outcome ev);
          ag1 = (case ag_first_send_at ag of
                   None \<Rightarrow> ag\<lparr>ag_first_send_at := Some send_at\<rparr>
                 | Some t \<Rightarrow> if send_at < t then ag\<lparr>ag_first_send_at := Some send_at\<rparr> else ag);
          ag2 = (case ag_last_send_at ag1 of
                   None \<Rightarrow> ag1\<lparr>ag_last_send_at := Some send_at\<rparr>
                 | Some t \<Rightarrow> if send_at > t then ag1\<lparr>ag_last_send_at := Some send_at\<rparr> else ag1)
      in (case (hm_get (ag_per_sender ag2) (sv_sender_id ev), so_send_ack_at (sv_outcome ev)) of
            (Some stats, Some ack) \<Rightarrow>
              (let rtt_us = trunc_u64 (as_micros (since ack send_at)) in
               ag2\<lparr>ag_per_sender := hm_insert (sv_sender_id ev)
                 (stats\<lparr>st_send_rtt_us_sum := st_send_rtt_us_sum stats + rtt_us,
                        st_send_rtt_us_count := st_send_rtt_us_count stats + 1\<rparr>) (ag_per_sender ag2)\<rparr>)
          | _ \<Rightarrow> ag2))"

definition record_outcome :: "u64 \<Rightarrow> u8 \<Rightarrow> final_outcome \<Rightarrow> u64 option \<Rightarrow> aggregate_state \<Rightarrow> aggregate_state" where
  "record_outcome trigger_id sender_id outcome send_to_observed_us ag = (case outcome of
     Landed \<Rightarrow> ag
       \<lparr>ag_per_sender := with_stats sender_id (\<lambda>s. let s1 = s\<lparr>st_landed := st_landed s + 1\<rparr> in
            (case send_to_observed_us of
               Some us \<Rightarrow> s1\<lparr>st_send_to_observed_us_sum := st_send_to_observed_us_sum s1 + us,
                            st_send_to_observed_us_count := st_send_to_observed_us_count s1 + 1\<rparr>
             | None \<Rightarrow> s1)) (ag_per_sender ag),
        ag_attempts_landed := ag_attempts_landed ag + 1,
        ag_triggers_landed := insert trigger_id (ag_triggers_landed ag)\<rparr>
   | SendError \<Rightarrow> ag
       \<lparr>ag_per_sender := with_stats sender_id (\<lambda>s. s\<lparr>st_send_error := st_send_error s + 1\<rparr>) (ag_per_sender ag),
        ag_attempts_send_error := ag_attempts_send_error ag + 1\<rparr>
   | UnknownPending \<Rightarrow> ag
       \<lparr>ag_per_sender := with_stats sender_id (\<lambda>s. s\<lparr>st_unknown_pending := st_unknown_pending s + 1\<rparr>) (ag_per_sender ag),
        ag_attempts_unknown_pending := ag_attempts_unknown_pending ag + 1\<rparr>)"

record active_window_summary =
  sm_first_send_at_ns :: "u64 option"
  sm_last_send_at_ns :: "u64 option"
  sm_active :: duration
  sm_triggers_attempted :: u64
  sm_triggers_landed :: u64
  sm_attempts_total :: u64
  sm_attempts_landed :: u64
  sm_attempts_send_error :: u64
  sm_attempts_unknown_pending :: u64
  sm_per_sender :: "per_sender_stats list"

definition into_summary :: "instant \<Rightarrow> aggregate_state \<Rightarrow> active_window_summary" where
  "into_summary anchor ag =
     (let ns_since = (\<lambda>t. trunc_u64 (since t anchor)) in
      \<lparr>sm_first_send_at_ns = map_option ns_since (ag_first_send_at ag),
       sm_last_send_at_ns = map_option ns_since (ag_last_send_at ag),
       sm_active = (case (ag_first_send_at ag, ag_last_send_at ag) of (Some a, Some b) \<Rightarrow> since b a | _ \<Rightarrow> 0),
       sm_triggers_attempted = of_nat (card (ag_triggers_attempted ag)),
       sm_triggers_landed = of_nat (card (ag_triggers_landed ag)),
       sm_attempts_total = ag_attempts_total ag,
       sm_attempts_landed = ag_attempts_landed ag,
       sm_attempts_send_error = ag_attempts_send_error ag,
       sm_attempts_unknown_pending = ag_attempts_unknown_pending ag,
       sm_per_sender = sort_key st_sender_id (map snd (ag_per_sender ag))\<rparr>)"

section \<open>State\<close>

record trigger_attempt =
  at_register :: "register_event option"
  at_send :: "send_event option"
  at_matched :: "match_event option"
  at_deadline_at :: instant

record recorder_cfg =
  rk_anchor :: instant
  rk_deadline :: duration
  rk_disk :: "nat \<Rightarrow> bool"
  rk_hashv :: "u8 list list \<Rightarrow> hash"

text \<open>\<open>rc_emitted\<close> is every record made, \<open>rc_file\<close> those the disk took.\<close>

record recorder =
  rc_attempts :: "(attempt_key, trigger_attempt) hmap"
  rc_sig_to_key :: "(signature, attempt_key) hmap"
  rc_agg :: aggregate_state
  rc_counters :: recorder_counters
  rc_emitted :: "trigger_record list"
  rc_file :: "trigger_record list"
  rc_last_sweep :: instant
  rc_nonce_manager :: "nonce_manager option"
  rc_slot_hash_cache :: "slot_hash_cache option"

definition recorder_new :: "instant \<Rightarrow> nonce_manager option \<Rightarrow> slot_hash_cache option \<Rightarrow> recorder" where
  "recorder_new now mgr cache =
     \<lparr>rc_attempts = [], rc_sig_to_key = [], rc_agg = aggregate_new, rc_counters = recorder_counters_new,
      rc_emitted = [], rc_file = [], rc_last_sweep = now, rc_nonce_manager = mgr, rc_slot_hash_cache = cache\<rparr>"

section \<open>A record\<close>

definition source_label :: "source_kind \<Rightarrow> string" where
  "source_label k = (case k of ShredStream \<Rightarrow> ''SS'' | Yellowstone \<Rightarrow> ''YS'')"

definition make_record :: "instant \<Rightarrow> register_event \<Rightarrow> trigger_attempt \<Rightarrow> final_outcome \<Rightarrow> trigger_record" where
  "make_record anchor reg att outcome =
     (let ns_since = (\<lambda>t. trunc_u64 (since t anchor));
          trigger_observed_at_ns = ns_since (rg_trigger_observed_at reg);
          prepared_at_ns = ns_since (rg_prepared_at reg);
          sent = map_option sv_outcome (at_send att);
          send_at_ns = (case sent of Some so \<Rightarrow> ns_since (so_send_at so) | None \<Rightarrow> 0);
          send_ack_at_ns = Option.bind sent (\<lambda>so. map_option ns_since (so_send_ack_at so));
          observed_at_ns = map_option (\<lambda>m. ns_since (mv_observed_at m)) (at_matched att)
      in \<lparr>wr_trigger_id = rg_trigger_id reg, wr_slot = rg_slot reg, wr_tick = rg_tick reg,
          wr_sender_id = rg_sender_id reg, wr_sender_name = rg_sender_name reg,
          wr_endpoint_url = rg_endpoint_url reg, wr_protocol = rg_protocol reg,
          wr_tx_signature = rg_signature reg, wr_blockhash = rg_blockhash reg,
          wr_trigger_observed_at_ns = trigger_observed_at_ns, wr_prepared_at_ns = prepared_at_ns,
          wr_send_at_ns = send_at_ns, wr_send_ack_at_ns = send_ack_at_ns,
          wr_observed_at_ns = observed_at_ns,
          wr_wall_prepared_to_send_ns = map_option (\<lambda>_. sat_sub send_at_ns prepared_at_ns) sent,
          wr_wall_send_rtt_ns = Option.bind sent (\<lambda>_. map_option (\<lambda>ack. sat_sub ack send_at_ns) send_ack_at_ns),
          wr_wall_send_to_observed_ns = Option.bind sent (\<lambda>_. map_option (\<lambda>ob. sat_sub ob send_at_ns) observed_at_ns),
          wr_wall_trigger_to_observed_ns = map_option (\<lambda>ob. sat_sub ob trigger_observed_at_ns) observed_at_ns,
          wr_observed_slot = map_option mv_observed_slot (at_matched att),
          wr_observed_entry_index = map_option mv_observed_entry_index (at_matched att),
          wr_observed_tick = map_option mv_observed_tick (at_matched att),
          wr_observed_source = map_option (\<lambda>m. source_label (mv_observed_source m)) (at_matched att),
          wr_http_status = Option.bind sent so_http_status,
          wr_rpc_err_code = Option.bind sent so_rpc_err_code,
          wr_rpc_err_message = Option.bind sent so_rpc_err_message,
          wr_send_error = Option.bind sent so_error,
          wr_endpoint_url_used = Option.bind sent so_endpoint_url_used,
          wr_provider_request_id = Option.bind sent so_provider_request_id,
          wr_final_outcome = outcome\<rparr>)"

definition count_record :: "final_outcome \<Rightarrow> recorder_counters \<Rightarrow> recorder_counters" where
  "count_record outcome c = (case outcome of
     Landed \<Rightarrow> c\<lparr>rn_records_landed := rn_records_landed c + 1\<rparr>
   | SendError \<Rightarrow> c\<lparr>rn_records_send_error := rn_records_send_error c + 1\<rparr>
   | UnknownPending \<Rightarrow> c\<lparr>rn_records_unknown_pending := rn_records_unknown_pending c + 1\<rparr>)"

definition emit_record :: "recorder_cfg \<Rightarrow> trigger_attempt \<Rightarrow> final_outcome \<Rightarrow> recorder \<Rightarrow> recorder" where
  "emit_record cfg att outcome rc = (case at_register att of
     None \<Rightarrow> rc
   | Some reg \<Rightarrow>
       (let record = make_record (rk_anchor cfg) reg att outcome;
            c = count_record outcome (rc_counters rc);
            ok = rk_disk cfg (length (rc_emitted rc))
        in rc\<lparr>rc_emitted := rc_emitted rc @ [record],
              rc_file := (if ok then rc_file rc @ [record] else rc_file rc),
              rc_counters := (if ok then c else c\<lparr>rn_write_errors := rn_write_errors c + 1\<rparr>)\<rparr>))"

section \<open>Handlers\<close>

definition handle_register :: "recorder_cfg \<Rightarrow> register_event \<Rightarrow> recorder \<Rightarrow> recorder" where
  "handle_register cfg reg rc =
     (let key = (rg_trigger_id reg, rg_sender_id reg) in
      rc\<lparr>rc_sig_to_key := hm_insert (rg_signature reg) key (rc_sig_to_key rc),
         rc_attempts := hm_insert key
           \<lparr>at_register = Some reg, at_send = None, at_matched = None,
            at_deadline_at = rg_trigger_observed_at reg + rk_deadline cfg\<rparr> (rc_attempts rc)\<rparr>)"

text \<open>The end of an attempt, common to the four places: remove it and its signature, write the
  record, update the aggregates.\<close>

definition close_attempt :: "recorder_cfg \<Rightarrow> attempt_key \<Rightarrow> final_outcome \<Rightarrow> (trigger_attempt \<Rightarrow> u64 option) \<Rightarrow> recorder \<Rightarrow> recorder" where
  "close_attempt cfg key outcome delay rc = (case hm_remove key (rc_attempts rc) of
     (None, _) \<Rightarrow> rc
   | (Some att, attempts) \<Rightarrow>
       (let rc1 = rc\<lparr>rc_attempts := attempts,
              rc_sig_to_key := (case at_register att of
                 Some reg \<Rightarrow> hm_delete (rg_signature reg) (rc_sig_to_key rc) | None \<Rightarrow> rc_sig_to_key rc)\<rparr>;
            rc2 = emit_record cfg att outcome rc1
        in (case at_register att of
              Some reg \<Rightarrow> rc2\<lparr>rc_agg := record_outcome (rg_trigger_id reg) (rg_sender_id reg) outcome (delay att) (rc_agg rc2)\<rparr>
            | None \<Rightarrow> rc2)))"

definition handle_send :: "recorder_cfg \<Rightarrow> send_event \<Rightarrow> recorder \<Rightarrow> recorder" where
  "handle_send cfg s rc =
     (let key = (sv_trigger_id s, sv_sender_id s) in
      case hm_get (rc_attempts rc) key of
        None \<Rightarrow> rc
      | Some att \<Rightarrow>
          (let rc1 = rc\<lparr>rc_attempts := hm_insert key (att\<lparr>at_send := Some s\<rparr>) (rc_attempts rc)\<rparr> in
           if so_error (sv_outcome s) \<noteq> None then close_attempt cfg key SendError (\<lambda>_. None) rc1 else rc1))"

text \<open>The nonce hook of a match.\<close>

definition nonce_hook :: "recorder_cfg \<Rightarrow> match_event \<Rightarrow> instant \<Rightarrow> trigger_attempt \<Rightarrow> recorder \<Rightarrow> recorder" where
  "nonce_hook cfg m now att rc = (case (rc_nonce_manager rc, rc_slot_hash_cache rc, at_register att) of
     (Some mgr, Some cache, Some reg) \<Rightarrow> (case rg_nonce_id reg of
        None \<Rightarrow> rc
      | Some nonce_id \<Rightarrow> (case next_nonce_for_landed_slot (rk_hashv cfg) (mv_observed_slot m) 5 cache of
          Some (_, _, next_nonce) \<Rightarrow>
            rc\<lparr>rc_nonce_manager := Some (snd (on_landing_with_blockhash nonce_id next_nonce mgr)),
               rc_counters := (rc_counters rc)\<lparr>rn_nonce_advanced_local := rn_nonce_advanced_local (rc_counters rc) + 1\<rparr>\<rparr>
        | None \<Rightarrow>
            rc\<lparr>rc_nonce_manager := Some (on_observed_landing nonce_id now mgr),
               rc_counters := (rc_counters rc)\<lparr>rn_nonce_local_compute_miss := rn_nonce_local_compute_miss (rc_counters rc) + 1\<rparr>\<rparr>))
   | _ \<Rightarrow> rc)"

definition observed_delay :: "trigger_attempt \<Rightarrow> u64 option" where
  "observed_delay att = (case (at_send att, at_matched att) of
     (Some s, Some m) \<Rightarrow> Some (trunc_u64 (as_micros (since (mv_observed_at m) (so_send_at (sv_outcome s)))))
   | _ \<Rightarrow> None)"

definition handle_match :: "recorder_cfg \<Rightarrow> match_event \<Rightarrow> instant \<Rightarrow> recorder \<Rightarrow> recorder" where
  "handle_match cfg m now rc = (case hm_get (rc_sig_to_key rc) (mv_signature m) of
     None \<Rightarrow> rc
   | Some key \<Rightarrow> (case hm_get (rc_attempts rc) key of
       None \<Rightarrow> rc\<lparr>rc_sig_to_key := hm_delete (mv_signature m) (rc_sig_to_key rc)\<rparr>
     | Some att \<Rightarrow>
         (let att1 = att\<lparr>at_matched := Some m\<rparr>;
              rc1 = rc\<lparr>rc_attempts := hm_insert key att1 (rc_attempts rc)\<rparr>;
              rc2 = nonce_hook cfg m now att1 rc1
          in close_attempt cfg key Landed observed_delay rc2)))"

definition sweep_deadlines :: "recorder_cfg \<Rightarrow> instant \<Rightarrow> recorder \<Rightarrow> recorder" where
  "sweep_deadlines cfg now rc =
     fold (\<lambda>key. close_attempt cfg key UnknownPending (\<lambda>_. None))
       (map fst (filter (\<lambda>(k, att). at_deadline_at att \<le> now) (rc_attempts rc))) rc"

section \<open>The loop\<close>

datatype recorder_event =
    RRegister register_event
  | RSend send_event
  | RMatch match_event instant
  | RIdle
  | RShared "nonce_manager option" "slot_hash_cache option"

fun recorder_handle :: "recorder_cfg \<Rightarrow> recorder_event \<Rightarrow> recorder \<Rightarrow> recorder" where
  "recorder_handle cfg (RRegister reg) rc =
     (let rc1 = rc\<lparr>rc_counters := (rc_counters rc)\<lparr>rn_register_events := rn_register_events (rc_counters rc) + 1\<rparr>,
                   rc_agg := record_register reg (rc_agg rc)\<rparr>
      in handle_register cfg reg rc1)"
| "recorder_handle cfg (RSend s) rc =
     (let rc1 = rc\<lparr>rc_counters := (rc_counters rc)\<lparr>rn_send_events := rn_send_events (rc_counters rc) + 1\<rparr>,
                   rc_agg := record_send s (rc_agg rc)\<rparr>
      in handle_send cfg s rc1)"
| "recorder_handle cfg (RMatch m now) rc =
     (let rc1 = rc\<lparr>rc_counters := (rc_counters rc)\<lparr>rn_match_events := rn_match_events (rc_counters rc) + 1\<rparr>\<rparr>
      in handle_match cfg m now rc1)"
| "recorder_handle cfg RIdle rc = rc"
| "recorder_handle cfg (RShared mgr cache) rc = rc\<lparr>rc_nonce_manager := mgr, rc_slot_hash_cache := cache\<rparr>"

text \<open>A turn: an event, then the sweep when 500 ms passed (clocks: the check, the new mark, the
  sweep's own reading).\<close>

definition recorder_turn :: "recorder_cfg \<Rightarrow> recorder_event \<times> instant \<times> instant \<times> instant \<Rightarrow> recorder \<Rightarrow> recorder" where
  "recorder_turn cfg turn rc =
     (let (ev, t_check, t_mark, t_sweep) = turn;
          rc1 = recorder_handle cfg ev rc
      in if since t_check (rc_last_sweep rc1) \<ge> 500000000
         then sweep_deadlines cfg t_sweep (rc1\<lparr>rc_last_sweep := t_mark\<rparr>)
         else rc1)"

definition recorder_flush :: "recorder_cfg \<Rightarrow> recorder \<Rightarrow> recorder" where
  "recorder_flush cfg rc = fold (\<lambda>key. close_attempt cfg key UnknownPending (\<lambda>_. None)) (hm_keys (rc_attempts rc)) rc"

definition recorder_run ::
    "recorder_cfg \<Rightarrow> (recorder_event \<times> instant \<times> instant \<times> instant) list \<Rightarrow> recorder \<Rightarrow> recorder \<times> active_window_summary" where
  "recorder_run cfg turns rc =
     (let rc1 = recorder_flush cfg (fold (recorder_turn cfg) turns rc)
      in (rc1, into_summary (rk_anchor cfg) (rc_agg rc1)))"

section \<open>Closing an attempt\<close>

definition rkey :: "register_event \<Rightarrow> attempt_key" where
  "rkey reg = (rg_trigger_id reg, rg_sender_id reg)"

definition wkey :: "trigger_record \<Rightarrow> attempt_key" where
  "wkey r = (wr_trigger_id r, wr_sender_id r)"

lemma make_record_fields [simp]:
  "wkey (make_record a reg att oc) = rkey reg" "wr_tx_signature (make_record a reg att oc) = rg_signature reg"
  "wr_final_outcome (make_record a reg att oc) = oc"
  by (simp_all add: make_record_def wkey_def rkey_def Let_def)

lemma close_absent: "hm_get (rc_attempts rc) k = None \<Longrightarrow> close_attempt cfg k oc d rc = rc"
  by (simp add: close_attempt_def hm_remove_def)

lemma close_present:
  assumes "hm_get (rc_attempts rc) k = Some att" "at_register att = Some reg"
  shows "rc_attempts (close_attempt cfg k oc d rc) = hm_delete k (rc_attempts rc)"
    "rc_sig_to_key (close_attempt cfg k oc d rc) = hm_delete (rg_signature reg) (rc_sig_to_key rc)"
    "rc_emitted (close_attempt cfg k oc d rc) = rc_emitted rc @ [make_record (rk_anchor cfg) reg att oc]"
  using assms by (simp_all add: close_attempt_def hm_remove_def emit_record_def Let_def)

section \<open>The books balance\<close>

definition outcomes :: "final_outcome \<Rightarrow> recorder \<Rightarrow> u64" where
  "outcomes oc rc = of_nat (length (filter (\<lambda>r. wr_final_outcome r = oc) (rc_emitted rc)))"

definition balanced :: "recorder \<Rightarrow> bool" where
  "balanced rc \<longleftrightarrow>
     rn_records_landed (rc_counters rc) = outcomes Landed rc \<and> ag_attempts_landed (rc_agg rc) = outcomes Landed rc
   \<and> rn_records_send_error (rc_counters rc) = outcomes SendError rc \<and> ag_attempts_send_error (rc_agg rc) = outcomes SendError rc
   \<and> rn_records_unknown_pending (rc_counters rc) = outcomes UnknownPending rc
   \<and> ag_attempts_unknown_pending (rc_agg rc) = outcomes UnknownPending rc
   \<and> ag_attempts_total (rc_agg rc) = rn_register_events (rc_counters rc)
   \<and> of_nat (length (rc_file rc)) + rn_write_errors (rc_counters rc) = of_nat (length (rc_emitted rc))"

lemma balanced_new: "balanced (recorder_new now mgr cache)"
  by (simp add: balanced_def outcomes_def recorder_new_def recorder_counters_new_def aggregate_new_def)

lemma balanced_maps [simp]:
  "balanced (rc\<lparr>rc_attempts := a\<rparr>) = balanced rc" "balanced (rc\<lparr>rc_sig_to_key := b\<rparr>) = balanced rc"
  "balanced (rc\<lparr>rc_last_sweep := t\<rparr>) = balanced rc" "balanced (rc\<lparr>rc_nonce_manager := m\<rparr>) = balanced rc"
  "balanced (rc\<lparr>rc_slot_hash_cache := h\<rparr>) = balanced rc"
  by (simp_all add: balanced_def outcomes_def)

lemma balanced_close: "balanced rc \<Longrightarrow> balanced (close_attempt cfg k oc d rc)"
  by (cases oc) (auto simp: close_attempt_def hm_remove_def emit_record_def count_record_def record_outcome_def
      balanced_def outcomes_def Let_def algebra_simps split: option.splits prod.splits)

lemma balanced_hook: "balanced rc \<Longrightarrow> balanced (nonce_hook cfg m now att rc)"
  by (auto simp: nonce_hook_def balanced_def outcomes_def split: option.splits prod.splits)

lemma record_send_frame [frame]:
  "ag_attempts_landed (record_send s ag) = ag_attempts_landed ag"
  "ag_attempts_send_error (record_send s ag) = ag_attempts_send_error ag"
  "ag_attempts_unknown_pending (record_send s ag) = ag_attempts_unknown_pending ag"
  "ag_attempts_total (record_send s ag) = ag_attempts_total ag"
  by (auto simp: record_send_def Let_def split: option.splits)

lemma balanced_handle: "balanced rc \<Longrightarrow> balanced (recorder_handle cfg ev rc)"
proof (cases ev)
  case (RRegister reg)
  assume "balanced rc"
  with RRegister show ?thesis
    by (simp add: handle_register_def Let_def balanced_def outcomes_def record_register_def)
next
  case (RSend s)
  assume "balanced rc"
  then have "balanced (rc\<lparr>rc_counters := (rc_counters rc)\<lparr>rn_send_events := n\<rparr>, rc_agg := record_send s (rc_agg rc)\<rparr>)" for n
    by (simp add: balanced_def outcomes_def frame)
  with RSend show ?thesis
    by (auto simp: handle_send_def Let_def intro: balanced_close split: option.splits)
next
  case (RMatch m now)
  assume "balanced rc"
  then have "balanced (rc\<lparr>rc_counters := (rc_counters rc)\<lparr>rn_match_events := n\<rparr>\<rparr>)" for n
    by (simp add: balanced_def outcomes_def)
  with RMatch show ?thesis
    by (auto simp: handle_match_def Let_def intro!: balanced_close balanced_hook split: option.splits)
qed simp_all

lemma balanced_fold_close: "balanced rc \<Longrightarrow> balanced (fold (\<lambda>k. close_attempt cfg k oc d) ks rc)"
  by (rule fold_invariant [where P = balanced]) (rule balanced_close)

lemma balanced_turn: "balanced rc \<Longrightarrow> balanced (recorder_turn cfg turn rc)"
  by (auto simp: recorder_turn_def sweep_deadlines_def Let_def balanced_handle intro!: balanced_fold_close split: prod.splits)

lemma balanced_run: "balanced rc \<Longrightarrow> balanced (fst (recorder_run cfg turns rc))"
  unfolding recorder_run_def Let_def fst_conv recorder_flush_def
  by (intro balanced_fold_close fold_invariant [where P = balanced]) (rule balanced_turn)

text \<open>
  C13. The books balance after any run: the counters and the summary both count the records of each
  outcome, the summary's total is the number of registrations, and every record was written to the
  file or counted as a write error.
\<close>

theorem recorder_books_balance:
  "let (rc, sm) = recorder_run cfg turns (recorder_new now mgr cache); c = rc_counters rc in
     rn_records_landed c = outcomes Landed rc \<and> sm_attempts_landed sm = outcomes Landed rc
   \<and> rn_records_send_error c = outcomes SendError rc \<and> sm_attempts_send_error sm = outcomes SendError rc
   \<and> rn_records_unknown_pending c = outcomes UnknownPending rc \<and> sm_attempts_unknown_pending sm = outcomes UnknownPending rc
   \<and> sm_attempts_total sm = rn_register_events c
   \<and> of_nat (length (rc_file rc)) + rn_write_errors c = (of_nat (length (rc_emitted rc)) :: u64)"
  using balanced_run [OF balanced_new, of cfg turns now mgr cache]
  by (simp add: recorder_run_def into_summary_def Let_def balanced_def)

section \<open>One justified record per attempt\<close>

declare split_paired_All [simp del] split_paired_Ex [simp del]

fun registers :: "recorder_event list \<Rightarrow> register_event list" where
  "registers [] = []"
| "registers (RRegister reg # es) = reg # registers es"
| "registers (_ # es) = registers es"

lemma registers_snoc: "registers (es @ [ev]) = registers es @ (case ev of RRegister reg \<Rightarrow> [reg] | _ \<Rightarrow> [])"
  by (induction es rule: registers.induct) (auto split: recorder_event.splits)

text \<open>What is known of an open attempt: its registration, and that its send event was received.\<close>

definition att_ok :: "recorder_event list \<Rightarrow> attempt_key \<Rightarrow> trigger_attempt \<Rightarrow> bool" where
  "att_ok es k att \<longleftrightarrow> (\<exists>reg \<in> set (registers es). at_register att = Some reg \<and> rkey reg = k)
     \<and> (\<forall>s. at_send att = Some s \<longrightarrow> RSend s \<in> set es \<and> (sv_trigger_id s, sv_sender_id s) = k)"

text \<open>What a record rests on: it describes an attempt of a registration, \<open>Landed\<close> only with a match
  of its signature, \<open>SendError\<close> only with a send event that failed.\<close>

definition justified :: "instant \<Rightarrow> recorder_event list \<Rightarrow> trigger_record \<Rightarrow> bool" where
  "justified anchor es r \<longleftrightarrow> (\<exists>reg att oc. r = make_record anchor reg att oc
     \<and> at_register att = Some reg \<and> att_ok es (rkey reg) att
     \<and> (oc = Landed \<longrightarrow> (\<exists>m t. at_matched att = Some m \<and> RMatch m t \<in> set es \<and> mv_signature m = rg_signature reg))
     \<and> (oc = SendError \<longrightarrow> (\<exists>s. at_send att = Some s \<and> so_error (sv_outcome s) \<noteq> None)))"

definition rec_ok :: "instant \<Rightarrow> recorder_event list \<Rightarrow> recorder \<Rightarrow> bool" where
  "rec_ok anchor es rc \<longleftrightarrow> hm_ok (rc_attempts rc)
     \<and> (\<forall>k att. hm_get (rc_attempts rc) k = Some att \<longrightarrow> att_ok es k att)
     \<and> (\<forall>s k. hm_get (rc_sig_to_key rc) s = Some k \<longrightarrow> (\<exists>reg \<in> set (registers es). rg_signature reg = s \<and> rkey reg = k))
     \<and> (\<forall>r \<in> set (rc_emitted rc). justified anchor es r)
     \<and> mset (map wkey (rc_emitted rc)) + mset (hm_keys (rc_attempts rc)) = mset (map rkey (registers es))"

lemma att_ok_mono: "att_ok es k att \<Longrightarrow> att_ok (es @ [ev]) k att"
  by (auto simp: att_ok_def registers_snoc)

lemma justified_mono: "justified a es r \<Longrightarrow> justified a (es @ [ev]) r"
  unfolding justified_def by (metis att_ok_mono UnI1 set_append)

lemma mset_keys_delete: "hm_ok m \<Longrightarrow> hm_get m k \<noteq> None \<Longrightarrow>
    add_mset k (mset (hm_keys (hm_delete k m))) = mset (hm_keys m)"
  using hm_distinct_keys [of m] hm_keys_get [of k m]
  by (simp add: hm_keys_delete distinct_remove1_removeAll [symmetric])

lemma rec_ok_close:
  assumes "rec_ok (rk_anchor cfg) es rc"
    and "\<And>att reg. hm_get (rc_attempts rc) k = Some att \<Longrightarrow> at_register att = Some reg \<Longrightarrow>
      (oc = Landed \<longrightarrow> (\<exists>m t. at_matched att = Some m \<and> RMatch m t \<in> set es \<and> mv_signature m = rg_signature reg))
      \<and> (oc = SendError \<longrightarrow> (\<exists>s. at_send att = Some s \<and> so_error (sv_outcome s) \<noteq> None))"
  shows "rec_ok (rk_anchor cfg) es (close_attempt cfg k oc d rc)"
proof (cases "hm_get (rc_attempts rc) k")
  case None
  with assms(1) show ?thesis by (simp add: close_absent)
next
  case (Some att)
  then have ok: "att_ok es k att" using assms(1) by (simp add: rec_ok_def)
  then obtain reg where reg: "at_register att = Some reg" "rkey reg = k" by (auto simp: att_ok_def)
  have "justified (rk_anchor cfg) es (make_record (rk_anchor cfg) reg att oc)"
    unfolding justified_def using assms(2) [OF Some reg(1)] ok reg by blast
  moreover have "mset (map wkey (rc_emitted rc)) + add_mset k (mset (hm_keys (hm_delete k (rc_attempts rc)))) = mset (map rkey (registers es))"
    using assms(1) Some by (simp add: rec_ok_def mset_keys_delete)
  ultimately show ?thesis
    using assms(1) reg(2) unfolding rec_ok_def close_present [OF Some reg(1)] by auto
qed

lemma rec_ok_set_attempt:
  assumes "rec_ok a es rc" "hm_get (rc_attempts rc) k = Some att" "att_ok es k att'"
  shows "rec_ok a es (rc\<lparr>rc_attempts := hm_insert k att' (rc_attempts rc)\<rparr>)"
  using assms by (simp add: rec_ok_def hm_keys_insert)

lemma rec_ok_sig_delete: "rec_ok a es rc \<Longrightarrow> rec_ok a es (rc\<lparr>rc_sig_to_key := hm_delete s (rc_sig_to_key rc)\<rparr>)"
  by (simp add: rec_ok_def)

lemma rec_ok_frame:
  assumes "rec_ok a es rc" "rc_attempts rc' = rc_attempts rc" "rc_sig_to_key rc' = rc_sig_to_key rc" "rc_emitted rc' = rc_emitted rc"
  shows "rec_ok a es rc'"
  using assms by (simp add: rec_ok_def)

lemma rec_ok_event: "rec_ok a es rc \<Longrightarrow> registers (es @ [ev]) = registers es \<Longrightarrow> rec_ok a (es @ [ev]) rc"
  by (auto simp: rec_ok_def intro: att_ok_mono justified_mono)

lemma nonce_hook_frame [frame]:
  "rc_attempts (nonce_hook cfg m now att rc) = rc_attempts rc"
  "rc_sig_to_key (nonce_hook cfg m now att rc) = rc_sig_to_key rc"
  "rc_emitted (nonce_hook cfg m now att rc) = rc_emitted rc"
  by (auto simp: nonce_hook_def split: option.splits prod.splits)

lemma rec_ok_register:
  assumes "rec_ok a es rc" "rkey reg \<notin> set (map rkey (registers es))"
  shows "rec_ok a (es @ [RRegister reg]) (handle_register cfg reg rc)"
proof -
  have "hm_get (rc_attempts rc) (rkey reg) = None"
  proof (rule ccontr)
    assume "hm_get (rc_attempts rc) (rkey reg) \<noteq> None"
    then obtain att where "att_ok es (rkey reg) att" using assms(1) by (auto simp: rec_ok_def)
    with assms(2) show False unfolding att_ok_def by (metis image_eqI list.set_map)
  qed
  moreover have "att_ok (es @ [RRegister reg]) (rkey reg)
      \<lparr>at_register = Some reg, at_send = None, at_matched = None, at_deadline_at = t\<rparr>" for t
    by (simp add: att_ok_def registers_snoc)
  ultimately show ?thesis
    using assms(1) unfolding handle_register_def Let_def rkey_def [symmetric] rec_ok_def
    by (auto simp: hm_keys_insert registers_snoc intro: att_ok_mono justified_mono)
qed

lemma rec_ok_send:
  assumes "rec_ok (rk_anchor cfg) es rc" "RSend s \<in> set es"
  shows "rec_ok (rk_anchor cfg) es (handle_send cfg s rc)"
proof (cases "hm_get (rc_attempts rc) (sv_trigger_id s, sv_sender_id s)")
  case None
  with assms(1) show ?thesis by (simp add: handle_send_def Let_def)
next
  case (Some att)
  let ?k = "(sv_trigger_id s, sv_sender_id s)"
  have "att_ok es ?k att" using assms(1) Some by (simp add: rec_ok_def)
  then have "att_ok es ?k (att\<lparr>at_send := Some s\<rparr>)" using assms(2) by (simp add: att_ok_def)
  from rec_ok_set_attempt [OF assms(1) Some this] Some show ?thesis
    unfolding handle_send_def Let_def by (auto intro!: rec_ok_close)
qed

lemma rec_ok_match:
  assumes "rec_ok (rk_anchor cfg) es rc" "RMatch m t \<in> set es" "distinct (map rkey (registers es))"
  shows "rec_ok (rk_anchor cfg) es (handle_match cfg m now rc)"
proof (cases "hm_get (rc_sig_to_key rc) (mv_signature m)")
  case None
  with assms(1) show ?thesis by (simp add: handle_match_def)
next
  case (Some k)
  show ?thesis
  proof (cases "hm_get (rc_attempts rc) k")
    case None
    with assms(1) Some show ?thesis by (simp add: handle_match_def rec_ok_sig_delete)
  next
    case att: (Some att)
    let ?rc1 = "rc\<lparr>rc_attempts := hm_insert k (att\<lparr>at_matched := Some m\<rparr>) (rc_attempts rc)\<rparr>"
    have ok: "att_ok es k att" using assms(1) att by (simp add: rec_ok_def)
    then have "rec_ok (rk_anchor cfg) es ?rc1"
      by (intro rec_ok_set_attempt [OF assms(1) att]) (simp add: att_ok_def)
    then have hook: "rec_ok (rk_anchor cfg) es (nonce_hook cfg m now (att\<lparr>at_matched := Some m\<rparr>) ?rc1)"
      by (rule rec_ok_frame) (simp_all add: frame)
    obtain reg where reg: "reg \<in> set (registers es)" "rg_signature reg = mv_signature m" "rkey reg = k"
      using assms(1) Some unfolding rec_ok_def by blast
    have same: "reg' = reg" if "reg' \<in> set (registers es)" "rkey reg' = k" for reg'
      using assms(3) that reg by (auto simp: distinct_map inj_on_def)
    have "mv_signature m = rg_signature reg'" if "at_register att = Some reg'" for reg'
      using ok same reg(2) that by (auto simp: att_ok_def)
    then have "rec_ok (rk_anchor cfg) es (close_attempt cfg k Landed observed_delay
        (nonce_hook cfg m now (att\<lparr>at_matched := Some m\<rparr>) ?rc1))"
      by (intro rec_ok_close [OF hook]) (use assms(2) in \<open>fastforce simp: frame\<close>)
    with Some att show ?thesis by (simp add: handle_match_def Let_def)
  qed
qed

lemma rec_ok_handle:
  assumes "rec_ok (rk_anchor cfg) es rc" "distinct (map rkey (registers (es @ [ev])))"
  shows "rec_ok (rk_anchor cfg) (es @ [ev]) (recorder_handle cfg ev rc)"
proof (cases ev)
  case (RRegister reg)
  have "rec_ok (rk_anchor cfg) es (rc\<lparr>rc_counters := c, rc_agg := ag\<rparr>)" for c ag
    by (rule rec_ok_frame [OF assms(1)]) simp_all
  with rec_ok_register [of "rk_anchor cfg" es _ reg cfg] assms(2) RRegister show ?thesis
    by (simp add: Let_def registers_snoc)
next
  case (RSend s)
  have "rec_ok (rk_anchor cfg) es (rc\<lparr>rc_counters := c, rc_agg := ag\<rparr>)" for c ag
    by (rule rec_ok_frame [OF assms(1)]) simp_all
  then have "rec_ok (rk_anchor cfg) (es @ [RSend s]) (rc\<lparr>rc_counters := c, rc_agg := ag\<rparr>)" for c ag
    by (rule rec_ok_event) (simp add: registers_snoc)
  with RSend show ?thesis by (simp add: Let_def rec_ok_send)
next
  case (RMatch m t)
  have "rec_ok (rk_anchor cfg) es (rc\<lparr>rc_counters := c\<rparr>)" for c
    by (rule rec_ok_frame [OF assms(1)]) simp_all
  then have "rec_ok (rk_anchor cfg) (es @ [RMatch m t]) (rc\<lparr>rc_counters := c\<rparr>)" for c
    by (rule rec_ok_event) (simp add: registers_snoc)
  from rec_ok_match [OF this, of m t] RMatch assms(2) show ?thesis by (simp add: Let_def)
next
  case RIdle
  with assms(1) show ?thesis by (simp add: rec_ok_event registers_snoc)
next
  case (RShared mgr cache)
  have "rec_ok (rk_anchor cfg) es (rc\<lparr>rc_nonce_manager := mgr, rc_slot_hash_cache := cache\<rparr>)"
    by (rule rec_ok_frame [OF assms(1)]) simp_all
  with RShared show ?thesis by (simp add: rec_ok_event registers_snoc)
qed

lemma rec_ok_fold_close:
  "rec_ok (rk_anchor cfg) es rc \<Longrightarrow> rec_ok (rk_anchor cfg) es (fold (\<lambda>k. close_attempt cfg k UnknownPending d) ks rc)"
  by (rule fold_invariant [where P = "rec_ok (rk_anchor cfg) es"]) (simp_all add: rec_ok_close)

lemma rec_ok_turn:
  assumes "rec_ok (rk_anchor cfg) es rc" "distinct (map rkey (registers (es @ [fst turn])))"
  shows "rec_ok (rk_anchor cfg) (es @ [fst turn]) (recorder_turn cfg turn rc)"
proof -
  have h: "rec_ok (rk_anchor cfg) (es @ [fst turn]) (recorder_handle cfg (fst turn) rc)"
    using assms by (rule rec_ok_handle)
  then have "rec_ok (rk_anchor cfg) (es @ [fst turn]) ((recorder_handle cfg (fst turn) rc)\<lparr>rc_last_sweep := t\<rparr>)" for t
    by (rule rec_ok_frame) simp_all
  with h show ?thesis
    by (auto simp: recorder_turn_def sweep_deadlines_def Let_def intro: rec_ok_fold_close split: prod.splits)
qed

lemma rec_ok_turns:
  "rec_ok (rk_anchor cfg) es rc \<Longrightarrow> distinct (map rkey (registers (es @ map fst turns))) \<Longrightarrow>
     rec_ok (rk_anchor cfg) (es @ map fst turns) (fold (recorder_turn cfg) turns rc)"
proof (induction turns arbitrary: es rc)
  case (Cons turn turns)
  have app: "registers (es @ es') = registers es @ registers es'" for es'
    by (induction es rule: registers.induct) simp_all
  have "distinct (map rkey (registers (es @ [fst turn])))"
    using Cons.prems(2) by (cases "fst turn") (auto simp: app)
  from rec_ok_turn [OF Cons.prems(1) this] Cons.prems(2)
    Cons.IH [of "es @ [fst turn]" "recorder_turn cfg turn rc"] show ?case by simp
qed simp

lemma fold_close_empties:
  assumes "rec_ok (rk_anchor cfg) es rc"
  shows "hm_keys (rc_attempts (fold (\<lambda>k. close_attempt cfg k UnknownPending d) ks rc)) =
    filter (\<lambda>k. k \<notin> set ks) (hm_keys (rc_attempts rc))"
  using assms
proof (induction ks arbitrary: rc)
  case (Cons k ks)
  have one: "hm_keys (rc_attempts (close_attempt cfg k UnknownPending d rc)) = removeAll k (hm_keys (rc_attempts rc))"
  proof (cases "hm_get (rc_attempts rc) k")
    case None
    then have "k \<notin> set (hm_keys (rc_attempts rc))" by (simp add: hm_keys_get)
    with None show ?thesis by (simp add: close_absent)
  next
    case (Some att)
    then obtain reg where "at_register att = Some reg" using Cons.prems unfolding rec_ok_def att_ok_def by blast
    from close_present(1) [OF Some this] show ?thesis by (simp add: hm_keys_delete)
  qed
  have "rec_ok (rk_anchor cfg) es (close_attempt cfg k UnknownPending d rc)"
    using Cons.prems by (rule rec_ok_close) simp
  from Cons.IH [OF this] one show ?case
    by (simp add: removeAll_filter_not_eq) (metis (lifting) filter_cong)
qed simp

lemma recorder_ok_turns:
  assumes "distinct (map rkey (registers (map fst turns)))"
  shows "rec_ok (rk_anchor cfg) (map fst turns) (fold (recorder_turn cfg) turns (recorder_new now mgr cache))"
proof -
  have "rec_ok (rk_anchor cfg) [] (recorder_new now mgr cache)"
    by (simp add: rec_ok_def recorder_new_def hm_keys_def)
  from rec_ok_turns [OF this, of turns] assms show ?thesis by simp
qed

lemma recorder_ok_run:
  assumes "distinct (map rkey (registers (map fst turns)))"
  shows "rec_ok (rk_anchor cfg) (map fst turns) (fst (recorder_run cfg turns (recorder_new now mgr cache)))"
  unfolding recorder_run_def Let_def fst_conv recorder_flush_def
  using recorder_ok_turns [OF assms] by (rule rec_ok_fold_close)

text \<open>
  C5. If no attempt is registered twice, every registered attempt has exactly one record after the
  run, and nothing else has; a record says \<open>Landed\<close> only if a match event carried the signature
  that was registered for its trigger and sender, and \<open>SendError\<close> only if its own send failed.
\<close>

theorem recorder_one_record_each:
  assumes "distinct (map rkey (registers (map fst turns)))"
  shows "let rc = fst (recorder_run cfg turns (recorder_new now mgr cache)) in
     mset (map wkey (rc_emitted rc)) = mset (map rkey (registers (map fst turns)))
   \<and> rc_attempts rc = []
   \<and> (\<forall>r \<in> set (rc_emitted rc). justified (rk_anchor cfg) (map fst turns) r)"
proof -
  let ?rc = "fst (recorder_run cfg turns (recorder_new now mgr cache))"
  note ok = recorder_ok_run [OF assms, of cfg now mgr cache]
  have "hm_keys (rc_attempts ?rc) = []"
    using fold_close_empties [OF recorder_ok_turns [OF assms, of cfg now mgr cache]]
    by (simp add: recorder_run_def recorder_flush_def Let_def)
  with ok show ?thesis by (simp add: Let_def rec_ok_def hm_keys_def)
qed

section \<open>Order matters between the channels\<close>

definition sample_register :: "u64 \<Rightarrow> u8 \<Rightarrow> signature \<Rightarrow> nonce_id option \<Rightarrow> register_event" where
  "sample_register trigger sender sig nonce =
     \<lparr>rg_trigger_id = trigger, rg_sender_id = sender, rg_sender_name = ''s'', rg_endpoint_url = ''u'',
      rg_protocol = ''p'', rg_signature = sig, rg_slot = 100, rg_tick = 3, rg_trigger_observed_at = 5,
      rg_prepared_at = 4, rg_blockhash = 9, rg_nonce_id = nonce\<rparr>"

definition sample_send :: "u64 \<Rightarrow> u8 \<Rightarrow> signature \<Rightarrow> string option \<Rightarrow> send_event" where
  "sample_send trigger sender sig err =
     \<lparr>sv_trigger_id = trigger, sv_sender_id = sender, sv_outcome =
       \<lparr>so_send_at = 6, so_send_ack_at = Some 7, so_signature = sig, so_http_status = Some 200,
        so_rpc_err_code = None, so_rpc_err_message = None, so_provider_request_id = None,
        so_error = err, so_endpoint_url_used = Some ''u''\<rparr>\<rparr>"

definition sample_match :: "signature \<Rightarrow> u64 \<Rightarrow> match_event" where
  "sample_match sig slot = \<lparr>mv_signature = sig, mv_observed_at = 8, mv_observed_slot = slot,
     mv_observed_entry_index = 2, mv_observed_tick = 3, mv_observed_source = ShredStream\<rparr>"

definition sample_cfg :: recorder_cfg where
  "sample_cfg = \<lparr>rk_anchor = 0, rk_deadline = 90, rk_disk = (\<lambda>n. True), rk_hashv = (\<lambda>bs. 9)\<rparr>"

lemmas recorder_eval = recorder_run_def recorder_turn_def recorder_flush_def recorder_new_def
  handle_register_def handle_send_def handle_match_def nonce_hook_def close_attempt_def hm_remove_def
  emit_record_def sample_register_def sample_send_def sample_match_def sample_cfg_def Let_def
  since_def hm_keys_def hm_insert_def hm_delete_def hm_get_def

text \<open>
  The three channels are not ordered against each other: \<open>select!\<close> may serve a send or a match
  event before the registration it belongs to, and then it is lost.  The attempt whose send failed,
  and the one whose transaction landed, both end as \<open>UnknownPending\<close> without a trace of it; and a
  match that comes after a failed send is ignored although the transaction landed.
\<close>

theorem recorder_loses_early_events:
  "let out = (\<lambda>evs. map (\<lambda>r. (wr_final_outcome r, wr_send_error r, wr_observed_slot r))
        (rc_emitted (fst (recorder_run sample_cfg (map (\<lambda>e. (e, 0, 0, 0)) evs) (recorder_new 0 None None)))));
      reg = RRegister (sample_register 1 2 77 None);
      err = RSend (sample_send 1 2 77 (Some ''x'')); land = RMatch (sample_match 77 101) 8 in
     out [reg, err] = [(SendError, Some ''x'', None)] \<and> out [err, reg] = [(UnknownPending, None, None)]
   \<and> out [reg, land] = [(Landed, None, Some 101)] \<and> out [land, reg] = [(UnknownPending, None, None)]
   \<and> out [reg, err, land] = [(SendError, Some ''x'', None)]"
  by (simp add: recorder_eval) (simp add: make_record_def Let_def)

theorem recorder_one_record_each_witness:
  "mset (map wkey (rc_emitted (fst (recorder_run sample_cfg
     (map (\<lambda>e. (e, 0, 0, 0)) [RRegister (sample_register 1 2 77 None), RRegister (sample_register 1 3 78 None), RMatch (sample_match 78 101) 8])
     (recorder_new 0 None None))))) = {#(1, 2), (1, 3)#}"
proof -
  let ?ts = "map (\<lambda>e. (e, 0, 0, 0)) [RRegister (sample_register 1 2 77 None), RRegister (sample_register 1 3 78 None), RMatch (sample_match 78 101) 8]
    :: (recorder_event \<times> instant \<times> instant \<times> instant) list"
  have "distinct (map rkey (registers (map fst ?ts)))" by (simp add: rkey_def sample_register_def)
  from recorder_one_record_each [OF this, of sample_cfg 0 None None] show ?thesis
    by (simp add: Let_def rkey_def sample_register_def)
qed

end
