(* ===== verification/Dispatcher.thy ===== *)
theory Dispatcher
  imports Preparer Recorder JitoTip
begin

text \<open>
  The dispatcher (\<open>crates/tick-trigger-fan-out-bench/src/bin/phase3_run.rs\<close>): the set-up of the
  senders and the dispatcher loop.  One trigger is one step on the state shared with the preparer
  (the pool) and the engine (the pending signatures).  A spawned send is recorded with its
  arguments; what its task reports is \<open>task_event\<close>.
\<close>

section \<open>Set-up of the senders\<close>

record client =
  cl_endpoint_url :: string
  cl_protocol :: string

datatype setup_error = NoEnabledSenders | JitoWithoutRegion string u8

record sender_setup =
  su_senders_by_id :: "(u8, client) hmap"
  su_jito_tip_handles :: "(u8, u64) hmap"

text \<open>The client of a sender: Helius shows its URL, Triton the redacted one, Jito its template.\<close>

definition client_of :: "sender_config \<Rightarrow> client" where
  "client_of sc = (case sd_kind sc of
     Helius \<Rightarrow> \<lparr>cl_endpoint_url = sd_endpoint_url sc, cl_protocol = ''HTTP_JSONRPC''\<rparr>
   | Jito \<Rightarrow> \<lparr>cl_endpoint_url = sd_endpoint_url sc, cl_protocol = ''JITO''\<rparr>
   | Triton \<Rightarrow> \<lparr>cl_endpoint_url = redact_endpoint (sd_endpoint_url sc), cl_protocol = ''TRITON''\<rparr>)"

text \<open>A Jito sender starts with its tip at the floor.\<close>

fun setup_senders :: "sender_config list \<Rightarrow> sender_setup \<Rightarrow> setup_error + sender_setup" where
  "setup_senders [] su = Inr su"
| "setup_senders (sc # scs) su =
     (if sd_kind sc = Jito \<and> sd_regions sc = [] then Inl (JitoWithoutRegion (sd_name sc) (sd_id sc))
      else setup_senders scs
        (su\<lparr>su_senders_by_id := hm_insert (sd_id sc) (client_of sc) (su_senders_by_id su),
            su_jito_tip_handles := (if sd_kind sc = Jito
              then hm_insert (sd_id sc)
                (tu_current_lamports (tip_updater_new (sd_tip_percentile sc) (sd_tip_floor_lamports sc) (sd_tip_ceiling_lamports sc)))
                (su_jito_tip_handles su)
              else su_jito_tip_handles su)\<rparr>))"

definition configure_senders :: "sender_config list \<Rightarrow> setup_error + sender_config list \<times> sender_setup" where
  "configure_senders senders =
     (let enabled_senders = filter sd_enabled senders in
      if enabled_senders = [] then Inl NoEnabledSenders
      else (case setup_senders enabled_senders \<lparr>su_senders_by_id = [], su_jito_tip_handles = []\<rparr> of
              Inl e \<Rightarrow> Inl e
            | Inr su \<Rightarrow> Inr (enabled_senders, su)))"

section \<open>The dispatcher\<close>

record dispatcher_counters =
  dn_pool_hits :: u64
  dn_pool_misses_fallback_built :: u64
  dn_pool_misses_skipped_no_blockhash :: u64

record dispatcher_cfg =
  df_senders :: "sender_config list"
  df_senders_by_id :: "(u8, client) hmap"
  df_keypair :: keypair
  df_tx_cfg :: tx_config
  df_nonce_mode :: bool

record spawned =
  sp_trigger_id :: u64
  sp_sender_id :: u8
  sp_tx :: transaction

record dispatcher =
  ds_pool :: tx_pool
  ds_pending_sigs :: "signature set"
  ds_blockhash_cache :: blockhash_cache
  ds_rotators :: "(u8, tip_rotator) hmap"
  ds_register_tx :: "register_event chan"
  ds_spawned :: "spawned list"
  ds_counters :: dispatcher_counters

definition dispatcher_new ::
    "(sender_kind \<Rightarrow> pubkey list) \<Rightarrow> dispatcher_cfg \<Rightarrow> nat option \<Rightarrow> dispatcher" where
  "dispatcher_new tips cfg cap =
     \<lparr>ds_pool = [], ds_pending_sigs = {}, ds_blockhash_cache = cache_new,
      ds_rotators = hm_of sd_id (\<lambda>s. rotator_new (tips (sd_kind s))) (df_senders cfg),
      ds_register_tx = chan_new cap, ds_spawned = [],
      ds_counters = \<lparr>dn_pool_hits = 0, dn_pool_misses_fallback_built = 0,
                     dn_pool_misses_skipped_no_blockhash = 0\<rparr>\<rparr>"

text \<open>The fallback of a pool miss: one variant per enabled sender, in order; \<open>clk\<close> is the clock.\<close>

definition fallback_tip :: "sender_config \<Rightarrow> (u8, tip_rotator) hmap \<Rightarrow> pubkey option \<times> (u8, tip_rotator) hmap" where
  "fallback_tip sc rots =
     (if sd_tip_lamports sc > 0
      then (case hm_get rots (sd_id sc) of
              None \<Rightarrow> (None, rots)
            | Some r \<Rightarrow> (let (tip, r') = rotator_next r in (tip, hm_insert (sd_id sc) r' rots)))
      else (None, rots))"

definition fallback_variant :: "dispatcher_cfg \<Rightarrow> trigger_event \<Rightarrow> hash \<Rightarrow> instant \<Rightarrow> sender_config \<Rightarrow> pubkey option \<Rightarrow> pre_signed_tx" where
  "fallback_variant cfg trig bh now sc tip =
     (let built = build \<lparr>bp_payer = df_keypair cfg, bp_blockhash = bh, bp_sender_id = sd_id sc,
            bp_trigger_id = te_trigger_id trig, bp_tip_account = tip, bp_tip_lamports = sd_tip_lamports sc,
            bp_nonce = None, bp_tx_cfg = df_tx_cfg cfg, bp_fund_tipper = None\<rparr>
      in \<lparr>pt_sender_id = sd_id sc, pt_tx = built, pt_signature = tr_signature built, pt_blockhash = bh,
          pt_prepared_at = now, pt_nonce_id = None, pt_bundle_metadata = None\<rparr>)"

fun build_fallback ::
    "dispatcher_cfg \<Rightarrow> trigger_event \<Rightarrow> hash \<Rightarrow> (nat \<Rightarrow> instant) \<Rightarrow> sender_config list \<Rightarrow> (u8, tip_rotator) hmap \<Rightarrow>
     pre_signed_tx list \<times> (u8, tip_rotator) hmap" where
  "build_fallback cfg trig bh clk [] rots = ([], rots)"
| "build_fallback cfg trig bh clk (sc # scs) rots =
     (let (tip, rots1) = fallback_tip sc rots;
          (vs, rots2) = build_fallback cfg trig bh (\<lambda>i. clk (Suc i)) scs rots1
      in (fallback_variant cfg trig bh (clk 0) sc tip # vs, rots2))"

text \<open>The variants of a trigger; \<open>None\<close> skips it.\<close>

definition trigger_variants :: "dispatcher_cfg \<Rightarrow> (nat \<Rightarrow> instant) \<Rightarrow> trigger_event \<Rightarrow> dispatcher \<Rightarrow> pre_signed_tx list option \<times> dispatcher" where
  "trigger_variants cfg clk trig ds = (case pool_take (te_slot trig, te_tick trig) (ds_pool ds) of
     (Some v, pool) \<Rightarrow> (Some v, ds\<lparr>ds_pool := pool,
        ds_counters := (ds_counters ds)\<lparr>dn_pool_hits := dn_pool_hits (ds_counters ds) + 1\<rparr>\<rparr>)
   | (None, pool) \<Rightarrow>
       if df_nonce_mode cfg \<or> cache_is_empty (ds_blockhash_cache ds)
       then (None, ds\<lparr>ds_pool := pool, ds_counters := (ds_counters ds)\<lparr>dn_pool_misses_skipped_no_blockhash :=
              dn_pool_misses_skipped_no_blockhash (ds_counters ds) + 1\<rparr>\<rparr>)
       else (let (v, rots) = build_fallback cfg trig (bc_inner (ds_blockhash_cache ds)) clk (df_senders cfg) (ds_rotators ds)
             in (Some v, ds\<lparr>ds_pool := pool, ds_rotators := rots,
                  ds_counters := (ds_counters ds)\<lparr>dn_pool_misses_fallback_built :=
                    dn_pool_misses_fallback_built (ds_counters ds) + 1\<rparr>\<rparr>)))"

definition registration :: "trigger_event \<Rightarrow> sender_config \<Rightarrow> client \<Rightarrow> pre_signed_tx \<Rightarrow> register_event" where
  "registration trig sc cl v =
     \<lparr>rg_trigger_id = te_trigger_id trig, rg_sender_id = sd_id sc, rg_sender_name = sd_name sc,
      rg_endpoint_url = cl_endpoint_url cl, rg_protocol = cl_protocol cl, rg_signature = pt_signature v,
      rg_slot = te_slot trig, rg_tick = te_tick trig, rg_trigger_observed_at = te_trigger_observed_at trig,
      rg_prepared_at = pt_prepared_at v, rg_blockhash = pt_blockhash v, rg_nonce_id = pt_nonce_id v\<rparr>"

definition fan_out :: "dispatcher_cfg \<Rightarrow> trigger_event \<Rightarrow> pre_signed_tx \<Rightarrow> dispatcher \<Rightarrow> dispatcher" where
  "fan_out cfg trig v ds =
     (let ds1 = ds\<lparr>ds_pending_sigs := insert (pt_signature v) (ds_pending_sigs ds)\<rparr> in
      case find (\<lambda>s. sd_id s = pt_sender_id v) (df_senders cfg) of
        None \<Rightarrow> ds1
      | Some sc \<Rightarrow> (case hm_get (df_senders_by_id cfg) (pt_sender_id v) of
          None \<Rightarrow> ds1
        | Some cl \<Rightarrow> ds1
            \<lparr>ds_register_tx := fst (try_send (ds_register_tx ds1) (registration trig sc cl v)),
             ds_spawned := ds_spawned ds1 @ [\<lparr>sp_trigger_id = te_trigger_id trig, sp_sender_id = sd_id sc, sp_tx = pt_tx v\<rparr>]\<rparr>))"

definition dispatch :: "dispatcher_cfg \<Rightarrow> (nat \<Rightarrow> instant) \<Rightarrow> trigger_event \<Rightarrow> dispatcher \<Rightarrow> dispatcher" where
  "dispatch cfg clk trig ds = (case trigger_variants cfg clk trig ds of
     (None, ds1) \<Rightarrow> ds1
   | (Some vs, ds1) \<Rightarrow> fold (fan_out cfg trig) vs ds1)"

text \<open>The event a send task reports when its send returns.\<close>

definition task_event :: "spawned \<Rightarrow> send_outcome \<Rightarrow> send_event" where
  "task_event sp outcome = \<lparr>sv_trigger_id = sp_trigger_id sp, sv_sender_id = sp_sender_id sp, sv_outcome = outcome\<rparr>"

text \<open>The other threads in between: the preparer inserts and evicts, the engine clears signatures,
  the refresher replaces the cache.\<close>

datatype dispatcher_event =
    DTrigger trigger_event "nat \<Rightarrow> instant"
  | DPoolInsert "u64 \<times> u8" "pre_signed_tx list"
  | DPoolEvict u64
  | DPendingRemove signature
  | DBlockhash blockhash_cache

fun dispatcher_step :: "dispatcher_cfg \<Rightarrow> dispatcher_event \<Rightarrow> dispatcher \<Rightarrow> dispatcher" where
  "dispatcher_step cfg (DTrigger trig clk) ds = dispatch cfg clk trig ds"
| "dispatcher_step cfg (DPoolInsert k vs) ds = ds\<lparr>ds_pool := pool_insert_all k vs (ds_pool ds)\<rparr>"
| "dispatcher_step cfg (DPoolEvict c) ds = ds\<lparr>ds_pool := pool_evict_below c (ds_pool ds)\<rparr>"
| "dispatcher_step cfg (DPendingRemove s) ds = ds\<lparr>ds_pending_sigs := ds_pending_sigs ds - {s}\<rparr>"
| "dispatcher_step cfg (DBlockhash c) ds = ds\<lparr>ds_blockhash_cache := c\<rparr>"

definition dispatcher_run :: "dispatcher_cfg \<Rightarrow> dispatcher_event list \<Rightarrow> dispatcher \<Rightarrow> dispatcher" where
  "dispatcher_run cfg es ds = fold (dispatcher_step cfg) es ds"

section \<open>Every send is registered first\<close>

definition reg_id :: "register_event \<Rightarrow> u64 \<times> u8 \<times> signature" where
  "reg_id r = (rg_trigger_id r, rg_sender_id r, rg_signature r)"

definition spawn_id :: "spawned \<Rightarrow> u64 \<times> u8 \<times> signature" where
  "spawn_id sp = (sp_trigger_id sp, sp_sender_id sp, tr_signature (sp_tx sp))"

definition signed :: "pre_signed_tx \<Rightarrow> bool" where
  "signed v \<longleftrightarrow> pt_signature v = tr_signature (pt_tx v)"

text \<open>What was inserted into the pool is signed.\<close>

fun inserts_signed :: "dispatcher_event \<Rightarrow> bool" where
  "inserts_signed (DPoolInsert k vs) = list_all signed vs"
| "inserts_signed _ = True"

fun removed_sigs :: "dispatcher_event list \<Rightarrow> signature set" where
  "removed_sigs [] = {}"
| "removed_sigs (DPendingRemove s # es) = insert s (removed_sigs es)"
| "removed_sigs (_ # es) = removed_sigs es"

definition ds_ok :: "signature set \<Rightarrow> dispatcher \<Rightarrow> bool" where
  "ds_ok gone ds \<longleftrightarrow> hm_ok (ds_pool ds)
     \<and> (\<forall>k vs. hm_get (ds_pool ds) k = Some vs \<longrightarrow> list_all signed vs)
     \<and> map reg_id (ch_offered (ds_register_tx ds)) = map spawn_id (ds_spawned ds)
     \<and> (\<forall>sp \<in> set (ds_spawned ds). tr_signature (sp_tx sp) \<in> ds_pending_sigs ds \<union> gone)"

declare split_paired_All [simp del] split_paired_Ex [simp del]

lemma fan_out_pool [frame]: "ds_pool (fan_out cfg trig v ds) = ds_pool ds"
  by (simp add: fan_out_def Let_def split: option.splits)

lemma ds_ok_fan_out: "ds_ok gone ds \<Longrightarrow> signed v \<Longrightarrow> ds_ok gone (fan_out cfg trig v ds)"
  by (auto simp: fan_out_def ds_ok_def signed_def registration_def reg_id_def spawn_id_def Let_def split: option.splits)

lemma ds_ok_fan_outs: "ds_ok gone ds \<Longrightarrow> list_all signed vs \<Longrightarrow> ds_ok gone (fold (fan_out cfg trig) vs ds)"
  by (induction vs arbitrary: ds) (simp_all add: ds_ok_fan_out)

lemma build_fallback_signed: "list_all signed (fst (build_fallback cfg trig bh clk scs rots))"
  by (induction cfg trig bh clk scs rots rule: build_fallback.induct)
    (auto simp: Let_def signed_def fallback_variant_def split: prod.splits)

lemma ds_ok_variants:
  assumes "ds_ok gone ds" "trigger_variants cfg clk trig ds = (vs, ds1)"
  shows "ds_ok gone ds1" "\<forall>v. vs = Some v \<longrightarrow> list_all signed v"
proof -
  let ?k = "(te_slot trig, te_tick trig)"
  have ok: "hm_ok (ds_pool ds)" "\<forall>k vs. hm_get (ds_pool ds) k = Some vs \<longrightarrow> list_all signed vs"
    using assms(1) by (simp_all add: ds_ok_def)
  obtain v pool where t: "pool_take ?k (ds_pool ds) = (v, pool)" by fastforce
  have v: "v = hm_get (ds_pool ds) ?k" using pool.take_look [OF ok(1), of ?k] t by simp
  have pool: "hm_ok pool" "\<forall>k vs. hm_get pool k = Some vs \<longrightarrow> list_all signed vs"
    using pool.take_ok [OF ok(1), of ?k] pool.look_take [OF ok(1), of ?k] t ok(2) by auto
  then have base: "ds_ok gone (ds\<lparr>ds_pool := pool, ds_counters := c\<rparr>)" for c
    using assms(1) by (simp add: ds_ok_def)
  then have base': "ds_ok gone (ds\<lparr>ds_pool := pool, ds_rotators := r, ds_counters := c\<rparr>)" for r c
    by (simp add: ds_ok_def)
  show "ds_ok gone ds1" "\<forall>v. vs = Some v \<longrightarrow> list_all signed v"
    using assms(2) t v ok(2) base base' build_fallback_signed [of cfg trig "bc_inner (ds_blockhash_cache ds)" clk "df_senders cfg" "ds_rotators ds"]
    by (auto simp: trigger_variants_def Let_def split: option.splits if_splits prod.splits)
qed

lemma ds_ok_dispatch: "ds_ok gone ds \<Longrightarrow> ds_ok gone (dispatch cfg clk trig ds)"
  unfolding dispatch_def using ds_ok_variants [of gone ds cfg clk trig]
  by (auto intro: ds_ok_fan_outs split: prod.splits option.splits)

lemma ds_ok_step: "ds_ok gone ds \<Longrightarrow> inserts_signed ev \<Longrightarrow> ds_ok (gone \<union> removed_sigs [ev]) (dispatcher_step cfg ev ds)"
proof (cases ev)
  case (DPoolInsert k vs)
  assume "ds_ok gone ds" "inserts_signed ev"
  with DPoolInsert show ?thesis by (auto simp: ds_ok_def pool.put_ok pool.look_put)
next
  case (DPoolEvict c)
  assume "ds_ok gone ds"
  with DPoolEvict show ?thesis by (auto simp: ds_ok_def pool.evict_ok pool_get_evict)
next
  case (DPendingRemove s)
  assume "ds_ok gone ds"
  with DPendingRemove show ?thesis by (auto simp: ds_ok_def)
next
  case (DBlockhash c)
  assume "ds_ok gone ds"
  with DBlockhash show ?thesis by (simp add: ds_ok_def)
qed (simp add: ds_ok_dispatch)

lemma removed_sigs_Cons: "removed_sigs (ev # es) = removed_sigs [ev] \<union> removed_sigs es"
  by (cases ev) auto

lemma ds_ok_run: "ds_ok gone ds \<Longrightarrow> list_all inserts_signed es \<Longrightarrow> ds_ok (gone \<union> removed_sigs es) (dispatcher_run cfg es ds)"
proof (induction es arbitrary: gone ds)
  case (Cons ev es)
  from Cons.IH [OF ds_ok_step [of gone ds ev cfg]] Cons.prems show ?case
    by (simp add: dispatcher_run_def Un_assoc removed_sigs_Cons [of ev es])
qed (simp add: dispatcher_run_def)

lemma dispatcher_ok_run:
  assumes "list_all inserts_signed es"
  shows "ds_ok (removed_sigs es) (dispatcher_run cfg es (dispatcher_new tips cfg cap))"
proof -
  have "ds_ok {} (dispatcher_new tips cfg cap)" by (simp add: ds_ok_def dispatcher_new_def)
  from ds_ok_run [OF this assms, of cfg] show ?thesis by simp
qed

text \<open>
  C11. Every send is registered and awaited: in any run on a pool of signed transactions, the
  registrations offered to the recorder are exactly the spawned sends, in order, each with the
  trigger, the sender and the signature of the transaction it sends; and that signature was put into
  the pending set and is still there unless it was removed.
\<close>

theorem dispatcher_registers_every_send:
  assumes "list_all inserts_signed es"
  shows "let ds = dispatcher_run cfg es (dispatcher_new tips cfg cap) in
     map reg_id (ch_offered (ds_register_tx ds)) = map spawn_id (ds_spawned ds)
   \<and> (\<forall>sp \<in> set (ds_spawned ds). tr_signature (sp_tx sp) \<in> ds_pending_sigs ds \<union> removed_sigs es)"
  using dispatcher_ok_run [OF assms, of cfg tips cap] by (simp add: ds_ok_def)

section \<open>The set-up leaves no gap\<close>

lemma setup_senders_clients:
  "setup_senders scs su = Inr su' \<Longrightarrow>
     set (hm_keys (su_senders_by_id su')) = set (hm_keys (su_senders_by_id su)) \<union> sd_id ` set scs
   \<and> set (hm_keys (su_jito_tip_handles su')) = set (hm_keys (su_jito_tip_handles su)) \<union> sd_id ` {sc \<in> set scs. sd_kind sc = Jito}"
proof (induction scs su rule: setup_senders.induct)
  case (2 sc scs su)
  then have ok: "\<not> (sd_kind sc = Jito \<and> sd_regions sc = [])" by (auto split: if_splits)
  have "{x \<in> set (sc # scs). sd_kind x = Jito} = (if sd_kind sc = Jito then {sc} else {}) \<union> {x \<in> set scs. sd_kind x = Jito}"
    by auto
  with 2(1) [OF ok] 2(2) ok show ?case by (simp add: set_hm_keys_insert image_Un)
qed simp

lemma configure_senders_complete:
  assumes "configure_senders senders = Inr (enabled, su)"
  shows "sc \<in> set enabled \<Longrightarrow> hm_get (su_senders_by_id su) (sd_id sc) \<noteq> None"
    "sc \<in> set enabled \<Longrightarrow> sd_kind sc = Jito \<Longrightarrow> hm_get (su_jito_tip_handles su) (sd_id sc) \<noteq> None"
proof -
  have "setup_senders enabled \<lparr>su_senders_by_id = [], su_jito_tip_handles = []\<rparr> = Inr su"
    using assms by (auto simp: configure_senders_def Let_def split: if_splits sum.splits)
  note keys = setup_senders_clients [OF this]
  show "sc \<in> set enabled \<Longrightarrow> hm_get (su_senders_by_id su) (sd_id sc) \<noteq> None"
    using keys hm_keys_get [of "sd_id sc" "su_senders_by_id su"] by auto
  show "sc \<in> set enabled \<Longrightarrow> sd_kind sc = Jito \<Longrightarrow> hm_get (su_jito_tip_handles su) (sd_id sc) \<noteq> None"
    using keys hm_keys_get [of "sd_id sc" "su_jito_tip_handles su"] by auto
qed

lemma fan_out_known:
  assumes "\<And>sc. sc \<in> set (df_senders cfg) \<Longrightarrow> hm_get (df_senders_by_id cfg) (sd_id sc) \<noteq> None"
    and "pt_sender_id v \<in> sd_id ` set (df_senders cfg)"
  shows "ds_spawned (fan_out cfg trig v ds) =
      ds_spawned ds @ [\<lparr>sp_trigger_id = te_trigger_id trig, sp_sender_id = pt_sender_id v, sp_tx = pt_tx v\<rparr>]"
proof (cases "find (\<lambda>s. sd_id s = pt_sender_id v) (df_senders cfg)")
  case None
  obtain sc where "sc \<in> set (df_senders cfg)" "sd_id sc = pt_sender_id v" using assms(2) by auto
  with find_none_set [OF None] show ?thesis by blast
next
  case (Some sc)
  note sc = find_in_set [OF Some]
  with assms(1) [of sc] obtain cl where "hm_get (df_senders_by_id cfg) (pt_sender_id v) = Some cl" by auto
  with Some sc show ?thesis by (simp add: fan_out_def Let_def)
qed

text \<open>
  C12. After a successful set-up a pool hit sends everything that was prepared: the dispatcher takes
  the list out of the pool and spawns one send per transaction, in the shuffled order of the list;
  no enabled sender lacks its client, and no Jito sender its tip handle.
\<close>

theorem dispatch_sends_prepared:
  assumes conf: "configure_senders senders = Inr (enabled, su)"
    and cfg: "df_senders cfg = enabled" "df_senders_by_id cfg = su_senders_by_id su"
    and pool: "hm_ok (ds_pool ds)" "hm_get (ds_pool ds) (te_slot trig, te_tick trig) = Some vs"
    and ids: "pt_sender_id ` set vs \<subseteq> sd_id ` set enabled"
  shows "ds_spawned (dispatch cfg clk trig ds) = ds_spawned ds @
       map (\<lambda>v. \<lparr>sp_trigger_id = te_trigger_id trig, sp_sender_id = pt_sender_id v, sp_tx = pt_tx v\<rparr>) vs
     \<and> hm_get (ds_pool (dispatch cfg clk trig ds)) (te_slot trig, te_tick trig) = None
     \<and> (\<forall>sc \<in> set enabled. sd_kind sc = Jito \<longrightarrow> hm_get (su_jito_tip_handles su) (sd_id sc) \<noteq> None)"
proof -
  let ?k = "(te_slot trig, te_tick trig)"
  obtain pool where t: "pool_take ?k (ds_pool ds) = (Some vs, pool)" and none: "hm_get pool ?k = None"
    using pool.take_look [OF pool(1), of ?k] pool.look_take [OF pool(1), of ?k ?k] pool(2)
    by (metis prod.collapse)
  have known: "hm_get (df_senders_by_id cfg) (sd_id sc) \<noteq> None" if "sc \<in> set (df_senders cfg)" for sc
    using configure_senders_complete(1) [OF conf] cfg that by simp
  have all: "ds_spawned (fold (fan_out cfg trig) ws d) = ds_spawned d @
      map (\<lambda>v. \<lparr>sp_trigger_id = te_trigger_id trig, sp_sender_id = pt_sender_id v, sp_tx = pt_tx v\<rparr>) ws
      \<and> ds_pool (fold (fan_out cfg trig) ws d) = ds_pool d"
    if "pt_sender_id ` set ws \<subseteq> sd_id ` set (df_senders cfg)" for ws d
    using that by (induction ws arbitrary: d) (simp_all add: fan_out_known [OF known] frame)
  show ?thesis
    using all [of vs] ids cfg(1) t none configure_senders_complete(2) [OF conf]
    by (simp add: dispatch_def trigger_variants_def)
qed

text \<open>
  The fallback pays no Jito tip: for a Jito sender whose configuration leaves out the static
  tip, as the live tip makes natural, the transaction built on a pool miss moves no lamports to
  anyone, while the prepared variant pays the live tip.
\<close>

theorem fallback_pays_no_jito_tip:
  "let sc = sender_config_min i name Jito url; v = fallback_variant cfg trig bh now sc (fst (fallback_tip sc rots)) in
     outflow pk (ms_instructions (tr_message (pt_tx v))) = 0
   \<and> outflow 1 (ms_instructions (tr_message (pt_tx (the (fst (sign_variant demo_cfg (demo_readings\<lparr>rd_tips := (\<lambda>i. Some 15000)\<rparr>)
        \<lparr>le_blockhash = bh, le_nonce_params = None, le_nonce_id = None\<rparr> 5
        \<lparr>sl_config = sc, sl_tip_rotator = rotator_new [9]\<rparr>)))))) = 15000"
  by (simp add: fallback_tip_def sender_config_min_def fallback_variant_def build_fields build_outflow Let_def
      sign_variant_def rotator_next_def rotator_new_def demo_cfg_def demo_key_def demo_readings_def)

definition demo_sender :: sender_config where
  "demo_sender = sender_config_min 3 ''a'' Helius ''u''"

definition demo_dispatcher_cfg :: dispatcher_cfg where
  "demo_dispatcher_cfg = \<lparr>df_senders = [demo_sender],
     df_senders_by_id = [(3, \<lparr>cl_endpoint_url = ''u'', cl_protocol = ''HTTP_JSONRPC''\<rparr>)],
     df_keypair = demo_key 1, df_tx_cfg = tx_config_resolve None None None, df_nonce_mode = True\<rparr>"

definition demo_trigger :: trigger_event where
  "demo_trigger = \<lparr>te_trigger_id = from_slot_tick 100 7, te_slot = 100, te_tick = 7,
     te_trigger_observed_at = 2, te_tick_uncertain = False\<rparr>"

definition demo_variant :: pre_signed_tx where
  "demo_variant = fallback_variant demo_dispatcher_cfg demo_trigger 9 1 demo_sender None"

lemma demo_variant_fields: "pt_sender_id demo_variant = 3" "signed demo_variant"
  by (simp_all add: demo_variant_def fallback_variant_def demo_sender_def sender_config_min_def signed_def Let_def)

theorem dispatcher_registers_every_send_witness:
  "let ds = dispatcher_run demo_dispatcher_cfg [DPoolInsert (100, 7) [demo_variant], DTrigger demo_trigger (\<lambda>i. 5)]
        (dispatcher_new (\<lambda>k. [8]) demo_dispatcher_cfg None) in
     map reg_id (ch_offered (ds_register_tx ds)) = map spawn_id (ds_spawned ds)"
proof -
  have "list_all inserts_signed [DPoolInsert (100, 7) [demo_variant], DTrigger demo_trigger (\<lambda>i. 5)]"
    by (simp add: demo_variant_fields)
  from dispatcher_registers_every_send [OF this] show ?thesis by (simp add: Let_def)
qed

theorem dispatch_sends_prepared_witness:
  "ds_spawned (dispatch demo_dispatcher_cfg (\<lambda>i. 5) demo_trigger
       ((dispatcher_new (\<lambda>k. [8]) demo_dispatcher_cfg None)\<lparr>ds_pool := [((100, 7), [demo_variant])]\<rparr>)) =
     [\<lparr>sp_trigger_id = from_slot_tick 100 7, sp_sender_id = 3, sp_tx = pt_tx demo_variant\<rparr>]"
proof -
  let ?su = "\<lparr>su_senders_by_id = [(3, \<lparr>cl_endpoint_url = ''u'', cl_protocol = ''HTTP_JSONRPC''\<rparr>)], su_jito_tip_handles = []\<rparr>"
  let ?ds = "(dispatcher_new (\<lambda>k. [8]) demo_dispatcher_cfg None)\<lparr>ds_pool := [((100, 7), [demo_variant])]\<rparr>"
  have c: "configure_senders [demo_sender] = Inr ([demo_sender], ?su)"
    by (simp add: configure_senders_def demo_sender_def sender_config_min_def client_of_def hm_insert_def)
  have d: "df_senders demo_dispatcher_cfg = [demo_sender]" "df_senders_by_id demo_dispatcher_cfg = su_senders_by_id ?su"
    by (simp_all add: demo_dispatcher_cfg_def)
  have p: "hm_ok (ds_pool ?ds)" "hm_get (ds_pool ?ds) (te_slot demo_trigger, te_tick demo_trigger) = Some [demo_variant]"
    by (simp_all add: hm_ok_def hm_get_def demo_trigger_def)
  have i: "pt_sender_id ` set [demo_variant] \<subseteq> sd_id ` set [demo_sender]"
    by (simp add: demo_variant_fields demo_sender_def sender_config_min_def)
  from dispatch_sends_prepared [OF c d p i, where clk = "\<lambda>i. 5"] show ?thesis
    by (simp add: dispatcher_new_def demo_trigger_def demo_variant_fields)
qed

end
