(* ===== verification/MainLoop.thy ===== *)
theory MainLoop
  imports Recorder
begin

text \<open>
  The main thread of the run (\<open>crates/tick-trigger-fan-out-bench/src/bin/phase3_run.rs\<close>): the
  loop that keeps the duration, the balance watchdog and the current slot, and the figures of the
  final report and of the live summary.  What the node would answer is an argument of each turn;
  \<open>None\<close> is a failed call.
\<close>

section \<open>The main loop\<close>

text \<open>\<open>balance\<close> and \<open>slot\<close> are what the node would answer; the flag says that the loop ends.\<close>

record main_loop =
  ml_start :: instant
  ml_next_summary :: instant
  ml_last_balance_check :: instant
  ml_stop :: bool
  ml_current_slot :: u64
  ml_summaries :: nat

definition main_new :: "instant \<Rightarrow> u64 \<Rightarrow> main_loop" where
  "main_new start start_slot = \<lparr>ml_start = start, ml_next_summary = start + 5000000000,
     ml_last_balance_check = start, ml_stop = False, ml_current_slot = start_slot, ml_summaries = 0\<rparr>"

definition poll_slot :: "instant \<Rightarrow> u64 option \<Rightarrow> main_loop \<Rightarrow> main_loop" where
  "poll_slot now slot ml =
     (if (since now (ml_last_balance_check ml) div 1000000000) mod 5 = 0
      then (case slot of Some s \<Rightarrow> ml\<lparr>ml_current_slot := s\<rparr> | None \<Rightarrow> ml) else ml)"

definition main_turn :: "duration \<Rightarrow> u64 \<Rightarrow> instant \<Rightarrow> u64 option \<Rightarrow> u64 option \<Rightarrow> main_loop \<Rightarrow> bool \<times> main_loop" where
  "main_turn run_duration min_balance now balance slot ml =
     (if ml_stop ml then (True, ml)
      else if now \<ge> ml_start ml + run_duration then (True, ml)
      else
        let ml1 = (if now \<ge> ml_next_summary ml
                   then ml\<lparr>ml_next_summary := now + 5000000000, ml_summaries := ml_summaries ml + 1\<rparr> else ml)
        in if since now (ml_last_balance_check ml1) \<ge> 30000000000
           then (let ml2 = ml1\<lparr>ml_last_balance_check := now\<rparr> in
                 case balance of
                   Some bal \<Rightarrow> if bal < min_balance then (True, ml2\<lparr>ml_stop := True\<rparr>)
                     else (False, poll_slot now slot ml2)
                 | None \<Rightarrow> (False, poll_slot now slot ml2))
           else (False, poll_slot now slot ml1))"

text \<open>The whole loop: a turn is the flag that another thread (or Ctrl-C) asked to stop before it, the
  clock, and the two answers; the result is the turn at which the loop ended.\<close>

type_synonym main_input = "bool \<times> instant \<times> u64 option \<times> u64 option"

fun main_run :: "duration \<Rightarrow> u64 \<Rightarrow> main_input list \<Rightarrow> main_loop \<Rightarrow> nat option \<times> main_loop" where
  "main_run d min_balance [] ml = (None, ml)"
| "main_run d min_balance ((asked, now, balance, slot) # ts) ml =
     (case main_turn d min_balance now balance slot (if asked then ml\<lparr>ml_stop := True\<rparr> else ml) of
        (True, ml') \<Rightarrow> (Some 0, ml')
      | (False, ml') \<Rightarrow> (let (k, ml'') = main_run d min_balance ts ml' in (map_option Suc k, ml'')))"

section \<open>The report\<close>

record report =
  rp_triggers_fired :: u64
  rp_triggers_landed :: u64
  rp_triggers_lost :: u64
  rp_sends_total :: u64
  rp_sends_landed :: u64
  rp_losing_siblings :: u64
  rp_lost_no_land :: u64
  rp_send_errors :: u64
  rp_lost_to_other :: "(u8 \<times> u64) list"

definition final_report :: "bool \<Rightarrow> active_window_summary \<Rightarrow> report" where
  "final_report nonce_enabled active =
     (let triggers_landed = sm_triggers_landed active;
          losing_siblings = (if nonce_enabled then triggers_landed else 0)
      in \<lparr>rp_triggers_fired = sm_triggers_attempted active, rp_triggers_landed = triggers_landed,
          rp_triggers_lost = sat_sub (sm_triggers_attempted active) triggers_landed,
          rp_sends_total = sm_attempts_total active, rp_sends_landed = sm_attempts_landed active,
          rp_losing_siblings = losing_siblings,
          rp_lost_no_land = sat_sub (sm_attempts_unknown_pending active) losing_siblings,
          rp_send_errors = sm_attempts_send_error active,
          rp_lost_to_other = map (\<lambda>ps. (st_sender_id ps, sat_sub triggers_landed (st_landed ps))) (sm_per_sender active)\<rparr>)"

definition lost_so_far :: "u64 \<Rightarrow> recorder_counters \<Rightarrow> u64" where
  "lost_so_far schedule_hits r =
     sat_sub (sat_sub schedule_hits (rn_records_landed r)) (rn_records_unknown_pending r div 2)"

section \<open>The loop ends\<close>

definition clock_of :: "main_input \<Rightarrow> instant" where
  "clock_of t = fst (snd t)"

definition balance_of :: "main_input \<Rightarrow> u64 option" where
  "balance_of t = fst (snd (snd t))"

lemma poll_slot_frame [frame]:
  "ml_start (poll_slot now slot ml) = ml_start ml" "ml_stop (poll_slot now slot ml) = ml_stop ml"
  "ml_last_balance_check (poll_slot now slot ml) = ml_last_balance_check ml"
  by (simp_all add: poll_slot_def split: option.splits)

lemma main_turn_goes_on:
  assumes "main_turn d mb now bal slot ml = (False, ml')"
  shows "\<not> ml_stop ml" "now < ml_start ml + d" "\<not> ml_stop ml'" "ml_start ml' = ml_start ml"
    "ml_last_balance_check ml' = (if since now (ml_last_balance_check ml) \<ge> 30000000000 then now else ml_last_balance_check ml)"
    "since now (ml_last_balance_check ml) \<ge> 30000000000 \<Longrightarrow> bal = Some b \<Longrightarrow> mb \<le> b"
  using assms by (auto simp: main_turn_def Let_def frame split: if_splits option.splits)

lemma main_turn_ends:
  assumes "main_turn d mb now bal slot ml = (True, ml')"
  shows "ml_stop ml \<or> ml_start ml + d \<le> now
    \<or> (since now (ml_last_balance_check ml) \<ge> 30000000000 \<and> (\<exists>b. bal = Some b \<and> b < mb))"
  using assms by (auto simp: main_turn_def Let_def frame split: if_splits option.splits)

text \<open>What every turn before the end has in common.\<close>

lemma main_run_before:
  "main_run d mb ts ml = (r, ml') \<Longrightarrow> i < length ts \<Longrightarrow> (\<forall>e. r = Some e \<longrightarrow> i < e) \<Longrightarrow>
     clock_of (ts ! i) < ml_start ml + d"
proof (induction d mb ts ml arbitrary: r ml' i rule: main_run.induct)
  case (2 d mb asked now bal slot ts ml)
  let ?ml = "if asked then ml\<lparr>ml_stop := True\<rparr> else ml"
  obtain ended ml1 where t: "main_turn d mb now bal slot ?ml = (ended, ml1)" by fastforce
  obtain k ml2 where k: "main_run d mb ts ml1 = (k, ml2)" by fastforce
  have go: "\<not> ended" using "2.prems" t by (cases ended) auto
  note on = main_turn_goes_on [of d mb now bal slot ?ml ml1]
  show ?case
  proof (cases i)
    case 0
    with on t go show ?thesis by (simp add: clock_of_def split: if_splits)
  next
    case (Suc j)
    have "clock_of (ts ! j) < ml_start ml1 + d"
      using "2.IH" [OF t [symmetric] _ k] go "2.prems" t k Suc by (auto simp: Let_def)
    with on t go Suc show ?thesis by (simp split: if_splits)
  qed
qed simp

lemma main_run_end:
  "main_run d mb ts ml = (Some e, ml') \<Longrightarrow> \<not> ml_stop ml \<Longrightarrow> e < length ts \<and> (fst (ts ! e)
     \<or> ml_start ml + d \<le> clock_of (ts ! e) \<or> (\<exists>b. balance_of (ts ! e) = Some b \<and> b < mb))"
proof (induction d mb ts ml arbitrary: e ml' rule: main_run.induct)
  case (2 d mb asked now bal slot ts ml)
  let ?ml = "if asked then ml\<lparr>ml_stop := True\<rparr> else ml"
  obtain ended ml1 where t: "main_turn d mb now bal slot ?ml = (ended, ml1)" by fastforce
  show ?case
  proof (cases ended)
    case True
    with "2.prems" t main_turn_ends [of d mb now bal slot ?ml ml1] show ?thesis
      by (auto simp: clock_of_def balance_of_def split: if_splits)
  next
    case False
    obtain k ml2 where k: "main_run d mb ts ml1 = (k, ml2)" by fastforce
    note on = main_turn_goes_on [of d mb now bal slot ?ml ml1]
    from "2.prems" t k False obtain e' where e: "k = Some e'" "e = Suc e'" by (auto simp: Let_def)
    from "2.IH" [OF t [symmetric] _ k [unfolded e(1)]] False on t
    have "e' < length ts \<and> (fst (ts ! e') \<or> ml_start ml1 + d \<le> clock_of (ts ! e')
        \<or> (\<exists>b. balance_of (ts ! e') = Some b \<and> b < mb))" by simp
    with e on t False show ?thesis by (simp split: if_splits)
  qed
qed simp

lemma main_run_watchdog:
  "main_run d mb ts ml = (r, ml') \<Longrightarrow> \<forall>t \<in> set ts. \<exists>b. balance_of t = Some b \<and> b < mb \<Longrightarrow>
     i < length ts \<Longrightarrow> (\<forall>e. r = Some e \<longrightarrow> i < e) \<Longrightarrow>
     clock_of (ts ! i) < ml_last_balance_check ml + 30000000000"
proof (induction d mb ts ml arbitrary: r ml' i rule: main_run.induct)
  case (2 d mb asked now bal slot ts ml)
  let ?ml = "if asked then ml\<lparr>ml_stop := True\<rparr> else ml"
  obtain ended ml1 where t: "main_turn d mb now bal slot ?ml = (ended, ml1)" by fastforce
  obtain k ml2 where k: "main_run d mb ts ml1 = (k, ml2)" by fastforce
  have go: "\<not> ended" using "2.prems" t by (cases ended) auto
  note on = main_turn_goes_on [of d mb now bal slot ?ml ml1]
  obtain b where b: "bal = Some b" "b < mb" using "2.prems"(2) by (auto simp: balance_of_def)
  have early: "\<not> since now (ml_last_balance_check ml) \<ge> 30000000000"
    using on(6) [of b] t go b by (auto split: if_splits)
  show ?case
  proof (cases i)
    case 0
    with early show ?thesis by (auto simp: clock_of_def since_def)
  next
    case (Suc j)
    have "clock_of (ts ! j) < ml_last_balance_check ml1 + 30000000000"
      using "2.IH" [OF t [symmetric] _ k] go "2.prems" t k Suc by (auto simp: Let_def)
    with on t go Suc early show ?thesis by (simp split: if_splits)
  qed
qed simp

text \<open>
  C16. The run ends in time: the loop sleeps 200 ms a turn, so after the configured duration it has
  ended, however the node answers: at a turn whose number is at most the duration in sleeps, rounded
  up; no turn before the end read a clock past the duration.
\<close>

theorem main_loop_ends:
  assumes sleeps: "\<And>i. i < length ts \<Longrightarrow> start + i * 200000000 \<le> clock_of (ts ! i)"
    and enough: "d \<le> n * 200000000" "n < length ts"
  shows "\<exists>e. fst (main_run d min_balance ts (main_new start slot)) = Some e \<and> e \<le> n
    \<and> (\<forall>i < e. clock_of (ts ! i) < start + d)"
proof -
  obtain r ml' where r: "main_run d min_balance ts (main_new start slot) = (r, ml')" by fastforce
  have start: "ml_start (main_new start slot) = start" "\<not> ml_stop (main_new start slot)"
    by (simp_all add: main_new_def)
  have late: "start + d \<le> clock_of (ts ! n)" using sleeps [OF enough(2)] enough(1) by linarith
  have "\<not> (\<forall>e. r = Some e \<longrightarrow> n < e)"
    using main_run_before [OF r enough(2)] late start by auto
  then obtain e where e: "r = Some e" "e \<le> n" by auto
  have "clock_of (ts ! i) < start + d" if "i < e" for i
    using main_run_before [OF r, of i] that e enough(2) start by auto
  with e r show ?thesis by simp
qed

text \<open>
  And only then: the loop ends early only when it was asked to stop or the node answered a balance
  below the minimum; and when the balance is below the minimum throughout, no turn goes on once 30 s
  have passed.
\<close>

theorem main_loop_end_reason:
  assumes "main_run d min_balance ts (main_new start slot) = (Some e, ml)"
  shows "(fst (ts ! e) \<or> start + d \<le> clock_of (ts ! e) \<or> (\<exists>b. balance_of (ts ! e) = Some b \<and> b < min_balance))
    \<and> ((\<forall>t \<in> set ts. \<exists>b. balance_of t = Some b \<and> b < min_balance) \<longrightarrow>
      (\<forall>i < e. clock_of (ts ! i) < start + 30000000000))"
proof -
  have m: "\<not> ml_stop (main_new start slot)" "ml_start (main_new start slot) = start"
    "ml_last_balance_check (main_new start slot) = start" by (simp_all add: main_new_def)
  note e = main_run_end [OF assms m(1), unfolded m(2)]
  with main_run_watchdog [OF assms] m(3) show ?thesis by auto
qed

definition demo_turns :: "main_input list" where
  "demo_turns = [(False, 0, None, None), (False, 200000000, Some 1, Some 5), (False, 30000000000, Some 1, None),
     (False, 60000000000, None, None)]"

theorem main_loop_end_reason_witness:
  "main_run 60000000000 2 demo_turns (main_new 0 0) = (Some 2, snd (main_run 60000000000 2 demo_turns (main_new 0 0)))
    \<and> balance_of (demo_turns ! 2) = Some 1
    \<and> (fst (demo_turns ! 2) \<or> 60000000000 \<le> clock_of (demo_turns ! 2) \<or> (\<exists>b. balance_of (demo_turns ! 2) = Some b \<and> b < (2 :: u64)))"
proof -
  have "fst (main_run 60000000000 2 demo_turns (main_new 0 0)) = Some 2"
    by (simp add: demo_turns_def main_new_def main_turn_def poll_slot_def since_def Let_def)
  then have "main_run 60000000000 2 demo_turns (main_new 0 0) = (Some 2, snd (main_run 60000000000 2 demo_turns (main_new 0 0)))"
    by (metis prod.collapse)
  from this main_loop_end_reason [OF this] show ?thesis by (simp add: demo_turns_def balance_of_def)
qed

theorem main_loop_ends_witness:
  "\<exists>e \<le> 2. fst (main_run 300000000 2 demo_turns (main_new 0 0)) = Some e"
proof -
  have "0 + i * 200000000 \<le> clock_of (demo_turns ! i)" if "i < length demo_turns" for i
  proof -
    have "i = 0 \<or> i = 1 \<or> i = 2 \<or> i = 3" using that by (simp add: demo_turns_def) arith
    then show ?thesis by (elim disjE) (simp_all add: demo_turns_def clock_of_def)
  qed
  from main_loop_ends [OF this, of 300000000 2 2 0] show ?thesis by (auto simp: demo_turns_def)
qed

section \<open>The report\<close>

text \<open>
  The report's split of unlanded sends fits two senders only: with three, ten triggers that all
  landed leave twenty losing siblings, of which the report takes ten away and calls the other ten
  lost without a landing, although no trigger was lost.
\<close>

theorem report_overstates_losses:
  "let sm = \<lparr>sm_first_send_at_ns = Some 0, sm_last_send_at_ns = Some 9, sm_active = 9,
        sm_triggers_attempted = 10, sm_triggers_landed = 10, sm_attempts_total = 30,
        sm_attempts_landed = 10, sm_attempts_send_error = 0, sm_attempts_unknown_pending = 20,
        sm_per_sender = []\<rparr>; r = final_report True sm in
     rp_triggers_lost r = 0 \<and> rp_losing_siblings r = 10 \<and> rp_lost_no_land r = 10"
  by (simp add: final_report_def sat_sub_def Let_def)

end
