(* ===== verification/FanBuilder.thy ===== *)
theory FanBuilder
  imports RoundRobin
begin

text \<open>
  The transactions of the earlier bench (\<open>crates/fan-out-bench/src/\<close>): the senders of \<open>config.rs\<close>, the
  one-byte memo of \<open>memo.rs\<close>, the tip accounts of \<open>tip_accounts.rs\<close> and the variants of \<open>tx_builder.rs\<close>.
  An instruction is the builder call of the Solana interface crates with its arguments; signing and the
  digest of a serialised message are parameters.
\<close>

section \<open>Configuration of the senders\<close>

datatype fan_sender_kind =
    FkMock | FkHelius | FkJito | FkJitoBundle | FkNozomi | FkSyncro | FkAstralane | FkSlot0
  | FkAllenharkQuic | FkAllenharkHttps | FkNextblock | FkNextblockQuic | FkBloxroute
  | FkBlockrazorHttp | FkBlockrazorGrpc | FkTriton | FkHarmonic

datatype fan_auth = AuthNone | AuthQueryParam string string | AuthHeader string string | AuthBearer string | AuthPathToken string

record fan_sender_config =
  fd_id :: u8
  fd_name :: string
  fd_kind :: fan_sender_kind
  fd_endpoint_url :: string
  fd_region :: string
  fd_auth :: fan_auth
  fd_tip_lamports :: u64
  fd_enabled :: bool

record fan_run_config =
  fn_schedule_seed :: "u64 option"
  fn_chunk_size_slots :: u64
  fn_min_balance_lamports :: u64
  fn_priority_fee_microlamports :: u64
  fn_compute_unit_limit :: u32
  fn_observation_deadline_secs :: u64

record fan_config =
  fg_run :: fan_run_config
  fg_pool_size :: nat
  fg_senders :: "fan_sender_config list"

datatype fan_config_error = NoPool | NoChunk | NoSenders | DuplicateSender u8 | SenderIdTooBig u8

fun check_senders :: "u8 set \<Rightarrow> fan_sender_config list \<Rightarrow> fan_config_error option" where
  "check_senders seen [] = None"
| "check_senders seen (s # ss) =
     (if fd_id s \<in> seen then Some (DuplicateSender (fd_id s))
      else if \<not> fd_id s \<le> 93 then Some (SenderIdTooBig (fd_id s))
      else check_senders (insert (fd_id s) seen) ss)"

definition fan_validate :: "fan_config \<Rightarrow> fan_config_error + unit" where
  "fan_validate cfg =
     (if \<not> fg_pool_size cfg > 0 then Inl NoPool
      else if \<not> fn_chunk_size_slots (fg_run cfg) > 0 then Inl NoChunk
      else if fg_senders cfg = [] then Inl NoSenders
      else (case check_senders {} (fg_senders cfg) of Some e \<Rightarrow> Inl e | None \<Rightarrow> Inr ()))"

definition enabled_senders :: "fan_config \<Rightarrow> fan_sender_config list" where
  "enabled_senders cfg = filter fd_enabled (fg_senders cfg)"

lemma check_senders_ok: "check_senders seen ss = None \<longleftrightarrow>
    distinct (map fd_id ss) \<and> fd_id ` set ss \<inter> seen = {} \<and> (\<forall>s \<in> set ss. fd_id s \<le> 93)"
  by (induction ss arbitrary: seen) (auto simp: not_le)

section \<open>The memo byte\<close>

datatype memo_error = SenderIdTooLarge u8 | InvalidMemoByte u8 | WrongLength nat

definition MEMO_BASE :: u8 where "MEMO_BASE = 33"

definition MAX_SENDER_ID :: u8 where "MAX_SENDER_ID = 126 - MEMO_BASE"

definition memo_encode :: "u8 \<Rightarrow> memo_error + u8 list" where
  "memo_encode sender_id =
     (if sender_id > MAX_SENDER_ID then Inl (SenderIdTooLarge sender_id) else Inr [MEMO_BASE + sender_id])"

definition memo_decode :: "u8 list \<Rightarrow> memo_error + u8" where
  "memo_decode memo =
     (if length memo \<noteq> 1 then Inl (WrongLength (length memo))
      else (let byte = memo ! 0 in
        if \<not> (33 \<le> byte \<and> byte \<le> 126) then Inl (InvalidMemoByte byte) else Inr (byte - MEMO_BASE)))"

lemma memo_range: "x \<le> 93 \<Longrightarrow> 33 \<le> 33 + x \<and> 33 + x \<le> 126" for x :: u8
  by (simp add: word_le_nat_alt unat_word_ariths)

lemma memo_range': "33 \<le> b \<Longrightarrow> b \<le> 126 \<Longrightarrow> b - 33 \<le> 93" for b :: u8
  by (simp add: word_le_nat_alt unat_sub)

text \<open>The memo is a bijection: the valid payloads are exactly those that some sender id encodes to, and
  each reads back as that id.\<close>

theorem memo_byte_roundtrip: "memo_encode sender_id = Inr memo \<longleftrightarrow> memo_decode memo = Inr sender_id"
proof -
  have e: "memo_encode sender_id = Inr memo \<longleftrightarrow> sender_id \<le> 93 \<and> memo = [33 + sender_id]"
    by (auto simp: memo_encode_def MAX_SENDER_ID_def MEMO_BASE_def not_less)
  have d: "memo_decode memo = Inr sender_id \<longleftrightarrow> (\<exists>b. memo = [b] \<and> 33 \<le> b \<and> b \<le> 126 \<and> sender_id = b - 33)"
    by (cases memo) (auto simp: memo_decode_def MEMO_BASE_def Let_def)
  show ?thesis unfolding e d using memo_range memo_range' by (metis add_diff_cancel_left' add.commute diff_add_cancel)
qed

section \<open>Tip accounts\<close>

definition fan_tip_accounts_for :: "(string \<Rightarrow> pubkey list) \<Rightarrow> fan_sender_kind \<Rightarrow> pubkey list" where
  "fan_tip_accounts_for tables kind = (case kind of
     FkMock \<Rightarrow> []
   | FkHelius \<Rightarrow> tables ''HELIUS''
   | FkJito \<Rightarrow> tables ''JITO'' | FkJitoBundle \<Rightarrow> tables ''JITO''
   | FkNozomi \<Rightarrow> tables ''NOZOMI''
   | FkSyncro \<Rightarrow> tables ''SYNCRO''
   | FkAstralane \<Rightarrow> tables ''ASTRALANE''
   | FkSlot0 \<Rightarrow> tables ''SLOT0''
   | FkAllenharkQuic \<Rightarrow> tables ''ALLENHARK'' | FkAllenharkHttps \<Rightarrow> tables ''ALLENHARK''
   | FkNextblock \<Rightarrow> tables ''NEXTBLOCK'' | FkNextblockQuic \<Rightarrow> tables ''NEXTBLOCK''
   | FkBloxroute \<Rightarrow> tables ''BLOXROUTE''
   | FkBlockrazorHttp \<Rightarrow> tables ''BLOCKRAZOR'' | FkBlockrazorGrpc \<Rightarrow> tables ''BLOCKRAZOR''
   | FkTriton \<Rightarrow> [] | FkHarmonic \<Rightarrow> [])"

section \<open>Variants\<close>

datatype fan_instruction =
    FAdvanceNonce pubkey pubkey
  | FTransfer pubkey pubkey u64
  | FSetComputeUnitLimit u32
  | FSetComputeUnitPrice u64
  | FMemo "u8 list"

record fan_message =
  fz_payer :: pubkey
  fz_instructions :: "fan_instruction list"
  fz_recent_blockhash :: hash

record fan_transaction =
  fx_message :: fan_message
  fx_signature :: signature

record fan_keypair =
  fy_pubkey :: pubkey
  fy_sign :: "fan_message \<Rightarrow> signature"

record variant_params =
  vp_nonce_pubkey :: pubkey
  vp_nonce_blockhash :: hash
  vp_payer :: pubkey
  vp_sender_id :: u8
  vp_sender_kind :: fan_sender_kind
  vp_tip_account :: "pubkey option"
  vp_tip_lamports :: u64
  vp_priority_fee_microlamports :: u64
  vp_compute_unit_limit :: u32

record variant_tx =
  vx_tx :: fan_transaction
  vx_signature :: signature
  vx_message_hash :: "u8 list"

datatype build_error = BuildMemo memo_error | MissingTipAccount fan_sender_kind

definition needs_tip :: "fan_sender_kind \<Rightarrow> bool" where
  "needs_tip kind \<longleftrightarrow> kind \<notin> {FkTriton, FkHarmonic, FkMock}"

definition variant_instructions :: "variant_params \<Rightarrow> u8 list \<Rightarrow> fan_instruction list" where
  "variant_instructions p memo_bytes =
     [FAdvanceNonce (vp_nonce_pubkey p) (vp_payer p),
      FTransfer (vp_payer p) (vp_payer p) (1 + ucast (vp_sender_id p))]
     @ (case vp_tip_account p of None \<Rightarrow> [] | Some tip \<Rightarrow> [FTransfer (vp_payer p) tip (vp_tip_lamports p)])
     @ [FSetComputeUnitLimit (vp_compute_unit_limit p), FSetComputeUnitPrice (vp_priority_fee_microlamports p),
        FMemo memo_bytes]"

definition build_variant :: "(fan_message \<Rightarrow> u8 list) \<Rightarrow> fan_keypair \<Rightarrow> variant_params \<Rightarrow> build_error + variant_tx" where
  "build_variant digest signer p =
     (if needs_tip (vp_sender_kind p) \<and> vp_tip_account p = None then Inl (MissingTipAccount (vp_sender_kind p))
      else (case memo_encode (vp_sender_id p) of
        Inl e \<Rightarrow> Inl (BuildMemo e)
      | Inr memo_bytes \<Rightarrow>
          (let msg = \<lparr>fz_payer = vp_payer p, fz_instructions = variant_instructions p memo_bytes,
                 fz_recent_blockhash = vp_nonce_blockhash p\<rparr>;
               tx = \<lparr>fx_message = msg, fx_signature = fy_sign signer msg\<rparr>
           in Inr \<lparr>vx_tx = tx, vx_signature = fx_signature tx, vx_message_hash = digest msg\<rparr>)))"

text \<open>Reading the sender back from a transaction: its last instruction.\<close>

definition sender_of_tx :: "fan_transaction \<Rightarrow> u8 option" where
  "sender_of_tx tx = (case last (fz_instructions (fx_message tx)) of
     FMemo m \<Rightarrow> (case memo_decode m of Inr i \<Rightarrow> Some i | Inl e \<Rightarrow> None)
   | _ \<Rightarrow> None)"

definition is_self_transfer :: "fan_instruction \<Rightarrow> bool" where
  "is_self_transfer i = (case i of FTransfer a b l \<Rightarrow> a = b | _ \<Rightarrow> False)"

text \<open>Every variant that is built starts by advancing the nonce on whose hash it is signed, pays a tip
  exactly when there is a tip account, and names its sender: the memo reads back as the sender id, so two
  variants of one nonce with different senders are different messages.\<close>

theorem variant_attributable:
  assumes "build_variant digest signer p = Inr v"
  shows "hd (fz_instructions (fx_message (vx_tx v))) = FAdvanceNonce (vp_nonce_pubkey p) (vp_payer p)
    \<and> fz_recent_blockhash (fx_message (vx_tx v)) = vp_nonce_blockhash p
    \<and> sender_of_tx (vx_tx v) = Some (vp_sender_id p)
    \<and> fx_signature (vx_tx v) = fy_sign signer (fx_message (vx_tx v)) \<and> vx_signature v = fx_signature (vx_tx v)
    \<and> (\<forall>tip. FTransfer (vp_payer p) tip (vp_tip_lamports p) \<in> set (drop 2 (fz_instructions (fx_message (vx_tx v))))
        \<longleftrightarrow> vp_tip_account p = Some tip)
    \<and> (\<forall>q w. build_variant digest signer q = Inr w \<and> vp_sender_id q \<noteq> vp_sender_id p
        \<longrightarrow> fx_message (vx_tx w) \<noteq> fx_message (vx_tx v))"
proof -
  have sender: "sender_of_tx (vx_tx w) = Some (vp_sender_id q)" if b: "build_variant digest signer q = Inr w" for q w
  proof -
    obtain m where m: "memo_encode (vp_sender_id q) = Inr m" "fz_instructions (fx_message (vx_tx w)) = variant_instructions q m"
      using b by (cases "memo_encode (vp_sender_id q)") (auto simp: build_variant_def Let_def split: if_splits)
    then have "memo_decode m = Inr (vp_sender_id q)" using memo_byte_roundtrip by blast
    with m(2) show ?thesis by (simp add: sender_of_tx_def variant_instructions_def)
  qed
  have other: "fx_message (vx_tx w) \<noteq> fx_message (vx_tx v)"
    if "build_variant digest signer q = Inr w" "vp_sender_id q \<noteq> vp_sender_id p" for q w
    using sender [OF that(1)] sender [OF assms] that(2) by (auto simp: sender_of_tx_def)
  then have "\<forall>q w. build_variant digest signer q = Inr w \<and> vp_sender_id q \<noteq> vp_sender_id p
      \<longrightarrow> fx_message (vx_tx w) \<noteq> fx_message (vx_tx v)" by blast
  moreover obtain m where "vx_tx v = \<lparr>fx_message = \<lparr>fz_payer = vp_payer p, fz_instructions = variant_instructions p m,
      fz_recent_blockhash = vp_nonce_blockhash p\<rparr>, fx_signature = fy_sign signer \<lparr>fz_payer = vp_payer p,
      fz_instructions = variant_instructions p m, fz_recent_blockhash = vp_nonce_blockhash p\<rparr>\<rparr>"
    "vx_signature v = fx_signature (vx_tx v)"
    using assms by (cases "memo_encode (vp_sender_id p)") (auto simp: build_variant_def Let_def split: if_splits)
  ultimately show ?thesis using sender [OF assms] by (cases "vp_tip_account p") (auto simp: variant_instructions_def)
qed

definition sample_fan_keypair :: fan_keypair where
  "sample_fan_keypair = \<lparr>fy_pubkey = 1, fy_sign = (\<lambda>m. ucast (fz_recent_blockhash m))\<rparr>"

definition sample_variant :: "u8 \<Rightarrow> variant_params" where
  "sample_variant i = \<lparr>vp_nonce_pubkey = 7, vp_nonce_blockhash = 9, vp_payer = 1, vp_sender_id = i, vp_sender_kind = FkHelius,
     vp_tip_account = Some 5, vp_tip_lamports = 1000, vp_priority_fee_microlamports = 3, vp_compute_unit_limit = 4\<rparr>"

theorem variant_attributable_witness:
  "\<exists>v. build_variant (\<lambda>m. []) sample_fan_keypair (sample_variant 4) = Inr v \<and> sender_of_tx (vx_tx v) = Some 4"
proof -
  have "\<exists>v. build_variant (\<lambda>m. []) sample_fan_keypair (sample_variant 4) = Inr v"
    by (simp add: build_variant_def sample_variant_def memo_encode_def MAX_SENDER_ID_def MEMO_BASE_def Let_def)
  then obtain v where v: "build_variant (\<lambda>m. []) sample_fan_keypair (sample_variant 4) = Inr v" by blast
  from variant_attributable [OF v] have "sender_of_tx (vx_tx v) = Some (vp_sender_id (sample_variant 4))" by blast
  with v show ?thesis by (simp add: sample_variant_def)
qed

text \<open>With a valid configuration the memo never fails: a variant is refused only for want of a tip account.\<close>

lemma validated_builds:
  assumes "fan_validate cfg = Inr ()" "s \<in> set (fg_senders cfg)" "vp_sender_id p = fd_id s"
    and "vp_tip_account p \<noteq> None \<or> \<not> needs_tip (vp_sender_kind p)"
  shows "\<exists>v. build_variant digest signer p = Inr v"
proof -
  have "check_senders {} (fg_senders cfg) = None"
    using assms(1) by (auto simp: fan_validate_def split: if_splits option.splits)
  then have "fd_id s \<le> 93" using assms(2) by (simp add: check_senders_ok)
  then show ?thesis using assms(3,4)
    by (auto simp: build_variant_def memo_encode_def MAX_SENDER_ID_def MEMO_BASE_def Let_def)
qed

end
