(* ===== verification/FanSlotCache.thy ===== *)
theory FanSlotCache
  imports SlotHashCache
begin

text \<open>
  The slot hash cache of the earlier bench (\<open>crates/fan-out-bench/src/slot_hash_cache.rs\<close>).  It
  keeps the last tick of every slot and, when the final tick of the slot before a landing was missed,
  hashes forward over the missing ticks.  The hash function is a parameter.
\<close>

definition HASHES_PER_TICK :: u64 where
  "HASHES_PER_TICK = 62500"

definition FAN_TICKS_PER_SLOT :: u8 where
  "FAN_TICKS_PER_SLOT = 64"

definition chain_hash_forward :: "(u8 list \<Rightarrow> hash) \<Rightarrow> hash \<Rightarrow> u64 \<Rightarrow> hash" where
  "chain_hash_forward sha256 start iterations = ((\<lambda>h. sha256 (to_be_bytes 32 h)) ^^ unat iterations) start"

record slot_info =
  si_max_entry_index :: u32
  si_last_entry_hash :: hash
  si_last_tick_idx :: "u8 option"
  si_last_tick_hash :: "hash option"

definition slot_info_default :: slot_info where
  "slot_info_default = \<lparr>si_max_entry_index = 0, si_last_entry_hash = 0, si_last_tick_idx = None, si_last_tick_hash = None\<rparr>"

record fan_hash_cache =
  fc_inner :: "(u64, slot_info) btree"
  fc_window :: u64

definition fan_cache_new :: "u64 \<Rightarrow> fan_hash_cache" where
  "fan_cache_new window = \<lparr>fc_inner = [], fc_window = window\<rparr>"

definition info_update :: "u32 \<Rightarrow> hash \<Rightarrow> u8 option \<Rightarrow> slot_info \<Rightarrow> slot_info" where
  "info_update entry_index entry_hash tick_idx info =
     (let info1 = (if entry_index > si_max_entry_index info \<or> si_max_entry_index info = 0
            then info\<lparr>si_max_entry_index := entry_index, si_last_entry_hash := entry_hash\<rparr> else info)
      in (case tick_idx of
            None \<Rightarrow> info1
          | Some t \<Rightarrow>
              if (case si_last_tick_idx info1 of None \<Rightarrow> True | Some cur \<Rightarrow> t > cur)
              then info1\<lparr>si_last_tick_idx := Some t, si_last_tick_hash := Some entry_hash\<rparr> else info1))"

type_synonym cache_entry = "u64 \<times> u32 \<times> hash \<times> u8 option"

definition fan_cache_update :: "cache_entry \<Rightarrow> fan_hash_cache \<Rightarrow> fan_hash_cache" where
  "fan_cache_update u c = (let (slot, entry_index, entry_hash, tick_idx) = u;
       info = info_update entry_index entry_hash tick_idx (bt_get_or slot_info_default (fc_inner c) slot);
       m = bt_insert slot info (fc_inner c)
     in c\<lparr>fc_inner := (case bt_last m of
          None \<Rightarrow> m
        | Some (max_slot, _) \<Rightarrow>
            if max_slot > fc_window c then bt_evict (max_slot - fc_window c) m else m)\<rparr>)"

definition get_last_tick :: "u64 \<Rightarrow> fan_hash_cache \<Rightarrow> (u8 \<times> hash) option" where
  "get_last_tick slot c = Option.bind (bt_get (fc_inner c) slot) (\<lambda>info.
     Option.bind (si_last_tick_idx info) (\<lambda>t. map_option (\<lambda>h. (t, h)) (si_last_tick_hash info)))"

definition get_summary :: "u64 \<Rightarrow> fan_hash_cache \<Rightarrow> (u32 \<times> u8 option \<times> hash) option" where
  "get_summary slot c = map_option (\<lambda>info. (si_max_entry_index info, si_last_tick_idx info, si_last_entry_hash info))
     (bt_get (fc_inner c) slot)"

record lookup_result =
  lr_source_slot :: u64
  lr_anchor_tick :: u8
  lr_hash :: hash
  lr_chained_hashes :: u64

definition lookup_answer :: "(u8 list \<Rightarrow> hash) \<Rightarrow> u64 \<Rightarrow> u8 \<Rightarrow> hash \<Rightarrow> lookup_result" where
  "lookup_answer sha256 s tick_idx tick_hash =
     (if tick_idx \<ge> FAN_TICKS_PER_SLOT
      then \<lparr>lr_source_slot = s, lr_anchor_tick = tick_idx, lr_hash = tick_hash, lr_chained_hashes = 0\<rparr>
      else let missing_ticks = ucast (FAN_TICKS_PER_SLOT - tick_idx);
               chained = missing_ticks * HASHES_PER_TICK
           in \<lparr>lr_source_slot = s, lr_anchor_tick = tick_idx,
               lr_hash = chain_hash_forward sha256 tick_hash chained, lr_chained_hashes = chained\<rparr>)"

fun lookup_walk :: "(u8 list \<Rightarrow> hash) \<Rightarrow> (u64, slot_info) btree \<Rightarrow> u64 \<Rightarrow> u64 \<Rightarrow> nat \<Rightarrow> lookup_result option" where
  "lookup_walk sha256 m landed_slot bk 0 = None"
| "lookup_walk sha256 m landed_slot bk (Suc n) =
     (case checked_sub landed_slot bk of
        None \<Rightarrow> None
      | Some s \<Rightarrow> (case bt_get m s of
          None \<Rightarrow> lookup_walk sha256 m landed_slot (bk + 1) n
        | Some info \<Rightarrow> (case (si_last_tick_idx info, si_last_tick_hash info) of
            (Some tick_idx, Some tick_hash) \<Rightarrow> Some (lookup_answer sha256 s tick_idx tick_hash)
          | _ \<Rightarrow> lookup_walk sha256 m landed_slot (bk + 1) n)))"

definition lookup_recent_blockhash :: "(u8 list \<Rightarrow> hash) \<Rightarrow> u64 \<Rightarrow> u64 \<Rightarrow> fan_hash_cache \<Rightarrow> lookup_result option" where
  "lookup_recent_blockhash sha256 landed_slot max_lookback c =
     lookup_walk sha256 (fc_inner c) landed_slot 1 (unat max_lookback)"

definition fan_cache_run :: "u64 \<Rightarrow> cache_entry list \<Rightarrow> fan_hash_cache" where
  "fan_cache_run window us = fold fan_cache_update us (fan_cache_new window)"

section \<open>What the cache holds\<close>

definition slot_and_hash :: "cache_entry \<Rightarrow> u64 \<times> hash" where
  "slot_and_hash u = (fst u, fst (snd (snd u)))"

definition info_of :: "u64 \<Rightarrow> cache_entry list \<Rightarrow> slot_info" where
  "info_of s us = fold (\<lambda>(s', i, h, t). if s' = s then info_update i h t else id) us slot_info_default"

definition fan_holds :: "fan_hash_cache \<Rightarrow> cache_entry list \<Rightarrow> bool" where
  "fan_holds c us \<longleftrightarrow> bt_ok (fc_inner c) \<and>
     (\<forall>s. bt_get (fc_inner c) s = (if s < cache_floor (fc_window c) (top_slot (map slot_and_hash us)) \<or> s \<notin> fst ` set us
        then None else Some (info_of s us)))"

lemma info_of_snoc: "info_of s (us @ [(s', i, h, t)]) = (if s' = s then info_update i h t (info_of s us) else info_of s us)"
  by (simp add: info_of_def)

lemma info_of_absent: "s \<notin> fst ` set us \<Longrightarrow> info_of s us = slot_info_default"
  by (induction us rule: rev_induct) (auto simp: info_of_snoc, simp add: info_of_def)

lemma top_slot_in: "us \<noteq> [] \<Longrightarrow> top_slot (map slot_and_hash us) \<in> fst ` set us"
proof (induction us rule: rev_induct)
  case (snoc u us)
  obtain s h where u: "slot_and_hash u = (s, h)" by (cases "slot_and_hash u")
  then have s: "s = fst u" by (simp add: slot_and_hash_def)
  have top: "top_slot (map slot_and_hash (us @ [u])) = max s (top_slot (map slot_and_hash us))"
    using u by (simp add: top_slot_snoc)
  show ?case
  proof (cases "us = []")
    case True
    then show ?thesis using top s by (simp add: top_slot_def)
  next
    case False
    with snoc.IH have "top_slot (map slot_and_hash us) \<in> fst ` set us" by blast
    then show ?thesis unfolding top using s by (simp add: max_def image_Un)
  qed
qed simp

lemma top_slot_upper: "u \<in> set us \<Longrightarrow> fst u \<le> top_slot (map slot_and_hash us)"
  using top_slot_ge [of "fst u" "snd (slot_and_hash u)" "map slot_and_hash us"] by (force simp: slot_and_hash_def)

lemma fan_update_holds:
  assumes c: "fan_holds c us"
  shows "fan_holds (fan_cache_update u c) (us @ [u])"
proof -
  obtain slot i h t where u: "u = (slot, i, h, t)" by (cases u)
  let ?info = "info_update i h t (bt_get_or slot_info_default (fc_inner c) slot)"
  let ?m = "bt_insert slot ?info (fc_inner c)" and ?top = "top_slot (map slot_and_hash (us @ [u]))"
  let ?f = "cache_floor (fc_window c)"
  have ok: "bt_ok (fc_inner c)" "bt_ok ?m" using c by (simp_all add: fan_holds_def)
  obtain k v where last: "bt_last ?m = Some (k, v)"
    by (cases "bt_last ?m") (auto simp: bt_last_def elim: bt_insert.elims split: if_splits)
  have top: "?top = max slot (top_slot (map slot_and_hash us))" by (simp add: top_slot_snoc u slot_and_hash_def)
  have fm: "?f (top_slot (map slot_and_hash us)) \<le> ?f ?top" unfolding top by (rule cache_floor_mono) simp
  have "k = ?top"
  proof (rule antisym)
    have "bt_get ?m k = Some v" using bt_last_in [OF last] bt_get_in_set [OF ok(2), of k v] by blast
    then have "k = slot \<or> k \<in> fst ` set us" using c by (auto simp: fan_holds_def split: if_splits)
    then show "k \<le> ?top" unfolding top using top_slot_upper [of _ us] by (auto simp: max.coboundedI2)
    have "top_slot (map slot_and_hash us) \<le> k"
    proof (cases "us = []")
      case True
      then show ?thesis by (simp add: top_slot_def)
    next
      case False
      from top_slot_in [OF this] have "bt_get (fc_inner c) (top_slot (map slot_and_hash us)) \<noteq> None"
        using c cache_floor_le [of "fc_window c" "top_slot (map slot_and_hash us)"] by (auto simp: fan_holds_def not_less)
      then show ?thesis using bt_last_greatest [OF ok(2) last, of "top_slot (map slot_and_hash us)"] by auto
    qed
    moreover have "slot \<le> k" using bt_last_greatest [OF ok(2) last, of slot] by simp
    ultimately show "?top \<le> k" unfolding top by simp
  qed
  then have inner: "fc_inner (fan_cache_update u c) = bt_evict (?f ?top) ?m"
  proof (cases "?top > fc_window c")
    case True
    with last \<open>k = ?top\<close> show ?thesis
      by (simp add: fan_cache_update_def u Let_def cache_floor_def sat_sub_def less_imp_le)
  next
    case False
    then have "?f ?top = 0" by (auto simp: cache_floor_def sat_sub_def)
    then have "bt_evict (?f ?top) ?m = ?m" by (simp add: bt_evict_filter [OF ok(2)])
    with False last \<open>k = ?top\<close> show ?thesis by (simp add: fan_cache_update_def u Let_def)
  qed
  have w: "fc_window (fan_cache_update u c) = fc_window c" by (simp add: fan_cache_update_def Let_def case_prod_beta)
  have old: "slot < ?f (top_slot (map slot_and_hash us)) \<Longrightarrow> slot < ?f ?top" using fm by simp
  have info: "\<not> slot < ?f (top_slot (map slot_and_hash us)) \<Longrightarrow> bt_get_or slot_info_default (fc_inner c) slot = info_of slot us"
    using c by (cases "slot \<in> fst ` set us") (simp_all add: fan_holds_def info_of_absent)
  have "bt_get (bt_evict (?f ?top) ?m) s = (if s < ?f ?top \<or> s \<notin> fst ` set (us @ [u]) then None else Some (info_of s (us @ [u])))" for s
  proof (cases "s = slot")
    case True
    then show ?thesis using old info
      by (cases "slot < ?f (top_slot (map slot_and_hash us))") (simp_all add: bt_get_evict ok u info_of_snoc)
  next
    case False
    then show ?thesis using c fm by (auto simp: fan_holds_def bt_get_evict ok u info_of_snoc)
  qed
  then show ?thesis by (simp only: fan_holds_def inner w bt_ok_evict [OF ok(2)] simp_thms)
qed

lemma fan_run_holds: "fan_holds (fan_cache_run w us) us \<and> fc_window (fan_cache_run w us) = w"
proof (induction us rule: rev_induct)
  case Nil
  show ?case by (simp add: fan_cache_run_def fan_holds_def fan_cache_new_def)
next
  case (snoc u us)
  then have "fan_holds (fan_cache_update u (fan_cache_run w us)) (us @ [u])" by (intro fan_update_holds) simp
  moreover have "fc_window (fan_cache_update u c) = fc_window c" for c
    by (simp add: fan_cache_update_def Let_def case_prod_beta)
  ultimately show ?case using snoc by (simp add: fan_cache_run_def)
qed

section \<open>The lookup\<close>

definition tick_map :: "(u64, slot_info) btree \<Rightarrow> (u64, hash) btree" where
  "tick_map m = concat (map (\<lambda>(s, info). case (si_last_tick_idx info, si_last_tick_hash info) of
     (Some t, Some h) \<Rightarrow> [(s, h)] | _ \<Rightarrow> []) m)"

lemma bt_get_tick_map: "bt_ok m \<Longrightarrow> bt_get (tick_map m) s = Option.bind (bt_get m s) (\<lambda>info.
    if si_last_tick_idx info = None then None else si_last_tick_hash info)"
proof (induction m)
  case (Cons e m)
  obtain k info where e: "e = (k, info)" by (cases e)
  have keys: "fst ` set (tick_map m) \<subseteq> fst ` set m" by (auto simp: tick_map_def split: option.splits) force+
  have "k \<notin> fst ` set m" using Cons.prems e by auto
  with keys have none: "bt_get (tick_map m) k = None" "bt_get m k = None" by (auto simp: bt_get_None)
  have "tick_map (e # m) = (case (si_last_tick_idx info, si_last_tick_hash info) of
     (Some t, Some h) \<Rightarrow> [(k, h)] | _ \<Rightarrow> []) @ tick_map m" by (simp add: tick_map_def e)
  with Cons none e show ?case by (auto split: option.splits)
qed (simp add: tick_map_def)

lemma lookup_walk_nonce_walk:
  assumes "\<And>s. bt_get tm s = Option.bind (bt_get m s) (\<lambda>info. if si_last_tick_idx info = None then None else si_last_tick_hash info)"
  shows "lookup_walk sha256 m landed bk n = map_option (\<lambda>(s, h, x).
      lookup_answer sha256 s (the (si_last_tick_idx (the (bt_get m s)))) h) (nonce_walk hashv tm landed bk n)"
  by (induction n arbitrary: bk) (auto simp: assms split: option.splits)

definition ticks_seen :: "cache_entry list \<Rightarrow> u64 \<Rightarrow> u8 set" where
  "ticks_seen us s = {t. \<exists>i h. (s, i, h, Some t) \<in> set us}"

text \<open>The last tick of a slot is the highest one recorded, with a hash recorded for it.\<close>

lemma info_ticks:
  "(case si_last_tick_idx (info_of s us) of
      None \<Rightarrow> ticks_seen us s = {} \<and> si_last_tick_hash (info_of s us) = None
    | Some t \<Rightarrow> (\<forall>t' \<in> ticks_seen us s. t' \<le> t)
        \<and> (\<exists>i h. si_last_tick_hash (info_of s us) = Some h \<and> (s, i, h, Some t) \<in> set us))"
proof (induction us rule: rev_induct)
  case Nil
  show ?case by (simp add: info_of_def slot_info_default_def ticks_seen_def)
next
  case (snoc u us)
  obtain s' i h t where u: "u = (s', i, h, t)" by (cases u)
  have ticks: "ticks_seen (us @ [u]) s = (if s' = s then set_option t else {}) \<union> ticks_seen us s"
    by (auto simp: ticks_seen_def u)
  show ?case
  proof (cases "s' = s \<and> t \<noteq> None")
    case False
    then have same: "si_last_tick_idx (info_of s (us @ [u])) = si_last_tick_idx (info_of s us)"
      "si_last_tick_hash (info_of s (us @ [u])) = si_last_tick_hash (info_of s us)"
      by (auto simp: u info_of_snoc info_update_def Let_def split: option.splits)
    have "ticks_seen (us @ [u]) s = ticks_seen us s" using False by (auto simp: ticks)
    with snoc show ?thesis unfolding same by (auto split: option.splits)
  next
    case True
    then obtain tk where t: "t = Some tk" "s' = s" by auto
    let ?i = "info_of s us"
    have new: "si_last_tick_idx (info_of s (us @ [u])) =
        (if (case si_last_tick_idx ?i of None \<Rightarrow> True | Some cur \<Rightarrow> tk > cur) then Some tk else si_last_tick_idx ?i)"
      "si_last_tick_hash (info_of s (us @ [u])) =
        (if (case si_last_tick_idx ?i of None \<Rightarrow> True | Some cur \<Rightarrow> tk > cur) then Some h else si_last_tick_hash ?i)"
      by (simp_all add: u t info_of_snoc info_update_def Let_def)
    show ?thesis
    proof (cases "si_last_tick_idx ?i")
      case None
      with snoc have "ticks_seen us s = {}" by simp
      with None show ?thesis unfolding new ticks using t u by simp blast
    next
      case (Some cur)
      with snoc obtain i' h' where cur: "\<forall>t' \<in> ticks_seen us s. t' \<le> cur"
        "si_last_tick_hash ?i = Some h'" "(s, i', h', Some cur) \<in> set us" by auto
      show ?thesis
      proof (cases "tk > cur")
        case True
        with Some cur show ?thesis unfolding new ticks using t u by (simp, intro conjI ballI) force+
      next
        case False
        with Some cur show ?thesis unfolding new ticks using t u by (simp, intro conjI) force+
      qed
    qed
  qed
qed

definition ticked :: "u64 \<Rightarrow> cache_entry list \<Rightarrow> u64 \<Rightarrow> bool" where
  "ticked window us s \<longleftrightarrow> cache_floor window (top_slot (map slot_and_hash us)) \<le> s \<and> ticks_seen us s \<noteq> {}"

lemma chain_hash_add: "unat a + unat b < 2 ^ 64 \<Longrightarrow>
    chain_hash_forward sha256 h (a + b) = chain_hash_forward sha256 (chain_hash_forward sha256 h a) b"
proof -
  assume "unat a + unat b < 2 ^ 64"
  then have "unat (a + b) = unat b + unat a" by (simp add: unat_word_ariths)
  then show ?thesis by (simp only: chain_hash_forward_def funpow_add comp_apply)
qed

text \<open>If the ticks after the anchor were empty, hashing forward gives the hash of the final tick.\<close>

lemma chain_to_final:
  assumes "\<And>t. 64 - n \<le> t \<Longrightarrow> t < 64 \<Longrightarrow> T (Suc t) = chain_hash_forward sha256 (T t) HASHES_PER_TICK" "n \<le> 64"
  shows "chain_hash_forward sha256 (T (64 - n)) (of_nat n * HASHES_PER_TICK) = T 64"
  using assms
proof (induction n)
  case 0
  show ?case by (simp add: chain_hash_forward_def)
next
  case (Suc n)
  have m: "unat (HASHES_PER_TICK + of_nat n * HASHES_PER_TICK) = 62500 + n * 62500"
    using Suc.prems by (simp add: HASHES_PER_TICK_def unat_word_ariths unat_of_nat)
  have "unat (of_nat n * HASHES_PER_TICK) = n * 62500" "unat HASHES_PER_TICK = 62500"
    using Suc.prems by (simp_all add: HASHES_PER_TICK_def unat_word_ariths unat_of_nat)
  then have b: "unat HASHES_PER_TICK + unat (of_nat n * HASHES_PER_TICK) < 2 ^ 64" using Suc.prems by simp
  have eq: "of_nat (Suc n) * HASHES_PER_TICK = HASHES_PER_TICK + of_nat n * HASHES_PER_TICK"
    by (simp add: algebra_simps)
  have "chain_hash_forward sha256 (T (64 - Suc n)) HASHES_PER_TICK = T (64 - n)"
    using Suc.prems(1) [of "64 - Suc n", symmetric] Suc.prems(2) by (simp only: Suc_diff_Suc)
  moreover have "chain_hash_forward sha256 (T (64 - n)) (of_nat n * HASHES_PER_TICK) = T 64"
    using Suc.prems by (intro Suc.IH) simp_all
  ultimately show ?case unfolding eq chain_hash_add [OF b] by simp
qed

text \<open>
  C39. The hash the nonce is derived from: for every sequence of recorded entries whose ticks carry the hashes of the
  chain, the lookup for a landed slot uses the newest slot in the look-back of which a tick is cached (none only if
  there is no such slot) and, of that slot, the highest tick recorded, in whatever order the ticks arrived.  From there
  it hashes over exactly the ticks that are missing, and the answer is the hash of the \<^emph>\<open>final\<close> tick of the slot if
  the ticks \<^emph>\<open>after\<close> that one were empty, whatever transactions the slot had before it; with the final tick recorded
  nothing is assumed and nothing is hashed.
\<close>

theorem lookup_final_tick_hash:
  assumes chain: "\<And>s i h t. (s, i, h, Some t) \<in> set us \<Longrightarrow> t \<le> 64 \<and> h = T s (unat t)"
  shows "case lookup_recent_blockhash sha256 landed lookback (fan_cache_run w us) of
     None \<Rightarrow> (\<nexists>s. in_lookback landed lookback s \<and> ticked w us s)
   | Some r \<Rightarrow> (let s = lr_source_slot r; a = lr_anchor_tick r in
         in_lookback landed lookback s \<and> ticked w us s
       \<and> (\<forall>s'. in_lookback landed lookback s' \<and> ticked w us s' \<longrightarrow> s' \<le> s)
       \<and> a \<in> ticks_seen us s \<and> (\<forall>t \<in> ticks_seen us s. t \<le> a)
       \<and> unat (lr_chained_hashes r) = (64 - unat a) * 62500
       \<and> ((\<forall>t. unat a \<le> t \<and> t < 64 \<longrightarrow> T s (Suc t) = chain_hash_forward sha256 (T s t) HASHES_PER_TICK)
           \<longrightarrow> lr_hash r = T s 64))"
proof -
  let ?c = "fan_cache_run w us" and ?P = "\<lambda>s. in_lookback landed lookback s \<and> ticked w us s"
  have holds: "bt_ok (fc_inner ?c)" "bt_get (fc_inner ?c) s = (if s < cache_floor w (top_slot (map slot_and_hash us)) \<or> s \<notin> fst ` set us
      then None else Some (info_of s us))" for s
    using fan_run_holds [of w us] by (simp_all add: fan_holds_def)
  have slots: "ticks_seen us s \<noteq> {} \<Longrightarrow> s \<in> fst ` set us" for s by (force simp: ticks_seen_def)
  have seen: "(s, i, h, Some t) \<in> set us \<Longrightarrow> ticks_seen us s \<noteq> {}" for s i h t by (auto simp: ticks_seen_def)
  have tm: "bt_get (tick_map (fc_inner ?c)) s = (if ticked w us s then si_last_tick_hash (info_of s us) else None)" for s
    using info_ticks [of us s] slots [of s] seen [of s]
    by (auto simp: bt_get_tick_map [OF holds(1)] holds(2) ticked_def not_less split: option.splits)
  have some: "ticked w us s \<Longrightarrow> si_last_tick_hash (info_of s us) \<noteq> None" for s
    using info_ticks [of us s] by (auto simp: ticked_def split: option.splits)
  have P: "unat s + unat (1::u64) \<le> unat landed \<and> unat landed < unat s + unat (1::u64) + unat lookback
      \<and> bt_get (tick_map (fc_inner ?c)) s \<noteq> None \<longleftrightarrow> ?P s" for s
    using some [of s] by (auto simp: tm in_lookback_def)
  have "unat (1::u64) + unat lookback \<le> 2 ^ 64" using unat_bound [of lookback] by simp
  then have "nonce_walk (\<lambda>_. 0) (tick_map (fc_inner ?c)) landed 1 (unat lookback) = r \<longleftrightarrow>
      (case r of None \<Rightarrow> (\<nexists>s. ?P s)
      | Some (s, h, x) \<Rightarrow> ?P s \<and> (\<forall>t. ?P t \<longrightarrow> t \<le> s) \<and> bt_get (tick_map (fc_inner ?c)) s = Some h
          \<and> x = compute_next_durable_nonce (\<lambda>_. 0) h)" for r
    by (subst nonce_walk_spec) (simp_all only: P Let_def, simp)
  note walk = this [THEN iffD1, OF refl]
  have look: "lookup_recent_blockhash sha256 landed lookback ?c = map_option (\<lambda>(s, h, x).
      lookup_answer sha256 s (the (si_last_tick_idx (the (bt_get (fc_inner ?c) s)))) h)
      (nonce_walk (\<lambda>_. 0) (tick_map (fc_inner ?c)) landed 1 (unat lookback))"
    unfolding lookup_recent_blockhash_def by (rule lookup_walk_nonce_walk) (rule bt_get_tick_map [OF holds(1)])
  have answer: "lr_source_slot (lookup_answer sha256 s t h) = s \<and> lr_anchor_tick (lookup_answer sha256 s t h) = t
      \<and> unat (lr_chained_hashes (lookup_answer sha256 s t h)) = (64 - unat t) * 62500
      \<and> ((\<forall>k. unat t \<le> k \<and> k < 64 \<longrightarrow> T s (Suc k) = chain_hash_forward sha256 (T s k) HASHES_PER_TICK)
          \<longrightarrow> lr_hash (lookup_answer sha256 s t h) = T s 64)"
    if "t \<le> 64" "h = T s (unat t)" for s t h
  proof (cases "t \<ge> FAN_TICKS_PER_SLOT")
    case True
    with that(1) have "t = 64" by (simp add: FAN_TICKS_PER_SLOT_def)
    then show ?thesis using that(2) by (simp add: lookup_answer_def FAN_TICKS_PER_SLOT_def)
  next
    case False
    have u: "unat t \<le> 64" using that(1) by (simp add: word_le_nat_alt)
    have "unat (FAN_TICKS_PER_SLOT - t) = 64 - unat t"
      using that(1) by (simp add: FAN_TICKS_PER_SLOT_def unat_sub)
    then have gap: "ucast (FAN_TICKS_PER_SLOT - t) = (of_nat (64 - unat t) :: u64)"
      by (metis of_nat_unat)
    have "unat (of_nat (64 - unat t) * HASHES_PER_TICK) = (64 - unat t) * 62500"
      by (simp add: HASHES_PER_TICK_def unat_word_ariths unat_of_nat)
    moreover have "chain_hash_forward sha256 (T s (64 - (64 - unat t))) (of_nat (64 - unat t) * HASHES_PER_TICK) = T s 64"
      if "\<forall>k. unat t \<le> k \<and> k < 64 \<longrightarrow> T s (Suc k) = chain_hash_forward sha256 (T s k) HASHES_PER_TICK"
      using that u by (intro chain_to_final [where T = "T s"]) simp_all
    ultimately show ?thesis using False that(2) u gap by (simp add: lookup_answer_def Let_def)
  qed
  show ?thesis
  proof (cases "nonce_walk (\<lambda>_. 0) (tick_map (fc_inner ?c)) landed 1 (unat lookback)")
    case None
    with walk look show ?thesis by simp
  next
    case (Some r)
    obtain s h x where r: "r = (s, h, x)" by (cases r)
    with walk Some have s: "?P s" "\<forall>t. ?P t \<longrightarrow> t \<le> s" "bt_get (tick_map (fc_inner ?c)) s = Some h" by simp_all
    then have h: "si_last_tick_hash (info_of s us) = Some h" by (simp add: tm)
    have "\<not> s < cache_floor w (top_slot (map slot_and_hash us))" "s \<in> fst ` set us"
      using s(1) slots by (auto simp: ticked_def)
    then have info: "bt_get (fc_inner ?c) s = Some (info_of s us)" by (simp add: holds(2))
    obtain t i where t: "si_last_tick_idx (info_of s us) = Some t" "(s, i, h, Some t) \<in> set us"
      "\<forall>t' \<in> ticks_seen us s. t' \<le> t"
      using info_ticks [of us s] h by (auto split: option.splits)
    have "t \<in> ticks_seen us s" using t(2) by (auto simp: ticks_seen_def)
    with answer [of t h s] chain [OF t(2)] s(1,2) t(3) show ?thesis
      by (simp add: look Some r info t(1) Let_def)
  qed
qed

text \<open>The slot had transactions before tick 62 (its ticks do not chain), tick 61 arrived after tick 62, the last two are missing.\<close>

theorem lookup_final_tick_hash_witness:
  "\<exists>r. lookup_recent_blockhash (\<lambda>_. 9) 100 5 (fan_cache_run 64 [(98, 7, 9, Some 62), (98, 3, 7, Some 61)]) = Some r
    \<and> lr_source_slot r = 98 \<and> lr_anchor_tick r = 62 \<and> lr_hash r = 9"
proof -
  let ?us = "[(98, 7, 9, Some 62), (98, 3, 7, Some 61)] :: cache_entry list"
  let ?T = "\<lambda>(s :: u64) (t :: nat). if t < 62 then 7 else (9 :: hash)"
  have "((\<lambda>h :: hash. 9 :: hash) ^^ k) 9 = 9" for k by (induction k) simp_all
  then have fix9: "chain_hash_forward (\<lambda>_. 9) 9 n = 9" for n by (simp add: chain_hash_forward_def)
  have t: "ticked 64 ?us s \<longleftrightarrow> s = 98" for s
    by (auto simp: ticked_def ticks_seen_def slot_and_hash_def top_slot_def cache_floor_def sat_sub_def)
  have seen: "ticks_seen ?us 98 = {61, 62}" by (auto simp: ticks_seen_def)
  have l: "in_lookback 100 5 98" by (simp add: in_lookback_def)
  have "case lookup_recent_blockhash (\<lambda>_. 9) 100 5 (fan_cache_run 64 ?us) of
     None \<Rightarrow> (\<nexists>s. in_lookback 100 5 s \<and> ticked 64 ?us s)
   | Some r \<Rightarrow> (let s = lr_source_slot r; a = lr_anchor_tick r in
         in_lookback 100 5 s \<and> ticked 64 ?us s
       \<and> (\<forall>s'. in_lookback 100 5 s' \<and> ticked 64 ?us s' \<longrightarrow> s' \<le> s)
       \<and> a \<in> ticks_seen ?us s \<and> (\<forall>t \<in> ticks_seen ?us s. t \<le> a)
       \<and> unat (lr_chained_hashes r) = (64 - unat a) * 62500
       \<and> ((\<forall>t. unat a \<le> t \<and> t < 64 \<longrightarrow> ?T s (Suc t) = chain_hash_forward (\<lambda>_. 9) (?T s t) HASHES_PER_TICK) \<longrightarrow> lr_hash r = ?T s 64))"
    by (rule lookup_final_tick_hash [where T = ?T]) auto
  then obtain r where r: "lookup_recent_blockhash (\<lambda>_. 9) 100 5 (fan_cache_run 64 ?us) = Some r"
    "lr_source_slot r = 98" "lr_anchor_tick r \<in> {61, 62}" "\<forall>t \<in> {61, 62}. t \<le> lr_anchor_tick r"
    "(\<forall>t. unat (lr_anchor_tick r) \<le> t \<and> t < 64 \<longrightarrow> ?T 98 (Suc t) = chain_hash_forward (\<lambda>_. 9) (?T 98 t) HASHES_PER_TICK) \<longrightarrow> lr_hash r = 9"
    using t l seen by (auto simp: Let_def split: option.splits)
  then have "lr_anchor_tick r = 62" by auto
  with r fix9 show ?thesis by simp
qed

end
