(* ===== verification/FanObserver.thy ===== *)
theory FanObserver
  imports FanSlotCache Channel Entries KeyStore
begin

text \<open>
  The entry merger and the observer of the earlier bench (\<open>crates/fan-out-bench/src/merger.rs\<close>,
  \<open>observer.rs\<close>).  The observer counts the PoH ticks of every slot by their hashes, fires the
  triggers of the schedule, feeds the slot hash cache and reports the pending signatures it sees.
  \<open>now\<close> is the clock at the trigger, \<open>clk i\<close> at the match of the i-th signature.
\<close>

section \<open>The merger\<close>

definition FAN_DEDUP_WINDOW_SLOTS :: u64 where
  "FAN_DEDUP_WINDOW_SLOTS = 50"

record fan_merged_entry =
  fm_observation :: entry_obs
  fm_first_seen_source :: source_kind

record fan_merger =
  fg_seen :: "(u64 \<times> hash) set"
  fg_max_slot :: u64
  fg_out_tx :: "fan_merged_entry chan"
  fg_send_event_queue_full :: u64

definition fan_merger_new :: "nat option \<Rightarrow> fan_merger" where
  "fan_merger_new cap = \<lparr>fg_seen = {}, fg_max_slot = 0, fg_out_tx = chan_new cap, fg_send_event_queue_full = 0\<rparr>"

definition fan_merger_recv :: "source_kind \<Rightarrow> entry_obs \<Rightarrow> fan_merger \<Rightarrow> fan_merger" where
  "fan_merger_recv source obs mg =
     (let key = (obs_slot obs, obs_entry_hash obs) in
      if key \<in> fg_seen mg then mg
      else
        let mg1 = mg\<lparr>fg_seen := insert key (fg_seen mg)\<rparr>;
            mg2 = (if obs_slot obs > fg_max_slot mg1
              then (let mx = obs_slot obs in
                mg1\<lparr>fg_max_slot := mx,
                    fg_seen := (if mx > FAN_DEDUP_WINDOW_SLOTS
                      then {k \<in> fg_seen mg1. fst k \<ge> mx - FAN_DEDUP_WINDOW_SLOTS} else fg_seen mg1)\<rparr>)
              else mg1);
            (tx, ok) = try_send (fg_out_tx mg2) \<lparr>fm_observation = obs, fm_first_seen_source = source\<rparr>
        in mg2\<lparr>fg_out_tx := tx,
               fg_send_event_queue_full := (if ok then fg_send_event_queue_full mg2 else fg_send_event_queue_full mg2 + 1)\<rparr>)"

section \<open>The observer\<close>

record fan_trigger_event =
  ft_slot :: u64
  ft_tick :: u8
  ft_cumulative_hashes_in_slot :: u64
  ft_observed_at :: instant

record fan_match_event =
  fv_signature :: signature
  fv_observed_at :: instant
  fv_observed_slot :: u64
  fv_observed_entry_index :: u32
  fv_observed_tick_in_slot :: "u8 option"
  fv_observed_cumulative_hashes_in_slot :: "u64 option"
  fv_observed_source :: source_kind

record slot_state =
  ss_tick_idx :: u8
  ss_hash_count_since_last_tick :: u64
  ss_cumulative_hashes_in_slot :: u64
  ss_seen_entries :: "hash set"
  ss_fired_ticks :: "u8 set"

definition slot_state_default :: slot_state where
  "slot_state_default = \<lparr>ss_tick_idx = 0, ss_hash_count_since_last_tick = 0, ss_cumulative_hashes_in_slot = 0,
     ss_seen_entries = {}, ss_fired_ticks = {}\<rparr>"

record observer_counters =
  ox_schedule_contains_calls :: u64
  ox_schedule_contains_true :: u64
  ox_tick_event_queue_full :: u64
  ox_fork_tick_overflow :: u64
  ox_match_queue_full :: u64

record observer =
  ob_slot_states :: "(u64, slot_state) hmap"
  ob_last_eviction :: instant
  ob_schedule :: "(u64 \<times> u8) set"
  ob_trigger_tx :: "fan_trigger_event chan"
  ob_match_tx :: "fan_match_event chan"
  ob_pending_sigs :: "signature set"
  ob_current_slot :: u64
  ob_slot_hash_cache :: "fan_hash_cache option"
  ob_counters :: observer_counters

text \<open>The hash counts of a new entry, and whether it completes a tick.\<close>

definition count_hashes :: "entry_obs \<Rightarrow> slot_state \<Rightarrow> slot_state" where
  "count_hashes obs st = st
     \<lparr>ss_seen_entries := insert (obs_entry_hash obs) (ss_seen_entries st),
      ss_cumulative_hashes_in_slot := sat_add (ss_cumulative_hashes_in_slot st) (obs_num_hashes obs),
      ss_hash_count_since_last_tick := sat_add (ss_hash_count_since_last_tick st) (obs_num_hashes obs)\<rparr>"

definition completes_tick :: "entry_obs \<Rightarrow> slot_state \<Rightarrow> bool" where
  "completes_tick obs st \<longleftrightarrow> obs_tx_count obs = 0 \<and> ss_hash_count_since_last_tick st = HASHES_PER_TICK"

text \<open>A completed tick, below the number of ticks of a slot: count it and fire its trigger.\<close>

definition observe_tick :: "entry_obs \<Rightarrow> instant \<Rightarrow> slot_state \<times> observer \<Rightarrow> slot_state \<times> observer" where
  "observe_tick obs now sto = (let (st, ob) = sto;
       st1 = st\<lparr>ss_tick_idx := sat_add (ss_tick_idx st) 1, ss_hash_count_since_last_tick := 0\<rparr>;
       tick_now = ss_tick_idx st1;
       c = (ob_counters ob)\<lparr>ox_schedule_contains_calls := ox_schedule_contains_calls (ob_counters ob) + 1\<rparr>
     in if (obs_slot obs, tick_now) \<in> ob_schedule ob \<and> tick_now \<notin> ss_fired_ticks st1
        then let c1 = c\<lparr>ox_schedule_contains_true := ox_schedule_contains_true c + 1\<rparr>;
                 event = \<lparr>ft_slot = obs_slot obs, ft_tick = tick_now,
                          ft_cumulative_hashes_in_slot = ss_cumulative_hashes_in_slot st1, ft_observed_at = now\<rparr>;
                 (tx, ok) = try_send (ob_trigger_tx ob) event
             in (st1\<lparr>ss_fired_ticks := insert tick_now (ss_fired_ticks st1)\<rparr>,
                 ob\<lparr>ob_trigger_tx := tx, ob_counters := (if ok then c1
                    else c1\<lparr>ox_tick_event_queue_full := ox_tick_event_queue_full c1 + 1\<rparr>)\<rparr>)
        else (st1, ob\<lparr>ob_counters := c\<rparr>))"

definition observe_sig :: "fan_merged_entry \<Rightarrow> slot_state \<Rightarrow> signature \<times> instant \<Rightarrow> observer \<Rightarrow> observer" where
  "observe_sig merged st si ob = (let (sig, now) = si; obs = fm_observation merged in
     if sig \<in> ob_pending_sigs ob
     then let event = \<lparr>fv_signature = sig, fv_observed_at = now, fv_observed_slot = obs_slot obs,
                fv_observed_entry_index = obs_entry_index obs,
                fv_observed_tick_in_slot = (if ss_tick_idx st > 0 then Some (ss_tick_idx st) else None),
                fv_observed_cumulative_hashes_in_slot = Some (ss_cumulative_hashes_in_slot st),
                fv_observed_source = fm_first_seen_source merged\<rparr>;
              (tx, ok) = try_send (ob_match_tx ob) event;
              c = ob_counters ob
          in ob\<lparr>ob_pending_sigs := ob_pending_sigs ob - {sig}, ob_match_tx := tx,
                ob_counters := (if ok then c else c\<lparr>ox_match_queue_full := ox_match_queue_full c + 1\<rparr>)\<rparr>
     else ob)"

definition process_entry :: "fan_merged_entry \<Rightarrow> instant \<Rightarrow> (nat \<Rightarrow> instant) \<Rightarrow> observer \<Rightarrow> observer" where
  "process_entry merged now clk ob =
     (let obs = fm_observation merged;
          st = (case hm_get (ob_slot_states ob) (obs_slot obs) of None \<Rightarrow> slot_state_default | Some st \<Rightarrow> st)
      in if obs_entry_hash obs \<in> ss_seen_entries st
         then ob\<lparr>ob_slot_states := hm_insert (obs_slot obs) st (ob_slot_states ob)\<rparr>
         else
           let st1 = count_hashes obs st;
               ticked = (completes_tick obs st1 \<and> ss_tick_idx st1 < FAN_TICKS_PER_SLOT);
               (st2, ob2) = (if ticked then observe_tick obs now (st1, ob)
                 else if completes_tick obs st1
                 then (st1, ob\<lparr>ob_counters := (ob_counters ob)\<lparr>ox_fork_tick_overflow := ox_fork_tick_overflow (ob_counters ob) + 1\<rparr>\<rparr>)
                 else (st1, ob));
               tick_for_cache = (if ticked then Some (ss_tick_idx st2) else None);
               ob3 = ob2\<lparr>ob_slot_hash_cache := map_option
                 (fan_cache_update (obs_slot obs, obs_entry_index obs, obs_entry_hash obs, tick_for_cache)) (ob_slot_hash_cache ob2)\<rparr>;
               sigs = obs_signatures obs;
               ob4 = fold (observe_sig merged st2) (zip sigs (map clk [0..<length sigs])) ob3
           in ob4\<lparr>ob_slot_states := hm_insert (obs_slot obs) st2 (ob_slot_states ob4)\<rparr>)"

definition maybe_evict_old_slots :: "instant \<Rightarrow> instant \<Rightarrow> observer \<Rightarrow> observer" where
  "maybe_evict_old_slots now mark ob =
     (if since now (ob_last_eviction ob) < 500000000 then ob
      else let ob1 = ob\<lparr>ob_last_eviction := mark\<rparr>; current = ob_current_slot ob1 in
        if current > 64
        then ob1\<lparr>ob_slot_states := hm_retain (\<lambda>s _. s \<ge> sat_sub current 64) (ob_slot_states ob1)\<rparr>
        else ob1)"

text \<open>One turn of the loop: an entry, or a timeout; then the eviction (clocks \<open>t1\<close>, \<open>t2\<close>).  In
  between the other threads store a schedule and insert or remove pending signatures.\<close>

datatype observer_event =
    VEntry fan_merged_entry instant "nat \<Rightarrow> instant" instant instant
  | VTimeout instant instant
  | VSchedule "(u64 \<times> u8) set"
  | VPending "signature set"

fun observer_step :: "observer_event \<Rightarrow> observer \<Rightarrow> observer" where
  "observer_step (VEntry merged now clk t1 t2) ob =
     (let ob1 = process_entry merged now clk ob;
          slot = obs_slot (fm_observation merged);
          ob2 = (if slot > ob_current_slot ob1 then ob1\<lparr>ob_current_slot := slot\<rparr> else ob1)
      in maybe_evict_old_slots t1 t2 ob2)"
| "observer_step (VTimeout t1 t2) ob = maybe_evict_old_slots t1 t2 ob"
| "observer_step (VSchedule s) ob = ob\<lparr>ob_schedule := s\<rparr>"
| "observer_step (VPending s) ob = ob\<lparr>ob_pending_sigs := s\<rparr>"

definition observer_new :: "(u64 \<times> u8) set \<Rightarrow> nat option \<Rightarrow> u64 \<Rightarrow> fan_hash_cache option \<Rightarrow> instant \<Rightarrow> observer" where
  "observer_new schedule cap start_slot cache now =
     \<lparr>ob_slot_states = [], ob_last_eviction = now, ob_schedule = schedule, ob_trigger_tx = chan_new cap,
      ob_match_tx = chan_new cap, ob_pending_sigs = {}, ob_current_slot = start_slot, ob_slot_hash_cache = cache,
      ob_counters = \<lparr>ox_schedule_contains_calls = 0, ox_schedule_contains_true = 0, ox_tick_event_queue_full = 0,
        ox_fork_tick_overflow = 0, ox_match_queue_full = 0\<rparr>\<rparr>"

definition observer_run :: "observer_event list \<Rightarrow> observer \<Rightarrow> observer" where
  "observer_run es ob = fold observer_step es ob"

section \<open>Ticks are counted by hashes\<close>

abbreviation "HT \<equiv> (62500 :: nat)"

text \<open>The reference: per slot the entries seen and the hashes they made, and nothing else.\<close>

type_synonym slot_totals = "u64 \<Rightarrow> hash set \<times> nat"

definition total_after :: "entry_obs \<Rightarrow> nat \<Rightarrow> nat" where
  "total_after obs n = n + unat (obs_num_hashes obs)"

definition add_entry :: "entry_obs \<Rightarrow> slot_totals \<Rightarrow> slot_totals" where
  "add_entry obs tot = (let (seen, n) = tot (obs_slot obs) in
     if obs_entry_hash obs \<in> seen then tot
     else tot(obs_slot obs := (insert (obs_entry_hash obs) seen, total_after obs n)))"

fun ref_ticks :: "(u64 \<times> u8) set \<Rightarrow> slot_totals \<Rightarrow> observer_event list \<Rightarrow> (u64 \<times> u8 \<times> u64) list" where
  "ref_ticks S tot [] = []"
| "ref_ticks S tot (VEntry m now clk t1 t2 # es) =
     (let obs = fm_observation m; (seen, n) = tot (obs_slot obs); n' = total_after obs n in
      (if obs_entry_hash obs \<notin> seen \<and> n div HT < n' div HT \<and> (obs_slot obs, of_nat (n' div HT)) \<in> S
       then [(obs_slot obs, of_nat (n' div HT), of_nat n')] else []) @ ref_ticks S (add_entry obs tot) es)"
| "ref_ticks S tot (VSchedule S' # es) = ref_ticks S' tot es"
| "ref_ticks S tot (_ # es) = ref_ticks S tot es"

text \<open>A stream the chain produces: a tick of 62,500 hashes ends with an entry without transactions,
  a slot has 64 of them, and no entry arrives more than 64 slots late.\<close>

fun poh_stream :: "u64 \<Rightarrow> slot_totals \<Rightarrow> observer_event list \<Rightarrow> bool" where
  "poh_stream mx tot [] \<longleftrightarrow> True"
| "poh_stream mx tot (VEntry m now clk t1 t2 # es) \<longleftrightarrow>
     (let obs = fm_observation m; (seen, n) = tot (obs_slot obs); n' = total_after obs n; next_tick = (n div HT + 1) * HT in
      sat_sub mx 64 \<le> obs_slot obs
      \<and> (obs_entry_hash obs \<in> seen \<or> n' \<le> 64 * HT \<and> (n' < next_tick \<or> n' = next_tick \<and> obs_tx_count obs = 0))
      \<and> poh_stream (max (obs_slot obs) mx) (add_entry obs tot) es)"
| "poh_stream mx tot (_ # es) \<longleftrightarrow> poh_stream mx tot es"

definition slot_agrees :: "slot_state \<Rightarrow> hash set \<times> nat \<Rightarrow> bool" where
  "slot_agrees st sn \<longleftrightarrow> ss_seen_entries st = fst sn \<and> snd sn \<le> 64 * HT
     \<and> unat (ss_tick_idx st) = snd sn div HT \<and> unat (ss_hash_count_since_last_tick st) = snd sn mod HT
     \<and> unat (ss_cumulative_hashes_in_slot st) = snd sn \<and> (\<forall>t \<in> ss_fired_ticks st. unat t \<le> snd sn div HT)"

lemma slot_agrees_default: "slot_agrees slot_state_default ({}, 0)"
  by (simp add: slot_agrees_def slot_state_default_def)

lemma count_agrees:
  assumes "slot_agrees st (seen, n)" "total_after obs n \<le> 64 * HT"
  shows "unat (ss_cumulative_hashes_in_slot (count_hashes obs st)) = total_after obs n"
    "unat (ss_hash_count_since_last_tick (count_hashes obs st)) = n mod HT + unat (obs_num_hashes obs)"
proof -
  have "n mod HT \<le> n" by simp
  then have "n mod HT + unat (obs_num_hashes obs) \<le> 64 * HT" using assms(2) unfolding total_after_def by linarith
  then show "unat (ss_hash_count_since_last_tick (count_hashes obs st)) = n mod HT + unat (obs_num_hashes obs)"
    using assms(1) by (simp add: count_hashes_def slot_agrees_def unat_sat_add)
  show "unat (ss_cumulative_hashes_in_slot (count_hashes obs st)) = total_after obs n"
    using assms by (simp add: count_hashes_def slot_agrees_def unat_sat_add total_after_def)
qed

lemma digit: "r < m \<Longrightarrow> (q * m + r) div m = q \<and> (q * m + r) mod m = r" for q r m :: nat
  by simp

lemma next_tick_iff:
  assumes "n' = n + k" "n' < (n div HT + 1) * HT \<or> n' = (n div HT + 1) * HT"
  shows "(n mod HT + k = HT) = (n div HT < n' div HT)" "n mod HT + k \<noteq> HT \<Longrightarrow> n' div HT = n div HT \<and> n' mod HT = n mod HT + k"
    "n mod HT + k = HT \<Longrightarrow> n' div HT = n div HT + 1 \<and> n' mod HT = 0"
proof -
  have n: "n = n div HT * HT + n mod HT" by simp
  have eq: "n' = n div HT * HT + (n mod HT + k)" using assms(1) n by linarith
  show full: "n mod HT + k = HT \<Longrightarrow> n' div HT = n div HT + 1 \<and> n' mod HT = 0"
    using eq by simp
  have "(n div HT + 1) * HT = n div HT * HT + HT" by simp
  with assms(2) eq have le: "n mod HT + k \<le> HT" by linarith
  show part: "n mod HT + k \<noteq> HT \<Longrightarrow> n' div HT = n div HT \<and> n' mod HT = n mod HT + k"
  proof -
    assume "n mod HT + k \<noteq> HT"
    with le have "n mod HT + k < HT" by simp
    from digit [OF this, of "n div HT"] show ?thesis unfolding eq [symmetric] .
  qed
  show "(n mod HT + k = HT) = (n div HT < n' div HT)"
    using full part by (cases "n mod HT + k = HT") auto
qed

definition state_of :: "observer \<Rightarrow> u64 \<Rightarrow> slot_state" where
  "state_of ob s = (case hm_get (ob_slot_states ob) s of None \<Rightarrow> slot_state_default | Some st \<Rightarrow> st)"

definition fired_view :: "observer \<Rightarrow> (u64 \<times> u8 \<times> u64) list" where
  "fired_view ob = map (\<lambda>t. (ft_slot t, ft_tick t, ft_cumulative_hashes_in_slot t)) (ch_offered (ob_trigger_tx ob))"

lemma observe_sig_frame [frame]:
  "ob_slot_states (observe_sig m st si ob) = ob_slot_states ob" "ob_trigger_tx (observe_sig m st si ob) = ob_trigger_tx ob"
  "ob_schedule (observe_sig m st si ob) = ob_schedule ob" "ob_current_slot (observe_sig m st si ob) = ob_current_slot ob"
  by (simp_all add: observe_sig_def Let_def case_prod_beta)

lemma observe_sigs_frame [frame]:
  "ob_slot_states (fold (observe_sig m st) sis ob) = ob_slot_states ob"
  "ob_trigger_tx (fold (observe_sig m st) sis ob) = ob_trigger_tx ob"
  "ob_schedule (fold (observe_sig m st) sis ob) = ob_schedule ob"
  "ob_current_slot (fold (observe_sig m st) sis ob) = ob_current_slot ob"
  by (induction sis arbitrary: ob) (simp_all add: frame)

lemma process_entry_frame [frame]:
  "ob_schedule (process_entry m now clk ob) = ob_schedule ob"
  "ob_current_slot (process_entry m now clk ob) = ob_current_slot ob"
  by (auto simp: process_entry_def Let_def frame observe_tick_def case_prod_beta split: option.splits)

text \<open>The state of the entry's slot after a new entry, and the trigger it fires.\<close>

lemma observe_tick_effect:
  assumes "observe_tick obs now (st, ob) = (st2, ob2)"
  defines "tk \<equiv> sat_add (ss_tick_idx st) 1"
  defines "hit \<equiv> (obs_slot obs, tk) \<in> ob_schedule ob \<and> tk \<notin> ss_fired_ticks st"
  shows "st2 = st\<lparr>ss_tick_idx := tk, ss_hash_count_since_last_tick := 0,
      ss_fired_ticks := (if hit then insert tk (ss_fired_ticks st) else ss_fired_ticks st)\<rparr>"
    "fired_view ob2 = fired_view ob @ (if hit then [(obs_slot obs, tk, ss_cumulative_hashes_in_slot st)] else [])"
    "ob_slot_states ob2 = ob_slot_states ob"
  using assms(1) unfolding observe_tick_def Let_def tk_def [symmetric] hit_def
  by (auto simp: fired_view_def case_prod_beta tk_def [symmetric] split: if_splits)

lemma observe_tick_agrees:
  assumes "slot_agrees st (seen, n)" "total_after obs n \<le> 64 * HT" "total_after obs n = (n div HT + 1) * HT"
    and tick: "observe_tick obs now (count_hashes obs st, ob) = (st2, ob2)"
  shows "slot_agrees st2 (insert (obs_entry_hash obs) seen, total_after obs n)"
    "fired_view ob2 = fired_view ob @ (if (obs_slot obs, of_nat (total_after obs n div HT)) \<in> ob_schedule ob
       then [(obs_slot obs, of_nat (total_after obs n div HT), of_nat (total_after obs n))] else [])"
    "ob_slot_states ob2 = ob_slot_states ob"
proof -
  let ?n' = "total_after obs n" and ?st1 = "count_hashes obs st"
  define tk where "tk = sat_add (ss_tick_idx st) 1"
  have d: "?n' div HT = n div HT + 1" "?n' mod HT = 0" using assms(3) by simp_all
  have le: "n div HT + 1 \<le> 64" using assms(2) unfolding assms(3) by simp
  have idx: "ss_tick_idx ?st1 = ss_tick_idx st" "ss_fired_ticks ?st1 = ss_fired_ticks st"
    "ss_seen_entries ?st1 = insert (obs_entry_hash obs) seen"
    using assms(1) by (simp_all add: count_hashes_def slot_agrees_def)
  have u: "unat tk = n div HT + 1"
    using assms(1) le by (simp add: tk_def unat_sat_add slot_agrees_def)
  then have w: "of_nat (?n' div HT) = tk" unfolding d(1) by (metis of_nat_unat ucast_id)
  have fresh: "tk \<notin> ss_fired_ticks st" using assms(1) u by (fastforce simp: slot_agrees_def)
  have cum: "unat (ss_cumulative_hashes_in_slot ?st1) = ?n'" by (rule count_agrees(1) [OF assms(1,2)])
  then have cw: "of_nat ?n' = ss_cumulative_hashes_in_slot ?st1" by (metis of_nat_unat ucast_id)
  have old: "\<forall>t \<in> ss_fired_ticks st. unat t \<le> n div HT" using assms(1) by (simp add: slot_agrees_def)
  note eff = observe_tick_effect [OF tick, unfolded idx, folded tk_def]
  have ag: "slot_agrees (?st1\<lparr>ss_tick_idx := tk, ss_hash_count_since_last_tick := 0, ss_fired_ticks := F\<rparr>)
      (insert (obs_entry_hash obs) seen, ?n')" if "\<forall>t \<in> F. unat t \<le> n div HT + 1" for F
    unfolding slot_agrees_def fst_conv snd_conv d using that assms(2) u cum idx(3) by simp
  have "\<forall>t \<in> ss_fired_ticks st. unat t \<le> n div HT + 1" "\<forall>t \<in> insert tk (ss_fired_ticks st). unat t \<le> n div HT + 1"
    using old u by auto
  then show "slot_agrees st2 (insert (obs_entry_hash obs) seen, ?n')"
    unfolding eff(1) by (simp only: ag simp_thms split: if_split)
  show "fired_view ob2 = fired_view ob @ (if (obs_slot obs, of_nat (?n' div HT)) \<in> ob_schedule ob
       then [(obs_slot obs, of_nat (?n' div HT), of_nat ?n')] else [])"
    unfolding eff(2) w cw using fresh by simp
  show "ob_slot_states ob2 = ob_slot_states ob" by (rule eff(3))
qed

definition fresh_tick :: "fan_merged_entry \<Rightarrow> observer \<Rightarrow> bool" where
  "fresh_tick m ob \<longleftrightarrow> (let obs = fm_observation m; st = state_of ob (obs_slot obs) in
     obs_entry_hash obs \<notin> ss_seen_entries st \<and> completes_tick obs (count_hashes obs st)
     \<and> ss_tick_idx (count_hashes obs st) < FAN_TICKS_PER_SLOT)"

lemma process_entry_effect:
  fixes m ob
  defines "obs \<equiv> fm_observation m"
  defines "st \<equiv> state_of ob (obs_slot obs)"
  shows "state_of (process_entry m now clk ob) s =
      (if s \<noteq> obs_slot obs then state_of ob s
       else if fresh_tick m ob then fst (observe_tick obs now (count_hashes obs st, ob))
       else if obs_entry_hash obs \<in> ss_seen_entries st then st else count_hashes obs st)"
    "fired_view (process_entry m now clk ob) =
      (if fresh_tick m ob then fired_view (snd (observe_tick obs now (count_hashes obs st, ob))) else fired_view ob)"
    "hm_ok (ob_slot_states ob) \<Longrightarrow> hm_ok (ob_slot_states (process_entry m now clk ob))"
proof -
  let ?ob' = "process_entry m now clk ob" and ?st1 = "count_hashes obs st"
  have "\<exists>st2. hm_get (ob_slot_states ?ob') = (hm_get (ob_slot_states ob))(obs_slot obs \<mapsto> st2)
      \<and> st2 = (if fresh_tick m ob then fst (observe_tick obs now (?st1, ob))
         else if obs_entry_hash obs \<in> ss_seen_entries st then st else ?st1)
      \<and> fired_view ?ob' = (if fresh_tick m ob then fired_view (snd (observe_tick obs now (?st1, ob))) else fired_view ob)
      \<and> (hm_ok (ob_slot_states ob) \<longrightarrow> hm_ok (ob_slot_states ?ob'))"
  proof (cases "obs_entry_hash obs \<in> ss_seen_entries st")
    case True
    then have "?ob' = ob\<lparr>ob_slot_states := hm_insert (obs_slot obs) st (ob_slot_states ob)\<rparr>" "\<not> fresh_tick m ob"
      by (simp_all add: process_entry_def fresh_tick_def Let_def obs_def [symmetric] state_of_def [symmetric] st_def [symmetric])
    with True show ?thesis by (intro exI [of _ st]) (auto simp: fired_view_def)
  next
    case False
    have fresh: "fresh_tick m ob \<longleftrightarrow> completes_tick obs ?st1 \<and> ss_tick_idx ?st1 < FAN_TICKS_PER_SLOT"
      using False by (simp add: fresh_tick_def Let_def obs_def [symmetric] st_def [symmetric])
    have body: "?ob' = (let
         (st2, ob2) = (if fresh_tick m ob then observe_tick obs now (?st1, ob)
           else if completes_tick obs ?st1
           then (?st1, ob\<lparr>ob_counters := (ob_counters ob)\<lparr>ox_fork_tick_overflow := ox_fork_tick_overflow (ob_counters ob) + 1\<rparr>\<rparr>)
           else (?st1, ob));
         tick_for_cache = (if fresh_tick m ob then Some (ss_tick_idx st2) else None);
         ob3 = ob2\<lparr>ob_slot_hash_cache := map_option
           (fan_cache_update (obs_slot obs, obs_entry_index obs, obs_entry_hash obs, tick_for_cache)) (ob_slot_hash_cache ob2)\<rparr>;
         sigs = obs_signatures obs;
         ob4 = fold (observe_sig m st2) (zip sigs (map clk [0..<length sigs])) ob3
       in ob4\<lparr>ob_slot_states := hm_insert (obs_slot obs) st2 (ob_slot_states ob4)\<rparr>)"
      using False by (simp add: process_entry_def obs_def [symmetric] state_of_def [symmetric] st_def [symmetric] Let_def fresh)
    obtain st2 ob2 where t: "observe_tick obs now (?st1, ob) = (st2, ob2)" by fastforce
    show ?thesis
    proof (cases "fresh_tick m ob")
      case True
      with t observe_tick_effect(3) [OF t] show ?thesis unfolding body
        by (intro exI [of _ st2]) (auto simp: Let_def frame fired_view_def fun_eq_iff)
    next
      case nf: False
      with False show ?thesis unfolding body
        by (intro exI [of _ ?st1]) (auto simp: Let_def frame fired_view_def fun_eq_iff)
    qed
  qed
  then obtain st2 where r: "hm_get (ob_slot_states ?ob') = (hm_get (ob_slot_states ob))(obs_slot obs \<mapsto> st2)"
      "st2 = (if fresh_tick m ob then fst (observe_tick obs now (?st1, ob))
         else if obs_entry_hash obs \<in> ss_seen_entries st then st else ?st1)"
    and f: "fired_view ?ob' = (if fresh_tick m ob then fired_view (snd (observe_tick obs now (?st1, ob))) else fired_view ob)"
      "hm_ok (ob_slot_states ob) \<longrightarrow> hm_ok (ob_slot_states ?ob')" by blast
  show "state_of ?ob' s =
      (if s \<noteq> obs_slot obs then state_of ob s
       else if fresh_tick m ob then fst (observe_tick obs now (?st1, ob))
       else if obs_entry_hash obs \<in> ss_seen_entries st then st else ?st1)"
    unfolding r(2) [symmetric] by (simp add: state_of_def r(1))
  show "fired_view ?ob' = (if fresh_tick m ob then fired_view (snd (observe_tick obs now (?st1, ob))) else fired_view ob)"
    by (rule f(1))
  show "hm_ok (ob_slot_states ob) \<Longrightarrow> hm_ok (ob_slot_states ?ob')" using f(2) by blast
qed

lemma process_entry_agrees:
  fixes m ob
  defines "obs \<equiv> fm_observation m"
  assumes ag: "slot_agrees (state_of ob (obs_slot obs)) (seen, n)"
    and reg: "obs_entry_hash obs \<in> seen \<or> total_after obs n \<le> 64 * HT
      \<and> (total_after obs n < (n div HT + 1) * HT \<or> total_after obs n = (n div HT + 1) * HT \<and> obs_tx_count obs = 0)"
  shows "slot_agrees (state_of (process_entry m now clk ob) (obs_slot obs))
      (if obs_entry_hash obs \<in> seen then (seen, n) else (insert (obs_entry_hash obs) seen, total_after obs n))"
    "fired_view (process_entry m now clk ob) = fired_view ob @ (if obs_entry_hash obs \<notin> seen \<and> n div HT < total_after obs n div HT
        \<and> (obs_slot obs, of_nat (total_after obs n div HT)) \<in> ob_schedule ob
       then [(obs_slot obs, of_nat (total_after obs n div HT), of_nat (total_after obs n))] else [])"
proof -
  let ?st = "state_of ob (obs_slot obs)" and ?n' = "total_after obs n"
  let ?st1 = "count_hashes obs ?st"
  have seen: "ss_seen_entries ?st = seen" using ag by (simp add: slot_agrees_def)
  note eff = process_entry_effect [where m = m and ob = ob and now = now and clk = clk, folded obs_def]
  have "slot_agrees (state_of (process_entry m now clk ob) (obs_slot obs))
      (if obs_entry_hash obs \<in> seen then (seen, n) else (insert (obs_entry_hash obs) seen, ?n'))
    \<and> fired_view (process_entry m now clk ob) = fired_view ob @ (if obs_entry_hash obs \<notin> seen \<and> n div HT < ?n' div HT
        \<and> (obs_slot obs, of_nat (?n' div HT)) \<in> ob_schedule ob
       then [(obs_slot obs, of_nat (?n' div HT), of_nat ?n')] else [])"
  proof (cases "obs_entry_hash obs \<in> seen")
    case True
    then have "\<not> fresh_tick m ob" using seen by (simp add: fresh_tick_def Let_def obs_def [symmetric])
    with True ag seen show ?thesis by (simp add: eff)
  next
    case False
    with reg have le: "?n' \<le> 64 * HT" and
      step: "?n' < (n div HT + 1) * HT \<or> ?n' = (n div HT + 1) * HT \<and> obs_tx_count obs = 0" by simp_all
    then have "?n' < (n div HT + 1) * HT \<or> ?n' = (n div HT + 1) * HT" by blast
    note iff = next_tick_iff [OF total_after_def this]
    note cnt = count_agrees [OF ag le]
    have idx: "ss_tick_idx ?st1 = ss_tick_idx ?st" by (simp add: count_hashes_def)
    have "unat HASHES_PER_TICK = HT" by (simp add: HASHES_PER_TICK_def)
    then have full: "ss_hash_count_since_last_tick ?st1 = HASHES_PER_TICK \<longleftrightarrow> n div HT < ?n' div HT"
      using cnt(2) iff(1) by (metis word_unat_eq_iff)
    show ?thesis
    proof (cases "n div HT < ?n' div HT")
      case True
      with iff step have end_: "?n' = (n div HT + 1) * HT" "obs_tx_count obs = 0"
        by (auto simp: div_less_iff_less_mult)
      have "n div HT + 1 \<le> 64" using le unfolding end_(1) by simp
      then have "ss_tick_idx ?st < 64" using ag by (simp add: slot_agrees_def word_less_nat_alt)
      then have fresh: "fresh_tick m ob"
        using full True False seen end_(2) idx
        by (simp add: fresh_tick_def completes_tick_def FAN_TICKS_PER_SLOT_def Let_def obs_def [symmetric])
      obtain st2 ob2 where t: "observe_tick obs now (?st1, ob) = (st2, ob2)" by fastforce
      note tick = observe_tick_agrees [OF ag le end_(1) t]
      show ?thesis using tick(1,2) True False by (simp add: eff fresh t)
    next
      case no: False
      then have nf: "\<not> fresh_tick m ob" using full
        by (simp add: fresh_tick_def completes_tick_def Let_def obs_def [symmetric])
      have "n mod HT + unat (obs_num_hashes obs) \<noteq> HT" using iff(1) no by simp
      note same = iff(2) [OF this]
      have "slot_agrees ?st1 (insert (obs_entry_hash obs) seen, ?n')"
        using ag le same cnt seen by (simp add: slot_agrees_def idx) (simp add: count_hashes_def)
      with no False nf seen show ?thesis by (simp add: eff)
    qed
  qed
  then show "slot_agrees (state_of (process_entry m now clk ob) (obs_slot obs))
      (if obs_entry_hash obs \<in> seen then (seen, n) else (insert (obs_entry_hash obs) seen, ?n'))"
    "fired_view (process_entry m now clk ob) = fired_view ob @ (if obs_entry_hash obs \<notin> seen \<and> n div HT < ?n' div HT
        \<and> (obs_slot obs, of_nat (?n' div HT)) \<in> ob_schedule ob
       then [(obs_slot obs, of_nat (?n' div HT), of_nat ?n')] else [])" by blast+
qed

definition observer_ok :: "u64 \<Rightarrow> slot_totals \<Rightarrow> observer \<Rightarrow> bool" where
  "observer_ok mx tot ob \<longleftrightarrow> hm_ok (ob_slot_states ob) \<and> ob_current_slot ob = mx
     \<and> (\<forall>s. sat_sub mx 64 \<le> s \<longrightarrow> slot_agrees (state_of ob s) (tot s))"

lemma add_entry_other: "s \<noteq> obs_slot obs \<Longrightarrow> add_entry obs tot s = tot s"
  by (simp add: add_entry_def Let_def case_prod_beta)

lemma evict_frame [frame]:
  "ob_schedule (maybe_evict_old_slots t1 t2 ob) = ob_schedule ob"
  "ob_trigger_tx (maybe_evict_old_slots t1 t2 ob) = ob_trigger_tx ob"
  by (simp_all add: maybe_evict_old_slots_def Let_def)

lemma observer_ok_evict: "observer_ok mx tot ob \<Longrightarrow> observer_ok mx tot (maybe_evict_old_slots t1 t2 ob)"
  by (auto simp: maybe_evict_old_slots_def observer_ok_def state_of_def Let_def hm_get_retain split: option.splits)

lemma sat_sub_max_mono: "sat_sub mx 64 \<le> sat_sub (max s mx) (64 :: u64)"
  by (auto simp: word_le_nat_alt unat_sat_sub max_def not_le intro!: diff_le_mono)

lemma observer_ok_entry:
  fixes m ob
  defines "obs \<equiv> fm_observation m"
  assumes ok: "observer_ok mx tot ob" and tot: "tot (obs_slot obs) = (seen, n)"
    and near: "sat_sub mx 64 \<le> obs_slot obs"
    and reg: "obs_entry_hash obs \<in> seen \<or> total_after obs n \<le> 64 * HT
      \<and> (total_after obs n < (n div HT + 1) * HT \<or> total_after obs n = (n div HT + 1) * HT \<and> obs_tx_count obs = 0)"
  shows "observer_ok (max (obs_slot obs) mx) (add_entry obs tot) (observer_step (VEntry m now clk t1 t2) ob)"
    "fired_view (observer_step (VEntry m now clk t1 t2) ob) = fired_view ob @
      (if obs_entry_hash obs \<notin> seen \<and> n div HT < total_after obs n div HT
        \<and> (obs_slot obs, of_nat (total_after obs n div HT)) \<in> ob_schedule ob
       then [(obs_slot obs, of_nat (total_after obs n div HT), of_nat (total_after obs n))] else [])"
proof -
  have agree: "slot_agrees (state_of ob (obs_slot obs)) (seen, n)"
    using ok near tot by (metis observer_ok_def)
  let ?ob1 = "process_entry m now clk ob"
  note pe = process_entry_agrees [where m = m and now = now and clk = clk, folded obs_def, OF agree reg]
  note eff = process_entry_effect [where m = m and ob = ob and now = now and clk = clk, folded obs_def]
  let ?ob2 = "if obs_slot obs > ob_current_slot ?ob1 then ?ob1\<lparr>ob_current_slot := obs_slot obs\<rparr> else ?ob1"
  have cur: "ob_current_slot ?ob1 = mx" using ok by (simp add: frame observer_ok_def)
  have agrees: "slot_agrees (state_of ?ob1 s) (add_entry obs tot s)" if "sat_sub (max (obs_slot obs) mx) 64 \<le> s" for s
  proof (cases "s = obs_slot obs")
    case True
    then show ?thesis using pe(1) tot
      by (cases "obs_entry_hash obs \<in> seen") (simp_all add: add_entry_def)
  next
    case False
    have "sat_sub mx 64 \<le> s" using that sat_sub_max_mono by (rule order_trans [rotated])
    then show ?thesis using ok eff(1) [of s] False by (simp add: observer_ok_def add_entry_other)
  qed
  have "observer_ok (max (obs_slot obs) mx) (add_entry obs tot) ?ob2"
    using agrees eff(3) ok cur by (auto simp: observer_ok_def state_of_def max_def)
  then show "observer_ok (max (obs_slot obs) mx) (add_entry obs tot) (observer_step (VEntry m now clk t1 t2) ob)"
    by (simp add: Let_def obs_def [symmetric] observer_ok_evict del: if_split)
  have "fired_view ?ob2 = fired_view ?ob1" by (simp add: fired_view_def)
  then show "fired_view (observer_step (VEntry m now clk t1 t2) ob) = fired_view ob @
      (if obs_entry_hash obs \<notin> seen \<and> n div HT < total_after obs n div HT
        \<and> (obs_slot obs, of_nat (total_after obs n div HT)) \<in> ob_schedule ob
       then [(obs_slot obs, of_nat (total_after obs n div HT), of_nat (total_after obs n))] else [])"
    unfolding pe(2) [symmetric] by (simp add: Let_def obs_def [symmetric] fired_view_def frame)
qed

lemma observer_refines:
  "observer_ok mx tot ob \<Longrightarrow> poh_stream mx tot es \<Longrightarrow>
     fired_view (observer_run es ob) = fired_view ob @ ref_ticks (ob_schedule ob) tot es"
proof (induction es arbitrary: mx tot ob)
  case Nil
  then show ?case by (simp add: observer_run_def)
next
  case (Cons e es)
  show ?case
  proof (cases e)
    case (VEntry m now clk t1 t2)
    obtain seen n where tot: "tot (obs_slot (fm_observation m)) = (seen, n)" by fastforce
    from Cons.prems(2) have near: "sat_sub mx 64 \<le> obs_slot (fm_observation m)"
      and reg: "obs_entry_hash (fm_observation m) \<in> seen \<or> total_after (fm_observation m) n \<le> 64 * HT
      \<and> (total_after (fm_observation m) n < (n div HT + 1) * HT
         \<or> total_after (fm_observation m) n = (n div HT + 1) * HT \<and> obs_tx_count (fm_observation m) = 0)"
      and rest: "poh_stream (max (obs_slot (fm_observation m)) mx) (add_entry (fm_observation m) tot) es"
      unfolding VEntry poh_stream.simps Let_def tot prod.case by blast+
    note entry = observer_ok_entry [OF Cons.prems(1) tot near reg, where now = now and clk = clk and ?t1.0 = t1 and ?t2.0 = t2]
    have sched: "ob_schedule (observer_step (VEntry m now clk t1 t2) ob) = ob_schedule ob"
      by (simp add: Let_def frame)
    have "fired_view (observer_run (e # es) ob) = fired_view (observer_run es (observer_step (VEntry m now clk t1 t2) ob))"
      by (simp add: observer_run_def VEntry del: observer_step.simps)
    also have "\<dots> = fired_view (observer_step (VEntry m now clk t1 t2) ob) @ ref_ticks (ob_schedule ob) (add_entry (fm_observation m) tot) es"
      using Cons.IH [OF entry(1) rest] by (simp only: sched)
    also have "\<dots> = fired_view ob @ ref_ticks (ob_schedule ob) tot (e # es)"
      unfolding entry(2) VEntry ref_ticks.simps Let_def tot prod.case append_assoc ..
    finally show ?thesis .
  next
    case (VTimeout t1 t2)
    with Cons.IH [OF observer_ok_evict [OF Cons.prems(1), of t1 t2]] Cons.prems(2) show ?thesis
      by (simp add: observer_run_def frame fired_view_def)
  next
    case (VSchedule S)
    have "observer_ok mx tot (ob\<lparr>ob_schedule := S\<rparr>)" using Cons.prems(1) by (simp add: observer_ok_def state_of_def)
    from Cons.IH [OF this] Cons.prems(2) VSchedule show ?thesis by (simp add: observer_run_def fired_view_def)
  next
    case (VPending P)
    have "observer_ok mx tot (ob\<lparr>ob_pending_sigs := P\<rparr>)" using Cons.prems(1) by (simp add: observer_ok_def state_of_def)
    from Cons.IH [OF this] Cons.prems(2) VPending show ?thesis by (simp add: observer_run_def fired_view_def)
  qed
qed

text \<open>
  C38. Triggers fire at the true ticks: on a stream the chain produces, with entries of many slots
  interleaved, duplicated, and at most 64 slots late, and schedules stored at any time, the triggers
  the observer offers are those of a reference that only adds up the hashes of every slot: one when
  the total reaches the next multiple of 62,500 and that tick is scheduled, with the tick's number
  and the total.
\<close>

theorem observer_fires_at_ticks:
  assumes "poh_stream start_slot (\<lambda>s. ({}, 0)) es"
  shows "fired_view (observer_run es (observer_new S cap start_slot cache now)) = ref_ticks S (\<lambda>s. ({}, 0)) es"
proof -
  have "observer_ok start_slot (\<lambda>s. ({}, 0)) (observer_new S cap start_slot cache now)"
    by (simp add: observer_ok_def observer_new_def state_of_def slot_agrees_default)
  from observer_refines [OF this assms] show ?thesis by (simp add: observer_new_def fired_view_def)
qed

section \<open>A lost entry silences the slot\<close>

lemma overshoot_state:
  assumes "unat (ss_hash_count_since_last_tick (state_of ob s)) > HT"
  shows "unat (ss_hash_count_since_last_tick (state_of (process_entry m now clk ob) s)) > HT"
    "ss_tick_idx (state_of (process_entry m now clk ob) s) = ss_tick_idx (state_of ob s)"
    "filter (\<lambda>f. fst f = s) (fired_view (process_entry m now clk ob)) = filter (\<lambda>f. fst f = s) (fired_view ob)"
proof -
  let ?obs = "fm_observation m" and ?st = "state_of ob (obs_slot (fm_observation m))"
  note eff = process_entry_effect [where m = m and ob = ob and now = now and clk = clk]
  have up: "unat (ss_hash_count_since_last_tick (count_hashes ?obs st)) \<ge> unat (ss_hash_count_since_last_tick st)" for st
    using sat_add_mono [of "ss_hash_count_since_last_tick st"] by (simp add: count_hashes_def word_le_nat_alt)
  have no: "\<not> fresh_tick m ob" if "obs_slot ?obs = s"
  proof -
    have "unat HASHES_PER_TICK = HT" by (simp add: HASHES_PER_TICK_def)
    then have "ss_hash_count_since_last_tick (count_hashes ?obs ?st) \<noteq> HASHES_PER_TICK"
      using up [of ?st] assms that by auto
    then show ?thesis by (simp add: fresh_tick_def completes_tick_def Let_def)
  qed
  show "unat (ss_hash_count_since_last_tick (state_of (process_entry m now clk ob) s)) > HT"
    using assms no up [of ?st] by (auto simp: eff)
  show "ss_tick_idx (state_of (process_entry m now clk ob) s) = ss_tick_idx (state_of ob s)"
    using no by (auto simp: eff count_hashes_def)
  show "filter (\<lambda>f. fst f = s) (fired_view (process_entry m now clk ob)) = filter (\<lambda>f. fst f = s) (fired_view ob)"
  proof (cases "fresh_tick m ob")
    case True
    with no have ne: "obs_slot ?obs \<noteq> s" by blast
    obtain st2 ob2 where t: "observe_tick ?obs now (count_hashes ?obs ?st, ob) = (st2, ob2)" by fastforce
    show ?thesis using True ne by (simp add: eff t observe_tick_effect(2) [OF t])
  next
    case False
    then show ?thesis by (simp add: eff)
  qed
qed

text \<open>
  One lost entry silences the rest of its slot: the tick test asks for exactly 62,500 hashes since
  the last tick, so once the count of a slot is past that, as it is when the last entry of a tick was
  missed, no later entry of the slot counts a tick or fires a trigger, whatever arrives.
\<close>

theorem observer_overshoot_silences:
  assumes "unat (ss_hash_count_since_last_tick (state_of ob s)) > HT"
  shows "let ob' = fold (\<lambda>(m, now, clk). process_entry m now clk) xs ob in
     ss_tick_idx (state_of ob' s) = ss_tick_idx (state_of ob s)
   \<and> filter (\<lambda>f. fst f = s) (fired_view ob') = filter (\<lambda>f. fst f = s) (fired_view ob)"
  using assms
proof (induction xs arbitrary: ob)
  case (Cons x xs)
  obtain m now clk where x: "x = (m, now, clk)" by (cases x)
  note over = overshoot_state [OF Cons.prems, of m now clk]
  from Cons.IH [OF over(1)] over(2,3) show ?case by (simp add: x Let_def)
qed simp

definition demo_entry :: "u32 \<Rightarrow> hash \<Rightarrow> u64 \<Rightarrow> u32 \<Rightarrow> fan_merged_entry" where
  "demo_entry i h k txs = \<lparr>fm_observation = (sample_obs 100 i h txs 0)\<lparr>obs_num_hashes := k\<rparr>, fm_first_seen_source = ShredStream\<rparr>"

theorem observer_fires_at_ticks_witness:
  "fired_view (observer_run [VEntry (demo_entry 0 1 60000 3) 5 (\<lambda>i. 5) 0 0, VEntry (demo_entry 1 2 2500 0) 6 (\<lambda>i. 6) 0 0,
      VEntry (demo_entry 1 2 2500 0) 7 (\<lambda>i. 7) 0 0] (observer_new {(100, 1)} None 100 None 0)) = [(100, 1, 62500)]"
proof -
  let ?es = "[VEntry (demo_entry 0 1 60000 3) 5 (\<lambda>i. 5) 0 0, VEntry (demo_entry 1 2 2500 0) 6 (\<lambda>i. 6) 0 0,
      VEntry (demo_entry 1 2 2500 0) 7 (\<lambda>i. 7) 0 0]"
  have "poh_stream 100 (\<lambda>s. ({}, 0)) ?es"
    by (simp add: demo_entry_def add_entry_def total_after_def sat_sub_def)
  from observer_fires_at_ticks [OF this, of "{(100, 1)}" None None 0] show ?thesis
    by (simp add: demo_entry_def add_entry_def total_after_def)
qed

theorem observer_overshoot_silences_witness:
  "let ob = observer_run [VEntry (demo_entry 0 1 60000 3) 5 (\<lambda>i. 5) 0 0, VEntry (demo_entry 2 3 60000 3) 6 (\<lambda>i. 6) 0 0]
        (observer_new {(100, 1), (100, 2)} None 100 None 0);
      ob' = fold (\<lambda>(m, now, clk). process_entry m now clk) [(demo_entry 3 4 2500 0, 7, \<lambda>i. 7)] ob in
     ss_tick_idx (state_of ob' 100) = ss_tick_idx (state_of ob 100)"
proof -
  let ?ob = "observer_run [VEntry (demo_entry 0 1 60000 3) 5 (\<lambda>i. 5) 0 0, VEntry (demo_entry 2 3 60000 3) 6 (\<lambda>i. 6) 0 0]
        (observer_new {(100, 1), (100, 2)} None 100 None 0)"
  have "unat (ss_hash_count_since_last_tick (state_of ?ob 100)) > HT"
    by (simp add: observer_run_def observer_new_def process_entry_def count_hashes_def completes_tick_def maybe_evict_old_slots_def
        since_def demo_entry_def slot_state_default_def HASHES_PER_TICK_def sat_add_def state_of_def Let_def)
  from observer_overshoot_silences [OF this, of "[(demo_entry 3 4 2500 0, 7, \<lambda>i. 7)]"] show ?thesis
    by (simp only: Let_def simp_thms)
qed

end
