(* ===== verification/FanMatcher.thy ===== *)
theory FanMatcher
  imports FanObserver NonceManager "HOL-Library.Multiset"
begin

text \<open>
  The matcher of the earlier bench (\<open>crates/fan-out-bench/src/matcher.rs\<close>, with the states of
  \<open>attempt_state.rs\<close> and the outcomes of \<open>outcome.rs\<close>): one thread owns every attempt, a trigger sent
  through one sender, and emits one final record for it.  A match resolves the siblings of a trigger
  together.  \<open>TriggerId\<close> is 16 bytes.  Of the final record the fields are left out that the matcher
  always fills with the same constant (leader data, deltas, per-source times: \<open>None\<close>).  The clock at
  the n-th entry of the finality queue is a parameter; that queue blocks its sender, so it is the list
  of what was put into it.
\<close>

section \<open>Outcomes and states\<close>

type_synonym fan_trigger_id = "u8 list"

datatype tentative_outcome = LandedTentative | DedupedTentative | TentativeUnknown | TentativelyMissing | TentativeSendError

datatype final_status = FinalPending | FinalConfirmed | ReorgedOut | UncertainNoStatus

datatype observed_source = SrcSs | SrcYs | SrcBoth

datatype rate_limit_state = RateOk | Throttled429 | CircuitOpen | RateTimeout

definition tentative_as_str :: "tentative_outcome \<Rightarrow> string" where
  "tentative_as_str t = (case t of
     LandedTentative \<Rightarrow> ''LANDED_TENTATIVE'' | DedupedTentative \<Rightarrow> ''DEDUPED_TENTATIVE''
   | TentativeUnknown \<Rightarrow> ''UNKNOWN_PENDING'' | TentativelyMissing \<Rightarrow> ''TRULY_MISSING''
   | TentativeSendError \<Rightarrow> ''SEND_ERROR'')"

definition final_as_str :: "final_status \<Rightarrow> string" where
  "final_as_str t = (case t of
     FinalPending \<Rightarrow> ''PENDING'' | FinalConfirmed \<Rightarrow> ''CONFIRMED'' | ReorgedOut \<Rightarrow> ''REORGED_OUT''
   | UncertainNoStatus \<Rightarrow> ''UNCERTAIN_NO_STATUS'')"

datatype attempt_state =
    SentPending (as_send_at_ns: u64) (as_sig: signature)
  | SentAcked (as_send_at_ns: u64) (as_acked_ns: u64) (as_sig: signature) (as_request_id: "string option")
  | SendFailed (as_send_at_ns: u64) (as_send_ack_at_ns: "u64 option") (as_error: string) (as_sig: signature)
  | ObservedTentative (as_send_at_ns: u64) (as_send_ack_at_ns: "u64 option") (as_sig: signature)
      (as_observed_at_ns: u64) (as_observed_source: observed_source) (as_outcome: tentative_outcome) (as_request_id: "string option")
  | UnknownPendingState (as_send_at_ns: u64) (as_send_ack_at_ns: "u64 option") (as_sig: signature)
  | TrulyMissingState (as_send_at_ns: u64) (as_send_ack_at_ns: "u64 option") (as_sig: signature)

fun is_terminal :: "attempt_state \<Rightarrow> bool" where
  "is_terminal (SendFailed a b c d) = True"
| "is_terminal (ObservedTentative a b c d e f g) = True"
| "is_terminal (TrulyMissingState a b c) = True"
| "is_terminal _ = False"

section \<open>Events and records\<close>

record fan_send_event =
  fs_trigger_id :: fan_trigger_id
  fs_sender_id :: u8
  fs_send_at :: instant
  fs_send_ack_at :: "instant option"
  fs_signature :: signature
  fs_provider_request_id :: "string option"
  fs_http_status :: "u16 option"
  fs_rpc_err_code :: "32 word option"
  fs_rpc_err_message :: "string option"
  fs_rate_limit_state :: rate_limit_state
  fs_error :: "string option"

record fan_register_event =
  fe_trigger_id :: fan_trigger_id
  fe_sender_id :: u8
  fe_sender_name :: string
  fe_endpoint_url :: string
  fe_protocol :: string
  fe_auth_tier :: "string option"
  fe_tip_account_used :: "pubkey option"
  fe_tip_lamports :: u64
  fe_priority_fee_microlamports :: u64
  fe_compute_unit_limit :: u32
  fe_signature :: signature
  fe_tx_message_hash :: "u8 list"
  fe_send_order_in_trigger :: u8
  fe_trigger_slot :: u64
  fe_trigger_tick :: u8
  fe_nonce_account_id :: u16
  fe_nonce_blockhash_used :: hash
  fe_prepared_at :: instant
  fe_pool_ready_at :: instant
  fe_trigger_observed_at :: instant

text \<open>\<open>MatchInfo\<close> has the fields of the match event but the signature.\<close>

record match_info =
  mi_observed_at :: instant
  mi_observed_slot :: u64
  mi_observed_entry_index :: u32
  mi_observed_tick_in_slot :: "u8 option"
  mi_observed_cumulative_hashes_in_slot :: "u64 option"
  mi_observed_source :: source_kind

record attempt_record =
  ar_reg :: fan_register_event
  ar_state :: attempt_state
  ar_match_info :: "match_info option"

record final_record =
  fr_trigger_slot :: u64
  fr_trigger_tick :: u8
  fr_trigger_id :: "u8 list"
  fr_nonce_account_id :: u16
  fr_nonce_blockhash_used :: hash
  fr_sender_id :: u8
  fr_sender_name :: string
  fr_tx_signature :: signature
  fr_tx_message_hash :: "u8 list"
  fr_endpoint_url :: string
  fr_protocol :: string
  fr_auth_tier :: "string option"
  fr_tip_account_used :: "pubkey option"
  fr_tip_lamports :: u64
  fr_priority_fee_microlamports :: u64
  fr_compute_unit_limit :: u32
  fr_prepared_at_ns :: u64
  fr_pool_ready_at_ns :: u64
  fr_trigger_observed_at_ns :: u64
  fr_send_at_ns :: u64
  fr_send_ack_at_ns :: "u64 option"
  fr_send_order_in_trigger :: u8
  fr_send_error :: "string option"
  fr_rpc_err_code :: "32 word option"
  fr_rpc_err_message :: "string option"
  fr_provider_request_id :: "string option"
  fr_http_status :: "u16 option"
  fr_rate_limit_state :: rate_limit_state
  fr_observed_slot :: "u64 option"
  fr_observed_entry_index :: "u32 option"
  fr_observed_tick_in_slot :: "u8 option"
  fr_observed_cumulative_hashes_in_slot :: "u64 option"
  fr_observed_at_ns :: "u64 option"
  fr_observed_source :: "observed_source option"
  fr_tentative_outcome :: tentative_outcome
  fr_final_status :: final_status
  fr_siblings_resolved_at_ns :: "u64 option"
  fr_wall_trigger_to_send_ns :: "64 word option"
  fr_wall_send_rtt_ns :: "64 word option"
  fr_run_id :: string

record finality_queue_entry =
  fq_trigger_id :: fan_trigger_id
  fq_sender_id :: u8
  fq_signature :: signature
  fq_queued_at :: instant

record matcher_cfg =
  mk_deadline :: duration
  mk_run_id :: string
  mk_anchor :: instant
  mk_nonce_restore_after :: duration
  mk_sha256 :: "u8 list \<Rightarrow> hash"
  mk_hashv :: "u8 list list \<Rightarrow> hash"
  mk_queue_clock :: "nat \<Rightarrow> instant"

record matcher =
  mt_attempts :: "(fan_trigger_id \<times> u8, attempt_record) hmap"
  mt_sig_to_key :: "(signature, fan_trigger_id \<times> u8) hmap"
  mt_restored_triggers :: "fan_trigger_id set"
  mt_last_deadline_sweep :: instant
  mt_last_nonce_sweep :: instant
  mt_final_tx :: "final_record chan"
  mt_finality_tx :: "finality_queue_entry list option"
  mt_final_queue_full :: u64
  mt_nonce_advance_observed :: u64
  mt_nonce_restored_unmatched :: u64
  mt_nonce_manager :: "nonce_manager option"
  mt_slot_hash_cache :: "fan_hash_cache option"

definition matcher_new :: "instant \<Rightarrow> nat option \<Rightarrow> bool \<Rightarrow> nonce_manager option \<Rightarrow> fan_hash_cache option \<Rightarrow> matcher" where
  "matcher_new now cap finality mgr cache =
     \<lparr>mt_attempts = [], mt_sig_to_key = [], mt_restored_triggers = {}, mt_last_deadline_sweep = now,
      mt_last_nonce_sweep = now, mt_final_tx = chan_new cap, mt_finality_tx = (if finality then Some [] else None),
      mt_final_queue_full = 0, mt_nonce_advance_observed = 0, mt_nonce_restored_unmatched = 0,
      mt_nonce_manager = mgr, mt_slot_hash_cache = cache\<rparr>"

section \<open>Building records\<close>

definition ns_since :: "instant \<Rightarrow> instant \<Rightarrow> u64" where
  "ns_since t anchor = clamp_u64 (since t anchor)"

text \<open>What both builders copy from the registration.\<close>

definition base_record :: "matcher_cfg \<Rightarrow> fan_register_event \<Rightarrow> tentative_outcome \<Rightarrow> final_record" where
  "base_record cfg reg outcome =
     \<lparr>fr_trigger_slot = fe_trigger_slot reg, fr_trigger_tick = fe_trigger_tick reg, fr_trigger_id = fe_trigger_id reg,
      fr_nonce_account_id = fe_nonce_account_id reg, fr_nonce_blockhash_used = fe_nonce_blockhash_used reg,
      fr_sender_id = fe_sender_id reg, fr_sender_name = fe_sender_name reg, fr_tx_signature = fe_signature reg,
      fr_tx_message_hash = fe_tx_message_hash reg, fr_endpoint_url = fe_endpoint_url reg, fr_protocol = fe_protocol reg,
      fr_auth_tier = fe_auth_tier reg, fr_tip_account_used = fe_tip_account_used reg, fr_tip_lamports = fe_tip_lamports reg,
      fr_priority_fee_microlamports = fe_priority_fee_microlamports reg, fr_compute_unit_limit = fe_compute_unit_limit reg,
      fr_prepared_at_ns = ns_since (fe_prepared_at reg) (mk_anchor cfg),
      fr_pool_ready_at_ns = ns_since (fe_pool_ready_at reg) (mk_anchor cfg),
      fr_trigger_observed_at_ns = ns_since (fe_trigger_observed_at reg) (mk_anchor cfg),
      fr_send_at_ns = 0, fr_send_ack_at_ns = None, fr_send_order_in_trigger = fe_send_order_in_trigger reg,
      fr_send_error = None, fr_rpc_err_code = None, fr_rpc_err_message = None, fr_provider_request_id = None,
      fr_http_status = None, fr_rate_limit_state = RateOk, fr_observed_slot = None, fr_observed_entry_index = None,
      fr_observed_tick_in_slot = None, fr_observed_cumulative_hashes_in_slot = None, fr_observed_at_ns = None,
      fr_observed_source = None, fr_tentative_outcome = outcome, fr_final_status = FinalPending,
      fr_siblings_resolved_at_ns = None, fr_wall_trigger_to_send_ns = None, fr_wall_send_rtt_ns = None,
      fr_run_id = mk_run_id cfg\<rparr>"

definition build_record_from_attempt :: "attempt_record \<Rightarrow> fan_send_event \<Rightarrow> matcher_cfg \<Rightarrow> tentative_outcome \<Rightarrow> final_record" where
  "build_record_from_attempt r ev cfg outcome =
     (base_record cfg (ar_reg r) outcome)
       \<lparr>fr_send_at_ns := ns_since (fs_send_at ev) (mk_anchor cfg),
        fr_send_ack_at_ns := map_option (\<lambda>t. ns_since t (mk_anchor cfg)) (fs_send_ack_at ev),
        fr_send_error := fs_error ev, fr_rpc_err_code := fs_rpc_err_code ev, fr_rpc_err_message := fs_rpc_err_message ev,
        fr_provider_request_id := fs_provider_request_id ev, fr_http_status := fs_http_status ev,
        fr_rate_limit_state := fs_rate_limit_state ev,
        fr_wall_trigger_to_send_ns := Some (ns_since (fs_send_at ev) (mk_anchor cfg)
          - ns_since (fe_trigger_observed_at (ar_reg r)) (mk_anchor cfg)),
        fr_wall_send_rtt_ns := map_option (\<lambda>t. trunc_u64 (since t (fs_send_at ev))) (fs_send_ack_at ev)\<rparr>"

definition build_record_from_record :: "attempt_record \<Rightarrow> matcher_cfg \<Rightarrow> tentative_outcome \<Rightarrow> instant option \<Rightarrow> final_record" where
  "build_record_from_record r cfg outcome siblings_resolved_at =
     (let b = base_record cfg (ar_reg r) outcome;
          b1 = (case ar_state r of
              SentAcked send_at_ns send_ack_at_ns sig request_id \<Rightarrow>
                b\<lparr>fr_send_at_ns := send_at_ns, fr_send_ack_at_ns := Some send_ack_at_ns, fr_provider_request_id := request_id\<rparr>
            | SentPending send_at_ns sig \<Rightarrow> b\<lparr>fr_send_at_ns := send_at_ns\<rparr>
            | SendFailed send_at_ns send_ack_at_ns err sig \<Rightarrow>
                b\<lparr>fr_send_at_ns := send_at_ns, fr_send_ack_at_ns := send_ack_at_ns, fr_send_error := Some err\<rparr>
            | _ \<Rightarrow> b);
          b2 = (case ar_match_info r of
              None \<Rightarrow> b1
            | Some mi \<Rightarrow> b1\<lparr>fr_observed_slot := Some (mi_observed_slot mi), fr_observed_entry_index := Some (mi_observed_entry_index mi),
                fr_observed_tick_in_slot := mi_observed_tick_in_slot mi,
                fr_observed_cumulative_hashes_in_slot := mi_observed_cumulative_hashes_in_slot mi,
                fr_observed_at_ns := Some (ns_since (mi_observed_at mi) (mk_anchor cfg)),
                fr_observed_source := Some (case mi_observed_source mi of ShredStream \<Rightarrow> SrcSs | Yellowstone \<Rightarrow> SrcYs)\<rparr>)
      in b2\<lparr>fr_siblings_resolved_at_ns := map_option (\<lambda>t. ns_since t (mk_anchor cfg)) siblings_resolved_at\<rparr>)"

section \<open>Handlers\<close>

definition final_send :: "final_record \<Rightarrow> matcher \<Rightarrow> matcher" where
  "final_send r mt = (let (tx, ok) = try_send (mt_final_tx mt) r in
     mt\<lparr>mt_final_tx := tx, mt_final_queue_full := (if ok then mt_final_queue_full mt else mt_final_queue_full mt + 1)\<rparr>)"

definition finality_send :: "matcher_cfg \<Rightarrow> fan_register_event \<Rightarrow> matcher \<Rightarrow> matcher" where
  "finality_send cfg reg mt = mt\<lparr>mt_finality_tx := map_option (\<lambda>q. q @ [\<lparr>fq_trigger_id = fe_trigger_id reg,
     fq_sender_id = fe_sender_id reg, fq_signature = fe_signature reg, fq_queued_at = mk_queue_clock cfg (length q)\<rparr>])
     (mt_finality_tx mt)\<rparr>"

definition register_attempt :: "fan_register_event \<Rightarrow> matcher \<Rightarrow> matcher" where
  "register_attempt reg mt = (let key = (fe_trigger_id reg, fe_sender_id reg) in
     mt\<lparr>mt_sig_to_key := hm_insert (fe_signature reg) key (mt_sig_to_key mt),
        mt_attempts := hm_insert key \<lparr>ar_reg = reg, ar_state = SentPending 0 (fe_signature reg), ar_match_info = None\<rparr> (mt_attempts mt)\<rparr>)"

definition handle_send_event :: "matcher_cfg \<Rightarrow> fan_send_event \<Rightarrow> matcher \<Rightarrow> matcher" where
  "handle_send_event cfg ev mt =
     (let key = (fs_trigger_id ev, fs_sender_id ev) in
      case hm_get (mt_attempts mt) key of
        None \<Rightarrow> mt
      | Some r \<Rightarrow>
          (let send_at_ns = ns_since (fs_send_at ev) (mk_anchor cfg);
               send_ack_at_ns = map_option (\<lambda>t. ns_since t (mk_anchor cfg)) (fs_send_ack_at ev)
           in (case fs_error ev of
                 Some err \<Rightarrow>
                   (let r1 = r\<lparr>ar_state := SendFailed send_at_ns send_ack_at_ns err (fs_signature ev)\<rparr>;
                        mt1 = final_send (build_record_from_attempt r1 ev cfg TentativeSendError) mt
                    in mt1\<lparr>mt_sig_to_key := hm_delete (fe_signature (ar_reg r)) (mt_sig_to_key mt1),
                           mt_attempts := hm_delete key (mt_attempts mt1)\<rparr>)
               | None \<Rightarrow>
                   mt\<lparr>mt_attempts := hm_insert key (r\<lparr>ar_state := SentAcked send_at_ns
                        (case send_ack_at_ns of Some t \<Rightarrow> t | None \<Rightarrow> 0) (fs_signature ev) (fs_provider_request_id ev)\<rparr>)
                        (mt_attempts mt)\<rparr>)))"

text \<open>The local computation of the next nonce, on the winner's nonce id.\<close>

definition advance_nonce :: "matcher_cfg \<Rightarrow> fan_match_event \<Rightarrow> fan_trigger_id \<times> u8 \<Rightarrow> matcher \<Rightarrow> matcher" where
  "advance_nonce cfg ev winner_key mt = (case (mt_nonce_manager mt, mt_slot_hash_cache mt) of
     (Some manager, Some cache) \<Rightarrow> (case hm_get (mt_attempts mt) winner_key of
        None \<Rightarrow> mt
      | Some winner \<Rightarrow> (case lookup_recent_blockhash (mk_sha256 cfg) (fv_observed_slot ev) 5 cache of
          None \<Rightarrow> mt
        | Some r \<Rightarrow> mt\<lparr>mt_nonce_manager := Some (snd (on_landing_with_blockhash (fe_nonce_account_id (ar_reg winner))
              (compute_next_durable_nonce (mk_hashv cfg) (lr_hash r)) manager)),
              mt_nonce_advance_observed := mt_nonce_advance_observed mt + 1\<rparr>))
   | _ \<Rightarrow> mt)"

definition match_info_of :: "fan_match_event \<Rightarrow> match_info" where
  "match_info_of ev = \<lparr>mi_observed_at = fv_observed_at ev, mi_observed_slot = fv_observed_slot ev,
     mi_observed_entry_index = fv_observed_entry_index ev, mi_observed_tick_in_slot = fv_observed_tick_in_slot ev,
     mi_observed_cumulative_hashes_in_slot = fv_observed_cumulative_hashes_in_slot ev,
     mi_observed_source = fv_observed_source ev\<rparr>"

text \<open>One sibling of the winner's trigger; its attempt is removed after the loop.\<close>

definition resolve_sibling :: "matcher_cfg \<Rightarrow> fan_match_event \<Rightarrow> fan_trigger_id \<times> u8 \<Rightarrow> fan_trigger_id \<times> u8 \<Rightarrow> matcher \<Rightarrow> matcher" where
  "resolve_sibling cfg ev winner_key key mt = (case hm_get (mt_attempts mt) key of
     None \<Rightarrow> mt
   | Some r \<Rightarrow>
       (let r1 = r\<lparr>ar_match_info := Some (match_info_of ev)\<rparr>;
            outcome = (if key = winner_key then LandedTentative else DedupedTentative);
            mt1 = mt\<lparr>mt_attempts := hm_insert key r1 (mt_attempts mt)\<rparr>;
            mt2 = final_send (build_record_from_record r1 cfg outcome (Some (fv_observed_at ev))) mt1
        in finality_send cfg (ar_reg r) mt2))"

definition handle_match_event :: "matcher_cfg \<Rightarrow> fan_match_event \<Rightarrow> matcher \<Rightarrow> matcher" where
  "handle_match_event cfg ev mt = (case hm_get (mt_sig_to_key mt) (fv_signature ev) of
     None \<Rightarrow> mt
   | Some winner_key \<Rightarrow>
       (let sibling_keys = filter (\<lambda>k. fst k = fst winner_key) (hm_keys (mt_attempts mt));
            mt1 = advance_nonce cfg ev winner_key mt;
            mt2 = fold (resolve_sibling cfg ev winner_key) sibling_keys mt1
        in mt2\<lparr>mt_attempts := fold hm_delete sibling_keys (mt_attempts mt2)\<rparr>))"

text \<open>The end of an attempt without a match, of the deadline sweep and of the shutdown.\<close>

definition expire_attempt :: "matcher_cfg \<Rightarrow> fan_trigger_id \<times> u8 \<Rightarrow> matcher \<Rightarrow> matcher" where
  "expire_attempt cfg key mt = (case hm_remove key (mt_attempts mt) of
     (None, _) \<Rightarrow> mt
   | (Some r, attempts) \<Rightarrow>
       (let mt1 = mt\<lparr>mt_attempts := attempts, mt_sig_to_key := hm_delete (fe_signature (ar_reg r)) (mt_sig_to_key mt)\<rparr>;
            mt2 = final_send (build_record_from_record r cfg TentativeUnknown None) mt1
        in finality_send cfg (ar_reg r) mt2))"

definition fan_sweep_deadlines :: "matcher_cfg \<Rightarrow> instant \<Rightarrow> matcher \<Rightarrow> matcher" where
  "fan_sweep_deadlines cfg now mt =
     fold (expire_attempt cfg) (map fst (filter (\<lambda>(k, r). since now (fe_trigger_observed_at (ar_reg r)) \<ge> mk_deadline cfg)
       (mt_attempts mt))) mt"

text \<open>Per trigger: the oldest observation, the nonce of the first attempt met, and whether one matched.\<close>

definition group_triggers :: "(fan_trigger_id \<times> u8, attempt_record) hmap \<Rightarrow> (fan_trigger_id, instant \<times> u16 \<times> bool) hmap" where
  "group_triggers attempts = fold (\<lambda>(k, r) per_trigger.
     let tid = fst k; matched = (ar_match_info r \<noteq> None); t = fe_trigger_observed_at (ar_reg r) in
     hm_insert tid (case hm_get per_trigger tid of
         Some (oldest, nonce_id, m) \<Rightarrow> (min t oldest, nonce_id, m \<or> matched)
       | None \<Rightarrow> (t, fe_nonce_account_id (ar_reg r), matched)) per_trigger) attempts []"

definition restore_trigger :: "matcher_cfg \<Rightarrow> instant \<Rightarrow> fan_trigger_id \<times> (instant \<times> u16 \<times> bool) \<Rightarrow> matcher \<Rightarrow> matcher" where
  "restore_trigger cfg now e mt = (let (tid, oldest, nonce_id, matched) = e in
     case mt_nonce_manager mt of
       None \<Rightarrow> mt
     | Some manager \<Rightarrow>
         if matched \<or> tid \<in> mt_restored_triggers mt \<or> since now oldest < mk_nonce_restore_after cfg then mt
         else (let (changed, manager') = restore_unchanged nonce_id manager in
           mt\<lparr>mt_nonce_manager := Some manager',
              mt_nonce_restored_unmatched := (if changed then mt_nonce_restored_unmatched mt + 1 else mt_nonce_restored_unmatched mt),
              mt_restored_triggers := insert tid (mt_restored_triggers mt)\<rparr>))"

definition sweep_unmatched_nonces :: "matcher_cfg \<Rightarrow> instant \<Rightarrow> matcher \<Rightarrow> matcher" where
  "sweep_unmatched_nonces cfg now mt =
     (if mt_nonce_manager mt = None \<or> mt_attempts mt = [] then mt
      else fold (restore_trigger cfg now) (group_triggers (mt_attempts mt)) mt)"

section \<open>The loop\<close>

text \<open>A turn: an event, then the two sweeps when they are due (clocks: check, mark and the sweep's own
  reading, for each).  \<open>XTakeFinal\<close> is the writer reading a record, \<open>XShared\<close> what the other threads do to
  the manager and the cache.\<close>

datatype matcher_event =
    XRegister fan_register_event
  | XSend fan_send_event
  | XMatch fan_match_event
  | XIdle
  | XTakeFinal
  | XShared "nonce_manager option" "fan_hash_cache option"

fun matcher_handle :: "matcher_cfg \<Rightarrow> matcher_event \<Rightarrow> matcher \<Rightarrow> matcher" where
  "matcher_handle cfg (XRegister reg) mt = register_attempt reg mt"
| "matcher_handle cfg (XSend ev) mt = handle_send_event cfg ev mt"
| "matcher_handle cfg (XMatch ev) mt = handle_match_event cfg ev mt"
| "matcher_handle cfg XIdle mt = mt"
| "matcher_handle cfg XTakeFinal mt = mt\<lparr>mt_final_tx := ch_take (mt_final_tx mt)\<rparr>"
| "matcher_handle cfg (XShared mgr cache) mt = mt\<lparr>mt_nonce_manager := mgr, mt_slot_hash_cache := cache\<rparr>"

type_synonym clocks = "instant \<times> instant \<times> instant"

definition matcher_turn :: "matcher_cfg \<Rightarrow> matcher_event \<times> clocks \<times> clocks \<Rightarrow> matcher \<Rightarrow> matcher" where
  "matcher_turn cfg turn mt = (let (ev, (d1, d2, d3), (n1, n2, n3)) = turn;
       mt1 = matcher_handle cfg ev mt;
       mt2 = (if since d1 (mt_last_deadline_sweep mt1) \<ge> 500000000
         then fan_sweep_deadlines cfg d3 (mt1\<lparr>mt_last_deadline_sweep := d2\<rparr>) else mt1)
     in if since n1 (mt_last_nonce_sweep mt2) \<ge> 1000000000
        then sweep_unmatched_nonces cfg n3 (mt2\<lparr>mt_last_nonce_sweep := n2\<rparr>) else mt2)"

definition matcher_flush :: "matcher_cfg \<Rightarrow> matcher \<Rightarrow> matcher" where
  "matcher_flush cfg mt = fold (expire_attempt cfg) (hm_keys (mt_attempts mt)) mt"

definition matcher_run :: "matcher_cfg \<Rightarrow> (matcher_event \<times> clocks \<times> clocks) list \<Rightarrow> matcher \<Rightarrow> matcher" where
  "matcher_run cfg turns mt = matcher_flush cfg (fold (matcher_turn cfg) turns mt)"

declare split_paired_All [simp del] split_paired_Ex [simp del]

section \<open>What a record is about\<close>

definition ekey :: "fan_register_event \<Rightarrow> fan_trigger_id \<times> u8" where
  "ekey reg = (fe_trigger_id reg, fe_sender_id reg)"

definition fkey :: "final_record \<Rightarrow> fan_trigger_id \<times> u8" where
  "fkey r = (fr_trigger_id r, fr_sender_id r)"

definition emitted :: "matcher \<Rightarrow> final_record list" where
  "emitted mt = ch_offered (mt_final_tx mt)"

lemma record_fields [simp]:
  "fkey (build_record_from_attempt r ev cfg oc) = ekey (ar_reg r)"
  "fr_tx_signature (build_record_from_attempt r ev cfg oc) = fe_signature (ar_reg r)"
  "fr_tentative_outcome (build_record_from_attempt r ev cfg oc) = oc"
  "fr_send_error (build_record_from_attempt r ev cfg oc) = fs_error ev"
  "fkey (build_record_from_record r cfg oc t) = ekey (ar_reg r)"
  "fr_tx_signature (build_record_from_record r cfg oc t) = fe_signature (ar_reg r)"
  "fr_tentative_outcome (build_record_from_record r cfg oc t) = oc"
  "fr_trigger_id (build_record_from_record r cfg oc t) = fe_trigger_id (ar_reg r)"
  by (simp_all add: build_record_from_attempt_def build_record_from_record_def base_record_def fkey_def ekey_def Let_def
      split: attempt_state.splits option.splits)

lemma final_send_frame [frame]:
  "mt_attempts (final_send r mt) = mt_attempts mt" "mt_sig_to_key (final_send r mt) = mt_sig_to_key mt"
  "mt_nonce_manager (final_send r mt) = mt_nonce_manager mt" "emitted (final_send r mt) = emitted mt @ [r]"
  by (simp_all add: final_send_def emitted_def Let_def case_prod_beta)

lemma finality_send_frame [frame]:
  "mt_attempts (finality_send cfg reg mt) = mt_attempts mt" "mt_sig_to_key (finality_send cfg reg mt) = mt_sig_to_key mt"
  "mt_nonce_manager (finality_send cfg reg mt) = mt_nonce_manager mt" "emitted (finality_send cfg reg mt) = emitted mt"
  by (simp_all add: finality_send_def emitted_def)

lemma advance_nonce_frame [frame]:
  "mt_attempts (advance_nonce cfg ev k mt) = mt_attempts mt" "mt_sig_to_key (advance_nonce cfg ev k mt) = mt_sig_to_key mt"
  "emitted (advance_nonce cfg ev k mt) = emitted mt"
  by (simp_all add: advance_nonce_def emitted_def split: option.splits)

lemma expire_absent: "hm_get (mt_attempts mt) k = None \<Longrightarrow> expire_attempt cfg k mt = mt"
  by (simp add: expire_attempt_def hm_remove_def)

lemma expire_present:
  assumes "hm_get (mt_attempts mt) k = Some r"
  shows "mt_attempts (expire_attempt cfg k mt) = hm_delete k (mt_attempts mt)"
    "mt_sig_to_key (expire_attempt cfg k mt) = hm_delete (fe_signature (ar_reg r)) (mt_sig_to_key mt)"
    "emitted (expire_attempt cfg k mt) = emitted mt @ [build_record_from_record r cfg TentativeUnknown None]"
  using assms by (simp_all add: expire_attempt_def hm_remove_def Let_def frame) (simp add: emitted_def)

section \<open>A match resolves all siblings\<close>

definition sibling_record :: "matcher_cfg \<Rightarrow> fan_match_event \<Rightarrow> fan_trigger_id \<times> u8 \<Rightarrow> matcher \<Rightarrow> fan_trigger_id \<times> u8 \<Rightarrow> final_record" where
  "sibling_record cfg ev winner_key mt key =
     build_record_from_record ((the (hm_get (mt_attempts mt) key))\<lparr>ar_match_info := Some (match_info_of ev)\<rparr>) cfg
       (if key = winner_key then LandedTentative else DedupedTentative) (Some (fv_observed_at ev))"

lemma resolve_siblings:
  "distinct ks \<Longrightarrow> set ks \<subseteq> set (hm_keys (mt_attempts mt)) \<Longrightarrow> hm_ok (mt_attempts mt) \<Longrightarrow>
   emitted (fold (resolve_sibling cfg ev w) ks mt) = emitted mt @ map (sibling_record cfg ev w mt) ks
   \<and> hm_keys (mt_attempts (fold (resolve_sibling cfg ev w) ks mt)) = hm_keys (mt_attempts mt)
   \<and> (\<forall>j. j \<notin> set ks \<longrightarrow> hm_get (mt_attempts (fold (resolve_sibling cfg ev w) ks mt)) j = hm_get (mt_attempts mt) j)
   \<and> mt_sig_to_key (fold (resolve_sibling cfg ev w) ks mt) = mt_sig_to_key mt
   \<and> hm_ok (mt_attempts (fold (resolve_sibling cfg ev w) ks mt))"
proof (induction ks arbitrary: mt)
  case (Cons k ks)
  then obtain r where r: "hm_get (mt_attempts mt) k = Some r" by (auto simp: hm_keys_get)
  let ?mt = "resolve_sibling cfg ev w k mt"
  have one: "emitted ?mt = emitted mt @ [sibling_record cfg ev w mt k]"
    "mt_attempts ?mt = hm_insert k (r\<lparr>ar_match_info := Some (match_info_of ev)\<rparr>) (mt_attempts mt)"
    "mt_sig_to_key ?mt = mt_sig_to_key mt"
    using r by (simp_all add: resolve_sibling_def sibling_record_def Let_def frame) (simp add: emitted_def)
  have keys: "hm_keys (mt_attempts ?mt) = hm_keys (mt_attempts mt)" using r one(2) by (simp add: hm_keys_insert)
  have rec: "sibling_record cfg ev w ?mt j = sibling_record cfg ev w mt j" if "j \<noteq> k" for j
    using that by (simp add: sibling_record_def one(2))
  have "map (sibling_record cfg ev w ?mt) ks = map (sibling_record cfg ev w mt) ks"
    by (intro map_cong refl rec) (use Cons.prems(1) in fastforce)
  with Cons.IH [of ?mt] Cons.prems one keys show ?case by (auto simp: hm_keys_insert)
qed simp

lemma match_effect:
  assumes ok: "hm_ok (mt_attempts mt)" and w: "hm_get (mt_sig_to_key mt) (fv_signature ev) = Some w"
  defines "ks \<equiv> filter (\<lambda>k. fst k = fst w) (hm_keys (mt_attempts mt))"
  shows "emitted (handle_match_event cfg ev mt) = emitted mt @ map (sibling_record cfg ev w mt) ks"
    "hm_keys (mt_attempts (handle_match_event cfg ev mt)) = filter (\<lambda>k. fst k \<noteq> fst w) (hm_keys (mt_attempts mt))"
    "hm_get (mt_attempts (handle_match_event cfg ev mt)) j = (if fst j = fst w then None else hm_get (mt_attempts mt) j)"
    "mt_sig_to_key (handle_match_event cfg ev mt) = mt_sig_to_key mt"
    "hm_ok (mt_attempts (handle_match_event cfg ev mt))"
proof -
  let ?mt1 = "advance_nonce cfg ev w mt"
  have pre: "distinct ks" "set ks \<subseteq> set (hm_keys (mt_attempts ?mt1))" "hm_ok (mt_attempts ?mt1)"
    using hm_distinct_keys [OF ok] ok by (auto simp: ks_def frame)
  note r = resolve_siblings [OF pre, of cfg ev w]
  have h: "handle_match_event cfg ev mt = (fold (resolve_sibling cfg ev w) ks ?mt1)
      \<lparr>mt_attempts := fold hm_delete ks (mt_attempts (fold (resolve_sibling cfg ev w) ks ?mt1))\<rparr>"
    using w by (simp add: handle_match_event_def ks_def Let_def)
  have mem: "k \<in> set (hm_keys (mt_attempts mt)) \<Longrightarrow> k \<in> set ks \<longleftrightarrow> fst k = fst w" for k by (simp add: ks_def)
  have same: "sibling_record cfg ev w ?mt1 = sibling_record cfg ev w mt" by (simp add: sibling_record_def fun_eq_iff frame)
  show "emitted (handle_match_event cfg ev mt) = emitted mt @ map (sibling_record cfg ev w mt) ks"
    using r unfolding h same by (simp add: emitted_def [of "_\<lparr>mt_attempts := _\<rparr>"] emitted_def [symmetric] frame)
  show "hm_keys (mt_attempts (handle_match_event cfg ev mt)) = filter (\<lambda>k. fst k \<noteq> fst w) (hm_keys (mt_attempts mt))"
    using r mem unfolding h by (auto simp: hm_fold_delete frame intro!: filter_cong)
  show "hm_get (mt_attempts (handle_match_event cfg ev mt)) j = (if fst j = fst w then None else hm_get (mt_attempts mt) j)"
  proof (cases "j \<in> set ks")
    case True
    then show ?thesis unfolding h by (simp add: hm_fold_delete ks_def)
  next
    case False
    then have "fst j = fst w \<Longrightarrow> hm_get (mt_attempts mt) j = None"
      using hm_keys_get [of j "mt_attempts mt"] by (auto simp: ks_def)
    with r False show ?thesis unfolding h by (simp add: hm_fold_delete frame)
  qed
  show "mt_sig_to_key (handle_match_event cfg ev mt) = mt_sig_to_key mt"
    using r unfolding h by (simp add: frame)
  show "hm_ok (mt_attempts (handle_match_event cfg ev mt))"
    using r unfolding h by (simp add: hm_fold_delete)
qed

section \<open>One justified record per attempt\<close>

fun attempts_of :: "matcher_event list \<Rightarrow> fan_register_event list" where
  "attempts_of [] = []"
| "attempts_of (XRegister reg # es) = reg # attempts_of es"
| "attempts_of (_ # es) = attempts_of es"

lemma attempts_of_append: "attempts_of (es @ es') = attempts_of es @ attempts_of es'"
  by (induction es rule: attempts_of.induct) simp_all

text \<open>What each outcome rests on: \<open>Landed\<close> on a match of the registered signature itself, \<open>Deduped\<close> on
  a match of another sender's signature for the same trigger, a send error on a send event with that
  error.\<close>

definition upheld :: "matcher_event list \<Rightarrow> final_record \<Rightarrow> bool" where
  "upheld es r \<longleftrightarrow> (case fr_tentative_outcome r of
     LandedTentative \<Rightarrow> (\<exists>ev. XMatch ev \<in> set es \<and> fv_signature ev = fr_tx_signature r)
   | DedupedTentative \<Rightarrow> (\<exists>ev reg. XMatch ev \<in> set es \<and> reg \<in> set (attempts_of es) \<and> fe_signature reg = fv_signature ev
       \<and> fe_trigger_id reg = fr_trigger_id r \<and> ekey reg \<noteq> fkey r)
   | TentativeUnknown \<Rightarrow> True
   | TentativelyMissing \<Rightarrow> False
   | TentativeSendError \<Rightarrow> (\<exists>ev. XSend ev \<in> set es \<and> (fs_trigger_id ev, fs_sender_id ev) = fkey r
       \<and> fs_error ev \<noteq> None \<and> fr_send_error r = fs_error ev))"

lemma upheld_mono: "upheld es r \<Longrightarrow> upheld (es @ es') r"
  by (auto simp: upheld_def attempts_of_append split: tentative_outcome.splits)

text \<open>No open attempt has a match: a match closes all attempts of its trigger.\<close>

definition accounted :: "matcher \<Rightarrow> (fan_trigger_id \<times> u8) multiset" where
  "accounted mt = mset (map fkey (emitted mt)) + mset (hm_keys (mt_attempts mt))"

definition mt_ok :: "matcher_event list \<Rightarrow> matcher \<Rightarrow> bool" where
  "mt_ok es mt \<longleftrightarrow> hm_ok (mt_attempts mt)
     \<and> (\<forall>k r. hm_get (mt_attempts mt) k = Some r \<longrightarrow> ar_reg r \<in> set (attempts_of es) \<and> ekey (ar_reg r) = k \<and> ar_match_info r = None)
     \<and> (\<forall>s k. hm_get (mt_sig_to_key mt) s = Some k \<longrightarrow> (\<exists>reg \<in> set (attempts_of es). fe_signature reg = s \<and> ekey reg = k))
     \<and> (\<forall>r \<in> set (emitted mt). upheld es r)
     \<and> accounted mt = mset (map ekey (attempts_of es))"

lemma mt_ok_frame:
  assumes "mt_ok es mt" "mt_attempts mt' = mt_attempts mt" "mt_sig_to_key mt' = mt_sig_to_key mt" "emitted mt' = emitted mt"
  shows "mt_ok es mt'"
  using assms by (simp add: mt_ok_def accounted_def)

lemma mt_ok_event: "mt_ok es mt \<Longrightarrow> attempts_of [e] = [] \<Longrightarrow> mt_ok (es @ [e]) mt"
  by (auto simp: mt_ok_def attempts_of_append intro: upheld_mono)

lemma mset_delete_key: "hm_ok m \<Longrightarrow> hm_get m k \<noteq> None \<Longrightarrow>
    add_mset k (mset (hm_keys (hm_delete k m))) = mset (hm_keys m)"
  using hm_distinct_keys [of m] hm_keys_get [of k m]
  by (simp add: hm_keys_delete distinct_remove1_removeAll [symmetric])

lemma mt_ok_close:
  assumes "mt_ok es mt" "hm_get (mt_attempts mt) k = Some r"
    and "mt_attempts mt' = hm_delete k (mt_attempts mt)" "mt_sig_to_key mt' = hm_delete sig (mt_sig_to_key mt)"
    and "emitted mt' = emitted mt @ [f]" "fkey f = k" "upheld es f"
  shows "mt_ok es mt'"
proof -
  have "add_mset k (mset (hm_keys (hm_delete k (mt_attempts mt)))) = mset (hm_keys (mt_attempts mt))"
    using assms(1,2) by (intro mset_delete_key) (simp_all add: mt_ok_def)
  then have "accounted mt' = accounted mt" using assms(3,5,6) by (simp add: accounted_def)
  then show ?thesis using assms by (auto simp: mt_ok_def)
qed

lemma mt_ok_expire: "mt_ok es mt \<Longrightarrow> mt_ok es (expire_attempt cfg k mt)"
proof (cases "hm_get (mt_attempts mt) k")
  case None
  then show "mt_ok es mt \<Longrightarrow> ?thesis" by (simp add: expire_absent)
next
  case (Some r)
  assume ok: "mt_ok es mt"
  then have "ekey (ar_reg r) = k" using Some by (simp add: mt_ok_def)
  then show ?thesis
    by (intro mt_ok_close [OF ok Some expire_present [OF Some]]) (simp_all add: upheld_def)
qed

lemma mt_ok_expires: "mt_ok es mt \<Longrightarrow> mt_ok es (fold (expire_attempt cfg) ks mt)"
  by (rule fold_invariant [where P = "mt_ok es"]) (rule mt_ok_expire)

lemma mt_ok_register:
  assumes "mt_ok es mt" "ekey reg \<notin> set (map ekey (attempts_of es))"
  shows "mt_ok (es @ [XRegister reg]) (register_attempt reg mt)"
proof -
  have new: "hm_get (mt_attempts mt) (ekey reg) = None"
  proof (cases "hm_get (mt_attempts mt) (ekey reg)")
    case (Some r)
    with assms(1) have "ar_reg r \<in> set (attempts_of es)" "ekey (ar_reg r) = ekey reg" by (simp_all add: mt_ok_def)
    with assms(2) show ?thesis by (metis image_eqI list.set_map)
  qed
  have "emitted (register_attempt reg mt) = emitted mt" by (simp add: register_attempt_def emitted_def Let_def)
  moreover have "mt_attempts (register_attempt reg mt) =
      hm_insert (ekey reg) \<lparr>ar_reg = reg, ar_state = SentPending 0 (fe_signature reg), ar_match_info = None\<rparr> (mt_attempts mt)"
    "mt_sig_to_key (register_attempt reg mt) = hm_insert (fe_signature reg) (ekey reg) (mt_sig_to_key mt)"
    by (simp_all add: register_attempt_def ekey_def Let_def)
  ultimately show ?thesis using assms(1) new
    by (auto simp: mt_ok_def accounted_def hm_keys_insert attempts_of_append intro: upheld_mono)
qed

lemma mt_ok_send:
  assumes "mt_ok es mt" "XSend ev \<in> set es"
  shows "mt_ok es (handle_send_event cfg ev mt)"
proof (cases "hm_get (mt_attempts mt) (fs_trigger_id ev, fs_sender_id ev)")
  case None
  with assms(1) show ?thesis by (simp add: handle_send_event_def Let_def)
next
  case (Some r)
  let ?k = "(fs_trigger_id ev, fs_sender_id ev)"
  have r: "ekey (ar_reg r) = ?k" "ar_reg r \<in> set (attempts_of es)" "ar_match_info r = None"
    using assms(1) Some by (simp_all add: mt_ok_def)
  show ?thesis
  proof (cases "fs_error ev")
    case None
    with Some have h: "handle_send_event cfg ev mt = mt\<lparr>mt_attempts := hm_insert ?k (r\<lparr>ar_state := s\<rparr>) (mt_attempts mt)\<rparr>"
      if "s = SentAcked (ns_since (fs_send_at ev) (mk_anchor cfg)) (case map_option (\<lambda>t. ns_since t (mk_anchor cfg)) (fs_send_ack_at ev)
        of Some t \<Rightarrow> t | None \<Rightarrow> 0) (fs_signature ev) (fs_provider_request_id ev)" for s
      using that by (simp add: handle_send_event_def Let_def)
    have "mt_ok es (mt\<lparr>mt_attempts := hm_insert ?k (r\<lparr>ar_state := s\<rparr>) (mt_attempts mt)\<rparr>)" for s
      using assms(1) Some r by (auto simp: mt_ok_def accounted_def hm_keys_insert emitted_def)
    with h [OF refl] show ?thesis by simp
  next
    case err: (Some e)
    let ?f = "build_record_from_attempt (r\<lparr>ar_state := SendFailed (ns_since (fs_send_at ev) (mk_anchor cfg))
        (map_option (\<lambda>t. ns_since t (mk_anchor cfg)) (fs_send_ack_at ev)) e (fs_signature ev)\<rparr>) ev cfg TentativeSendError"
    have "upheld es ?f" using assms(2) err r by (auto simp: upheld_def)
    then show ?thesis
      by (intro mt_ok_close [OF assms(1) Some, where sig = "fe_signature (ar_reg r)" and f = ?f])
        (simp_all add: handle_send_event_def Some err r Let_def frame emitted_def, simp add: final_send_def Let_def case_prod_beta)
  qed
qed

lemma mt_ok_match:
  assumes ok: "mt_ok es mt" and ev: "XMatch ev \<in> set es" and once: "distinct (map ekey (attempts_of es))"
  shows "mt_ok es (handle_match_event cfg ev mt)"
proof (cases "hm_get (mt_sig_to_key mt) (fv_signature ev)")
  case None
  with ok show ?thesis by (simp add: handle_match_event_def)
next
  case (Some w)
  have hm: "hm_ok (mt_attempts mt)" using ok by (simp add: mt_ok_def)
  note eff = match_effect [OF hm Some, of cfg]
  let ?ks = "filter (\<lambda>k. fst k = fst w) (hm_keys (mt_attempts mt))"
  obtain reg where reg: "reg \<in> set (attempts_of es)" "fe_signature reg = fv_signature ev" "ekey reg = w"
    using ok Some unfolding mt_ok_def by blast
  have sib: "fkey (sibling_record cfg ev w mt k) = k \<and> upheld es (sibling_record cfg ev w mt k)" if k: "k \<in> set ?ks" for k
  proof -
    obtain r where r: "hm_get (mt_attempts mt) k = Some r" using k hm_keys_get [of k "mt_attempts mt"] by auto
    then have a: "ar_reg r \<in> set (attempts_of es)" "ekey (ar_reg r) = k" using ok by (simp_all add: mt_ok_def)
    have "upheld es (sibling_record cfg ev w mt k)"
    proof (cases "k = w")
      case True
      with a reg once have "ar_reg r = reg" by (auto simp: distinct_map inj_on_def)
      with True ev reg r show ?thesis by (auto simp: upheld_def sibling_record_def)
    next
      case False
      have "fe_trigger_id (ar_reg r) = fe_trigger_id reg" using k reg(3) a(2) by (auto simp: ekey_def)
      moreover have "ekey reg \<noteq> ekey (ar_reg r)" using False reg(3) a(2) by simp
      ultimately show ?thesis using False ev reg(1,2) r by (auto simp: upheld_def sibling_record_def)
    qed
    with r a show ?thesis by (simp add: sibling_record_def)
  qed
  have "fkey (sibling_record cfg ev w mt k) = k" if "k \<in> set ?ks" for k using sib [OF that] by simp
  then have keys: "map fkey (map (sibling_record cfg ev w mt) ?ks) = ?ks"
    unfolding map_map comp_def by (intro map_idI)
  have "accounted (handle_match_event cfg ev mt)
      = mset (map fkey (emitted mt)) + (mset ?ks + mset (filter (\<lambda>k. fst k \<noteq> fst w) (hm_keys (mt_attempts mt))))"
    unfolding accounted_def eff(1,2) map_append mset_append keys by simp
  also have "mset ?ks + mset (filter (\<lambda>k. fst k \<noteq> fst w) (hm_keys (mt_attempts mt))) = mset (hm_keys (mt_attempts mt))"
    by (simp only: mset_filter multiset_partition [symmetric])
  finally have "accounted (handle_match_event cfg ev mt) = mset (map ekey (attempts_of es))"
    using ok by (simp add: mt_ok_def accounted_def)
  moreover have "upheld es f" if "f \<in> set (emitted (handle_match_event cfg ev mt))" for f
    using that ok sib unfolding eff(1) by (auto simp: mt_ok_def)
  ultimately show ?thesis using ok by (auto simp: mt_ok_def eff(3-5))
qed

lemma restore_frame [frame]:
  "mt_attempts (restore_trigger cfg now e mt) = mt_attempts mt" "mt_sig_to_key (restore_trigger cfg now e mt) = mt_sig_to_key mt"
  "emitted (restore_trigger cfg now e mt) = emitted mt"
  by (simp_all add: restore_trigger_def emitted_def Let_def case_prod_beta split: option.splits)

lemma restores_frame [frame]:
  "mt_attempts (fold (restore_trigger cfg now) xs mt) = mt_attempts mt"
  "mt_sig_to_key (fold (restore_trigger cfg now) xs mt) = mt_sig_to_key mt"
  "emitted (fold (restore_trigger cfg now) xs mt) = emitted mt"
  by (induction xs arbitrary: mt) (simp_all add: frame)

lemma mt_ok_handle:
  assumes "mt_ok es mt" "distinct (map ekey (attempts_of (es @ [ev])))"
  shows "mt_ok (es @ [ev]) (matcher_handle cfg ev mt)"
proof (cases ev)
  case (XRegister reg)
  with assms show ?thesis by (auto simp: attempts_of_append intro!: mt_ok_register)
next
  case (XSend s)
  with mt_ok_send [OF mt_ok_event [OF assms(1), of ev], of s cfg] show ?thesis by simp
next
  case (XMatch m)
  with mt_ok_match [OF mt_ok_event [OF assms(1), of ev], of m cfg] assms(2) show ?thesis by simp
next
  case XIdle
  with mt_ok_event [OF assms(1), of ev] show ?thesis by simp
next
  case XTakeFinal
  have "emitted (mt\<lparr>mt_final_tx := ch_take (mt_final_tx mt)\<rparr>) = emitted mt" by (simp add: emitted_def ch_take_def)
  with XTakeFinal mt_ok_frame [OF mt_ok_event [OF assms(1), of ev]] show ?thesis by simp
next
  case (XShared mgr cache)
  with mt_ok_frame [OF mt_ok_event [OF assms(1), of ev]] show ?thesis by (simp add: emitted_def)
qed

lemma mt_ok_turn:
  assumes "mt_ok es mt" "distinct (map ekey (attempts_of (es @ [fst turn])))"
  shows "mt_ok (es @ [fst turn]) (matcher_turn cfg turn mt)"
proof -
  obtain ev d1 d2 d3 n1 n2 n3 where turn: "turn = (ev, (d1, d2, d3), (n1, n2, n3))" by (metis prod.exhaust)
  let ?es = "es @ [ev]" and ?mt1 = "matcher_handle cfg ev mt"
  let ?mt2 = "if since d1 (mt_last_deadline_sweep ?mt1) \<ge> 500000000
         then fan_sweep_deadlines cfg d3 (?mt1\<lparr>mt_last_deadline_sweep := d2\<rparr>) else ?mt1"
  have one: "mt_ok ?es ?mt1" using mt_ok_handle [OF assms(1), of ev cfg] assms(2) by (simp add: turn)
  then have "mt_ok ?es (?mt1\<lparr>mt_last_deadline_sweep := d2\<rparr>)" by (rule mt_ok_frame) (simp_all add: emitted_def)
  then have two: "mt_ok ?es ?mt2" using one unfolding fan_sweep_deadlines_def by (simp add: mt_ok_expires)
  have "mt_ok ?es (sweep_unmatched_nonces cfg n3 (?mt2\<lparr>mt_last_nonce_sweep := n2\<rparr>))"
    by (rule mt_ok_frame [OF two]) (simp_all add: sweep_unmatched_nonces_def frame emitted_def [symmetric] del: if_split, simp_all add: emitted_def)
  with two show ?thesis by (simp add: matcher_turn_def turn Let_def)
qed

lemma mt_ok_turns:
  assumes "mt_ok es mt" "distinct (map ekey (attempts_of (es @ map fst turns)))"
  shows "mt_ok (es @ map fst turns) (fold (matcher_turn cfg) turns mt)"
  using assms
proof (induction turns arbitrary: es mt)
  case (Cons t ts)
  have "attempts_of (es @ map fst (t # ts)) = attempts_of (es @ [fst t]) @ attempts_of (map fst ts)"
    using attempts_of_append [of "es @ [fst t]" "map fst ts"] by simp
  with Cons.prems have "mt_ok (es @ [fst t]) (matcher_turn cfg t mt)" by (intro mt_ok_turn) simp_all
  then show ?case using Cons.IH [of "es @ [fst t]"] Cons.prems(2) by simp
qed simp

lemma expires_keys: "hm_keys (mt_attempts (fold (expire_attempt cfg) ks mt)) = filter (\<lambda>k. k \<notin> set ks) (hm_keys (mt_attempts mt))"
proof (induction ks arbitrary: mt)
  case (Cons k ks)
  have "mt_attempts (expire_attempt cfg k mt) = hm_delete k (mt_attempts mt)"
    by (cases "hm_get (mt_attempts mt) k") (simp_all add: expire_absent expire_present hm_delete_absent)
  then show ?case by (auto simp: Cons.IH hm_keys_delete removeAll_filter_not_eq intro!: filter_cong)
qed simp

text \<open>C35. The matcher accounts for every attempt: over any order of registrations, send events, matches,
  sweeps and queue reads, with distinct attempts, exactly one final record is made per registration by the
  time the loop has flushed, none is left open, and every verdict rests on an event: landed on a match of
  that very signature, deduped on a match of another sender's signature for the same trigger, send error
  on a send event carrying that error.\<close>

theorem matcher_one_record_each:
  assumes "distinct (map ekey (attempts_of (map fst turns)))"
  shows "let mt = matcher_run cfg turns (matcher_new now cap fin mgr cache) in
    mset (map fkey (emitted mt)) = mset (map ekey (attempts_of (map fst turns)))
    \<and> mt_attempts mt = [] \<and> (\<forall>r \<in> set (emitted mt). upheld (map fst turns) r)"
proof -
  have "mt_ok [] (matcher_new now cap fin mgr cache)"
    by (simp add: mt_ok_def accounted_def matcher_new_def emitted_def hm_keys_def chan_new_def)
  from mt_ok_turns [OF this, of turns cfg] assms
  have turns: "mt_ok (map fst turns) (fold (matcher_turn cfg) turns (matcher_new now cap fin mgr cache))" by simp
  have "mt_ok (map fst turns) (matcher_run cfg turns (matcher_new now cap fin mgr cache))"
    unfolding matcher_run_def matcher_flush_def by (rule mt_ok_expires [OF turns])
  moreover have "hm_keys (mt_attempts (matcher_run cfg turns (matcher_new now cap fin mgr cache))) = []"
    by (simp add: matcher_run_def matcher_flush_def expires_keys)
  ultimately show ?thesis by (simp add: Let_def mt_ok_def accounted_def hm_keys_def)
qed

section \<open>Sample events\<close>

definition sample_fan_register :: "fan_trigger_id \<Rightarrow> u8 \<Rightarrow> signature \<Rightarrow> fan_register_event" where
  "sample_fan_register trigger sender sig =
     \<lparr>fe_trigger_id = trigger, fe_sender_id = sender, fe_sender_name = ''s'', fe_endpoint_url = ''u'', fe_protocol = ''p'',
      fe_auth_tier = None, fe_tip_account_used = None, fe_tip_lamports = 1, fe_priority_fee_microlamports = 2,
      fe_compute_unit_limit = 3, fe_signature = sig, fe_tx_message_hash = [], fe_send_order_in_trigger = 0,
      fe_trigger_slot = 100, fe_trigger_tick = 3, fe_nonce_account_id = 4, fe_nonce_blockhash_used = 9,
      fe_prepared_at = 1, fe_pool_ready_at = 2, fe_trigger_observed_at = 5\<rparr>"

definition sample_fan_send :: "fan_trigger_id \<Rightarrow> u8 \<Rightarrow> signature \<Rightarrow> string option \<Rightarrow> fan_send_event" where
  "sample_fan_send trigger sender sig err =
     \<lparr>fs_trigger_id = trigger, fs_sender_id = sender, fs_send_at = 6, fs_send_ack_at = Some 7, fs_signature = sig,
      fs_provider_request_id = None, fs_http_status = Some 429, fs_rpc_err_code = None, fs_rpc_err_message = None,
      fs_rate_limit_state = Throttled429, fs_error = err\<rparr>"

definition sample_fan_match :: "signature \<Rightarrow> fan_match_event" where
  "sample_fan_match sig =
     \<lparr>fv_signature = sig, fv_observed_at = 8, fv_observed_slot = 101, fv_observed_entry_index = 1, fv_observed_tick_in_slot = Some 1,
      fv_observed_cumulative_hashes_in_slot = Some 7, fv_observed_source = ShredStream\<rparr>"

definition sample_matcher_cfg :: matcher_cfg where
  "sample_matcher_cfg = \<lparr>mk_deadline = 100, mk_run_id = ''r'', mk_anchor = 0, mk_nonce_restore_after = 10,
     mk_sha256 = (\<lambda>_. 0), mk_hashv = (\<lambda>_. 0), mk_queue_clock = of_nat\<rparr>"

theorem matcher_one_record_each_witness:
  "mset (map fkey (emitted (matcher_run sample_matcher_cfg
     (map (\<lambda>e. (e, (0, 0, 0), (0, 0, 0))) [XRegister (sample_fan_register [1] 2 77), XRegister (sample_fan_register [1] 3 78),
        XSend (sample_fan_send [1] 2 77 (Some ''429'')), XMatch (sample_fan_match 78)])
     (matcher_new 0 None True None None)))) = {#([1], 2), ([1], 3)#}"
proof -
  let ?ts = "map (\<lambda>e. (e, (0, 0, 0), (0, 0, 0))) [XRegister (sample_fan_register [1] 2 77), XRegister (sample_fan_register [1] 3 78),
        XSend (sample_fan_send [1] 2 77 (Some ''429'')), XMatch (sample_fan_match 78)]
    :: (matcher_event \<times> clocks \<times> clocks) list"
  have "distinct (map ekey (attempts_of (map fst ?ts)))" by (simp add: ekey_def sample_fan_register_def)
  from matcher_one_record_each [OF this, of sample_matcher_cfg 0 None True None None] show ?thesis
    by (simp add: Let_def ekey_def sample_fan_register_def)
qed

section \<open>Siblings\<close>

text \<open>C36. A match resolves exactly the open attempts of its trigger, whichever sender won: one record each, the
  matched attempt landed and its siblings deduped; every other attempt is untouched.\<close>

theorem match_resolves_siblings:
  assumes "hm_ok (mt_attempts mt)" "hm_get (mt_sig_to_key mt) (fv_signature ev) = Some w"
    and "\<forall>k r. hm_get (mt_attempts mt) k = Some r \<longrightarrow> ekey (ar_reg r) = k"
  shows "let mt' = handle_match_event cfg ev mt; ks = filter (\<lambda>k. fst k = fst w) (hm_keys (mt_attempts mt)) in
    map (\<lambda>r. (fkey r, fr_tentative_outcome r)) (emitted mt') = map (\<lambda>r. (fkey r, fr_tentative_outcome r)) (emitted mt)
        @ map (\<lambda>k. (k, if k = w then LandedTentative else DedupedTentative)) ks
    \<and> (\<forall>k. hm_get (mt_attempts mt') k = (if fst k = fst w then None else hm_get (mt_attempts mt) k))"
proof -
  have "fkey (sibling_record cfg ev w mt k) = k"
    "fr_tentative_outcome (sibling_record cfg ev w mt k) = (if k = w then LandedTentative else DedupedTentative)"
    if "k \<in> set (hm_keys (mt_attempts mt))" for k
    using that assms(3) hm_keys_get [of k "mt_attempts mt"] by (auto simp: sibling_record_def)
  then show ?thesis by (simp add: Let_def match_effect [OF assms(1,2)] split: if_splits)
qed

theorem match_resolves_siblings_witness:
  "let mt = register_attempt (sample_fan_register [1] 3 78) (register_attempt (sample_fan_register [1] 2 77) (matcher_new 0 None True None None)) in
   map (\<lambda>r. (fkey r, fr_tentative_outcome r)) (emitted (handle_match_event sample_matcher_cfg (sample_fan_match 78) mt))
     = [(([1], 2), DedupedTentative), (([1], 3), LandedTentative)]"
proof -
  define mt where "mt = register_attempt (sample_fan_register [1] 3 78) (register_attempt (sample_fan_register [1] 2 77) (matcher_new 0 None True None None))"
  have mt: "hm_keys (mt_attempts mt) = [([1], 2), ([1], 3)]" "emitted mt = []" "hm_ok (mt_attempts mt)"
    "hm_get (mt_sig_to_key mt) 78 = Some ([1], 3)"
    "\<forall>k r. hm_get (mt_attempts mt) k = Some r \<longrightarrow> ekey (ar_reg r) = k"
    by (simp_all add: mt_def register_attempt_def sample_fan_register_def matcher_new_def emitted_def chan_new_def hm_keys_insert
        hm_keys_def [of "[]"] ekey_def Let_def)
  have "hm_get (mt_sig_to_key mt) (fv_signature (sample_fan_match 78)) = Some ([1], 3)" using mt by (simp add: sample_fan_match_def)
  from match_resolves_siblings [OF mt(3) this mt(5), of sample_matcher_cfg] show ?thesis
    unfolding mt_def [symmetric] by (simp add: Let_def mt)
qed

section \<open>Which nonces come back\<close>

lemma handle_send_error:
  assumes "hm_get (mt_attempts mt) (fs_trigger_id ev, fs_sender_id ev) = Some r" "fs_error ev \<noteq> None"
  shows "mt_attempts (handle_send_event cfg ev mt) = hm_delete (fs_trigger_id ev, fs_sender_id ev) (mt_attempts mt)"
  using assms by (auto simp: handle_send_event_def Let_def frame)

lemma handle_send_manager [frame]: "mt_nonce_manager (handle_send_event cfg ev mt) = mt_nonce_manager mt"
  by (simp add: handle_send_event_def Let_def frame split: option.splits)

lemma handle_send_error_keys:
  assumes "fs_error ev \<noteq> None"
  shows "hm_keys (mt_attempts (handle_send_event cfg ev mt)) = removeAll (fs_trigger_id ev, fs_sender_id ev) (hm_keys (mt_attempts mt))"
proof (cases "hm_get (mt_attempts mt) (fs_trigger_id ev, fs_sender_id ev)")
  case None
  then have "(fs_trigger_id ev, fs_sender_id ev) \<notin> set (hm_keys (mt_attempts mt))" by (simp add: hm_keys_get)
  with None show ?thesis by (simp add: handle_send_event_def Let_def)
qed (simp add: handle_send_error assms hm_keys_delete)

lemma send_errors_empty:
  assumes "\<forall>ev \<in> set evs. fs_error ev \<noteq> None"
  shows "hm_keys (mt_attempts (fold (handle_send_event cfg) evs mt)) =
      filter (\<lambda>k. k \<notin> (\<lambda>ev. (fs_trigger_id ev, fs_sender_id ev)) ` set evs) (hm_keys (mt_attempts mt))"
    "mt_nonce_manager (fold (handle_send_event cfg) evs mt) = mt_nonce_manager mt"
  using assms
  by (induction evs arbitrary: mt)
    (auto simp: handle_send_error_keys frame removeAll_filter_not_eq intro!: filter_cong)

text \<open>C37. The early restore only sees attempts that are still open.  A trigger whose sends went unanswered gets
  its nonce back after \<open>nonce_restore_after\<close>; one whose every send failed outright has no open attempt left,
  so no sweep, however late, gives its nonce back, although such a transaction cannot land either.\<close>

theorem failed_sends_strand_nonce:
  assumes "mt_attempts mt = [(k, r)]" "mt_nonce_manager mt = Some manager" "ar_match_info r = None"
    and "fst k \<notin> mt_restored_triggers mt" "since now (fe_trigger_observed_at (ar_reg r)) \<ge> mk_nonce_restore_after cfg"
  shows "mt_nonce_manager (sweep_unmatched_nonces cfg now mt) = Some (snd (restore_unchanged (fe_nonce_account_id (ar_reg r)) manager))
    \<and> (\<forall>ev later. (fs_trigger_id ev, fs_sender_id ev) = k \<longrightarrow> fs_error ev \<noteq> None \<longrightarrow>
        mt_nonce_manager (sweep_unmatched_nonces cfg later (handle_send_event cfg ev mt)) = Some manager)"
proof -
  have "mt_nonce_manager (sweep_unmatched_nonces cfg now mt) = Some (snd (restore_unchanged (fe_nonce_account_id (ar_reg r)) manager))"
    using assms by (simp add: sweep_unmatched_nonces_def group_triggers_def restore_trigger_def hm_insert_def Let_def case_prod_beta)
  moreover have "mt_nonce_manager (sweep_unmatched_nonces cfg later (handle_send_event cfg ev mt)) = Some manager"
    if "(fs_trigger_id ev, fs_sender_id ev) = k" "fs_error ev \<noteq> None" for ev later
  proof -
    have "hm_keys (mt_attempts (handle_send_event cfg ev mt)) = []"
      using handle_send_error_keys [OF that(2), of cfg mt] that(1) assms(1) by (simp add: hm_keys_def)
    then have "mt_attempts (handle_send_event cfg ev mt) = []" by (simp add: hm_keys_def)
    then show ?thesis using assms(2) by (simp add: sweep_unmatched_nonces_def frame)
  qed
  ultimately show ?thesis by blast
qed

theorem failed_sends_strand_nonce_witness:
  "let mgr = set_state 0 (InFlight 9 5) (nonce_manager_new [(4, 1, 9)]);
       mt = register_attempt (sample_fan_register [1] 2 77) (matcher_new 0 None True (Some mgr) None)
   in mt_nonce_manager (sweep_unmatched_nonces sample_matcher_cfg 50 mt) = Some (snd (restore_unchanged 4 mgr))
     \<and> mt_nonce_manager (sweep_unmatched_nonces sample_matcher_cfg 1000
          (handle_send_event sample_matcher_cfg (sample_fan_send [1] 2 77 (Some ''refused'')) mt)) = Some mgr"
proof -
  define mgr where "mgr = set_state 0 (InFlight 9 5) (nonce_manager_new [(4, 1, 9)])"
  define mt where "mt = register_attempt (sample_fan_register [1] 2 77) (matcher_new 0 None True (Some mgr) None)"
  define r where "r = \<lparr>ar_reg = sample_fan_register [1] 2 77, ar_state = SentPending 0 77, ar_match_info = None\<rparr>"
  have "mt_attempts mt = [(([1], 2), r)]" "mt_nonce_manager mt = Some mgr" "ar_match_info r = None"
    "fst (([1], 2) :: fan_trigger_id \<times> u8) \<notin> mt_restored_triggers mt"
    "since 50 (fe_trigger_observed_at (ar_reg r)) \<ge> mk_nonce_restore_after sample_matcher_cfg"
    by (simp_all add: mt_def r_def register_attempt_def matcher_new_def sample_fan_register_def hm_insert_def Let_def
        sample_matcher_cfg_def since_def)
  note n = failed_sends_strand_nonce [OF this]
  have "fe_nonce_account_id (ar_reg r) = 4" by (simp add: r_def sample_fan_register_def)
  moreover have "(fs_trigger_id (sample_fan_send [1] 2 77 (Some ''refused'')), fs_sender_id (sample_fan_send [1] 2 77 (Some ''refused''))) = ([1], 2)"
    "fs_error (sample_fan_send [1] 2 77 (Some ''refused'')) \<noteq> None" by (simp_all add: sample_fan_send_def)
  ultimately show ?thesis unfolding Let_def mgr_def [symmetric] mt_def [symmetric] using n by metis
qed

end
