(* ===== verification/FanPipeline.thy ===== *)
theory FanPipeline
  imports FanBuilder FanMatcher
begin

text \<open>
  From a schedule entry to the sends of the earlier bench (\<open>crates/fan-out-bench/src/\<close>): the pool of signed
  transactions (\<open>pool.rs\<close>), the preparer that signs one variant per sender on a leased nonce
  (\<open>preparer.rs\<close>), the trigger id (\<open>trigger_id.rs\<close>) and the dispatcher that takes the variants of a trigger
  and spawns their sends (\<open>dispatcher.rs\<close>).  The three share the pool, the nonce manager and the queue of
  prepared triggers, so they are one state; a step is one turn of one of the threads.  Parameters:
  signing, the digests, the seeded shuffle and the clocks.
\<close>

declare split_paired_All [simp del] split_paired_Ex [simp del]

section \<open>The pool\<close>

record fan_pre_signed =
  fw_tx :: fan_transaction
  fw_message_hash :: "u8 list"
  fw_prepared_at :: instant
  fw_pool_ready_at :: instant

type_synonym fan_pool = "(u64 \<times> u8 \<times> u8, fan_pre_signed) hmap"

definition fan_pool_insert :: "u64 \<Rightarrow> u8 \<Rightarrow> u8 \<Rightarrow> fan_pre_signed \<Rightarrow> fan_pool \<Rightarrow> bool \<times> fan_pool" where
  "fan_pool_insert slot tick sender_id tx pool =
     (hm_get pool (slot, tick, sender_id) = None, hm_insert (slot, tick, sender_id) tx pool)"

definition fan_pool_take :: "u64 \<Rightarrow> u8 \<Rightarrow> u8 \<Rightarrow> fan_pool \<Rightarrow> fan_pre_signed option \<times> fan_pool" where
  "fan_pool_take slot tick sender_id pool = hm_remove (slot, tick, sender_id) pool"

definition of_trigger :: "u64 \<Rightarrow> u8 \<Rightarrow> u64 \<times> u8 \<times> u8 \<Rightarrow> bool" where
  "of_trigger slot tick k \<longleftrightarrow> fst k = slot \<and> fst (snd k) = tick"

definition take_all_for :: "u64 \<Rightarrow> u8 \<Rightarrow> fan_pool \<Rightarrow> (u8 \<times> fan_pre_signed) list \<times> fan_pool" where
  "take_all_for slot tick pool =
     (map (\<lambda>e. (snd (snd (fst e)), snd e)) (filter (\<lambda>e. of_trigger slot tick (fst e)) pool),
      hm_retain (\<lambda>k v. \<not> of_trigger slot tick k) pool)"

definition prune_older_than :: "u64 \<Rightarrow> fan_pool \<Rightarrow> nat \<times> fan_pool" where
  "prune_older_than cutoff_slot pool =
     (length (filter (\<lambda>e. fst (fst e) < cutoff_slot) pool), hm_retain (\<lambda>k v. \<not> fst k < cutoff_slot) pool)"

section \<open>State\<close>

record fan_entry =
  fj_slot :: u64
  fj_tick :: u8

record prepared_trigger =
  fb_slot :: u64
  fb_tick :: u8
  fb_nonce_account_id :: u16

record fan_sender_meta =
  fq_name :: string
  fq_endpoint_url :: string
  fq_protocol :: string
  fq_auth_tier :: "string option"
  fq_tip_lamports :: u64
  fq_priority_fee_microlamports :: u64
  fq_compute_unit_limit :: u32

record fan_send_command =
  fh_tx :: fan_transaction
  fh_trigger_id :: fan_trigger_id
  fh_sender_id :: u8

record pipe_cfg =
  py_senders :: "fan_sender_config list"
  py_sender_ids :: "u8 set"
  py_sender_meta :: "u8 \<Rightarrow> fan_sender_meta option"
  py_authority :: fan_keypair
  py_priority_fee :: u64
  py_compute_unit_limit :: u32
  py_digest :: "fan_message \<Rightarrow> u8 list"
  py_sha256 :: "u8 list \<Rightarrow> u8 list"
  py_schedule_seed :: u64
  py_shuffle :: "u64 \<Rightarrow> nat \<Rightarrow> nat list"

record fan_pipe =
  fp_pending :: "fan_entry list"
  fp_nonces :: nonce_manager
  fp_rotators :: "(u8, tip_rotator) hmap"
  fp_pool :: fan_pool
  fp_prepared :: "prepared_trigger chan"
  fp_pending_sigs :: "signature set"
  fp_registered :: "fan_register_event list"
  fp_commands :: "fan_send_command list"
  fp_nonce_stalls :: u64
  fp_signing_fail :: u64
  fp_send_queue_full :: u64
  fp_pool_empty :: u64

definition pipe_new :: "nonce_manager \<Rightarrow> (u8, tip_rotator) hmap \<Rightarrow> fan_pipe" where
  "pipe_new nm rotators =
     \<lparr>fp_pending = [], fp_nonces = nm, fp_rotators = rotators, fp_pool = [], fp_prepared = chan_new (Some 8192),
      fp_pending_sigs = {}, fp_registered = [], fp_commands = [], fp_nonce_stalls = 0, fp_signing_fail = 0,
      fp_send_queue_full = 0, fp_pool_empty = 0\<rparr>"

section \<open>The preparer\<close>

text \<open>One sender of an entry on the nonce \<open>(id, pubkey, hash)\<close>.\<close>

definition next_tip :: "u8 \<Rightarrow> fan_pipe \<Rightarrow> pubkey option \<times> fan_pipe" where
  "next_tip sender_id st = (case hm_get (fp_rotators st) sender_id of
     None \<Rightarrow> (None, st)
   | Some r \<Rightarrow> (let (tip, r') = rotator_next r in (tip, st\<lparr>fp_rotators := hm_insert sender_id r' (fp_rotators st)\<rparr>)))"

definition variant_of :: "pipe_cfg \<Rightarrow> nonce_id \<times> pubkey \<times> hash \<Rightarrow> fan_sender_config \<Rightarrow> pubkey option \<Rightarrow> variant_params" where
  "variant_of cfg nonce sender tip_account =
     \<lparr>vp_nonce_pubkey = fst (snd nonce), vp_nonce_blockhash = snd (snd nonce), vp_payer = fy_pubkey (py_authority cfg),
      vp_sender_id = fd_id sender, vp_sender_kind = fd_kind sender, vp_tip_account = tip_account,
      vp_tip_lamports = fd_tip_lamports sender, vp_priority_fee_microlamports = py_priority_fee cfg,
      vp_compute_unit_limit = py_compute_unit_limit cfg\<rparr>"

definition prepare_sender :: "pipe_cfg \<Rightarrow> nonce_id \<times> pubkey \<times> hash \<Rightarrow> fan_entry \<Rightarrow> instant \<Rightarrow> (u8 \<Rightarrow> instant) \<Rightarrow>
    fan_sender_config \<Rightarrow> fan_pipe \<Rightarrow> fan_pipe" where
  "prepare_sender cfg nonce entry prepared_at clk sender st =
     (if \<not> fd_enabled sender then st
      else (let (tip_account, st1) = next_tip (fd_id sender) st in
        if needs_tip (fd_kind sender) \<and> tip_account = None then st1
        else (case build_variant (py_digest cfg) (py_authority cfg) (variant_of cfg nonce sender tip_account) of
          Inr variant \<Rightarrow> st1\<lparr>fp_pool := snd (fan_pool_insert (fj_slot entry) (fj_tick entry) (fd_id sender)
              \<lparr>fw_tx = vx_tx variant, fw_message_hash = vx_message_hash variant, fw_prepared_at = prepared_at,
               fw_pool_ready_at = clk (fd_id sender)\<rparr> (fp_pool st1))\<rparr>
        | Inl e \<Rightarrow> st1\<lparr>fp_signing_fail := fp_signing_fail st1 + 1\<rparr>)))"

definition prepared_send :: "prepared_trigger \<Rightarrow> fan_pipe \<Rightarrow> fan_pipe" where
  "prepared_send p st = (let (ch, ok) = try_send (fp_prepared st) p in
     st\<lparr>fp_prepared := ch, fp_send_queue_full := (if ok then fp_send_queue_full st else fp_send_queue_full st + 1)\<rparr>)"

text \<open>The second half of a turn: lease a nonce for the first pending entry and sign it.\<close>

definition prepare_next :: "pipe_cfg \<Rightarrow> instant \<Rightarrow> instant \<Rightarrow> (u8 \<Rightarrow> instant) \<Rightarrow> fan_pipe \<Rightarrow> fan_pipe" where
  "prepare_next cfg now prepared_at clk st = (case fp_pending st of
     [] \<Rightarrow> st
   | entry # rest \<Rightarrow> (case take_ready now (fp_nonces st) of
       (None, nm) \<Rightarrow> st\<lparr>fp_nonces := nm, fp_nonce_stalls := fp_nonce_stalls st + 1\<rparr>
     | (Some nonce, nm) \<Rightarrow>
         (let st1 = st\<lparr>fp_nonces := nm, fp_pending := rest\<rparr>;
              st2 = fold (prepare_sender cfg nonce entry prepared_at clk) (py_senders cfg) st1
          in prepared_send \<lparr>fb_slot = fj_slot entry, fb_tick = fj_tick entry, fb_nonce_account_id = fst nonce\<rparr> st2)))"

datatype 'a recv_result = Received 'a | RecvTimeout | Disconnected

text \<open>\<open>arrived\<close>: the entries drained without waiting; \<open>recv\<close>: the one waited for when there is none.\<close>

definition fan_preparer_turn :: "pipe_cfg \<Rightarrow> fan_entry list \<Rightarrow> fan_entry recv_result \<Rightarrow> instant \<Rightarrow> instant \<Rightarrow> (u8 \<Rightarrow> instant) \<Rightarrow>
    fan_pipe \<Rightarrow> fan_pipe" where
  "fan_preparer_turn cfg arrived recv now prepared_at clk st =
     (let st1 = st\<lparr>fp_pending := fp_pending st @ arrived\<rparr> in
      if fp_pending st1 = []
      then (case recv of
          Received e \<Rightarrow> prepare_next cfg now prepared_at clk (st1\<lparr>fp_pending := [e]\<rparr>)
        | RecvTimeout \<Rightarrow> st1 | Disconnected \<Rightarrow> st1)
      else prepare_next cfg now prepared_at clk st1)"

section \<open>The trigger id\<close>

definition trigger_id_new :: "(u8 list \<Rightarrow> u8 list) \<Rightarrow> u64 \<Rightarrow> u8 \<Rightarrow> u16 \<Rightarrow> fan_trigger_id" where
  "trigger_id_new sha256 slot tick nonce_id = take 16 (sha256 (to_le_bytes 8 slot @ [tick] @ to_le_bytes 2 nonce_id))"

section \<open>The dispatcher\<close>

definition ch_recv :: "'a chan \<Rightarrow> 'a option \<times> 'a chan" where
  "ch_recv c = (if ch_taken c < length (ch_sent c) then (Some (ch_sent c ! ch_taken c), c\<lparr>ch_taken := ch_taken c + 1\<rparr>)
     else (None, c))"

fun find_prepared :: "nat \<Rightarrow> u64 \<Rightarrow> u8 \<Rightarrow> prepared_trigger chan \<Rightarrow> prepared_trigger option \<times> prepared_trigger chan" where
  "find_prepared 0 slot tick c = (None, c)"
| "find_prepared (Suc n) slot tick c = (case ch_recv c of
     (None, c') \<Rightarrow> (None, c')
   | (Some p, c') \<Rightarrow> if fb_slot p = slot \<and> fb_tick p = tick then (Some p, c') else find_prepared n slot tick c')"

definition fan_perm_seed :: "u64 \<Rightarrow> fan_trigger_event \<Rightarrow> u64" where
  "fan_perm_seed seed trigger = xor (xor seed (push_bit 8 (ft_slot trigger))) (ucast (ft_tick trigger))"

definition fan_registration :: "fan_trigger_event \<Rightarrow> u16 \<Rightarrow> fan_trigger_id \<Rightarrow> nat \<Rightarrow> u8 \<Rightarrow> fan_sender_meta \<Rightarrow> fan_pre_signed \<Rightarrow> fan_register_event" where
  "fan_registration trigger nonce_account_id trigger_id order sender_id meta presigned =
     \<lparr>fe_trigger_id = trigger_id, fe_sender_id = sender_id, fe_sender_name = fq_name meta, fe_endpoint_url = fq_endpoint_url meta,
      fe_protocol = fq_protocol meta, fe_auth_tier = fq_auth_tier meta, fe_tip_account_used = None,
      fe_tip_lamports = fq_tip_lamports meta, fe_priority_fee_microlamports = fq_priority_fee_microlamports meta,
      fe_compute_unit_limit = fq_compute_unit_limit meta, fe_signature = fx_signature (fw_tx presigned),
      fe_tx_message_hash = fw_message_hash presigned, fe_send_order_in_trigger = of_nat order,
      fe_trigger_slot = ft_slot trigger, fe_trigger_tick = ft_tick trigger, fe_nonce_account_id = nonce_account_id,
      fe_nonce_blockhash_used = 0, fe_prepared_at = fw_prepared_at presigned, fe_pool_ready_at = fw_pool_ready_at presigned,
      fe_trigger_observed_at = ft_observed_at trigger\<rparr>"

text \<open>One variant of a trigger, the \<open>order\<close>-th in the shuffled order.\<close>

definition dispatch_variant :: "pipe_cfg \<Rightarrow> fan_trigger_event \<Rightarrow> u16 \<Rightarrow> fan_trigger_id \<Rightarrow> nat \<times> u8 \<times> fan_pre_signed \<Rightarrow>
    fan_pipe \<Rightarrow> fan_pipe" where
  "dispatch_variant cfg trigger nonce_account_id trigger_id x st = (let (order, sender_id, presigned) = x in
     if sender_id \<notin> py_sender_ids cfg then st
     else (case py_sender_meta cfg sender_id of
       None \<Rightarrow> st
     | Some meta \<Rightarrow> st
         \<lparr>fp_pending_sigs := insert (fx_signature (fw_tx presigned)) (fp_pending_sigs st),
          fp_registered := fp_registered st @ [fan_registration trigger nonce_account_id trigger_id order sender_id meta presigned],
          fp_commands := fp_commands st @ [\<lparr>fh_tx = fw_tx presigned, fh_trigger_id = trigger_id, fh_sender_id = sender_id\<rparr>]\<rparr>))"

definition fan_dispatch :: "pipe_cfg \<Rightarrow> fan_trigger_event \<Rightarrow> fan_pipe \<Rightarrow> fan_pipe" where
  "fan_dispatch cfg trigger st =
     (let (prepared, ch) = find_prepared 10 (ft_slot trigger) (ft_tick trigger) (fp_prepared st);
          nonce_account_id = (case prepared of Some p \<Rightarrow> fb_nonce_account_id p | None \<Rightarrow> 0);
          (variants, pool) = take_all_for (ft_slot trigger) (ft_tick trigger) (fp_pool st);
          st1 = st\<lparr>fp_prepared := ch, fp_pool := pool\<rparr>
      in if variants = [] then st1\<lparr>fp_pool_empty := fp_pool_empty st1 + 1\<rparr>
         else (let indices = py_shuffle cfg (fan_perm_seed (py_schedule_seed cfg) trigger) (length variants);
                   trigger_id = trigger_id_new (py_sha256 cfg) (ft_slot trigger) (ft_tick trigger) nonce_account_id
               in fold (dispatch_variant cfg trigger nonce_account_id trigger_id)
                    (map (\<lambda>(order, idx). (order, variants ! idx)) (enumerate 0 indices)) st1))"

section \<open>Runs\<close>

datatype pipe_event =
    PPrepare "fan_entry list" "fan_entry recv_result" instant instant "u8 \<Rightarrow> instant"
  | PTrigger fan_trigger_event
  | PipeNonces nonce_manager

fun pipe_step :: "pipe_cfg \<Rightarrow> pipe_event \<Rightarrow> fan_pipe \<Rightarrow> fan_pipe" where
  "pipe_step cfg (PPrepare arrived recv now prepared_at clk) st = fan_preparer_turn cfg arrived recv now prepared_at clk st"
| "pipe_step cfg (PTrigger trigger) st = fan_dispatch cfg trigger st"
| "pipe_step cfg (PipeNonces nm) st = st\<lparr>fp_nonces := nm\<rparr>"

definition pipe_run :: "pipe_cfg \<Rightarrow> pipe_event list \<Rightarrow> fan_pipe \<Rightarrow> fan_pipe" where
  "pipe_run cfg es st = fold (pipe_step cfg) es st"

end
