(* ===== verification/FanPipelineRun.thy ===== *)
theory FanPipelineRun
  imports FanPipeline
begin

text \<open>
  What the preparer and the dispatcher of the earlier bench guarantee: entries are signed in order and none
  is lost, what is sent was prepared for its sender, a trigger sends each of its variants once; and which
  triggers lose the number of their nonce.
\<close>

section \<open>The preparer keeps every entry\<close>

lemma next_tip_frame [frame]:
  "fp_pending (snd (next_tip i st)) = fp_pending st" "fp_prepared (snd (next_tip i st)) = fp_prepared st"
  "fp_nonces (snd (next_tip i st)) = fp_nonces st" "fp_pool (snd (next_tip i st)) = fp_pool st"
  "fp_commands (snd (next_tip i st)) = fp_commands st" "fp_registered (snd (next_tip i st)) = fp_registered st"
  "fp_pending_sigs (snd (next_tip i st)) = fp_pending_sigs st"
  by (simp_all add: next_tip_def Let_def case_prod_beta split: option.split)

lemma prepare_sender_frame [frame]:
  "fp_pending (prepare_sender cfg nonce e t clk s st) = fp_pending st"
  "fp_prepared (prepare_sender cfg nonce e t clk s st) = fp_prepared st"
  "fp_commands (prepare_sender cfg nonce e t clk s st) = fp_commands st"
  "fp_registered (prepare_sender cfg nonce e t clk s st) = fp_registered st"
  "fp_pending_sigs (prepare_sender cfg nonce e t clk s st) = fp_pending_sigs st"
  by (simp_all add: prepare_sender_def Let_def case_prod_beta frame split: sum.split)

lemma prepare_senders_frame [frame]:
  "fp_pending (fold (prepare_sender cfg nonce e t clk) ss st) = fp_pending st"
  "fp_prepared (fold (prepare_sender cfg nonce e t clk) ss st) = fp_prepared st"
  "fp_commands (fold (prepare_sender cfg nonce e t clk) ss st) = fp_commands st"
  "fp_registered (fold (prepare_sender cfg nonce e t clk) ss st) = fp_registered st"
  "fp_pending_sigs (fold (prepare_sender cfg nonce e t clk) ss st) = fp_pending_sigs st"
  by (induction ss arbitrary: st) (simp_all add: frame)

lemma prepared_send_frame [frame]:
  "fp_pending (prepared_send p st) = fp_pending st" "fp_pool (prepared_send p st) = fp_pool st"
  "fp_commands (prepared_send p st) = fp_commands st" "fp_registered (prepared_send p st) = fp_registered st"
  "fp_pending_sigs (prepared_send p st) = fp_pending_sigs st"
  "ch_offered (fp_prepared (prepared_send p st)) = ch_offered (fp_prepared st) @ [p]"
  by (simp_all add: prepared_send_def Let_def case_prod_beta)

lemma dispatch_variant_frame [frame]:
  "fp_pending (dispatch_variant cfg tg i k x st) = fp_pending st" "fp_prepared (dispatch_variant cfg tg i k x st) = fp_prepared st"
  "fp_pool (dispatch_variant cfg tg i k x st) = fp_pool st"
  by (simp_all add: dispatch_variant_def Let_def case_prod_beta split: option.split)

lemma dispatch_variants_frame [frame]:
  "fp_pending (fold (dispatch_variant cfg tg i k) xs st) = fp_pending st"
  "fp_prepared (fold (dispatch_variant cfg tg i k) xs st) = fp_prepared st"
  "fp_pool (fold (dispatch_variant cfg tg i k) xs st) = fp_pool st"
  by (induction xs arbitrary: st) (simp_all add: frame)

lemma ch_recv_offered: "ch_offered (snd (ch_recv c)) = ch_offered c"
  by (simp add: ch_recv_def)

lemma find_prepared_offered: "ch_offered (snd (find_prepared n s t c)) = ch_offered c"
proof (induction n arbitrary: c)
  case (Suc n)
  obtain r c' where r: "ch_recv c = (r, c')" by (cases "ch_recv c")
  then have "ch_offered c' = ch_offered c" using ch_recv_offered [of c] by simp
  with r Suc show ?case by (cases r) auto
qed simp

text \<open>The entries a turn takes off its channel.\<close>

definition taken_in :: "pipe_event \<Rightarrow> fan_pipe \<Rightarrow> fan_entry list" where
  "taken_in ev st = (case ev of
     PPrepare arrived recv now t clk \<Rightarrow> arrived @ (if fp_pending st @ arrived = [] then (case recv of Received e \<Rightarrow> [e] | _ \<Rightarrow> []) else [])
   | _ \<Rightarrow> [])"

fun entries_in :: "pipe_cfg \<Rightarrow> pipe_event list \<Rightarrow> fan_pipe \<Rightarrow> fan_entry list" where
  "entries_in cfg [] st = []"
| "entries_in cfg (ev # es) st = taken_in ev st @ entries_in cfg es (pipe_step cfg ev st)"

definition entry_key :: "fan_entry \<Rightarrow> u64 \<times> u8" where "entry_key e = (fj_slot e, fj_tick e)"

definition prepared_key :: "prepared_trigger \<Rightarrow> u64 \<times> u8" where "prepared_key p = (fb_slot p, fb_tick p)"

definition through :: "fan_pipe \<Rightarrow> (u64 \<times> u8) list" where
  "through st = map prepared_key (ch_offered (fp_prepared st)) @ map entry_key (fp_pending st)"

lemma through_prepare_next: "through (prepare_next cfg now t clk st) = through st"
  by (auto simp: through_def prepare_next_def Let_def frame prepared_key_def entry_key_def split: list.split option.split prod.split)

lemma through_step: "through (pipe_step cfg ev st) = through st @ map entry_key (taken_in ev st)"
proof (cases ev)
  case (PPrepare arrived recv now t clk)
  have "through (st\<lparr>fp_pending := fp_pending st @ arrived\<rparr>) = through st @ map entry_key arrived" by (simp add: through_def)
  moreover have "through (st\<lparr>fp_pending := [e]\<rparr>) = through st @ [entry_key e]" if "fp_pending st = []" for e
    using that by (simp add: through_def)
  ultimately show ?thesis unfolding PPrepare
    by (auto simp: fan_preparer_turn_def taken_in_def Let_def through_prepare_next split: recv_result.split)
next
  case (PTrigger tg)
  then show ?thesis
    by (auto simp: fan_dispatch_def taken_in_def through_def Let_def case_prod_beta frame find_prepared_offered)
next
  case (PipeNonces nm)
  then show ?thesis by (simp add: taken_in_def through_def)
qed

text \<open>No schedule entry is lost, repeated or reordered: whatever the dispatcher, the other users of the nonce
  manager and a full queue do, the entries taken off the channel are those announced as prepared, in order,
  followed by those still waiting for a nonce.\<close>

theorem preparer_keeps_order:
  "map prepared_key (ch_offered (fp_prepared (pipe_run cfg es (pipe_new nm rotators))))
     @ map entry_key (fp_pending (pipe_run cfg es (pipe_new nm rotators)))
   = map entry_key (entries_in cfg es (pipe_new nm rotators))"
proof -
  have "through (fold (pipe_step cfg) es st) = through st @ map entry_key (entries_in cfg es st)" for st
    by (induction es arbitrary: st) (simp_all add: through_step)
  from this [of "pipe_new nm rotators"] show ?thesis
    by (simp add: through_def pipe_run_def) (simp add: pipe_new_def)
qed

section \<open>What is sent was prepared\<close>

definition prepared_for :: "pipe_cfg \<Rightarrow> u8 \<Rightarrow> fan_transaction \<Rightarrow> bool" where
  "prepared_for cfg sender_id tx \<longleftrightarrow> (\<exists>s \<in> set (py_senders cfg). \<exists>nonce tip v. fd_id s = sender_id \<and> fd_enabled s
     \<and> build_variant (py_digest cfg) (py_authority cfg) (variant_of cfg nonce s tip) = Inr v \<and> vx_tx v = tx)"

definition pipe_ok :: "pipe_cfg \<Rightarrow> fan_pipe \<Rightarrow> bool" where
  "pipe_ok cfg st \<longleftrightarrow> hm_ok (fp_pool st)
     \<and> (\<forall>k v. hm_get (fp_pool st) k = Some v \<longrightarrow> prepared_for cfg (snd (snd k)) (fw_tx v))
     \<and> (\<forall>c \<in> set (fp_commands st). prepared_for cfg (fh_sender_id c) (fh_tx c) \<and> fx_signature (fh_tx c) \<in> fp_pending_sigs st)
     \<and> map (\<lambda>r. (fe_trigger_id r, fe_sender_id r, fe_signature r)) (fp_registered st)
       = map (\<lambda>c. (fh_trigger_id c, fh_sender_id c, fx_signature (fh_tx c))) (fp_commands st)"

lemma pipe_ok_frame:
  "pipe_ok cfg st \<Longrightarrow> fp_pool st' = fp_pool st \<Longrightarrow> fp_commands st' = fp_commands st \<Longrightarrow> fp_registered st' = fp_registered st \<Longrightarrow>
   fp_pending_sigs st' = fp_pending_sigs st \<Longrightarrow> pipe_ok cfg st'"
  by (simp add: pipe_ok_def)

lemma pipe_ok_sender:
  assumes "pipe_ok cfg st" "s \<in> set (py_senders cfg)"
  shows "pipe_ok cfg (prepare_sender cfg nonce e t clk s st)"
proof -
  obtain tip st1 where n: "next_tip (fd_id s) st = (tip, st1)" by (cases "next_tip (fd_id s) st")
  then have st1: "pipe_ok cfg st1" using pipe_ok_frame [OF assms(1), of st1] next_tip_frame [of "fd_id s" st] by simp
  have "pipe_ok cfg (st1\<lparr>fp_pool := snd (fan_pool_insert (fj_slot e) (fj_tick e) (fd_id s)
      \<lparr>fw_tx = vx_tx v, fw_message_hash = m, fw_prepared_at = t, fw_pool_ready_at = t'\<rparr> (fp_pool st1))\<rparr>)"
    if "fd_enabled s" "build_variant (py_digest cfg) (py_authority cfg) (variant_of cfg nonce s tip) = Inr v" for v m t'
    using st1 assms(2) that by (auto simp: pipe_ok_def fan_pool_insert_def prepared_for_def)
  then show ?thesis using assms(1) st1
    by (auto simp: prepare_sender_def n Let_def split: sum.split intro: pipe_ok_frame)
qed

lemma pipe_ok_senders:
  "pipe_ok cfg st \<Longrightarrow> set ss \<subseteq> set (py_senders cfg) \<Longrightarrow> pipe_ok cfg (fold (prepare_sender cfg nonce e t clk) ss st)"
  by (induction ss arbitrary: st) (simp_all add: pipe_ok_sender)

lemma pipe_ok_prepare_next: "pipe_ok cfg st \<Longrightarrow> pipe_ok cfg (prepare_next cfg now t clk st)"
proof (cases "fp_pending st")
  case (Cons e rest)
  assume ok: "pipe_ok cfg st"
  obtain r nm where r: "take_ready now (fp_nonces st) = (r, nm)" by (cases "take_ready now (fp_nonces st)")
  show ?thesis
  proof (cases r)
    case None
    with Cons r ok show ?thesis by (auto simp: prepare_next_def intro: pipe_ok_frame)
  next
    case (Some nonce)
    have "pipe_ok cfg (st\<lparr>fp_nonces := nm, fp_pending := rest\<rparr>)" using ok by (auto intro: pipe_ok_frame)
    from pipe_ok_senders [OF this subset_refl]
    have "pipe_ok cfg (fold (prepare_sender cfg nonce e t clk) (py_senders cfg) (st\<lparr>fp_nonces := nm, fp_pending := rest\<rparr>))" .
    from pipe_ok_frame [OF this] have "pipe_ok cfg (prepared_send p (fold (prepare_sender cfg nonce e t clk) (py_senders cfg) (st\<lparr>fp_nonces := nm, fp_pending := rest\<rparr>)))" for p
      by (simp add: prepared_send_frame)
    then show ?thesis using Some Cons r by (simp add: prepare_next_def Let_def)
  qed
qed (simp add: prepare_next_def)

lemma pipe_ok_variant:
  assumes "pipe_ok cfg st" "prepared_for cfg i (fw_tx p)"
  shows "pipe_ok cfg (dispatch_variant cfg tg n k (ord, i, p) st)"
  using assms by (auto simp: dispatch_variant_def pipe_ok_def fan_registration_def Let_def split: option.split)

lemma pipe_ok_variants:
  "pipe_ok cfg st \<Longrightarrow> \<forall>x \<in> set xs. prepared_for cfg (fst (snd x)) (fw_tx (snd (snd x))) \<Longrightarrow>
   pipe_ok cfg (fold (dispatch_variant cfg tg n k) xs st)"
proof (induction xs arbitrary: st)
  case (Cons x xs)
  obtain ord i p where "x = (ord, i, p)" by (cases x)
  with Cons show ?case by (simp add: pipe_ok_variant)
qed simp

lemma take_all_for_member:
  assumes "hm_ok pool" "(i, p) \<in> set (fst (take_all_for s t pool))"
  shows "hm_get pool (s, t, i) = Some p"
proof -
  obtain k where "(k, p) \<in> set pool" "of_trigger s t k" "i = snd (snd k)" using assms(2) by (auto simp: take_all_for_def)
  then show ?thesis using hm_get_in_set [OF assms(1), of k p] by (cases k) (auto simp: of_trigger_def)
qed

lemma hm_get_retain_subset: "hm_ok m \<Longrightarrow> hm_get (hm_retain P m) k = Some v \<Longrightarrow> hm_get m k = Some v"
  by (auto simp: hm_get_retain split: option.splits if_splits)

lemma pipe_ok_dispatch:
  assumes ok: "pipe_ok cfg st"
    and shuffle: "\<And>s n i. i \<in> set (py_shuffle cfg s n) \<Longrightarrow> i < n"
  shows "pipe_ok cfg (fan_dispatch cfg tg st)"
proof -
  let ?vs = "fst (take_all_for (ft_slot tg) (ft_tick tg) (fp_pool st))"
  let ?st1 = "st\<lparr>fp_prepared := snd (find_prepared 10 (ft_slot tg) (ft_tick tg) (fp_prepared st)),
      fp_pool := snd (take_all_for (ft_slot tg) (ft_tick tg) (fp_pool st))\<rparr>"
  have hm: "hm_ok (fp_pool st)" using ok by (simp add: pipe_ok_def)
  have st1: "pipe_ok cfg ?st1"
    using ok hm_get_retain_subset [OF hm] hm by (auto simp: pipe_ok_def take_all_for_def)
  have vs: "prepared_for cfg (fst x) (fw_tx (snd x))" if "x \<in> set ?vs" for x
    using take_all_for_member [OF hm, of "fst x" "snd x"] that ok by (force simp: pipe_ok_def)
  have "prepared_for cfg (fst (snd x)) (fw_tx (snd (snd x)))"
    if x: "x \<in> set (map (\<lambda>(order, idx). (order, ?vs ! idx)) (enumerate 0 (py_shuffle cfg s (length ?vs))))" for x s
  proof -
    obtain order idx where "idx \<in> set (py_shuffle cfg s (length ?vs))" "x = (order, ?vs ! idx)"
      using x by (auto simp: in_set_enumerate_eq) (metis nth_mem)
    with shuffle vs show ?thesis by simp
  qed
  with st1 show ?thesis
    by (auto simp: fan_dispatch_def Let_def case_prod_beta intro!: pipe_ok_variants intro: pipe_ok_frame)
qed

lemma pipe_ok_run:
  assumes shuffle: "\<And>s n i. i \<in> set (py_shuffle cfg s n) \<Longrightarrow> i < n"
  shows "pipe_ok cfg st \<Longrightarrow> pipe_ok cfg (fold (pipe_step cfg) es st)"
proof (induction es arbitrary: st)
  case (Cons ev es)
  have "pipe_ok cfg (pipe_step cfg ev st)"
  proof (cases ev)
    case (PPrepare arrived recv now t clk)
    have "pipe_ok cfg (st\<lparr>fp_pending := es\<rparr>)" for es using Cons.prems by (auto intro: pipe_ok_frame)
    with PPrepare show ?thesis by (auto simp: fan_preparer_turn_def Let_def pipe_ok_prepare_next split: recv_result.split)
  next
    case (PTrigger tg)
    with Cons.prems shuffle show ?thesis by (simp add: pipe_ok_dispatch)
  next
    case (PipeNonces nm)
    with Cons.prems show ?thesis by (auto intro: pipe_ok_frame)
  qed
  with Cons.IH show ?case by simp
qed simp

text \<open>C22. What is sent: every spawned send has its own registration, with the signature of its transaction, which
  is up for matching; and the transaction is one the preparer built for that sender, so it starts by
  advancing a nonce and its memo names the sender it goes through.\<close>

theorem fan_sends_attributable:
  assumes "\<And>s n i. i \<in> set (py_shuffle cfg s n) \<Longrightarrow> i < n"
  shows "let st = pipe_run cfg es (pipe_new nm rotators) in
    map (\<lambda>r. (fe_trigger_id r, fe_sender_id r, fe_signature r)) (fp_registered st)
      = map (\<lambda>c. (fh_trigger_id c, fh_sender_id c, fx_signature (fh_tx c))) (fp_commands st)
    \<and> (\<forall>c \<in> set (fp_commands st). fx_signature (fh_tx c) \<in> fp_pending_sigs st
        \<and> sender_of_tx (fh_tx c) = Some (fh_sender_id c)
        \<and> (\<exists>pk. hd (fz_instructions (fx_message (fh_tx c))) = FAdvanceNonce pk (fy_pubkey (py_authority cfg))))"
proof -
  let ?st = "pipe_run cfg es (pipe_new nm rotators)"
  have "pipe_ok cfg (pipe_new nm rotators)" by (simp add: pipe_ok_def pipe_new_def)
  from pipe_ok_run [OF assms this] have ok: "pipe_ok cfg ?st" by (simp add: pipe_run_def)
  have "sender_of_tx tx = Some i \<and> (\<exists>pk. hd (fz_instructions (fx_message tx)) = FAdvanceNonce pk (fy_pubkey (py_authority cfg)))"
    if "prepared_for cfg i tx" for i tx
  proof -
    from that obtain s nonce tip v where "fd_id s = i" "vx_tx v = tx"
      "build_variant (py_digest cfg) (py_authority cfg) (variant_of cfg nonce s tip) = Inr v" by (auto simp: prepared_for_def)
    with variant_attributable [OF this(3)] show ?thesis by (auto simp: variant_of_def)
  qed
  with ok show ?thesis unfolding pipe_ok_def Let_def by blast
qed

definition demo_pipe_meta :: fan_sender_meta where
  "demo_pipe_meta = \<lparr>fq_name = ''s'', fq_endpoint_url = ''u'', fq_protocol = ''HTTP_JSONRPC'', fq_auth_tier = None,
     fq_tip_lamports = 1, fq_priority_fee_microlamports = 2, fq_compute_unit_limit = 3\<rparr>"

definition demo_fan_sender :: "u8 \<Rightarrow> fan_sender_config" where
  "demo_fan_sender i = \<lparr>fd_id = i, fd_name = ''s'', fd_kind = FkMock, fd_endpoint_url = ''u'', fd_region = '''', fd_auth = AuthNone,
     fd_tip_lamports = 1, fd_enabled = True\<rparr>"

definition demo_pipe_cfg :: pipe_cfg where
  "demo_pipe_cfg = \<lparr>py_senders = [demo_fan_sender 1, demo_fan_sender 2], py_sender_ids = {1, 2},
     py_sender_meta = (\<lambda>i. Some demo_pipe_meta), py_authority = sample_fan_keypair, py_priority_fee = 1, py_compute_unit_limit = 2,
     py_digest = (\<lambda>m. []), py_sha256 = (\<lambda>b. b), py_schedule_seed = 0, py_shuffle = (\<lambda>s n. rev [0..<n])\<rparr>"

theorem fan_sends_attributable_witness:
  "let st = pipe_run demo_pipe_cfg [PPrepare [\<lparr>fj_slot = 100, fj_tick = 3\<rparr>] RecvTimeout 0 0 (\<lambda>i. 0),
      PTrigger \<lparr>ft_slot = 100, ft_tick = 3, ft_cumulative_hashes_in_slot = 0, ft_observed_at = 5\<rparr>]
      (pipe_new (nonce_manager_new [(4, 7, 9)]) []) in
    \<forall>c \<in> set (fp_commands st). fx_signature (fh_tx c) \<in> fp_pending_sigs st \<and> sender_of_tx (fh_tx c) = Some (fh_sender_id c)"
proof -
  have perm: "\<And>s n i. i \<in> set (py_shuffle demo_pipe_cfg s n) \<Longrightarrow> i < n" by (simp add: demo_pipe_cfg_def)
  from fan_sends_attributable [where cfg = demo_pipe_cfg and es = "[PPrepare [\<lparr>fj_slot = 100, fj_tick = 3\<rparr>] RecvTimeout 0 0 (\<lambda>i. 0),
      PTrigger \<lparr>ft_slot = 100, ft_tick = 3, ft_cumulative_hashes_in_slot = 0, ft_observed_at = 5\<rparr>]"
      and nm = "nonce_manager_new [(4, 7, 9)]" and rotators = "[]", OF perm]
  show ?thesis by (simp add: Let_def)
qed

section \<open>A trigger sends each of its variants once\<close>

lemma fan_registration_fields [simp]:
  "fe_nonce_account_id (fan_registration tg i k ord s m p) = i" "fe_trigger_id (fan_registration tg i k ord s m p) = k"
  by (simp_all add: fan_registration_def)

lemma dispatch_variants_effect:
  assumes "\<forall>x \<in> set xs. fst (snd x) \<in> py_sender_ids cfg \<and> py_sender_meta cfg (fst (snd x)) \<noteq> None"
  shows "fp_commands (fold (dispatch_variant cfg tg i k) xs st) = fp_commands st
      @ map (\<lambda>x. \<lparr>fh_tx = fw_tx (snd (snd x)), fh_trigger_id = k, fh_sender_id = fst (snd x)\<rparr>) xs"
  using assms
proof (induction xs arbitrary: st)
  case (Cons x xs)
  obtain ord s p where "x = (ord, s, p)" by (cases x)
  with Cons show ?case by (auto simp: dispatch_variant_def)
qed simp

lemma map_shuffle:
  assumes "mset is = mset [0..<length vs]"
  shows "mset (map (\<lambda>x. f (snd x)) (map (\<lambda>(order, idx). (order, vs ! idx)) (enumerate n is))) = mset (map f vs)"
proof -
  have "map (\<lambda>x. f (snd x)) (map (\<lambda>(order, idx). (order, vs ! idx)) (enumerate n is)) = map ((\<lambda>i. f (vs ! i)) \<circ> snd) (enumerate n is)"
    by (simp add: case_prod_beta comp_def)
  also have "\<dots> = map (\<lambda>i. f (vs ! i)) is" by (simp only: map_map [symmetric] map_snd_enumerate)
  finally have "mset (map (\<lambda>x. f (snd x)) (map (\<lambda>(order, idx). (order, vs ! idx)) (enumerate n is))) = image_mset (\<lambda>i. f (vs ! i)) (mset is)"
    by simp
  also have "\<dots> = mset (map (\<lambda>i. f (vs ! i)) [0..<length vs])" unfolding assms by (rule mset_map [symmetric])
  also have "map (\<lambda>i. f (vs ! i)) [0..<length vs] = map f (map ((!) vs) [0..<length vs])" by (simp only: map_map comp_def)
  also have "\<dots> = map f vs" by (simp only: map_nth)
  finally show ?thesis .
qed

text \<open>A trigger sends every variant pooled for its slot and tick exactly once, in the shuffled order, and the
  pool keeps none of them; a second trigger for the same tick finds the pool empty.\<close>

theorem fan_dispatch_sends_all:
  assumes shuffle: "mset (py_shuffle cfg (fan_perm_seed (py_schedule_seed cfg) tg) (length vs)) = mset [0..<length vs]"
    and vs: "vs = fst (take_all_for (ft_slot tg) (ft_tick tg) (fp_pool st))"
    and known: "\<forall>x \<in> set vs. fst x \<in> py_sender_ids cfg \<and> py_sender_meta cfg (fst x) \<noteq> None"
  shows "\<exists>cs. fp_commands (fan_dispatch cfg tg st) = fp_commands st @ cs
      \<and> mset (map (\<lambda>c. (fh_sender_id c, fh_tx c)) cs) = mset (map (\<lambda>x. (fst x, fw_tx (snd x))) vs)
      \<and> fst (take_all_for (ft_slot tg) (ft_tick tg) (fp_pool (fan_dispatch cfg tg st))) = []"
proof -
  let ?is = "py_shuffle cfg (fan_perm_seed (py_schedule_seed cfg) tg) (length vs)"
  let ?xs = "map (\<lambda>(order, idx). (order, vs ! idx)) (enumerate 0 ?is)"
  define nid where "nid = (case fst (find_prepared 10 (ft_slot tg) (ft_tick tg) (fp_prepared st)) of Some p \<Rightarrow> fb_nonce_account_id p | None \<Rightarrow> 0)"
  define k where "k = trigger_id_new (py_sha256 cfg) (ft_slot tg) (ft_tick tg) nid"
  define st1 where "st1 = st\<lparr>fp_prepared := snd (find_prepared 10 (ft_slot tg) (ft_tick tg) (fp_prepared st)),
      fp_pool := snd (take_all_for (ft_slot tg) (ft_tick tg) (fp_pool st))\<rparr>"
  have d: "fan_dispatch cfg tg st = (if vs = [] then st1\<lparr>fp_pool_empty := fp_pool_empty st1 + 1\<rparr> else fold (dispatch_variant cfg tg nid k) ?xs st1)"
    unfolding fan_dispatch_def Let_def case_prod_beta st1_def nid_def k_def vs by simp
  have gone: "fst (take_all_for (ft_slot tg) (ft_tick tg) (fp_pool (fan_dispatch cfg tg st))) = []"
    unfolding d by (auto simp: frame st1_def take_all_for_def hm_retain_def filter_empty_conv)
  show ?thesis
  proof (cases "vs = []")
    case True
    with gone show ?thesis by (intro exI [of _ "[]"]) (simp add: d st1_def)
  next
    case False
    have "set ?is = {0..<length vs}" using shuffle by (metis set_mset_mset set_upt)
    then have lt: "idx < length vs" if "(n, idx) \<in> set (enumerate 0 ?is)" for n idx
      using that by (auto simp: in_set_enumerate_eq)
    have "fst (snd x) \<in> py_sender_ids cfg \<and> py_sender_meta cfg (fst (snd x)) \<noteq> None" if x: "x \<in> set ?xs" for x
    proof -
      obtain n idx where idx: "(n, idx) \<in> set (enumerate 0 ?is)" "x = (n, vs ! idx)" using x by auto
      from lt [OF idx(1)] have "vs ! idx \<in> set vs" by simp
      with known idx(2) show ?thesis by simp
    qed
    then have "\<forall>x \<in> set ?xs. fst (snd x) \<in> py_sender_ids cfg \<and> py_sender_meta cfg (fst (snd x)) \<noteq> None" by blast
    note e = dispatch_variants_effect [OF this, of tg nid k st1]
    define cs where "cs = map (\<lambda>x. \<lparr>fh_tx = fw_tx (snd (snd x)), fh_trigger_id = k, fh_sender_id = fst (snd x)\<rparr>) ?xs"
    have "map (\<lambda>c. (fh_sender_id c, fh_tx c)) cs = map (\<lambda>x. (\<lambda>x. (fst x, fw_tx (snd x))) (snd x)) ?xs" by (simp add: cs_def)
    with map_shuffle [OF shuffle, of "\<lambda>x. (fst x, fw_tx (snd x))" 0]
    have "mset (map (\<lambda>c. (fh_sender_id c, fh_tx c)) cs) = mset (map (\<lambda>x. (fst x, fw_tx (snd x))) vs)" by simp
    moreover have "fp_commands (fan_dispatch cfg tg st) = fp_commands st @ cs"
      using e False unfolding d cs_def by (simp add: st1_def)
    ultimately show ?thesis using gone by blast
  qed
qed

theorem fan_dispatch_sends_all_witness:
  "let st = pipe_run demo_pipe_cfg [PPrepare [\<lparr>fj_slot = 100, fj_tick = 3\<rparr>] RecvTimeout 0 0 (\<lambda>i. 0)]
        (pipe_new (nonce_manager_new [(4, 7, 9)]) []);
       st' = fan_dispatch demo_pipe_cfg \<lparr>ft_slot = 100, ft_tick = 3, ft_cumulative_hashes_in_slot = 0, ft_observed_at = 5\<rparr> st in
    length (fp_commands st') = 2"
proof -
  let ?tg = "\<lparr>ft_slot = 100, ft_tick = 3, ft_cumulative_hashes_in_slot = 0, ft_observed_at = 5\<rparr>"
  define st where "st = pipe_run demo_pipe_cfg [PPrepare [\<lparr>fj_slot = 100, fj_tick = 3\<rparr>] RecvTimeout 0 0 (\<lambda>i. 0)]
        (pipe_new (nonce_manager_new [(4, 7, 9)]) [])"
  obtain nm where take: "take_ready 0 (nonce_manager_new [(4, 7, 9)]) = (Some (4, 7, 9), nm)"
    by (simp add: take_ready_def take_index_def find_ready_def nonce_manager_new_def state_at_def Let_def split: if_splits)
  have st: "fp_commands st = []" "map fst (fst (take_all_for 100 3 (fp_pool st))) = [1, 2]"
    by (simp_all add: st_def pipe_run_def fan_preparer_turn_def pipe_new_def prepare_next_def take demo_pipe_cfg_def demo_fan_sender_def
        prepare_sender_def next_tip_def needs_tip_def build_variant_def variant_of_def memo_encode_def MAX_SENDER_ID_def MEMO_BASE_def
        fan_pool_insert_def hm_insert_def prepared_send_def take_all_for_def of_trigger_def Let_def case_prod_beta)
  define vs where "vs = fst (take_all_for (ft_slot ?tg) (ft_tick ?tg) (fp_pool st))"
  have "mset (py_shuffle demo_pipe_cfg (fan_perm_seed (py_schedule_seed demo_pipe_cfg) ?tg) (length vs)) = mset [0..<length vs]"
    by (simp add: demo_pipe_cfg_def)
  moreover have "\<forall>x \<in> set vs. fst x \<in> py_sender_ids demo_pipe_cfg \<and> py_sender_meta demo_pipe_cfg (fst x) \<noteq> None"
    using st(2) by (auto simp: vs_def demo_pipe_cfg_def dest: arg_cong [where f = set])
  ultimately obtain cs where "fp_commands (fan_dispatch demo_pipe_cfg ?tg st) = fp_commands st @ cs"
    "mset (map (\<lambda>c. (fh_sender_id c, fh_tx c)) cs) = mset (map (\<lambda>x. (fst x, fw_tx (snd x))) vs)"
    using fan_dispatch_sends_all [OF _ vs_def] by blast
  moreover from arg_cong [OF this(2), of size] have "length cs = length vs" by simp
  moreover have "length (map fst vs) = 2" using st(2) by (simp add: vs_def)
  ultimately show ?thesis unfolding st_def [symmetric] Let_def using st(1) by simp
qed

section \<open>The number of the nonce\<close>

definition unread :: "'a chan \<Rightarrow> 'a list" where
  "unread c = drop (ch_taken c) (ch_sent c)"

lemma ch_recv_unread: "ch_recv c = (r, c') \<Longrightarrow>
    (case unread c of [] \<Rightarrow> r = None \<and> unread c' = [] | x # xs \<Rightarrow> r = Some x \<and> unread c' = xs)"
  by (auto simp: ch_recv_def unread_def Cons_nth_drop_Suc [symmetric] split: if_splits list.split)

definition for_trigger :: "fan_trigger_event \<Rightarrow> prepared_trigger \<Rightarrow> bool" where
  "for_trigger tg p \<longleftrightarrow> fb_slot p = ft_slot tg \<and> fb_tick p = ft_tick tg"

lemma find_prepared_hit:
  "unread c = ps @ p # qs \<Longrightarrow> length ps < n \<Longrightarrow> \<forall>q \<in> set ps. \<not> for_trigger tg q \<Longrightarrow> for_trigger tg p \<Longrightarrow>
   fst (find_prepared n (ft_slot tg) (ft_tick tg) c) = Some p \<and> unread (snd (find_prepared n (ft_slot tg) (ft_tick tg) c)) = qs"
proof (induction n arbitrary: c ps)
  case (Suc n)
  obtain r c' where r: "ch_recv c = (r, c')" by (cases "ch_recv c")
  show ?case
  proof (cases ps)
    case Nil
    with Suc.prems ch_recv_unread [OF r] r show ?thesis by (simp add: for_trigger_def)
  next
    case (Cons q ps')
    with Suc.prems ch_recv_unread [OF r] have "r = Some q" "unread c' = ps' @ p # qs" by simp_all
    with Cons Suc.prems Suc.IH [of c' ps'] r show ?thesis by (auto simp: for_trigger_def)
  qed
qed simp

lemma find_prepared_miss:
  "\<forall>q \<in> set (unread c). \<not> for_trigger tg q \<Longrightarrow> fst (find_prepared n (ft_slot tg) (ft_tick tg) c) = None"
proof (induction n arbitrary: c)
  case (Suc n)
  obtain r c' where r: "ch_recv c = (r, c')" by (cases "ch_recv c")
  show ?case
  proof (cases "unread c")
    case Nil
    with ch_recv_unread [OF r] r show ?thesis by simp
  next
    case (Cons q qs)
    with Suc ch_recv_unread [OF r] r show ?thesis by (auto simp: for_trigger_def)
  qed
qed simp

definition nonce_id_for :: "fan_trigger_event \<Rightarrow> fan_pipe \<Rightarrow> u16" where
  "nonce_id_for tg st = (case fst (find_prepared 10 (ft_slot tg) (ft_tick tg) (fp_prepared st)) of
     Some p \<Rightarrow> fb_nonce_account_id p | None \<Rightarrow> 0)"

lemma dispatch_variants_registered:
  "\<exists>rs. fp_registered (fold (dispatch_variant cfg tg i k) xs st) = fp_registered st @ rs
      \<and> (\<forall>r \<in> set rs. fe_nonce_account_id r = i \<and> fe_trigger_id r = k)"
proof (induction xs arbitrary: st)
  case (Cons x xs)
  obtain ord s p where x: "x = (ord, s, p)" by (cases x)
  have "\<exists>rs. fp_registered (dispatch_variant cfg tg i k x st) = fp_registered st @ rs
      \<and> (\<forall>r \<in> set rs. fe_nonce_account_id r = i \<and> fe_trigger_id r = k)"
    by (cases "py_sender_meta cfg s") (auto simp: x dispatch_variant_def)
  with Cons.IH [of "dispatch_variant cfg tg i k x st"] show ?case by fastforce
qed simp

lemma dispatch_registers:
  "\<exists>rs. fp_registered (fan_dispatch cfg tg st) = fp_registered st @ rs
    \<and> (\<forall>r \<in> set rs. fe_nonce_account_id r = nonce_id_for tg st
        \<and> fe_trigger_id r = trigger_id_new (py_sha256 cfg) (ft_slot tg) (ft_tick tg) (nonce_id_for tg st))"
proof (cases "fst (take_all_for (ft_slot tg) (ft_tick tg) (fp_pool st)) = []")
  case True
  then show ?thesis by (intro exI [of _ "[]"]) (simp add: fan_dispatch_def Let_def case_prod_beta)
next
  case False
  define st1 where "st1 = st\<lparr>fp_prepared := snd (find_prepared 10 (ft_slot tg) (ft_tick tg) (fp_prepared st)),
      fp_pool := snd (take_all_for (ft_slot tg) (ft_tick tg) (fp_pool st))\<rparr>"
  from dispatch_variants_registered [where st = st1] False show ?thesis
    by (simp add: fan_dispatch_def Let_def case_prod_beta nonce_id_for_def [symmetric] st1_def)
qed

lemma dispatch_queue: "fp_prepared (fan_dispatch cfg tg st) = snd (find_prepared 10 (ft_slot tg) (ft_tick tg) (fp_prepared st))"
  by (simp add: fan_dispatch_def Let_def case_prod_beta frame)

text \<open>C23. Which nonce a trigger is registered under.  A trigger whose announcement is among the next ten of the
  queue gets the number of the nonce its transactions are signed on; but the search throws the
  announcements before it away, so a trigger that fires after a later one, when their order in the queue is
  the other way round, finds nothing and is registered under account number 0 whatever nonce it was signed
  on.\<close>

theorem overtaken_trigger_gets_nonce_zero:
  assumes "unread (fp_prepared st) = ps @ p # qs" "length ps < 10"
    and "for_trigger tg p" "\<forall>q \<in> set ps. \<not> for_trigger tg q"
    and "\<forall>q \<in> set qs. \<not> for_trigger tg' q"
  shows "let st1 = fan_dispatch cfg tg st; st2 = fan_dispatch cfg tg' st1 in
    \<exists>rs rs'. fp_registered st1 = fp_registered st @ rs \<and> fp_registered st2 = fp_registered st1 @ rs'
      \<and> (\<forall>r \<in> set rs. fe_nonce_account_id r = fb_nonce_account_id p)
      \<and> (\<forall>r \<in> set rs'. fe_nonce_account_id r = 0
          \<and> fe_trigger_id r = trigger_id_new (py_sha256 cfg) (ft_slot tg') (ft_tick tg') 0)"
proof -
  note hit = find_prepared_hit [OF assms(1,2,4,3)]
  have "nonce_id_for tg st = fb_nonce_account_id p" using hit by (simp add: nonce_id_for_def)
  moreover have "unread (fp_prepared (fan_dispatch cfg tg st)) = qs" using hit by (simp add: dispatch_queue)
  then have "nonce_id_for tg' (fan_dispatch cfg tg st) = 0"
    using find_prepared_miss [of "fp_prepared (fan_dispatch cfg tg st)" tg' 10] assms(5) by (simp add: nonce_id_for_def)
  ultimately show ?thesis using dispatch_registers [of cfg tg st] dispatch_registers [of cfg tg' "fan_dispatch cfg tg st"]
    unfolding Let_def by metis
qed

theorem overtaken_trigger_gets_nonce_zero_witness:
  "let st = (pipe_new (nonce_manager_new []) [])\<lparr>fp_prepared := \<lparr>ch_offered = [], ch_sent = [\<lparr>fb_slot = 100, fb_tick = 64, fb_nonce_account_id = 4\<rparr>,
        \<lparr>fb_slot = 101, fb_tick = 1, fb_nonce_account_id = 5\<rparr>], ch_taken = 0, ch_cap = None, ch_open = True\<rparr>,
        fp_pool := [((100, 64, 1), \<lparr>fw_tx = \<lparr>fx_message = \<lparr>fz_payer = 1, fz_instructions = [], fz_recent_blockhash = 2\<rparr>, fx_signature = 3\<rparr>,
          fw_message_hash = [], fw_prepared_at = 0, fw_pool_ready_at = 0\<rparr>)]\<rparr>;
       st1 = fan_dispatch demo_pipe_cfg \<lparr>ft_slot = 101, ft_tick = 1, ft_cumulative_hashes_in_slot = 0, ft_observed_at = 5\<rparr> st;
       st2 = fan_dispatch demo_pipe_cfg \<lparr>ft_slot = 100, ft_tick = 64, ft_cumulative_hashes_in_slot = 0, ft_observed_at = 5\<rparr> st1 in
    \<exists>rs'. fp_registered st2 = fp_registered st1 @ rs' \<and> (\<forall>r \<in> set rs'. fe_nonce_account_id r = 0)"
proof -
  define st where "st = (pipe_new (nonce_manager_new []) [])\<lparr>fp_prepared := \<lparr>ch_offered = [], ch_sent = [\<lparr>fb_slot = 100, fb_tick = 64, fb_nonce_account_id = 4\<rparr>,
        \<lparr>fb_slot = 101, fb_tick = 1, fb_nonce_account_id = 5\<rparr>], ch_taken = 0, ch_cap = None, ch_open = True\<rparr>,
        fp_pool := [((100, 64, 1), \<lparr>fw_tx = \<lparr>fx_message = \<lparr>fz_payer = 1, fz_instructions = [], fz_recent_blockhash = 2\<rparr>, fx_signature = 3\<rparr>,
          fw_message_hash = [], fw_prepared_at = 0, fw_pool_ready_at = 0\<rparr>)]\<rparr>"
  let ?tg = "\<lparr>ft_slot = 101, ft_tick = 1, ft_cumulative_hashes_in_slot = 0, ft_observed_at = 5\<rparr>"
  let ?tg' = "\<lparr>ft_slot = 100, ft_tick = 64, ft_cumulative_hashes_in_slot = 0, ft_observed_at = 5\<rparr>"
  have "unread (fp_prepared st) = [\<lparr>fb_slot = 100, fb_tick = 64, fb_nonce_account_id = 4\<rparr>] @ \<lparr>fb_slot = 101, fb_tick = 1, fb_nonce_account_id = 5\<rparr> # []"
    "length [\<lparr>fb_slot = 100, fb_tick = 64, fb_nonce_account_id = 4\<rparr>] < 10"
    "for_trigger ?tg \<lparr>fb_slot = 101, fb_tick = 1, fb_nonce_account_id = 5\<rparr>"
    "\<forall>q \<in> set [\<lparr>fb_slot = 100, fb_tick = 64, fb_nonce_account_id = 4\<rparr>]. \<not> for_trigger ?tg q" "\<forall>q \<in> set []. \<not> for_trigger ?tg' q"
    by (simp_all add: st_def unread_def for_trigger_def)
  from overtaken_trigger_gets_nonce_zero [OF this, of demo_pipe_cfg] show ?thesis
    unfolding st_def [symmetric] Let_def by blast
qed

end
