(* ===== verification/FanSchedule.thy ===== *)
theory FanSchedule
  imports FanPipeline
begin

text \<open>
  The schedule of the earlier bench (\<open>crates/fan-out-bench/src/\<close>): the generator (\<open>schedule.rs\<close>, one random tick
  per slot; the seeded generator is a parameter that gives the i-th draw of a seed), the pump that stays a
  fixed number of slots ahead of the chain (\<open>schedule_pump.rs\<close>), the bridge that hands the entries to the
  preparer and the observer (\<open>runtime.rs\<close>), and the budget watcher (\<open>budget_watcher.rs\<close>).
\<close>

section \<open>The generator\<close>

record fan_schedule =
  fl_seed :: u64
  fl_start_slot :: u64
  fl_chunk_size_slots :: u64
  fl_current_chunk_index :: u64

text \<open>Without a configured seed: the nanoseconds since the epoch, or a constant before it.\<close>

definition fan_schedule_new :: "u64 option \<Rightarrow> nat option \<Rightarrow> u64 \<Rightarrow> u64 \<Rightarrow> fan_schedule" where
  "fan_schedule_new seed since_epoch_ns start_slot chunk_size_slots =
     \<lparr>fl_seed = (case seed of Some s \<Rightarrow> s | None \<Rightarrow> (case since_epoch_ns of Some d \<Rightarrow> trunc_u64 d | None \<Rightarrow> 0xDEADBEEFDEADBEEF)),
      fl_start_slot = start_slot, fl_chunk_size_slots = chunk_size_slots, fl_current_chunk_index = 0\<rparr>"

definition chunk_start_slot :: "fan_schedule \<Rightarrow> u64 \<Rightarrow> u64" where
  "chunk_start_slot s chunk_index = fl_start_slot s + chunk_index * fl_chunk_size_slots s"

definition generate_chunk_at :: "(u64 \<Rightarrow> nat \<Rightarrow> u8) \<Rightarrow> fan_schedule \<Rightarrow> u64 \<Rightarrow> fan_entry list" where
  "generate_chunk_at draw s chunk_index =
     (let chunk_seed = fl_seed s + chunk_index * 0x9E3779B97F4A7C15;
          chunk_start = fl_start_slot s + chunk_index * fl_chunk_size_slots s
      in map (\<lambda>i. \<lparr>fj_slot = chunk_start + of_nat i, fj_tick = draw chunk_seed i\<rparr>) [0..<unat (fl_chunk_size_slots s)])"

definition generate_chunk :: "(u64 \<Rightarrow> nat \<Rightarrow> u8) \<Rightarrow> fan_schedule \<Rightarrow> fan_entry list \<times> fan_schedule" where
  "generate_chunk draw s = (generate_chunk_at draw s (fl_current_chunk_index s),
     s\<lparr>fl_current_chunk_index := fl_current_chunk_index s + 1\<rparr>)"

section \<open>The pump\<close>

record fan_pump =
  fu_schedule :: fan_schedule
  fu_buffered :: "fan_entry list"
  fu_sent :: "fan_entry list"

definition fan_pump_new :: "fan_schedule \<Rightarrow> fan_pump" where
  "fan_pump_new s = \<lparr>fu_schedule = s, fu_buffered = [], fu_sent = []\<rparr>"

fun pump_send :: "u64 \<Rightarrow> u64 \<Rightarrow> fan_entry list \<Rightarrow> fan_entry list \<times> fan_entry list" where
  "pump_send current lead_cutoff [] = ([], [])"
| "pump_send current lead_cutoff (entry # rest) =
     (if fj_slot entry > lead_cutoff \<and> current > 0 then ([], entry # rest)
      else (let (out, left) = pump_send current lead_cutoff rest in (entry # out, left)))"

text \<open>One turn with the observer at slot \<open>current\<close>; the queue to the bridge is unbounded.\<close>

definition fan_pump_turn :: "(u64 \<Rightarrow> nat \<Rightarrow> u8) \<Rightarrow> u64 \<Rightarrow> u64 \<Rightarrow> fan_pump \<Rightarrow> fan_pump" where
  "fan_pump_turn draw lead_slots current pu =
     (let pu1 = (if fu_buffered pu = []
           then (let (chunk, s) = generate_chunk draw (fu_schedule pu) in pu\<lparr>fu_schedule := s, fu_buffered := chunk\<rparr>)
           else pu);
          (out, left) = pump_send current (current + lead_slots) (fu_buffered pu1)
      in pu1\<lparr>fu_buffered := left, fu_sent := fu_sent pu1 @ out\<rparr>)"

definition fan_pump_run :: "(u64 \<Rightarrow> nat \<Rightarrow> u8) \<Rightarrow> u64 \<Rightarrow> u64 list \<Rightarrow> fan_pump \<Rightarrow> fan_pump" where
  "fan_pump_run draw lead_slots currents pu = fold (fan_pump_turn draw lead_slots) currents pu"

lemma pump_send_append: "pump_send c l xs = (out, left) \<Longrightarrow> out @ left = xs"
  by (induction xs arbitrary: out left) (auto split: if_splits prod.splits)

lemma pump_send_bound: "pump_send c l xs = (out, left) \<Longrightarrow> c > 0 \<Longrightarrow> e \<in> set out \<Longrightarrow> fj_slot e \<le> l"
  by (induction xs arbitrary: out left) (auto split: if_splits prod.splits)

text \<open>The entries of a schedule in order, chunk after chunk.\<close>

definition nth_entry :: "(u64 \<Rightarrow> nat \<Rightarrow> u8) \<Rightarrow> fan_schedule \<Rightarrow> nat \<Rightarrow> fan_entry" where
  "nth_entry draw s i = (let n = unat (fl_chunk_size_slots s); c = of_nat (i div n) in
     \<lparr>fj_slot = fl_start_slot s + of_nat i, fj_tick = draw (fl_seed s + c * 0x9E3779B97F4A7C15) (i mod n)\<rparr>)"

lemma chunk_entries:
  assumes "unat (fl_chunk_size_slots s) = n" "n > 0"
  shows "generate_chunk_at draw s (of_nat k) = map (nth_entry draw s) [n * k..<n * Suc k]"
proof (rule nth_equalityI)
  show "length (generate_chunk_at draw s (of_nat k)) = length (map (nth_entry draw s) [n * k..<n * Suc k])"
    using assms by (simp add: generate_chunk_at_def Let_def)
  fix i assume "i < length (generate_chunk_at draw s (of_nat k))"
  then have i: "i < n" using assms by (simp add: generate_chunk_at_def Let_def)
  have size: "fl_chunk_size_slots s = of_nat n" by (simp add: assms(1) [symmetric])
  have div: "(n * k + i) div n = k" "(n * k + i) mod n = i" using i by simp_all
  have slot: "fl_start_slot s + of_nat k * fl_chunk_size_slots s + of_nat i = fl_start_slot s + of_nat (n * k + i)"
    unfolding size by (simp add: algebra_simps)
  show "generate_chunk_at draw s (of_nat k) ! i = map (nth_entry draw s) [n * k..<n * Suc k] ! i"
    using i assms div slot by (simp add: generate_chunk_at_def nth_entry_def Let_def)
qed

text \<open>C24. The pump never skips, repeats or reorders a slot: whatever the observer reports, the entries it has
  sent are the first of the schedule, one per slot from the start slot on; and a turn sends nothing beyond
  the lead once the observer has seen a slot.\<close>

theorem pump_walks_schedule:
  assumes "fl_chunk_size_slots s > 0" "fl_current_chunk_index s = 0"
  shows "fu_sent (fan_pump_run draw lead currents (fan_pump_new s)) =
      map (nth_entry draw s) [0..<length (fu_sent (fan_pump_run draw lead currents (fan_pump_new s)))]
    \<and> (\<forall>current > 0. \<forall>e \<in> set (drop (length (fu_sent (fan_pump_run draw lead currents (fan_pump_new s))))
          (fu_sent (fan_pump_turn draw lead current (fan_pump_run draw lead currents (fan_pump_new s))))). fj_slot e \<le> current + lead)"
proof -
  define n where "n = unat (fl_chunk_size_slots s)"
  have n: "n > 0" using assms(1) by (simp add: n_def unat_gt_0 word_gt_0)
  define ok where "ok = (\<lambda>pu :: fan_pump. \<exists>k. fu_schedule pu = s\<lparr>fl_current_chunk_index := of_nat k\<rparr>
      \<and> fu_sent pu @ fu_buffered pu = map (nth_entry draw s) [0..<n * k])"
  have turn: "ok (fan_pump_turn draw lead current pu)" if p: "ok pu" for current and pu :: fan_pump
  proof -
    obtain k where k: "fu_schedule pu = s\<lparr>fl_current_chunk_index := of_nat k\<rparr>" "fu_sent pu @ fu_buffered pu = map (nth_entry draw s) [0..<n * k]"
      using p by (auto simp: ok_def)
    define pu1 where "pu1 = (if fu_buffered pu = []
           then (let (chunk, s) = generate_chunk draw (fu_schedule pu) in pu\<lparr>fu_schedule := s, fu_buffered := chunk\<rparr>) else pu)"
    have "ok pu1"
    proof (cases "fu_buffered pu = []")
      case True
      have g: "generate_chunk_at draw (s\<lparr>fl_current_chunk_index := of_nat k\<rparr>) (of_nat k) = generate_chunk_at draw s (of_nat k)"
        by (simp add: generate_chunk_at_def)
      have "[0..<n * Suc k] = [0..<n * k] @ [n * k..<n * Suc k]" by (metis upt_add_eq_append le0 mult_Suc_right add.commute)
      then have "fu_sent pu @ generate_chunk_at draw s (of_nat k) = map (nth_entry draw s) [0..<n * Suc k]"
        using k(2) True unfolding chunk_entries [OF n_def [symmetric] n] by simp
      with True k(1) g show ?thesis unfolding ok_def pu1_def
        by (intro exI [of _ "Suc k"]) (simp add: generate_chunk_def add.commute)
    next
      case False
      with p show ?thesis by (simp add: pu1_def)
    qed
    moreover obtain out left where ol: "pump_send current (current + lead) (fu_buffered pu1) = (out, left)" by (metis surj_pair)
    moreover have "fan_pump_turn draw lead current pu = pu1\<lparr>fu_buffered := left, fu_sent := fu_sent pu1 @ out\<rparr>"
      using ol by (simp add: fan_pump_turn_def pu1_def [symmetric] Let_def)
    ultimately show ?thesis using pump_send_append [OF ol] by (auto simp: ok_def)
  qed
  have "ok (fan_pump_new s)" unfolding ok_def by (intro exI [of _ 0]) (simp add: fan_pump_new_def assms(2) [symmetric])
  then have run: "ok (fold (fan_pump_turn draw lead) currents (fan_pump_new s))"
  proof (induction currents rule: rev_induct)
    case (snoc c cs)
    then show ?case using turn by simp
  qed simp
  have prefix: "fu_sent pu = map (nth_entry draw s) [0..<length (fu_sent pu)]" if p: "ok pu" for pu :: fan_pump
  proof -
    obtain k where "fu_sent pu @ fu_buffered pu = map (nth_entry draw s) [0..<n * k]" using p by (auto simp: ok_def)
    from arg_cong [OF this, of "take (length (fu_sent pu))"] arg_cong [OF this, of length] show ?thesis
      by (simp add: take_map)
  qed
  have "fj_slot e \<le> current + lead"
    if "e \<in> set (drop (length (fu_sent pu)) (fu_sent (fan_pump_turn draw lead current pu)))" "current > 0" for current e and pu :: fan_pump
  proof -
    define pu1 where "pu1 = (if fu_buffered pu = []
           then (let (chunk, s) = generate_chunk draw (fu_schedule pu) in pu\<lparr>fu_schedule := s, fu_buffered := chunk\<rparr>) else pu)"
    obtain out left where ol: "pump_send current (current + lead) (fu_buffered pu1) = (out, left)" by (metis surj_pair)
    have "fu_sent (fan_pump_turn draw lead current pu) = fu_sent pu @ out"
      using ol by (simp add: fan_pump_turn_def pu1_def [symmetric] Let_def) (simp add: pu1_def generate_chunk_def)
    with that pump_send_bound [OF ol] show ?thesis by simp
  qed
  with prefix [OF run] show ?thesis by (simp add: fan_pump_run_def)
qed

theorem pump_walks_schedule_witness:
  "fu_sent (fan_pump_run (\<lambda>s i. 7) 1 [0, 3] (fan_pump_new (fan_schedule_new (Some 1) None 3 2))) =
     [\<lparr>fj_slot = 3, fj_tick = 7\<rparr>, \<lparr>fj_slot = 4, fj_tick = 7\<rparr>]"
proof -
  let ?s = "fan_schedule_new (Some 1) None 3 2"
  have s: "fl_chunk_size_slots ?s > 0" "fl_current_chunk_index ?s = 0" by (simp_all add: fan_schedule_new_def)
  have l: "length (fu_sent (fan_pump_run (\<lambda>s i. 7) 1 [0, 3] (fan_pump_new ?s))) = 2"
    by (simp add: fan_pump_run_def fan_pump_new_def fan_schedule_new_def fan_pump_turn_def generate_chunk_def generate_chunk_at_def Let_def upt_rec)
  from conjunct1 [OF pump_walks_schedule [OF s, of "\<lambda>s i. 7" 1 "[0, 3]"], unfolded l] show ?thesis
    by (simp add: nth_entry_def fan_schedule_new_def Let_def upt_rec)
qed

section \<open>The bridge\<close>

record bridge =
  fi_accumulated :: "(u64 \<times> u8) set"
  fi_last_swap :: instant
  fi_forwarded :: "fan_entry list"
  fi_observer_schedule :: "(u64 \<times> u8) set"

definition bridge_new :: "instant \<Rightarrow> bridge" where
  "bridge_new now = \<lparr>fi_accumulated = {}, fi_last_swap = now, fi_forwarded = [], fi_observer_schedule = {}\<rparr>"

definition bridge_swap :: "instant \<Rightarrow> bridge \<Rightarrow> bridge" where
  "bridge_swap now b = b\<lparr>fi_observer_schedule := fi_accumulated b, fi_last_swap := now\<rparr>"

text \<open>One receive of the bridge; \<open>now\<close> is its clock for the age of the last swap.\<close>

definition bridge_recv :: "fan_entry recv_result \<Rightarrow> instant \<Rightarrow> bridge \<Rightarrow> bridge" where
  "bridge_recv r now b = (case r of
     Received entry \<Rightarrow>
       (let b1 = b\<lparr>fi_accumulated := insert (fj_slot entry, fj_tick entry) (fi_accumulated b),
              fi_forwarded := fi_forwarded b @ [entry]\<rparr>
        in if since now (fi_last_swap b1) \<ge> 500000000 then bridge_swap now b1 else b1)
   | RecvTimeout \<Rightarrow> if since now (fi_last_swap b) \<ge> 2000000000 then bridge_swap now b else b
   | Disconnected \<Rightarrow> b)"

definition bridge_run :: "(fan_entry recv_result \<times> instant) list \<Rightarrow> bridge \<Rightarrow> bridge" where
  "bridge_run rs b = fold (\<lambda>(r, now). bridge_recv r now) rs b"

definition entry_pair :: "fan_entry \<Rightarrow> u64 \<times> u8" where "entry_pair e = (fj_slot e, fj_tick e)"

definition received_entries :: "(fan_entry recv_result \<times> instant) list \<Rightarrow> fan_entry list" where
  "received_entries rs = concat (map (\<lambda>r. case fst r of Received e \<Rightarrow> [e] | _ \<Rightarrow> []) rs)"

text \<open>Every entry is forwarded to the preparer at once, in order, while the observer looks at a snapshot:
  the entries of an initial part of the stream, all of them right after a swap.  A receive that comes two
  seconds after the last swap, with an entry or without, brings the snapshot up to date.\<close>

theorem bridge_snapshot_is_prefix:
  "fi_forwarded (bridge_run rs (bridge_new t0)) = received_entries rs
   \<and> (\<exists>k \<le> length rs. fi_observer_schedule (bridge_run rs (bridge_new t0)) = entry_pair ` set (received_entries (take k rs)))
   \<and> (\<forall>r now. r \<noteq> Disconnected \<and> since now (fi_last_swap (bridge_run rs (bridge_new t0))) \<ge> 2000000000 \<longrightarrow>
       fi_observer_schedule (bridge_run (rs @ [(r, now)]) (bridge_new t0)) = entry_pair ` set (received_entries (rs @ [(r, now)])))"
proof -
  have step: "bridge_run (rs @ [(r, now)]) b = bridge_recv r now (bridge_run rs b)" for rs r now b by (simp add: bridge_run_def)
  have rsnoc: "received_entries (rs @ [(r, now)]) = received_entries rs @ (case r of Received e \<Rightarrow> [e] | _ \<Rightarrow> [])" for rs r now
    by (simp add: received_entries_def)
  have inv: "fi_forwarded (bridge_run rs (bridge_new t0)) = received_entries rs
      \<and> fi_accumulated (bridge_run rs (bridge_new t0)) = entry_pair ` set (received_entries rs)
      \<and> (\<exists>k \<le> length rs. fi_observer_schedule (bridge_run rs (bridge_new t0)) = entry_pair ` set (received_entries (take k rs)))" for rs
  proof (induction rs rule: rev_induct)
    case (snoc x rs)
    obtain r now where x: "x = (r, now)" by (cases x)
    let ?b = "bridge_run rs (bridge_new t0)" and ?b' = "bridge_run (rs @ [x]) (bridge_new t0)"
    from snoc obtain k where k: "k \<le> length rs" "fi_observer_schedule ?b = entry_pair ` set (received_entries (take k rs))" by blast
    have acc: "fi_forwarded ?b' = received_entries (rs @ [x]) \<and> fi_accumulated ?b' = entry_pair ` set (received_entries (rs @ [x]))"
      using snoc unfolding x step rsnoc
      by (cases r) (auto simp: bridge_recv_def bridge_swap_def Let_def entry_pair_def)
    have "fi_observer_schedule ?b' = fi_observer_schedule ?b \<or> fi_observer_schedule ?b' = fi_accumulated ?b'"
      unfolding x step
      by (cases r) (auto simp: bridge_recv_def bridge_swap_def Let_def)
    then have "\<exists>k \<le> length (rs @ [x]). fi_observer_schedule ?b' = entry_pair ` set (received_entries (take k (rs @ [x])))"
    proof
      assume "fi_observer_schedule ?b' = fi_observer_schedule ?b"
      with k show ?thesis by (intro exI [of _ k]) simp
    next
      assume "fi_observer_schedule ?b' = fi_accumulated ?b'"
      with acc show ?thesis by (intro exI [of _ "length (rs @ [x])"]) simp
    qed
    with acc show ?case by blast
  qed (simp add: bridge_run_def bridge_new_def received_entries_def)
  have "fi_observer_schedule (bridge_run (rs @ [(r, now)]) (bridge_new t0)) = fi_accumulated (bridge_run (rs @ [(r, now)]) (bridge_new t0))"
    if "r \<noteq> Disconnected" "since now (fi_last_swap (bridge_run rs (bridge_new t0))) \<ge> 2000000000" for r now
    using that unfolding step by (cases r) (auto simp: bridge_recv_def bridge_swap_def Let_def)
  then show ?thesis using inv by metis
qed

section \<open>The budget watcher\<close>

record budget_watcher =
  fr_min_balance_lamports :: u64
  fr_nonce_rent_reserve_lamports :: u64

text \<open>The polls until the run stops: the number of polls made, and whether the watcher stopped the run.\<close>

fun budget_watch :: "budget_watcher \<Rightarrow> (string + u64) list \<Rightarrow> nat \<times> bool" where
  "budget_watch cfg [] = (0, False)"
| "budget_watch cfg (reply # rs) = (case reply of
     Inr balance \<Rightarrow> if balance < fr_min_balance_lamports cfg + fr_nonce_rent_reserve_lamports cfg then (1, True)
       else (let (n, s) = budget_watch cfg rs in (Suc n, s))
   | Inl e \<Rightarrow> (let (n, s) = budget_watch cfg rs in (Suc n, s)))"

definition nonce_rent_reserve :: "nonce_manager \<Rightarrow> u64" where
  "nonce_rent_reserve nm = of_nat (length (nm_entries nm)) * 1447680"

end
