(* ===== verification/Json.thy ===== *)
theory Json
  imports Prelude
begin

text \<open>
  \<open>json\<close> is \<open>serde_json::Value\<close>, the dynamic JSON value of the RPC clients and the HTTP senders, with the
  accessors they use.  Reading a text into a value and writing one out are parameters of their users.
\<close>

datatype json = JNull | JBool bool | JNum int | JStr string | JArr "json list" | JObj "(string \<times> json) list"

text \<open>\<open>v.get(k)\<close>, \<open>v[k]\<close> and the typed views.\<close>

fun json_get :: "string \<Rightarrow> json \<Rightarrow> json option" where
  "json_get k (JObj fs) = map_of fs k"
| "json_get k _ = None"

definition json_index :: "string \<Rightarrow> json \<Rightarrow> json" where
  "json_index k v = (case json_get k v of Some x \<Rightarrow> x | None \<Rightarrow> JNull)"

fun json_str :: "json \<Rightarrow> string option" where
  "json_str (JStr s) = Some s"
| "json_str _ = None"

fun json_i64 :: "json \<Rightarrow> 64 word option" where
  "json_i64 (JNum n) = (if - (2 ^ 63) \<le> n \<and> n < 2 ^ 63 then Some (of_int n) else None)"
| "json_i64 _ = None"

fun json_array :: "json \<Rightarrow> json list option" where
  "json_array (JArr xs) = Some xs"
| "json_array _ = None"

end
