(* ===== verification/FanSenders.thy ===== *)
theory FanSenders
  imports Senders FanMatcher FanBuilder Json
begin

text \<open>
  The send clients of the earlier bench (\<open>crates/fan-out-bench/src/senders/\<close>, \<open>http_jsonrpc.rs\<close>): for each of
  the twelve providers and the mock the request it posts and what it makes of the answer; the back-off that
  the two Jito clients share with their sends in flight; the set-up of the clients from the configuration
  (\<open>bin/run.rs\<close>) and the event a send hands to the matcher (\<open>dispatcher.rs\<close>).  The HTTP exchange (an error
  text, with whether it was a time-out, or a status with a body) and the codecs of the libraries (base 64 of
  a transaction, the JSON decoders, base 58) are parameters.
\<close>

section \<open>Requests, replies, outcomes\<close>

datatype http_body = BodyJson json | BodyText string

record http_request =
  hq_url :: string
  hq_headers :: "(string \<times> string) list"
  hq_body :: http_body

datatype net_reply = NetError bool string | HttpReply u16 string

record fan_send_outcome =
  fso_send_at :: instant
  fso_send_ack_at :: "instant option"
  fso_signature :: signature
  fso_provider_request_id :: "string option"
  fso_http_status :: "u16 option"
  fso_rpc_err_code :: "i32 option"
  fso_rpc_err_message :: "string option"
  fso_rate_limit_state :: rate_limit_state
  fso_error :: "string option"

record allenhark_response =
  ahr_request_id :: "string option"
  ahr_signature :: "string option"
  ahr_error :: "string option"

record nextblock_response =
  nbr_signature :: "string option"
  nbr_uuid :: "string option"
  nbr_message :: "string option"
  nbr_code :: "i32 option"

text \<open>The codecs; a decoder gives \<open>None\<close> where the library gives an error.\<close>

record fan_codec =
  fco_base64 :: "fan_transaction \<Rightarrow> string"
  fco_jsonrpc :: "string \<Rightarrow> json_rpc_response option"
  fco_json :: "string \<Rightarrow> json option"
  fco_allenhark :: "string \<Rightarrow> allenhark_response option"
  fco_nextblock :: "string \<Rightarrow> nextblock_response option"
  fco_bloxroute :: "string \<Rightarrow> string option option"
  fco_signature :: "string \<Rightarrow> signature option"
  fco_base58 :: "signature \<Rightarrow> string"

section \<open>The shapes of an outcome\<close>

text \<open>No answer; an accepted transaction; a refused one.\<close>

definition network_outcome :: "instant \<Rightarrow> signature \<Rightarrow> bool \<Rightarrow> string \<Rightarrow> fan_send_outcome" where
  "network_outcome send_at signature is_timeout e =
     \<lparr>fso_send_at = send_at, fso_send_ack_at = None, fso_signature = signature, fso_provider_request_id = None,
      fso_http_status = None, fso_rpc_err_code = None, fso_rpc_err_message = None,
      fso_rate_limit_state = (if is_timeout then RateTimeout else RateOk), fso_error = Some (''network: '' @ e)\<rparr>"

definition accepted_outcome :: "instant \<Rightarrow> instant \<Rightarrow> signature \<Rightarrow> string option \<Rightarrow> u16 \<Rightarrow> fan_send_outcome" where
  "accepted_outcome send_at ack_at signature provider status =
     \<lparr>fso_send_at = send_at, fso_send_ack_at = Some ack_at, fso_signature = signature, fso_provider_request_id = provider,
      fso_http_status = Some status, fso_rpc_err_code = None, fso_rpc_err_message = None,
      fso_rate_limit_state = RateOk, fso_error = None\<rparr>"

definition refused_outcome :: "instant \<Rightarrow> instant \<Rightarrow> signature \<Rightarrow> string option \<Rightarrow> u16 \<Rightarrow> i32 option \<Rightarrow> string \<Rightarrow> rate_limit_state \<Rightarrow>
    string \<Rightarrow> fan_send_outcome" where
  "refused_outcome send_at ack_at signature provider status code message rate err =
     \<lparr>fso_send_at = send_at, fso_send_ack_at = Some ack_at, fso_signature = signature, fso_provider_request_id = provider,
      fso_http_status = Some status, fso_rpc_err_code = code, fso_rpc_err_message = Some message,
      fso_rate_limit_state = rate, fso_error = Some err\<rparr>"

definition http_rate :: "u16 \<Rightarrow> rate_limit_state" where
  "http_rate status = (if status = 429 then Throttled429 else RateOk)"

definition rpc_rate :: "i32 \<Rightarrow> u16 \<Rightarrow> rate_limit_state" where
  "rpc_rate code status = (if code = - 32005 \<or> status = 429 then Throttled429 else RateOk)"

definition http_text_error :: "u16 \<Rightarrow> string \<Rightarrow> string" where
  "http_text_error status text = ''HTTP '' @ dec_digits (unat status) @ '': '' @ text"

text \<open>The signature named by a reply, else the one of the transaction.\<close>

definition returned_or :: "fan_codec \<Rightarrow> string option \<Rightarrow> signature \<Rightarrow> signature" where
  "returned_or cd returned signature =
     (case Option.bind returned (fco_signature cd) of Some s \<Rightarrow> s | None \<Rightarrow> signature)"

section \<open>JSON-RPC\<close>

definition build_send_transaction_body :: "string \<Rightarrow> bool \<Rightarrow> u64 \<Rightarrow> json" where
  "build_send_transaction_body tx_base64 skip_preflight max_retries =
     JObj [(''jsonrpc'', JStr ''2.0''), (''id'', JNum 1), (''method'', JStr ''sendTransaction''),
       (''params'', JArr [JStr tx_base64, JObj [(''encoding'', JStr ''base64''), (''skipPreflight'', JBool skip_preflight),
         (''maxRetries'', JNum (uint max_retries))]])]"

definition parse_jsonrpc_or_text :: "fan_codec \<Rightarrow> instant \<Rightarrow> instant \<Rightarrow> signature \<Rightarrow> net_reply \<Rightarrow> fan_send_outcome" where
  "parse_jsonrpc_or_text cd send_at ack_at signature resp = (case resp of
     NetError is_timeout e \<Rightarrow> network_outcome send_at signature is_timeout e
   | HttpReply status body_text \<Rightarrow> (case fco_jsonrpc cd body_text of
       Some parsed \<Rightarrow> (case jr_error parsed of
           Some err \<Rightarrow> refused_outcome send_at ack_at signature None status (Some (je_code err)) (je_message err)
             (rpc_rate (je_code err) status) (je_message err)
         | None \<Rightarrow> accepted_outcome send_at ack_at (returned_or cd (jr_result parsed) signature) None status)
     | None \<Rightarrow> refused_outcome send_at ack_at signature None status None (''non-JSONRPC response: '' @ body_text)
         (http_rate status) (http_body_error status body_text)))"

text \<open>Helius has a copy of the parser of its own.\<close>

definition fan_helius_outcome :: "fan_codec \<Rightarrow> instant \<Rightarrow> instant \<Rightarrow> signature \<Rightarrow> net_reply \<Rightarrow> fan_send_outcome" where
  "fan_helius_outcome cd send_at ack_at signature resp = (case resp of
     NetError is_timeout e \<Rightarrow> network_outcome send_at signature is_timeout e
   | HttpReply status body_text \<Rightarrow> (case fco_jsonrpc cd body_text of
       Some parsed \<Rightarrow> (case jr_error parsed of
           Some err \<Rightarrow> refused_outcome send_at ack_at signature None status (Some (je_code err)) (je_message err)
             (if je_code err = - 32005 \<or> status = 429 then Throttled429 else RateOk) (je_message err)
         | None \<Rightarrow> accepted_outcome send_at ack_at
             (case Option.bind (jr_result parsed) (fco_signature cd) of Some s \<Rightarrow> s | None \<Rightarrow> signature) None status)
     | None \<Rightarrow> refused_outcome send_at ack_at signature None status None (''non-JSONRPC response: '' @ body_text)
         (if status = 429 then Throttled429 else RateOk) (http_body_error status body_text)))"

section \<open>The back-off of the Jito clients\<close>

definition back_off_remaining :: "instant \<Rightarrow> instant option \<Rightarrow> duration option" where
  "back_off_remaining now until = (case until of
     None \<Rightarrow> None | Some t \<Rightarrow> if now \<le> t then Some (t - now) else None)"

definition record_retry_after :: "instant \<Rightarrow> u64 \<Rightarrow> instant option \<Rightarrow> instant option" where
  "record_retry_after now ms until = (let proposed = now + unat ms * 1000000 in
     case until of Some existing \<Rightarrow> if existing > proposed then Some existing else Some proposed | None \<Rightarrow> Some proposed)"

text \<open>\<open>message.find(pat)\<close> and the text behind the match; \<open>digits.parse::<u64>()\<close>.\<close>

fun find_behind :: "string \<Rightarrow> string \<Rightarrow> string option" where
  "find_behind pat s = (if take (length pat) s = pat then Some (drop (length pat) s)
     else (case s of [] \<Rightarrow> None | c # r \<Rightarrow> find_behind pat r))"

declare find_behind.simps [simp del]

definition parse_retry_after_ms :: "string \<Rightarrow> u64 option" where
  "parse_retry_after_ms message = (case find_behind ''Retry after '' message of
     None \<Rightarrow> None
   | Some tail \<Rightarrow> (let digits = takeWhile is_ascii_digit tail in if digits = [] then None else parse_u64 digits))"

definition back_off_skip_outcome :: "instant \<Rightarrow> signature \<Rightarrow> nat \<Rightarrow> fan_send_outcome" where
  "back_off_skip_outcome now signature remaining_ms =
     \<lparr>fso_send_at = now, fso_send_ack_at = Some now, fso_signature = signature, fso_provider_request_id = None,
      fso_http_status = None, fso_rpc_err_code = None,
      fso_rpc_err_message = Some (''client back-off active for '' @ dec_digits remaining_ms @ '' ms''),
      fso_rate_limit_state = Throttled429,
      fso_error = Some (''client back-off: skip ('' @ dec_digits remaining_ms @ '' ms remaining)'')\<rparr>"

text \<open>The reply of the block engine: the outcome, and the delay it asks for when it throttles.  \<open>accept\<close> is
  the outcome of a reply without an error.\<close>

definition jito_reply :: "fan_codec \<Rightarrow> (json_rpc_response \<Rightarrow> u16 \<Rightarrow> fan_send_outcome) \<Rightarrow> instant \<Rightarrow> instant \<Rightarrow> signature \<Rightarrow> net_reply \<Rightarrow>
    fan_send_outcome \<times> u64 option" where
  "jito_reply cd accept send_at ack_at signature resp = (case resp of
     NetError is_timeout e \<Rightarrow> (network_outcome send_at signature is_timeout e, None)
   | HttpReply status body_text \<Rightarrow> (case fco_jsonrpc cd body_text of
       Some parsed \<Rightarrow> (case jr_error parsed of
           Some err \<Rightarrow>
             (let rate = rpc_rate (je_code err) status in
               (refused_outcome send_at ack_at signature None status (Some (je_code err)) (je_message err) rate (je_message err),
                if rate = Throttled429 then parse_retry_after_ms (je_message err) else None))
         | None \<Rightarrow> (accept parsed status, None))
     | None \<Rightarrow> (refused_outcome send_at ack_at signature None status None (''non-JSONRPC response: '' @ body_text)
         (http_rate status) (http_body_error status body_text), None)))"

definition jito_tx_reply :: "fan_codec \<Rightarrow> instant \<Rightarrow> instant \<Rightarrow> signature \<Rightarrow> net_reply \<Rightarrow> fan_send_outcome \<times> u64 option" where
  "jito_tx_reply cd send_at ack_at signature resp =
     jito_reply cd (\<lambda>parsed status. accepted_outcome send_at ack_at (returned_or cd (jr_result parsed) signature) None status)
       send_at ack_at signature resp"

definition jito_bundle_reply :: "fan_codec \<Rightarrow> instant \<Rightarrow> instant \<Rightarrow> signature \<Rightarrow> net_reply \<Rightarrow> fan_send_outcome \<times> u64 option" where
  "jito_bundle_reply cd send_at ack_at signature resp =
     jito_reply cd (\<lambda>parsed status. accepted_outcome send_at ack_at signature (jr_result parsed) status)
       send_at ack_at signature resp"

definition build_bundle_body :: "string \<Rightarrow> json" where
  "build_bundle_body tx_base64 =
     JObj [(''jsonrpc'', JStr ''2.0''), (''id'', JNum 1), (''method'', JStr ''sendBundle''),
       (''params'', JArr [JArr [JStr tx_base64], JObj [(''encoding'', JStr ''base64'')]])]"

section \<open>The providers with replies of their own\<close>

definition allenhark_body :: "string \<Rightarrow> json" where
  "allenhark_body b64 = JObj [(''tx'', JStr b64), (''simulate'', JBool False)]"

definition or_text :: "string option \<Rightarrow> string \<Rightarrow> string" where
  "or_text e text = (case e of Some m \<Rightarrow> m | None \<Rightarrow> text)"

definition allenhark_outcome :: "fan_codec \<Rightarrow> instant \<Rightarrow> instant \<Rightarrow> signature \<Rightarrow> net_reply \<Rightarrow> fan_send_outcome" where
  "allenhark_outcome cd send_at ack_at signature resp = (case resp of
     NetError is_timeout e \<Rightarrow> network_outcome send_at signature is_timeout e
   | HttpReply status text \<Rightarrow>
       (let parsed = fco_allenhark cd text;
            returned = Option.bind parsed ahr_signature;
            provider_id = Option.bind parsed ahr_request_id;
            err_msg = Option.bind parsed ahr_error
        in if status = 200 \<and> err_msg = None
           then accepted_outcome send_at ack_at (returned_or cd returned signature) provider_id status
           else refused_outcome send_at ack_at signature provider_id status None (or_text err_msg text)
             (http_rate status) (or_text err_msg (http_text_error status text))))"

definition astralane_outcome :: "instant \<Rightarrow> instant \<Rightarrow> signature \<Rightarrow> net_reply \<Rightarrow> fan_send_outcome" where
  "astralane_outcome send_at ack_at signature resp = (case resp of
     NetError is_timeout e \<Rightarrow> network_outcome send_at signature is_timeout e
   | HttpReply status text \<Rightarrow>
       if status = 200 then accepted_outcome send_at ack_at signature None status
       else refused_outcome send_at ack_at signature None status None text (http_rate status) (http_text_error status text))"

definition blockrazor_outcome :: "fan_codec \<Rightarrow> instant \<Rightarrow> instant \<Rightarrow> signature \<Rightarrow> net_reply \<Rightarrow> fan_send_outcome" where
  "blockrazor_outcome cd send_at ack_at signature resp = (case resp of
     NetError is_timeout e \<Rightarrow> network_outcome send_at signature is_timeout e
   | HttpReply status text \<Rightarrow>
       (let err_msg = Option.bind (Option.bind (Option.bind (fco_json cd text) (json_get ''error'')) json_str)
              (\<lambda>s. if s \<noteq> [] then Some s else None)
        in if status = 200 \<and> err_msg = None then accepted_outcome send_at ack_at signature None status
           else refused_outcome send_at ack_at signature None status None (or_text err_msg text)
             (http_rate status) (or_text err_msg (http_text_error status text))))"

definition nextblock_body :: "string \<Rightarrow> json" where
  "nextblock_body b64 = JObj [(''transaction'', JObj [(''content'', JStr b64)]), (''skipPreFlight'', JBool True),
     (''frontRunningProtection'', JBool False), (''disableRetries'', JBool False), (''revertOnFail'', JBool False),
     (''snipeTransaction'', JBool False)]"

definition nextblock_outcome :: "fan_codec \<Rightarrow> instant \<Rightarrow> instant \<Rightarrow> signature \<Rightarrow> net_reply \<Rightarrow> fan_send_outcome" where
  "nextblock_outcome cd send_at ack_at signature resp = (case resp of
     NetError is_timeout e \<Rightarrow> network_outcome send_at signature is_timeout e
   | HttpReply status text \<Rightarrow>
       (let parsed = fco_nextblock cd text;
            returned = Option.bind parsed nbr_signature;
            uuid = Option.bind parsed nbr_uuid;
            code = Option.bind parsed nbr_code
        in if status = 200 \<and> code = None
           then accepted_outcome send_at ack_at (returned_or cd returned signature) uuid status
           else (let msg = or_text (Option.bind parsed nbr_message) text in
             refused_outcome send_at ack_at signature uuid status code msg (http_rate status) msg)))"

definition bloxroute_body :: "string \<Rightarrow> json" where
  "bloxroute_body b64 = JObj [(''transaction'', JObj [(''content'', JStr b64)]), (''skipPreFlight'', JBool True),
     (''frontRunningProtection'', JBool False), (''submitProtection'', JStr ''SP_LOW''), (''useStakedRPCs'', JBool True)]"

definition bloxroute_outcome :: "fan_codec \<Rightarrow> instant \<Rightarrow> instant \<Rightarrow> signature \<Rightarrow> net_reply \<Rightarrow> fan_send_outcome" where
  "bloxroute_outcome cd send_at ack_at signature resp = (case resp of
     NetError is_timeout e \<Rightarrow> network_outcome send_at signature is_timeout e
   | HttpReply status text \<Rightarrow>
       if status = 200
       then accepted_outcome send_at ack_at (returned_or cd (Option.bind (fco_bloxroute cd text) id) signature) None status
       else refused_outcome send_at ack_at signature None status None text (http_rate status) (http_text_error status text))"

end
