(* ===== verification/FanClients.thy ===== *)
theory FanClients
  imports FanSenders
begin

text \<open>
  The clients of the earlier bench behind the \<open>TxSender\<close> interface (\<open>crates/fan-out-bench/src/senders/\<close>): the
  request of each, one send from the back-off check to the recorded hint, the set-up from the configuration
  (\<open>bin/run.rs\<close>), the event for the matcher (\<open>dispatcher.rs\<close>), and what holds of every client's outcomes.
  Sends of one client overlap, so a send is two steps: it begins (check, request) and finishes (reply, hint).
\<close>

section \<open>Clients\<close>

datatype syncro_auth = SyncroNone | SyncroBearer string | SyncroXApiKey string

datatype mock_mode = AlwaysAck | AlwaysError string | AckHalfRandom u64

datatype fan_client =
    ClHelius "string option" bool
  | ClJito "string option"
  | ClJitoBundle "string option"
  | ClNozomi string
  | ClSlot0 string
  | ClAstralane string
  | ClBlockRazor string string
  | ClTriton
  | ClSyncro syncro_auth
  | ClAllenHark "string option"
  | ClNextBlock string
  | ClBloxroute string
  | ClMock duration mock_mode

record fan_tx_sender =
  fcl_id :: u8
  fcl_name :: string
  fcl_endpoint :: string
  fcl_client :: fan_client
  fcl_back_off :: "instant option"

definition fan_sender_new :: "u8 \<Rightarrow> string \<Rightarrow> string \<Rightarrow> fan_client \<Rightarrow> fan_tx_sender" where
  "fan_sender_new i name endpoint client =
     \<lparr>fcl_id = i, fcl_name = name, fcl_endpoint = endpoint, fcl_client = client, fcl_back_off = None\<rparr>"

definition blockrazor_new :: "string \<Rightarrow> fan_client" where
  "blockrazor_new auth_token = ClBlockRazor auth_token ''fast''"

definition mock_always_ack :: "u8 \<Rightarrow> string \<Rightarrow> fan_tx_sender" where
  "mock_always_ack i name = fan_sender_new i name ''mock://always-ack'' (ClMock 1000000 AlwaysAck)"

definition mock_always_error :: "u8 \<Rightarrow> string \<Rightarrow> string \<Rightarrow> fan_tx_sender" where
  "mock_always_error i name err = fan_sender_new i name ''mock://error'' (ClMock 1000000 (AlwaysError err))"

text \<open>\<open>protocol()\<close>\<close>

definition fan_protocol :: "fan_client \<Rightarrow> string" where
  "fan_protocol c = (case c of
     ClHelius _ _ \<Rightarrow> ''HTTP_JSONRPC'' | ClJito _ \<Rightarrow> ''HTTP_JSONRPC'' | ClJitoBundle _ \<Rightarrow> ''HTTP_JSONRPC''
   | ClNozomi _ \<Rightarrow> ''HTTP_JSONRPC'' | ClSlot0 _ \<Rightarrow> ''HTTP_JSONRPC'' | ClTriton \<Rightarrow> ''HTTP_JSONRPC'' | ClSyncro _ \<Rightarrow> ''HTTP_JSONRPC''
   | ClAstralane _ \<Rightarrow> ''HTTP_PLAIN'' | ClBlockRazor _ _ \<Rightarrow> ''HTTP_PLAIN'' | ClAllenHark _ \<Rightarrow> ''HTTP_PLAIN''
   | ClNextBlock _ \<Rightarrow> ''HTTP_PLAIN'' | ClBloxroute _ \<Rightarrow> ''HTTP_PLAIN'' | ClMock _ _ \<Rightarrow> ''MOCK'')"

section \<open>Requests\<close>

fun join_amp :: "string list \<Rightarrow> string" where
  "join_amp [] = ''''"
| "join_amp [q] = q"
| "join_amp (q # qs) = q @ ''&'' @ join_amp qs"

definition helius_url :: "string \<Rightarrow> string option \<Rightarrow> bool \<Rightarrow> string" where
  "helius_url endpoint api_key swqos_only =
     (let qs = (case api_key of Some key \<Rightarrow> [''api-key='' @ key] | None \<Rightarrow> [])
            @ (if swqos_only then [''swqos_only=true''] else [])
      in if qs \<noteq> [] then endpoint @ ''?'' @ join_amp qs else endpoint)"

definition nozomi_url :: "string \<Rightarrow> string \<Rightarrow> string" where
  "nozomi_url endpoint api_key = endpoint @ ''?c='' @ api_key"

definition slot0_url :: "string \<Rightarrow> string \<Rightarrow> string" where
  "slot0_url endpoint api_key = endpoint @ ''?api-key='' @ api_key"

definition astralane_url :: "string \<Rightarrow> string \<Rightarrow> string" where
  "astralane_url endpoint api_key =
     (if find_behind ''/iris2'' endpoint \<noteq> None then endpoint @ ''?api-key='' @ api_key @ ''&method=sendTransaction''
      else endpoint @ ''?api-key='' @ api_key)"

definition blockrazor_url :: "string \<Rightarrow> string \<Rightarrow> string \<Rightarrow> string" where
  "blockrazor_url endpoint auth_token mode = endpoint @ ''?auth='' @ auth_token @ ''&mode='' @ mode @ ''&revertProtection=false''"

definition json_post :: "string \<Rightarrow> (string \<times> string) list \<Rightarrow> json \<Rightarrow> http_request" where
  "json_post url headers body =
     \<lparr>hq_url = url, hq_headers = (''Content-Type'', ''application/json'') # headers, hq_body = BodyJson body\<rparr>"

definition text_post :: "string \<Rightarrow> string \<Rightarrow> http_request" where
  "text_post url body = \<lparr>hq_url = url, hq_headers = [(''Content-Type'', ''text/plain'')], hq_body = BodyText body\<rparr>"

definition optional_header :: "string \<Rightarrow> string option \<Rightarrow> (string \<times> string) list" where
  "optional_header name v = (case v of Some x \<Rightarrow> [(name, x)] | None \<Rightarrow> [])"

definition syncro_headers :: "syncro_auth \<Rightarrow> (string \<times> string) list" where
  "syncro_headers auth = (case auth of
     SyncroNone \<Rightarrow> [] | SyncroBearer t \<Rightarrow> [(''Authorization'', ''Bearer '' @ t)] | SyncroXApiKey k \<Rightarrow> [(''X-Api-Key'', k)])"

text \<open>The request of each provider for a transaction in base 64.\<close>

definition helius_post :: "string \<Rightarrow> string option \<Rightarrow> bool \<Rightarrow> string \<Rightarrow> http_request" where
  "helius_post endpoint api_key swqos_only b64 =
     json_post (helius_url endpoint api_key swqos_only) [] (build_send_transaction_body b64 True 0)"

definition jito_post :: "string \<Rightarrow> string option \<Rightarrow> string \<Rightarrow> http_request" where
  "jito_post endpoint auth_uuid b64 =
     json_post endpoint (optional_header ''x-jito-auth'' auth_uuid) (build_send_transaction_body b64 True 0)"

definition jito_bundle_post :: "string \<Rightarrow> string option \<Rightarrow> string \<Rightarrow> http_request" where
  "jito_bundle_post endpoint auth_uuid b64 =
     json_post endpoint (optional_header ''x-jito-auth'' auth_uuid) (build_bundle_body b64)"

definition nozomi_post :: "string \<Rightarrow> string \<Rightarrow> string \<Rightarrow> http_request" where
  "nozomi_post endpoint api_key b64 = json_post (nozomi_url endpoint api_key) [] (build_send_transaction_body b64 True 0)"

definition slot0_post :: "string \<Rightarrow> string \<Rightarrow> string \<Rightarrow> http_request" where
  "slot0_post endpoint api_key b64 = json_post (slot0_url endpoint api_key) [] (build_send_transaction_body b64 True 0)"

definition triton_post :: "string \<Rightarrow> string \<Rightarrow> http_request" where
  "triton_post endpoint b64 = json_post endpoint [] (build_send_transaction_body b64 True 0)"

definition syncro_post :: "string \<Rightarrow> syncro_auth \<Rightarrow> string \<Rightarrow> http_request" where
  "syncro_post endpoint auth b64 = json_post endpoint (syncro_headers auth) (build_send_transaction_body b64 True 0)"

definition astralane_post :: "string \<Rightarrow> string \<Rightarrow> string \<Rightarrow> http_request" where
  "astralane_post endpoint api_key b64 = text_post (astralane_url endpoint api_key) b64"

definition blockrazor_post :: "string \<Rightarrow> string \<Rightarrow> string \<Rightarrow> string \<Rightarrow> http_request" where
  "blockrazor_post endpoint auth_token mode b64 = text_post (blockrazor_url endpoint auth_token mode) b64"

definition allenhark_post :: "string \<Rightarrow> string option \<Rightarrow> string \<Rightarrow> http_request" where
  "allenhark_post endpoint api_key b64 = json_post endpoint (optional_header ''x-api-key'' api_key) (allenhark_body b64)"

definition nextblock_post :: "string \<Rightarrow> string \<Rightarrow> string \<Rightarrow> http_request" where
  "nextblock_post endpoint auth_header b64 = json_post endpoint [(''Authorization'', auth_header)] (nextblock_body b64)"

definition bloxroute_post :: "string \<Rightarrow> string \<Rightarrow> string \<Rightarrow> http_request" where
  "bloxroute_post endpoint auth_header b64 = json_post endpoint [(''Authorization'', auth_header)] (bloxroute_body b64)"

text \<open>The request of a client; the mock posts nothing.\<close>

definition fan_request :: "fan_tx_sender \<Rightarrow> string \<Rightarrow> http_request option" where
  "fan_request s b64 = (case fcl_client s of
       ClHelius api_key swqos_only \<Rightarrow> Some (helius_post (fcl_endpoint s) api_key swqos_only b64)
     | ClJito auth_uuid \<Rightarrow> Some (jito_post (fcl_endpoint s) auth_uuid b64)
     | ClJitoBundle auth_uuid \<Rightarrow> Some (jito_bundle_post (fcl_endpoint s) auth_uuid b64)
     | ClNozomi api_key \<Rightarrow> Some (nozomi_post (fcl_endpoint s) api_key b64)
     | ClSlot0 api_key \<Rightarrow> Some (slot0_post (fcl_endpoint s) api_key b64)
     | ClAstralane api_key \<Rightarrow> Some (astralane_post (fcl_endpoint s) api_key b64)
     | ClBlockRazor auth_token mode \<Rightarrow> Some (blockrazor_post (fcl_endpoint s) auth_token mode b64)
     | ClTriton \<Rightarrow> Some (triton_post (fcl_endpoint s) b64)
     | ClSyncro auth \<Rightarrow> Some (syncro_post (fcl_endpoint s) auth b64)
     | ClAllenHark api_key \<Rightarrow> Some (allenhark_post (fcl_endpoint s) api_key b64)
     | ClNextBlock auth_header \<Rightarrow> Some (nextblock_post (fcl_endpoint s) auth_header b64)
     | ClBloxroute auth_header \<Rightarrow> Some (bloxroute_post (fcl_endpoint s) auth_header b64)
     | ClMock _ _ \<Rightarrow> None)"

section \<open>Outcomes\<close>

definition mock_outcome :: "fan_codec \<Rightarrow> string \<Rightarrow> mock_mode \<Rightarrow> instant \<Rightarrow> instant \<Rightarrow> signature \<Rightarrow> fan_send_outcome" where
  "mock_outcome cd name mode send_at ack_at signature = (case mode of
     AlwaysAck \<Rightarrow> accepted_outcome send_at ack_at signature (Some (''mock-'' @ name @ ''-'' @ fco_base58 cd signature)) 200
   | AlwaysError msg \<Rightarrow>
       (refused_outcome send_at ack_at signature None 500 (Some (- 32000)) msg RateOk msg)\<lparr>fso_send_ack_at := None\<rparr>
   | AckHalfRandom seed \<Rightarrow>
       (let h = xor (ucast (to_be_bytes 64 signature ! 0)) seed :: u64 in
        if h mod 2 = 0 then accepted_outcome send_at ack_at signature None 200
        else (refused_outcome send_at ack_at signature None 429 None ''mock rate limited'' Throttled429 ''mock rate limited'')
               \<lparr>fso_send_ack_at := None\<rparr>))"

definition fan_decode :: "fan_codec \<Rightarrow> fan_tx_sender \<Rightarrow> instant \<Rightarrow> instant \<Rightarrow> signature \<Rightarrow> net_reply \<Rightarrow>
    fan_send_outcome \<times> u64 option" where
  "fan_decode cd s send_at ack_at signature resp = (case fcl_client s of
     ClHelius _ _ \<Rightarrow> (fan_helius_outcome cd send_at ack_at signature resp, None)
   | ClJito _ \<Rightarrow> jito_tx_reply cd send_at ack_at signature resp
   | ClJitoBundle _ \<Rightarrow> jito_bundle_reply cd send_at ack_at signature resp
   | ClNozomi _ \<Rightarrow> (parse_jsonrpc_or_text cd send_at ack_at signature resp, None)
   | ClSlot0 _ \<Rightarrow> (parse_jsonrpc_or_text cd send_at ack_at signature resp, None)
   | ClTriton \<Rightarrow> (parse_jsonrpc_or_text cd send_at ack_at signature resp, None)
   | ClSyncro _ \<Rightarrow> (parse_jsonrpc_or_text cd send_at ack_at signature resp, None)
   | ClAstralane _ \<Rightarrow> (astralane_outcome send_at ack_at signature resp, None)
   | ClBlockRazor _ _ \<Rightarrow> (blockrazor_outcome cd send_at ack_at signature resp, None)
   | ClAllenHark _ \<Rightarrow> (allenhark_outcome cd send_at ack_at signature resp, None)
   | ClNextBlock _ \<Rightarrow> (nextblock_outcome cd send_at ack_at signature resp, None)
   | ClBloxroute _ \<Rightarrow> (bloxroute_outcome cd send_at ack_at signature resp, None)
   | ClMock _ mode \<Rightarrow> (mock_outcome cd (fcl_name s) mode send_at ack_at signature, None))"

section \<open>One send\<close>

definition has_back_off :: "fan_client \<Rightarrow> bool" where
  "has_back_off c = (case c of ClJito _ \<Rightarrow> True | ClJitoBundle _ \<Rightarrow> True | _ \<Rightarrow> False)"

text \<open>A send begins: \<open>Inl\<close> the outcome of a send that the client skips, or \<open>Inr\<close> the request it posts.  The
  clocks are the reading of the back-off check and the one of the skipped outcome.\<close>

definition fan_begin :: "fan_codec \<Rightarrow> instant \<Rightarrow> instant \<Rightarrow> fan_transaction \<Rightarrow> fan_tx_sender \<Rightarrow> fan_send_outcome + http_request option" where
  "fan_begin cd t_check t_skip tx s =
     (case (if has_back_off (fcl_client s) then back_off_remaining t_check (fcl_back_off s) else None) of
        Some remaining \<Rightarrow> Inl (back_off_skip_outcome t_skip (fx_signature tx) (remaining div 1000000))
      | None \<Rightarrow> Inr (fan_request s (fco_base64 cd tx)))"

text \<open>It finishes: the outcome of the reply; a hint extends the back-off, from the clock \<open>t_hint\<close> on.\<close>

definition fan_finish :: "fan_codec \<Rightarrow> instant \<Rightarrow> instant \<Rightarrow> instant \<Rightarrow> signature \<Rightarrow> net_reply \<Rightarrow> fan_tx_sender \<Rightarrow>
    fan_send_outcome \<times> fan_tx_sender" where
  "fan_finish cd send_at ack_at t_hint signature resp s =
     (let (outcome, hint) = fan_decode cd s send_at ack_at signature resp in
      (outcome, case hint of None \<Rightarrow> s | Some ms \<Rightarrow> s\<lparr>fcl_back_off := record_retry_after t_hint ms (fcl_back_off s)\<rparr>))"

record send_clocks =
  scl_check :: instant
  scl_skip :: instant
  scl_send :: instant
  scl_ack :: instant
  scl_hint :: instant

definition fan_send :: "fan_codec \<Rightarrow> send_clocks \<Rightarrow> (http_request option \<Rightarrow> net_reply) \<Rightarrow> fan_transaction \<Rightarrow> fan_tx_sender \<Rightarrow>
    fan_send_outcome \<times> fan_tx_sender" where
  "fan_send cd clk post tx s = (case fan_begin cd (scl_check clk) (scl_skip clk) tx s of
     Inl outcome \<Rightarrow> (outcome, s)
   | Inr req \<Rightarrow> fan_finish cd (scl_send clk) (scl_ack clk) (scl_hint clk) (fx_signature tx) (post req) s)"

text \<open>The event of a finished send.\<close>

definition fan_event_of :: "fan_trigger_id \<Rightarrow> u8 \<Rightarrow> fan_send_outcome \<Rightarrow> fan_send_event" where
  "fan_event_of trigger_id sender_id oc =
     \<lparr>fs_trigger_id = trigger_id, fs_sender_id = sender_id, fs_send_at = fso_send_at oc, fs_send_ack_at = fso_send_ack_at oc,
      fs_signature = fso_signature oc, fs_provider_request_id = fso_provider_request_id oc, fs_http_status = fso_http_status oc,
      fs_rpc_err_code = fso_rpc_err_code oc, fs_rpc_err_message = fso_rpc_err_message oc,
      fs_rate_limit_state = fso_rate_limit_state oc, fs_error = fso_error oc\<rparr>"

section \<open>The set-up\<close>

definition query_value :: "fan_auth \<Rightarrow> string option" where
  "query_value a = (case a of AuthQueryParam key v \<Rightarrow> Some v | _ \<Rightarrow> None)"

definition header_value :: "fan_auth \<Rightarrow> string option" where
  "header_value a = (case a of AuthHeader name v \<Rightarrow> Some v | _ \<Rightarrow> None)"

definition fan_client_of :: "fan_sender_kind \<Rightarrow> fan_auth \<Rightarrow> fan_client option" where
  "fan_client_of kind auth = (case kind of
     FkHelius \<Rightarrow> Some (ClHelius (query_value auth) False)
   | FkJito \<Rightarrow> Some (ClJito (header_value auth))
   | FkNozomi \<Rightarrow> map_option ClNozomi (query_value auth)
   | FkSlot0 \<Rightarrow> map_option ClSlot0 (query_value auth)
   | FkBloxroute \<Rightarrow> map_option ClBloxroute (header_value auth)
   | FkAstralane \<Rightarrow> map_option ClAstralane (query_value auth)
   | FkSyncro \<Rightarrow> (case auth of
       AuthBearer token \<Rightarrow> Some (ClSyncro (SyncroBearer token))
     | AuthHeader name v \<Rightarrow> Some (ClSyncro (SyncroXApiKey v))
     | AuthNone \<Rightarrow> Some (ClSyncro SyncroNone)
     | _ \<Rightarrow> None)
   | FkTriton \<Rightarrow> Some ClTriton
   | FkJitoBundle \<Rightarrow> Some (ClJitoBundle (header_value auth))
   | FkAllenharkHttps \<Rightarrow> (case auth of
       AuthHeader name v \<Rightarrow> Some (ClAllenHark (Some v)) | AuthNone \<Rightarrow> Some (ClAllenHark None) | _ \<Rightarrow> None)
   | FkNextblock \<Rightarrow> map_option ClNextBlock (header_value auth)
   | FkBlockrazorHttp \<Rightarrow> map_option blockrazor_new (query_value auth)
   | _ \<Rightarrow> None)"

definition setup_fan_sender :: "fan_sender_config \<Rightarrow> (u8, fan_tx_sender) hmap \<Rightarrow> (u8, fan_tx_sender) hmap" where
  "setup_fan_sender sc m = (case fan_client_of (fd_kind sc) (fd_auth sc) of
     None \<Rightarrow> m
   | Some client \<Rightarrow> hm_insert (fd_id sc) (fan_sender_new (fd_id sc) (fd_name sc) (fd_endpoint_url sc) client) m)"

definition setup_fan_senders :: "fan_config \<Rightarrow> (u8, fan_tx_sender) hmap" where
  "setup_fan_senders cfg = fold setup_fan_sender (enabled_senders cfg) []"

section \<open>What the answers mean\<close>

text \<open>
  The meaning of an answer, stated apart from the decoders.  The providers behind JSON-RPC accept with a reply
  that has no error, under any HTTP status; the others with status 200 and a body that names no error of the
  provider's own kind.  An answer that does not accept throttles when its status is 429 or its JSON-RPC code is
  \<open>-32005\<close>; else it rejects.
\<close>

datatype fan_class = FanAccepted | FanThrottled | FanTimedOut | FanRejected | FanUnreachable

definition speaks_jsonrpc :: "fan_client \<Rightarrow> bool" where
  "speaks_jsonrpc c \<longleftrightarrow> fan_protocol c = ''HTTP_JSONRPC''"

definition jsonrpc_error :: "fan_codec \<Rightarrow> string \<Rightarrow> json_rpc_error \<Rightarrow> bool" where
  "jsonrpc_error cd body err \<longleftrightarrow> (\<exists>p. fco_jsonrpc cd body = Some p \<and> jr_error p = Some err)"

definition names_error :: "fan_codec \<Rightarrow> fan_client \<Rightarrow> string \<Rightarrow> bool" where
  "names_error cd c body \<longleftrightarrow> (case c of
     ClBlockRazor _ _ \<Rightarrow> (\<exists>v m. fco_json cd body = Some v \<and> json_get ''error'' v = Some (JStr m) \<and> m \<noteq> [])
   | ClAllenHark _ \<Rightarrow> (\<exists>p m. fco_allenhark cd body = Some p \<and> ahr_error p = Some m)
   | ClNextBlock _ \<Rightarrow> (\<exists>p n. fco_nextblock cd body = Some p \<and> nbr_code p = Some n)
   | _ \<Rightarrow> False)"

definition says_accepted :: "fan_codec \<Rightarrow> fan_client \<Rightarrow> u16 \<Rightarrow> string \<Rightarrow> bool" where
  "says_accepted cd c status body \<longleftrightarrow>
     (if speaks_jsonrpc c then \<exists>p. fco_jsonrpc cd body = Some p \<and> jr_error p = None
      else status = 200 \<and> \<not> names_error cd c body)"

definition says_throttled :: "fan_codec \<Rightarrow> fan_client \<Rightarrow> u16 \<Rightarrow> string \<Rightarrow> bool" where
  "says_throttled cd c status body \<longleftrightarrow> status = 429
     \<or> speaks_jsonrpc c \<and> (\<exists>err. jsonrpc_error cd body err \<and> je_code err = - 32005)"

definition answer_class :: "fan_codec \<Rightarrow> fan_client \<Rightarrow> net_reply \<Rightarrow> fan_class" where
  "answer_class cd c resp = (case resp of
     NetError is_timeout e \<Rightarrow> if is_timeout then FanTimedOut else FanUnreachable
   | HttpReply status body \<Rightarrow> if says_accepted cd c status body then FanAccepted
       else if says_throttled cd c status body then FanThrottled else FanRejected)"

text \<open>The error code an answer names, which is the one to be recorded; and its status.\<close>

definition answer_code :: "fan_codec \<Rightarrow> fan_client \<Rightarrow> net_reply \<Rightarrow> i32 option" where
  "answer_code cd c resp = (case resp of
     NetError _ _ \<Rightarrow> None
   | HttpReply status body \<Rightarrow>
       if speaks_jsonrpc c then map_option je_code (Option.bind (fco_jsonrpc cd body) jr_error)
       else (case c of ClNextBlock _ \<Rightarrow> Option.bind (fco_nextblock cd body) nbr_code | _ \<Rightarrow> None))"

definition answer_status :: "net_reply \<Rightarrow> u16 option" where
  "answer_status resp = (case resp of NetError _ _ \<Rightarrow> None | HttpReply status _ \<Rightarrow> Some status)"

section \<open>What every client promises\<close>

text \<open>The class of an outcome, as the matcher and the records see it: by its rate-limit state, its error and its status.\<close>

definition fan_class_holds :: "signature \<Rightarrow> fan_send_outcome \<Rightarrow> fan_class \<Rightarrow> bool" where
  "fan_class_holds sig oc k = (case k of
     FanAccepted \<Rightarrow> fso_error oc = None \<and> fso_rate_limit_state oc = RateOk \<and> fso_send_ack_at oc \<noteq> None
       \<and> fso_http_status oc \<noteq> None \<and> fso_rpc_err_code oc = None
   | FanThrottled \<Rightarrow> fso_error oc \<noteq> None \<and> fso_rate_limit_state oc = Throttled429 \<and> fso_signature oc = sig
   | FanTimedOut \<Rightarrow> fso_error oc \<noteq> None \<and> fso_rate_limit_state oc = RateTimeout \<and> fso_http_status oc = None
       \<and> fso_rpc_err_code oc = None \<and> fso_signature oc = sig
   | FanRejected \<Rightarrow> fso_error oc \<noteq> None \<and> fso_rate_limit_state oc = RateOk \<and> fso_http_status oc \<noteq> None \<and> fso_signature oc = sig
   | FanUnreachable \<Rightarrow> fso_error oc \<noteq> None \<and> fso_rate_limit_state oc = RateOk \<and> fso_http_status oc = None
       \<and> fso_rpc_err_code oc = None \<and> fso_signature oc = sig)"

lemma fan_class_unique: "fan_class_holds sig oc k \<Longrightarrow> fan_class_holds sig oc k' \<longleftrightarrow> k' = k"
  by (cases k; cases k') (auto simp: fan_class_holds_def)

text \<open>What an outcome is to mean: exactly one class, a status, an error code.\<close>

type_synonym outcome_meaning = "fan_class \<times> u16 option \<times> i32 option"

definition outcome_means :: "signature \<Rightarrow> fan_send_outcome \<Rightarrow> outcome_meaning \<Rightarrow> bool" where
  "outcome_means sig oc m \<longleftrightarrow> (\<forall>k. fan_class_holds sig oc k \<longleftrightarrow> k = fst m)
     \<and> fso_http_status oc = fst (snd m) \<and> fso_rpc_err_code oc = snd (snd m)"

definition answer_meaning :: "fan_codec \<Rightarrow> fan_client \<Rightarrow> net_reply \<Rightarrow> outcome_meaning" where
  "answer_meaning cd c resp = (answer_class cd c resp, answer_status resp, answer_code cd c resp)"

definition mock_meaning :: "mock_mode \<Rightarrow> signature \<Rightarrow> outcome_meaning" where
  "mock_meaning mode sig = (case mode of
     AlwaysAck \<Rightarrow> (FanAccepted, Some 200, None)
   | AlwaysError _ \<Rightarrow> (FanRejected, Some 500, Some (- 32000))
   | AckHalfRandom seed \<Rightarrow> if even (xor (ucast (to_be_bytes 64 sig ! 0)) seed :: u64)
       then (FanAccepted, Some 200, None) else (FanThrottled, Some 429, None))"

definition sender_meaning :: "fan_codec \<Rightarrow> fan_client \<Rightarrow> signature \<Rightarrow> net_reply \<Rightarrow> outcome_meaning" where
  "sender_meaning cd c sig resp = (case c of ClMock _ mode \<Rightarrow> mock_meaning mode sig | _ \<Rightarrow> answer_meaning cd c resp)"

text \<open>
  What the dispatcher and the matcher rely on, whichever provider answers: the outcome has the class that the answer
  means, and the status and the error code of the answer.
\<close>

locale fan_sender_contract =
  fixes outcome :: "'r \<Rightarrow> signature \<Rightarrow> fan_send_outcome"
    and meaning :: "'r \<Rightarrow> signature \<Rightarrow> outcome_meaning"
  assumes class_tied: "fan_class_holds sig (outcome r sig) (fst (meaning r sig))"
    and status_tied: "fso_http_status (outcome r sig) = fst (snd (meaning r sig))"
    and code_tied: "fso_rpc_err_code (outcome r sig) = snd (snd (meaning r sig))"
begin

lemma told: "outcome_means sig (outcome r sig) (meaning r sig)"
  unfolding outcome_means_def using fan_class_unique [OF class_tied] by (simp add: status_tied code_tied)

end

lemma speaks_eval [simp]: "speaks_jsonrpc ClTriton" "\<not> speaks_jsonrpc (ClAstralane k)" "\<not> speaks_jsonrpc (ClBlockRazor k m)"
  "\<not> speaks_jsonrpc (ClAllenHark a)" "\<not> speaks_jsonrpc (ClNextBlock k)" "\<not> speaks_jsonrpc (ClBloxroute k)"
  by (simp_all add: speaks_jsonrpc_def fan_protocol_def)

lemma names_error_eval [simp]:
  "names_error cd (ClBlockRazor k m) t \<longleftrightarrow> Option.bind (fco_json cd t) (\<lambda>v. Option.bind (json_get ''error'' v) (\<lambda>e.
     Option.bind (json_str e) (\<lambda>s. if s \<noteq> [] then Some s else None))) \<noteq> None"
  "names_error cd (ClAllenHark a) t \<longleftrightarrow> Option.bind (fco_allenhark cd t) ahr_error \<noteq> None"
  "names_error cd (ClNextBlock k) t \<longleftrightarrow> Option.bind (fco_nextblock cd t) nbr_code \<noteq> None"
  "\<not> names_error cd (ClAstralane k) t" "\<not> names_error cd (ClBloxroute k) t"
proof -
  have str: "json_str v = Some e \<longleftrightarrow> v = JStr e" for v e by (cases v) auto
  show "names_error cd (ClBlockRazor k m) t \<longleftrightarrow> Option.bind (fco_json cd t) (\<lambda>v. Option.bind (json_get ''error'' v) (\<lambda>e.
     Option.bind (json_str e) (\<lambda>s. if s \<noteq> [] then Some s else None))) \<noteq> None"
    unfolding not_None_eq by (auto simp: names_error_def bind_eq_Some_conv str split: if_splits)
  show "names_error cd (ClAllenHark a) t \<longleftrightarrow> Option.bind (fco_allenhark cd t) ahr_error \<noteq> None"
    "names_error cd (ClNextBlock k) t \<longleftrightarrow> Option.bind (fco_nextblock cd t) nbr_code \<noteq> None"
    unfolding not_None_eq by (auto simp: names_error_def bind_eq_Some_conv)
qed (simp_all add: names_error_def)

lemmas outcome_shapes = network_outcome_def accepted_outcome_def refused_outcome_def http_rate_def rpc_rate_def
lemmas answer_eval = answer_meaning_def answer_class_def answer_status_def answer_code_def says_accepted_def says_throttled_def
  jsonrpc_error_def fan_class_holds_def outcome_shapes

interpretation rpc: fan_sender_contract
  "\<lambda>(send_at, ack_at, r) sig. parse_jsonrpc_or_text cd send_at ack_at sig r" "\<lambda>(send_at, ack_at, r) sig. answer_meaning cd ClTriton r" for cd
  by unfold_locales (auto simp: parse_jsonrpc_or_text_def answer_eval split: net_reply.splits option.splits if_splits)

interpretation fan_helius: fan_sender_contract
  "\<lambda>(send_at, ack_at, r) sig. fan_helius_outcome cd send_at ack_at sig r" "\<lambda>(send_at, ack_at, r) sig. answer_meaning cd ClTriton r" for cd
  by unfold_locales (auto simp: fan_helius_outcome_def answer_eval split: net_reply.splits option.splits if_splits)

interpretation jito_tx: fan_sender_contract
  "\<lambda>(send_at, ack_at, r) sig. fst (jito_tx_reply cd send_at ack_at sig r)" "\<lambda>(send_at, ack_at, r) sig. answer_meaning cd ClTriton r" for cd
  by unfold_locales (auto simp: jito_tx_reply_def jito_reply_def Let_def answer_eval split: net_reply.splits option.splits if_splits)

interpretation jito_bundle: fan_sender_contract
  "\<lambda>(send_at, ack_at, r) sig. fst (jito_bundle_reply cd send_at ack_at sig r)" "\<lambda>(send_at, ack_at, r) sig. answer_meaning cd ClTriton r" for cd
  by unfold_locales (auto simp: jito_bundle_reply_def jito_reply_def Let_def answer_eval split: net_reply.splits option.splits if_splits)

interpretation astralane: fan_sender_contract
  "\<lambda>(send_at, ack_at, r) sig. astralane_outcome send_at ack_at sig r" "\<lambda>(send_at, ack_at, r) sig. answer_meaning cd (ClAstralane k) r" for cd k
  by unfold_locales (auto simp: astralane_outcome_def answer_eval split: net_reply.splits if_splits)

interpretation blockrazor: fan_sender_contract
  "\<lambda>(send_at, ack_at, r) sig. blockrazor_outcome cd send_at ack_at sig r" "\<lambda>(send_at, ack_at, r) sig. answer_meaning cd (ClBlockRazor k m) r" for cd k m
  by unfold_locales (auto simp: blockrazor_outcome_def Let_def answer_eval split: net_reply.splits if_splits)

interpretation allenhark: fan_sender_contract
  "\<lambda>(send_at, ack_at, r) sig. allenhark_outcome cd send_at ack_at sig r" "\<lambda>(send_at, ack_at, r) sig. answer_meaning cd (ClAllenHark k) r" for cd k
  by unfold_locales (auto simp: allenhark_outcome_def Let_def answer_eval split: net_reply.splits if_splits)

interpretation nextblock: fan_sender_contract
  "\<lambda>(send_at, ack_at, r) sig. nextblock_outcome cd send_at ack_at sig r" "\<lambda>(send_at, ack_at, r) sig. answer_meaning cd (ClNextBlock k) r" for cd k
  by unfold_locales (auto simp: nextblock_outcome_def Let_def answer_eval split: net_reply.splits if_splits)

interpretation bloxroute: fan_sender_contract
  "\<lambda>(send_at, ack_at, r) sig. bloxroute_outcome cd send_at ack_at sig r" "\<lambda>(send_at, ack_at, r) sig. answer_meaning cd (ClBloxroute k) r" for cd k
  by unfold_locales (auto simp: bloxroute_outcome_def answer_eval split: net_reply.splits if_splits)

interpretation mock: fan_sender_contract
  "\<lambda>(name, mode, send_at, ack_at) sig. mock_outcome cd name mode send_at ack_at sig" "\<lambda>(name, mode, send_at, ack_at) sig. mock_meaning mode sig" for cd
  by unfold_locales (auto simp: mock_outcome_def mock_meaning_def Let_def fan_class_holds_def outcome_shapes
      even_iff_mod_2_eq_zero odd_iff_mod_2_eq_one split: mock_mode.splits if_splits)

lemma jsonrpc_meaning: "speaks_jsonrpc c \<Longrightarrow> answer_meaning cd c resp = answer_meaning cd ClTriton resp"
  by (cases resp) (simp_all add: answer_meaning_def answer_class_def answer_code_def says_accepted_def says_throttled_def)

lemma decode_means: "outcome_means sig (fst (fan_decode cd s t u sig resp)) (sender_meaning cd (fcl_client s) sig resp)"
proof -
  have rpc: "answer_meaning cd (fcl_client s) resp = answer_meaning cd ClTriton resp" if "fan_protocol (fcl_client s) = ''HTTP_JSONRPC''"
    using that jsonrpc_meaning by (simp add: speaks_jsonrpc_def)
  show ?thesis
    using rpc rpc.told [of sig cd "(t, u, resp)"] fan_helius.told [of sig cd "(t, u, resp)"] jito_tx.told [of sig cd "(t, u, resp)"]
      jito_bundle.told [of sig cd "(t, u, resp)"] astralane.told [of sig "(t, u, resp)" cd] blockrazor.told [of sig cd "(t, u, resp)"]
      allenhark.told [of sig cd "(t, u, resp)"] nextblock.told [of sig cd "(t, u, resp)"]
      bloxroute.told [of sig cd "(t, u, resp)"] mock.told [of sig cd "(fcl_name s, m, t, u)" for m]
    by (cases "fcl_client s") (simp_all add: fan_decode_def sender_meaning_def fan_protocol_def)
qed

lemma skip_means: "outcome_means sig (back_off_skip_outcome t sig ms) (FanThrottled, None, None)"
proof -
  have "fan_class_holds sig (back_off_skip_outcome t sig ms) FanThrottled"
    by (simp add: fan_class_holds_def back_off_skip_outcome_def)
  from fan_class_unique [OF this] show ?thesis by (simp add: outcome_means_def) (simp add: back_off_skip_outcome_def)
qed

text \<open>
  C25. Every outcome means what the provider answered.  A send that the client skips in its back-off window is
  throttled without a status.  Any other send of a provider has exactly the class of the answer (accepted, throttled or
  rejected as \<open>answer_class\<close> reads it; timed out or unreachable when there is none), the status of the answer and the
  error code it names, whichever of the twelve clients decodes it and whatever the clocks; the mock answers by
  its mode.  A send that did not succeed keeps the signature of its transaction.
\<close>

theorem fan_outcomes_classified:
  "outcome_means (fx_signature tx) (fst (fan_send cd clk post tx s))
     (if has_back_off (fcl_client s) \<and> back_off_remaining (scl_check clk) (fcl_back_off s) \<noteq> None
      then (FanThrottled, None, None)
      else sender_meaning cd (fcl_client s) (fx_signature tx) (post (fan_request s (fco_base64 cd tx))))"
  by (auto simp: fan_send_def fan_begin_def fan_finish_def skip_means decode_means case_prod_beta split: option.splits)

section \<open>The back-off is respected\<close>

text \<open>The steps of one client: its sends begin and finish in any interleaving.\<close>

datatype client_event = EvBegin instant instant fan_transaction | EvFinish instant instant instant signature net_reply

fun client_step :: "fan_codec \<Rightarrow> client_event \<Rightarrow> fan_tx_sender \<Rightarrow> fan_tx_sender" where
  "client_step cd (EvBegin t_check t_skip tx) s = s"
| "client_step cd (EvFinish send_at ack_at t_hint signature resp) s = snd (fan_finish cd send_at ack_at t_hint signature resp s)"

definition client_run :: "fan_codec \<Rightarrow> client_event list \<Rightarrow> fan_tx_sender \<Rightarrow> fan_tx_sender" where
  "client_run cd es s = fold (client_step cd) es s"

text \<open>The instant until which a finished send tells its client to wait.\<close>

definition hint_until :: "fan_codec \<Rightarrow> fan_client \<Rightarrow> client_event \<Rightarrow> instant option" where
  "hint_until cd c e = (case e of
     EvBegin _ _ _ \<Rightarrow> None
   | EvFinish send_at ack_at t_hint signature resp \<Rightarrow>
       map_option (\<lambda>ms. t_hint + unat ms * 1000000)
         (snd (fan_decode cd (fan_sender_new 0 [] [] c) send_at ack_at signature resp)))"

lemma fan_decode_hint: "snd (fan_decode cd s send_at ack_at signature resp) =
    snd (fan_decode cd (fan_sender_new 0 [] [] (fcl_client s)) send_at ack_at signature resp)"
  by (simp add: fan_decode_def fan_sender_new_def split: fan_client.splits)

lemma client_step_frame [frame]: "fcl_client (client_step cd e s) = fcl_client s" "fcl_endpoint (client_step cd e s) = fcl_endpoint s"
  by (cases e; simp add: fan_finish_def case_prod_beta split: option.splits)+

lemma client_run_frame [frame]: "fcl_client (client_run cd es s) = fcl_client s"
  unfolding client_run_def by (induction es arbitrary: s) (simp_all add: frame)

lemma recorded_until: "back_off_remaining now (record_retry_after t ms u) \<noteq> None \<longleftrightarrow>
    now \<le> t + unat ms * 1000000 \<or> back_off_remaining now u \<noteq> None"
  by (auto simp: back_off_remaining_def record_retry_after_def Let_def split: option.splits)

lemma client_step_remaining: "back_off_remaining now (fcl_back_off (client_step cd e s)) \<noteq> None \<longleftrightarrow>
    (\<exists>u. hint_until cd (fcl_client s) e = Some u \<and> now \<le> u) \<or> back_off_remaining now (fcl_back_off s) \<noteq> None"
proof (cases e)
  case (EvFinish send_at ack_at t_hint signature resp)
  then show ?thesis
    using recorded_until [of now t_hint "the (snd (fan_decode cd s send_at ack_at signature resp))" "fcl_back_off s"]
    by (auto simp: hint_until_def fan_finish_def case_prod_beta fan_decode_hint [of cd s] split: option.splits)
qed (simp add: hint_until_def)

lemma client_run_remaining: "back_off_remaining now (fcl_back_off (client_run cd es s)) \<noteq> None \<longleftrightarrow>
    (\<exists>e \<in> set es. \<exists>u. hint_until cd (fcl_client s) e = Some u \<and> now \<le> u) \<or> back_off_remaining now (fcl_back_off s) \<noteq> None"
proof (induction es arbitrary: s)
  case (Cons e es)
  have "client_run cd (e # es) s = client_run cd es (client_step cd e s)" by (simp add: client_run_def)
  then show ?case
    using Cons.IH [of "client_step cd e s"] client_step_remaining [of now cd e s] by (simp add: frame) blast
qed (simp add: client_run_def)

text \<open>
  C26. A Jito client skips a send exactly while some throttled reply it has received still asks it to wait, however
  its sends overlap and whichever reply came last: a later, shorter hint never shortens the wait.  A send that
  is not skipped posts the client's request.  The other clients never skip.
\<close>

theorem back_off_exact:
  "fan_begin cd t_check t_skip tx (client_run cd es (fan_sender_new i name endpoint c)) =
     (if has_back_off c \<and> (\<exists>e \<in> set es. \<exists>u. hint_until cd c e = Some u \<and> t_check \<le> u)
      then Inl (back_off_skip_outcome t_skip (fx_signature tx)
        (the (back_off_remaining t_check (fcl_back_off (client_run cd es (fan_sender_new i name endpoint c)))) div 1000000))
      else Inr (fan_request (client_run cd es (fan_sender_new i name endpoint c)) (fco_base64 cd tx)))"
proof -
  let ?s = "fan_sender_new i name endpoint c"
  have c: "fcl_client ?s = c" "back_off_remaining t_check (fcl_back_off ?s) = None"
    by (simp_all add: fan_sender_new_def back_off_remaining_def)
  have "back_off_remaining t_check (fcl_back_off (client_run cd es ?s)) \<noteq> None \<longleftrightarrow>
      (\<exists>e \<in> set es. \<exists>u. hint_until cd c e = Some u \<and> t_check \<le> u)"
    using client_run_remaining [of t_check cd es ?s] unfolding c by simp
  then show ?thesis
    by (cases "back_off_remaining t_check (fcl_back_off (client_run cd es ?s))") (auto simp: fan_begin_def client_run_frame c)
qed

section \<open>The hint is read back\<close>

lemma find_behind_append: "pat = p # ps \<Longrightarrow> p \<notin> set pre \<Longrightarrow> find_behind pat (pre @ pat @ tail) = Some tail"
proof (induction pre)
  case Nil
  then show ?case by (simp add: find_behind.simps [of "p # ps"])
next
  case (Cons c pre)
  then have "take (length pat) ((c # pre) @ pat @ tail) \<noteq> pat" by auto
  with Cons show ?case by (auto simp: find_behind.simps [of _ "_ # _"])
qed

text \<open>
  A throttled reply whose message asks for a delay in the words of the block engine makes every send that
  begins within that delay be skipped, whatever happens in between.
\<close>

theorem retry_hint_honoured:
  assumes "has_back_off c" "EvFinish send_at ack_at t sig (HttpReply status body) \<in> set es"
    and "fco_jsonrpc cd body = Some parsed" "jr_error parsed = Some err" "je_code err = - 32005 \<or> status = 429"
    and "je_message err = pre @ ''Retry after '' @ dec_digits ms @ unit" "CHR ''R'' \<notin> set pre"
    and "unit = [] \<or> \<not> is_ascii_digit (hd unit)" "ms < 2 ^ 64" "t_check \<le> t + ms * 1000000"
  shows "\<exists>oc. fan_begin cd t_check t_skip tx (client_run cd es (fan_sender_new i name endpoint c)) = Inl oc
    \<and> fso_rate_limit_state oc = Throttled429 \<and> fso_error oc \<noteq> None"
proof -
  have d: "dec_digits ms \<noteq> []" "list_all is_ascii_digit (dec_digits ms)" "dec_value (dec_digits ms) = ms"
    using dec_digits_read [of ms] by auto
  have "takeWhile is_ascii_digit unit = []" using assms(8) by (cases unit) auto
  then have "takeWhile is_ascii_digit (dec_digits ms @ unit) = dec_digits ms"
    using d(2) by (subst takeWhile_append2) (auto simp: list_all_iff)
  moreover have "find_behind ''Retry after '' (je_message err) = Some (dec_digits ms @ unit)"
    using find_behind_append [of "''Retry after ''" "CHR ''R''" "''etry after ''" pre "dec_digits ms @ unit"] assms(6,7) by simp
  ultimately have p: "parse_retry_after_ms (je_message err) = Some (of_nat ms)"
    using d assms(9) by (simp add: parse_retry_after_ms_def parse_u64_def)
  then have "hint_until cd c (EvFinish send_at ack_at t sig (HttpReply status body)) = Some (t + unat (of_nat ms :: u64) * 1000000)"
    using assms(1,3-5)
    by (auto simp: hint_until_def fan_decode_def fan_sender_new_def has_back_off_def jito_tx_reply_def jito_bundle_reply_def
        jito_reply_def rpc_rate_def Let_def split: fan_client.splits)
  moreover have "unat (of_nat ms :: u64) = ms" using assms(9) by (simp add: unat_of_nat)
  ultimately have "\<exists>e \<in> set es. \<exists>u. hint_until cd c e = Some u \<and> t_check \<le> u" using assms(2,10) by fastforce
  with assms(1) show ?thesis
    using back_off_exact [of cd t_check t_skip tx es i name endpoint c] by (simp add: back_off_skip_outcome_def)
qed

section \<open>Which senders there are\<close>

definition client_for :: "u8 \<Rightarrow> fan_tx_sender \<Rightarrow> fan_sender_config \<Rightarrow> bool" where
  "client_for i s sc \<longleftrightarrow> fd_id sc = i \<and> (\<exists>c. fan_client_of (fd_kind sc) (fd_auth sc) = Some c
     \<and> s = fan_sender_new i (fd_name sc) (fd_endpoint_url sc) c)"

lemma setup_step: "hm_get (setup_fan_sender sc m) i = Some s \<longleftrightarrow>
    client_for i s sc \<or> (fd_id sc \<noteq> i \<or> fan_client_of (fd_kind sc) (fd_auth sc) = None) \<and> hm_get m i = Some s"
  by (auto simp: setup_fan_sender_def client_for_def split: option.splits)

lemma setup_other: "fd_id sc \<noteq> i \<Longrightarrow> hm_get (setup_fan_sender sc m) i = hm_get m i"
  by (auto simp: setup_fan_sender_def split: option.splits)

lemma setup_others: "i \<notin> fd_id ` set scs \<Longrightarrow> hm_get (fold setup_fan_sender scs m) i = hm_get m i"
  by (induction scs arbitrary: m) (auto simp: setup_other)

lemma setup_get: "distinct (map fd_id scs) \<Longrightarrow> hm_get m i = None \<Longrightarrow>
    hm_get (fold setup_fan_sender scs m) i = Some s \<longleftrightarrow> (\<exists>sc \<in> set scs. client_for i s sc)"
proof (induction scs arbitrary: m)
  case (Cons sc scs)
  show ?case
  proof (cases "fd_id sc = i")
    case True
    then have "i \<notin> fd_id ` set scs" using Cons.prems by auto
    then have "\<forall>x \<in> set scs. \<not> client_for i s x" by (auto simp: client_for_def)
    with Cons.prems setup_others [OF \<open>i \<notin> _\<close>] show ?thesis by (simp add: setup_step)
  next
    case False
    with Cons setup_other [OF False, of m] show ?thesis by (auto simp: client_for_def)
  qed
qed simp

lemma distinct_fd_ids: "fan_validate cfg = Inr () \<Longrightarrow> distinct (map fd_id (enabled_senders cfg))"
  by (auto simp: fan_validate_def enabled_senders_def check_senders_ok intro: distinct_map_filter split: if_splits option.splits)

text \<open>With a valid configuration every enabled sender of a supported kind with the authentication that kind
  needs gets its client under its own id, and no other id has one.\<close>

lemma senders_set_up:
  assumes "fan_validate cfg = Inr ()"
  shows "hm_get (setup_fan_senders cfg) i = Some s \<longleftrightarrow>
    (\<exists>sc c. sc \<in> set (fg_senders cfg) \<and> fd_enabled sc \<and> fd_id sc = i \<and> fan_client_of (fd_kind sc) (fd_auth sc) = Some c
      \<and> s = fan_sender_new i (fd_name sc) (fd_endpoint_url sc) c)"
  using setup_get [OF distinct_fd_ids [OF assms], of "[]" i s]
  by (auto simp: setup_fan_senders_def enabled_senders_def client_for_def)

section \<open>A skipped send in the records\<close>

text \<open>
  A send that the client skips in its back-off window ends as a record: the matcher closes the attempt with the
  outcome \<open>SEND_ERROR\<close>, throttled and without a status, although nothing was posted; and the attempt is gone
  from the map the nonce sweep looks at.
\<close>

theorem skipped_send_recorded:
  assumes "has_back_off (fcl_client s)" "back_off_remaining (scl_check clk) (fcl_back_off s) = Some r"
    and "hm_get (mt_attempts mt) (trigger_id, sender_id) = Some att"
  shows "let mt' = handle_send_event cfg (fan_event_of trigger_id sender_id (fst (fan_send cd clk post tx s))) mt in
    hm_get (mt_attempts mt') (trigger_id, sender_id) = None
    \<and> (\<exists>rec. emitted mt' = emitted mt @ [rec] \<and> fr_tentative_outcome rec = TentativeSendError
        \<and> fr_rate_limit_state rec = Throttled429 \<and> fr_http_status rec = None \<and> fr_tx_signature rec = fe_signature (ar_reg att))
    \<and> snd (fan_send cd clk post tx s) = s"
proof -
  let ?oc = "back_off_skip_outcome (scl_skip clk) (fx_signature tx) (r div 1000000)"
  have "fan_send cd clk post tx s = (?oc, s)" using assms(1,2) by (simp add: fan_send_def fan_begin_def)
  then show ?thesis
    using assms(3) by (simp add: handle_send_event_def fan_event_of_def back_off_skip_outcome_def Let_def frame emitted_def
        final_send_def case_prod_beta build_record_from_attempt_def base_record_def)
qed

end
