(* ===== verification/CutoffPlan.thy ===== *)
theory CutoffPlan
  imports Complex_Main KeyStore
begin

text \<open>
  The inclusion-cutoff tool (\<open>crates/tx-cutoff/src/\<close>), its plan and its small parts: the
  configuration and its validation (\<open>config.rs\<close>), the schedule that maps a block to a send slot
  (\<open>scheduler.rs\<close>), the nonce counter of a wallet (\<open>wallet.rs\<close>), the swap direction and its call
  data (\<open>swap.rs\<close>) and the clock helpers (\<open>time.rs\<close>).  An f64 of the configuration is the real
  number it denotes (JSON has no infinities).
\<close>

type_synonym u128 = "128 word"
type_synonym u256 = "256 word"
type_synonym i64 = "64 word"
type_synonym eth_address = "160 word"

section \<open>The schedule\<close>

record cut_scheduler_cfg =
  cs_start_ms :: u64
  cs_end_ms :: u64
  cs_step_ms :: u64
  cs_samples :: u64

datatype scheduler_error = InvalidRange u64 u64 | ZeroStep | ZeroSamples

record cut_schedule =
  cu_cfg :: cut_scheduler_cfg
  cu_slots_count :: u64

definition cut_schedule_new :: "cut_scheduler_cfg \<Rightarrow> scheduler_error + cut_schedule" where
  "cut_schedule_new cfg =
     (if cs_start_ms cfg > cs_end_ms cfg then Inl (InvalidRange (cs_start_ms cfg) (cs_end_ms cfg))
      else if cs_step_ms cfg = 0 then Inl ZeroStep
      else if cs_samples cfg = 0 then Inl ZeroSamples
      else Inr \<lparr>cu_cfg = cfg, cu_slots_count = (cs_end_ms cfg - cs_start_ms cfg) div cs_step_ms cfg + 1\<rparr>)"

definition total_blocks :: "cut_schedule \<Rightarrow> u64" where
  "total_blocks sch = cu_slots_count sch * cs_samples (cu_cfg sch)"

definition slot_ms_for :: "cut_schedule \<Rightarrow> u64 \<Rightarrow> u64 option" where
  "slot_ms_for sch block_index =
     (if block_index \<ge> total_blocks sch then None
      else Some (cs_start_ms (cu_cfg sch) + block_index div cs_samples (cu_cfg sch) * cs_step_ms (cu_cfg sch)))"

definition sample_idx_for :: "cut_schedule \<Rightarrow> u64 \<Rightarrow> u64 option" where
  "sample_idx_for sch block_index =
     (if block_index \<ge> total_blocks sch then None else Some (block_index mod cs_samples (cu_cfg sch)))"

section \<open>Configuration\<close>

record cut_chain_config =
  ch_name :: string
  ch_chain_id :: u64
  ch_rpc_ws :: string
  ch_rpc_http :: string
  ch_rpc_http_send :: "string option"
  ch_bundle_url :: "string option"

definition send_url :: "cut_chain_config \<Rightarrow> string" where
  "send_url c = (case ch_rpc_http_send c of Some u \<Rightarrow> u | None \<Rightarrow> ch_rpc_http c)"

record cut_gas_config =
  ga_max_priority_fee_gwei :: real
  ga_max_fee_multiplier :: real

record cut_tracking_config =
  tg_inclusion_lookahead_blocks :: u64
  tg_abort_on_consecutive_failed_blocks :: u64

record cut_swap_config =
  sw_router_address :: string
  sw_pool_fee_tier :: u32
  sw_token_a :: string
  sw_token_b :: string
  sw_amount_in_a :: string
  sw_amount_in_b :: string
  sw_slippage_bps :: u32

record cut_wallet_config =
  wl_label :: string
  wl_private_key :: string

record cut_send_config =
  sd_worker_threads :: "nat option"
  sd_spin_window_us :: "u64 option"

definition resolved_worker_threads :: "nat \<Rightarrow> cut_send_config \<Rightarrow> nat" where
  "resolved_worker_threads wallet_count c = (case sd_worker_threads c of Some n \<Rightarrow> n | None \<Rightarrow> max wallet_count 1)"

definition resolved_spin_window_us :: "cut_send_config \<Rightarrow> u64" where
  "resolved_spin_window_us c = (case sd_spin_window_us c of Some n \<Rightarrow> n | None \<Rightarrow> 2000)"

record cut_config =
  cg_chain :: cut_chain_config
  cg_timing :: cut_scheduler_cfg
  cg_gas :: cut_gas_config
  cg_tracking :: cut_tracking_config
  cg_swap :: cut_swap_config
  cg_wallets :: "cut_wallet_config list"
  cg_send :: cut_send_config

text \<open>The snapshot written to the run directory: the wallets with their keys blanked.\<close>

definition wallet_snapshots :: "cut_config \<Rightarrow> cut_wallet_config list" where
  "wallet_snapshots cfg = map (\<lambda>w. \<lparr>wl_label = wl_label w, wl_private_key = ''***redacted***''\<rparr>) (cg_wallets cfg)"

definition to_snapshot :: "cut_config \<Rightarrow> cut_config" where
  "to_snapshot cfg = cfg\<lparr>cg_wallets := wallet_snapshots cfg\<rparr>"

datatype cut_config_error =
    NoWallets | DuplicateLabel string | BadPrivateKey string | StartNotBeforeEnd u64 u64 | StepZero
  | SamplesZero | LookaheadTooSmall | NegativePriorityFee | MultiplierBelowOne | BadSwapAddress

definition is_hex_address :: "string \<Rightarrow> bool" where
  "is_hex_address s \<longleftrightarrow> take 2 s = ''0x'' \<and> length s = 42
     \<and> (\<forall>c \<in> set (drop 2 s). c \<in> set ''0123456789abcdefABCDEF'')"

fun check_wallets :: "string set \<Rightarrow> cut_wallet_config list \<Rightarrow> cut_config_error option" where
  "check_wallets labels [] = None"
| "check_wallets labels (w # ws) =
     (if wl_label w \<in> labels then Some (DuplicateLabel (wl_label w))
      else if take 2 (wl_private_key w) \<noteq> ''0x'' \<or> length (wl_private_key w) \<noteq> 66 then Some (BadPrivateKey (wl_label w))
      else check_wallets (insert (wl_label w) labels) ws)"

definition cut_validate :: "cut_config \<Rightarrow> cut_config_error + unit" where
  "cut_validate cfg =
     (if cg_wallets cfg = [] then Inl NoWallets
      else (case check_wallets {} (cg_wallets cfg) of
        Some e \<Rightarrow> Inl e
      | None \<Rightarrow>
          (let t = cg_timing cfg; sw = cg_swap cfg in
           if cs_start_ms t \<ge> cs_end_ms t then Inl (StartNotBeforeEnd (cs_start_ms t) (cs_end_ms t))
           else if cs_step_ms t = 0 then Inl StepZero
           else if cs_samples t = 0 then Inl SamplesZero
           else if tg_inclusion_lookahead_blocks (cg_tracking cfg) < 2 then Inl LookaheadTooSmall
           else if ga_max_priority_fee_gwei (cg_gas cfg) < 0 then Inl NegativePriorityFee
           else if ga_max_fee_multiplier (cg_gas cfg) < 1 then Inl MultiplierBelowOne
           else if \<not> is_hex_address (sw_router_address sw) \<or> \<not> is_hex_address (sw_token_a sw)
             \<or> \<not> is_hex_address (sw_token_b sw) then Inl BadSwapAddress
           else Inr ())))"

section \<open>Wallets and swaps\<close>

record cut_wallet =
  cw_label :: string
  cw_address :: eth_address
  cw_nonce :: u64

definition set_nonce :: "u64 \<Rightarrow> cut_wallet \<Rightarrow> cut_wallet" where
  "set_nonce n w = w\<lparr>cw_nonce := n\<rparr>"

definition next_nonce :: "cut_wallet \<Rightarrow> u64" where
  "next_nonce w = cw_nonce w"

definition consume_nonce :: "cut_wallet \<Rightarrow> u64 \<times> cut_wallet" where
  "consume_nonce w = (cw_nonce w, w\<lparr>cw_nonce := cw_nonce w + 1\<rparr>)"

datatype swap_direction = AtoB | BtoA

type_synonym ping_pong = u8

definition initialize_with_amounts :: "u256 \<Rightarrow> u256 \<Rightarrow> u256 \<Rightarrow> u256 \<Rightarrow> ping_pong option" where
  "initialize_with_amounts balance_a amount_in_a balance_b amount_in_b =
     (case (balance_a \<ge> amount_in_a, balance_b \<ge> amount_in_b) of
        (True, _) \<Rightarrow> Some 0
      | (False, True) \<Rightarrow> Some 1
      | (False, False) \<Rightarrow> None)"

definition current_direction :: "ping_pong \<Rightarrow> swap_direction" where
  "current_direction st = (if st = 0 then AtoB else BtoA)"

definition ping_pong_advance :: "ping_pong \<Rightarrow> ping_pong" where
  "ping_pong_advance st = 1 - st"

record exact_input_single =
  ei_token_in :: eth_address
  ei_token_out :: eth_address
  ei_fee :: u32
  ei_recipient :: eth_address
  ei_amount_in :: u256
  ei_amount_out_minimum :: u256
  ei_sqrt_price_limit :: u256

record swap_encoder =
  se_token_a :: eth_address
  se_token_b :: eth_address
  se_fee :: u32
  se_amount_in_a :: u256
  se_amount_in_b :: u256
  se_recipient :: eth_address

datatype swap_error = BadAddress string | BadAmount string

text \<open>\<open>parse_addr\<close> and \<open>parse_amount\<close> are the parsers of the Ethereum types.\<close>

definition swap_encoder_new :: "(string \<Rightarrow> string + eth_address) \<Rightarrow> (string \<Rightarrow> string + u256) \<Rightarrow>
    cut_swap_config \<Rightarrow> eth_address \<Rightarrow> swap_error + swap_encoder" where
  "swap_encoder_new parse_addr parse_amount cfg recipient =
     (case parse_addr (sw_token_a cfg) of
        Inl e \<Rightarrow> Inl (BadAddress e)
      | Inr token_a \<Rightarrow> (case parse_addr (sw_token_b cfg) of
          Inl e \<Rightarrow> Inl (BadAddress e)
        | Inr token_b \<Rightarrow> (case parse_amount (sw_amount_in_a cfg) of
            Inl e \<Rightarrow> Inl (BadAmount e)
          | Inr amount_in_a \<Rightarrow> (case parse_amount (sw_amount_in_b cfg) of
              Inl e \<Rightarrow> Inl (BadAmount e)
            | Inr amount_in_b \<Rightarrow> Inr \<lparr>se_token_a = token_a, se_token_b = token_b, se_fee = sw_pool_fee_tier cfg,
                se_amount_in_a = amount_in_a, se_amount_in_b = amount_in_b, se_recipient = recipient\<rparr>))))"

definition swap_params :: "swap_encoder \<Rightarrow> swap_direction \<Rightarrow> exact_input_single" where
  "swap_params se direction =
     (let (token_in, token_out, amount_in) = (case direction of
          AtoB \<Rightarrow> (se_token_a se, se_token_b se, se_amount_in_a se)
        | BtoA \<Rightarrow> (se_token_b se, se_token_a se, se_amount_in_b se))
      in \<lparr>ei_token_in = token_in, ei_token_out = token_out, ei_fee = se_fee se, ei_recipient = se_recipient se,
          ei_amount_in = amount_in, ei_amount_out_minimum = 0, ei_sqrt_price_limit = 0\<rparr>)"

section \<open>Clocks\<close>

text \<open>Unix milliseconds are i64; \<open>offset_ms as u64\<close> is taken of a positive number.\<close>

definition target_instant_from_unix_ms :: "instant \<Rightarrow> i64 \<Rightarrow> i64 \<Rightarrow> instant" where
  "target_instant_from_unix_ms ref_instant ref_unix_ms target_unix_ms =
     (let offset_ms = target_unix_ms - ref_unix_ms in
      if sint offset_ms \<le> 0 then ref_instant else ref_instant + unat offset_ms * 1000000)"

text \<open>The busy wait of \<open>hybrid_sleep_until_with_window\<close> on the successive readings of the clock: the
  first reading decides on the early return, the sleep ends before reading \<open>1\<close>, and the loop reads
  until the target is reached.  It returns the number of readings.\<close>

partial_function (option) spin_until :: "(nat \<Rightarrow> instant) \<Rightarrow> instant \<Rightarrow> nat \<Rightarrow> nat option" where
  "spin_until clk target i = (if clk i < target then spin_until clk target (i + 1) else Some (i + 1))"

definition hybrid_sleep :: "(nat \<Rightarrow> instant) \<Rightarrow> instant \<Rightarrow> nat option" where
  "hybrid_sleep clk target = (if target \<le> clk 0 then Some 1 else spin_until clk target 1)"

text \<open>How long the task sleeps before it spins: \<open>None\<close>, it does not.\<close>

definition sleep_before_spin :: "instant \<Rightarrow> instant \<Rightarrow> duration \<Rightarrow> duration option" where
  "sleep_before_spin now target spin_window =
     (if target \<le> now then None else if target > now + spin_window then Some (target - now - spin_window) else None)"

section \<open>The plan enumerates every slot and sample\<close>

lemma concat_grid: "concat (map (\<lambda>k. map (f k) [0..<m]) [0..<n]) = map (\<lambda>i. f (i div m) (i mod m)) [0..<n * m]"
  if "0 < m" for f :: "nat \<Rightarrow> nat \<Rightarrow> 'a"
proof (induction n)
  case (Suc n)
  have "[0..<Suc n * m] = [0..<n * m] @ map (\<lambda>j. n * m + j) [0..<m]"
    using map_add_upt [of "n * m" m] upt_add_eq_append [of 0 "n * m" m] by (simp add: add.commute)
  with Suc.IH that show ?case by (simp cong: map_cong)
qed simp

lemma schedule_new_Inr:
  assumes "cut_schedule_new cfg = Inr sch"
  shows "cs_start_ms cfg \<le> cs_end_ms cfg" "cs_step_ms cfg \<noteq> 0" "cs_samples cfg \<noteq> 0" "cu_cfg sch = cfg"
    "cu_slots_count sch = (cs_end_ms cfg - cs_start_ms cfg) div cs_step_ms cfg + 1"
  using assms by (auto simp: cut_schedule_new_def split: if_splits)

text \<open>The slots of a configuration, read as numbers.\<close>

definition slot_count :: "cut_scheduler_cfg \<Rightarrow> nat" where
  "slot_count cfg = (unat (cs_end_ms cfg) - unat (cs_start_ms cfg)) div unat (cs_step_ms cfg) + 1"

lemma slots_count_nat:
  assumes "cut_schedule_new cfg = Inr sch" "slot_count cfg * unat (cs_samples cfg) < 2 ^ 64"
  shows "unat (cu_slots_count sch) = slot_count cfg" "unat (total_blocks sch) = slot_count cfg * unat (cs_samples cfg)"
proof -
  note new = schedule_new_Inr [OF assms(1)]
  have "slot_count cfg * 1 \<le> slot_count cfg * unat (cs_samples cfg)"
    using new(3) by (intro mult_le_mono2) (simp add: Suc_le_eq unat_gt_0)
  then have small: "slot_count cfg < 2 ^ 64" using assms(2) by linarith
  have "unat ((cs_end_ms cfg - cs_start_ms cfg) div cs_step_ms cfg) + 1 = slot_count cfg"
    using new(1) by (simp add: slot_count_def unat_div_distrib unat_sub word_le_nat_alt)
  then show c: "unat (cu_slots_count sch) = slot_count cfg"
    using small unfolding new(5) by (subst unat_add_lem [THEN iffD1]) simp_all
  show "unat (total_blocks sch) = slot_count cfg * unat (cs_samples cfg)"
    using assms(2) c unfolding total_blocks_def new(4) by (subst unat_mult_lem [THEN iffD1]) simp_all
qed

text \<open>The plan of a run is exactly the grid of the configuration: block after block it visits the send
  slots from the first to the last in steps, each as often as samples were asked for, numbered from
  zero; no slot lies outside the configured range, and after the last block there is no slot.\<close>

theorem plan_is_grid:
  assumes "cut_schedule_new cfg = Inr sch" "slot_count cfg * unat (cs_samples cfg) < 2 ^ 64"
  shows "map (\<lambda>i. (map_option unat (slot_ms_for sch (of_nat i)), map_option unat (sample_idx_for sch (of_nat i)))) [0..<unat (total_blocks sch)]
      = concat (map (\<lambda>k. map (\<lambda>j. (Some (unat (cs_start_ms cfg) + k * unat (cs_step_ms cfg)), Some j)) [0..<unat (cs_samples cfg)]) [0..<slot_count cfg])
    \<and> (\<forall>i ms. slot_ms_for sch i = Some ms \<longrightarrow> cs_start_ms cfg \<le> ms \<and> ms \<le> cs_end_ms cfg)
    \<and> slot_ms_for sch (total_blocks sch) = None"
proof -
  note new = schedule_new_Inr [OF assms(1)] and cnt = slots_count_nat [OF assms]
  let ?m = "unat (cs_samples cfg)" and ?s = "unat (cs_start_ms cfg)" and ?d = "unat (cs_step_ms cfg)"
  have m: "0 < ?m" "0 < ?d" using new(2,3) by (simp_all add: unat_gt_0)
  have slot: "map_option unat (slot_ms_for sch i) = Some (?s + unat i div ?m * ?d)
      \<and> map_option unat (sample_idx_for sch i) = Some (unat i mod ?m) \<and> ?s + unat i div ?m * ?d \<le> unat (cs_end_ms cfg)"
    if i: "unat i < unat (total_blocks sch)" for i :: u64
  proof -
    have "unat i div ?m \<le> (unat (cs_end_ms cfg) - ?s) div ?d"
      using i unfolding cnt(2) slot_count_def by (simp add: less_mult_imp_div_less less_Suc_eq_le [symmetric])
    then have "unat i div ?m * ?d \<le> unat (cs_end_ms cfg) - ?s"
      by (meson div_times_less_eq_dividend mult_le_mono1 order_trans)
    then have le: "?s + unat i div ?m * ?d \<le> unat (cs_end_ms cfg)" using new(1) by (simp add: word_le_nat_alt)
    then have lt: "?s + unat i div ?m * ?d < 2 ^ 64" using unat_bound [of "cs_end_ms cfg"] by simp
    then have "unat (i div cs_samples cfg * cs_step_ms cfg) = unat i div ?m * ?d"
      by (subst unat_mult_lem [THEN iffD1]) (simp_all add: unat_div_distrib)
    with lt have "unat (cs_start_ms cfg + i div cs_samples cfg * cs_step_ms cfg) = ?s + unat i div ?m * ?d"
      by (subst unat_add_lem [THEN iffD1]) simp_all
    with le i show ?thesis
      by (simp add: slot_ms_for_def sample_idx_for_def new(4) word_le_nat_alt not_le unat_mod_distrib)
  qed
  have "map (\<lambda>i. (map_option unat (slot_ms_for sch (of_nat i)), map_option unat (sample_idx_for sch (of_nat i)))) [0..<unat (total_blocks sch)]
      = map (\<lambda>i. (Some (?s + i div ?m * ?d), Some (i mod ?m))) [0..<slot_count cfg * ?m]"
  proof (unfold cnt(2), intro map_cong refl)
    fix i assume "i \<in> set [0..<slot_count cfg * ?m]"
    then have "unat (of_nat i :: u64) = i" "i < unat (total_blocks sch)" using assms(2) cnt(2) by (simp_all add: unat_of_nat)
    with slot [of "of_nat i"] show "(map_option unat (slot_ms_for sch (of_nat i)), map_option unat (sample_idx_for sch (of_nat i)))
        = (Some (?s + i div ?m * ?d), Some (i mod ?m))" by simp
  qed
  moreover have "cs_start_ms cfg \<le> ms \<and> ms \<le> cs_end_ms cfg" if "slot_ms_for sch i = Some ms" for i ms
  proof -
    have "unat i < unat (total_blocks sch)" using that by (simp add: slot_ms_for_def word_le_nat_alt not_le split: if_splits)
    with slot [of i] that show ?thesis by (auto simp: word_le_nat_alt)
  qed
  ultimately show ?thesis
    using concat_grid [OF m(1), of "\<lambda>k j. (Some (?s + k * ?d), Some j)" "slot_count cfg"] by (simp add: slot_ms_for_def)
qed

definition demo_plan_cfg :: cut_scheduler_cfg where
  "demo_plan_cfg = \<lparr>cs_start_ms = 100, cs_end_ms = 350, cs_step_ms = 100, cs_samples = 2\<rparr>"

theorem plan_is_grid_witness:
  "\<exists>sch. cut_schedule_new demo_plan_cfg = Inr sch
    \<and> map (\<lambda>i. (map_option unat (slot_ms_for sch (of_nat i)), map_option unat (sample_idx_for sch (of_nat i)))) [0..<unat (total_blocks sch)]
      = [(Some 100, Some 0), (Some 100, Some 1), (Some 200, Some 0), (Some 200, Some 1), (Some 300, Some 0), (Some 300, Some 1)]"
proof -
  obtain sch where sch: "cut_schedule_new demo_plan_cfg = Inr sch" by (simp add: cut_schedule_new_def demo_plan_cfg_def)
  moreover have "slot_count demo_plan_cfg * unat (cs_samples demo_plan_cfg) < 2 ^ 64" "slot_count demo_plan_cfg = 3"
    by (simp_all add: slot_count_def demo_plan_cfg_def)
  ultimately show ?thesis using plan_is_grid [OF sch] by (simp add: demo_plan_cfg_def upt_rec)
qed

text \<open>A validated configuration always has a plan.\<close>

lemma validated_plan:
  assumes "cut_validate cfg = Inr ()"
  obtains sch where "cut_schedule_new (cg_timing cfg) = Inr sch"
proof -
  let ?t = "cg_timing cfg"
  have "\<not> cs_start_ms ?t > cs_end_ms ?t" "cs_step_ms ?t \<noteq> 0" "cs_samples ?t \<noteq> 0"
    using assms by (auto simp: cut_validate_def Let_def split: option.splits if_splits)
  then show thesis by (intro that) (simp add: cut_schedule_new_def)
qed

text \<open>The snapshot in the run directory tells nothing about the keys.\<close>

lemma snapshot_blind:
  assumes "map wl_label (cg_wallets cfg) = map wl_label (cg_wallets cfg')" "cfg\<lparr>cg_wallets := []\<rparr> = cfg'\<lparr>cg_wallets := []\<rparr>"
  shows "to_snapshot cfg = to_snapshot cfg'"
proof -
  have "wallet_snapshots cfg = map (\<lambda>l. \<lparr>wl_label = l, wl_private_key = ''***redacted***''\<rparr>) (map wl_label (cg_wallets cfg))" for cfg
    by (simp add: wallet_snapshots_def)
  with assms have "wallet_snapshots cfg = wallet_snapshots cfg'" by metis
  moreover have "to_snapshot c = (c\<lparr>cg_wallets := []\<rparr>)\<lparr>cg_wallets := wallet_snapshots c\<rparr>" for c by (simp add: to_snapshot_def)
  ultimately show ?thesis using assms(2) by metis
qed

section \<open>The timed wait\<close>

text \<open>The wait before a send returns as soon as the clock has been read past the target, and never before:
  at its return the last reading is past the target, every earlier one was not.  It does not return when the
  clock never gets there.\<close>

lemma spin_until_Some:
  assumes "i \<le> j" "clk j \<ge> target" "\<forall>k. i \<le> k \<and> k < j \<longrightarrow> clk k < target"
  shows "spin_until clk target i = Some (j + 1)"
  using assms
proof (induction "j - i" arbitrary: i)
  case 0
  then show ?case by (subst spin_until.simps) simp
next
  case (Suc n)
  then show ?case by (subst spin_until.simps) (simp add: Suc_le_eq)
qed

theorem wait_returns_at_target:
  assumes "\<exists>j \<ge> 1. clk j \<ge> target"
  shows "\<exists>n. hybrid_sleep clk target = Some n \<and> n \<ge> 1 \<and> clk (n - 1) \<ge> target \<and> (\<forall>k < n - 1. clk k < target)"
proof (cases "target \<le> clk 0")
  case True
  then show ?thesis by (simp add: hybrid_sleep_def)
next
  case False
  define j where "j = (LEAST j. 1 \<le> j \<and> clk j \<ge> target)"
  have j: "1 \<le> j" "clk j \<ge> target" using LeastI_ex [OF assms] by (auto simp: j_def)
  have least: "clk k < target" if "1 \<le> k" "k < j" for k
    using not_less_Least [of k "\<lambda>j. 1 \<le> j \<and> clk j \<ge> target"] that by (auto simp: j_def not_le)
  have "hybrid_sleep clk target = Some (j + 1)"
    using False j least spin_until_Some [of 1 j target clk] by (simp add: hybrid_sleep_def)
  moreover have "clk k < target" if "k < j" for k using False least [of k] that by (cases k) auto
  ultimately show ?thesis using j by simp
qed

theorem wait_returns_at_target_witness: "hybrid_sleep (\<lambda>i. 10 * i) 25 = Some 4"
proof -
  have "\<exists>j \<ge> 1. (10 * j :: nat) \<ge> 25" by (rule exI [of _ 3]) simp
  from wait_returns_at_target [OF this] obtain n where n: "hybrid_sleep (\<lambda>i. 10 * i) 25 = Some n"
    "n \<ge> 1" "10 * (n - 1) \<ge> 25" "\<forall>k < n - 1. 10 * k < (25 :: nat)" by blast
  have "\<not> 3 < n - 1" using n(4) by force
  with n show ?thesis by simp
qed

end
