(* ===== verification/CutoffTracker.thy ===== *)
theory CutoffTracker
  imports Complex_Main CutoffPlan BTreeMap
begin

text \<open>
  The inclusion tracker (\<open>crates/tx-cutoff/src/tracker.rs\<close>) and the statistics per send slot
  (\<open>report.rs\<close>).  A histogram is the list of the values recorded in it; its quantile function
  and the f64 comparison of a rate with a threshold are parameters.
\<close>

declare split_paired_All [simp del] split_paired_Ex [simp del]

section \<open>The tracker\<close>

datatype inclusion_status =
    PendingInclusion (is_target_block: u64)
  | IncludedTarget
  | IncludedLate u64
  | DroppedTx
  | SendErrorTx string

fun is_pending_inclusion :: "inclusion_status \<Rightarrow> bool" where
  "is_pending_inclusion (PendingInclusion t) = True"
| "is_pending_inclusion _ = False"

record resolved_tx =
  rt_tx_hash :: hash
  rt_status :: inclusion_status
  rt_included_block :: "u64 option"

record cut_tracker =
  tk_lookahead :: u64
  tk_states :: "(hash, inclusion_status) hmap"
  tk_targets :: "(hash, u64) hmap"
  tk_resolved :: "(hash, resolved_tx) hmap"

definition tracker_new_cut :: "u64 \<Rightarrow> cut_tracker" where
  "tracker_new_cut lookahead = \<lparr>tk_lookahead = lookahead, tk_states = [], tk_targets = [], tk_resolved = []\<rparr>"

definition record_sent :: "hash \<Rightarrow> u64 \<Rightarrow> cut_tracker \<Rightarrow> cut_tracker" where
  "record_sent tx target_block tk =
     tk\<lparr>tk_states := hm_insert tx (PendingInclusion target_block) (tk_states tk),
        tk_targets := hm_insert tx target_block (tk_targets tk)\<rparr>"

definition record_send_error :: "hash \<Rightarrow> string \<Rightarrow> cut_tracker \<Rightarrow> cut_tracker" where
  "record_send_error tx err tk =
     tk\<lparr>tk_states := hm_insert tx (SendErrorTx err) (tk_states tk),
        tk_resolved := hm_insert tx \<lparr>rt_tx_hash = tx, rt_status = SendErrorTx err, rt_included_block = None\<rparr> (tk_resolved tk)\<rparr>"

text \<open>What a block says about one transaction.  The index \<open>self.targets[tx]\<close> would panic without a
  target; \<open>tracker_ok\<close> below shows there is one.\<close>

definition verdict :: "u64 \<Rightarrow> hash set \<Rightarrow> cut_tracker \<Rightarrow> hash \<times> inclusion_status \<Rightarrow> resolved_tx option" where
  "verdict block_num tx_hashes tk e = (let (tx, state) = e in
     if \<not> is_pending_inclusion state then None
     else (case hm_get (tk_targets tk) tx of
        None \<Rightarrow> None
      | Some target \<Rightarrow>
          if tx \<in> tx_hashes
          then Some \<lparr>rt_tx_hash = tx,
                 rt_status = (if block_num = target then IncludedTarget else IncludedLate (sat_sub block_num target)),
                 rt_included_block = Some block_num\<rparr>
          else if block_num > target + tk_lookahead tk
          then Some \<lparr>rt_tx_hash = tx, rt_status = DroppedTx, rt_included_block = None\<rparr>
          else None))"

definition resolve_tx :: "resolved_tx \<Rightarrow> cut_tracker \<Rightarrow> cut_tracker" where
  "resolve_tx r tk = tk\<lparr>tk_states := hm_insert (rt_tx_hash r) (rt_status r) (tk_states tk),
     tk_resolved := hm_insert (rt_tx_hash r) r (tk_resolved tk)\<rparr>"

definition observe_block :: "u64 \<Rightarrow> hash set \<Rightarrow> cut_tracker \<Rightarrow> cut_tracker" where
  "observe_block block_num tx_hashes tk =
     fold resolve_tx (List.map_filter (verdict block_num tx_hashes tk) (tk_states tk)) tk"

definition tracker_status :: "hash \<Rightarrow> cut_tracker \<Rightarrow> inclusion_status option" where
  "tracker_status tx tk = hm_get (tk_states tk) tx"

definition pending_count :: "cut_tracker \<Rightarrow> nat" where
  "pending_count tk = length (filter (\<lambda>e. is_pending_inclusion (snd e)) (tk_states tk))"

definition drain_resolved :: "cut_tracker \<Rightarrow> resolved_tx list \<times> cut_tracker" where
  "drain_resolved tk = (map snd (tk_resolved tk), tk\<lparr>tk_resolved := []\<rparr>)"

section \<open>Records and statistics\<close>

datatype inclusion_kind = KTarget | KLate u64 | KDropped | KPending | KSendError

record cut_record =
  cr_block_idx :: u64
  cr_block_num :: u64
  cr_block_hash :: hash
  cr_slot_ms :: u64
  cr_sample_idx :: u64
  cr_wallet :: string
  cr_tx_hash :: "hash option"
  cr_nonce :: u64
  cr_target_unix_ms :: i64
  cr_sent_at_unix_ms :: i64
  cr_wake_jitter_us :: u64
  cr_rpc_rtt_us :: u64
  cr_send_result :: string
  cr_inclusion :: inclusion_kind
  cr_included_block :: "u64 option"

record slot_stats =
  sx_slot_ms :: u64
  sx_sent :: u64
  sx_included_target :: u64
  sx_included_late :: u64
  sx_dropped :: u64
  sx_errors :: u64
  sx_wake_p50 :: u64
  sx_wake_p99 :: u64
  sx_rtt_p50 :: u64
  sx_rtt_p99 :: u64

definition slot_stats_new :: "u64 \<Rightarrow> slot_stats" where
  "slot_stats_new slot_ms = \<lparr>sx_slot_ms = slot_ms, sx_sent = 0, sx_included_target = 0, sx_included_late = 0,
     sx_dropped = 0, sx_errors = 0, sx_wake_p50 = 0, sx_wake_p99 = 0, sx_rtt_p50 = 0, sx_rtt_p99 = 0\<rparr>"

record slot_aggregator =
  sa_slots :: "(u64, slot_stats) btree"
  sa_wake_hists :: "(u64, u64 list) btree"
  sa_rtt_hists :: "(u64, u64 list) btree"

definition aggregator_new :: slot_aggregator where
  "aggregator_new = \<lparr>sa_slots = [], sa_wake_hists = [], sa_rtt_hists = []\<rparr>"

definition count_inclusion :: "inclusion_kind \<Rightarrow> slot_stats \<Rightarrow> slot_stats" where
  "count_inclusion k s = (case k of
       KPending \<Rightarrow> s\<lparr>sx_sent := sx_sent s + 1\<rparr>
     | KSendError \<Rightarrow> s\<lparr>sx_sent := sx_sent s + 1, sx_errors := sx_errors s + 1\<rparr>
     | KTarget \<Rightarrow> s\<lparr>sx_included_target := sx_included_target s + 1\<rparr>
     | KLate off \<Rightarrow> s\<lparr>sx_included_late := sx_included_late s + 1\<rparr>
     | KDropped \<Rightarrow> s\<lparr>sx_dropped := sx_dropped s + 1\<rparr>)"

definition hist_record :: "u64 \<Rightarrow> u64 \<Rightarrow> (u64, u64 list) btree \<Rightarrow> (u64, u64 list) btree" where
  "hist_record slot_ms v m = bt_insert slot_ms (bt_get_or [] m slot_ms @ [v]) m"

definition agg_ingest :: "cut_record \<Rightarrow> slot_aggregator \<Rightarrow> slot_aggregator" where
  "agg_ingest r sa =
     (let s = bt_get_or (slot_stats_new (cr_slot_ms r)) (sa_slots sa) (cr_slot_ms r);
          sa1 = sa\<lparr>sa_slots := bt_insert (cr_slot_ms r) (count_inclusion (cr_inclusion r) s) (sa_slots sa)\<rparr>
      in if cr_inclusion r = KPending \<or> cr_inclusion r = KSendError
         then sa1\<lparr>sa_wake_hists := hist_record (cr_slot_ms r) (cr_wake_jitter_us r) (sa_wake_hists sa1),
                  sa_rtt_hists := hist_record (cr_slot_ms r) (cr_rpc_rtt_us r) (sa_rtt_hists sa1)\<rparr>
         else sa1)"

text \<open>\<open>quantile h q\<close> is \<open>value_at_quantile\<close> at \<open>q\<close> per cent.\<close>

definition finalize_slot :: "(u64 list \<Rightarrow> nat \<Rightarrow> u64) \<Rightarrow> slot_aggregator \<Rightarrow> u64 \<times> slot_stats \<Rightarrow> u64 \<times> slot_stats" where
  "finalize_slot quantile sa e = (let (slot, s) = e;
       s1 = (case bt_get (sa_wake_hists sa) slot of None \<Rightarrow> s
         | Some h \<Rightarrow> s\<lparr>sx_wake_p50 := quantile h 50, sx_wake_p99 := quantile h 99\<rparr>);
       s2 = (case bt_get (sa_rtt_hists sa) slot of None \<Rightarrow> s1
         | Some h \<Rightarrow> s1\<lparr>sx_rtt_p50 := quantile h 50, sx_rtt_p99 := quantile h 99\<rparr>)
     in (slot, s2))"

definition agg_finalize :: "(u64 list \<Rightarrow> nat \<Rightarrow> u64) \<Rightarrow> slot_aggregator \<Rightarrow> slot_aggregator" where
  "agg_finalize quantile sa = sa\<lparr>sa_slots := map (finalize_slot quantile sa) (sa_slots sa)\<rparr>"

definition slots_ordered :: "slot_aggregator \<Rightarrow> slot_stats list" where
  "slots_ordered sa = map snd (sa_slots sa)"

text \<open>\<open>at_least n d p\<close> is \<open>n as f64 / d as f64 >= p as f64 / 100.0\<close>.\<close>

definition best_slot :: "(u64 \<Rightarrow> u64 \<Rightarrow> u64 \<Rightarrow> bool) \<Rightarrow> u64 \<Rightarrow> slot_stats list \<Rightarrow> u64 option" where
  "best_slot at_least p ss = fold (\<lambda>s best.
     if sx_sent s = 0 then best
     else if at_least (sx_included_target s) (sx_sent s) p then Some (sx_slot_ms s) else best) ss None"

definition cutoffs :: "(u64 \<Rightarrow> u64 \<Rightarrow> u64 \<Rightarrow> bool) \<Rightarrow> u64 list \<Rightarrow> slot_aggregator \<Rightarrow> (u64, u64) btree" where
  "cutoffs at_least percentiles sa = fold (\<lambda>p out.
     case best_slot at_least p (slots_ordered sa) of Some slot \<Rightarrow> bt_insert p slot out | None \<Rightarrow> out) percentiles []"

text \<open>The totals of the printed report: sent, target, late, dropped, errors.\<close>

definition report_totals :: "slot_aggregator \<Rightarrow> u64 \<times> u64 \<times> u64 \<times> u64 \<times> u64" where
  "report_totals sa = fold (\<lambda>s (sent, target, late, dropped, errors).
     (sent + sx_sent s, target + sx_included_target s, late + sx_included_late s, dropped + sx_dropped s, errors + sx_errors s))
     (slots_ordered sa) (0, 0, 0, 0, 0)"

definition agg_run :: "cut_record list \<Rightarrow> slot_aggregator" where
  "agg_run rs = fold agg_ingest rs aggregator_new"

section \<open>What the tracker does\<close>

definition tracker_ok :: "cut_tracker \<Rightarrow> bool" where
  "tracker_ok tk \<longleftrightarrow> hm_ok (tk_states tk) \<and> hm_ok (tk_targets tk) \<and> hm_ok (tk_resolved tk)
     \<and> (\<forall>tx t. hm_get (tk_states tk) tx = Some (PendingInclusion t) \<longrightarrow> hm_get (tk_targets tk) tx = Some t)
     \<and> (\<forall>tx r. hm_get (tk_resolved tk) tx = Some r \<longrightarrow> rt_tx_hash r = tx)"

lemma tracker_ok_new [simp]: "tracker_ok (tracker_new_cut l)"
  by (simp add: tracker_ok_def tracker_new_cut_def)

lemma tracker_ok_sent [simp]: "tracker_ok tk \<Longrightarrow> tracker_ok (record_sent tx b tk)"
  by (auto simp: tracker_ok_def record_sent_def)

lemma tracker_ok_error [simp]: "tracker_ok tk \<Longrightarrow> tracker_ok (record_send_error tx e tk)"
  by (auto simp: tracker_ok_def record_send_error_def)

lemma tracker_ok_drain [simp]: "tracker_ok tk \<Longrightarrow> tracker_ok (snd (drain_resolved tk))"
  by (simp add: tracker_ok_def drain_resolved_def)

lemma verdict_hash: "verdict n S tk e = Some r \<Longrightarrow> rt_tx_hash r = fst e \<and> \<not> is_pending_inclusion (rt_status r)"
  by (auto simp: verdict_def Let_def split: prod.splits if_splits option.splits)

text \<open>Resolving a list of verdicts, read back key by key.\<close>

lemma resolve_list:
  "tracker_ok tk \<Longrightarrow> \<forall>r \<in> set rs. \<not> is_pending_inclusion (rt_status r) \<Longrightarrow> distinct (map rt_tx_hash rs) \<Longrightarrow>
   tracker_ok (fold resolve_tx rs tk)
   \<and> tk_targets (fold resolve_tx rs tk) = tk_targets tk \<and> tk_lookahead (fold resolve_tx rs tk) = tk_lookahead tk
   \<and> (\<forall>tx. hm_get (tk_states (fold resolve_tx rs tk)) tx
        = (case find (\<lambda>r. rt_tx_hash r = tx) rs of Some r \<Rightarrow> Some (rt_status r) | None \<Rightarrow> hm_get (tk_states tk) tx))
   \<and> (\<forall>tx. hm_get (tk_resolved (fold resolve_tx rs tk)) tx
        = (case find (\<lambda>r. rt_tx_hash r = tx) rs of Some r \<Rightarrow> Some r | None \<Rightarrow> hm_get (tk_resolved tk) tx))"
proof (induction rs arbitrary: tk)
  case (Cons r rs)
  let ?tk = "resolve_tx r tk"
  have "tracker_ok ?tk" using Cons.prems by (auto simp: tracker_ok_def resolve_tx_def)
  moreover have "find (\<lambda>q. rt_tx_hash q = rt_tx_hash r) rs = None"
    using Cons.prems(3) by (auto simp: find_None_iff) (metis image_eqI)
  ultimately show ?case using Cons.IH [of ?tk] Cons.prems by (auto simp: resolve_tx_def split: option.split)
qed simp

lemma find_map_filter:
  assumes "\<And>e r. f e = Some r \<Longrightarrow> g r = fst e" "distinct (map fst es)"
  shows "find (\<lambda>r. g r = k) (List.map_filter f es) = (case map_of es k of Some v \<Rightarrow> f (k, v) | None \<Rightarrow> None)"
  using assms(2)
proof (induction es)
  case (Cons e es)
  obtain a v where e: "e = (a, v)" by (cases e)
  show ?case
  proof (cases "f e")
    case None
    then show ?thesis using Cons e by (auto simp: List.map_filter_simps map_of_eq_None_iff [symmetric] split: option.split)
  next
    case (Some r)
    with assms(1) [of e r] e have "g r = a" by simp
    with Some Cons e show ?thesis by (auto simp: List.map_filter_simps)
  qed
qed (simp add: List.map_filter_simps)

lemma map_filter_distinct:
  assumes "\<And>e r. f e = Some r \<Longrightarrow> g r = fst e" "distinct (map fst es)"
  shows "distinct (map g (List.map_filter f es))"
  using assms(2)
proof (induction es)
  case (Cons e es)
  have "g r \<in> fst ` set es" if "r \<in> set (List.map_filter f es)" for r
    using that assms(1) by (force simp: List.map_filter_def)
  with Cons assms(1) show ?case by (auto simp: List.map_filter_simps split: option.split)
qed (simp add: List.map_filter_simps)

lemma observe_block_get:
  fixes n :: u64 and S :: "hash set" and tk :: cut_tracker
  assumes ok: "tracker_ok tk"
  defines "v \<equiv> \<lambda>tx. Option.bind (hm_get (tk_states tk) tx) (\<lambda>st. verdict n S tk (tx, st))"
  shows "tracker_ok (observe_block n S tk)" "tk_targets (observe_block n S tk) = tk_targets tk"
    "tk_lookahead (observe_block n S tk) = tk_lookahead tk"
    "hm_get (tk_states (observe_block n S tk)) tx = (case v tx of Some r \<Rightarrow> Some (rt_status r) | None \<Rightarrow> hm_get (tk_states tk) tx)"
    "hm_get (tk_resolved (observe_block n S tk)) tx = (case v tx of Some r \<Rightarrow> Some r | None \<Rightarrow> hm_get (tk_resolved tk) tx)"
proof -
  let ?rs = "List.map_filter (verdict n S tk) (tk_states tk)"
  have d: "distinct (map fst (tk_states tk))" using ok hm_distinct_keys by (auto simp: tracker_ok_def hm_keys_def)
  have h: "verdict n S tk e = Some r \<Longrightarrow> rt_tx_hash r = fst e" for e r using verdict_hash [of n S tk e r] by simp
  have np: "\<forall>r \<in> set ?rs. \<not> is_pending_inclusion (rt_status r)"
    using verdict_hash [of n S tk] by (force simp: List.map_filter_def)
  have f: "find (\<lambda>r. rt_tx_hash r = tx) ?rs = v tx" for tx
    using find_map_filter [of "verdict n S tk" rt_tx_hash, OF h d] by (auto simp: v_def hm_get_def split: option.split)
  note r = resolve_list [OF ok np map_filter_distinct [of "verdict n S tk" rt_tx_hash, OF h d]]
  show "tracker_ok (observe_block n S tk)" "tk_targets (observe_block n S tk) = tk_targets tk"
    "tk_lookahead (observe_block n S tk) = tk_lookahead tk"
    "hm_get (tk_states (observe_block n S tk)) tx = (case v tx of Some r \<Rightarrow> Some (rt_status r) | None \<Rightarrow> hm_get (tk_states tk) tx)"
    "hm_get (tk_resolved (observe_block n S tk)) tx = (case v tx of Some r \<Rightarrow> Some r | None \<Rightarrow> hm_get (tk_resolved tk) tx)"
    using r unfolding observe_block_def f by simp_all
qed

section \<open>Statistics are those of the records\<close>

definition of_slot :: "u64 \<Rightarrow> (inclusion_kind \<Rightarrow> bool) \<Rightarrow> cut_record list \<Rightarrow> nat" where
  "of_slot slot P rs = length (filter (\<lambda>r. cr_slot_ms r = slot \<and> P (cr_inclusion r)) rs)"

lemma of_slot_snoc: "of_slot slot P (rs @ [r]) = of_slot slot P rs + (if cr_slot_ms r = slot \<and> P (cr_inclusion r) then 1 else 0)"
  by (simp add: of_slot_def)

definition is_late :: "inclusion_kind \<Rightarrow> bool" where
  "is_late k \<longleftrightarrow> (\<exists>off. k = KLate off)"

definition is_initial :: "inclusion_kind \<Rightarrow> bool" where
  "is_initial k \<longleftrightarrow> k = KPending \<or> k = KSendError"

lemma is_late_simps [simp]: "is_late (KLate off)" "\<not> is_late KTarget" "\<not> is_late KDropped" "\<not> is_late KPending" "\<not> is_late KSendError"
  by (simp_all add: is_late_def)

lemma is_initial_simps [simp]: "is_initial KPending" "is_initial KSendError" "\<not> is_initial KTarget" "\<not> is_initial (KLate off)" "\<not> is_initial KDropped"
  by (simp_all add: is_initial_def)

definition stats_of :: "u64 \<Rightarrow> cut_record list \<Rightarrow> slot_stats" where
  "stats_of slot rs = (slot_stats_new slot)\<lparr>sx_sent := of_nat (of_slot slot is_initial rs),
     sx_included_target := of_nat (of_slot slot (\<lambda>k. k = KTarget) rs), sx_included_late := of_nat (of_slot slot is_late rs),
     sx_dropped := of_nat (of_slot slot (\<lambda>k. k = KDropped) rs), sx_errors := of_nat (of_slot slot (\<lambda>k. k = KSendError) rs)\<rparr>"

lemma stats_of_snoc: "stats_of slot (rs @ [r]) = (if cr_slot_ms r = slot then count_inclusion (cr_inclusion r) (stats_of slot rs) else stats_of slot rs)"
  by (cases "cr_inclusion r") (simp_all add: stats_of_def of_slot_snoc count_inclusion_def)

lemma stats_of_none: "slot \<notin> cr_slot_ms ` set rs \<Longrightarrow> stats_of slot rs = slot_stats_new slot"
  by (induction rs rule: rev_induct) (auto simp: stats_of_snoc, simp add: stats_of_def of_slot_def slot_stats_new_def)

lemma agg_run_slots:
  "bt_ok (sa_slots (agg_run rs))
   \<and> (\<forall>slot. bt_get (sa_slots (agg_run rs)) slot = (if slot \<in> cr_slot_ms ` set rs then Some (stats_of slot rs) else None))"
proof (induction rs rule: rev_induct)
  case (snoc r rs)
  have "agg_run (rs @ [r]) = agg_ingest r (agg_run rs)" by (simp add: agg_run_def)
  then have "sa_slots (agg_run (rs @ [r])) = bt_insert (cr_slot_ms r)
      (count_inclusion (cr_inclusion r) (bt_get_or (slot_stats_new (cr_slot_ms r)) (sa_slots (agg_run rs)) (cr_slot_ms r))) (sa_slots (agg_run rs))"
    by (simp add: agg_ingest_def Let_def)
  moreover have "bt_get_or (slot_stats_new (cr_slot_ms r)) (sa_slots (agg_run rs)) (cr_slot_ms r) = stats_of (cr_slot_ms r) rs"
    using snoc.IH stats_of_none [of "cr_slot_ms r" rs] by (simp add: bt_get_or_def)
  ultimately show ?case using snoc.IH by (auto simp: stats_of_snoc)
qed (simp add: agg_run_def aggregator_new_def)

lemma best_slot_snoc: "best_slot al p (ss @ [s]) = (if sx_sent s \<noteq> 0 \<and> al (sx_included_target s) (sx_sent s) p then Some (sx_slot_ms s) else best_slot al p ss)"
  by (simp add: best_slot_def)

lemma best_slot_max:
  "sorted (map sx_slot_ms ss) \<Longrightarrow> best_slot al p ss = Some m \<longleftrightarrow>
     (\<exists>s \<in> set ss. sx_slot_ms s = m \<and> sx_sent s \<noteq> 0 \<and> al (sx_included_target s) (sx_sent s) p)
     \<and> (\<forall>s \<in> set ss. sx_sent s \<noteq> 0 \<and> al (sx_included_target s) (sx_sent s) p \<longrightarrow> sx_slot_ms s \<le> m)"
proof (induction ss rule: rev_induct)
  case (snoc s ss)
  then show ?case by (auto simp: best_slot_snoc sorted_append intro: antisym)
qed (simp add: best_slot_def)

lemma cutoffs_get: "bt_ok (cutoffs al ps sa) \<and> bt_get (cutoffs al ps sa) p =
    (if p \<in> set ps then best_slot al p (slots_ordered sa) else None)"
  by (induction ps rule: rev_induct) (auto simp: cutoffs_def split: option.splits)

section \<open>The comparison in f64\<close>

text \<open>
  What the theorem on the cut-offs uses of the rounding of f64 (to nearest, 53 bits): it is monotone, keeps zero
  and has a relative error of at most \<open>2 ^ -53\<close> on the numbers in question, which are far from overflow and
  from the subnormal range.
\<close>

definition f64_rounding :: "(real \<Rightarrow> real) \<Rightarrow> bool" where
  "f64_rounding rnd \<longleftrightarrow> rnd 0 = 0
     \<and> (\<forall>x y. 0 \<le> x \<and> x \<le> y \<and> y \<le> 2 ^ 64 \<longrightarrow> rnd x \<le> rnd y)
     \<and> (\<forall>x. 1 / 2 ^ 64 \<le> x \<and> x \<le> 2 ^ 64 \<longrightarrow> \<bar>rnd x - x\<bar> \<le> x / 2 ^ 53)"

lemma rounded_share_exact:
  assumes rnd: "f64_rounding rnd" and d: "0 < d" "d < 2 ^ 40" and n: "n < 2 ^ 40" and q: "q \<le> 100"
  shows "rnd (real q / 100) \<le> rnd (real n / real d) \<longleftrightarrow> q * d \<le> 100 * n"
proof
  assume "q * d \<le> 100 * n"
  then have "real q * real d \<le> 100 * real n" by (metis of_nat_le_iff of_nat_mult of_nat_numeral)
  then have "real q / 100 \<le> real n / real d" using d by (simp add: field_simps)
  moreover have "real n / real d \<le> 2 ^ 64"
  proof -
    have "real n / real d \<le> real n / 1" using d(1) by (intro divide_left_mono) simp_all
    also have "\<dots> = real n" by simp
    also have "\<dots> \<le> 2 ^ 40" using n by (metis less_imp_le of_nat_le_iff of_nat_numeral of_nat_power)
    also have "\<dots> \<le> (2 ^ 64 :: real)" by simp
    finally show ?thesis .
  qed
  ultimately show "rnd (real q / 100) \<le> rnd (real n / real d)" using rnd by (simp add: f64_rounding_def)
next
  assume le: "rnd (real q / 100) \<le> rnd (real n / real d)"
  show "q * d \<le> 100 * n"
  proof (rule ccontr)
    assume "\<not> q * d \<le> 100 * n"
    then have less: "100 * n + 1 \<le> q * d" by simp
    let ?x = "real n / real d" and ?y = "real q / 100"
    have "real (100 * n + 1) \<le> real (q * d)" using less by (simp only: of_nat_le_iff)
    then have gap: "?x + 1 / (100 * real d) \<le> ?y" using d by (simp add: field_simps)
    have "real d \<le> 2 ^ 40" using d(2) by (metis less_imp_le of_nat_le_iff of_nat_numeral of_nat_power)
    then have "1 / (100 * 2 ^ 40) \<le> 1 / (100 * real d)" using d(1) by (intro divide_left_mono) auto
    with gap have gap40: "?x + 1 / (100 * 2 ^ 40) \<le> ?y" by linarith
    have y1: "?y \<le> 1" using q by simp
    have x0: "0 \<le> ?x" by simp
    have "(1 / 2 ^ 64 :: real) \<le> 1 / (100 * 2 ^ 40)" by simp
    with gap40 x0 have y0: "1 / 2 ^ 64 \<le> ?y" by linarith
    have err: "\<bar>rnd x - x\<bar> \<le> x / 2 ^ 53" if "1 / 2 ^ 64 \<le> x" "x \<le> 2 ^ 64" for x
      using rnd that by (simp add: f64_rounding_def)
    have "\<bar>rnd ?y - ?y\<bar> \<le> ?y / 2 ^ 53" using y0 y1 by (intro err) simp_all
    moreover have small: "x / 2 ^ 53 \<le> 1 / 2 ^ 53" if "x \<le> 1" for x :: real using that by (simp add: divide_right_mono)
    ultimately have ylow: "?y - 1 / 2 ^ 53 \<le> rnd ?y" using small [OF y1] by linarith
    have xup: "rnd ?x \<le> ?x + 1 / 2 ^ 53"
    proof (cases "n = 0")
      case True
      with rnd show ?thesis by (simp add: f64_rounding_def)
    next
      case False
      have "1 / 2 ^ 40 \<le> 1 / real d" using \<open>real d \<le> 2 ^ 40\<close> d(1) by (intro divide_left_mono) auto
      also have "\<dots> \<le> ?x" using False d(1) by (intro divide_right_mono) simp_all
      finally have "1 / 2 ^ 40 \<le> ?x" .
      moreover have "(1 / 2 ^ 64 :: real) \<le> 1 / 2 ^ 40" by simp
      ultimately have "1 / 2 ^ 64 \<le> ?x" by linarith
      moreover have "?x \<le> 1"
      proof -
        have "?x \<le> ?x + 1 / (100 * 2 ^ 40)" by simp
        with gap40 y1 show ?thesis by (meson order_trans)
      qed
      ultimately have "\<bar>rnd ?x - ?x\<bar> \<le> ?x / 2 ^ 53" by (intro err) simp_all
      then show ?thesis using small [OF \<open>?x \<le> 1\<close>] by linarith
    qed
    have "2 * (1 / 2 ^ 53) < (1 / (100 * 2 ^ 40) :: real)" by simp
    with gap40 ylow xup le show False by linarith
  qed
qed

text \<open>C21. The estimated cut-off of a percentage up to 100 is the latest send slot whose share of transactions
  included in the target block reaches it, where the shares are those of all records ingested: an initial record
  (pending or rejected) counts as sent, a target record as included, each in its own slot.  The code divides and
  compares in f64; with fewer than \<open>2 ^ 40\<close> records the rounding never changes the answer.\<close>

theorem cutoff_is_latest_good_slot:
  assumes rounding: "f64_rounding rnd"
    and f64: "\<And>n d q. unat n \<le> length rs \<Longrightarrow> d \<noteq> 0 \<Longrightarrow> unat d \<le> length rs \<Longrightarrow> unat q \<le> 100 \<Longrightarrow>
      at_least n d q \<longleftrightarrow> rnd (real (unat n) / real (unat d)) \<ge> rnd (real (unat q) / 100)"
    and small: "length rs < 2 ^ 40" and listed: "p \<in> set ps" and percent: "unat p \<le> 100"
  defines "good \<equiv> \<lambda>slot. of_slot slot is_initial rs > 0
      \<and> unat p * of_slot slot is_initial rs \<le> 100 * of_slot slot (\<lambda>k. k = KTarget) rs"
  shows "bt_get (cutoffs at_least ps (agg_run rs)) p = Some m \<longleftrightarrow> good m \<and> (\<forall>slot. good slot \<longrightarrow> slot \<le> m)"
proof -
  let ?sa = "agg_run rs"
  note slots = agg_run_slots [of rs]
  have pair: "(slot, s) \<in> set (sa_slots ?sa) \<longleftrightarrow> slot \<in> cr_slot_ms ` set rs \<and> s = stats_of slot rs" for slot s
    using slots bt_get_in_set [of "sa_slots ?sa" slot s] by (auto split: if_splits)
  have elems: "set (slots_ordered ?sa) = (\<lambda>slot. stats_of slot rs) ` cr_slot_ms ` set rs"
  proof (rule set_eqI)
    fix s
    have "s \<in> set (slots_ordered ?sa) \<longleftrightarrow> (\<exists>slot. (slot, s) \<in> set (sa_slots ?sa))"
      by (simp add: slots_ordered_def image_iff) (metis snd_conv surj_pair)
    then show "s \<in> set (slots_ordered ?sa) \<longleftrightarrow> s \<in> (\<lambda>slot. stats_of slot rs) ` cr_slot_ms ` set rs"
      unfolding pair by blast
  qed
  have keys: "map sx_slot_ms (slots_ordered ?sa) = map fst (sa_slots ?sa)"
  proof -
    have "sx_slot_ms (snd e) = fst e" if "e \<in> set (sa_slots ?sa)" for e
      using that pair [of "fst e" "snd e"] by (simp add: stats_of_def slot_stats_new_def)
    then show ?thesis by (simp add: slots_ordered_def)
  qed
  have "sorted (map fst (sa_slots ?sa))" using slots by (simp add: bt_ok_def strict_sorted_imp_sorted)
  then have sorted: "sorted (map sx_slot_ms (slots_ordered ?sa))" unfolding keys .
  have count: "of_slot slot P rs \<le> length rs" for slot P by (simp add: of_slot_def)
  have num: "unat (of_nat (of_slot slot P rs) :: u64) = of_slot slot P rs" for slot P
  proof -
    have "of_slot slot P rs < 2 ^ 64" using count [of slot P] small by simp
    then show ?thesis by (simp add: unat_of_nat)
  qed
  have good: "sx_sent (stats_of slot rs) \<noteq> 0 \<and> at_least (sx_included_target (stats_of slot rs)) (sx_sent (stats_of slot rs)) p \<longleftrightarrow> good slot" for slot
  proof -
    let ?d = "of_slot slot is_initial rs" and ?n = "of_slot slot (\<lambda>k. k = KTarget) rs"
    have st: "sx_sent (stats_of slot rs) = of_nat ?d" "sx_included_target (stats_of slot rs) = of_nat ?n" by (simp_all add: stats_of_def)
    have zero: "(of_nat ?d :: u64) = 0 \<longleftrightarrow> ?d = 0" unfolding word_unat_eq_iff num by simp
    show ?thesis
    proof (cases "?d = 0")
      case False
      have "at_least (of_nat ?n) (of_nat ?d) p \<longleftrightarrow> rnd (real ?n / real ?d) \<ge> rnd (real (unat p) / 100)"
        using f64 [of "of_nat ?n" "of_nat ?d" p] count percent zero False unfolding num by blast
      also have "\<dots> \<longleftrightarrow> unat p * ?d \<le> 100 * ?n"
        using False percent le_less_trans [OF count small] by (intro rounded_share_exact [OF rounding]) simp_all
      finally show ?thesis using False zero by (simp add: good_def st)
    qed (simp add: good_def st)
  qed
  have in_slots: "slot \<in> cr_slot_ms ` set rs" if "good slot" for slot
    using that by (force simp: good_def of_slot_def length_greater_0_conv filter_empty_conv)
  have ms: "sx_slot_ms (stats_of slot rs) = slot" for slot by (simp add: stats_of_def slot_stats_new_def)
  have "bt_get (cutoffs at_least ps ?sa) p = Some m \<longleftrightarrow> best_slot at_least p (slots_ordered ?sa) = Some m"
    using cutoffs_get [of at_least ps ?sa p] listed by simp
  also have "\<dots> \<longleftrightarrow> good m \<and> (\<forall>slot. good slot \<longrightarrow> slot \<le> m)"
  proof -
    have "best_slot at_least p (slots_ordered ?sa) = Some m \<longleftrightarrow>
        (\<exists>slot \<in> cr_slot_ms ` set rs. slot = m \<and> good slot) \<and> (\<forall>slot \<in> cr_slot_ms ` set rs. good slot \<longrightarrow> slot \<le> m)"
      unfolding best_slot_max [OF sorted] elems by (simp add: good ms)
    then show ?thesis using in_slots by blast
  qed
  finally show ?thesis .
qed

definition demo_cut_record :: "u64 \<Rightarrow> inclusion_kind \<Rightarrow> cut_record" where
  "demo_cut_record slot k = \<lparr>cr_block_idx = 0, cr_block_num = 7, cr_block_hash = 0, cr_slot_ms = slot, cr_sample_idx = 0,
     cr_wallet = ''w'', cr_tx_hash = Some 1, cr_nonce = 0, cr_target_unix_ms = 0, cr_sent_at_unix_ms = 0, cr_wake_jitter_us = 3,
     cr_rpc_rtt_us = 4, cr_send_result = ''ok'', cr_inclusion = k, cr_included_block = None\<rparr>"

theorem cutoff_is_latest_good_slot_witness:
  "bt_get (cutoffs (\<lambda>n d q. real (unat n) / real (unat d) \<ge> real (unat q) / 100) [90, 50] (agg_run [demo_cut_record 100 KPending,
     demo_cut_record 100 KTarget, demo_cut_record 200 KPending, demo_cut_record 200 KPending, demo_cut_record 200 KTarget])) 50 = Some 200"
proof -
  let ?rs = "[demo_cut_record 100 KPending, demo_cut_record 100 KTarget, demo_cut_record 200 KPending,
    demo_cut_record 200 KPending, demo_cut_record 200 KTarget]"
  have "f64_rounding (\<lambda>x. x)" by (simp add: f64_rounding_def)
  moreover have "length ?rs < 2 ^ 40" "(50 :: u64) \<in> set [90, 50]" "unat (50 :: u64) \<le> 100" by simp_all
  ultimately show ?thesis
    using cutoff_is_latest_good_slot [where rnd = "\<lambda>x. x" and rs = ?rs and p = 50 and ps = "[90, 50]" and m = 200
        and at_least = "\<lambda>n d q. real (unat n) / real (unat d) \<ge> real (unat q) / 100"]
    by (auto simp: of_slot_def demo_cut_record_def split: if_splits)
qed

end
