(* ===== verification/CutoffRpc.thy ===== *)
theory CutoffRpc
  imports CutoffPlan Json
begin

text \<open>
  The JSON-RPC client of the inclusion-cutoff tool (\<open>crates/tx-cutoff/src/rpc.rs\<close>): the payloads
  it builds and what it makes of a reply.  The HTTP exchange (a body or an error) and the JSON and
  hash parsers are parameters.
\<close>

datatype rpc_error = RpcTransport string | RpcJson string | RpcHttp string | RpcWs string

datatype cut_send_outcome = TxAccepted hash | TxRejected i64 string

record 'a rpc_response =
  rr_result :: "'a option"
  rr_error :: "(i64 \<times> string) option"

section \<open>Payloads\<close>

definition build_send_payload :: "u64 \<Rightarrow> string \<Rightarrow> string" where
  \<open>build_send_payload req raw_hex_0x = ''{"jsonrpc":"2.0","id":'' @ dec_digits (unat req)
     @ '',"method":"eth_sendRawTransaction","params":["'' @ raw_hex_0x @ ''"]}''\<close>

definition build_bundle_payload :: "u64 \<Rightarrow> string \<Rightarrow> u64 \<Rightarrow> string" where
  \<open>build_bundle_payload req raw_hex_0x target_block = ''{"jsonrpc":"2.0","id":'' @ dec_digits (unat req)
     @ '',"method":"eth_sendBundle","params":[{"txs":["'' @ raw_hex_0x @ ''"],"blockNumber":"0x''
     @ hex_digits (unat target_block) @ ''"}]}''\<close>

section \<open>Replies\<close>

definition send_raw_outcome :: "(string \<Rightarrow> string + hash rpc_response) \<Rightarrow> rpc_error + string \<Rightarrow> rpc_error + cut_send_outcome" where
  "send_raw_outcome from_str reply = (case reply of
     Inl e \<Rightarrow> Inl e
   | Inr text \<Rightarrow> (case from_str text of
       Inl e \<Rightarrow> Inl (RpcJson e)
     | Inr parsed \<Rightarrow> (case rr_error parsed of
         Some (code, message) \<Rightarrow> Inr (TxRejected code message)
       | None \<Rightarrow> (case rr_result parsed of
           Some tx_hash \<Rightarrow> Inr (TxAccepted tx_hash)
         | None \<Rightarrow> Inl (RpcTransport ''missing result and error in response'')))))"

definition send_bundle_outcome :: "(string \<Rightarrow> string + json) \<Rightarrow> hash \<Rightarrow> rpc_error + string \<Rightarrow> rpc_error + cut_send_outcome" where
  "send_bundle_outcome parse echo_tx_hash reply = (case reply of
     Inl e \<Rightarrow> Inl e
   | Inr text \<Rightarrow> (case parse text of
       Inl e \<Rightarrow> Inl (RpcJson e)
     | Inr v \<Rightarrow> (case json_get ''error'' v of
         Some err \<Rightarrow> Inr (TxRejected
           (case Option.bind (json_get ''code'' err) json_i64 of Some c \<Rightarrow> c | None \<Rightarrow> 0)
           (case Option.bind (json_get ''message'' err) json_str of Some m \<Rightarrow> m | None \<Rightarrow> ''''))
       | None \<Rightarrow> (case json_get ''result'' v of
           Some _ \<Rightarrow> Inr (TxAccepted echo_tx_hash)
         | None \<Rightarrow> Inl (RpcTransport ''missing result and error in bundle response'')))))"

section \<open>Hexadecimal numbers\<close>

fun trim_0x :: "string \<Rightarrow> string" where
  "trim_0x s = (case s of c # d # r \<Rightarrow> if c = CHR ''0'' \<and> d = CHR ''x'' then trim_0x r else s | _ \<Rightarrow> s)"

declare trim_0x.simps [simp del]

definition hex_digit_val :: "char \<Rightarrow> nat option" where
  "hex_digit_val c = (let n = of_char c :: nat in
     if 48 \<le> n \<and> n < 58 then Some (n - 48)
     else if 97 \<le> n \<and> n < 103 then Some (n - 87)
     else if 65 \<le> n \<and> n < 71 then Some (n - 55) else None)"

text \<open>\<open>from_str_radix(s, 16)\<close> into a type below \<open>bound\<close>: an optional plus sign, at least one digit, no
  overflow.\<close>

definition from_hex :: "nat \<Rightarrow> string \<Rightarrow> nat option" where
  "from_hex bound s = (let ds = (case s of c # r \<Rightarrow> if c = CHR ''+'' then r else s | [] \<Rightarrow> []) in
     if ds = [] then None
     else fold (\<lambda>c acc. Option.bind acc (\<lambda>n. Option.bind (hex_digit_val c) (\<lambda>d.
       if 16 * n + d < bound then Some (16 * n + d) else None))) ds (Some 0))"

text \<open>\<open>eth_chainId\<close>, \<open>eth_blockNumber\<close>, \<open>eth_getTransactionCount\<close>: the same decoding, under the name of the method.\<close>

definition hex_u64_reply :: "(string \<Rightarrow> string + string rpc_response) \<Rightarrow> string \<Rightarrow> rpc_error + string \<Rightarrow> rpc_error + u64" where
  "hex_u64_reply from_str method reply = (case reply of
     Inl e \<Rightarrow> Inl e
   | Inr text \<Rightarrow> (case from_str text of
       Inl e \<Rightarrow> Inl (RpcJson e)
     | Inr parsed \<Rightarrow> (case rr_result parsed of
         None \<Rightarrow> Inl (RpcTransport (''no result for '' @ method))
       | Some hex \<Rightarrow> (case from_hex (2 ^ 64) (trim_0x hex) of
           None \<Rightarrow> Inl (RpcTransport ''not a number'')
         | Some n \<Rightarrow> Inr (of_nat n)))))"

definition eth_chain_id :: "(string \<Rightarrow> string + string rpc_response) \<Rightarrow> rpc_error + string \<Rightarrow> rpc_error + u64" where
  "eth_chain_id from_str reply = hex_u64_reply from_str ''eth_chainId'' reply"

definition eth_block_number :: "(string \<Rightarrow> string + string rpc_response) \<Rightarrow> rpc_error + string \<Rightarrow> rpc_error + u64" where
  "eth_block_number from_str reply = hex_u64_reply from_str ''eth_blockNumber'' reply"

definition eth_get_transaction_count :: "(string \<Rightarrow> string + string rpc_response) \<Rightarrow> rpc_error + string \<Rightarrow> rpc_error + u64" where
  "eth_get_transaction_count from_str reply = hex_u64_reply from_str ''eth_getTransactionCount'' reply"

text \<open>\<open>U256::from_str_radix(s, 16)\<close> belongs to the Ethereum types: \<open>parse_u256\<close>.\<close>

definition eth_get_balance :: "(string \<Rightarrow> string + string rpc_response) \<Rightarrow> (string \<Rightarrow> u256 option) \<Rightarrow> rpc_error + string \<Rightarrow> rpc_error + u256" where
  "eth_get_balance from_str parse_u256 reply = (case reply of
     Inl e \<Rightarrow> Inl e
   | Inr text \<Rightarrow> (case from_str text of
       Inl e \<Rightarrow> Inl (RpcJson e)
     | Inr parsed \<Rightarrow> (case rr_result parsed of
         None \<Rightarrow> Inl (RpcTransport ''no result for eth_getBalance'')
       | Some hex \<Rightarrow> (case parse_u256 (trim_0x hex) of
           None \<Rightarrow> Inl (RpcTransport ''not a number'')
         | Some n \<Rightarrow> Inr n))))"

fun tx_hashes_of :: "(string \<Rightarrow> string + hash) \<Rightarrow> json list \<Rightarrow> rpc_error + hash list" where
  "tx_hashes_of parse_hash [] = Inr []"
| "tx_hashes_of parse_hash (item # items) = (case json_str item of
     None \<Rightarrow> Inl (RpcTransport ''transaction entry is not a string'')
   | Some s \<Rightarrow> (case parse_hash s of
       Inl e \<Rightarrow> Inl (RpcTransport e)
     | Inr h \<Rightarrow> (case tx_hashes_of parse_hash items of Inl e \<Rightarrow> Inl e | Inr hs \<Rightarrow> Inr (h # hs))))"

definition eth_get_block_tx_hashes :: "(string \<Rightarrow> string + json) \<Rightarrow> (string \<Rightarrow> string + hash) \<Rightarrow> rpc_error + string \<Rightarrow> rpc_error + hash list" where
  "eth_get_block_tx_hashes parse parse_hash reply = (case reply of
     Inl e \<Rightarrow> Inl e
   | Inr text \<Rightarrow> (case parse text of
       Inl e \<Rightarrow> Inl (RpcJson e)
     | Inr v \<Rightarrow> (case json_array (json_index ''transactions'' (json_index ''result'' v)) of
         None \<Rightarrow> Inl (RpcTransport ''no transactions array in block response'')
       | Some arr \<Rightarrow> tx_hashes_of parse_hash arr)))"

definition latest_base_fee :: "(string \<Rightarrow> string + json) \<Rightarrow> rpc_error + string \<Rightarrow> rpc_error + u128" where
  "latest_base_fee parse reply = (case reply of
     Inl e \<Rightarrow> Inl e
   | Inr text \<Rightarrow> (case parse text of
       Inl e \<Rightarrow> Inl (RpcJson e)
     | Inr v \<Rightarrow> (case json_str (json_index ''baseFeePerGas'' (json_index ''result'' v)) of
         None \<Rightarrow> Inl (RpcTransport ''no baseFeePerGas field in latest block response'')
       | Some hex \<Rightarrow> (case from_hex (2 ^ 128) (trim_0x hex) of
           None \<Rightarrow> Inl (RpcTransport ''not a number'')
         | Some n \<Rightarrow> Inr (of_nat n)))))"

section \<open>Numbers read back\<close>

lemma hex_digit_val_digit: "d < 16 \<Longrightarrow> hex_digit_val (hex_digit d) = Some d"
  using hex_digit_cases [of d] by (auto simp: hex_digit_val_def hex_digit_def)

lemma hex_digits_not_Nil: "hex_digits n \<noteq> []"
  by (subst hex_digits.simps) simp

definition hex_fold :: "nat \<Rightarrow> string \<Rightarrow> nat option \<Rightarrow> nat option" where
  "hex_fold bound = fold (\<lambda>c acc. Option.bind acc (\<lambda>n. Option.bind (hex_digit_val c) (\<lambda>d.
     if 16 * n + d < bound then Some (16 * n + d) else None)))"

lemma hex_fold_digits: "n < bound \<Longrightarrow> hex_fold bound (hex_digits n) (Some 0) = Some n"
proof (induction n rule: hex_digits.induct)
  case (1 n)
  show ?case
  proof (cases "n < 16")
    case True
    with 1 show ?thesis by (subst hex_digits.simps) (simp add: hex_fold_def hex_digit_val_digit)
  next
    case False
    have "n div 16 < bound" using 1(2) by (meson div_le_dividend le_less_trans)
    then have "hex_fold bound (hex_digits (n div 16)) (Some 0) = Some (n div 16)" using 1(1) False by blast
    with False 1(2) show ?thesis by (subst hex_digits.simps) (simp add: hex_fold_def hex_digit_val_digit)
  qed
qed

lemma hex_digits_plain: "c \<in> set (hex_digits n) \<Longrightarrow> c \<noteq> CHR ''x'' \<and> c \<noteq> CHR ''+''"
proof (induction n rule: hex_digits.induct)
  case (1 n)
  have "hex_digit d \<noteq> CHR ''x'' \<and> hex_digit d \<noteq> CHR ''+''" if "d < 16" for d
    using hex_digit_val_digit [OF that] by (auto simp: hex_digit_val_def)
  with 1 show ?case by (subst (asm) (2) hex_digits.simps) (auto split: if_splits)
qed

text \<open>A quantity the node sends in hexadecimal is read as the number it is: the shortest form with the
  prefix, as the specification of the JSON-RPC interface prints it.\<close>

lemma from_hex_digits:
  assumes "n < bound"
  shows "from_hex bound (trim_0x (''0x'' @ hex_digits n)) = Some n"
proof -
  obtain c s where cs: "hex_digits n = c # s" using hex_digits_not_Nil by (cases "hex_digits n") auto
  have plain: "\<forall>d \<in> set (c # s). d \<noteq> CHR ''x'' \<and> d \<noteq> CHR ''+''" using hex_digits_plain [of _ n] cs by auto
  have "trim_0x (c # s) = c # s" using plain by (subst trim_0x.simps) (simp split: list.split)
  then have "trim_0x (''0x'' @ hex_digits n) = hex_digits n" unfolding cs by (subst trim_0x.simps) simp
  moreover have "from_hex bound (hex_digits n) = hex_fold bound (hex_digits n) (Some 0)"
    using plain unfolding cs by (simp add: from_hex_def hex_fold_def Let_def)
  ultimately show ?thesis using hex_fold_digits [OF assms] by simp
qed

end
