(* ===== verification/CutoffEngine.thy ===== *)
theory CutoffEngine
  imports CutoffTracker CutoffRpc
begin

text \<open>
  The main loop of the inclusion-cutoff tool (\<open>crates/tx-cutoff/src/engine.rs\<close>): every new block
  resolves earlier transactions and schedules one timed transaction per wallet; the send tasks report
  back, and a record is written at the send and a second one at the resolution.  Parameters: signing,
  the ABI encoder, the f64 gas arithmetic, whether the n-th record can be written, the node's replies
  and the clocks.  Hashes are kept as numbers where the code prints them.
\<close>

section \<open>The abort counter\<close>

record abort_tracker =
  ab_threshold :: u64
  ab_consecutive :: u64

definition abort_new :: "u64 \<Rightarrow> abort_tracker" where
  "abort_new threshold = \<lparr>ab_threshold = threshold, ab_consecutive = 0\<rparr>"

definition record_block :: "u64 \<Rightarrow> u64 \<Rightarrow> abort_tracker \<Rightarrow> abort_tracker" where
  "record_block successful_sends total_sends ab =
     (if total_sends > 0 \<and> successful_sends = 0 then ab\<lparr>ab_consecutive := ab_consecutive ab + 1\<rparr>
      else ab\<lparr>ab_consecutive := 0\<rparr>)"

definition should_abort :: "abort_tracker \<Rightarrow> bool" where
  "should_abort ab \<longleftrightarrow> ab_consecutive ab \<ge> ab_threshold ab"

section \<open>Records of the engine\<close>

record partial_record =
  pd_block_idx :: u64
  pd_block_num :: u64
  pd_block_hash :: hash
  pd_slot_ms :: u64
  pd_sample_idx :: u64
  pd_wallet :: string
  pd_nonce :: u64
  pd_target_unix_ms :: i64
  pd_sent_at_unix_ms :: i64
  pd_wake_jitter_us :: u64
  pd_rpc_rtt_us :: u64
  pd_send_result :: string
  pd_tx_hash :: hash

definition into_tx_record :: "partial_record \<Rightarrow> inclusion_kind \<Rightarrow> u64 option \<Rightarrow> cut_record" where
  "into_tx_record p inclusion included_block =
     \<lparr>cr_block_idx = pd_block_idx p, cr_block_num = pd_block_num p, cr_block_hash = pd_block_hash p,
      cr_slot_ms = pd_slot_ms p, cr_sample_idx = pd_sample_idx p, cr_wallet = pd_wallet p,
      cr_tx_hash = Some (pd_tx_hash p), cr_nonce = pd_nonce p, cr_target_unix_ms = pd_target_unix_ms p,
      cr_sent_at_unix_ms = pd_sent_at_unix_ms p, cr_wake_jitter_us = pd_wake_jitter_us p,
      cr_rpc_rtt_us = pd_rpc_rtt_us p, cr_send_result = pd_send_result p, cr_inclusion = inclusion,
      cr_included_block = included_block\<rparr>"

record scheduled_send =
  sc_wallet_label :: string
  sc_tx_hash :: hash
  sc_payload :: string
  sc_target_instant :: instant
  sc_target_unix_ms :: i64
  sc_block_idx :: u64
  sc_block_num :: u64
  sc_block_hash :: hash
  sc_slot_ms :: u64
  sc_sample_idx :: u64
  sc_nonce :: u64

record cut_send_result =
  sr_wallet_label :: string
  sr_tx_hash :: hash
  sr_block_idx :: u64
  sr_block_num :: u64
  sr_block_hash :: hash
  sr_slot_ms :: u64
  sr_sample_idx :: u64
  sr_nonce :: u64
  sr_target_unix_ms :: i64
  sr_sent_at_unix_ms :: i64
  sr_wake_jitter_us :: u64
  sr_rpc_rtt_us :: u64
  sr_outcome :: cut_send_outcome

record block_send_counters =
  bc_received :: u64
  bc_successes :: u64
  bc_total :: u64

definition counters_default :: block_send_counters where
  "counters_default = \<lparr>bc_received = 0, bc_successes = 0, bc_total = 0\<rparr>"

record cut_tx_params =
  xp_chain_id :: u64
  xp_nonce :: u64
  xp_to :: eth_address
  xp_value :: u256
  xp_data :: "u8 list"
  xp_gas_limit :: u64
  xp_max_priority_fee_per_gas :: u128
  xp_max_fee_per_gas :: u128

record cut_header =
  hd_number :: u64
  hd_hash :: hash
  hd_timestamp :: u64
  hd_base_fee :: "u64 option"

record cutoff_ctx =
  cx_cfg :: cut_config
  cx_schedule :: cut_schedule
  cx_router :: "eth_address option"
  cx_encoders :: "swap_encoder list"
  cx_gas_limits :: "u64 list"
  cx_bundle :: bool
  cx_abi :: "exact_input_single \<Rightarrow> u8 list"
  cx_sign :: "eth_address \<Rightarrow> cut_tx_params \<Rightarrow> string + (hash \<times> u8 list)"
  cx_gwei :: "real \<Rightarrow> u128"
  cx_scale :: "u128 \<Rightarrow> real \<Rightarrow> u128"
  cx_write_ok :: "nat \<Rightarrow> bool"

record cutoff_engine =
  ce_tracker :: cut_tracker
  ce_agg :: slot_aggregator
  ce_emitted :: "cut_record list"
  ce_log :: "cut_record list"
  ce_pending :: "(hash, partial_record) hmap"
  ce_abort :: abort_tracker
  ce_totals :: "(u64, block_send_counters) hmap"
  ce_block_index :: u64
  ce_wallets :: "cut_wallet list"
  ce_directions :: "ping_pong list"
  ce_tasks :: "scheduled_send list"
  ce_stopped :: bool

definition engine_new :: "cutoff_ctx \<Rightarrow> cut_wallet list \<Rightarrow> ping_pong list \<Rightarrow> cutoff_engine" where
  "engine_new cx wallets directions =
     \<lparr>ce_tracker = tracker_new_cut (tg_inclusion_lookahead_blocks (cg_tracking (cx_cfg cx))), ce_agg = aggregator_new,
      ce_emitted = [], ce_log = [], ce_pending = [],
      ce_abort = abort_new (tg_abort_on_consecutive_failed_blocks (cg_tracking (cx_cfg cx))), ce_totals = [],
      ce_block_index = 0, ce_wallets = wallets, ce_directions = directions, ce_tasks = [], ce_stopped = False\<rparr>"

text \<open>Write a record to the log (a failed write only warns) and count it.\<close>

definition emit_cut :: "cutoff_ctx \<Rightarrow> cut_record \<Rightarrow> cutoff_engine \<Rightarrow> cutoff_engine" where
  "emit_cut cx r eng = eng\<lparr>ce_emitted := ce_emitted eng @ [r],
     ce_log := (if cx_write_ok cx (length (ce_emitted eng)) then ce_log eng @ [r] else ce_log eng),
     ce_agg := agg_ingest r (ce_agg eng)\<rparr>"

section \<open>A new block: resolve, then schedule\<close>

definition inclusion_of :: "inclusion_status \<Rightarrow> inclusion_kind option" where
  "inclusion_of st = (case st of
     IncludedTarget \<Rightarrow> Some KTarget | IncludedLate off \<Rightarrow> Some (KLate off) | DroppedTx \<Rightarrow> Some KDropped
   | PendingInclusion _ \<Rightarrow> None | SendErrorTx _ \<Rightarrow> None)"

definition emit_resolved :: "cutoff_ctx \<Rightarrow> resolved_tx \<Rightarrow> cutoff_engine \<Rightarrow> cutoff_engine" where
  "emit_resolved cx r eng = (case hm_remove (rt_tx_hash r) (ce_pending eng) of
     (None, _) \<Rightarrow> eng
   | (Some part, pending) \<Rightarrow> (let eng1 = eng\<lparr>ce_pending := pending\<rparr> in
       case inclusion_of (rt_status r) of
         None \<Rightarrow> eng1
       | Some inclusion \<Rightarrow> emit_cut cx (into_tx_record part inclusion (rt_included_block r)) eng1))"

definition resolve_inclusions :: "cutoff_ctx \<Rightarrow> u64 \<Rightarrow> rpc_error + hash list \<Rightarrow> cutoff_engine \<Rightarrow> cutoff_engine" where
  "resolve_inclusions cx block_num reply eng =
     (let tx_set = set (case reply of Inr v \<Rightarrow> v | Inl e \<Rightarrow> []);
          (resolved, tk) = drain_resolved (observe_block block_num tx_set (ce_tracker eng))
      in fold (emit_resolved cx) resolved (eng\<lparr>ce_tracker := tk\<rparr>))"

definition max_fee :: "cutoff_ctx \<Rightarrow> u64 option \<Rightarrow> u128 \<times> u128" where
  "max_fee cx base_fee_per_gas =
     (let base_fee = ucast (case base_fee_per_gas of Some b \<Rightarrow> b | None \<Rightarrow> 0);
          tip = cx_gwei cx (ga_max_priority_fee_gwei (cg_gas (cx_cfg cx)))
      in (tip, cx_scale cx base_fee (ga_max_fee_multiplier (cg_gas (cx_cfg cx))) + tip))"

definition swap_encode :: "cutoff_ctx \<Rightarrow> swap_encoder \<Rightarrow> swap_direction \<Rightarrow> string + u8 list" where
  "swap_encode cx se direction = Inr (cx_abi cx (swap_params se direction))"

definition hex_0x :: "u8 list \<Rightarrow> string" where
  "hex_0x b = ''0x'' @ concat (map (\<lambda>byte. hex_pad 2 (unat byte)) b)"

text \<open>The transaction of wallet \<open>i\<close> for this block; \<open>tgt\<close> is the target (instant, unix ms, slot, sample).\<close>

definition presign :: "cutoff_ctx \<Rightarrow> cut_header \<Rightarrow> instant \<times> i64 \<times> u64 \<times> u64 \<Rightarrow> eth_address \<Rightarrow> nat \<Rightarrow>
    scheduled_send list \<times> cutoff_engine \<Rightarrow> scheduled_send list \<times> cutoff_engine" where
  "presign cx h tgt router i se = (let (scheduled, eng) = se;
       (target_instant, target_unix_ms, slot_ms, sample_idx) = tgt;
       w = ce_wallets eng ! i; direction = current_direction (ce_directions eng ! i)
     in case swap_encode cx (cx_encoders cx ! i) direction of
          Inl e \<Rightarrow> (scheduled, eng)
        | Inr data \<Rightarrow>
            (let (nonce, w1) = consume_nonce w;
                 eng1 = eng\<lparr>ce_directions := (ce_directions eng)[i := ping_pong_advance (ce_directions eng ! i)],
                            ce_wallets := (ce_wallets eng)[i := w1]\<rparr>;
                 (tip, fee) = max_fee cx (hd_base_fee h)
             in case cx_sign cx (cw_address w) \<lparr>xp_chain_id = ch_chain_id (cg_chain (cx_cfg cx)), xp_nonce = nonce, xp_to = router,
                  xp_value = 0, xp_data = data, xp_gas_limit = cx_gas_limits cx ! i, xp_max_priority_fee_per_gas = tip,
                  xp_max_fee_per_gas = fee\<rparr> of
                  Inl e \<Rightarrow> (scheduled, eng1)
                | Inr (tx_hash, raw) \<Rightarrow>
                    (scheduled @ [\<lparr>sc_wallet_label = cw_label w, sc_tx_hash = tx_hash,
                       sc_payload = (if cx_bundle cx then build_bundle_payload (ce_block_index eng) (hex_0x raw) (hd_number h + 1)
                         else build_send_payload (ce_block_index eng) (hex_0x raw)),
                       sc_target_instant = target_instant, sc_target_unix_ms = target_unix_ms, sc_block_idx = ce_block_index eng,
                       sc_block_num = hd_number h, sc_block_hash = hd_hash h, sc_slot_ms = slot_ms, sc_sample_idx = sample_idx,
                       sc_nonce = nonce\<rparr>], eng1)))"

definition presign_all :: "cutoff_ctx \<Rightarrow> cut_header \<Rightarrow> instant \<times> i64 \<times> u64 \<times> u64 \<Rightarrow> eth_address \<Rightarrow> cutoff_engine \<Rightarrow>
    scheduled_send list \<times> cutoff_engine" where
  "presign_all cx h tgt router eng = fold (presign cx h tgt router) [0..<length (ce_wallets eng)] ([], eng)"

text \<open>Register the signed transactions, open the block's counters, spawn the tasks, go to the next block.\<close>

definition launch :: "cut_header \<Rightarrow> scheduled_send list \<Rightarrow> cutoff_engine \<Rightarrow> cutoff_engine" where
  "launch h scheduled eng = eng
     \<lparr>ce_tracker := fold (\<lambda>s. record_sent (sc_tx_hash s) (hd_number h + 1)) scheduled (ce_tracker eng),
      ce_totals := hm_insert (ce_block_index eng) (counters_default\<lparr>bc_total := of_nat (length scheduled)\<rparr>) (ce_totals eng),
      ce_tasks := ce_tasks eng @ scheduled, ce_block_index := ce_block_index eng + 1\<rparr>"

definition on_header :: "cutoff_ctx \<Rightarrow> cut_header \<Rightarrow> rpc_error + hash list \<Rightarrow> instant \<Rightarrow> i64 \<Rightarrow> cutoff_engine \<Rightarrow> cutoff_engine" where
  "on_header cx h reply received_instant received_unix_ms eng =
     (let eng1 = resolve_inclusions cx (hd_number h) reply eng in
      case (slot_ms_for (cx_schedule cx) (ce_block_index eng1), sample_idx_for (cx_schedule cx) (ce_block_index eng1)) of
        (Some slot_ms, Some sample_idx) \<Rightarrow>
          (let target_unix_ms = hd_timestamp h * 1000 + slot_ms in
           if sint target_unix_ms \<le> sint received_unix_ms then eng1\<lparr>ce_block_index := ce_block_index eng1 + 1\<rparr>
           else (let target_instant = target_instant_from_unix_ms received_instant received_unix_ms target_unix_ms in
             case cx_router cx of
               None \<Rightarrow> eng1\<lparr>ce_stopped := True\<rparr>
             | Some router \<Rightarrow> (let (scheduled, eng2) = presign_all cx h (target_instant, target_unix_ms, slot_ms, sample_idx) router eng1
                 in launch h scheduled eng2)))
      | _ \<Rightarrow> eng1\<lparr>ce_stopped := True\<rparr>)"

section \<open>A send task and its result\<close>

fun rpc_error_text :: "rpc_error \<Rightarrow> string" where
  "rpc_error_text (RpcTransport m) = ''transport error: '' @ m"
| "rpc_error_text (RpcJson m) = ''JSON error: '' @ m"
| "rpc_error_text (RpcHttp m) = ''HTTP client: '' @ m"
| "rpc_error_text (RpcWs m) = ''WS error: '' @ m"

definition task_result :: "scheduled_send \<Rightarrow> instant \<Rightarrow> instant \<Rightarrow> rpc_error + cut_send_outcome \<Rightarrow> cut_send_result" where
  "task_result s t_pre t_post outcome_res =
     (let rtt_us = trunc_u64 (as_micros (since t_post t_pre));
          resolved_outcome = (case outcome_res of
            Inr o1 \<Rightarrow> o1 | Inl e \<Rightarrow> TxRejected (- 1) (''transport: '' @ rpc_error_text e));
          wake_jitter_us = trunc_u64 (as_micros (since t_pre (sc_target_instant s)))
      in \<lparr>sr_wallet_label = sc_wallet_label s, sr_tx_hash = sc_tx_hash s, sr_block_idx = sc_block_idx s,
          sr_block_num = sc_block_num s, sr_block_hash = sc_block_hash s, sr_slot_ms = sc_slot_ms s,
          sr_sample_idx = sc_sample_idx s, sr_nonce = sc_nonce s, sr_target_unix_ms = sc_target_unix_ms s,
          sr_sent_at_unix_ms = sc_target_unix_ms s + wake_jitter_us div 1000, sr_wake_jitter_us = wake_jitter_us,
          sr_rpc_rtt_us = rtt_us, sr_outcome = resolved_outcome\<rparr>)"

definition to_lower :: "string \<Rightarrow> string" where
  "to_lower = map (\<lambda>c. let n = of_char c :: nat in if 65 \<le> n \<and> n \<le> 90 then char_of (n + 32) else c)"

definition text_contains :: "string \<Rightarrow> string \<Rightarrow> bool" where
  "text_contains s p \<longleftrightarrow> (\<exists>i \<in> set [0..<length s + 1]. take (length p) (drop i s) = p)"

definition dec_i64 :: "i64 \<Rightarrow> string" where
  "dec_i64 n = (if sint n < 0 then ''-'' @ dec_digits (nat (- sint n)) else dec_digits (nat (sint n)))"

definition classify_error :: "i64 \<Rightarrow> string \<Rightarrow> string" where
  "classify_error code msg = (let lower = to_lower msg in
     if text_contains lower ''nonce too low'' then ''nonce_too_low''
     else if text_contains lower ''underpriced'' then ''replacement_underpriced''
     else if text_contains lower ''timeout'' then ''rpc_timeout''
     else ''other_'' @ dec_i64 code)"

definition send_result_text :: "cut_send_outcome \<Rightarrow> string \<times> bool" where
  "send_result_text outcome = (case outcome of
     TxAccepted _ \<Rightarrow> (''ok'', True)
   | TxRejected code message \<Rightarrow> (''error:'' @ classify_error code message, False))"

definition partial_of :: "cut_send_result \<Rightarrow> partial_record" where
  "partial_of r = \<lparr>pd_block_idx = sr_block_idx r, pd_block_num = sr_block_num r, pd_block_hash = sr_block_hash r,
     pd_slot_ms = sr_slot_ms r, pd_sample_idx = sr_sample_idx r, pd_wallet = sr_wallet_label r, pd_nonce = sr_nonce r,
     pd_target_unix_ms = sr_target_unix_ms r, pd_sent_at_unix_ms = sr_sent_at_unix_ms r,
     pd_wake_jitter_us = sr_wake_jitter_us r, pd_rpc_rtt_us = sr_rpc_rtt_us r,
     pd_send_result = fst (send_result_text (sr_outcome r)), pd_tx_hash = sr_tx_hash r\<rparr>"

text \<open>The counters of the block, closed when all its results have arrived.\<close>

definition count_result :: "u64 \<Rightarrow> bool \<Rightarrow> cutoff_engine \<Rightarrow> cutoff_engine" where
  "count_result block_idx was_success eng =
     (let c0 = (case hm_get (ce_totals eng) block_idx of Some c \<Rightarrow> c | None \<Rightarrow> counters_default);
          c1 = c0\<lparr>bc_received := bc_received c0 + 1\<rparr>;
          c = (if was_success then c1\<lparr>bc_successes := bc_successes c1 + 1\<rparr> else c1)
      in if bc_total c > 0 \<and> bc_received c \<ge> bc_total c
         then (let ab = record_block (bc_successes c) (bc_total c) (ce_abort eng) in
           eng\<lparr>ce_abort := ab, ce_totals := hm_delete block_idx (ce_totals eng),
               ce_stopped := (if should_abort ab then True else ce_stopped eng)\<rparr>)
         else eng\<lparr>ce_totals := hm_insert block_idx c (ce_totals eng)\<rparr>)"

definition on_result :: "cutoff_ctx \<Rightarrow> cut_send_result \<Rightarrow> cutoff_engine \<Rightarrow> cutoff_engine" where
  "on_result cx r eng =
     (let (send_result_str, was_success) = send_result_text (sr_outcome r);
          partial = partial_of r;
          eng1 = (if was_success then eng
            else eng\<lparr>ce_tracker := record_send_error (sr_tx_hash r) send_result_str (ce_tracker eng)\<rparr>);
          eng2 = emit_cut cx (into_tx_record partial (if was_success then KPending else KSendError) None) eng1;
          eng3 = (if was_success then eng2\<lparr>ce_pending := hm_insert (sr_tx_hash r) partial (ce_pending eng2)\<rparr> else eng2)
      in count_result (sr_block_idx r) was_success eng3)"

section \<open>The loop\<close>

datatype cutoff_event =
    CHeader cut_header "rpc_error + hash list" instant i64
  | CResult cut_send_result
  | CCtrlC

fun engine_handle :: "cutoff_ctx \<Rightarrow> cutoff_event \<Rightarrow> cutoff_engine \<Rightarrow> cutoff_engine" where
  "engine_handle cx (CHeader h reply t u) eng = on_header cx h reply t u eng"
| "engine_handle cx (CResult r) eng = on_result cx r eng"
| "engine_handle cx CCtrlC eng = eng\<lparr>ce_stopped := True\<rparr>"

definition engine_turn :: "cutoff_ctx \<Rightarrow> cutoff_event \<Rightarrow> cutoff_engine \<Rightarrow> cutoff_engine" where
  "engine_turn cx ev eng = (if ce_stopped eng then eng else engine_handle cx ev eng)"

definition engine_loop :: "cutoff_ctx \<Rightarrow> cutoff_event list \<Rightarrow> cutoff_engine \<Rightarrow> cutoff_engine" where
  "engine_loop cx es eng = fold (engine_turn cx) es eng"

text \<open>The results that still arrive within the grace period are recorded, but no longer tracked.\<close>

definition drain_result :: "cutoff_ctx \<Rightarrow> cut_send_result \<Rightarrow> cutoff_engine \<Rightarrow> cutoff_engine" where
  "drain_result cx r eng = (let (send_result_str, was_success) = send_result_text (sr_outcome r) in
     emit_cut cx (into_tx_record (partial_of r) (if was_success then KPending else KSendError) None) eng)"

definition engine_finish :: "cutoff_ctx \<Rightarrow> cut_send_result list \<Rightarrow> cutoff_engine \<Rightarrow> cutoff_engine" where
  "engine_finish cx late eng = fold (drain_result cx) late eng"

text \<open>The figures of the report: the finished statistics and the cut-offs.\<close>

definition engine_report :: "(u64 list \<Rightarrow> nat \<Rightarrow> u64) \<Rightarrow> (u64 \<Rightarrow> u64 \<Rightarrow> u64 \<Rightarrow> bool) \<Rightarrow> cutoff_engine \<Rightarrow>
    slot_stats list \<times> (u64, u64) btree" where
  "engine_report quantile at_least eng = (let agg = agg_finalize quantile (ce_agg eng) in
     (slots_ordered agg, cutoffs at_least [50, 90, 95, 99] agg))"

end
