(* ===== verification/CutoffRun.thy ===== *)
theory CutoffRun
  imports CutoffEngine
begin

text \<open>
  What a run of the inclusion-cutoff engine guarantees: the books of every send slot balance, a block
  classifies the pending transactions, the abort counter counts blocks in which every send failed; and
  what it loses, a transaction whose block is seen before its send result.
\<close>

declare split_paired_All [simp del] split_paired_Ex [simp del]

section \<open>Frames\<close>

lemma emit_cut_frame [frame]:
  "ce_tracker (emit_cut cx r eng) = ce_tracker eng" "ce_pending (emit_cut cx r eng) = ce_pending eng"
  "ce_tasks (emit_cut cx r eng) = ce_tasks eng" "ce_stopped (emit_cut cx r eng) = ce_stopped eng"
  "ce_block_index (emit_cut cx r eng) = ce_block_index eng" "ce_abort (emit_cut cx r eng) = ce_abort eng"
  "ce_totals (emit_cut cx r eng) = ce_totals eng"
  "ce_emitted (emit_cut cx r eng) = ce_emitted eng @ [r]" "ce_agg (emit_cut cx r eng) = agg_ingest r (ce_agg eng)"
  by (simp_all add: emit_cut_def)

lemma into_tx_record_fields [simp]:
  "cr_tx_hash (into_tx_record p k b) = Some (pd_tx_hash p)" "cr_slot_ms (into_tx_record p k b) = pd_slot_ms p"
  "cr_inclusion (into_tx_record p k b) = k" "cr_included_block (into_tx_record p k b) = b"
  by (simp_all add: into_tx_record_def)

lemma partial_of_fields [simp]: "pd_tx_hash (partial_of r) = sr_tx_hash r" "pd_slot_ms (partial_of r) = sr_slot_ms r"
  by (simp_all add: partial_of_def)

lemma emit_resolved_frame [frame]:
  "ce_tracker (emit_resolved cx r eng) = ce_tracker eng" "ce_tasks (emit_resolved cx r eng) = ce_tasks eng"
  "ce_stopped (emit_resolved cx r eng) = ce_stopped eng"
  by (simp_all add: emit_resolved_def hm_remove_def Let_def frame split: option.splits)

lemma emit_resolveds_frame [frame]:
  "ce_tracker (fold (emit_resolved cx) rs eng) = ce_tracker eng" "ce_tasks (fold (emit_resolved cx) rs eng) = ce_tasks eng"
  "ce_stopped (fold (emit_resolved cx) rs eng) = ce_stopped eng"
  by (induction rs arbitrary: eng) (simp_all add: frame)

text \<open>Signing only moves nonces and swap directions.\<close>

definition same_books :: "cutoff_engine \<Rightarrow> cutoff_engine \<Rightarrow> bool" where
  "same_books eng eng' \<longleftrightarrow> ce_tracker eng' = ce_tracker eng \<and> ce_pending eng' = ce_pending eng \<and> ce_tasks eng' = ce_tasks eng
     \<and> ce_emitted eng' = ce_emitted eng \<and> ce_agg eng' = ce_agg eng \<and> ce_stopped eng' = ce_stopped eng
     \<and> ce_totals eng' = ce_totals eng \<and> ce_abort eng' = ce_abort eng \<and> ce_block_index eng' = ce_block_index eng"

lemma presign_same_books: "same_books (snd se) (snd (presign cx h tgt router i se))"
  by (simp add: same_books_def presign_def swap_encode_def consume_nonce_def max_fee_def Let_def split: prod.splits sum.splits)

lemma presign_all_same_books: "same_books eng (snd (presign_all cx h tgt router eng))"
proof -
  have "same_books (snd se) (snd (fold (presign cx h tgt router) is se))" for "is" se
  proof (induction "is" arbitrary: se)
    case (Cons i "is")
    with presign_same_books [of se cx h tgt router i] Cons.IH [of "presign cx h tgt router i se"] show ?case
      by (simp add: same_books_def)
  qed (simp add: same_books_def)
  from this [of "([], eng)"] show ?thesis by (simp add: presign_all_def)
qed

section \<open>The books\<close>

definition open_slot :: "u64 \<Rightarrow> (hash, partial_record) hmap \<Rightarrow> nat" where
  "open_slot slot m = length (filter (\<lambda>e. pd_slot_ms (snd e) = slot) m)"

definition is_resolution :: "inclusion_kind \<Rightarrow> bool" where
  "is_resolution k \<longleftrightarrow> \<not> is_initial k"

definition accepted_result :: "cut_send_result \<Rightarrow> bool" where
  "accepted_result r \<longleftrightarrow> (\<exists>h. sr_outcome r = TxAccepted h)"

lemma send_result_text_ok [simp]: "snd (send_result_text o1) \<longleftrightarrow> (\<exists>h. o1 = TxAccepted h)"
  by (cases o1) (simp_all add: send_result_text_def)

definition initial_record :: "cut_send_result \<Rightarrow> cut_record" where
  "initial_record r = into_tx_record (partial_of r) (if accepted_result r then KPending else KSendError) None"

lemma initial_record_initial [simp]: "is_initial (cr_inclusion (initial_record r))"
  by (simp add: initial_record_def)

text \<open>\<open>rs\<close>: the results handled so far.\<close>

definition books_ok :: "cut_send_result list \<Rightarrow> cutoff_engine \<Rightarrow> bool" where
  "books_ok rs eng \<longleftrightarrow> tracker_ok (ce_tracker eng) \<and> hm_ok (ce_pending eng)
     \<and> ce_agg eng = agg_run (ce_emitted eng)
     \<and> (\<forall>h p. hm_get (ce_pending eng) h = Some p \<longrightarrow> pd_tx_hash p = h \<and> h \<in> sr_tx_hash ` set (filter accepted_result rs))
     \<and> (\<forall>h r. hm_get (tk_resolved (ce_tracker eng)) h = Some r \<longrightarrow> h \<in> sr_tx_hash ` set (filter (\<lambda>r. \<not> accepted_result r) rs))
     \<and> (\<forall>slot. of_slot slot (\<lambda>k. k = KPending) (ce_emitted eng) = of_slot slot is_resolution (ce_emitted eng) + open_slot slot (ce_pending eng))
     \<and> filter (\<lambda>r. is_initial (cr_inclusion r)) (ce_emitted eng) = map initial_record rs"

lemma books_ok_frame:
  assumes "books_ok rs eng" "tracker_ok (ce_tracker eng')" "tk_resolved (ce_tracker eng') = tk_resolved (ce_tracker eng)"
    and "ce_pending eng' = ce_pending eng" "ce_emitted eng' = ce_emitted eng" "ce_agg eng' = ce_agg eng"
  shows "books_ok rs eng'"
  using assms by (simp add: books_ok_def)

lemma accepted_not_rejected:
  assumes "distinct (map sr_tx_hash rs)" "h \<in> sr_tx_hash ` set (filter accepted_result rs)"
  shows "h \<notin> sr_tx_hash ` set (filter (\<lambda>r. \<not> accepted_result r) rs)"
  using assms by (auto simp: distinct_map inj_on_def)

lemma books_ok_resolved:
  assumes ok: "books_ok rs eng" and r: "inclusion_of (rt_status r) \<noteq> None \<or> hm_get (ce_pending eng) (rt_tx_hash r) = None"
  shows "books_ok rs (emit_resolved cx r eng)"
proof (cases "hm_get (ce_pending eng) (rt_tx_hash r)")
  case None
  then show ?thesis using ok by (simp add: emit_resolved_def hm_remove_def)
next
  case (Some p)
  with r obtain k where k: "inclusion_of (rt_status r) = Some k" by auto
  then have res: "is_resolution k" "k \<noteq> KPending" "\<not> is_initial k" by (auto simp: inclusion_of_def is_resolution_def split: inclusion_status.splits)
  let ?r = "into_tx_record p k (rt_included_block r)" and ?m = "hm_delete (rt_tx_hash r) (ce_pending eng)"
  have h: "emit_resolved cx r eng = emit_cut cx ?r (eng\<lparr>ce_pending := ?m\<rparr>)"
    using Some k by (simp add: emit_resolved_def hm_remove_def Let_def)
  have "hm_ok (ce_pending eng)" using ok by (simp add: books_ok_def)
  from hm_count_delete [OF this Some, of "\<lambda>e. pd_slot_ms (snd e) = _"]
  have "open_slot slot (ce_pending eng) = open_slot slot ?m + (if pd_slot_ms p = slot then 1 else 0)" for slot
    unfolding open_slot_def by simp
  with ok res show ?thesis unfolding h by (simp add: books_ok_def frame of_slot_snoc agg_run_def)
qed

lemma emit_resolved_pending: "hm_get (ce_pending (emit_resolved cx r eng)) h =
    (if h = rt_tx_hash r then None else hm_get (ce_pending eng) h)"
  by (cases "hm_get (ce_pending eng) (rt_tx_hash r)"; cases "inclusion_of (rt_status r)")
    (auto simp: emit_resolved_def hm_remove_def Let_def frame)

lemma books_ok_resolveds:
  "books_ok rs eng \<Longrightarrow> \<forall>r \<in> set xs. inclusion_of (rt_status r) \<noteq> None \<or> hm_get (ce_pending eng) (rt_tx_hash r) = None \<Longrightarrow>
   books_ok rs (fold (emit_resolved cx) xs eng)"
proof (induction xs arbitrary: eng)
  case (Cons x xs)
  have "\<forall>r \<in> set xs. inclusion_of (rt_status r) \<noteq> None \<or> hm_get (ce_pending (emit_resolved cx x eng)) (rt_tx_hash r) = None"
    using Cons.prems(2) by (auto simp: emit_resolved_pending)
  with Cons show ?case by (simp add: books_ok_resolved)
qed simp

lemma verdict_inclusion: "verdict n S tk e = Some r \<Longrightarrow> inclusion_of (rt_status r) \<noteq> None"
  by (auto simp: verdict_def inclusion_of_def Let_def split: prod.splits if_splits option.splits)

lemma drain_resolved_get: "tracker_ok tk \<Longrightarrow> r \<in> set (fst (drain_resolved tk)) \<Longrightarrow>
    hm_get (tk_resolved tk) (rt_tx_hash r) = Some r"
  unfolding drain_resolved_def by (auto simp: tracker_ok_def) (metis hm_get_in_set)

lemma books_ok_inclusions:
  assumes ok: "books_ok rs eng" and once: "distinct (map sr_tx_hash rs)"
  shows "books_ok rs (resolve_inclusions cx n reply eng)"
proof -
  let ?S = "set (case reply of Inr v \<Rightarrow> v | Inl e \<Rightarrow> [])"
  let ?tk = "observe_block n ?S (ce_tracker eng)"
  have tk: "tracker_ok (ce_tracker eng)" using ok by (simp add: books_ok_def)
  note o = observe_block_get [OF tk, of n ?S]
  have new: "inclusion_of (rt_status r) \<noteq> None \<or> hm_get (ce_pending eng) (rt_tx_hash r) = None"
    if "r \<in> set (fst (drain_resolved ?tk))" for r
  proof -
    have "hm_get (tk_resolved ?tk) (rt_tx_hash r) = Some r" using drain_resolved_get [OF o(1) that] .
    then consider e where "verdict n ?S (ce_tracker eng) e = Some r" | "hm_get (tk_resolved (ce_tracker eng)) (rt_tx_hash r) = Some r"
      unfolding o(5) by (auto split: option.splits simp: Option.bind_eq_Some_conv)
    then show ?thesis
    proof cases
      case 1
      then show ?thesis using verdict_inclusion by blast
    next
      case 2
      then have "rt_tx_hash r \<in> sr_tx_hash ` set (filter (\<lambda>r. \<not> accepted_result r) rs)" using ok by (auto simp: books_ok_def)
      then have "hm_get (ce_pending eng) (rt_tx_hash r) = None"
        using ok accepted_not_rejected [OF once, of "rt_tx_hash r"] unfolding books_ok_def by (cases "hm_get (ce_pending eng) (rt_tx_hash r)") auto
      then show ?thesis ..
    qed
  qed
  have "books_ok rs (eng\<lparr>ce_tracker := snd (drain_resolved ?tk)\<rparr>)"
    using ok tracker_ok_drain [OF o(1)] by (simp add: books_ok_def drain_resolved_def)
  with new show ?thesis unfolding resolve_inclusions_def Let_def case_prod_beta by (intro books_ok_resolveds) simp_all
qed

lemma tracker_ok_sents: "tracker_ok tk \<Longrightarrow> tracker_ok (fold (\<lambda>s. record_sent (sc_tx_hash s) b) xs tk)
    \<and> tk_resolved (fold (\<lambda>s. record_sent (sc_tx_hash s) b) xs tk) = tk_resolved tk"
  by (induction xs arbitrary: tk) (simp_all, simp add: record_sent_def)

text \<open>What a header does after resolving, as far as the books go: it may launch transactions, or nothing.\<close>

lemma on_header_cases:
  obtains (idle) eng' where "on_header cx h reply t u eng = eng'"
      "same_books ((resolve_inclusions cx (hd_number h) reply eng)\<lparr>ce_stopped := ce_stopped eng', ce_block_index := ce_block_index eng'\<rparr>) eng'"
  | (launched) scheduled eng2 where "on_header cx h reply t u eng = launch h scheduled eng2"
      "same_books (resolve_inclusions cx (hd_number h) reply eng) eng2"
proof -
  let ?e = "resolve_inclusions cx (hd_number h) reply eng"
  show ?thesis
  proof (cases "slot_ms_for (cx_schedule cx) (ce_block_index ?e)")
    case None
    show ?thesis by (rule idle [OF refl]) (simp add: on_header_def Let_def None same_books_def)
  next
    case slot: (Some slot_ms)
    then obtain sample_idx where sample: "sample_idx_for (cx_schedule cx) (ce_block_index ?e) = Some sample_idx"
      by (auto simp: slot_ms_for_def sample_idx_for_def split: if_splits)
    let ?target = "hd_timestamp h * 1000 + slot_ms"
    show ?thesis
    proof (cases "sint ?target \<le> sint u \<or> cx_router cx = None")
      case True
      show ?thesis by (rule idle [OF refl]) (use True in \<open>auto simp: on_header_def Let_def slot sample same_books_def\<close>)
    next
      case False
      then obtain router where "cx_router cx = Some router" by auto
      moreover obtain scheduled eng2 where ps: "presign_all cx h (target_instant_from_unix_ms t u ?target, ?target, slot_ms, sample_idx) router ?e = (scheduled, eng2)"
        by (metis surj_pair)
      ultimately have "on_header cx h reply t u eng = launch h scheduled eng2"
        using False by (simp add: on_header_def Let_def slot sample)
      then show ?thesis
        using presign_all_same_books [of ?e cx h "(target_instant_from_unix_ms t u ?target, ?target, slot_ms, sample_idx)" router]
        by (intro launched) (simp_all add: ps)
    qed
  qed
qed

lemma books_ok_header:
  assumes "books_ok rs eng" "distinct (map sr_tx_hash rs)"
  shows "books_ok rs (on_header cx h reply t u eng)"
proof (cases rule: on_header_cases [where cx = cx and h = h and reply = reply and t = t and u = u and eng = eng])
  case (idle eng')
  with books_ok_inclusions [OF assms, of cx "hd_number h" reply] show ?thesis by (auto simp: same_books_def books_ok_def)
next
  case (launched scheduled eng2)
  with books_ok_inclusions [OF assms, of cx "hd_number h" reply] have "books_ok rs eng2" by (auto simp: same_books_def books_ok_def)
  moreover from this have "tracker_ok (ce_tracker eng2)" by (simp add: books_ok_def)
  ultimately show ?thesis
    using tracker_ok_sents [of "ce_tracker eng2" "hd_number h + 1" scheduled] unfolding launched(1)
    by (auto simp: launch_def intro: books_ok_frame)
qed

lemma count_result_same [frame]:
  "ce_tracker (count_result b s eng) = ce_tracker eng" "ce_pending (count_result b s eng) = ce_pending eng"
  "ce_emitted (count_result b s eng) = ce_emitted eng" "ce_agg (count_result b s eng) = ce_agg eng"
  "ce_tasks (count_result b s eng) = ce_tasks eng"
  by (simp_all add: count_result_def Let_def)

lemma on_result_effect:
  "ce_emitted (on_result cx r eng) = ce_emitted eng @ [initial_record r]"
  "ce_agg (on_result cx r eng) = agg_ingest (initial_record r) (ce_agg eng)"
  "ce_pending (on_result cx r eng) = (if accepted_result r then hm_insert (sr_tx_hash r) (partial_of r) (ce_pending eng) else ce_pending eng)"
  "ce_tracker (on_result cx r eng) = (if accepted_result r then ce_tracker eng
     else record_send_error (sr_tx_hash r) (fst (send_result_text (sr_outcome r))) (ce_tracker eng))"
  "ce_tasks (on_result cx r eng) = ce_tasks eng"
  by (cases "send_result_text (sr_outcome r)";
      use send_result_text_ok [of "sr_outcome r"] in \<open>simp add: on_result_def initial_record_def accepted_result_def frame Let_def\<close>)+

lemma books_ok_result:
  assumes ok: "books_ok rs eng" and new: "sr_tx_hash r \<notin> sr_tx_hash ` set rs"
  shows "books_ok (rs @ [r]) (on_result cx r eng)"
proof (cases "accepted_result r")
  case True
  have none: "hm_get (ce_pending eng) (sr_tx_hash r) = None"
  proof (rule ccontr)
    assume "hm_get (ce_pending eng) (sr_tx_hash r) \<noteq> None"
    then have "sr_tx_hash r \<in> sr_tx_hash ` set (filter accepted_result rs)" using ok unfolding books_ok_def by blast
    with new show False by auto
  qed
  from hm_count_insert [OF this, of "\<lambda>e. pd_slot_ms (snd e) = _" "partial_of r"]
  have "open_slot slot (hm_insert (sr_tx_hash r) (partial_of r) (ce_pending eng))
      = open_slot slot (ce_pending eng) + (if sr_slot_ms r = slot then 1 else 0)" for slot
    unfolding open_slot_def by simp
  with True ok show ?thesis
    by (auto simp: books_ok_def on_result_effect initial_record_def of_slot_snoc agg_run_def is_resolution_def)
next
  case False
  with ok show ?thesis
    by (auto simp: books_ok_def on_result_effect initial_record_def of_slot_snoc agg_run_def is_resolution_def
        record_send_error_def tracker_ok_def)
qed

text \<open>The results that reached the loop before it stopped.\<close>

fun handled :: "cutoff_ctx \<Rightarrow> cutoff_event list \<Rightarrow> cutoff_engine \<Rightarrow> cut_send_result list" where
  "handled cx [] eng = []"
| "handled cx (ev # es) eng =
     (case ev of CResult r \<Rightarrow> if ce_stopped eng then [] else [r] | _ \<Rightarrow> []) @ handled cx es (engine_turn cx ev eng)"

fun results_of :: "cutoff_event list \<Rightarrow> cut_send_result list" where
  "results_of [] = []"
| "results_of (CResult r # es) = r # results_of es"
| "results_of (_ # es) = results_of es"

lemma results_of_append: "results_of (es @ es') = results_of es @ results_of es'"
  by (induction es rule: results_of.induct) simp_all

lemma handled_subseq: "subseq (handled cx es eng) (results_of es)"
proof (induction es arbitrary: eng)
  case (Cons ev es)
  then show ?case by (cases ev) auto
qed simp

lemma books_ok_loop:
  assumes "books_ok rs eng" "distinct (map sr_tx_hash (rs @ handled cx es eng))"
  shows "books_ok (rs @ handled cx es eng) (engine_loop cx es eng)"
  using assms
proof (induction es arbitrary: rs eng)
  case (Cons ev es)
  show ?case
  proof (cases "\<not> ce_stopped eng \<and> (\<exists>r. ev = CResult r)")
    case True
    then obtain r where r: "ev = CResult r" by blast
    with True Cons.prems have "books_ok (rs @ [r]) (engine_turn cx ev eng)"
      by (auto simp: engine_turn_def intro!: books_ok_result)
    with Cons.IH [of "rs @ [r]" "engine_turn cx ev eng"] True r Cons.prems(2) show ?thesis by (simp add: engine_loop_def)
  next
    case False
    then have "handled cx (ev # es) eng = handled cx es (engine_turn cx ev eng)" by (cases ev) auto
    moreover have "books_ok rs (engine_turn cx ev eng)"
    proof (cases ev)
      case (CHeader h reply t u)
      with books_ok_header [of rs eng cx h reply t u] Cons.prems show ?thesis by (simp add: engine_turn_def)
    next
      case (CResult r)
      with False Cons.prems(1) show ?thesis by (simp add: engine_turn_def)
    next
      case CCtrlC
      with Cons.prems(1) show ?thesis by (simp add: engine_turn_def books_ok_def)
    qed
    ultimately show ?thesis using Cons by (simp add: engine_loop_def)
  qed
qed (simp add: engine_loop_def)

lemma books_ok_new: "books_ok [] (engine_new cx ws ds)"
  by (simp add: books_ok_def engine_new_def agg_run_def of_slot_def open_slot_def) (simp add: tracker_new_cut_def)

lemma books_ok_reached: "distinct (map sr_tx_hash (handled cx es (engine_new cx ws ds))) \<Longrightarrow>
    books_ok (handled cx es (engine_new cx ws ds)) (engine_loop cx es (engine_new cx ws ds))"
  using books_ok_loop [where rs = "[]" and eng = "engine_new cx ws ds"] by (simp add: books_ok_new)

lemma finish_effect:
  "ce_emitted (engine_finish cx late eng) = ce_emitted eng @ map initial_record late
   \<and> ce_agg (engine_finish cx late eng) = fold agg_ingest (map initial_record late) (ce_agg eng)
   \<and> ce_pending (engine_finish cx late eng) = ce_pending eng"
proof (induction late rule: rev_induct)
  case (snoc r late)
  have "drain_result cx r eng' = emit_cut cx (initial_record r) eng'" for eng'
    by (cases "send_result_text (sr_outcome r)"; use send_result_text_ok [of "sr_outcome r"] in
        \<open>simp add: drain_result_def initial_record_def accepted_result_def\<close>)
  with snoc show ?case by (simp add: engine_finish_def frame)
qed (simp add: engine_finish_def)

lemma of_slot_append: "of_slot slot P (rs @ rs') = of_slot slot P rs + of_slot slot P rs'"
  by (simp add: of_slot_def)

lemma of_slot_resolution: "of_slot slot is_resolution rs =
    of_slot slot (\<lambda>k. k = KTarget) rs + of_slot slot is_late rs + of_slot slot (\<lambda>k. k = KDropped) rs"
  by (induction rs rule: rev_induct) (auto simp: of_slot_snoc is_resolution_def is_late_def of_slot_def, metis inclusion_kind.exhaust is_initial_simps)

lemma of_slot_initials: "of_slot slot P (map initial_record rs) =
    length (filter (\<lambda>r. sr_slot_ms r = slot \<and> P (if accepted_result r then KPending else KSendError)) rs)"
  by (induction rs) (auto simp: of_slot_def initial_record_def)

lemma filter_map_initials [simp]: "filter (\<lambda>r. is_initial (cr_inclusion r)) (map initial_record rs) = map initial_record rs"
  by (simp add: filter_id_conv)

text \<open>C18. The books of a run balance.  Whatever the order of blocks and results, the report's statistics are those
  of the records written; one initial record is written per result, in order; and in every send slot the
  accepted transactions are the included, late and dropped ones plus those still open at the end, so no
  share of a slot exceeds one.\<close>

theorem cutoff_books_balance:
  assumes "distinct (map sr_tx_hash (results_of es))"
  shows "let eng = engine_loop cx es (engine_new cx ws ds); fin = engine_finish cx late eng; em = ce_emitted fin in
    ce_agg fin = agg_run em
    \<and> filter (\<lambda>r. is_initial (cr_inclusion r)) em = map initial_record (handled cx es (engine_new cx ws ds) @ late)
    \<and> (\<forall>slot. of_slot slot (\<lambda>k. k = KPending) em =
        of_slot slot (\<lambda>k. k = KTarget) em + of_slot slot is_late em + of_slot slot (\<lambda>k. k = KDropped) em
        + open_slot slot (ce_pending fin) + length (filter (\<lambda>r. sr_slot_ms r = slot \<and> accepted_result r) late))"
proof -
  let ?h = "handled cx es (engine_new cx ws ds)" and ?eng = "engine_loop cx es (engine_new cx ws ds)"
  have "distinct (map sr_tx_hash ([] @ ?h))" using distinct_map_subseq [OF handled_subseq assms] by simp
  from books_ok_loop [OF books_ok_new this] have ok: "books_ok ?h ?eng" by simp
  have none: "of_slot slot is_resolution (map initial_record late) = 0" for slot
    by (simp add: of_slot_initials is_resolution_def)
  have pend: "of_slot slot (\<lambda>k. k = KPending) (map initial_record late) = length (filter (\<lambda>r. sr_slot_ms r = slot \<and> accepted_result r) late)" for slot
    unfolding of_slot_initials by (rule arg_cong [where f = length], rule filter_cong) auto
  show ?thesis unfolding of_slot_resolution [symmetric]
    using ok finish_effect [of cx late ?eng] none pend
    by (simp add: Let_def books_ok_def of_slot_append agg_run_def filter_map_initials)
qed

section \<open>What a block decides\<close>

definition keys_ok :: "cutoff_engine \<Rightarrow> bool" where
  "keys_ok eng \<longleftrightarrow> (\<forall>h p. hm_get (ce_pending eng) h = Some p \<longrightarrow> pd_tx_hash p = h)"

definition resolution_records :: "(hash, partial_record) hmap \<Rightarrow> resolved_tx list \<Rightarrow> hash \<Rightarrow> cut_record list" where
  "resolution_records m xs tx = (case find (\<lambda>r. rt_tx_hash r = tx) xs of
     None \<Rightarrow> []
   | Some r \<Rightarrow> (case (hm_get m tx, inclusion_of (rt_status r)) of
       (Some part, Some k) \<Rightarrow> [into_tx_record part k (rt_included_block r)]
     | _ \<Rightarrow> []))"

lemma emit_resolveds_records:
  "keys_ok eng \<Longrightarrow> distinct (map rt_tx_hash xs) \<Longrightarrow>
   keys_ok (fold (emit_resolved cx) xs eng)
   \<and> (\<forall>tx. hm_get (ce_pending (fold (emit_resolved cx) xs eng)) tx = (if tx \<in> rt_tx_hash ` set xs then None else hm_get (ce_pending eng) tx))
   \<and> (\<exists>ys. ce_emitted (fold (emit_resolved cx) xs eng) = ce_emitted eng @ ys
     \<and> (\<forall>tx. filter (\<lambda>r. cr_tx_hash r = Some tx) ys = resolution_records (ce_pending eng) xs tx))"
proof (induction xs arbitrary: eng)
  case (Cons x xs)
  let ?e = "emit_resolved cx x eng"
  have k: "keys_ok ?e" using Cons.prems(1) by (simp add: keys_ok_def emit_resolved_pending)
  obtain ys where ys: "ce_emitted (fold (emit_resolved cx) xs ?e) = ce_emitted ?e @ ys"
    "\<And>tx. filter (\<lambda>r. cr_tx_hash r = Some tx) ys = resolution_records (ce_pending ?e) xs tx"
    using Cons.IH [OF k] Cons.prems(2) by auto
  obtain zs where zs: "ce_emitted ?e = ce_emitted eng @ zs"
    "\<And>tx. filter (\<lambda>r. cr_tx_hash r = Some tx) zs = (if tx = rt_tx_hash x then resolution_records (ce_pending eng) [x] tx else [])"
  proof (cases "hm_get (ce_pending eng) (rt_tx_hash x)")
    case None
    then show ?thesis by (intro that [of "[]"]) (simp_all add: emit_resolved_def hm_remove_def resolution_records_def)
  next
    case (Some p)
    then have "pd_tx_hash p = rt_tx_hash x" using Cons.prems(1) by (simp add: keys_ok_def)
    with Some show ?thesis
      by (cases "inclusion_of (rt_status x)";
          intro that [of "case inclusion_of (rt_status x) of Some k \<Rightarrow> [into_tx_record p k (rt_included_block x)] | None \<Rightarrow> []"])
        (auto simp: emit_resolved_def hm_remove_def resolution_records_def Let_def frame)
  qed
  have "filter (\<lambda>r. cr_tx_hash r = Some tx) (zs @ ys) = resolution_records (ce_pending eng) (x # xs) tx" for tx
  proof (cases "tx = rt_tx_hash x")
    case True
    have "find (\<lambda>r. rt_tx_hash r = tx) xs = None" using Cons.prems(2) True by (auto simp: find_None_iff) (metis image_eqI)
    with True show ?thesis by (simp add: ys(2) zs(2)) (simp add: resolution_records_def)
  next
    case False
    then have g: "hm_get (ce_pending ?e) tx = hm_get (ce_pending eng) tx" and n: "rt_tx_hash x \<noteq> tx"
      by (simp_all add: emit_resolved_pending)
    have "resolution_records (ce_pending ?e) xs tx = resolution_records (ce_pending eng) (x # xs) tx"
      unfolding resolution_records_def g using n by simp
    with False show ?thesis by (simp add: ys(2) zs(2))
  qed
  then have "\<exists>ys. ce_emitted (fold (emit_resolved cx) (x # xs) eng) = ce_emitted eng @ ys
     \<and> (\<forall>tx. filter (\<lambda>r. cr_tx_hash r = Some tx) ys = resolution_records (ce_pending eng) (x # xs) tx)"
    using ys(1) zs(1) by (intro exI [of _ "zs @ ys"]) simp
  with Cons.IH [OF k] Cons.prems(2) show ?case by (auto simp: emit_resolved_pending)
qed (simp add: resolution_records_def)

text \<open>The effect of a header on the records and the open transactions, through the tracker.\<close>

lemma header_effect:
  fixes n :: u64 and reply :: "rpc_error + hash list" and eng :: cutoff_engine
  assumes tk: "tracker_ok (ce_tracker eng)" and keys: "keys_ok eng"
  defines "S \<equiv> set (case reply of Inr v \<Rightarrow> v | Inl e \<Rightarrow> [])"
  defines "new \<equiv> \<lambda>tx. hm_get (tk_resolved (observe_block n S (ce_tracker eng))) tx"
  shows "keys_ok (resolve_inclusions cx n reply eng)"
    "hm_get (ce_pending (resolve_inclusions cx n reply eng)) tx = (if new tx \<noteq> None then None else hm_get (ce_pending eng) tx)"
    "\<exists>ys. ce_emitted (resolve_inclusions cx n reply eng) = ce_emitted eng @ ys
      \<and> (\<forall>tx. filter (\<lambda>r. cr_tx_hash r = Some tx) ys = (case (hm_get (ce_pending eng) tx, Option.bind (new tx) (\<lambda>r. inclusion_of (rt_status r))) of
          (Some part, Some k) \<Rightarrow> [into_tx_record part k (rt_included_block (the (new tx)))] | _ \<Rightarrow> []))"
    "ce_tracker (resolve_inclusions cx n reply eng) = (observe_block n S (ce_tracker eng))\<lparr>tk_resolved := []\<rparr>"
proof -
  let ?tk = "observe_block n S (ce_tracker eng)" and ?xs = "map snd (tk_resolved (observe_block n S (ce_tracker eng)))"
  have ok: "tracker_ok ?tk" using observe_block_get(1) [OF tk] .
  have h: "rt_tx_hash (snd e) = fst e" if "e \<in> set (tk_resolved ?tk)" for e
    using ok that hm_get_in_set [of "tk_resolved ?tk" "fst e" "snd e"] by (simp add: tracker_ok_def)
  have hs: "map rt_tx_hash ?xs = map fst (tk_resolved ?tk)" using h by simp
  have d: "distinct (map rt_tx_hash ?xs)" using ok hm_distinct_keys [of "tk_resolved ?tk"] unfolding hs by (simp add: tracker_ok_def hm_keys_def)
  have f: "find (\<lambda>r. rt_tx_hash r = tx) ?xs = new tx" for tx
  proof -
    have m: "find (\<lambda>r. rt_tx_hash r = tx) (map snd m) = map_of m tx" if "\<forall>e \<in> set m. rt_tx_hash (snd e) = fst e" for m
      using that by (induction m) auto
    have "\<forall>e \<in> set (tk_resolved ?tk). rt_tx_hash (snd e) = fst e" using h by blast
    from m [OF this] show ?thesis unfolding new_def hm_get_def .
  qed
  have r: "resolve_inclusions cx n reply eng = fold (emit_resolved cx) ?xs (eng\<lparr>ce_tracker := ?tk\<lparr>tk_resolved := []\<rparr>\<rparr>)"
    by (simp add: resolve_inclusions_def drain_resolved_def S_def Let_def)
  have k: "keys_ok (eng\<lparr>ce_tracker := ?tk\<lparr>tk_resolved := []\<rparr>\<rparr>)" using keys by (simp add: keys_ok_def)
  note e = emit_resolveds_records [OF k d, of cx, folded r]
  have "tx \<in> rt_tx_hash ` set ?xs \<longleftrightarrow> new tx \<noteq> None" for tx
    using hs hm_keys_get [of tx "tk_resolved ?tk"] by (metis hm_keys_def list.set_map new_def)
  then show "hm_get (ce_pending (resolve_inclusions cx n reply eng)) tx = (if new tx \<noteq> None then None else hm_get (ce_pending eng) tx)"
    using e by simp
  show "keys_ok (resolve_inclusions cx n reply eng)" using e by blast
  show "ce_tracker (resolve_inclusions cx n reply eng) = ?tk\<lparr>tk_resolved := []\<rparr>" unfolding r by (simp add: frame)
  have "resolution_records (ce_pending eng) ?xs tx = (case (hm_get (ce_pending eng) tx, Option.bind (new tx) (\<lambda>r. inclusion_of (rt_status r))) of
          (Some part, Some k) \<Rightarrow> [into_tx_record part k (rt_included_block (the (new tx)))] | _ \<Rightarrow> [])" for tx
    unfolding resolution_records_def f by (auto split: option.split)
  with e show "\<exists>ys. ce_emitted (resolve_inclusions cx n reply eng) = ce_emitted eng @ ys
      \<and> (\<forall>tx. filter (\<lambda>r. cr_tx_hash r = Some tx) ys = (case (hm_get (ce_pending eng) tx, Option.bind (new tx) (\<lambda>r. inclusion_of (rt_status r))) of
          (Some part, Some k) \<Rightarrow> [into_tx_record part k (rt_included_block (the (new tx)))] | _ \<Rightarrow> []))"
    by auto
qed

lemma header_emitted: "ce_emitted (on_header cx h reply t u eng) = ce_emitted (resolve_inclusions cx (hd_number h) reply eng)"
  "ce_pending (on_header cx h reply t u eng) = ce_pending (resolve_inclusions cx (hd_number h) reply eng)"
  by (cases rule: on_header_cases [where cx = cx and h = h and reply = reply and t = t and u = u and eng = eng];
      simp add: same_books_def launch_def)+

lemma observe_block_resolved:
  fixes n :: u64 and S :: "hash set" and tk :: cut_tracker
  assumes ok: "tracker_ok tk" and st: "hm_get (tk_states tk) tx = Some (PendingInclusion target)"
  shows "hm_get (tk_resolved (observe_block n S tk)) tx =
    (if tx \<in> S then Some \<lparr>rt_tx_hash = tx, rt_status = (if n = target then IncludedTarget else IncludedLate (sat_sub n target)), rt_included_block = Some n\<rparr>
     else if n > target + tk_lookahead tk then Some \<lparr>rt_tx_hash = tx, rt_status = DroppedTx, rt_included_block = None\<rparr>
     else hm_get (tk_resolved tk) tx)"
proof -
  have "hm_get (tk_targets tk) tx = Some target" using ok st by (simp add: tracker_ok_def)
  then show ?thesis using st unfolding observe_block_get(5) [OF ok] by (simp add: verdict_def Let_def)
qed

lemma observe_block_settled:
  fixes n :: u64 and S :: "hash set" and tk :: cut_tracker
  assumes ok: "tracker_ok tk" and st: "hm_get (tk_states tk) tx = Some st" "\<not> is_pending_inclusion st"
  shows "hm_get (tk_resolved (observe_block n S tk)) tx = hm_get (tk_resolved tk) tx"
    "hm_get (tk_states (observe_block n S tk)) tx = Some st"
  unfolding observe_block_get(4,5) [OF ok] using st by (simp_all add: verdict_def)

text \<open>Only a resolution changes the state of a transaction, and it settles it.\<close>

lemma observe_block_states:
  fixes n :: u64 and S :: "hash set" and tk :: cut_tracker
  assumes ok: "tracker_ok tk"
  shows "hm_get (tk_states (observe_block n S tk)) tx = None \<longleftrightarrow> hm_get (tk_states tk) tx = None"
    "tx \<in> S \<Longrightarrow> hm_get (tk_states (observe_block n S tk)) tx = Some st \<Longrightarrow> \<not> is_pending_inclusion st"
proof -
  let ?v = "Option.bind (hm_get (tk_states tk) tx) (\<lambda>st. verdict n S tk (tx, st))"
  note g = observe_block_get(4) [OF ok, of n S tx]
  show "hm_get (tk_states (observe_block n S tk)) tx = None \<longleftrightarrow> hm_get (tk_states tk) tx = None"
    unfolding g by (auto split: option.split simp: Option.bind_eq_Some_conv)
  show "\<not> is_pending_inclusion st" if "tx \<in> S" "hm_get (tk_states (observe_block n S tk)) tx = Some st"
  proof (cases ?v)
    case None
    with that(2) have s: "hm_get (tk_states tk) tx = Some st" unfolding g by simp
    show ?thesis
    proof (cases st)
      case (PendingInclusion target)
      then have "hm_get (tk_targets tk) tx = Some target" using ok s by (simp add: tracker_ok_def)
      with PendingInclusion s None that(1) show ?thesis by (simp add: verdict_def Let_def)
    qed simp_all
  next
    case (Some r)
    then obtain e where "verdict n S tk e = Some r" by (auto simp: Option.bind_eq_Some_conv)
    with verdict_hash [OF this] Some that(2) show ?thesis unfolding g by simp
  qed
qed

lemma resolve_inclusions_lookahead:
  "tracker_ok (ce_tracker eng) \<Longrightarrow> tk_lookahead (ce_tracker (resolve_inclusions cx n reply eng)) = tk_lookahead (ce_tracker eng)"
  using observe_block_get(3) [of "ce_tracker eng" n "set (case reply of Inr v \<Rightarrow> v | Inl e \<Rightarrow> [])"]
  by (simp add: resolve_inclusions_def drain_resolved_def frame Let_def)

lemma record_sents_lookahead: "tk_lookahead (fold (\<lambda>s. record_sent (sc_tx_hash s) b) xs tk) = tk_lookahead tk"
  by (induction xs arbitrary: tk) (simp_all add: record_sent_def)

lemma engine_turn_lookahead:
  assumes "tracker_ok (ce_tracker eng)"
  shows "tk_lookahead (ce_tracker (engine_turn cx ev eng)) = tk_lookahead (ce_tracker eng)"
proof (cases ev)
  case (CHeader h reply t u)
  have "tk_lookahead (ce_tracker (on_header cx h reply t u eng)) = tk_lookahead (ce_tracker (resolve_inclusions cx (hd_number h) reply eng))"
    by (cases rule: on_header_cases [where cx = cx and h = h and reply = reply and t = t and u = u and eng = eng])
      (auto simp: same_books_def launch_def record_sents_lookahead)
  with CHeader assms show ?thesis by (simp add: engine_turn_def resolve_inclusions_lookahead)
qed (simp_all add: engine_turn_def on_result_effect record_send_error_def)

lemma handled_append: "handled cx (es @ es') eng = handled cx es eng @ handled cx es' (engine_loop cx es eng)"
  by (induction es arbitrary: eng) (simp_all add: engine_loop_def)

lemma engine_loop_lookahead:
  assumes "distinct (map sr_tx_hash (handled cx es (engine_new cx ws ds)))"
  shows "tk_lookahead (ce_tracker (engine_loop cx es (engine_new cx ws ds))) = tg_inclusion_lookahead_blocks (cg_tracking (cx_cfg cx))"
  using assms
proof (induction es rule: rev_induct)
  case (snoc ev es)
  then have d: "distinct (map sr_tx_hash (handled cx es (engine_new cx ws ds)))" by (simp add: handled_append)
  then have "tracker_ok (ce_tracker (engine_loop cx es (engine_new cx ws ds)))"
    using books_ok_reached [of cx es ws ds] by (simp add: books_ok_def)
  with snoc.IH [OF d] show ?case by (simp add: engine_loop_def engine_turn_lookahead)
qed (simp add: engine_loop_def engine_new_def tracker_new_cut_def)

text \<open>C19. A block settles each accepted transaction that is still waiting: included in its target block, late
  by the difference, dropped once the look-ahead is over, and nothing otherwise; at most one record is
  written for it.\<close>

theorem cutoff_classifies:
  fixes cx :: cutoff_ctx and h :: cut_header and target :: u64
  assumes once: "distinct (map sr_tx_hash (results_of es))"
    and open_tx: "hm_get (ce_pending (engine_loop cx es (engine_new cx ws ds))) tx = Some part"
    and waiting: "tracker_status tx (ce_tracker (engine_loop cx es (engine_new cx ws ds))) = Some (PendingInclusion target)"
  shows "\<exists>ys. ce_emitted (on_header cx h (Inr hashes) t u (engine_loop cx es (engine_new cx ws ds)))
        = ce_emitted (engine_loop cx es (engine_new cx ws ds)) @ ys
      \<and> filter (\<lambda>r. cr_tx_hash r = Some tx) ys =
        (if tx \<in> set hashes
         then [into_tx_record part (if hd_number h = target then KTarget else KLate (sat_sub (hd_number h) target)) (Some (hd_number h))]
         else if hd_number h > target + tg_inclusion_lookahead_blocks (cg_tracking (cx_cfg cx)) then [into_tx_record part KDropped None]
         else [])"
proof -
  let ?eng = "engine_loop cx es (engine_new cx ws ds)" and ?n = "hd_number h" and ?hd = "handled cx es (engine_new cx ws ds)"
  have d: "distinct (map sr_tx_hash ?hd)" using distinct_map_subseq [OF handled_subseq once] .
  have ok: "books_ok ?hd ?eng" using books_ok_reached [of cx es ws ds] d by simp
  then have tk: "tracker_ok (ce_tracker ?eng)" and keys: "keys_ok ?eng" by (auto simp: books_ok_def keys_ok_def)
  have "tx \<in> sr_tx_hash ` set (filter accepted_result ?hd)" using ok open_tx unfolding books_ok_def by blast
  then have res: "hm_get (tk_resolved (ce_tracker ?eng)) tx = None"
    using ok accepted_not_rejected [OF d] unfolding books_ok_def by (metis option.exhaust)
  have st: "hm_get (tk_states (ce_tracker ?eng)) tx = Some (PendingInclusion target)" using waiting by (simp add: tracker_status_def)
  note new = observe_block_resolved [OF tk st, of ?n "set hashes", unfolded res engine_loop_lookahead [OF d]]
  note e = header_effect(3) [OF tk keys, of cx ?n "Inr hashes", unfolded sum.case]
  obtain ys where a: "ce_emitted (resolve_inclusions cx ?n (Inr hashes) ?eng) = ce_emitted ?eng @ ys"
    and b: "filter (\<lambda>r. cr_tx_hash r = Some tx) ys = (case (hm_get (ce_pending ?eng) tx,
        Option.bind (hm_get (tk_resolved (observe_block ?n (set hashes) (ce_tracker ?eng))) tx) (\<lambda>r. inclusion_of (rt_status r))) of
          (Some part, Some k) \<Rightarrow> [into_tx_record part k (rt_included_block (the (hm_get (tk_resolved (observe_block ?n (set hashes) (ce_tracker ?eng))) tx)))] | _ \<Rightarrow> [])"
    by (rule exE [OF e]) (erule conjE, drule spec [where x = tx], blast)
  show ?thesis unfolding header_emitted
    by (rule exI [of _ ys], rule conjI [OF a]) (use b [unfolded new open_tx] in \<open>simp add: inclusion_of_def\<close>)
qed

section \<open>A block seen before the send result\<close>

definition task_hashes :: "cutoff_engine \<Rightarrow> hash list" where
  "task_hashes eng = map sc_tx_hash (ce_tasks eng)"

definition seen_hashes :: "rpc_error + hash list \<Rightarrow> hash set" where
  "seen_hashes reply = set (case reply of Inr v \<Rightarrow> v | Inl e \<Rightarrow> [])"

lemma seen_hashes_simps [simp]: "seen_hashes (Inr v) = set v" "seen_hashes (Inl e) = {}"
  by (simp_all add: seen_hashes_def)

lemma record_sents_resolved [simp]: "tk_resolved (fold (\<lambda>s. record_sent (sc_tx_hash s) b) xs tk) = tk_resolved tk"
  by (induction xs arbitrary: tk) (simp_all add: record_sent_def)

lemma tracker_ok_drained: "tracker_ok tk \<Longrightarrow> tracker_ok (fold (\<lambda>s. record_sent (sc_tx_hash s) b) xs (tk\<lparr>tk_resolved := []\<rparr>))"
  using tracker_ok_sents [of "tk\<lparr>tk_resolved := []\<rparr>"] by (simp add: tracker_ok_def)

lemma record_sents_states:
  "hm_get (tk_states (fold (\<lambda>s. record_sent (sc_tx_hash s) b) xs tk)) tx =
    (if tx \<in> sc_tx_hash ` set xs then Some (PendingInclusion b) else hm_get (tk_states tk) tx)"
  by (induction xs arbitrary: tk) (auto simp: record_sent_def)

text \<open>What one header does for a transaction without an open record: it writes nothing for it, and the
  tracker's answer is thrown away.\<close>

lemma header_no_record:
  fixes h :: cut_header and reply :: "rpc_error + hash list" and eng :: cutoff_engine
  assumes tk: "tracker_ok (ce_tracker eng)" and keys: "keys_ok eng"
    and none: "hm_get (ce_pending eng) tx = None \<or>
      (\<forall>r. hm_get (tk_resolved (observe_block (hd_number h) (seen_hashes reply) (ce_tracker eng))) tx = Some r
        \<longrightarrow> inclusion_of (rt_status r) = None)"
  shows "\<exists>ys. ce_emitted (on_header cx h reply t u eng) = ce_emitted eng @ ys \<and> filter (\<lambda>r. cr_tx_hash r = Some tx) ys = []"
proof -
  let ?new = "hm_get (tk_resolved (observe_block (hd_number h) (seen_hashes reply) (ce_tracker eng))) tx"
  have "(case (hm_get (ce_pending eng) tx, Option.bind ?new (\<lambda>r. inclusion_of (rt_status r))) of
          (Some part, Some k) \<Rightarrow> [into_tx_record part k (rt_included_block (the ?new))] | _ \<Rightarrow> []) = []"
    using none by (cases ?new) (auto split: option.split)
  with header_effect(3) [OF tk keys, of cx "hd_number h" reply, folded seen_hashes_def] show ?thesis unfolding header_emitted by fastforce
qed

text \<open>The tracker after a header: that of the resolution, and the launched transactions.\<close>

lemma header_tracker:
  fixes h :: cut_header and reply :: "rpc_error + hash list" and eng :: cutoff_engine
  assumes tk: "tracker_ok (ce_tracker eng)" and keys: "keys_ok eng"
  obtains scheduled where "ce_tasks (on_header cx h reply t u eng) = ce_tasks eng @ scheduled"
    "ce_tracker (on_header cx h reply t u eng) = fold (\<lambda>s. record_sent (sc_tx_hash s) (hd_number h + 1)) scheduled
       ((observe_block (hd_number h) (seen_hashes reply) (ce_tracker eng))\<lparr>tk_resolved := []\<rparr>)"
proof -
  note tr = header_effect(4) [OF tk keys, of cx "hd_number h" reply, folded seen_hashes_def]
  have ts: "ce_tasks (resolve_inclusions cx (hd_number h) reply eng) = ce_tasks eng"
    by (simp add: resolve_inclusions_def drain_resolved_def frame Let_def)
  show ?thesis
  proof (cases rule: on_header_cases [where cx = cx and h = h and reply = reply and t = t and u = u and eng = eng])
    case (idle eng')
    then show ?thesis using tr ts by (intro that [of "[]"]) (simp_all add: same_books_def)
  next
    case (launched scheduled eng2)
    then show ?thesis using tr ts by (intro that [of scheduled]) (simp_all add: same_books_def launch_def)
  qed
qed

lemma header_ok:
  assumes "tracker_ok (ce_tracker eng)" "keys_ok eng"
  shows "tracker_ok (ce_tracker (on_header cx h reply t u eng))" "keys_ok (on_header cx h reply t u eng)"
proof -
  show "tracker_ok (ce_tracker (on_header cx h reply t u eng))"
    by (cases rule: header_tracker [OF assms, of cx h reply t u])
      (simp add: tracker_ok_drained observe_block_get(1) [OF assms(1)])
  show "keys_ok (on_header cx h reply t u eng)"
    using header_effect(1) [OF assms, of cx "hd_number h" reply] by (simp add: keys_ok_def header_emitted)
qed

lemma result_ok:
  assumes "tracker_ok (ce_tracker eng)" "keys_ok eng"
  shows "tracker_ok (ce_tracker (on_result cx r eng))" "keys_ok (on_result cx r eng)"
  using assms by (auto simp: on_result_effect keys_ok_def)

lemma turn_tasks:
  assumes "tracker_ok (ce_tracker eng)" "keys_ok eng"
  shows "\<exists>ss. ce_tasks (engine_turn cx ev eng) = ce_tasks eng @ ss"
proof (cases ev)
  case (CHeader h reply t u)
  then show ?thesis by (cases rule: header_tracker [OF assms, of cx h reply t u]) (auto simp: engine_turn_def)
qed (simp_all add: engine_turn_def on_result_effect)

text \<open>Before the header: no record, no open transaction, and the tracker knows every launched one.\<close>

definition unheard :: "hash \<Rightarrow> cutoff_engine \<Rightarrow> bool" where
  "unheard tx eng \<longleftrightarrow> tracker_ok (ce_tracker eng) \<and> keys_ok eng \<and> hm_get (ce_pending eng) tx = None
     \<and> (\<forall>r \<in> set (ce_emitted eng). cr_tx_hash r \<noteq> Some tx)
     \<and> (tx \<in> set (task_hashes eng) \<longrightarrow> hm_get (tk_states (ce_tracker eng)) tx \<noteq> None)"

text \<open>After it: the tracker has settled the transaction and will not look at it again.\<close>

definition settled_unseen :: "hash \<Rightarrow> cutoff_engine \<Rightarrow> bool" where
  "settled_unseen tx eng \<longleftrightarrow> tracker_ok (ce_tracker eng) \<and> keys_ok eng \<and> tx \<in> set (task_hashes eng)
     \<and> (\<exists>st. hm_get (tk_states (ce_tracker eng)) tx = Some st \<and> \<not> is_pending_inclusion st)
     \<and> (\<forall>r. hm_get (tk_resolved (ce_tracker eng)) tx = Some r \<longrightarrow> inclusion_of (rt_status r) = None)
     \<and> (\<forall>r \<in> set (ce_emitted eng). cr_tx_hash r = Some tx \<longrightarrow> is_initial (cr_inclusion r))"

lemma unheard_turn:
  assumes ok: "unheard tx eng" and none: "\<And>r. ev = CResult r \<Longrightarrow> sr_tx_hash r \<noteq> tx"
  shows "unheard tx (engine_turn cx ev eng)"
proof (cases "ce_stopped eng")
  case False
  have tk: "tracker_ok (ce_tracker eng)" and keys: "keys_ok eng" and pend: "hm_get (ce_pending eng) tx = None"
    using ok by (simp_all add: unheard_def)
  show ?thesis
  proof (cases ev)
    case (CHeader h reply t u)
    obtain scheduled where s: "ce_tasks (on_header cx h reply t u eng) = ce_tasks eng @ scheduled"
      "ce_tracker (on_header cx h reply t u eng) = fold (\<lambda>s. record_sent (sc_tx_hash s) (hd_number h + 1)) scheduled
       ((observe_block (hd_number h) (seen_hashes reply) (ce_tracker eng))\<lparr>tk_resolved := []\<rparr>)"
      using header_tracker [OF tk keys] .
    obtain ys where "ce_emitted (on_header cx h reply t u eng) = ce_emitted eng @ ys" "filter (\<lambda>r. cr_tx_hash r = Some tx) ys = []"
      using header_no_record [OF tk keys disjI1 [OF pend]] by blast
    moreover have "hm_get (ce_pending (on_header cx h reply t u eng)) tx = None"
      unfolding header_emitted header_effect(2) [OF tk keys, folded seen_hashes_def] using pend by simp
    moreover have "tx \<in> set (task_hashes (on_header cx h reply t u eng)) \<longrightarrow> hm_get (tk_states (ce_tracker (on_header cx h reply t u eng))) tx \<noteq> None"
      unfolding s(2) record_sents_states using ok observe_block_states(1) [OF tk, of "hd_number h" "seen_hashes reply" tx]
      by (auto simp: unheard_def task_hashes_def s(1))
    ultimately show ?thesis using CHeader False ok header_ok [OF tk keys]
      by (auto simp: unheard_def engine_turn_def filter_empty_conv)
  next
    case (CResult r)
    with none have "sr_tx_hash r \<noteq> tx" by blast
    with CResult False ok result_ok [OF tk keys] show ?thesis
      by (auto simp: unheard_def engine_turn_def on_result_effect task_hashes_def initial_record_def record_send_error_def)
  next
    case CCtrlC
    with False ok show ?thesis by (simp add: unheard_def engine_turn_def task_hashes_def keys_ok_def)
  qed
qed (use ok in \<open>simp add: engine_turn_def\<close>)

lemma unheard_header:
  fixes h :: cut_header and hashes :: "hash list"
  assumes ok: "unheard tx eng" and task: "tx \<in> set (task_hashes eng)" and incl: "tx \<in> set hashes"
    and once: "distinct (task_hashes (on_header cx h (Inr hashes) t u eng))"
  shows "settled_unseen tx (on_header cx h (Inr hashes) t u eng)"
proof -
  have tk: "tracker_ok (ce_tracker eng)" and keys: "keys_ok eng" and pend: "hm_get (ce_pending eng) tx = None"
    using ok by (simp_all add: unheard_def)
  obtain scheduled where s: "ce_tasks (on_header cx h (Inr hashes) t u eng) = ce_tasks eng @ scheduled"
    "ce_tracker (on_header cx h (Inr hashes) t u eng) = fold (\<lambda>s. record_sent (sc_tx_hash s) (hd_number h + 1)) scheduled
       ((observe_block (hd_number h) (set hashes) (ce_tracker eng))\<lparr>tk_resolved := []\<rparr>)"
    using header_tracker [OF tk keys, of cx h "Inr hashes" t u] by auto
  have fresh: "tx \<notin> sc_tx_hash ` set scheduled" using once task by (auto simp: task_hashes_def s)
  obtain st where st: "hm_get (tk_states (observe_block (hd_number h) (set hashes) (ce_tracker eng))) tx = Some st"
    using ok task observe_block_states(1) [OF tk, of "hd_number h" "set hashes" tx] by (auto simp: unheard_def)
  moreover have "\<not> is_pending_inclusion st" using observe_block_states(2) [OF tk incl st] .
  moreover obtain ys where "ce_emitted (on_header cx h (Inr hashes) t u eng) = ce_emitted eng @ ys" "filter (\<lambda>r. cr_tx_hash r = Some tx) ys = []"
    using header_no_record [OF tk keys disjI1 [OF pend]] by blast
  moreover have "tk_resolved (ce_tracker (on_header cx h (Inr hashes) t u eng)) = []" by (simp add: s(2))
  moreover have "hm_get (tk_states (ce_tracker (on_header cx h (Inr hashes) t u eng))) tx = Some st"
    unfolding s(2) record_sents_states using fresh st by simp
  moreover have "tx \<in> set (task_hashes (on_header cx h (Inr hashes) t u eng))" using task by (simp add: task_hashes_def s(1))
  ultimately show ?thesis using ok header_ok [OF tk keys]
    by (auto simp: settled_unseen_def unheard_def filter_empty_conv)
qed

lemma settled_unseen_turn:
  assumes ok: "settled_unseen tx eng" and once: "distinct (task_hashes (engine_turn cx ev eng))"
  shows "settled_unseen tx (engine_turn cx ev eng)"
proof (cases "ce_stopped eng")
  case False
  have tk: "tracker_ok (ce_tracker eng)" and keys: "keys_ok eng" using ok by (simp_all add: settled_unseen_def)
  obtain st where st: "hm_get (tk_states (ce_tracker eng)) tx = Some st" "\<not> is_pending_inclusion st"
    using ok by (auto simp: settled_unseen_def)
  show ?thesis
  proof (cases ev)
    case (CHeader h reply t u)
    let ?S = "seen_hashes reply"
    obtain scheduled where s: "ce_tasks (on_header cx h reply t u eng) = ce_tasks eng @ scheduled"
      "ce_tracker (on_header cx h reply t u eng) = fold (\<lambda>s. record_sent (sc_tx_hash s) (hd_number h + 1)) scheduled
       ((observe_block (hd_number h) ?S (ce_tracker eng))\<lparr>tk_resolved := []\<rparr>)"
      using header_tracker [OF tk keys] .
    have fresh: "tx \<notin> sc_tx_hash ` set scheduled"
      using once ok CHeader False by (auto simp: settled_unseen_def engine_turn_def task_hashes_def s)
    note settled = observe_block_settled [OF tk st, of "hd_number h" ?S]
    obtain ys where ys: "ce_emitted (on_header cx h reply t u eng) = ce_emitted eng @ ys" "filter (\<lambda>r. cr_tx_hash r = Some tx) ys = []"
      using header_no_record [OF tk keys disjI2] ok settled(1) by (metis settled_unseen_def)
    have res: "tk_resolved (ce_tracker (on_header cx h reply t u eng)) = []" by (simp add: s(2))
    have "hm_get (tk_states (ce_tracker (on_header cx h reply t u eng))) tx = Some st"
      unfolding s(2) record_sents_states using fresh settled(2) by simp
    moreover have "tx \<in> set (task_hashes (on_header cx h reply t u eng))" using ok by (simp add: settled_unseen_def task_hashes_def s(1))
    ultimately show ?thesis using CHeader False ok st(2) header_ok [OF tk keys] ys res
      by (auto simp: settled_unseen_def engine_turn_def filter_empty_conv)
  next
    case (CResult r)
    with False ok result_ok [OF tk keys] show ?thesis
      by (auto simp: settled_unseen_def engine_turn_def on_result_effect task_hashes_def record_send_error_def inclusion_of_def)
  next
    case CCtrlC
    with False ok show ?thesis by (simp add: settled_unseen_def engine_turn_def task_hashes_def keys_ok_def)
  qed
qed (use ok in \<open>simp add: engine_turn_def\<close>)

lemma turn_ok: "tracker_ok (ce_tracker eng) \<Longrightarrow> keys_ok eng \<Longrightarrow>
    tracker_ok (ce_tracker (engine_turn cx ev eng)) \<and> keys_ok (engine_turn cx ev eng)"
  by (cases ev) (auto simp: engine_turn_def header_ok result_ok, auto simp: keys_ok_def)

lemma loop_ok: "tracker_ok (ce_tracker eng) \<Longrightarrow> keys_ok eng \<Longrightarrow>
    tracker_ok (ce_tracker (engine_loop cx es eng)) \<and> keys_ok (engine_loop cx es eng)"
  by (induction es arbitrary: eng) (simp_all add: engine_loop_def turn_ok)

lemma loop_tasks:
  assumes "tracker_ok (ce_tracker eng)" "keys_ok eng"
  shows "\<exists>ss. ce_tasks (engine_loop cx es eng) = ce_tasks eng @ ss"
proof (induction es rule: rev_induct)
  case (snoc ev es)
  have "tracker_ok (ce_tracker (engine_loop cx es eng))" "keys_ok (engine_loop cx es eng)" using loop_ok [OF assms] by auto
  from turn_tasks [OF this, of cx ev] snoc show ?case by (auto simp: engine_loop_def)
qed (simp add: engine_loop_def)

lemma new_ok: "tracker_ok (ce_tracker (engine_new cx ws ds))" "keys_ok (engine_new cx ws ds)"
  by (simp_all add: engine_new_def keys_ok_def)

lemma unheard_loop: "unheard tx eng \<Longrightarrow> tx \<notin> sr_tx_hash ` set (results_of es) \<Longrightarrow> unheard tx (engine_loop cx es eng)"
proof (induction es arbitrary: eng)
  case (Cons ev es)
  have "unheard tx (engine_turn cx ev eng)" by (rule unheard_turn [OF Cons.prems(1)]) (use Cons.prems(2) in auto)
  moreover have "tx \<notin> sr_tx_hash ` set (results_of es)" using Cons.prems(2) by (cases ev) auto
  ultimately show ?case using Cons.IH by (simp add: engine_loop_def)
qed (simp add: engine_loop_def)

lemma settled_unseen_loop:
  "settled_unseen tx eng \<Longrightarrow> distinct (task_hashes (engine_loop cx es eng)) \<Longrightarrow> settled_unseen tx (engine_loop cx es eng)"
proof (induction es rule: rev_induct)
  case (snoc ev es)
  let ?e = "engine_loop cx es eng"
  have e: "engine_loop cx (es @ [ev]) eng = engine_turn cx ev ?e" by (simp add: engine_loop_def)
  have "tracker_ok (ce_tracker ?e)" "keys_ok ?e" using snoc.prems(1) loop_ok by (auto simp: settled_unseen_def)
  from turn_tasks [OF this, of cx ev] have "distinct (task_hashes ?e)" using snoc.prems(2) by (auto simp: e task_hashes_def)
  with snoc settled_unseen_turn show ?case by (simp add: e)
qed (simp add: engine_loop_def)

text \<open>C20. A transaction whose block is seen before its send result is never counted as included.  The engine
  registers a launched transaction with the tracker at once, but keeps its record only when the node's
  answer to the send arrives; when a block containing it is handled first, the tracker settles it, the
  verdict finds no record and is dropped, and no later block is asked again: every record of the run with
  this hash, in whatever order blocks and results follow, is the initial one.\<close>

theorem early_block_loses_inclusion:
  fixes cx :: cutoff_ctx and h :: cut_header
  assumes launched: "tx \<in> set (task_hashes (engine_loop cx es1 (engine_new cx ws ds)))"
    and running: "\<not> ce_stopped (engine_loop cx es1 (engine_new cx ws ds))"
    and first: "tx \<notin> sr_tx_hash ` set (results_of es1)"
    and included: "tx \<in> set hashes"
    and once: "distinct (task_hashes (engine_loop cx (es1 @ CHeader h (Inr hashes) t u # es2) (engine_new cx ws ds)))"
  shows "\<forall>r \<in> set (ce_emitted (engine_loop cx (es1 @ CHeader h (Inr hashes) t u # es2) (engine_new cx ws ds))).
    cr_tx_hash r = Some tx \<longrightarrow> is_initial (cr_inclusion r)"
proof -
  let ?e1 = "engine_loop cx es1 (engine_new cx ws ds)" and ?e2 = "engine_loop cx es2"
  let ?h = "on_header cx h (Inr hashes) t u ?e1"
  have all: "engine_loop cx (es1 @ CHeader h (Inr hashes) t u # es2) (engine_new cx ws ds) = ?e2 ?h"
    using running by (simp add: engine_loop_def engine_turn_def)
  have "unheard tx (engine_new cx ws ds)" using new_ok by (simp add: unheard_def) (simp add: engine_new_def task_hashes_def)
  from unheard_loop [OF this first] have un: "unheard tx ?e1" .
  have "tracker_ok (ce_tracker ?h)" "keys_ok ?h" using loop_ok [OF new_ok] header_ok by blast+
  from loop_tasks [OF this] have "\<exists>ss. ce_tasks (?e2 ?h) = ce_tasks ?h @ ss" .
  then have "distinct (task_hashes ?h)" using once unfolding all by (auto simp: task_hashes_def)
  from unheard_header [OF un launched included this] have "settled_unseen tx ?h" .
  from settled_unseen_loop [OF this once [unfolded all]] show ?thesis unfolding all by (simp add: settled_unseen_def)
qed

section \<open>A run\<close>

definition demo_cut_cfg :: cut_config where
  "demo_cut_cfg = \<lparr>cg_chain = \<lparr>ch_name = ''base'', ch_chain_id = 8453, ch_rpc_ws = '''', ch_rpc_http = '''', ch_rpc_http_send = None, ch_bundle_url = None\<rparr>,
     cg_timing = demo_plan_cfg, cg_gas = \<lparr>ga_max_priority_fee_gwei = 1, ga_max_fee_multiplier = 1\<rparr>,
     cg_tracking = \<lparr>tg_inclusion_lookahead_blocks = 2, tg_abort_on_consecutive_failed_blocks = 3\<rparr>,
     cg_swap = \<lparr>sw_router_address = '''', sw_pool_fee_tier = 500, sw_token_a = '''', sw_token_b = '''', sw_amount_in_a = '''', sw_amount_in_b = '''', sw_slippage_bps = 0\<rparr>,
     cg_wallets = [], cg_send = \<lparr>sd_worker_threads = None, sd_spin_window_us = None\<rparr>\<rparr>"

definition demo_cut_ctx :: cutoff_ctx where
  "demo_cut_ctx = \<lparr>cx_cfg = demo_cut_cfg, cx_schedule = \<lparr>cu_cfg = demo_plan_cfg, cu_slots_count = 3\<rparr>, cx_router = Some 9,
     cx_encoders = [\<lparr>se_token_a = 1, se_token_b = 2, se_fee = 500, se_amount_in_a = 10, se_amount_in_b = 10, se_recipient = 5\<rparr>],
     cx_gas_limits = [21000], cx_bundle = False, cx_abi = (\<lambda>p. []), cx_sign = (\<lambda>a p. Inr (ucast (xp_nonce p) + 1000, [])),
     cx_gwei = (\<lambda>g. 1), cx_scale = (\<lambda>b m. b), cx_write_ok = (\<lambda>n. True)\<rparr>"

definition demo_cut_header :: "u64 \<Rightarrow> cut_header" where
  "demo_cut_header n = \<lparr>hd_number = n, hd_hash = ucast n, hd_timestamp = 1, hd_base_fee = None\<rparr>"

definition demo_cut_wallets :: "cut_wallet list" where
  "demo_cut_wallets = [\<lparr>cw_label = ''w'', cw_address = 5, cw_nonce = 0\<rparr>]"

definition demo_accept :: "hash \<Rightarrow> u64 \<Rightarrow> cut_send_result" where
  "demo_accept tx b = \<lparr>sr_wallet_label = ''w'', sr_tx_hash = tx, sr_block_idx = b, sr_block_num = 7, sr_block_hash = 7,
     sr_slot_ms = 100, sr_sample_idx = 0, sr_nonce = b, sr_target_unix_ms = 1100, sr_sent_at_unix_ms = 1100, sr_wake_jitter_us = 1,
     sr_rpc_rtt_us = 2, sr_outcome = TxAccepted tx\<rparr>"

lemma demo_cut_fields [simp]:
  "cx_schedule demo_cut_ctx = \<lparr>cu_cfg = demo_plan_cfg, cu_slots_count = 3\<rparr>" "cx_router demo_cut_ctx = Some 9"
  "cx_encoders demo_cut_ctx = [\<lparr>se_token_a = 1, se_token_b = 2, se_fee = 500, se_amount_in_a = 10, se_amount_in_b = 10, se_recipient = 5\<rparr>]"
  "cx_gas_limits demo_cut_ctx = [21000]" "cx_abi demo_cut_ctx = (\<lambda>p. [])" "cx_sign demo_cut_ctx = (\<lambda>a p. Inr (ucast (xp_nonce p) + 1000, []))"
  "cx_bundle demo_cut_ctx = False" "tg_inclusion_lookahead_blocks (cg_tracking (cx_cfg demo_cut_ctx)) = 2"
  "hd_number (demo_cut_header n) = n" "hd_timestamp (demo_cut_header n) = 1" "demo_cut_wallets = [\<lparr>cw_label = ''w'', cw_address = 5, cw_nonce = 0\<rparr>]"
  "sr_tx_hash (demo_accept tx b) = tx" "sr_outcome (demo_accept tx b) = TxAccepted tx" "accepted_result (demo_accept tx b)"
  "cr_tx_hash (initial_record (demo_accept tx b)) = Some tx"
  by (simp_all add: demo_cut_ctx_def demo_cut_cfg_def demo_cut_header_def demo_cut_wallets_def demo_accept_def accepted_result_def initial_record_def)

lemma demo_plan_fields [simp]: "slot_ms_for \<lparr>cu_cfg = demo_plan_cfg, cu_slots_count = 3\<rparr> i = (if unat i \<ge> 6 then None else Some (100 + i div 2 * 100))"
  "sample_idx_for \<lparr>cu_cfg = demo_plan_cfg, cu_slots_count = 3\<rparr> i = (if unat i \<ge> 6 then None else Some (i mod 2))"
  by (simp_all add: slot_ms_for_def sample_idx_for_def total_blocks_def demo_plan_cfg_def word_le_nat_alt)

lemma presign_one:
  "length (ce_wallets eng) = 1 \<Longrightarrow> presign_all cx h tgt router eng = presign cx h tgt router 0 ([], eng)"
  by (simp add: presign_all_def)

lemmas demo_cut_steps = on_header_def resolve_inclusions_def observe_block_def drain_resolved_def presign_one presign_def
  swap_encode_def consume_nonce_def max_fee_def launch_def verdict_def resolve_tx_def record_sent_def emit_resolved_def hm_remove_def
  List.map_filter_simps tracker_status_def tracker_new_cut_def engine_loop_def engine_turn_def engine_new_def task_hashes_def Let_def
  on_result_effect frame hm_insert_def hm_delete_def hm_get_def current_direction_def target_instant_from_unix_ms_def

theorem cutoff_books_balance_witness:
  "ce_agg (engine_finish demo_cut_ctx [] (engine_loop demo_cut_ctx
      [CHeader (demo_cut_header 7) (Inr []) 0 0, CResult (demo_accept 1000 0), CHeader (demo_cut_header 8) (Inr [1000]) 0 0]
      (engine_new demo_cut_ctx demo_cut_wallets [0])))
   = agg_run (ce_emitted (engine_finish demo_cut_ctx [] (engine_loop demo_cut_ctx
      [CHeader (demo_cut_header 7) (Inr []) 0 0, CResult (demo_accept 1000 0), CHeader (demo_cut_header 8) (Inr [1000]) 0 0]
      (engine_new demo_cut_ctx demo_cut_wallets [0]))))"
proof -
  let ?es = "[CHeader (demo_cut_header 7) (Inr []) 0 0, CResult (demo_accept 1000 0), CHeader (demo_cut_header 8) (Inr [1000]) 0 0]"
  have "distinct (map sr_tx_hash (results_of ?es))" by simp
  from cutoff_books_balance [OF this] show ?thesis by (simp only: Let_def)
qed

lemma demo_launched:
  "task_hashes (engine_loop demo_cut_ctx [CHeader (demo_cut_header 7) (Inr []) 0 0] (engine_new demo_cut_ctx demo_cut_wallets [0])) = [1000]"
  by (simp add: demo_cut_steps)

lemma demo_running:
  "\<not> ce_stopped (engine_loop demo_cut_ctx [CHeader (demo_cut_header 7) (Inr []) 0 0] (engine_new demo_cut_ctx demo_cut_wallets [0]))"
  by (simp add: demo_cut_steps)

lemma demo_launched2:
  "task_hashes (engine_loop demo_cut_ctx ([CHeader (demo_cut_header 7) (Inr []) 0 0] @ CHeader (demo_cut_header 8) (Inr [1000]) 0 0
     # [CResult (demo_accept 1000 0)]) (engine_new demo_cut_ctx demo_cut_wallets [0])) = [1000, 1001]"
  by (simp add: demo_cut_steps)

text \<open>The transaction of block 7 is in block 8 and accepted, and its only record says pending.\<close>

theorem early_block_loses_inclusion_witness:
  "let em = ce_emitted (engine_loop demo_cut_ctx ([CHeader (demo_cut_header 7) (Inr []) 0 0] @ CHeader (demo_cut_header 8) (Inr [1000]) 0 0
     # [CResult (demo_accept 1000 0)]) (engine_new demo_cut_ctx demo_cut_wallets [0]))
   in (\<forall>r \<in> set em. is_initial (cr_inclusion r)) \<and> map cr_tx_hash em = [Some 1000]"
proof -
  have "(1000 :: hash) \<in> set [1000]" "(1000 :: hash) \<notin> sr_tx_hash ` set (results_of [CHeader (demo_cut_header 7) (Inr []) 0 0])" by simp_all
  moreover have "distinct [1000 :: hash, 1001]" by simp
  ultimately have r: "\<forall>r \<in> set (ce_emitted (engine_loop demo_cut_ctx ([CHeader (demo_cut_header 7) (Inr []) 0 0] @ CHeader (demo_cut_header 8) (Inr [1000]) 0 0
     # [CResult (demo_accept 1000 0)]) (engine_new demo_cut_ctx demo_cut_wallets [0]))). cr_tx_hash r = Some 1000 \<longrightarrow> is_initial (cr_inclusion r)"
    by (intro early_block_loses_inclusion) (simp_all only: demo_launched demo_running demo_launched2 not_False_eq_True)
  have m: "map cr_tx_hash (ce_emitted (engine_loop demo_cut_ctx ([CHeader (demo_cut_header 7) (Inr []) 0 0] @ CHeader (demo_cut_header 8) (Inr [1000]) 0 0
     # [CResult (demo_accept 1000 0)]) (engine_new demo_cut_ctx demo_cut_wallets [0]))) = [Some 1000]"
    by (simp add: demo_cut_steps)
  have "cr_tx_hash r = Some 1000" if "r \<in> set (ce_emitted (engine_loop demo_cut_ctx ([CHeader (demo_cut_header 7) (Inr []) 0 0] @ CHeader (demo_cut_header 8) (Inr [1000]) 0 0
     # [CResult (demo_accept 1000 0)]) (engine_new demo_cut_ctx demo_cut_wallets [0])))" for r
    using arg_cong [OF m, of set] that by auto
  with r m show ?thesis by (simp only: Let_def) blast
qed

lemma demo_open:
  "hm_get (ce_pending (engine_loop demo_cut_ctx [CHeader (demo_cut_header 7) (Inr []) 0 0, CResult (demo_accept 1000 0)]
     (engine_new demo_cut_ctx demo_cut_wallets [0]))) 1000 = Some (partial_of (demo_accept 1000 0))"
  by (simp add: demo_cut_steps)

lemma demo_waiting:
  "tracker_status 1000 (ce_tracker (engine_loop demo_cut_ctx [CHeader (demo_cut_header 7) (Inr []) 0 0, CResult (demo_accept 1000 0)]
     (engine_new demo_cut_ctx demo_cut_wallets [0]))) = Some (PendingInclusion 8)"
  by (simp add: demo_cut_steps)

theorem cutoff_classifies_witness:
  "\<exists>ys. ce_emitted (on_header demo_cut_ctx (demo_cut_header 10) (Inr [1000]) 0 0 (engine_loop demo_cut_ctx
      [CHeader (demo_cut_header 7) (Inr []) 0 0, CResult (demo_accept 1000 0)] (engine_new demo_cut_ctx demo_cut_wallets [0])))
    = ce_emitted (engine_loop demo_cut_ctx [CHeader (demo_cut_header 7) (Inr []) 0 0, CResult (demo_accept 1000 0)]
        (engine_new demo_cut_ctx demo_cut_wallets [0])) @ ys
    \<and> map cr_inclusion (filter (\<lambda>r. cr_tx_hash r = Some 1000) ys) = [KLate 2]"
proof -
  have "distinct (map sr_tx_hash (results_of [CHeader (demo_cut_header 7) (Inr []) 0 0, CResult (demo_accept 1000 0)]))" by simp
  from cutoff_classifies [OF this demo_open demo_waiting, of "demo_cut_header 10" "[1000]" 0 0]
  obtain ys where "ce_emitted (on_header demo_cut_ctx (demo_cut_header 10) (Inr [1000]) 0 0 (engine_loop demo_cut_ctx
      [CHeader (demo_cut_header 7) (Inr []) 0 0, CResult (demo_accept 1000 0)] (engine_new demo_cut_ctx demo_cut_wallets [0])))
    = ce_emitted (engine_loop demo_cut_ctx [CHeader (demo_cut_header 7) (Inr []) 0 0, CResult (demo_accept 1000 0)]
        (engine_new demo_cut_ctx demo_cut_wallets [0])) @ ys"
    "filter (\<lambda>r. cr_tx_hash r = Some 1000) ys = [into_tx_record (partial_of (demo_accept 1000 0)) (KLate 2) (Some 10)]"
    by (auto simp: demo_cut_header_def sat_sub_def)
  then show ?thesis by (intro exI [of _ ys]) simp
qed

end
