(* ===== verification/Correlator.thy ===== *)
theory Correlator
  imports Entries KeyStore Channel "HOL-Library.Multiset"
begin

text \<open>
  The entry comparator (\<open>crates/entry-comparator/src/\<close>): the correlator pairs the sightings of an entry by
  the two sources and emits one comparison record per pair, or one for a sighting that stayed alone for the
  deadline (\<open>correlator.rs\<close>, \<open>diff_record.rs\<close>); the writer groups the records into batches of rows
  (\<open>writer.rs\<close>); the report counts the rows (\<open>report.rs\<close>).  Parameters: the leader of a slot, the clocks,
  whether a batch is written.  A histogram is the list of the values recorded in it.
\<close>

declare split_paired_All [simp del] split_paired_Ex [simp del]

section \<open>Records\<close>

datatype diff_source = DiffBoth | DiffYsOnly | DiffSsOnly

definition diff_source_str :: "diff_source \<Rightarrow> string" where
  "diff_source_str s = (case s of DiffBoth \<Rightarrow> ''BOTH'' | DiffYsOnly \<Rightarrow> ''YS_ONLY'' | DiffSsOnly \<Rightarrow> ''SS_ONLY'')"

record diff_record =
  dif_slot :: u64
  dif_entry_index :: u32
  dif_num_hashes :: u64
  dif_source :: diff_source
  dif_ys_observed_ns :: "u64 option"
  dif_ss_first_shred_ns :: "u64 option"
  dif_ss_fec_complete_ns :: "u64 option"
  dif_ys_hash :: "hash option"
  dif_ss_hash :: "hash option"
  dif_ys_tx_count :: "u32 option"
  dif_ss_tx_count :: "u32 option"
  dif_hash_match :: bool
  dif_sig_set_match :: "bool option"
  dif_leader_pubkey :: "pubkey option"
  dif_ys_signatures :: "signature list"
  dif_ss_signatures :: "signature list"

record match_state =
  mst_yellowstone :: "entry_obs option"
  mst_shredstream :: "entry_obs option"
  mst_inserted_at :: instant

record correlator_cfg =
  cco_anchor :: instant
  cco_deadline :: duration
  cco_leader_lookup :: "u64 \<Rightarrow> pubkey option"

record correlator =
  cor_map :: "(u64 \<times> hash, match_state) hmap"
  cor_diff_tx :: "diff_record chan"
  cor_diff_dropped :: u64
  cor_last_sweep :: instant

definition correlator_new :: "instant \<Rightarrow> nat option \<Rightarrow> correlator" where
  "correlator_new now cap = \<lparr>cor_map = [], cor_diff_tx = chan_new cap, cor_diff_dropped = 0, cor_last_sweep = now\<rparr>"

section \<open>Emitting a record\<close>

definition anchor_ns :: "instant \<Rightarrow> instant \<Rightarrow> u64" where
  "anchor_ns anchor t = trunc_u64 (since t anchor)"

definition sig_set_match :: "entry_obs \<Rightarrow> entry_obs \<Rightarrow> bool option" where
  "sig_set_match y s = (if obs_signatures y \<noteq> [] \<and> obs_signatures s \<noteq> []
     then Some (sort (obs_signatures y) = sort (obs_signatures s)) else None)"

text \<open>The record of a state; a state without a sighting is unreachable in the code.\<close>

definition diff_of :: "correlator_cfg \<Rightarrow> match_state \<Rightarrow> diff_record option" where
  "diff_of cfg st =
     (let ys = mst_yellowstone st; ss = mst_shredstream st; ns = anchor_ns (cco_anchor cfg);
          record_of = (\<lambda>source any.
            \<lparr>dif_slot = obs_slot any, dif_entry_index = obs_entry_index any, dif_num_hashes = obs_num_hashes any,
             dif_source = source,
             dif_ys_observed_ns = map_option (\<lambda>y. ns (obs_observed_at y)) ys,
             dif_ss_first_shred_ns = map_option ns (Option.bind ss obs_first_shred_at),
             dif_ss_fec_complete_ns = map_option (\<lambda>s. ns (obs_observed_at s)) ss,
             dif_ys_hash = map_option obs_entry_hash ys, dif_ss_hash = map_option obs_entry_hash ss,
             dif_ys_tx_count = map_option obs_tx_count ys, dif_ss_tx_count = map_option obs_tx_count ss,
             dif_hash_match = (case (ys, ss) of (Some y, Some s) \<Rightarrow> obs_entry_hash y = obs_entry_hash s | _ \<Rightarrow> False),
             dif_sig_set_match = (case (ys, ss) of (Some y, Some s) \<Rightarrow> sig_set_match y s | _ \<Rightarrow> None),
             dif_leader_pubkey = cco_leader_lookup cfg (obs_slot any),
             dif_ys_signatures = (case ys of Some y \<Rightarrow> obs_signatures y | None \<Rightarrow> []),
             dif_ss_signatures = (case ss of Some s \<Rightarrow> obs_signatures s | None \<Rightarrow> [])\<rparr>)
      in (case (ys, ss) of
            (Some y, Some s) \<Rightarrow> Some (record_of DiffBoth y)
          | (Some y, None) \<Rightarrow> Some (record_of DiffYsOnly y)
          | (None, Some s) \<Rightarrow> Some (record_of DiffSsOnly s)
          | (None, None) \<Rightarrow> None))"

definition diff_emit :: "correlator_cfg \<Rightarrow> match_state \<Rightarrow> correlator \<Rightarrow> correlator" where
  "diff_emit cfg st co = (case diff_of cfg st of
     None \<Rightarrow> co
   | Some rec \<Rightarrow> (let (tx, ok) = try_send (cor_diff_tx co) rec in
       co\<lparr>cor_diff_tx := tx, cor_diff_dropped := (if ok then cor_diff_dropped co else cor_diff_dropped co + 1)\<rparr>))"

section \<open>The correlator loop\<close>

definition diff_handle :: "correlator_cfg \<Rightarrow> instant \<Rightarrow> entry_obs \<Rightarrow> correlator \<Rightarrow> correlator" where
  "diff_handle cfg now obs co =
     (let key = obs_key obs;
          entry = (case hm_get (cor_map co) key of
             Some st \<Rightarrow> st
           | None \<Rightarrow> \<lparr>mst_yellowstone = None, mst_shredstream = None, mst_inserted_at = now\<rparr>);
          st = (case obs_source obs of
             Yellowstone \<Rightarrow> entry\<lparr>mst_yellowstone := Some obs\<rparr>
           | ShredStream \<Rightarrow> entry\<lparr>mst_shredstream := Some obs\<rparr>)
      in if mst_yellowstone st \<noteq> None \<and> mst_shredstream st \<noteq> None
         then diff_emit cfg st (co\<lparr>cor_map := hm_delete key (cor_map co)\<rparr>)
         else co\<lparr>cor_map := hm_insert key st (cor_map co)\<rparr>)"

definition sweep_key :: "correlator_cfg \<Rightarrow> u64 \<times> hash \<Rightarrow> correlator \<Rightarrow> correlator" where
  "sweep_key cfg key co = (case hm_get (cor_map co) key of
     None \<Rightarrow> co
   | Some st \<Rightarrow> diff_emit cfg st (co\<lparr>cor_map := hm_delete key (cor_map co)\<rparr>))"

definition diff_sweep :: "correlator_cfg \<Rightarrow> duration \<Rightarrow> instant \<Rightarrow> correlator \<Rightarrow> correlator" where
  "diff_sweep cfg deadline now co =
     fold (sweep_key cfg) (map fst (filter (\<lambda>e. since now (mst_inserted_at (snd e)) \<ge> deadline) (cor_map co))) co"

text \<open>One turn: an observation from either source, with the clock of its insertion, or none; then the clock.\<close>

definition correlator_turn :: "correlator_cfg \<Rightarrow> (entry_obs \<times> instant) option \<times> instant \<Rightarrow> correlator \<Rightarrow> correlator" where
  "correlator_turn cfg x co =
     (let co1 = (case fst x of None \<Rightarrow> co | Some (obs, t) \<Rightarrow> diff_handle cfg t obs co); now = snd x in
      if since now (cor_last_sweep co1) > 250000000
      then (diff_sweep cfg (cco_deadline cfg) now co1)\<lparr>cor_last_sweep := now\<rparr>
      else co1)"

text \<open>The loop and the final flush.\<close>

definition correlator_run :: "correlator_cfg \<Rightarrow> ((entry_obs \<times> instant) option \<times> instant) list \<Rightarrow> instant \<Rightarrow> correlator \<Rightarrow> correlator" where
  "correlator_run cfg turns end_at co = diff_sweep cfg 0 end_at (fold (correlator_turn cfg) turns co)"

section \<open>The writer\<close>

record diff_row =
  row_slot :: u64
  row_entry_index :: u32
  row_num_hashes :: u64
  row_source :: string
  row_ys_observed_ns :: "u64 option"
  row_ss_first_shred_ns :: "u64 option"
  row_ss_fec_complete_ns :: "u64 option"
  row_ys_hash :: "hash option"
  row_ss_hash :: "hash option"
  row_ys_tx_count :: "u32 option"
  row_ss_tx_count :: "u32 option"
  row_hash_match :: bool
  row_sig_set_match :: "bool option"
  row_leader_pubkey :: "pubkey option"
  row_ys_signatures :: "signature list"
  row_ss_signatures :: "signature list"

text \<open>What \<open>append\<close> puts into the columns; \<open>None\<close> is a null.\<close>

definition row_of :: "diff_record \<Rightarrow> diff_row" where
  "row_of r =
     \<lparr>row_slot = dif_slot r, row_entry_index = dif_entry_index r, row_num_hashes = dif_num_hashes r,
      row_source = diff_source_str (dif_source r), row_ys_observed_ns = dif_ys_observed_ns r,
      row_ss_first_shred_ns = dif_ss_first_shred_ns r, row_ss_fec_complete_ns = dif_ss_fec_complete_ns r,
      row_ys_hash = dif_ys_hash r, row_ss_hash = dif_ss_hash r, row_ys_tx_count = dif_ys_tx_count r,
      row_ss_tx_count = dif_ss_tx_count r, row_hash_match = dif_hash_match r, row_sig_set_match = dif_sig_set_match r,
      row_leader_pubkey = dif_leader_pubkey r, row_ys_signatures = dif_ys_signatures r, row_ss_signatures = dif_ss_signatures r\<rparr>"

record diff_writer =
  wri_builders :: "diff_row list"
  wri_last_flush :: instant
  wri_batches :: "diff_row list list"
  wri_flushes :: nat

definition diff_writer_new :: "instant \<Rightarrow> diff_writer" where
  "diff_writer_new now = \<lparr>wri_builders = [], wri_last_flush = now, wri_batches = [], wri_flushes = 0\<rparr>"

text \<open>A batch whose write fails is lost.\<close>

definition diff_flush :: "(nat \<Rightarrow> bool) \<Rightarrow> diff_writer \<Rightarrow> diff_writer" where
  "diff_flush write_ok w =
     w\<lparr>wri_batches := (if write_ok (wri_flushes w) then wri_batches w @ [wri_builders w] else wri_batches w),
       wri_builders := [], wri_flushes := wri_flushes w + 1\<rparr>"

text \<open>One receive with a record, or a time-out; the clocks after a flush and of the age test.\<close>

definition writer_turn :: "(nat \<Rightarrow> bool) \<Rightarrow> nat \<Rightarrow> duration \<Rightarrow> diff_record option \<times> instant \<times> instant \<Rightarrow> diff_writer \<Rightarrow> diff_writer" where
  "writer_turn write_ok row_group_size flush_interval x w =
     (let (msg, now, age_now) = x;
          w1 = (case msg of
             Some rec \<Rightarrow> (let w' = w\<lparr>wri_builders := wri_builders w @ [row_of rec]\<rparr> in
               if length (wri_builders w') \<ge> row_group_size then (diff_flush write_ok w')\<lparr>wri_last_flush := now\<rparr> else w')
           | None \<Rightarrow> if length (wri_builders w) > 0 then (diff_flush write_ok w)\<lparr>wri_last_flush := now\<rparr> else w)
      in if length (wri_builders w1) > 0 \<and> since age_now (wri_last_flush w1) > flush_interval
         then (diff_flush write_ok w1)\<lparr>wri_last_flush := age_now\<rparr> else w1)"

definition diff_writer_run :: "(nat \<Rightarrow> bool) \<Rightarrow> nat \<Rightarrow> duration \<Rightarrow> (diff_record option \<times> instant \<times> instant) list \<Rightarrow> diff_writer \<Rightarrow> diff_writer" where
  "diff_writer_run write_ok row_group_size flush_interval xs w =
     (let w1 = fold (writer_turn write_ok row_group_size flush_interval) xs w in
      if length (wri_builders w1) > 0 then diff_flush write_ok w1 else w1)"

section \<open>The report\<close>

record signed_hist =
  shi_earlier_count :: u64
  shi_later_count :: u64
  shi_equal_count :: u64
  shi_earlier_abs :: "u64 list"
  shi_later :: "u64 list"

definition signed_hist_new :: signed_hist where
  "signed_hist_new = \<lparr>shi_earlier_count = 0, shi_later_count = 0, shi_equal_count = 0, shi_earlier_abs = [], shi_later = []\<rparr>"

definition signed_record :: "u64 \<Rightarrow> u64 \<Rightarrow> signed_hist \<Rightarrow> signed_hist" where
  "signed_record ss_ns ys_ns h =
     (if ss_ns < ys_ns
      then h\<lparr>shi_earlier_count := shi_earlier_count h + 1, shi_earlier_abs := shi_earlier_abs h @ [ys_ns - ss_ns]\<rparr>
      else if ss_ns > ys_ns
      then h\<lparr>shi_later_count := shi_later_count h + 1, shi_later := shi_later h @ [ss_ns - ys_ns]\<rparr>
      else h\<lparr>shi_equal_count := shi_equal_count h + 1\<rparr>)"

record diff_report =
  rep_total :: u64
  rep_both :: u64
  rep_ys_only :: u64
  rep_ss_only :: u64
  rep_hash_mismatches :: u64
  rep_sig_mismatches :: u64
  rep_first :: signed_hist
  rep_fec :: signed_hist
  rep_decode :: "u64 list"
  rep_decode_samples :: u64

definition diff_report_new :: diff_report where
  "diff_report_new = \<lparr>rep_total = 0, rep_both = 0, rep_ys_only = 0, rep_ss_only = 0, rep_hash_mismatches = 0,
     rep_sig_mismatches = 0, rep_first = signed_hist_new, rep_fec = signed_hist_new, rep_decode = [], rep_decode_samples = 0\<rparr>"

definition report_both :: "diff_row \<Rightarrow> diff_report \<Rightarrow> diff_report" where
  "report_both row r =
     (let r1 = r\<lparr>rep_both := rep_both r + 1,
            rep_hash_mismatches := (if \<not> row_hash_match row then rep_hash_mismatches r + 1 else rep_hash_mismatches r),
            rep_sig_mismatches := (if row_sig_set_match row = Some False then rep_sig_mismatches r + 1 else rep_sig_mismatches r)\<rparr>;
          r2 = (case (row_ys_observed_ns row, row_ss_first_shred_ns row) of
             (Some ys, Some fs) \<Rightarrow> r1\<lparr>rep_first := signed_record fs ys (rep_first r1)\<rparr> | _ \<Rightarrow> r1);
          r3 = (case (row_ys_observed_ns row, row_ss_fec_complete_ns row) of
             (Some ys, Some fc) \<Rightarrow> r2\<lparr>rep_fec := signed_record fc ys (rep_fec r2)\<rparr> | _ \<Rightarrow> r2)
      in (case (row_ss_first_shred_ns row, row_ss_fec_complete_ns row) of
             (Some fs, Some fc) \<Rightarrow>
               if fc \<ge> fs then r3\<lparr>rep_decode := rep_decode r3 @ [fc - fs], rep_decode_samples := rep_decode_samples r3 + 1\<rparr> else r3
           | _ \<Rightarrow> r3))"

definition report_row :: "diff_row \<Rightarrow> diff_report \<Rightarrow> diff_report" where
  "report_row row r =
     (if row_source row = ''BOTH'' then report_both row r
      else if row_source row = ''YS_ONLY'' then r\<lparr>rep_ys_only := rep_ys_only r + 1\<rparr>
      else if row_source row = ''SS_ONLY'' then r\<lparr>rep_ss_only := rep_ss_only r + 1\<rparr>
      else r)"

definition report_batch :: "diff_row list \<Rightarrow> diff_report \<Rightarrow> diff_report" where
  "report_batch batch r = fold report_row batch (r\<lparr>rep_total := rep_total r + of_nat (length batch)\<rparr>)"

definition generate_report :: "diff_row list list \<Rightarrow> diff_report" where
  "generate_report batches = fold report_batch batches diff_report_new"

end
