(* ===== verification/CorrelatorRun.thy ===== *)
theory CorrelatorRun
  imports Correlator
begin

text \<open>
  What a run of the entry comparator guarantees: every sighting is in exactly one record, a record pairs two
  sightings of one entry or holds a lone one, and the report counts the records that were written.
\<close>

section \<open>Sightings and states\<close>

definition sightings :: "match_state \<Rightarrow> entry_obs list" where
  "sightings st = (case mst_yellowstone st of Some y \<Rightarrow> [y] | None \<Rightarrow> [])
     @ (case mst_shredstream st of Some s \<Rightarrow> [s] | None \<Rightarrow> [])"

definition sighted :: "u64 \<times> hash \<Rightarrow> match_state \<Rightarrow> bool" where
  "sighted key st \<longleftrightarrow> sightings st \<noteq> []
     \<and> (\<forall>y. mst_yellowstone st = Some y \<longrightarrow> obs_source y = Yellowstone \<and> obs_key y = key)
     \<and> (\<forall>s. mst_shredstream st = Some s \<longrightarrow> obs_source s = ShredStream \<and> obs_key s = key)"

definition sighting_id :: "entry_obs \<Rightarrow> source_kind \<times> u64 \<times> hash" where
  "sighting_id o1 = (obs_source o1, obs_key o1)"

definition heard :: "((entry_obs \<times> instant) option \<times> instant) list \<Rightarrow> entry_obs list" where
  "heard turns = concat (map (\<lambda>x. case fst x of None \<Rightarrow> [] | Some (obs, t) \<Rightarrow> [obs]) turns)"

definition waiting :: "correlator \<Rightarrow> match_state list" where
  "waiting co = map snd (cor_map co)"

text \<open>\<open>sts\<close> are the states emitted so far, of the sightings \<open>obs\<close> heard.\<close>

definition diff_accounted :: "correlator_cfg \<Rightarrow> entry_obs list \<Rightarrow> match_state list \<Rightarrow> correlator \<Rightarrow> bool" where
  "diff_accounted cfg obs sts co \<longleftrightarrow> hm_ok (cor_map co)
     \<and> ch_offered (cor_diff_tx co) = map (\<lambda>st. the (diff_of cfg st)) sts
     \<and> mset (concat (map sightings sts)) + mset (concat (map sightings (waiting co))) = mset obs
     \<and> (\<forall>st \<in> set sts. \<exists>key. sighted key st)
     \<and> (\<forall>key st. hm_get (cor_map co) key = Some st \<longrightarrow> sighted key st \<and> length (sightings st) = 1)
     \<and> length (ch_sent (cor_diff_tx co)) \<le> length sts
     \<and> cor_diff_dropped co = of_nat (length sts - length (ch_sent (cor_diff_tx co)))"

lemma diff_of_sighted: "sighted key st \<Longrightarrow> \<exists>r. diff_of cfg st = Some r"
  by (auto simp: sighted_def sightings_def diff_of_def Let_def split: option.splits)

lemma waiting_delete: "hm_ok (cor_map co) \<Longrightarrow> hm_get (cor_map co) key = Some st \<Longrightarrow>
    mset (concat (map sightings (map snd (hm_delete key (cor_map co))))) + mset (sightings st) =
    mset (concat (map sightings (waiting co)))"
proof -
  have *: "hm_ok m \<Longrightarrow> hm_get m key = Some st \<Longrightarrow>
      mset (concat (map sightings (map snd (hm_delete key m)))) + mset (sightings st) = mset (concat (map sightings (map snd m)))" for m
  proof (induction m)
    case (Cons e m)
    show ?case
    proof (cases "fst e = key")
      case True
      then have "hm_get m key = None" using Cons.prems by (auto simp: hm_get_def hm_ok_def map_of_eq_None_iff)
      then have "hm_delete key m = m" by (rule hm_delete_absent)
      with True Cons.prems show ?thesis by (auto simp: hm_get_def hm_delete_def)
    next
      case False
      with Cons show ?thesis by (auto simp: hm_get_def hm_delete_def hm_ok_def ac_simps)
    qed
  qed (simp add: hm_get_def)
  assume "hm_ok (cor_map co)" "hm_get (cor_map co) key = Some st"
  with * show ?thesis by (simp add: waiting_def)
qed

lemma mset_move: "D + S = W \<Longrightarrow> A + W = Z \<Longrightarrow> A + S + D = Z" "D + S = W \<Longrightarrow> A + W = Z \<Longrightarrow> A + (S + X) + D = Z + X"
  for A :: "'a multiset"
  by (auto simp: ac_simps)

text \<open>Emitting a state that was taken out of the map.\<close>

lemma diff_accounted_emit:
  assumes "hm_ok (cor_map co)" "ch_offered (cor_diff_tx co) = map (\<lambda>st. the (diff_of cfg st)) sts"
    and "mset (concat (map sightings sts)) + mset (sightings st) + mset (concat (map sightings (waiting co))) = mset obs"
    and "\<forall>st \<in> set sts. \<exists>key. sighted key st" "sighted key st"
    and "\<forall>key st. hm_get (cor_map co) key = Some st \<longrightarrow> sighted key st \<and> length (sightings st) = 1"
    and "length (ch_sent (cor_diff_tx co)) \<le> length sts"
    and "cor_diff_dropped co = of_nat (length sts - length (ch_sent (cor_diff_tx co)))"
  shows "diff_accounted cfg obs (sts @ [st]) (diff_emit cfg st co)"
proof -
  obtain r where r: "diff_of cfg st = Some r" using diff_of_sighted [OF assms(5)] by blast
  have w: "cor_map (diff_emit cfg st co) = cor_map co" by (simp add: diff_emit_def r case_prod_beta)
  have n: "of_nat (Suc (length sts) - length (ch_sent (cor_diff_tx co))) = cor_diff_dropped co + 1"
    using assms(7,8) by (simp add: Suc_diff_le)
  show ?thesis
    using assms n unfolding diff_accounted_def waiting_def w
    by (auto simp: diff_emit_def r case_prod_beta ch_sent_try_send ac_simps)
qed

lemma diff_accounted_sweep_key: "diff_accounted cfg obs sts co \<Longrightarrow> \<exists>sts'. diff_accounted cfg obs sts' (sweep_key cfg key co)"
proof (cases "hm_get (cor_map co) key")
  case None
  then show "diff_accounted cfg obs sts co \<Longrightarrow> ?thesis" by (auto simp: sweep_key_def)
next
  case (Some st)
  assume a: "diff_accounted cfg obs sts co"
  have "diff_accounted cfg obs (sts @ [st]) (diff_emit cfg st (co\<lparr>cor_map := hm_delete key (cor_map co)\<rparr>))"
  proof (rule diff_accounted_emit)
    show "sighted key st" using a Some by (auto simp: diff_accounted_def)
    show "mset (concat (map sightings sts)) + mset (sightings st)
        + mset (concat (map sightings (waiting (co\<lparr>cor_map := hm_delete key (cor_map co)\<rparr>)))) = mset obs"
      using a waiting_delete [OF _ Some] unfolding diff_accounted_def by (intro mset_move(1)) (auto simp: waiting_def)
  qed (use a in \<open>auto simp: diff_accounted_def split: if_splits\<close>)
  with Some show ?thesis by (auto simp: sweep_key_def)
qed

lemma diff_accounted_sweep: "diff_accounted cfg obs sts co \<Longrightarrow> \<exists>sts'. diff_accounted cfg obs sts' (diff_sweep cfg d now co)"
proof -
  have "diff_accounted cfg obs sts co \<Longrightarrow> \<exists>sts'. diff_accounted cfg obs sts' (fold (sweep_key cfg) ks co)" for ks
  proof (induction ks arbitrary: sts co)
    case (Cons k ks)
    then show ?case using diff_accounted_sweep_key [OF Cons.prems, of k] by auto
  qed auto
  then show "diff_accounted cfg obs sts co \<Longrightarrow> ?thesis" by (simp add: diff_sweep_def)
qed

text \<open>A sighting that was not heard before finds its place free.\<close>

lemma waiting_get: "hm_get (cor_map co) key = Some st \<Longrightarrow> x \<in> set (sightings st) \<Longrightarrow>
    x \<in> set (concat (map sightings (waiting co)))"
  by (auto simp: waiting_def hm_get_def dest!: map_of_SomeD intro!: bexI [of _ "(key, st)"])

lemma place_free:
  assumes "diff_accounted cfg obs sts co" "hm_get (cor_map co) (obs_key o1) = Some st" "sighting_id o1 \<notin> sighting_id ` set obs"
  shows "(obs_source o1 = Yellowstone \<longrightarrow> mst_yellowstone st = None) \<and> (obs_source o1 = ShredStream \<longrightarrow> mst_shredstream st = None)"
proof -
  have s: "sighted (obs_key o1) st" using assms(1,2) by (auto simp: diff_accounted_def)
  have eq: "mset (concat (map sightings sts)) + mset (concat (map sightings (waiting co))) = mset obs"
    using assms(1) by (simp add: diff_accounted_def)
  have "x \<in> set obs" if "x \<in> set (sightings st)" for x
  proof -
    have "x \<in> set_mset (mset (concat (map sightings sts)) + mset (concat (map sightings (waiting co))))"
      using waiting_get [OF assms(2) that] by simp
    then show ?thesis unfolding eq by simp
  qed
  then have old: "sighting_id x \<noteq> sighting_id o1" if "x \<in> set (sightings st)" for x
    using that assms(3) by (metis image_eqI)
  have "sighting_id y = sighting_id o1" if "obs_source o1 = Yellowstone" "mst_yellowstone st = Some y" for y
    using s that by (simp add: sighted_def sighting_id_def)
  moreover have "sighting_id y = sighting_id o1" if "obs_source o1 = ShredStream" "mst_shredstream st = Some y" for y
    using s that by (simp add: sighted_def sighting_id_def)
  ultimately show ?thesis using old unfolding sightings_def by fastforce
qed

lemma waiting_insert: "hm_get (cor_map co) key = None \<Longrightarrow> map snd (hm_insert key st (cor_map co)) = waiting co @ [st]"
proof -
  have "hm_get m key = None \<Longrightarrow> map snd (hm_insert key st m) = map snd m @ [st]" for m
    by (induction m) (auto simp: hm_get_def hm_insert_def split: if_splits)
  then show "hm_get (cor_map co) key = None \<Longrightarrow> ?thesis" by (simp add: waiting_def)
qed

lemma diff_accounted_handle:
  assumes a: "diff_accounted cfg obs sts co" and new: "sighting_id o1 \<notin> sighting_id ` set obs"
  shows "\<exists>sts'. diff_accounted cfg (obs @ [o1]) sts' (diff_handle cfg now o1 co)"
proof (cases "hm_get (cor_map co) (obs_key o1)")
  case None
  let ?st = "(case obs_source o1 of
      Yellowstone \<Rightarrow> \<lparr>mst_yellowstone = Some o1, mst_shredstream = None, mst_inserted_at = now\<rparr>
    | ShredStream \<Rightarrow> \<lparr>mst_yellowstone = None, mst_shredstream = Some o1, mst_inserted_at = now\<rparr>)"
  have h: "diff_handle cfg now o1 co = co\<lparr>cor_map := hm_insert (obs_key o1) ?st (cor_map co)\<rparr>"
    using None by (cases "obs_source o1") (simp_all add: diff_handle_def Let_def)
  have st: "sighted (obs_key o1) ?st" "sightings ?st = [o1]"
    by (cases "obs_source o1"; simp add: sighted_def sightings_def)+
  have "diff_accounted cfg (obs @ [o1]) sts (diff_handle cfg now o1 co)"
    unfolding diff_accounted_def h
  proof (intro conjI)
    show "mset (concat (map sightings sts)) + mset (concat (map sightings
        (waiting (co\<lparr>cor_map := hm_insert (obs_key o1) ?st (cor_map co)\<rparr>)))) = mset (obs @ [o1])"
      using a st(2) by (simp add: waiting_def [of "co\<lparr>cor_map := _\<rparr>"] waiting_insert [OF None] diff_accounted_def)
  qed (use a st in \<open>auto simp: diff_accounted_def\<close>)
  then show ?thesis by blast
next
  case (Some st)
  have s: "sighted (obs_key o1) st" "length (sightings st) = 1" using a Some by (auto simp: diff_accounted_def)
  note free = place_free [OF a Some new]
  let ?st = "(case obs_source o1 of Yellowstone \<Rightarrow> st\<lparr>mst_yellowstone := Some o1\<rparr> | ShredStream \<Rightarrow> st\<lparr>mst_shredstream := Some o1\<rparr>)"
  have st: "mset (sightings ?st) = mset (sightings st) + {#o1#} \<and> mst_yellowstone ?st \<noteq> None \<and> mst_shredstream ?st \<noteq> None
    \<and> sighted (obs_key o1) ?st"
  proof (cases "obs_source o1")
    case Yellowstone
    then have "mst_yellowstone st = None" using free by simp
    moreover from this obtain x where "mst_shredstream st = Some x" using s(2) by (cases "mst_shredstream st") (auto simp: sightings_def)
    ultimately show ?thesis using s(1) Yellowstone by (simp add: sighted_def sightings_def)
  next
    case ShredStream
    then have "mst_shredstream st = None" using free by simp
    moreover from this obtain x where "mst_yellowstone st = Some x" using s(2) by (cases "mst_yellowstone st") (auto simp: sightings_def)
    ultimately show ?thesis using s(1) ShredStream by (simp add: sighted_def sightings_def)
  qed
  then have st: "mset (sightings ?st) = mset (sightings st) + {#o1#}" "mst_yellowstone ?st \<noteq> None" "mst_shredstream ?st \<noteq> None"
    "sighted (obs_key o1) ?st" by blast+
  have h: "diff_handle cfg now o1 co = diff_emit cfg ?st (co\<lparr>cor_map := hm_delete (obs_key o1) (cor_map co)\<rparr>)"
    using Some st(2,3) by (cases "obs_source o1") (auto simp: diff_handle_def Let_def)
  have "diff_accounted cfg (obs @ [o1]) (sts @ [?st]) (diff_emit cfg ?st (co\<lparr>cor_map := hm_delete (obs_key o1) (cor_map co)\<rparr>))"
  proof (rule diff_accounted_emit)
    show "mset (concat (map sightings sts)) + mset (sightings ?st)
        + mset (concat (map sightings (waiting (co\<lparr>cor_map := hm_delete (obs_key o1) (cor_map co)\<rparr>)))) = mset (obs @ [o1])"
      using a waiting_delete [OF _ Some] unfolding st(1) diff_accounted_def mset_append mset.simps
      by (simp only: add_0_left add_mset_add_single [of o1 "{#}", symmetric]) (intro mset_move(2), auto simp: waiting_def)
    show "sighted (obs_key o1) ?st" by (rule st(4))
  qed (use a in \<open>auto simp: diff_accounted_def split: if_splits\<close>)
  then show ?thesis unfolding h by blast
qed

lemma diff_accounted_turn:
  assumes "diff_accounted cfg obs sts co" "distinct (map sighting_id (obs @ heard [x]))"
  shows "\<exists>sts'. diff_accounted cfg (obs @ heard [x]) sts' (correlator_turn cfg x co)"
proof -
  let ?co1 = "case fst x of None \<Rightarrow> co | Some (o1, t) \<Rightarrow> diff_handle cfg t o1 co"
  have "\<exists>sts'. diff_accounted cfg (obs @ heard [x]) sts' ?co1"
    using assms diff_accounted_handle [OF assms(1)] by (cases "fst x") (auto simp: heard_def)
  then obtain sts1 where s1: "diff_accounted cfg (obs @ heard [x]) sts1 ?co1" by blast
  then obtain sts2 where s2: "diff_accounted cfg (obs @ heard [x]) sts2 (diff_sweep cfg (cco_deadline cfg) (snd x) ?co1)"
    using diff_accounted_sweep by blast
  then have "diff_accounted cfg (obs @ heard [x]) sts2 ((diff_sweep cfg (cco_deadline cfg) (snd x) ?co1)\<lparr>cor_last_sweep := snd x\<rparr>)"
    by (simp add: diff_accounted_def waiting_def)
  with s1 show ?thesis unfolding correlator_turn_def Let_def by auto
qed

lemma diff_accounted_turns: "distinct (map sighting_id (heard turns)) \<Longrightarrow>
    \<exists>sts. diff_accounted cfg (heard turns) sts (fold (correlator_turn cfg) turns (correlator_new now cap))"
proof (induction turns rule: rev_induct)
  case Nil
  then show ?case
    by (auto simp: diff_accounted_def correlator_new_def waiting_def heard_def)
next
  case (snoc x turns)
  have h: "heard (turns @ [x]) = heard turns @ heard [x]" by (simp add: heard_def)
  with snoc obtain sts where "diff_accounted cfg (heard turns) sts (fold (correlator_turn cfg) turns (correlator_new now cap))" by auto
  from diff_accounted_turn [OF this, of x] snoc.prems show ?case unfolding h by simp
qed

lemma sweep_all_empty: "hm_ok (cor_map co) \<Longrightarrow> cor_map (diff_sweep cfg 0 now co) = []"
proof -
  have m: "cor_map (sweep_key cfg k co) = hm_delete k (cor_map co)" for k co
    by (cases "hm_get (cor_map co) k")
      (auto simp: sweep_key_def diff_emit_def case_prod_beta hm_delete_absent split: option.splits)
  have "cor_map (fold (sweep_key cfg) ks co) = fold hm_delete ks (cor_map co)" for ks
    by (induction ks arbitrary: co) (simp_all add: m)
  moreover have "fold hm_delete ks xs = filter (\<lambda>e. fst e \<notin> set ks) xs" for ks and xs :: "((u64 \<times> hash) \<times> match_state) list"
    by (induction ks arbitrary: xs) (auto simp: hm_delete_def AList.delete_eq intro!: filter_cong)
  ultimately show ?thesis by (simp add: diff_sweep_def)
qed

lemma correlator_balance:
  assumes "distinct (map sighting_id (heard turns))"
  shows "cor_map (correlator_run cfg turns end_at (correlator_new now cap)) = []
    \<and> (\<exists>sts. ch_offered (cor_diff_tx (correlator_run cfg turns end_at (correlator_new now cap))) = map (\<lambda>st. the (diff_of cfg st)) sts
        \<and> mset (concat (map sightings sts)) = mset (heard turns)
        \<and> (\<forall>st \<in> set sts. \<exists>key. sighted key st)
        \<and> cor_diff_dropped (correlator_run cfg turns end_at (correlator_new now cap)) =
            of_nat (length sts - length (ch_sent (cor_diff_tx (correlator_run cfg turns end_at (correlator_new now cap))))))"
proof -
  let ?co = "fold (correlator_turn cfg) turns (correlator_new now cap)"
  obtain sts where a: "diff_accounted cfg (heard turns) sts ?co" using diff_accounted_turns [OF assms] by blast
  then obtain sts' where a': "diff_accounted cfg (heard turns) sts' (diff_sweep cfg 0 end_at ?co)" using diff_accounted_sweep by blast
  have e: "cor_map (diff_sweep cfg 0 end_at ?co) = []" using a sweep_all_empty by (auto simp: diff_accounted_def)
  have "diff_accounted cfg (heard turns) sts' (correlator_run cfg turns end_at (correlator_new now cap))"
    using a' by (simp add: correlator_run_def)
  with e show ?thesis
    unfolding correlator_run_def diff_accounted_def waiting_def by auto
qed

text \<open>
  C27. When no source reports an entry twice, every sighting of a run ends in exactly one comparison record, and
  every record holds the sightings of one entry, at most one of each source; nothing stays behind, and the
  counter of dropped records is the number of records the writer's queue refused.
\<close>

theorem correlator_accounts_for_all:
  assumes "distinct (map sighting_id (heard turns))"
  shows "cor_map (correlator_run cfg turns end_at (correlator_new now cap)) = []
    \<and> (\<exists>sts. ch_offered (cor_diff_tx (correlator_run cfg turns end_at (correlator_new now cap))) = map (\<lambda>st. the (diff_of cfg st)) sts
        \<and> mset (concat (map sightings sts)) = mset (heard turns)
        \<and> (\<forall>st \<in> set sts. \<exists>key. sighted key st)
        \<and> cor_diff_dropped (correlator_run cfg turns end_at (correlator_new now cap)) =
            of_nat (length sts - length (ch_sent (cor_diff_tx (correlator_run cfg turns end_at (correlator_new now cap))))))"
  by (rule correlator_balance [OF assms])

lemma correlator_sent: "set (ch_sent (cor_diff_tx (correlator_run cfg turns end_at (correlator_new now cap))))
    \<subseteq> set (ch_offered (cor_diff_tx (correlator_run cfg turns end_at (correlator_new now cap))))"
proof -
  let ?ok = "\<lambda>co. ch_ok (cor_diff_tx co)"
  have e: "?ok co \<Longrightarrow> ?ok (diff_emit cfg st co)" for st co
    by (auto simp: diff_emit_def case_prod_beta split: option.splits)
  have k: "?ok co \<Longrightarrow> ?ok (sweep_key cfg key co)" for key co by (auto simp: sweep_key_def intro!: e split: option.splits)
  have "?ok co \<Longrightarrow> ?ok (fold (sweep_key cfg) ks co)" for ks co by (induction ks arbitrary: co) (simp_all add: k)
  then have s: "?ok co \<Longrightarrow> ?ok (diff_sweep cfg d n co)" for d n co by (simp add: diff_sweep_def)
  have h: "?ok co \<Longrightarrow> ?ok (diff_handle cfg n o1 co)" for n o1 co by (auto simp: diff_handle_def Let_def intro!: e)
  have "?ok co \<Longrightarrow> ?ok (correlator_turn cfg x co)" for x co
    by (auto simp: correlator_turn_def Let_def intro!: s h split: option.splits)
  then have "?ok co \<Longrightarrow> ?ok (fold (correlator_turn cfg) turns co)" for co by (induction turns arbitrary: co) simp_all
  then have "?ok (correlator_run cfg turns end_at (correlator_new now cap))"
    by (simp add: correlator_run_def s correlator_new_def)
  then show ?thesis by (auto simp: ch_ok_def dest: list_emb_set)
qed

section \<open>From the records to the report\<close>

definition received_records :: "(diff_record option \<times> instant \<times> instant) list \<Rightarrow> diff_record list" where
  "received_records xs = concat (map (\<lambda>x. case fst x of None \<Rightarrow> [] | Some r \<Rightarrow> [r]) xs)"

definition rows_so_far :: "diff_writer \<Rightarrow> diff_row list" where
  "rows_so_far w = concat (wri_batches w) @ wri_builders w"

lemma rows_flush [simp]: "rows_so_far (diff_flush (\<lambda>n. True) w) = rows_so_far w"
  "rows_so_far (w\<lparr>wri_last_flush := t\<rparr>) = rows_so_far w"
  by (simp_all add: rows_so_far_def diff_flush_def)

lemma rows_turn: "rows_so_far (writer_turn (\<lambda>n. True) g fi x w) = rows_so_far w @ map row_of (received_records [x])"
proof -
  have "rows_so_far (w\<lparr>wri_builders := wri_builders w @ [row_of r]\<rparr>) = rows_so_far w @ [row_of r]" for r
    by (simp add: rows_so_far_def)
  then show ?thesis
    by (cases x; cases "fst x") (simp_all add: writer_turn_def Let_def received_records_def)
qed

lemma rows_run: "concat (wri_batches (diff_writer_run (\<lambda>n. True) g fi xs (diff_writer_new t))) = map row_of (received_records xs)"
proof -
  have f: "rows_so_far (fold (writer_turn (\<lambda>n. True) g fi) xs w) = rows_so_far w @ map row_of (received_records xs)" for w
  proof (induction xs arbitrary: w)
    case (Cons x xs)
    have "received_records (x # xs) = received_records [x] @ received_records xs" by (simp add: received_records_def)
    with Cons show ?case by (simp add: rows_turn)
  qed (simp add: received_records_def)
  let ?w = "fold (writer_turn (\<lambda>n. True) g fi) xs (diff_writer_new t)"
  have "rows_so_far (diff_writer_run (\<lambda>n. True) g fi xs (diff_writer_new t)) = map row_of (received_records xs)"
    using f [of "diff_writer_new t"] by (simp add: diff_writer_run_def Let_def) (simp add: rows_so_far_def diff_writer_new_def)
  moreover have "wri_builders (diff_writer_run (\<lambda>n. True) g fi xs (diff_writer_new t)) = []"
    by (simp add: diff_writer_run_def Let_def diff_flush_def)
  ultimately show ?thesis by (simp add: rows_so_far_def)
qed

definition of_source :: "diff_source \<Rightarrow> diff_record list \<Rightarrow> diff_record list" where
  "of_source s rs = filter (\<lambda>r. dif_source r = s) rs"

lemma report_both_fields:
  "rep_total (report_both row r) = rep_total r" "rep_both (report_both row r) = rep_both r + 1"
  "rep_ys_only (report_both row r) = rep_ys_only r" "rep_ss_only (report_both row r) = rep_ss_only r"
  "rep_hash_mismatches (report_both row r) = rep_hash_mismatches r + (if row_hash_match row then 0 else 1)"
  "rep_sig_mismatches (report_both row r) = rep_sig_mismatches r + (if row_sig_set_match row = Some False then 1 else 0)"
  by (simp_all add: report_both_def Let_def split: option.splits)

definition rows_of_source :: "string \<Rightarrow> diff_row list \<Rightarrow> diff_row list" where
  "rows_of_source s rows = filter (\<lambda>r. row_source r = s) rows"

lemma report_row_fields:
  "rep_total (report_row row r) = rep_total r"
  "rep_both (report_row row r) = rep_both r + of_nat (length (rows_of_source ''BOTH'' [row]))"
  "rep_ys_only (report_row row r) = rep_ys_only r + of_nat (length (rows_of_source ''YS_ONLY'' [row]))"
  "rep_ss_only (report_row row r) = rep_ss_only r + of_nat (length (rows_of_source ''SS_ONLY'' [row]))"
  "rep_hash_mismatches (report_row row r) = rep_hash_mismatches r
     + of_nat (length (filter (\<lambda>r. \<not> row_hash_match r) (rows_of_source ''BOTH'' [row])))"
  "rep_sig_mismatches (report_row row r) = rep_sig_mismatches r
     + of_nat (length (filter (\<lambda>r. row_sig_set_match r = Some False) (rows_of_source ''BOTH'' [row])))"
  by (auto simp: report_row_def report_both_fields rows_of_source_def)

lemma report_rows:
  "rep_total (fold report_row rows q) = rep_total q"
  "rep_both (fold report_row rows q) = rep_both q + of_nat (length (rows_of_source ''BOTH'' rows))"
  "rep_ys_only (fold report_row rows q) = rep_ys_only q + of_nat (length (rows_of_source ''YS_ONLY'' rows))"
  "rep_ss_only (fold report_row rows q) = rep_ss_only q + of_nat (length (rows_of_source ''SS_ONLY'' rows))"
  "rep_hash_mismatches (fold report_row rows q) = rep_hash_mismatches q
     + of_nat (length (filter (\<lambda>r. \<not> row_hash_match r) (rows_of_source ''BOTH'' rows)))"
  "rep_sig_mismatches (fold report_row rows q) = rep_sig_mismatches q
     + of_nat (length (filter (\<lambda>r. row_sig_set_match r = Some False) (rows_of_source ''BOTH'' rows)))"
  by (induction rows arbitrary: q) (auto simp: report_row_fields rows_of_source_def)

lemma report_batches:
  "rep_total (fold report_batch bs q) = rep_total q + of_nat (length (concat bs))"
  "rep_both (fold report_batch bs q) = rep_both q + of_nat (length (rows_of_source ''BOTH'' (concat bs)))"
  "rep_ys_only (fold report_batch bs q) = rep_ys_only q + of_nat (length (rows_of_source ''YS_ONLY'' (concat bs)))"
  "rep_ss_only (fold report_batch bs q) = rep_ss_only q + of_nat (length (rows_of_source ''SS_ONLY'' (concat bs)))"
  "rep_hash_mismatches (fold report_batch bs q) = rep_hash_mismatches q
     + of_nat (length (filter (\<lambda>r. \<not> row_hash_match r) (rows_of_source ''BOTH'' (concat bs))))"
  "rep_sig_mismatches (fold report_batch bs q) = rep_sig_mismatches q
     + of_nat (length (filter (\<lambda>r. row_sig_set_match r = Some False) (rows_of_source ''BOTH'' (concat bs))))"
  by (induction bs arbitrary: q) (simp_all add: report_batch_def report_rows, simp_all add: rows_of_source_def algebra_simps)

lemma rows_of_records: "rows_of_source (diff_source_str s) (map row_of rs) = map row_of (of_source s rs)"
proof -
  have "diff_source_str a = diff_source_str b \<longleftrightarrow> a = b" for a b by (cases a; cases b) (simp_all add: diff_source_str_def)
  then show ?thesis by (simp add: rows_of_source_def of_source_def row_of_def filter_map comp_def)
qed

lemmas rows_of_each = rows_of_records [of DiffBoth, unfolded diff_source_str_def, simplified]
  rows_of_records [of DiffYsOnly, unfolded diff_source_str_def, simplified]
  rows_of_records [of DiffSsOnly, unfolded diff_source_str_def, simplified]

lemma hash_match_both: "sighted key st \<Longrightarrow> dif_hash_match (the (diff_of cfg st)) \<longleftrightarrow> dif_source (the (diff_of cfg st)) = DiffBoth"
  by (auto simp: sighted_def sightings_def diff_of_def Let_def obs_key_def split: option.splits)

text \<open>
  C28. The report of a run counts the records the correlator delivered, by their source; and it never shows a hash
  mismatch: a pair is found by its hash, so two sources that disagree on an entry appear as two lone sightings.
\<close>

theorem comparator_report_counts:
  assumes "distinct (map sighting_id (heard turns))"
    and "received_records xs = ch_sent (cor_diff_tx (correlator_run cfg turns end_at (correlator_new now cap)))"
  shows "let rs = received_records xs;
      r = generate_report (wri_batches (diff_writer_run (\<lambda>n. True) row_group_size flush_interval xs (diff_writer_new t))) in
    rep_total r = of_nat (length rs)
    \<and> rep_both r = of_nat (length (of_source DiffBoth rs))
    \<and> rep_ys_only r = of_nat (length (of_source DiffYsOnly rs))
    \<and> rep_ss_only r = of_nat (length (of_source DiffSsOnly rs))
    \<and> rep_hash_mismatches r = 0
    \<and> rep_sig_mismatches r = of_nat (length (filter (\<lambda>r. dif_sig_set_match r = Some False) (of_source DiffBoth rs)))"
proof -
  let ?co = "correlator_run cfg turns end_at (correlator_new now cap)"
  obtain sts where sts: "ch_offered (cor_diff_tx ?co) = map (\<lambda>st. the (diff_of cfg st)) sts" "\<forall>st \<in> set sts. \<exists>key. sighted key st"
    using correlator_balance [OF assms(1)] by blast
  have "set (ch_sent (cor_diff_tx ?co)) \<subseteq> set (ch_offered (cor_diff_tx ?co))" by (rule correlator_sent)
  with sts assms(2) have m: "\<forall>r \<in> set (received_records xs). dif_hash_match r \<longleftrightarrow> dif_source r = DiffBoth"
    using hash_match_both by fastforce
  have "filter (\<lambda>r. \<not> row_hash_match r) (map row_of (of_source DiffBoth (received_records xs))) = []"
    using m by (auto simp: filter_empty_conv of_source_def row_of_def)
  moreover have "filter (\<lambda>r. row_sig_set_match r = Some False) (map row_of rs) = map row_of (filter (\<lambda>r. dif_sig_set_match r = Some False) rs)" for rs
    by (simp add: filter_map comp_def row_of_def)
  ultimately show ?thesis
    unfolding Let_def generate_report_def report_batches rows_run rows_of_each by (simp add: diff_report_new_def)
qed

section \<open>Witnesses\<close>

definition demo_sightings :: "((entry_obs \<times> instant) option \<times> instant) list" where
  "demo_sightings = [(Some ((sample_obs 100 0 9 1 5)\<lparr>obs_source := Yellowstone\<rparr>, 5), 6), (Some (sample_obs 100 0 9 1 7, 7), 8),
     (Some (sample_obs 101 0 11 0 9, 9), 10)]"

definition demo_correlator_cfg :: correlator_cfg where
  "demo_correlator_cfg = \<lparr>cco_anchor = 0, cco_deadline = 5000000000, cco_leader_lookup = (\<lambda>s. None)\<rparr>"

lemma demo_distinct: "distinct (map sighting_id (heard demo_sightings))"
  by (simp add: demo_sightings_def heard_def sighting_id_def obs_key_def sample_obs_def)

theorem correlator_accounts_for_all_witness:
  "\<exists>sts. ch_offered (cor_diff_tx (correlator_run demo_correlator_cfg demo_sightings 20 (correlator_new 0 None))) =
      map (\<lambda>st. the (diff_of demo_correlator_cfg st)) sts \<and> mset (concat (map sightings sts)) = mset (heard demo_sightings)"
  using correlator_accounts_for_all [OF demo_distinct, of demo_correlator_cfg 20 0 None] by blast

lemma received_all: "received_records (map (\<lambda>r. (Some r, 0, 0)) rs) = rs"
  by (simp add: received_records_def comp_def)

lemma demo_delivered: "map dif_source (ch_sent (cor_diff_tx (correlator_run demo_correlator_cfg demo_sightings 20 (correlator_new 0 None)))) =
    [DiffBoth, DiffSsOnly]"
  by (simp add: correlator_run_def demo_sightings_def correlator_turn_def diff_handle_def obs_key_def sample_obs_def
      correlator_new_def hm_get_def hm_insert_def hm_delete_def diff_emit_def diff_of_def demo_correlator_cfg_def Let_def
      try_send_def ch_room_def chan_new_def diff_sweep_def sweep_key_def since_def)

theorem comparator_report_counts_witness:
  "rep_total (generate_report (wri_batches (diff_writer_run (\<lambda>n. True) 4 50 (map (\<lambda>r. (Some r, 0, 0))
      (ch_sent (cor_diff_tx (correlator_run demo_correlator_cfg demo_sightings 20 (correlator_new 0 None))))) (diff_writer_new 0)))) = 2"
proof -
  have "length (ch_sent (cor_diff_tx (correlator_run demo_correlator_cfg demo_sightings 20 (correlator_new 0 None)))) = 2"
    using arg_cong [OF demo_delivered, of length] by simp
  with comparator_report_counts [OF demo_distinct received_all, of demo_correlator_cfg 20 0 None 4 50 0] show ?thesis
    by (simp add: received_all Let_def)
qed

end
