(* ===== verification/Shredstream.thy ===== *)
theory Shredstream
  imports Entries KeyStore Channel
begin

text \<open>
  The raw ShredStream source (\<open>crates/entry-sources/src/shredstream/\<close>): the UDP receiver (\<open>udp_rx.rs\<close>), the
  tracker that gathers the shreds of a FEC set until its data shreds are complete (\<open>fec_tracker.rs\<close>), and the
  worker that decodes a complete set into entry observations with their index in the slot (\<open>deshred.rs\<close>); the
  counters of \<open>counters.rs\<close>.  Parsing a shred, joining data shreds and decoding entries are parameters.
\<close>

declare split_paired_All [simp del] split_paired_Ex [simp del]

section \<open>Counters\<close>

record drop_counters =
  drc_ys_channel_full :: u64
  drc_ys_decode_error :: u64
  drc_ys_reconnects :: u64
  drc_ss_udp_channel_full :: u64
  drc_ss_obs_channel_full :: u64
  drc_ss_shred_parse_error :: u64
  drc_ss_deshred_error :: u64
  drc_ss_entry_decode_error :: u64
  drc_ss_fec_set_timeout :: u64

definition drop_counters_new :: drop_counters where
  "drop_counters_new = \<lparr>drc_ys_channel_full = 0, drc_ys_decode_error = 0, drc_ys_reconnects = 0, drc_ss_udp_channel_full = 0,
     drc_ss_obs_channel_full = 0, drc_ss_shred_parse_error = 0, drc_ss_deshred_error = 0, drc_ss_entry_decode_error = 0,
     drc_ss_fec_set_timeout = 0\<rparr>"

definition counter_fields :: "(string \<times> (drop_counters \<Rightarrow> u64)) list" where
  "counter_fields =
     [(''ys_channel_full'', drc_ys_channel_full), (''ys_decode_error'', drc_ys_decode_error), (''ys_reconnects'', drc_ys_reconnects),
      (''ss_udp_channel_full'', drc_ss_udp_channel_full), (''ss_obs_channel_full'', drc_ss_obs_channel_full),
      (''ss_shred_parse_error'', drc_ss_shred_parse_error), (''ss_deshred_error'', drc_ss_deshred_error),
      (''ss_entry_decode_error'', drc_ss_entry_decode_error), (''ss_fec_set_timeout'', drc_ss_fec_set_timeout)]"

definition deltas_vs :: "drop_counters \<Rightarrow> drop_counters \<Rightarrow> (string \<times> u64) list" where
  "deltas_vs cur prev = filter (\<lambda>d. snd d > 0) (map (\<lambda>f. (fst f, sat_sub (snd f cur) (snd f prev))) counter_fields)"

section \<open>The FEC tracker\<close>

record raw_shred =
  rsh_bytes :: "u8 list"
  rsh_received_at :: instant

datatype shred_type = ShredData | ShredCode

record shred =
  shr_slot :: u64
  shr_fec_set_index :: u32
  shr_index :: u32
  shr_type :: shred_type
  shr_last_in_slot :: bool
  shr_data_complete :: bool
  shr_payload :: "u8 list"

record fec_set_ready =
  fsr_slot :: u64
  fsr_fec_set_index :: u32
  fsr_first_shred_at :: instant
  fsr_completed_at :: instant
  fsr_data_shreds :: "shred list"
  fsr_coding_shreds :: "shred list"

record fec_set_state =
  fss_first_shred_at :: "instant option"
  fss_data :: "(u32, shred) hmap"
  fss_coding :: "(u32, shred) hmap"
  fss_expected_data_count :: "u32 option"

definition fec_set_default :: fec_set_state where
  "fec_set_default = \<lparr>fss_first_shred_at = None, fss_data = [], fss_coding = [], fss_expected_data_count = None\<rparr>"

record fec_tracker =
  fet_sets :: "(u64 \<times> u32, fec_set_state) hmap"
  fet_counters :: drop_counters

definition fec_tracker_new :: "drop_counters \<Rightarrow> fec_tracker" where
  "fec_tracker_new counters = \<lparr>fet_sets = [], fet_counters = counters\<rparr>"

definition fec_add :: "instant \<Rightarrow> shred \<Rightarrow> fec_set_state \<Rightarrow> fec_set_state" where
  "fec_add received_at s st =
     (let st1 = (if fss_first_shred_at st = None then st\<lparr>fss_first_shred_at := Some received_at\<rparr> else st) in
      case shr_type s of
        ShredData \<Rightarrow>
          (let st2 = (if shr_last_in_slot s \<or> shr_data_complete s
                 then st1\<lparr>fss_expected_data_count := Some (shr_index s - shr_fec_set_index s + 1)\<rparr> else st1)
           in st2\<lparr>fss_data := hm_insert (shr_index s) s (fss_data st2)\<rparr>)
      | ShredCode \<Rightarrow> st1\<lparr>fss_coding := hm_insert (shr_index s) s (fss_coding st1)\<rparr>)"

definition fec_complete :: "fec_set_state \<Rightarrow> bool" where
  "fec_complete st = (case fss_expected_data_count st of
     Some n \<Rightarrow> (of_nat (length (fss_data st)) :: u32) \<ge> n | None \<Rightarrow> False)"

definition fec_ingest :: "(u8 list \<Rightarrow> shred option) \<Rightarrow> raw_shred \<Rightarrow> instant \<Rightarrow> fec_tracker \<Rightarrow> fec_set_ready option \<times> fec_tracker" where
  "fec_ingest parse packet now ft = (case parse (rsh_bytes packet) of
     None \<Rightarrow> (None, ft\<lparr>fet_counters := (fet_counters ft)\<lparr>drc_ss_shred_parse_error := drc_ss_shred_parse_error (fet_counters ft) + 1\<rparr>\<rparr>)
   | Some s \<Rightarrow>
       (let key = (shr_slot s, shr_fec_set_index s);
            state = (case hm_get (fet_sets ft) key of Some st \<Rightarrow> st | None \<Rightarrow> fec_set_default);
            st = fec_add (rsh_received_at packet) s state
        in if fec_complete st
           then (Some \<lparr>fsr_slot = fst key, fsr_fec_set_index = snd key,
                   fsr_first_shred_at = the (fss_first_shred_at st), fsr_completed_at = now,
                   fsr_data_shreds = sort_key shr_index (map snd (fss_data st)),
                   fsr_coding_shreds = map snd (fss_coding st)\<rparr>,
                 ft\<lparr>fet_sets := hm_delete key (fet_sets ft)\<rparr>)
           else (None, ft\<lparr>fet_sets := hm_insert key st (fet_sets ft)\<rparr>)))"

definition fec_alive :: "instant \<Rightarrow> duration \<Rightarrow> fec_set_state \<Rightarrow> bool" where
  "fec_alive now max_age st = (case fss_first_shred_at st of Some t \<Rightarrow> since now t < max_age | None \<Rightarrow> True)"

definition fec_evict_older_than :: "instant \<Rightarrow> duration \<Rightarrow> fec_tracker \<Rightarrow> nat \<times> fec_tracker" where
  "fec_evict_older_than now max_age ft =
     (let kept = hm_retain (\<lambda>k st. fec_alive now max_age st) (fet_sets ft);
          dead = length (fet_sets ft) - length kept
      in (dead, ft\<lparr>fet_sets := kept,
            fet_counters := (fet_counters ft)\<lparr>drc_ss_fec_set_timeout := drc_ss_fec_set_timeout (fet_counters ft) + of_nat dead\<rparr>\<rparr>))"

section \<open>The deshred worker\<close>

record ledger_entry =
  len_num_hashes :: u64
  len_hash :: hash
  len_transactions :: "signature list list"

record deshred_cfg =
  dsc_parse :: "u8 list \<Rightarrow> shred option"
  dsc_deshred :: "u8 list list \<Rightarrow> u8 list option"
  dsc_decode :: "u8 list \<Rightarrow> ledger_entry list option"

record deshred =
  dsh_tracker :: fec_tracker
  dsh_slot_entry_offset :: "(u64, u32) hmap"
  dsh_highest_slot :: u64
  dsh_last_evict :: instant
  dsh_obs_tx :: "entry_obs chan"

definition deshred_new :: "instant \<Rightarrow> nat option \<Rightarrow> deshred" where
  "deshred_new now cap = \<lparr>dsh_tracker = fec_tracker_new drop_counters_new, dsh_slot_entry_offset = [], dsh_highest_slot = 0,
     dsh_last_evict = now, dsh_obs_tx = chan_new cap\<rparr>"

definition count_drop :: "(drop_counters \<Rightarrow> drop_counters) \<Rightarrow> deshred \<Rightarrow> deshred" where
  "count_drop f ds = ds\<lparr>dsh_tracker := (dsh_tracker ds)\<lparr>fet_counters := f (fet_counters (dsh_tracker ds))\<rparr>\<rparr>"

definition first_sigs :: "signature list list \<Rightarrow> signature list" where
  "first_sigs txs = concat (map (\<lambda>tx. case tx of [] \<Rightarrow> [] | sig # _ \<Rightarrow> [sig]) txs)"

definition obs_of_entry :: "fec_set_ready \<Rightarrow> u32 \<Rightarrow> ledger_entry \<Rightarrow> entry_obs" where
  "obs_of_entry ready entry_index entry =
     \<lparr>obs_source = ShredStream, obs_observed_at = fsr_completed_at ready, obs_slot = fsr_slot ready, obs_entry_index = entry_index,
      obs_num_hashes = len_num_hashes entry, obs_entry_hash = len_hash entry, obs_tx_count = of_nat (length (len_transactions entry)),
      obs_signatures = first_sigs (len_transactions entry), obs_first_shred_at = Some (fsr_first_shred_at ready), obs_leader = None\<rparr>"

definition obs_offer :: "entry_obs \<Rightarrow> deshred \<Rightarrow> deshred" where
  "obs_offer obs ds = (let (tx, ok) = try_send (dsh_obs_tx ds) obs; ds1 = ds\<lparr>dsh_obs_tx := tx\<rparr> in
     if ok then ds1 else count_drop (\<lambda>c. c\<lparr>drc_ss_obs_channel_full := drc_ss_obs_channel_full c + 1\<rparr>) ds1)"

definition emit_entries :: "deshred_cfg \<Rightarrow> fec_set_ready \<Rightarrow> deshred \<Rightarrow> deshred" where
  "emit_entries cfg ready ds = (case dsc_deshred cfg (map shr_payload (fsr_data_shreds ready)) of
     None \<Rightarrow> count_drop (\<lambda>c. c\<lparr>drc_ss_deshred_error := drc_ss_deshred_error c + 1\<rparr>) ds
   | Some bytes \<Rightarrow> (case dsc_decode cfg bytes of
       None \<Rightarrow> count_drop (\<lambda>c. c\<lparr>drc_ss_entry_decode_error := drc_ss_entry_decode_error c + 1\<rparr>) ds
     | Some entries \<Rightarrow>
         (let base_index = (case hm_get (dsh_slot_entry_offset ds) (fsr_slot ready) of Some b \<Rightarrow> b | None \<Rightarrow> 0);
              ds1 = fold (\<lambda>(i, e). obs_offer (obs_of_entry ready (base_index + of_nat i) e)) (enumerate 0 entries) ds
          in ds1\<lparr>dsh_slot_entry_offset := hm_insert (fsr_slot ready) (base_index + of_nat (length entries)) (dsh_slot_entry_offset ds1)\<rparr>)))"

text \<open>One packet; the clocks are the one of the completion and the one of the eviction test.\<close>

definition deshred_evict :: "instant \<Rightarrow> deshred \<Rightarrow> deshred" where
  "deshred_evict now ds =
     (if since now (dsh_last_evict ds) > 500000000
      then (let ds1 = ds\<lparr>dsh_tracker := snd (fec_evict_older_than now 2000000000 (dsh_tracker ds))\<rparr>;
                ds2 = (if length (dsh_slot_entry_offset ds1) > 2048
                   then ds1\<lparr>dsh_slot_entry_offset := hm_retain (\<lambda>s _. s \<ge> sat_sub (dsh_highest_slot ds1) 512) (dsh_slot_entry_offset ds1)\<rparr>
                   else ds1)
            in ds2\<lparr>dsh_last_evict := now\<rparr>)
      else ds)"

definition deshred_step :: "deshred_cfg \<Rightarrow> raw_shred \<times> instant \<times> instant \<Rightarrow> deshred \<Rightarrow> deshred" where
  "deshred_step cfg x ds =
     (let (pkt, completed_at, now) = x;
          (ready, ft) = fec_ingest (dsc_parse cfg) pkt completed_at (dsh_tracker ds);
          ds1 = ds\<lparr>dsh_tracker := ft\<rparr>;
          ds2 = (case ready of
             None \<Rightarrow> ds1
           | Some r \<Rightarrow> emit_entries cfg r (ds1\<lparr>dsh_highest_slot := max (fsr_slot r) (dsh_highest_slot ds1)\<rparr>))
      in deshred_evict now ds2)"

definition deshred_run :: "deshred_cfg \<Rightarrow> (raw_shred \<times> instant \<times> instant) list \<Rightarrow> deshred \<Rightarrow> deshred" where
  "deshred_run cfg xs ds = fold (deshred_step cfg) xs ds"

section \<open>The UDP receiver\<close>

text \<open>One datagram with its clock, or a socket error; a datagram is cut to the buffer by the socket.\<close>

definition udp_recv :: "u8 list option \<times> instant \<Rightarrow> raw_shred chan \<times> drop_counters \<Rightarrow> raw_shred chan \<times> drop_counters" where
  "udp_recv x st = (case fst x of
     None \<Rightarrow> st
   | Some bytes \<Rightarrow> (let (tx, ok) = try_send (fst st) \<lparr>rsh_bytes = take 1500 bytes, rsh_received_at = snd x\<rparr> in
       (tx, if ok then snd st else (snd st)\<lparr>drc_ss_udp_channel_full := drc_ss_udp_channel_full (snd st) + 1\<rparr>)))"

end
