(* ===== verification/ShredstreamRun.thy ===== *)
theory ShredstreamRun
  imports Shredstream "HOL-Library.Multiset"
begin

text \<open>
  What the raw ShredStream source guarantees: a FEC set is handed on exactly when its last missing data shred
  arrives, with all its data shreds in order; the entries of a slot are numbered without gaps in the order in
  which the sets complete; and a shred that comes after its set was completed ends as a timed-out set.
\<close>

section \<open>One set\<close>

definition fec_state :: "(shred \<times> instant) list \<Rightarrow> fec_set_state" where
  "fec_state ys = fold (\<lambda>(s, t). fec_add t s) ys fec_set_default"

definition data_indices :: "(shred \<times> instant) list \<Rightarrow> u32 set" where
  "data_indices ys = {shr_index s | s t. (s, t) \<in> set ys \<and> shr_type s = ShredData}"

text \<open>The shreds of a set of \<open>n\<close> data shreds from index \<open>b\<close> on, the last one and only that one with a flag.\<close>

definition set_indices :: "u32 \<Rightarrow> nat \<Rightarrow> u32 list" where
  "set_indices b n = map (\<lambda>j. b + of_nat j) [0..<n]"

definition fec_wf :: "u32 \<Rightarrow> nat \<Rightarrow> shred \<Rightarrow> bool" where
  "fec_wf b n s \<longleftrightarrow> shr_fec_set_index s = b \<and> (shr_type s = ShredData \<longrightarrow> shr_index s \<in> set (set_indices b n)
     \<and> (shr_last_in_slot s \<or> shr_data_complete s \<longleftrightarrow> shr_index s = b + of_nat (n - 1)))"

definition set_size_ok :: "u32 \<Rightarrow> nat \<Rightarrow> bool" where
  "set_size_ok b n \<longleftrightarrow> 0 < n \<and> n < 2 ^ 32 \<and> unat b + n \<le> 2 ^ 32"

lemma of_nat_index: "set_size_ok b n \<Longrightarrow> j < n \<Longrightarrow> unat (b + of_nat j) = unat b + j"
proof -
  assume a: "set_size_ok b n" "j < n"
  then have j: "unat (of_nat j :: u32) = j" by (simp add: set_size_ok_def unat_of_nat)
  from a have "unat b + j < 2 ^ 32" by (simp add: set_size_ok_def)
  then show ?thesis by (simp add: unat_word_ariths j)
qed

lemma set_indices_sorted: "set_size_ok b n \<Longrightarrow> sorted_wrt (<) (set_indices b n)"
  by (auto simp: set_indices_def sorted_wrt_map sorted_wrt_iff_nth_less word_less_nat_alt of_nat_index)

lemma set_indices_distinct: "set_size_ok b n \<Longrightarrow> distinct (set_indices b n)"
  using set_indices_sorted strict_sorted_iff by blast

lemma card_set_indices: "set_size_ok b n \<Longrightarrow> card (set (set_indices b n)) = n"
  using distinct_card [OF set_indices_distinct] by (simp add: set_indices_def)

text \<open>The state of a set: its data by index, the first arrival, the expected count once the last shred is in.\<close>

lemma fec_state_facts:
  assumes "set_size_ok b n" "\<forall>(s, t) \<in> set ys. fec_wf b n s"
  shows "hm_ok (fss_data (fec_state ys)) \<and> set (hm_keys (fss_data (fec_state ys))) = data_indices ys
    \<and> (\<forall>i s. hm_get (fss_data (fec_state ys)) i = Some s \<longrightarrow> shr_index s = i \<and> shr_type s = ShredData \<and> s \<in> fst ` set ys)
    \<and> fss_first_shred_at (fec_state ys) = (case ys of [] \<Rightarrow> None | y # _ \<Rightarrow> Some (snd y))
    \<and> fss_expected_data_count (fec_state ys) = (if b + of_nat (n - 1) \<in> data_indices ys then Some (of_nat n) else None)"
  using assms(2)
proof (induction ys rule: rev_induct)
  case Nil
  then show ?case by (simp add: fec_state_def fec_set_default_def data_indices_def hm_keys_def)
next
  case (snoc y ys)
  obtain s t where y: "y = (s, t)" by (cases y)
  have st: "fec_state (ys @ [y]) = fec_add t s (fec_state ys)" by (simp add: fec_state_def y)
  have wf: "fec_wf b n s" using snoc.prems by (simp add: y)
  have di: "data_indices (ys @ [y]) = (if shr_type s = ShredData then insert (shr_index s) (data_indices ys) else data_indices ys)"
    by (auto simp: data_indices_def y)
  have n: "of_nat (n - 1) + 1 = (of_nat n :: u32)"
    using assms(1) by (cases n) (simp_all add: set_size_ok_def)
  have count: "shr_index s - shr_fec_set_index s + 1 = of_nat n" if "shr_type s = ShredData" "shr_last_in_slot s \<or> shr_data_complete s"
    using wf that n by (simp add: fec_wf_def)
  have hd: "(case ys @ [y] of [] \<Rightarrow> None | z # _ \<Rightarrow> Some (snd z)) =
      (case (case ys of [] \<Rightarrow> None | z # _ \<Rightarrow> Some (snd z)) of None \<Rightarrow> Some t | Some u \<Rightarrow> Some u)"
    by (cases ys) (simp_all add: y)
  from snoc have IH: "hm_ok (fss_data (fec_state ys))" "set (hm_keys (fss_data (fec_state ys))) = data_indices ys"
    "\<And>i s. hm_get (fss_data (fec_state ys)) i = Some s \<Longrightarrow> shr_index s = i \<and> shr_type s = ShredData \<and> s \<in> fst ` set ys"
    "fss_first_shred_at (fec_state ys) = (case ys of [] \<Rightarrow> None | y # _ \<Rightarrow> Some (snd y))"
    "fss_expected_data_count (fec_state ys) = (if b + of_nat (n - 1) \<in> data_indices ys then Some (of_nat n) else None)"
    by auto
  show ?case
  proof (cases "shr_type s")
    case ShredData
    then have flag: "(shr_last_in_slot s \<or> shr_data_complete s) \<longleftrightarrow> shr_index s = b + of_nat (n - 1)" using wf by (simp add: fec_wf_def)
    show ?thesis unfolding st di hd IH(4) [symmetric]
      using ShredData IH(1-3,5) flag count by (auto simp: fec_add_def Let_def set_hm_keys_insert y split: option.splits)
  next
    case ShredCode
    then show ?thesis unfolding st di hd IH(4) [symmetric]
      using IH(1-3,5) by (auto simp: fec_add_def Let_def y split: option.splits)
  qed
qed

lemma fec_complete_iff:
  assumes "set_size_ok b n" "\<forall>(s, t) \<in> set ys. fec_wf b n s"
  shows "fec_complete (fec_state ys) \<longleftrightarrow> data_indices ys = set (set_indices b n)"
proof -
  note f = fec_state_facts [OF assms]
  have sub: "data_indices ys \<subseteq> set (set_indices b n)" using assms(2) by (fastforce simp: data_indices_def fec_wf_def)
  have "length (fss_data (fec_state ys)) = card (data_indices ys)"
    using f distinct_card [of "hm_keys (fss_data (fec_state ys))"] by (simp add: hm_ok_def hm_keys_def)
  moreover have c: "card (data_indices ys) \<le> n" using sub card_mono [OF _ sub] card_set_indices [OF assms(1)] by simp
  moreover have "n < 2 ^ 32" using assms(1) by (simp add: set_size_ok_def)
  ultimately have "unat (of_nat (length (fss_data (fec_state ys))) :: u32) = card (data_indices ys)" "unat (of_nat n :: u32) = n"
    by (simp_all add: unat_of_nat)
  then have "(of_nat (length (fss_data (fec_state ys))) :: u32) \<ge> of_nat n \<longleftrightarrow> card (data_indices ys) = n"
    using c unfolding word_le_nat_alt by linarith
  also have "\<dots> \<longleftrightarrow> data_indices ys = set (set_indices b n)"
    using card_subset_eq [OF finite_set sub] card_set_indices [OF assms(1)] by metis
  finally have le: "(of_nat (length (fss_data (fec_state ys))) :: u32) \<ge> of_nat n \<longleftrightarrow> data_indices ys = set (set_indices b n)" .
  have "n - 1 < n" using assms(1) by (simp add: set_size_ok_def)
  then have "b + of_nat (n - 1) \<in> set (set_indices b n)" unfolding set_indices_def set_map by (intro imageI) simp
  then show ?thesis using f le by (auto simp: fec_complete_def split: if_splits)
qed

section \<open>The tracker\<close>

definition parsed_shreds :: "(u8 list \<Rightarrow> shred option) \<Rightarrow> u64 \<times> u32 \<Rightarrow> raw_shred list \<Rightarrow> (shred \<times> instant) list" where
  "parsed_shreds parse key ps = concat (map (\<lambda>p. case parse (rsh_bytes p) of
     Some s \<Rightarrow> if (shr_slot s, shr_fec_set_index s) = key then [(s, rsh_received_at p)] else [] | None \<Rightarrow> []) ps)"

definition fec_ingests :: "(u8 list \<Rightarrow> shred option) \<Rightarrow> (raw_shred \<times> instant) list \<Rightarrow> fec_tracker \<Rightarrow> fec_tracker" where
  "fec_ingests parse ps ft = fold (\<lambda>(p, now) f. snd (fec_ingest parse p now f)) ps ft"

lemma ingest_other:
  assumes "\<forall>s. parse (rsh_bytes p) = Some s \<longrightarrow> (shr_slot s, shr_fec_set_index s) \<noteq> key"
  shows "hm_get (fet_sets (snd (fec_ingest parse p now ft))) key = hm_get (fet_sets ft) key"
  using assms by (auto simp: fec_ingest_def Let_def split: option.splits)

lemma ingest_own:
  assumes "parse (rsh_bytes p) = Some s"
    and "hm_get (fet_sets ft) (shr_slot s, shr_fec_set_index s) = (if ys = [] then None else Some (fec_state ys))"
  shows "fec_ingest parse p now ft =
    (let st = fec_state (ys @ [(s, rsh_received_at p)]); key = (shr_slot s, shr_fec_set_index s) in
     if fec_complete st
     then (Some \<lparr>fsr_slot = shr_slot s, fsr_fec_set_index = shr_fec_set_index s, fsr_first_shred_at = the (fss_first_shred_at st),
             fsr_completed_at = now, fsr_data_shreds = sort_key shr_index (map snd (fss_data st)),
             fsr_coding_shreds = map snd (fss_coding st)\<rparr>, ft\<lparr>fet_sets := hm_delete key (fet_sets ft)\<rparr>)
     else (None, ft\<lparr>fet_sets := hm_insert key st (fet_sets ft)\<rparr>))"
proof -
  have "(case hm_get (fet_sets ft) (shr_slot s, shr_fec_set_index s) of Some st \<Rightarrow> st | None \<Rightarrow> fec_set_default) = fec_state ys"
    using assms(2) by (simp add: fec_state_def)
  then show ?thesis using assms(1) by (simp add: fec_ingest_def fec_state_def Let_def)
qed

lemma parsed_append: "parsed_shreds parse key (ps @ qs) = parsed_shreds parse key ps @ parsed_shreds parse key qs"
  by (simp add: parsed_shreds_def)

lemma data_indices_append: "data_indices (xs @ ys) = data_indices xs \<union> data_indices ys"
  by (auto simp: data_indices_def)

lemma data_indices_Cons: "data_indices ((s, t) # ys) =
    (if shr_type s = ShredData then insert (shr_index s) (data_indices ys) else data_indices ys)"
  by (auto simp: data_indices_def)

lemma data_indices_Nil [simp]: "data_indices [] = {}"
  by (simp add: data_indices_def)

text \<open>While the set is not complete, the tracker holds the state of its shreds, whatever else it receives.\<close>

lemma tracked:
  assumes "set_size_ok (snd key) n" "\<forall>(s, t) \<in> set (parsed_shreds parse key (map fst ps)). fec_wf (snd key) n s"
    and "data_indices (parsed_shreds parse key (map fst ps)) \<noteq> set (set_indices (snd key) n)"
  shows "hm_get (fet_sets (fec_ingests parse ps (fec_tracker_new c))) key =
    (if parsed_shreds parse key (map fst ps) = [] then None else Some (fec_state (parsed_shreds parse key (map fst ps))))"
  using assms(2,3)
proof (induction ps rule: rev_induct)
  case Nil
  then show ?case by (simp add: fec_ingests_def fec_tracker_new_def parsed_shreds_def)
next
  case (snoc x ps)
  obtain p now where x: "x = (p, now)" by (cases x)
  let ?ys = "parsed_shreds parse key (map fst ps)"
  have sub: "data_indices ?ys \<subseteq> set (set_indices (snd key) n)"
    using snoc.prems(1) by (fastforce simp: parsed_append data_indices_def fec_wf_def)
  have sub': "data_indices (parsed_shreds parse key [p]) \<subseteq> set (set_indices (snd key) n)"
    using snoc.prems(1) by (fastforce simp: parsed_append data_indices_def fec_wf_def x)
  have "data_indices ?ys \<noteq> set (set_indices (snd key) n)"
    using snoc.prems(2) sub' by (auto simp: parsed_append data_indices_append x)
  then have IH: "hm_get (fet_sets (fec_ingests parse ps (fec_tracker_new c))) key = (if ?ys = [] then None else Some (fec_state ?ys))"
    using snoc by (simp add: parsed_append)
  have step: "fec_ingests parse (ps @ [x]) ft = snd (fec_ingest parse p now (fec_ingests parse ps ft))" for ft
    by (simp add: fec_ingests_def x)
  show ?case
  proof (cases "parsed_shreds parse key [p]")
    case Nil
    then have "\<forall>s. parse (rsh_bytes p) = Some s \<longrightarrow> (shr_slot s, shr_fec_set_index s) \<noteq> key"
      by (auto simp: parsed_shreds_def)
    then show ?thesis using IH Nil unfolding step by (simp add: ingest_other x parsed_append)
  next
    case (Cons y zs)
    then obtain s where s: "parse (rsh_bytes p) = Some s" "(shr_slot s, shr_fec_set_index s) = key"
        "parsed_shreds parse key [p] = [(s, rsh_received_at p)]"
      by (auto simp: parsed_shreds_def split: option.splits if_splits)
    have ys: "parsed_shreds parse key (map fst (ps @ [x])) = ?ys @ [(s, rsh_received_at p)]"
      by (simp add: parsed_append s(3) x)
    have "\<not> fec_complete (fec_state (?ys @ [(s, rsh_received_at p)]))"
      using fec_complete_iff [OF assms(1)] snoc.prems unfolding ys by blast
    then show ?thesis
      using ingest_own [where parse = parse and p = p and ft = "fec_ingests parse ps (fec_tracker_new c)" and ys = ?ys and now = now
          and s = s] s(1,2) IH unfolding step ys by (simp add: Let_def)
  qed
qed

lemma sorted_values:
  assumes "hm_ok m" "\<forall>i s. hm_get m i = Some s \<longrightarrow> shr_index s = i" "set (hm_keys m) = set is" "sorted_wrt (<) is"
  shows "map shr_index (sort_key shr_index (map snd m)) = (is :: u32 list)"
proof -
  have "map shr_index (map snd m) = hm_keys m"
    using assms(1,2) by (auto simp: hm_keys_def hm_get_in_set)
  then have k: "mset (map shr_index (sort_key shr_index (map snd m))) = mset (hm_keys m)"
    by (metis mset_map mset_sort)
  show ?thesis
  proof (rule sorted_distinct_set_unique)
    show "distinct (map shr_index (sort_key shr_index (map snd m)))"
      using mset_eq_imp_distinct_iff [OF k] assms(1) by (simp add: hm_ok_def hm_keys_def)
    show "set (map shr_index (sort_key shr_index (map snd m))) = set is" using mset_eq_setD [OF k] assms(3) by simp
  qed (use assms(4) in \<open>auto simp: strict_sorted_iff\<close>)
qed

text \<open>
  C29. The tracker hands a FEC set on exactly at the packet that brings its last missing data shred, however the
  shreds of the set arrive, repeated, in any order and mixed with those of other sets: with all its data shreds
  in the order of their index, the time of the first shred of the set and the time of completion.
\<close>

theorem fec_set_ready_exact:
  assumes "set_size_ok (snd key) n" "\<forall>(s, t) \<in> set (parsed_shreds parse key (map fst ps @ [p])). fec_wf (snd key) n s"
    and "data_indices (parsed_shreds parse key (map fst ps)) \<noteq> set (set_indices (snd key) n)"
    and "parse (rsh_bytes p) = Some s" "(shr_slot s, shr_fec_set_index s) = key"
  shows "case fst (fec_ingest parse p now (fec_ingests parse ps (fec_tracker_new c))) of
      None \<Rightarrow> data_indices (parsed_shreds parse key (map fst ps @ [p])) \<noteq> set (set_indices (snd key) n)
    | Some r \<Rightarrow> data_indices (parsed_shreds parse key (map fst ps @ [p])) = set (set_indices (snd key) n)
        \<and> (fsr_slot r, fsr_fec_set_index r) = key \<and> map shr_index (fsr_data_shreds r) = set_indices (snd key) n
        \<and> set (fsr_data_shreds r) \<subseteq> fst ` set (parsed_shreds parse key (map fst ps @ [p]))
        \<and> fsr_first_shred_at r = snd (hd (parsed_shreds parse key (map fst ps @ [p]))) \<and> fsr_completed_at r = now"
proof -
  let ?ys = "parsed_shreds parse key (map fst ps)"
  have zs: "parsed_shreds parse key (map fst ps @ [p]) = ?ys @ [(s, rsh_received_at p)]"
    using assms(4,5) by (simp add: parsed_append) (simp add: parsed_shreds_def)
  let ?zs = "?ys @ [(s, rsh_received_at p)]"
  have "\<forall>(s, t) \<in> set ?ys. fec_wf (snd key) n s" using assms(2) unfolding zs by auto
  from tracked [OF assms(1) this assms(3)] have "hm_get (fet_sets (fec_ingests parse ps (fec_tracker_new c)))
      (shr_slot s, shr_fec_set_index s) = (if ?ys = [] then None else Some (fec_state ?ys))" using assms(5) by simp
  note own = ingest_own [where parse = parse and p = p and ft = "fec_ingests parse ps (fec_tracker_new c)" and ys = ?ys and now = now
      and s = s, OF assms(4) this]
  note facts = fec_state_facts [OF assms(1) assms(2) [unfolded zs]]
  note iff = fec_complete_iff [OF assms(1) assms(2) [unfolded zs]]
  show ?thesis
  proof (cases "fec_complete (fec_state ?zs)")
    case False
    then show ?thesis using iff unfolding zs own Let_def by simp
  next
    case True
    have idx: "map shr_index (sort_key shr_index (map snd (fss_data (fec_state ?zs)))) = set_indices (snd key) n"
      using sorted_values [OF conjunct1 [OF facts] _ _ set_indices_sorted [OF assms(1)]] facts True iff by blast
    have "set (map snd (fss_data (fec_state ?zs))) \<subseteq> fst ` set ?zs"
      using facts by (force simp: hm_get_in_set)
    moreover have "the (fss_first_shred_at (fec_state ?zs)) = snd (hd ?zs)"
      using facts by (cases ?ys) auto
    ultimately show ?thesis using True iff idx assms(5) unfolding zs own Let_def by auto
  qed
qed

text \<open>Two data shreds of a set with index 64, the last one first, and a shred of another set between them.\<close>

definition shred_demo :: "u64 \<Rightarrow> u32 \<Rightarrow> bool \<Rightarrow> shred" where
  "shred_demo slot i flag = \<lparr>shr_slot = slot, shr_fec_set_index = 64, shr_index = i, shr_type = ShredData,
     shr_last_in_slot = False, shr_data_complete = flag, shr_payload = []\<rparr>"

definition parse_demo :: "u8 list \<Rightarrow> shred option" where
  "parse_demo bytes = (case bytes of [k] \<Rightarrow>
       (if k = 1 then Some (shred_demo 9 65 True) else if k = 0 then Some (shred_demo 9 64 False)
        else if k = 2 then Some (shred_demo 8 64 False) else None)
     | _ \<Rightarrow> None)"

definition shred_packet :: "u8 \<Rightarrow> instant \<Rightarrow> raw_shred" where
  "shred_packet k t = \<lparr>rsh_bytes = [k], rsh_received_at = t\<rparr>"

theorem fec_set_ready_exact_witness:
  "case fst (fec_ingest parse_demo (shred_packet 0 30) 40 (fec_ingests parse_demo [(shred_packet 1 10, 11), (shred_packet 2 20, 21)]
      (fec_tracker_new drop_counters_new))) of None \<Rightarrow> False
    | Some r \<Rightarrow> map shr_index (fsr_data_shreds r) = [64, 65] \<and> fsr_first_shred_at r = 10 \<and> fsr_completed_at r = 40"
proof -
  have "set_size_ok (snd (9 :: u64, 64 :: u32)) 2" by (simp add: set_size_ok_def)
  moreover have z: "parsed_shreds parse_demo (9, 64) (map fst [(shred_packet 1 10, 11 :: instant), (shred_packet 2 20, 21)] @ [shred_packet 0 30])
      = [(shred_demo 9 65 True, 10), (shred_demo 9 64 False, 30)]"
    by (simp add: parsed_shreds_def shred_packet_def parse_demo_def shred_demo_def)
  moreover have y: "parsed_shreds parse_demo (9, 64) (map fst [(shred_packet 1 10, 11 :: instant), (shred_packet 2 20, 21)])
      = [(shred_demo 9 65 True, 10)]"
    by (simp add: parsed_shreds_def shred_packet_def parse_demo_def shred_demo_def)
  moreover have i: "set_indices 64 2 = [64, 65]" by (simp add: set_indices_def numeral_2_eq_2)
  moreover have "fec_wf 64 2 (shred_demo 9 65 True)" "fec_wf 64 2 (shred_demo 9 64 False)"
    by (simp_all add: fec_wf_def shred_demo_def i)
  moreover have d: "data_indices [(shred_demo 9 65 True, 10 :: instant)] = {65}"
      "data_indices [(shred_demo 9 65 True, 10 :: instant), (shred_demo 9 64 False, 30)] = {64, 65}"
    by (auto simp: data_indices_Cons shred_demo_def)
  moreover have "parse_demo (rsh_bytes (shred_packet 0 30)) = Some (shred_demo 9 64 False)"
    by (simp add: shred_packet_def parse_demo_def)
  moreover have "(shr_slot (shred_demo 9 64 False), shr_fec_set_index (shred_demo 9 64 False)) = (9, 64)"
    by (simp add: shred_demo_def)
  ultimately show ?thesis
    using fec_set_ready_exact [where key = "(9, 64)" and n = 2 and parse = parse_demo and p = "shred_packet 0 30"
        and ps = "[(shred_packet 1 10, 11), (shred_packet 2 20, 21)]" and s = "shred_demo 9 64 False" and now = 40
        and c = drop_counters_new]
    unfolding z y i snd_conv d by (auto split: option.splits)
qed

section \<open>The numbering of the entries\<close>

definition slot_obs :: "deshred \<Rightarrow> u64 \<Rightarrow> entry_obs list" where
  "slot_obs ds k = filter (\<lambda>ob. obs_slot ob = k) (ch_offered (dsh_obs_tx ds))"

definition seen_slots :: "deshred_cfg \<Rightarrow> (raw_shred \<times> instant \<times> instant) list \<Rightarrow> u64 list" where
  "seen_slots cfg xs = concat (map (\<lambda>x. case dsc_parse cfg (rsh_bytes (fst x)) of Some s \<Rightarrow> [shr_slot s] | None \<Rightarrow> []) xs)"

definition numbered :: "entry_obs list \<Rightarrow> bool" where
  "numbered obs \<longleftrightarrow> map obs_entry_index obs = map of_nat [0..<length obs]"

definition deshred_inv :: "u64 set \<Rightarrow> deshred \<Rightarrow> bool" where
  "deshred_inv S ds \<longleftrightarrow> hm_ok (dsh_slot_entry_offset ds) \<and> set (hm_keys (dsh_slot_entry_offset ds)) \<subseteq> S
     \<and> (\<forall>k. numbered (slot_obs ds k)
          \<and> (case hm_get (dsh_slot_entry_offset ds) k of Some b \<Rightarrow> b | None \<Rightarrow> 0) = of_nat (length (slot_obs ds k)))"

lemma obs_offer_facts:
  "ch_offered (dsh_obs_tx (obs_offer ob ds)) = ch_offered (dsh_obs_tx ds) @ [ob]"
  "dsh_slot_entry_offset (obs_offer ob ds) = dsh_slot_entry_offset ds"
  by (simp_all add: obs_offer_def count_drop_def try_send_def Let_def split: prod.splits)

lemma offer_all:
  "ch_offered (dsh_obs_tx (fold (\<lambda>(i, e). obs_offer (f i e)) xs ds)) = ch_offered (dsh_obs_tx ds) @ map (\<lambda>(i, e). f i e) xs"
  "dsh_slot_entry_offset (fold (\<lambda>(i, e). obs_offer (f i e)) xs ds) = dsh_slot_entry_offset ds"
  by (induction xs arbitrary: ds) (auto simp: obs_offer_facts)

lemma numbered_append:
  assumes "numbered xs" "map obs_entry_index ys = map (\<lambda>i. of_nat (length xs) + of_nat i) [0..<length ys]"
  shows "numbered (xs @ ys)"
proof -
  have "map of_nat [0..<length xs + length ys] =
      (map of_nat [0..<length xs] @ map (\<lambda>i. of_nat (length xs) + of_nat i) [0..<length ys] :: u32 list)"
    by (rule nth_equalityI) (auto simp: nth_append of_nat_add [symmetric] simp del: of_nat_add)
  then show ?thesis using assms by (simp add: numbered_def)
qed

lemma emit_entries_numbered:
  assumes "deshred_inv S ds" "fsr_slot r \<in> S"
  shows "deshred_inv S (emit_entries cfg r ds)"
proof (cases "dsc_deshred cfg (map shr_payload (fsr_data_shreds r))")
  case None
  then show ?thesis using assms by (simp add: emit_entries_def count_drop_def deshred_inv_def slot_obs_def)
next
  case (Some bytes)
  show ?thesis
  proof (cases "dsc_decode cfg bytes")
    case None
    then show ?thesis using Some assms by (simp add: emit_entries_def count_drop_def deshred_inv_def slot_obs_def)
  next
    case entries: (Some es)
    let ?b = "case hm_get (dsh_slot_entry_offset ds) (fsr_slot r) of Some b \<Rightarrow> b | None \<Rightarrow> 0"
    let ?new = "map (\<lambda>(i, e). obs_of_entry r (?b + of_nat i) e) (enumerate 0 es)"
    let ?ds = "emit_entries cfg r ds"
    have off: "dsh_slot_entry_offset ?ds = hm_insert (fsr_slot r) (?b + of_nat (length es)) (dsh_slot_entry_offset ds)"
      and tx: "ch_offered (dsh_obs_tx ?ds) = ch_offered (dsh_obs_tx ds) @ ?new"
      using Some entries by (simp_all add: emit_entries_def Let_def offer_all)
    have slots: "filter (\<lambda>ob. obs_slot ob = k) ?new = (if k = fsr_slot r then ?new else [])" for k
      by (auto simp: obs_of_entry_def filter_empty_conv filter_id_conv)
    have so: "slot_obs ?ds k = slot_obs ds k @ (if k = fsr_slot r then ?new else [])" for k
      unfolding slot_obs_def tx filter_append slots ..
    have idx: "map obs_entry_index ?new = map (\<lambda>i. ?b + of_nat i) [0..<length ?new]"
      by (rule nth_equalityI) (auto simp: obs_of_entry_def nth_enumerate_eq)
    from assms(1) have b: "?b = of_nat (length (slot_obs ds (fsr_slot r)))" by (simp add: deshred_inv_def)
    have "numbered (slot_obs ?ds k)" for k
      using numbered_append [of "slot_obs ds (fsr_slot r)" ?new] idx assms(1) unfolding so b
      by (cases "k = fsr_slot r") (auto simp: deshred_inv_def)
    moreover have "(case hm_get (dsh_slot_entry_offset ?ds) k of Some b \<Rightarrow> b | None \<Rightarrow> 0) = of_nat (length (slot_obs ?ds k))" for k
      using assms(1) b unfolding so off by (cases "k = fsr_slot r") (auto simp: deshred_inv_def)
    moreover have "hm_ok (dsh_slot_entry_offset ?ds)" "set (hm_keys (dsh_slot_entry_offset ?ds)) \<subseteq> S"
      using assms unfolding off by (simp_all add: deshred_inv_def set_hm_keys_insert)
    ultimately show ?thesis by (simp add: deshred_inv_def)
  qed
qed

lemma deshred_inv_cong:
  "dsh_slot_entry_offset ds' = dsh_slot_entry_offset ds \<Longrightarrow> dsh_obs_tx ds' = dsh_obs_tx ds \<Longrightarrow> deshred_inv S ds' = deshred_inv S ds"
  by (simp add: deshred_inv_def slot_obs_def)

lemma deshred_evict_numbered:
  assumes "deshred_inv S ds" "finite S" "card S \<le> 2048"
  shows "deshred_inv S (deshred_evict now ds)"
proof -
  have "length (dsh_slot_entry_offset ds) = card (set (hm_keys (dsh_slot_entry_offset ds)))"
    using assms(1) distinct_card [OF hm_distinct_keys, of "dsh_slot_entry_offset ds"] by (simp add: deshred_inv_def hm_keys_def)
  also have "\<dots> \<le> 2048" using assms card_mono [of S "set (hm_keys (dsh_slot_entry_offset ds))"] by (simp add: deshred_inv_def)
  finally show ?thesis using assms(1) deshred_inv_cong [of "deshred_evict now ds" ds S]
    by (simp add: deshred_evict_def Let_def)
qed

lemma ingest_slot: "fst (fec_ingest parse p now ft) = Some r \<Longrightarrow> \<exists>s. parse (rsh_bytes p) = Some s \<and> fsr_slot r = shr_slot s"
  by (auto simp: fec_ingest_def Let_def split: option.splits if_splits)

lemma deshred_step_numbered:
  assumes "deshred_inv S ds" "finite S" "card S \<le> 2048" "set (seen_slots cfg [x]) \<subseteq> S"
  shows "deshred_inv S (deshred_step cfg x ds)"
proof -
  obtain p c now where x: "x = (p, c, now)" by (cases x) auto
  obtain r ft where i: "fec_ingest (dsc_parse cfg) p c (dsh_tracker ds) = (r, ft)" by fastforce
  let ?ds1 = "ds\<lparr>dsh_tracker := ft\<rparr>"
  have one: "deshred_inv S (?ds1\<lparr>dsh_highest_slot := h\<rparr>)" "deshred_inv S ?ds1" for h
    using assms(1) deshred_inv_cong [of "?ds1\<lparr>dsh_highest_slot := h\<rparr>" ds S] deshred_inv_cong [of ?ds1 ds S] by simp_all
  have "deshred_inv S (emit_entries cfg q (?ds1\<lparr>dsh_highest_slot := h\<rparr>))" if "r = Some q" for q h
  proof (rule emit_entries_numbered [OF one(1)])
    show "fsr_slot q \<in> S" using ingest_slot [of "dsc_parse cfg" p c "dsh_tracker ds" q] i that assms(4)
      by (auto simp: seen_slots_def x)
  qed
  then show ?thesis using one(2) assms(2,3)
    by (auto simp: deshred_step_def x i Let_def intro: deshred_evict_numbered split: option.splits)
qed

text \<open>
  C30. The worker numbers the entries of every slot 0, 1, 2 and so on without a gap or a repetition, in the order in
  which the FEC sets of the slot are completed, whatever is lost, unreadable or refused by the full channel, as
  long as the offsets of no more than 2048 slots are held (beyond that the old ones are forgotten).
\<close>

theorem deshred_numbers_entries:
  assumes "card (set (seen_slots cfg xs)) \<le> 2048"
  shows "map obs_entry_index (slot_obs (deshred_run cfg xs (deshred_new now cap)) k) =
    map of_nat [0..<length (slot_obs (deshred_run cfg xs (deshred_new now cap)) k)]"
proof -
  have "deshred_inv (set (seen_slots cfg xs)) (deshred_run cfg ys (deshred_new now cap))" if "set (seen_slots cfg ys) \<subseteq> set (seen_slots cfg xs)" for ys
    using that
  proof (induction ys rule: rev_induct)
    case Nil
    then show ?case by (simp add: deshred_run_def deshred_inv_def deshred_new_def slot_obs_def numbered_def hm_keys_def)
  next
    case (snoc y ys)
    then show ?case using deshred_step_numbered [OF _ _ assms] by (simp add: deshred_run_def seen_slots_def)
  qed
  then show ?thesis by (simp add: deshred_inv_def numbered_def)
qed

text \<open>Two sets of one shred each, both with two entries, the later set first.\<close>

definition deshred_demo :: deshred_cfg where
  "deshred_demo = \<lparr>dsc_parse = (\<lambda>bytes. case bytes of [] \<Rightarrow> None
       | k # _ \<Rightarrow> Some \<lparr>shr_slot = 9, shr_fec_set_index = ucast k, shr_index = ucast k, shr_type = ShredData,
                shr_last_in_slot = False, shr_data_complete = True, shr_payload = [k]\<rparr>),
     dsc_deshred = (\<lambda>payloads. Some (concat payloads)),
     dsc_decode = (\<lambda>bytes. Some [\<lparr>len_num_hashes = 1, len_hash = 0, len_transactions = []\<rparr>,
       \<lparr>len_num_hashes = 2, len_hash = 0, len_transactions = []\<rparr>])\<rparr>"

definition deshred_demo_input :: "(raw_shred \<times> instant \<times> instant) list" where
  "deshred_demo_input = [(shred_packet 7 10, 11, 12), (shred_packet 3 20, 21, 22)]"

theorem deshred_numbers_entries_witness:
  "map obs_entry_index (slot_obs (deshred_run deshred_demo deshred_demo_input (deshred_new 0 None)) 9) = [0, 1, 2, 3]"
proof -
  have c: "card (set (seen_slots deshred_demo deshred_demo_input)) \<le> 2048"
    by (simp add: seen_slots_def deshred_demo_def deshred_demo_input_def shred_packet_def)
  have "length (slot_obs (deshred_run deshred_demo deshred_demo_input (deshred_new 0 None)) 9) = 4"
    by (simp add: deshred_run_def deshred_demo_input_def deshred_step_def shred_packet_def deshred_demo_def deshred_new_def
        fec_ingest_def fec_add_def fec_complete_def fec_set_default_def fec_tracker_new_def emit_entries_def deshred_evict_def
        obs_offer_def count_drop_def obs_of_entry_def try_send_def chan_new_def ch_room_def slot_obs_def hm_insert_def
        hm_get_def hm_delete_def AList.delete_eq since_def Let_def drop_counters_new_def first_sigs_def)
  then show ?thesis
    using deshred_numbers_entries [OF c, of 0 None 9] by (simp add: upt_rec)
qed

end
