(* ===== verification/CutoffPreflight.thy ===== *)
theory CutoffPreflight
  imports CutoffEngine
begin

text \<open>
  What the inclusion cut-off tool does before it measures (\<open>crates/tx-cutoff/src/preflight.rs\<close>, and the set-up of
  the engine in \<open>main.rs\<close>): the checks of the node and the wallets, the token approvals, one calibration swap per
  wallet, the projection of the cost and the question to the user.  A request is a body for one of the two
  endpoints; what the node answers, and how long it takes, are functions of all the requests made so far.
  The state keeps those requests and the transactions handed to the signer.  The contexts that an error
  collects on its way up are left out.
\<close>

section \<open>Requests\<close>

datatype http_end = ReadHttp | SendHttp

type_synonym http_log = "(http_end \<times> string) list"

datatype preflight_error =
    PfRpc rpc_error | PfJson string | PfField string | PfNumber string | PfBadAddress string | PfSign string | PfSwap swap_error
  | ChainMismatch u64 u64 | SlowRpc u64 | ZeroBalance string | ApproveRejected i64 string | SwapRejected i64 string
  | RevertedTx | ReceiptTimeout | NoTokens string | InsufficientEth "(string \<times> u256 \<times> u256) list" | StdinFailed | UserAborted

record preflight_ctx =
  px_cfg :: cut_config
  px_node :: "http_log \<Rightarrow> rpc_error + string"
  px_took :: "http_log \<Rightarrow> duration"
  px_parse :: "string \<Rightarrow> string + json"
  px_text_reply :: "string \<Rightarrow> string + string rpc_response"
  px_hash_reply :: "string \<Rightarrow> string + hash rpc_response"
  px_u256 :: "string \<Rightarrow> u256 option"
  px_address :: "string \<Rightarrow> string + eth_address"
  px_amount :: "string \<Rightarrow> string + u256"
  px_show_address :: "eth_address \<Rightarrow> string"
  px_show_hash :: "hash \<Rightarrow> string"
  px_allowance_call :: "eth_address \<Rightarrow> eth_address \<Rightarrow> u8 list"
  px_approve_call :: "eth_address \<Rightarrow> u256 \<Rightarrow> u8 list"
  px_balance_call :: "eth_address \<Rightarrow> u8 list"
  px_abi :: "exact_input_single \<Rightarrow> u8 list"
  px_sign :: "eth_address \<Rightarrow> cut_tx_params \<Rightarrow> string + (hash \<times> u8 list)"
  px_gwei :: "real \<Rightarrow> u128"
  px_scale :: "u128 \<Rightarrow> real \<Rightarrow> u128"
  px_margin :: "u64 \<Rightarrow> u64"
  px_answer :: "string option"

record preflight =
  pf_calls :: http_log
  pf_wallets :: "cut_wallet list"
  pf_txs :: "(nat \<times> cut_tx_params) list"

definition preflight_new :: "cut_wallet list \<Rightarrow> preflight" where
  "preflight_new wallets = \<lparr>pf_calls = [], pf_wallets = wallets, pf_txs = []\<rparr>"

text \<open>The \<open>?\<close> of the code: go on with the value, or return the error; the state is kept either way.\<close>

type_synonym 'a pf_result = "(preflight_error + 'a) \<times> preflight"

definition pf_bind :: "'a pf_result \<Rightarrow> ('a \<Rightarrow> preflight \<Rightarrow> 'b pf_result) \<Rightarrow> 'b pf_result" where
  "pf_bind r f = (case r of (Inl e, pf) \<Rightarrow> (Inl e, pf) | (Inr a, pf) \<Rightarrow> f a pf)"

primrec pf_each :: "('b \<Rightarrow> preflight \<Rightarrow> 'a pf_result) \<Rightarrow> 'b list \<Rightarrow> preflight \<Rightarrow> 'a list pf_result" where
  "pf_each f [] pf = (Inr [], pf)"
| "pf_each f (x # xs) pf = pf_bind (f x pf) (\<lambda>a pf. pf_bind (pf_each f xs pf) (\<lambda>as pf. (Inr (a # as), pf)))"

definition call_payload :: "string \<Rightarrow> string \<Rightarrow> string" where
  \<open>call_payload method params = ''{"jsonrpc":"2.0","id":1,"method":"'' @ method @ ''","params":['' @ params @ '']}''\<close>

definition http_call :: "preflight_ctx \<Rightarrow> http_end \<Rightarrow> string \<Rightarrow> preflight \<Rightarrow> (rpc_error + string) \<times> preflight" where
  "http_call cx ep payload pf = (let calls = pf_calls pf @ [(ep, payload)] in (px_node cx calls, pf\<lparr>pf_calls := calls\<rparr>))"

definition rpc_ask :: "preflight_ctx \<Rightarrow> http_end \<Rightarrow> string \<Rightarrow> (rpc_error + string \<Rightarrow> rpc_error + 'a) \<Rightarrow> preflight \<Rightarrow> 'a pf_result" where
  "rpc_ask cx ep payload decode pf = (let (reply, pf1) = http_call cx ep payload pf in
     ((case decode reply of Inl e \<Rightarrow> Inl (PfRpc e) | Inr a \<Rightarrow> Inr a), pf1))"

definition quoted :: "string \<Rightarrow> string" where
  \<open>quoted s = ''"'' @ s @ ''"''\<close>

definition ask_chain_id :: "preflight_ctx \<Rightarrow> preflight \<Rightarrow> u64 pf_result" where
  "ask_chain_id cx = rpc_ask cx ReadHttp (call_payload ''eth_chainId'' []) (eth_chain_id (px_text_reply cx))"

definition ask_block_number :: "preflight_ctx \<Rightarrow> preflight \<Rightarrow> u64 pf_result" where
  "ask_block_number cx = rpc_ask cx ReadHttp (call_payload ''eth_blockNumber'' []) (eth_block_number (px_text_reply cx))"

definition balance_payload :: "preflight_ctx \<Rightarrow> eth_address \<Rightarrow> string" where
  \<open>balance_payload cx addr = call_payload ''eth_getBalance'' (quoted (px_show_address cx addr) @ '',"latest"'')\<close>

definition ask_balance :: "preflight_ctx \<Rightarrow> eth_address \<Rightarrow> preflight \<Rightarrow> u256 pf_result" where
  "ask_balance cx addr = rpc_ask cx ReadHttp (balance_payload cx addr) (eth_get_balance (px_text_reply cx) (px_u256 cx))"

definition ask_nonce :: "preflight_ctx \<Rightarrow> eth_address \<Rightarrow> preflight \<Rightarrow> u64 pf_result" where
  \<open>ask_nonce cx addr = rpc_ask cx ReadHttp (call_payload ''eth_getTransactionCount'' (quoted (px_show_address cx addr) @ '',"pending"''))
     (eth_get_transaction_count (px_text_reply cx))\<close>

definition ask_base_fee :: "preflight_ctx \<Rightarrow> preflight \<Rightarrow> u128 pf_result" where
  \<open>ask_base_fee cx = rpc_ask cx ReadHttp (call_payload ''eth_getBlockByNumber'' ''"latest",false'') (latest_base_fee (px_parse cx))\<close>

text \<open>\<open>eth_call\<close> on a contract, with the number it returns.\<close>

definition eth_call_payload :: "preflight_ctx \<Rightarrow> eth_address \<Rightarrow> u8 list \<Rightarrow> string" where
  \<open>eth_call_payload cx to data = call_payload ''eth_call''
     (''{"to":'' @ quoted (px_show_address cx to) @ '',"data":'' @ quoted (hex_0x data) @ ''},"latest"'')\<close>

definition call_u256 :: "preflight_ctx \<Rightarrow> string \<Rightarrow> eth_address \<Rightarrow> u8 list \<Rightarrow> preflight \<Rightarrow> u256 pf_result" where
  "call_u256 cx what to data pf = (let (reply, pf1) = http_call cx ReadHttp (eth_call_payload cx to data) pf in
     ((case reply of
         Inl e \<Rightarrow> Inl (PfRpc e)
       | Inr text \<Rightarrow> (case px_parse cx text of
           Inl e \<Rightarrow> Inl (PfJson e)
         | Inr v \<Rightarrow> (case json_str (json_index ''result'' v) of
             None \<Rightarrow> Inl (PfField what)
           | Some hex \<Rightarrow> (case px_u256 cx (trim_0x hex) of None \<Rightarrow> Inl (PfNumber what) | Some n \<Rightarrow> Inr n)))), pf1))"

definition erc20_balance :: "preflight_ctx \<Rightarrow> eth_address \<Rightarrow> eth_address \<Rightarrow> preflight \<Rightarrow> u256 pf_result" where
  "erc20_balance cx token owner = call_u256 cx ''balanceOf'' token (px_balance_call cx owner)"

section \<open>Receipts\<close>

fun json_is_object :: "json \<Rightarrow> bool" where
  "json_is_object (JObj fs) = True"
| "json_is_object _ = False"

definition receipt_outcome :: "json \<Rightarrow> preflight_error + u64" where
  "receipt_outcome v = (case json_str (json_index ''gasUsed'' (json_index ''result'' v)) of
     None \<Rightarrow> Inl (PfField ''gasUsed'')
   | Some hex \<Rightarrow> (case from_hex (2 ^ 64) (trim_0x hex) of
       None \<Rightarrow> Inl (PfNumber ''gasUsed'')
     | Some gu \<Rightarrow>
         (let status = (case json_str (json_index ''status'' (json_index ''result'' v)) of Some s \<Rightarrow> s | None \<Rightarrow> ''0x0'')
          in if status = ''0x0'' then Inl RevertedTx else Inr (of_nat gu))))"

text \<open>The poll under its timeout: a request or a pause that is under way when the 60 s are over is cut off.\<close>

definition RECEIPT_TIMEOUT :: duration where
  "RECEIPT_TIMEOUT = 60000000000"

function receipt_loop :: "preflight_ctx \<Rightarrow> string \<Rightarrow> duration \<Rightarrow> preflight \<Rightarrow> u64 pf_result" where
  "receipt_loop cx payload elapsed pf =
     (let (reply, pf1) = http_call cx ReadHttp payload pf;
          answered = elapsed + px_took cx (pf_calls pf1)
      in if answered \<ge> RECEIPT_TIMEOUT then (Inl ReceiptTimeout, pf1)
         else (case reply of
             Inl e \<Rightarrow> (Inl (PfRpc e), pf1)
           | Inr text \<Rightarrow> (case px_parse cx text of
               Inl e \<Rightarrow> (Inl (PfJson e), pf1)
             | Inr v \<Rightarrow>
                 if json_is_object (json_index ''result'' v) then (receipt_outcome v, pf1)
                 else if answered + 500000000 \<ge> RECEIPT_TIMEOUT then (Inl ReceiptTimeout, pf1)
                 else receipt_loop cx payload (answered + 500000000) pf1)))"
  by pat_completeness auto
termination
  by (relation "measure (\<lambda>(cx, payload, elapsed, pf). RECEIPT_TIMEOUT - elapsed)") auto

declare receipt_loop.simps [simp del]

definition wait_for_receipt :: "preflight_ctx \<Rightarrow> hash \<Rightarrow> preflight \<Rightarrow> u64 pf_result" where
  "wait_for_receipt cx tx_hash pf =
     receipt_loop cx (call_payload ''eth_getTransactionReceipt'' (quoted (px_show_hash cx tx_hash))) 0 pf"

section \<open>Transactions\<close>

definition pf_fees :: "preflight_ctx \<Rightarrow> u128 \<Rightarrow> u128 \<times> u128" where
  "pf_fees cx base_fee = (let tip = px_gwei cx (ga_max_priority_fee_gwei (cg_gas (px_cfg cx)))
     in (tip, px_scale cx base_fee (ga_max_fee_multiplier (cg_gas (px_cfg cx))) + tip))"

text \<open>Consume a nonce, sign, send and take the hash the node returns; a rejection is an error.\<close>

definition sign_and_send :: "preflight_ctx \<Rightarrow> nat \<Rightarrow> eth_address \<Rightarrow> u8 list \<Rightarrow> u64 \<Rightarrow> u128 \<Rightarrow> (i64 \<Rightarrow> string \<Rightarrow> preflight_error) \<Rightarrow>
    preflight \<Rightarrow> hash pf_result" where
  "sign_and_send cx i to data gas_limit base_fee rejected pf =
     (let w = pf_wallets pf ! i; (tip, fee) = pf_fees cx base_fee; (nonce, w1) = consume_nonce w;
          params = \<lparr>xp_chain_id = ch_chain_id (cg_chain (px_cfg cx)), xp_nonce = nonce, xp_to = to, xp_value = 0, xp_data = data,
            xp_gas_limit = gas_limit, xp_max_priority_fee_per_gas = tip, xp_max_fee_per_gas = fee\<rparr>;
          pf1 = pf\<lparr>pf_wallets := (pf_wallets pf)[i := w1], pf_txs := pf_txs pf @ [(i, params)]\<rparr>
      in case px_sign cx (cw_address w) params of
           Inl e \<Rightarrow> (Inl (PfSign e), pf1)
         | Inr (tx_hash, raw) \<Rightarrow>
             pf_bind (rpc_ask cx SendHttp (build_send_payload 1 (hex_0x raw)) (send_raw_outcome (px_hash_reply cx)) pf1)
               (\<lambda>outcome pf. case outcome of TxAccepted h \<Rightarrow> (Inr h, pf) | TxRejected code message \<Rightarrow> (Inl (rejected code message), pf)))"

definition address_of :: "preflight_ctx \<Rightarrow> string \<Rightarrow> preflight_error + eth_address" where
  "address_of cx s = (case px_address cx s of Inl e \<Rightarrow> Inl (PfBadAddress e) | Inr a \<Rightarrow> Inr a)"

definition ALLOWANCE_THRESHOLD :: u256 where
  "ALLOWANCE_THRESHOLD = (- 1) div 2"

definition approve_token :: "preflight_ctx \<Rightarrow> eth_address \<Rightarrow> nat \<Rightarrow> eth_address \<Rightarrow> preflight \<Rightarrow> unit pf_result" where
  "approve_token cx router i token pf =
     pf_bind (call_u256 cx ''allowance'' token (px_allowance_call cx (cw_address (pf_wallets pf ! i)) router) pf) (\<lambda>allowance pf.
       if allowance \<ge> ALLOWANCE_THRESHOLD then (Inr (), pf)
       else pf_bind (ask_base_fee cx pf) (\<lambda>base_fee pf.
         pf_bind (sign_and_send cx i token (px_approve_call cx router (- 1)) 80000 base_fee ApproveRejected pf) (\<lambda>tx_hash pf.
           pf_bind (wait_for_receipt cx tx_hash pf) (\<lambda>gas_used pf. (Inr (), pf)))))"

definition approve_tokens_if_needed :: "preflight_ctx \<Rightarrow> preflight \<Rightarrow> unit pf_result" where
  "approve_tokens_if_needed cx pf =
     pf_bind (address_of cx (sw_router_address (cg_swap (px_cfg cx))), pf) (\<lambda>router pf.
       pf_bind (address_of cx (sw_token_a (cg_swap (px_cfg cx))), pf) (\<lambda>token_a pf.
         pf_bind (address_of cx (sw_token_b (cg_swap (px_cfg cx))), pf) (\<lambda>token_b pf.
           pf_bind (pf_each (\<lambda>i. pf_each (approve_token cx router i) [token_a, token_b]) [0..<length (pf_wallets pf)] pf)
             (\<lambda>_ pf. (Inr (), pf)))))"

definition amount_of :: "preflight_ctx \<Rightarrow> string \<Rightarrow> preflight_error + u256" where
  "amount_of cx s = (case px_amount cx s of Inl e \<Rightarrow> Inl (PfNumber e) | Inr n \<Rightarrow> Inr n)"

definition encoder_of :: "preflight_ctx \<Rightarrow> eth_address \<Rightarrow> preflight_error + swap_encoder" where
  "encoder_of cx recipient = (case swap_encoder_new (px_address cx) (px_amount cx) (cg_swap (px_cfg cx)) recipient of
     Inl e \<Rightarrow> Inl (PfSwap e) | Inr se \<Rightarrow> Inr se)"

definition perform_calibration_swap :: "preflight_ctx \<Rightarrow> nat \<Rightarrow> eth_address \<Rightarrow> u128 \<Rightarrow> preflight \<Rightarrow> u64 pf_result" where
  "perform_calibration_swap cx i router base_fee pf = (let sw = cg_swap (px_cfg cx); owner = cw_address (pf_wallets pf ! i) in
     pf_bind (encoder_of cx owner, pf) (\<lambda>encoder pf.
       pf_bind (address_of cx (sw_token_a sw), pf) (\<lambda>token_a pf.
         pf_bind (address_of cx (sw_token_b sw), pf) (\<lambda>token_b pf.
           pf_bind (erc20_balance cx token_a owner pf) (\<lambda>bal_a pf.
             pf_bind (erc20_balance cx token_b owner pf) (\<lambda>bal_b pf.
               pf_bind (amount_of cx (sw_amount_in_a sw), pf) (\<lambda>amount_in_a pf.
                 pf_bind (amount_of cx (sw_amount_in_b sw), pf) (\<lambda>amount_in_b pf.
                   case initialize_with_amounts bal_a amount_in_a bal_b amount_in_b of
                     None \<Rightarrow> (Inl (NoTokens (cw_label (pf_wallets pf ! i))), pf)
                   | Some st \<Rightarrow>
                       pf_bind (sign_and_send cx i router (px_abi cx (swap_params encoder (current_direction st))) 250000 base_fee SwapRejected pf)
                         (\<lambda>tx_hash pf. wait_for_receipt cx tx_hash pf)))))))))"

section \<open>The cost\<close>

record wallet_gas =
  wg_label :: string
  wg_gas_used :: u64

record cost_projection =
  cp_per_wallet_realistic_wei :: "u256 list"
  cp_per_wallet_worst_wei :: "u256 list"
  cp_total_realistic_wei :: u256
  cp_total_worst_wei :: u256

definition wallet_cost :: "u64 \<Rightarrow> u128 \<Rightarrow> wallet_gas \<Rightarrow> u256" where
  "wallet_cost tx_per_wallet price w = ucast (wg_gas_used w) * ucast price * ucast tx_per_wallet"

definition project_cost :: "(u128 \<Rightarrow> real \<Rightarrow> u128) \<Rightarrow> wallet_gas list \<Rightarrow> u128 \<Rightarrow> u128 \<Rightarrow> real \<Rightarrow> u64 \<Rightarrow> cost_projection" where
  "project_cost scale wallets_gas base_fee_wei tip_wei multiplier tx_per_wallet =
     (let effective_worst = scale base_fee_wei multiplier + tip_wei; effective_realistic = base_fee_wei + tip_wei;
          realistic = map (wallet_cost tx_per_wallet effective_realistic) wallets_gas;
          worst = map (wallet_cost tx_per_wallet effective_worst) wallets_gas
      in \<lparr>cp_per_wallet_realistic_wei = realistic, cp_per_wallet_worst_wei = worst,
          cp_total_realistic_wei = sum_list realistic, cp_total_worst_wei = sum_list worst\<rparr>)"

section \<open>The run\<close>

record preflight_outcome =
  po_gas_limits :: "(string \<times> u64) list"
  po_wallet_initial_nonces :: "(string \<times> u64) list"
  po_base_fee_wei :: u128

primrec rtt_samples :: "preflight_ctx \<Rightarrow> nat \<Rightarrow> preflight \<Rightarrow> u64 list pf_result" where
  "rtt_samples cx 0 pf = (Inr [], pf)"
| "rtt_samples cx (Suc n) pf = pf_bind (ask_block_number cx pf) (\<lambda>_ pf1.
     pf_bind (rtt_samples cx n pf1) (\<lambda>rs pf. (Inr (trunc_u64 (px_took cx (pf_calls pf1) div 1000000) # rs), pf)))"

definition rpc_sanity :: "preflight_ctx \<Rightarrow> preflight \<Rightarrow> unit pf_result" where
  "rpc_sanity cx pf = pf_bind (ask_chain_id cx pf) (\<lambda>chain_id pf.
     if chain_id \<noteq> ch_chain_id (cg_chain (px_cfg cx)) then (Inl (ChainMismatch (ch_chain_id (cg_chain (px_cfg cx))) chain_id), pf)
     else pf_bind (rtt_samples cx 3 pf) (\<lambda>samples pf.
       let rtt_p50 = sort samples ! 1 in if rtt_p50 > 200 then (Inl (SlowRpc rtt_p50), pf) else (Inr (), pf)))"

definition load_wallet :: "preflight_ctx \<Rightarrow> nat \<Rightarrow> preflight \<Rightarrow> (string \<times> u64) pf_result" where
  "load_wallet cx i pf = (let w = pf_wallets pf ! i in
     pf_bind (ask_balance cx (cw_address w) pf) (\<lambda>bal pf.
       if bal = 0 then (Inl (ZeroBalance (cw_label w)), pf)
       else pf_bind (ask_nonce cx (cw_address w) pf) (\<lambda>nonce pf.
         (Inr (cw_label w, nonce), pf\<lparr>pf_wallets := (pf_wallets pf)[i := set_nonce nonce (pf_wallets pf ! i)]\<rparr>))))"

definition calibrate_wallet :: "preflight_ctx \<Rightarrow> eth_address \<Rightarrow> u128 \<Rightarrow> nat \<Rightarrow> preflight \<Rightarrow> (string \<times> u64) pf_result" where
  "calibrate_wallet cx router base_fee i pf = pf_bind (perform_calibration_swap cx i router base_fee pf) (\<lambda>gas_used pf.
     (Inr (cw_label (pf_wallets pf ! i), px_margin cx gas_used), pf))"

text \<open>The balances against the worst case: the wallets that fall short, with what they have and need.\<close>

definition check_balance :: "preflight_ctx \<Rightarrow> cost_projection \<Rightarrow> nat \<Rightarrow> preflight \<Rightarrow> (string \<times> u256 \<times> u256) list pf_result" where
  "check_balance cx projection i pf = (let w = pf_wallets pf ! i in
     pf_bind (ask_balance cx (cw_address w) pf) (\<lambda>bal pf.
       (Inr (if bal < cp_per_wallet_worst_wei projection ! i then [(cw_label w, bal, cp_per_wallet_worst_wei projection ! i)] else []), pf)))"

definition ascii_space :: "char \<Rightarrow> bool" where
  "ascii_space c = (let n = of_char c :: nat in n = 32 \<or> (9 \<le> n \<and> n \<le> 13))"

definition str_trim :: "string \<Rightarrow> string" where
  "str_trim s = rev (dropWhile ascii_space (rev (dropWhile ascii_space s)))"

definition ascii_lower :: "char \<Rightarrow> char" where
  "ascii_lower c = (let n = of_char c :: nat in if 65 \<le> n \<and> n \<le> 90 then char_of (n + 32) else c)"

definition user_agrees :: "string \<Rightarrow> bool" where
  "user_agrees input = (let answer = map ascii_lower (str_trim input) in answer = ''y'' \<or> answer = ''yes'')"

definition pf_prompt :: "preflight_ctx \<Rightarrow> bool \<Rightarrow> preflight_error + unit" where
  "pf_prompt cx skip_prompt = (if skip_prompt then Inr () else (case px_answer cx of
     None \<Rightarrow> Inl StdinFailed | Some input \<Rightarrow> if user_agrees input then Inr () else Inl UserAborted))"

definition pf_tx_per_wallet :: "cut_config \<Rightarrow> u64" where
  "pf_tx_per_wallet cfg = (let t = cg_timing cfg; slots_count = (cs_end_ms t - cs_start_ms t) div cs_step_ms t + 1
     in slots_count * cs_samples t)"

definition gas_of_limits :: "(string \<times> u64) list \<Rightarrow> wallet_gas list" where
  "gas_of_limits gas_limits = map (\<lambda>(l, g). \<lparr>wg_label = l, wg_gas_used = g\<rparr>) gas_limits"

definition pf_projection :: "preflight_ctx \<Rightarrow> (string \<times> u64) list \<Rightarrow> u128 \<Rightarrow> cost_projection" where
  "pf_projection cx gas_limits base_fee = project_cost (px_scale cx) (gas_of_limits gas_limits) base_fee
     (px_gwei cx (ga_max_priority_fee_gwei (cg_gas (px_cfg cx)))) (ga_max_fee_multiplier (cg_gas (px_cfg cx))) (pf_tx_per_wallet (px_cfg cx))"

text \<open>Steps 5 and 6: the projection, the balances, the question.\<close>

definition pf_confirm :: "preflight_ctx \<Rightarrow> bool \<Rightarrow> (string \<times> u64) list \<Rightarrow> u128 \<Rightarrow> preflight \<Rightarrow> unit pf_result" where
  "pf_confirm cx skip_prompt gas_limits base_fee pf =
     pf_bind (pf_each (check_balance cx (pf_projection cx gas_limits base_fee)) [0..<length (pf_wallets pf)] pf) (\<lambda>short pf.
       if concat short \<noteq> [] then (Inl (InsufficientEth (concat short)), pf) else (pf_prompt cx skip_prompt, pf))"

definition preflight_run :: "preflight_ctx \<Rightarrow> bool \<Rightarrow> preflight \<Rightarrow> preflight_outcome pf_result" where
  "preflight_run cx skip_prompt pf =
     pf_bind (rpc_sanity cx pf) (\<lambda>_ pf.
       pf_bind (pf_each (load_wallet cx) [0..<length (pf_wallets pf)] pf) (\<lambda>initial_nonces pf.
         pf_bind (approve_tokens_if_needed cx pf) (\<lambda>_ pf.
           pf_bind (ask_base_fee cx pf) (\<lambda>base_fee pf.
             pf_bind (address_of cx (sw_router_address (cg_swap (px_cfg cx))), pf) (\<lambda>router pf.
               pf_bind (pf_each (calibrate_wallet cx router base_fee) [0..<length (pf_wallets pf)] pf) (\<lambda>gas_limits pf.
                 pf_bind (pf_confirm cx skip_prompt gas_limits base_fee pf) (\<lambda>_ pf.
                   (Inr \<lparr>po_gas_limits = gas_limits, po_wallet_initial_nonces = initial_nonces, po_base_fee_wei = base_fee\<rparr>, pf))))))))"

section \<open>The set-up of the engine\<close>

definition wallet_encoder :: "preflight_ctx \<Rightarrow> eth_address \<Rightarrow> eth_address \<Rightarrow> u256 \<Rightarrow> u256 \<Rightarrow> nat \<Rightarrow> preflight \<Rightarrow>
    (string \<times> swap_encoder \<times> ping_pong) pf_result" where
  "wallet_encoder cx token_a token_b amount_in_a amount_in_b i pf = (let w = pf_wallets pf ! i in
     pf_bind (encoder_of cx (cw_address w), pf) (\<lambda>enc pf.
       pf_bind (erc20_balance cx token_a (cw_address w) pf) (\<lambda>bal_a pf.
         pf_bind (erc20_balance cx token_b (cw_address w) pf) (\<lambda>bal_b pf.
           case initialize_with_amounts bal_a amount_in_a bal_b amount_in_b of
             None \<Rightarrow> (Inl (NoTokens (cw_label w)), pf)
           | Some st \<Rightarrow> (Inr (cw_label w, enc, st), pf)))))"

definition wallet_encoders :: "preflight_ctx \<Rightarrow> preflight \<Rightarrow> (string \<times> swap_encoder \<times> ping_pong) list pf_result" where
  "wallet_encoders cx pf = (let sw = cg_swap (px_cfg cx) in
     pf_bind (address_of cx (sw_token_a sw), pf) (\<lambda>token_a pf.
       pf_bind (address_of cx (sw_token_b sw), pf) (\<lambda>token_b pf.
         pf_bind (amount_of cx (sw_amount_in_a sw), pf) (\<lambda>amount_in_a pf.
           pf_bind (amount_of cx (sw_amount_in_b sw), pf) (\<lambda>amount_in_b pf.
             pf_each (wallet_encoder cx token_a token_b amount_in_a amount_in_b) [0..<length (pf_wallets pf)] pf)))))"

end
