(* ===== verification/CutoffPreflightRun.thy ===== *)
theory CutoffPreflightRun
  imports CutoffPreflight "HOL-Library.Sublist"
begin

text \<open>
  What a pre-flight that succeeds guarantees: the nonces of the wallets follow those they have used, every wallet
  can pay the worst case of the projection, and no wait for a receipt exceeds its time.
\<close>

declare split_paired_All [simp del] split_paired_Ex [simp del]

section \<open>Nonces\<close>

definition nonces_of :: "nat \<Rightarrow> (nat \<times> cut_tx_params) list \<Rightarrow> u64 list" where
  "nonces_of i txs = map (\<lambda>x. xp_nonce (snd x)) (filter (\<lambda>x. fst x = i) txs)"

definition count_up :: "u64 \<Rightarrow> nat \<Rightarrow> u64 list" where
  "count_up n k = map (\<lambda>j. n + of_nat j) [0..<k]"

text \<open>\<open>pf'\<close> comes after \<open>pf\<close>: each wallet has handed consecutive nonces to the signer, from its own on.\<close>

definition pf_follows :: "preflight \<Rightarrow> preflight \<Rightarrow> bool" where
  "pf_follows pf pf' \<longleftrightarrow> (\<exists>new. pf_txs pf' = pf_txs pf @ new \<and> length (pf_wallets pf') = length (pf_wallets pf)
     \<and> (\<forall>i < length (pf_wallets pf). cw_address (pf_wallets pf' ! i) = cw_address (pf_wallets pf ! i)
          \<and> cw_label (pf_wallets pf' ! i) = cw_label (pf_wallets pf ! i)
          \<and> nonces_of i new = count_up (cw_nonce (pf_wallets pf ! i)) (length (nonces_of i new))
          \<and> cw_nonce (pf_wallets pf' ! i) = cw_nonce (pf_wallets pf ! i) + of_nat (length (nonces_of i new))))"

lemma nonces_of_append: "nonces_of i (xs @ ys) = nonces_of i xs @ nonces_of i ys"
  by (simp add: nonces_of_def)

lemma nonces_of_Nil [simp]: "nonces_of i [] = []"
  by (simp add: nonces_of_def)

lemma count_up_add: "count_up n (j + k) = count_up n j @ count_up (n + of_nat j) k"
  by (rule nth_equalityI) (auto simp: count_up_def nth_append of_nat_diff)

lemma length_count_up [simp]: "length (count_up n k) = k"
  by (simp add: count_up_def)

lemma pf_follows_refl [simp]: "pf_follows pf pf"
  by (simp add: pf_follows_def count_up_def)

lemma pf_follows_trans:
  assumes "pf_follows p q" "pf_follows q r"
  shows "pf_follows p r"
proof -
  obtain a where a: "pf_txs q = pf_txs p @ a" "length (pf_wallets q) = length (pf_wallets p)"
      "\<And>i. i < length (pf_wallets p) \<Longrightarrow> cw_address (pf_wallets q ! i) = cw_address (pf_wallets p ! i)
        \<and> cw_label (pf_wallets q ! i) = cw_label (pf_wallets p ! i)
        \<and> nonces_of i a = count_up (cw_nonce (pf_wallets p ! i)) (length (nonces_of i a))
        \<and> cw_nonce (pf_wallets q ! i) = cw_nonce (pf_wallets p ! i) + of_nat (length (nonces_of i a))"
    using assms(1) unfolding pf_follows_def by blast
  obtain b where b: "pf_txs r = pf_txs q @ b" "length (pf_wallets r) = length (pf_wallets q)"
      "\<And>i. i < length (pf_wallets q) \<Longrightarrow> cw_address (pf_wallets r ! i) = cw_address (pf_wallets q ! i)
        \<and> cw_label (pf_wallets r ! i) = cw_label (pf_wallets q ! i)
        \<and> nonces_of i b = count_up (cw_nonce (pf_wallets q ! i)) (length (nonces_of i b))
        \<and> cw_nonce (pf_wallets r ! i) = cw_nonce (pf_wallets q ! i) + of_nat (length (nonces_of i b))"
    using assms(2) unfolding pf_follows_def by blast
  have "nonces_of i (a @ b) = count_up (cw_nonce (pf_wallets p ! i)) (length (nonces_of i (a @ b)))
      \<and> cw_nonce (pf_wallets r ! i) = cw_nonce (pf_wallets p ! i) + of_nat (length (nonces_of i (a @ b)))"
    if "i < length (pf_wallets p)" for i
  proof
    have x: "nonces_of i a = count_up (cw_nonce (pf_wallets p ! i)) (length (nonces_of i a))"
      and y: "nonces_of i b = count_up (cw_nonce (pf_wallets q ! i)) (length (nonces_of i b))"
      and z: "cw_nonce (pf_wallets q ! i) = cw_nonce (pf_wallets p ! i) + of_nat (length (nonces_of i a))"
      using a(2) a(3) [OF that] b(3) [of i] that by simp_all
    show "nonces_of i (a @ b) = count_up (cw_nonce (pf_wallets p ! i)) (length (nonces_of i (a @ b)))"
      unfolding nonces_of_append length_append count_up_add z [symmetric] by (rule arg_cong2 [where f = "(@)", OF x y])
    show "cw_nonce (pf_wallets r ! i) = cw_nonce (pf_wallets p ! i) + of_nat (length (nonces_of i (a @ b)))"
      using a(2) b(3) [of i] that z by (simp add: nonces_of_append)
  qed
  then show ?thesis using a b unfolding pf_follows_def by (intro exI [of _ "a @ b"]) simp
qed

lemma pf_follows_calls: "pf_follows p pf \<Longrightarrow> pf_follows p (pf\<lparr>pf_calls := c\<rparr>)"
  by (simp add: pf_follows_def)

lemma pf_follows_bind:
  assumes "pf_follows p (snd r)" "\<And>a q. r = (Inr a, q) \<Longrightarrow> pf_follows p q \<Longrightarrow> pf_follows p (snd (f a q))"
  shows "pf_follows p (snd (pf_bind r f))"
  using assms by (cases r) (auto simp: pf_bind_def split: sum.splits)

lemma pf_follows_each:
  assumes "\<And>x q. pf_follows p q \<Longrightarrow> pf_follows p (snd (f x q))"
  shows "pf_follows p pf \<Longrightarrow> pf_follows p (snd (pf_each f xs pf))"
proof (induction xs arbitrary: pf)
  case (Cons x xs)
  have step: "pf_follows p (snd (pf_each f xs q))" if "pf_follows p q" for q using Cons.IH that .
  show ?case unfolding pf_each.simps
    by (intro pf_follows_bind assms Cons.prems step) simp_all
qed simp

lemma pf_follows_http: "pf_follows p pf \<Longrightarrow> pf_follows p (snd (http_call cx ep payload pf))"
  by (simp add: http_call_def Let_def pf_follows_calls)

lemma pf_follows_ask:
  "pf_follows p pf \<Longrightarrow> pf_follows p (snd (rpc_ask cx ep payload decode pf))"
  "pf_follows p pf \<Longrightarrow> pf_follows p (snd (call_u256 cx what to data pf))"
  using pf_follows_http [of p pf cx ep payload] pf_follows_http [of p pf cx ReadHttp "eth_call_payload cx to data"]
  by (simp_all add: rpc_ask_def call_u256_def case_prod_unfold Let_def)

lemma pf_follows_send:
  assumes "pf_follows p pf"
  shows "pf_follows p (snd (sign_and_send cx i to data gas_limit base_fee rejected pf))"
proof -
  obtain params w1 where e: "xp_nonce params = cw_nonce (pf_wallets pf ! i)" "w1 = snd (consume_nonce (pf_wallets pf ! i))"
    and s: "snd (sign_and_send cx i to data gas_limit base_fee rejected pf) \<in>
      (let pf1 = pf\<lparr>pf_wallets := (pf_wallets pf)[i := w1], pf_txs := pf_txs pf @ [(i, params)]\<rparr> in {pf1} \<union> range (\<lambda>c. pf1\<lparr>pf_calls := c\<rparr>))"
    by (rule that) (auto simp: sign_and_send_def Let_def consume_nonce_def pf_bind_def rpc_ask_def http_call_def pf_fees_def
        split: prod.splits sum.splits cut_send_outcome.splits)
  have "pf_follows pf (pf\<lparr>pf_wallets := (pf_wallets pf)[i := w1], pf_txs := pf_txs pf @ [(i, params)]\<rparr>)"
    unfolding pf_follows_def
    by (rule exI [of _ "[(i, params)]"]) (auto simp: e nonces_of_def count_up_def nth_list_update consume_nonce_def)
  from pf_follows_trans [OF assms this] s show ?thesis by (auto simp: Let_def intro: pf_follows_calls)
qed

lemma pf_follows_receipt: "pf_follows p pf \<Longrightarrow> pf_follows p (snd (receipt_loop cx payload elapsed pf))"
proof (induction cx payload elapsed pf rule: receipt_loop.induct)
  case (1 cx payload elapsed pf)
  obtain reply pf1 where h: "http_call cx ReadHttp payload pf = (reply, pf1)" by fastforce
  with 1(2) have "pf_follows p pf1" using pf_follows_http [of p pf cx ReadHttp payload] by simp
  then show ?case using 1(1) [OF h [symmetric] refl] h
    by (subst receipt_loop.simps) (auto simp: Let_def split: sum.splits)
qed

lemma pf_follows_try: "pf_follows p pf \<Longrightarrow> pf_follows p (snd (x, pf))"
  by simp

lemmas pf_follows_intros = pf_follows_bind pf_follows_try pf_follows_ask pf_follows_send pf_follows_receipt pf_follows_each


lemma pf_follows_cond: "(c \<Longrightarrow> pf_follows p (snd x)) \<Longrightarrow> (\<not> c \<Longrightarrow> pf_follows p (snd y)) \<Longrightarrow> pf_follows p (snd (if c then x else y))"
  by simp

lemma pf_follows_approve: "pf_follows p pf \<Longrightarrow> pf_follows p (snd (approve_token cx router i token pf))"
  unfolding approve_token_def ask_base_fee_def wait_for_receipt_def by (intro pf_follows_intros pf_follows_cond) assumption+

lemma pf_follows_approvals: "pf_follows p pf \<Longrightarrow> pf_follows p (snd (approve_tokens_if_needed cx pf))"
  unfolding approve_tokens_if_needed_def by (intro pf_follows_intros pf_follows_approve) assumption+

lemma pf_follows_calibrate: "pf_follows p pf \<Longrightarrow> pf_follows p (snd (calibrate_wallet cx router base_fee i pf))"
proof -
  assume a: "pf_follows p pf"
  have init: "pf_follows p (snd (case z of None \<Rightarrow> (Inl e, q) | Some st \<Rightarrow> f st q))"
    if "pf_follows p q" "\<And>st. pf_follows p (snd (f st q))" for z e q and f :: "ping_pong \<Rightarrow> preflight \<Rightarrow> u64 pf_result"
    using that by (cases z) simp_all
  show ?thesis unfolding calibrate_wallet_def perform_calibration_swap_def erc20_balance_def wait_for_receipt_def Let_def
    by (intro pf_follows_intros init) (assumption | rule a)+
qed

section \<open>Successful steps\<close>

lemma pf_bind_Inr: "pf_bind r f = (Inr b, pf') \<longleftrightarrow> (\<exists>a q. r = (Inr a, q) \<and> f a q = (Inr b, pf'))"
  by (cases r) (auto simp: pf_bind_def split: sum.splits)

text \<open>The transactions of a successful pass over a list are those of its steps.\<close>

lemma pf_each_txs:
  assumes "\<And>x q a q'. f x q = (Inr a, q') \<Longrightarrow> \<exists>new. pf_txs q' = pf_txs q @ new \<and> P x new"
  shows "pf_each f xs pf = (Inr as, pf') \<Longrightarrow> \<exists>news. pf_txs pf' = pf_txs pf @ concat news \<and> list_all2 P xs news"
proof (induction xs arbitrary: pf as)
  case (Cons x xs)
  from Cons.prems obtain a q as' where s: "f x pf = (Inr a, q)" "pf_each f xs q = (Inr as', pf')" by (auto simp: pf_bind_Inr)
  from assms [OF s(1)] obtain new where "pf_txs q = pf_txs pf @ new" "P x new" by blast
  moreover from Cons.IH [OF s(2)] obtain news where "pf_txs pf' = pf_txs q @ concat news" "list_all2 P xs news" by blast
  ultimately show ?case by (intro exI [of _ "new # news"]) simp
qed simp

definition own_txs :: "nat \<Rightarrow> nat \<Rightarrow> nat \<Rightarrow> (nat \<times> cut_tx_params) list \<Rightarrow> bool" where
  "own_txs lo hi i new \<longleftrightarrow> (\<forall>x \<in> set new. fst x = i) \<and> lo \<le> length new \<and> length new \<le> hi"

lemma http_call_txs [simp]: "pf_txs (snd (http_call cx ep payload pf)) = pf_txs pf"
  by (simp add: http_call_def Let_def)

lemma ask_txs:
  "rpc_ask cx ep payload decode pf = (r, q) \<Longrightarrow> pf_txs q = pf_txs pf"
  "call_u256 cx what to data pf = (r', q) \<Longrightarrow> pf_txs q = pf_txs pf"
  by (auto simp: rpc_ask_def call_u256_def http_call_def Let_def)

lemma receipt_txs [simp]: "pf_txs (snd (receipt_loop cx payload elapsed pf)) = pf_txs pf"
proof (induction cx payload elapsed pf rule: receipt_loop.induct)
  case (1 cx payload elapsed pf)
  obtain reply pf1 where h: "http_call cx ReadHttp payload pf = (reply, pf1)" by fastforce
  then have "pf_txs pf1 = pf_txs pf" using http_call_txs [of cx ReadHttp payload pf] by simp
  then show ?case using 1 [OF h [symmetric] refl] h
    by (subst receipt_loop.simps) (auto simp: Let_def split: sum.splits)
qed

lemma send_txs: "\<exists>new. pf_txs (snd (sign_and_send cx i to data gas_limit base_fee rejected pf)) = pf_txs pf @ new \<and> own_txs 1 1 i new"
proof -
  have "\<exists>t. pf_txs (snd (sign_and_send cx i to data gas_limit base_fee rejected pf)) = pf_txs pf @ [(i, t)]"
    by (auto simp: sign_and_send_def Let_def consume_nonce_def pf_bind_def rpc_ask_def http_call_def
        split: prod.splits sum.splits cut_send_outcome.splits)
  then show ?thesis by (auto simp: own_txs_def)
qed

lemma approve_txs:
  assumes "approve_token cx router i token pf = (Inr a, q)"
  shows "\<exists>new. pf_txs q = pf_txs pf @ new \<and> own_txs 0 1 i new"
proof -
  from assms obtain allowance p where p: "call_u256 cx ''allowance'' token (px_allowance_call cx (cw_address (pf_wallets pf ! i)) router) pf = (Inr allowance, p)"
    and rest: "p = q \<or> (\<exists>base_fee p1 h p2 g. ask_base_fee cx p = (Inr base_fee, p1)
        \<and> sign_and_send cx i token (px_approve_call cx router (- 1)) 80000 base_fee ApproveRejected p1 = (Inr h, p2)
        \<and> wait_for_receipt cx h p2 = (Inr g, q))"
    by (auto simp: approve_token_def pf_bind_Inr split: if_splits)
  have t: "pf_txs p = pf_txs pf" using ask_txs(2) [OF p] .
  from rest show ?thesis
  proof (elim disjE exE conjE)
    assume "p = q"
    with t show ?thesis by (simp add: own_txs_def)
  next
    fix base_fee p1 h p2 g
    assume b: "ask_base_fee cx p = (Inr base_fee, p1)"
      and sd: "sign_and_send cx i token (px_approve_call cx router (- 1)) 80000 base_fee ApproveRejected p1 = (Inr h, p2)"
      and w: "wait_for_receipt cx h p2 = (Inr g, q)"
    have "pf_txs p1 = pf_txs p" using b ask_txs(1) unfolding ask_base_fee_def by blast
    moreover have "pf_txs q = pf_txs p2" using w receipt_txs [of cx _ 0 p2] unfolding wait_for_receipt_def by (metis snd_conv)
    ultimately show ?thesis using t send_txs [of cx i token "px_approve_call cx router (- 1)" 80000 base_fee ApproveRejected p1]
      unfolding sd by (auto simp: own_txs_def)
  qed
qed

lemma calibrate_txs:
  assumes "calibrate_wallet cx router base_fee i pf = (Inr a, q)"
  shows "\<exists>new. pf_txs q = pf_txs pf @ new \<and> own_txs 1 1 i new"
proof -
  let ?owner = "cw_address (pf_wallets pf ! i)"
  from assms obtain token_a token_b bal_a p1 bal_b p2 data h p3 gas where
    "erc20_balance cx token_a ?owner pf = (Inr bal_a, p1)" "erc20_balance cx token_b ?owner p1 = (Inr bal_b, p2)"
    and sd: "sign_and_send cx i router data 250000 base_fee SwapRejected p2 = (Inr h, p3)"
    and w: "wait_for_receipt cx h p3 = (Inr gas, q)"
    by (auto simp: calibrate_wallet_def perform_calibration_swap_def pf_bind_Inr Let_def split: option.splits)
  then have "pf_txs p2 = pf_txs pf" using ask_txs(2) unfolding erc20_balance_def by metis
  moreover have "pf_txs q = pf_txs p3" using w receipt_txs [of cx _ 0 p3] unfolding wait_for_receipt_def by (metis snd_conv)
  ultimately show ?thesis using send_txs [of cx i router data 250000 base_fee SwapRejected p2] unfolding sd by simp
qed

lemma own_txs_concat: "list_all2 (\<lambda>x. own_txs lo hi i) xs news \<Longrightarrow> own_txs 0 (hi * length xs) i (concat news)"
  by (induction rule: list_all2_induct) (auto simp: own_txs_def)

lemma approvals_txs:
  assumes "approve_tokens_if_needed cx pf = (Inr a, q)"
  shows "\<exists>news. pf_txs q = pf_txs pf @ concat news \<and> list_all2 (own_txs 0 2) [0..<length (pf_wallets pf)] news"
proof -
  from assms obtain router token_a token_b bs where
    e: "pf_each (\<lambda>i. pf_each (approve_token cx router i) [token_a, token_b]) [0..<length (pf_wallets pf)] pf = (Inr bs, q)"
    unfolding approve_tokens_if_needed_def by (auto simp: pf_bind_Inr simp del: pf_each.simps)
  show ?thesis
  proof (rule pf_each_txs [OF _ e])
    fix i p b p'
    assume "pf_each (approve_token cx router i) [token_a, token_b] p = (Inr b, p')"
    from pf_each_txs [where f = "approve_token cx router i" and P = "\<lambda>t. own_txs 0 1 i", OF _ this] approve_txs obtain news
      where "pf_txs p' = pf_txs p @ concat news" "list_all2 (\<lambda>t. own_txs 0 1 i) [token_a, token_b] news" by blast
    then show "\<exists>new. pf_txs p' = pf_txs p @ new \<and> own_txs 0 2 i new"
      using own_txs_concat [of 0 1 i "[token_a, token_b]" news] by (auto simp: numeral_2_eq_2)
  qed
qed

lemma nonces_of_own: "own_txs lo hi i new \<Longrightarrow> nonces_of j new = (if j = i then map (\<lambda>x. xp_nonce (snd x)) new else [])"
  by (auto simp: nonces_of_def own_txs_def filter_id_conv filter_empty_conv)

lemma nonces_of_passes:
  assumes "list_all2 (own_txs lo hi) js news" "distinct js"
  shows "length (nonces_of i (concat news)) \<le> hi \<and> (i \<in> set js \<longrightarrow> lo \<le> length (nonces_of i (concat news)))
    \<and> (i \<notin> set js \<longrightarrow> nonces_of i (concat news) = [])"
  using assms
proof (induction rule: list_all2_induct)
  case (Cons j js new news)
  have len: "lo \<le> length new" "length new \<le> hi" using Cons(1) by (simp_all add: own_txs_def)
  show ?case using Cons len nonces_of_own [OF Cons(1), of i] by (cases "i = j") (simp_all add: nonces_of_append)
qed simp

text \<open>Loading the wallets sets the nonces that are returned and nothing else.\<close>

lemma load_wallets:
  assumes "pf_each (load_wallet cx) is pf = (Inr ns, pf')" "distinct is" "\<forall>i \<in> set is. i < length (pf_wallets pf)"
  shows "pf_txs pf' = pf_txs pf \<and> length (pf_wallets pf') = length (pf_wallets pf) \<and> length ns = length is
    \<and> (\<forall>i < length (pf_wallets pf). cw_address (pf_wallets pf' ! i) = cw_address (pf_wallets pf ! i)
         \<and> cw_label (pf_wallets pf' ! i) = cw_label (pf_wallets pf ! i)
         \<and> (i \<notin> set is \<longrightarrow> cw_nonce (pf_wallets pf' ! i) = cw_nonce (pf_wallets pf ! i)))
    \<and> (\<forall>j < length is. cw_nonce (pf_wallets pf' ! (is ! j)) = snd (ns ! j))"
  using assms
proof (induction "is" arbitrary: pf ns)
  case (Cons i "is")
  from Cons.prems(1) obtain a q bs where s: "load_wallet cx i pf = (Inr a, q)" "pf_each (load_wallet cx) is q = (Inr bs, pf')" "ns = a # bs"
    by (auto simp: pf_bind_Inr)
  from s(1) obtain bal p1 nonce p2 where p: "ask_balance cx (cw_address (pf_wallets pf ! i)) pf = (Inr bal, p1)"
      "ask_nonce cx (cw_address (pf_wallets pf ! i)) p1 = (Inr nonce, p2)"
    and q: "q = p2\<lparr>pf_wallets := (pf_wallets p2)[i := set_nonce nonce (pf_wallets p2 ! i)]\<rparr>" "snd a = nonce"
    by (auto simp: load_wallet_def pf_bind_Inr Let_def split: if_splits)
  have "pf_wallets p2 = pf_wallets pf" "pf_txs p2 = pf_txs pf"
    using p by (auto simp: ask_balance_def ask_nonce_def rpc_ask_def http_call_def Let_def)
  with q have w: "pf_txs q = pf_txs pf" "pf_wallets q = (pf_wallets pf)[i := set_nonce nonce (pf_wallets pf ! i)]" by simp_all
  have IH: "pf_txs pf' = pf_txs q \<and> length (pf_wallets pf') = length (pf_wallets q) \<and> length bs = length is
    \<and> (\<forall>i < length (pf_wallets q). cw_address (pf_wallets pf' ! i) = cw_address (pf_wallets q ! i)
         \<and> cw_label (pf_wallets pf' ! i) = cw_label (pf_wallets q ! i)
         \<and> (i \<notin> set is \<longrightarrow> cw_nonce (pf_wallets pf' ! i) = cw_nonce (pf_wallets q ! i)))
    \<and> (\<forall>j < length is. cw_nonce (pf_wallets pf' ! (is ! j)) = snd (bs ! j))"
    using Cons.IH [OF s(2)] Cons.prems(2,3) w by simp
  have i: "i < length (pf_wallets pf)" "i \<notin> set is" using Cons.prems by simp_all
  have "cw_nonce (pf_wallets pf' ! i) = nonce" using IH i w by (simp add: set_nonce_def)
  then show ?case using IH i w s(3) q(2) by (auto simp: nth_Cons set_nonce_def nth_list_update split: nat.splits)
qed simp

section \<open>A successful run\<close>

lemma rtt_txs: "rtt_samples cx n pf = (Inr rs, q) \<Longrightarrow> pf_txs q = pf_txs pf \<and> pf_wallets q = pf_wallets pf"
proof (induction n arbitrary: pf rs)
  case (Suc n)
  from Suc.prems obtain b p1 rs' where "ask_block_number cx pf = (Inr b, p1)" "rtt_samples cx n p1 = (Inr rs', q)"
    by (auto simp: pf_bind_Inr)
  with Suc.IH [of p1 rs'] show ?case by (auto simp: ask_block_number_def rpc_ask_def http_call_def Let_def)
qed simp

lemma sanity_txs: "rpc_sanity cx pf = (Inr u, q) \<Longrightarrow> pf_txs q = pf_txs pf \<and> pf_wallets q = pf_wallets pf"
proof -
  assume "rpc_sanity cx pf = (Inr u, q)"
  then obtain c p1 rs where c: "ask_chain_id cx pf = (Inr c, p1)" "rtt_samples cx 3 p1 = (Inr rs, q)"
    by (auto simp: rpc_sanity_def pf_bind_Inr Let_def simp del: rtt_samples.simps split: if_splits)
  then have "pf_txs p1 = pf_txs pf \<and> pf_wallets p1 = pf_wallets pf"
    by (auto simp: ask_chain_id_def rpc_ask_def http_call_def Let_def)
  with rtt_txs [OF c(2)] show ?thesis by simp
qed

lemma check_txs:
  "pf_each (check_balance cx projection) js pf = (r, q) \<Longrightarrow> pf_txs q = pf_txs pf \<and> pf_wallets q = pf_wallets pf"
proof (induction js arbitrary: pf r q)
  case (Cons j js)
  obtain r1 p1 where c: "check_balance cx projection j pf = (r1, p1)" by fastforce
  then have p1: "pf_txs p1 = pf_txs pf \<and> pf_wallets p1 = pf_wallets pf"
    by (auto simp: check_balance_def ask_balance_def rpc_ask_def http_call_def Let_def pf_bind_def split: sum.splits)
  obtain r2 p2 where d: "pf_each (check_balance cx projection) js p1 = (r2, p2)" by fastforce
  from Cons.prems c d have "q = p1 \<or> q = p2" by (auto simp: pf_bind_def split: sum.splits)
  with p1 Cons.IH [OF d] show ?case by auto
qed simp

text \<open>The stages of a successful run.\<close>

lemma preflight_stages:
  assumes "preflight_run cx skip (preflight_new wallets) = (Inr out, pf)"
  obtains p1 p2 p3 p4 p5 router where
    "pf_txs p1 = []" "pf_wallets p1 = wallets"
    "pf_each (load_wallet cx) [0..<length wallets] p1 = (Inr (po_wallet_initial_nonces out), p2)"
    "approve_tokens_if_needed cx p2 = (Inr (), p3)" "ask_base_fee cx p3 = (Inr (po_base_fee_wei out), p4)"
    "pf_each (calibrate_wallet cx router (po_base_fee_wei out)) [0..<length (pf_wallets p4)] p4 = (Inr (po_gas_limits out), p5)"
    "pf_confirm cx skip (po_gas_limits out) (po_base_fee_wei out) p5 = (Inr (), pf)"
proof -
  from assms obtain u p1 where s: "rpc_sanity cx (preflight_new wallets) = (Inr u, p1)"
    and rest: "pf_bind (pf_each (load_wallet cx) [0..<length (pf_wallets p1)] p1) (\<lambda>initial_nonces pf.
         pf_bind (approve_tokens_if_needed cx pf) (\<lambda>_ pf.
           pf_bind (ask_base_fee cx pf) (\<lambda>base_fee pf.
             pf_bind (address_of cx (sw_router_address (cg_swap (px_cfg cx))), pf) (\<lambda>router pf.
               pf_bind (pf_each (calibrate_wallet cx router base_fee) [0..<length (pf_wallets pf)] pf) (\<lambda>gas_limits pf.
                 pf_bind (pf_confirm cx skip gas_limits base_fee pf) (\<lambda>_ pf.
                   (Inr \<lparr>po_gas_limits = gas_limits, po_wallet_initial_nonces = initial_nonces, po_base_fee_wei = base_fee\<rparr>, pf)))))))
      = (Inr out, pf)"
    unfolding preflight_run_def pf_bind_Inr by blast
  have p1: "pf_txs p1 = []" "pf_wallets p1 = wallets" using sanity_txs [OF s] by (simp_all add: preflight_new_def)
  from rest show ?thesis unfolding pf_bind_Inr p1(2) using p1 by (auto intro!: that)
qed

text \<open>
  C31. After a pre-flight that succeeds every wallet stands at the nonce that follows those it has used: it has signed
  from one to three transactions, with consecutive nonces from the count the node reported on, which is also the
  one it is recorded with, and continues after them.
\<close>

theorem preflight_nonces_in_step:
  assumes "preflight_run cx skip (preflight_new wallets) = (Inr out, pf)"
  shows "length (pf_wallets pf) = length wallets \<and> (\<forall>i < length wallets.
    (let n0 = snd (po_wallet_initial_nonces out ! i); ns = nonces_of i (pf_txs pf)
     in ns = count_up n0 (length ns) \<and> 1 \<le> length ns \<and> length ns \<le> 3 \<and> cw_nonce (pf_wallets pf ! i) = n0 + of_nat (length ns)))"
proof -
  obtain p1 p2 p3 p4 p5 router where p1: "pf_txs p1 = []" "pf_wallets p1 = wallets"
    and s: "pf_each (load_wallet cx) [0..<length wallets] p1 = (Inr (po_wallet_initial_nonces out), p2)"
      "approve_tokens_if_needed cx p2 = (Inr (), p3)" "ask_base_fee cx p3 = (Inr (po_base_fee_wei out), p4)"
      "pf_each (calibrate_wallet cx router (po_base_fee_wei out)) [0..<length (pf_wallets p4)] p4 = (Inr (po_gas_limits out), p5)"
      "pf_confirm cx skip (po_gas_limits out) (po_base_fee_wei out) p5 = (Inr (), pf)"
    using preflight_stages [OF assms] .
  have l: "pf_txs p2 = []" "length (pf_wallets p2) = length wallets"
      "\<And>i. i < length wallets \<Longrightarrow> cw_nonce (pf_wallets p2 ! i) = snd (po_wallet_initial_nonces out ! i)"
    using load_wallets [OF s(1)] p1 by simp_all
  have "pf_follows p2 p3" using pf_follows_approvals [of p2 p2 cx] s(2) by simp
  moreover have b: "pf_follows p2 q \<Longrightarrow> ask_base_fee cx q = (r, q') \<Longrightarrow> pf_follows p2 q'" for q r q'
    unfolding ask_base_fee_def using pf_follows_ask(1) by (metis snd_conv)
  ultimately have f4: "pf_follows p2 p4" using s(3) by blast
  then have f5: "pf_follows p2 p5"
    using pf_follows_each [where f = "calibrate_wallet cx router (po_base_fee_wei out)" and xs = "[0..<length (pf_wallets p4)]",
        OF pf_follows_calibrate f4] unfolding s(4) by simp
  have same: "pf_txs pf = pf_txs p5" "pf_wallets pf = pf_wallets p5"
    using s(5) by (auto simp: pf_confirm_def pf_bind_Inr dest!: check_txs split: if_splits)
  have len: "length (pf_wallets p4) = length wallets" using f4 l(2) by (auto simp: pf_follows_def)
  obtain a where a: "pf_txs p3 = concat a" "list_all2 (own_txs 0 2) [0..<length wallets] a"
    using approvals_txs [OF s(2)] l(1,2) by auto
  have "pf_txs p4 = pf_txs p3" using s(3) ask_txs(1) unfolding ask_base_fee_def by blast
  then obtain c where c: "pf_txs p5 = concat a @ concat c" "list_all2 (own_txs 1 1) [0..<length wallets] c"
    using pf_each_txs [where f = "calibrate_wallet cx router (po_base_fee_wei out)" and P = "own_txs 1 1", OF _ s(4)] calibrate_txs a(1) len
    by (metis (no_types, lifting))
  have n: "1 \<le> length (nonces_of i (pf_txs p5)) \<and> length (nonces_of i (pf_txs p5)) \<le> 3" if "i < length wallets" for i
    using nonces_of_passes [OF a(2), of i] nonces_of_passes [OF c(2), of i] that by (auto simp: c(1) nonces_of_append)
  obtain new where new: "pf_txs p5 = pf_txs p2 @ new" and f: "length (pf_wallets p5) = length wallets"
      "\<forall>i < length wallets. cw_address (pf_wallets p5 ! i) = cw_address (pf_wallets p2 ! i) \<and> cw_label (pf_wallets p5 ! i) = cw_label (pf_wallets p2 ! i)
        \<and> nonces_of i new = count_up (cw_nonce (pf_wallets p2 ! i)) (length (nonces_of i new))
        \<and> cw_nonce (pf_wallets p5 ! i) = cw_nonce (pf_wallets p2 ! i) + of_nat (length (nonces_of i new))"
    using f5 unfolding pf_follows_def l(2) by blast
  have txs: "pf_txs p5 = new" using new l(1) by simp
  show ?thesis unfolding same Let_def
  proof (intro conjI allI impI f(1))
    fix i
    assume i: "i < length wallets"
    note fi = f(2) [rule_format, OF i, THEN conjunct2, THEN conjunct2, unfolded l(3) [OF i] txs [symmetric]]
    show "nonces_of i (pf_txs p5) = count_up (snd (po_wallet_initial_nonces out ! i)) (length (nonces_of i (pf_txs p5)))"
      by (rule conjunct1 [OF fi])
    show "cw_nonce (pf_wallets p5 ! i) = snd (po_wallet_initial_nonces out ! i) + of_nat (length (nonces_of i (pf_txs p5)))"
      by (rule conjunct2 [OF fi])
  qed (use n in blast)+
qed

section \<open>The worst case is covered\<close>

lemma pf_each_length: "pf_each f xs pf = (Inr as, q) \<Longrightarrow> length as = length xs"
  by (induction xs arbitrary: pf as) (auto simp: pf_bind_Inr)

lemma checked_balances:
  assumes "pf_each (check_balance cx projection) js pf = (Inr short, q)"
  shows "prefix (pf_calls pf) (pf_calls q) \<and> (\<forall>j < length js. \<exists>log bal. prefix log (pf_calls q) \<and> log \<noteq> []
    \<and> last log = (ReadHttp, balance_payload cx (cw_address (pf_wallets pf ! (js ! j))))
    \<and> eth_get_balance (px_text_reply cx) (px_u256 cx) (px_node cx log) = Inr bal
    \<and> (short ! j = [] \<longrightarrow> \<not> bal < cp_per_wallet_worst_wei projection ! (js ! j)))"
  using assms
proof (induction js arbitrary: pf short)
  case (Cons j js)
  from Cons.prems obtain a p1 short' where s: "check_balance cx projection j pf = (Inr a, p1)"
      "pf_each (check_balance cx projection) js p1 = (Inr short', q)" "short = a # short'"
    by (auto simp: pf_bind_Inr)
  let ?log = "pf_calls pf @ [(ReadHttp, balance_payload cx (cw_address (pf_wallets pf ! j)))]"
  from s(1) obtain bal where b: "eth_get_balance (px_text_reply cx) (px_u256 cx) (px_node cx ?log) = Inr bal"
      "a = [] \<longrightarrow> \<not> bal < cp_per_wallet_worst_wei projection ! j" "pf_calls p1 = ?log" "pf_wallets p1 = pf_wallets pf"
    by (auto simp: check_balance_def ask_balance_def rpc_ask_def http_call_def Let_def pf_bind_Inr split: sum.splits)
  note IH = Cons.IH [OF s(2), unfolded b(4)]
  have log: "prefix ?log (pf_calls q)" using IH b(3) by simp
  have one: "\<exists>log bal. prefix log (pf_calls q) \<and> log \<noteq> []
    \<and> last log = (ReadHttp, balance_payload cx (cw_address (pf_wallets pf ! j)))
    \<and> eth_get_balance (px_text_reply cx) (px_u256 cx) (px_node cx log) = Inr bal
    \<and> (a = [] \<longrightarrow> \<not> bal < cp_per_wallet_worst_wei projection ! j)"
    using log b(1,2) by (intro exI [of _ ?log] exI [of _ bal]) simp
  show ?case using one IH append_prefixD [OF log] unfolding s(3) by (auto simp: nth_Cons split: nat.splits)
qed simp

text \<open>The product of two u64 and a u128 fits into 256 bits: the projection does not wrap.\<close>

lemma wallet_cost_exact:
  "unat (wallet_cost tx_per_wallet price w) = unat (wg_gas_used w) * unat price * unat tx_per_wallet"
proof -
  have b: "unat (wg_gas_used w) < 2 ^ 64" "unat price < 2 ^ 128" "unat tx_per_wallet < 2 ^ 64"
    using unat_bound [of "wg_gas_used w"] unat_bound [of price] unat_bound [of tx_per_wallet] by simp_all
  then have "unat (wg_gas_used w) * unat price < 2 ^ 64 * 2 ^ 128"
    by (intro mult_strict_mono) simp_all
  moreover then have "unat (wg_gas_used w) * unat price * unat tx_per_wallet < 2 ^ 64 * 2 ^ 128 * 2 ^ 64"
    using b by (intro mult_strict_mono) simp_all
  moreover have "unat (ucast (wg_gas_used w) :: u256) = unat (wg_gas_used w)" "unat (ucast price :: u256) = unat price"
    "unat (ucast tx_per_wallet :: u256) = unat tx_per_wallet"
    using b by (simp_all add: unsigned_ucast_eq take_bit_nat_eq_self less_trans)
  ultimately show ?thesis by (simp add: wallet_cost_def unat_word_ariths)
qed

text \<open>
  C32. A pre-flight that succeeds has seen, for every wallet, a balance that covers the planned number of
  transactions at the gas limit and the highest fee per gas that the wallet will sign at the base fee it saw,
  counted without overflow; and unless the question is skipped the user has agreed.
\<close>

theorem preflight_affordable:
  assumes "preflight_run cx skip (preflight_new wallets) = (Inr out, pf)"
  shows "(\<forall>i < length wallets. \<exists>log bal. prefix log (pf_calls pf) \<and> log \<noteq> []
      \<and> last log = (ReadHttp, balance_payload cx (cw_address (wallets ! i)))
      \<and> eth_get_balance (px_text_reply cx) (px_u256 cx) (px_node cx log) = Inr bal
      \<and> unat (snd (po_gas_limits out ! i)) * unat (snd (pf_fees cx (po_base_fee_wei out))) * unat (pf_tx_per_wallet (px_cfg cx)) \<le> unat bal)
    \<and> (skip \<or> (\<exists>input. px_answer cx = Some input \<and> user_agrees input))"
proof -
  obtain p1 p2 p3 p4 p5 router where p1: "pf_txs p1 = []" "pf_wallets p1 = wallets"
    and s: "pf_each (load_wallet cx) [0..<length wallets] p1 = (Inr (po_wallet_initial_nonces out), p2)"
      "approve_tokens_if_needed cx p2 = (Inr (), p3)" "ask_base_fee cx p3 = (Inr (po_base_fee_wei out), p4)"
      "pf_each (calibrate_wallet cx router (po_base_fee_wei out)) [0..<length (pf_wallets p4)] p4 = (Inr (po_gas_limits out), p5)"
      "pf_confirm cx skip (po_gas_limits out) (po_base_fee_wei out) p5 = (Inr (), pf)"
    using preflight_stages [OF assms] .
  have len2: "length (pf_wallets p2) = length wallets"
    and addr2: "\<And>i. i < length wallets \<Longrightarrow> cw_address (pf_wallets p2 ! i) = cw_address (wallets ! i)"
    using load_wallets [OF s(1)] p1 by simp_all
  have f: "pf_follows p2 p4" using pf_follows_approvals [of p2 p2 cx] s(2,3) pf_follows_ask(1)
    unfolding ask_base_fee_def by (metis pf_follows_refl snd_conv)
  then have f5: "pf_follows p2 p5"
    using pf_follows_each [where f = "calibrate_wallet cx router (po_base_fee_wei out)" and xs = "[0..<length (pf_wallets p4)]",
        OF pf_follows_calibrate f] unfolding s(4) by simp
  have w5: "length (pf_wallets p5) = length wallets" "\<And>i. i < length wallets \<Longrightarrow> cw_address (pf_wallets p5 ! i) = cw_address (wallets ! i)"
    using f5 len2 addr2 unfolding pf_follows_def by auto
  have lim: "length (po_gas_limits out) = length wallets"
    using pf_each_length [OF s(4)] f len2 by (auto simp: pf_follows_def)
  let ?projection = "pf_projection cx (po_gas_limits out) (po_base_fee_wei out)"
  from s(5) obtain short q where c: "pf_each (check_balance cx ?projection) [0..<length wallets] p5 = (Inr short, q)" "concat short = []"
      "pf = q" "pf_prompt cx skip = Inr ()"
    by (auto simp: pf_confirm_def pf_bind_Inr w5(1) split: if_splits)
  have worst: "cp_per_wallet_worst_wei ?projection ! i = wallet_cost (pf_tx_per_wallet (px_cfg cx)) (snd (pf_fees cx (po_base_fee_wei out)))
      \<lparr>wg_label = fst (po_gas_limits out ! i), wg_gas_used = snd (po_gas_limits out ! i)\<rparr>" if "i < length wallets" for i
    using that lim by (simp add: pf_projection_def project_cost_def gas_of_limits_def pf_fees_def Let_def case_prod_unfold)
  have short: "short ! i = []" if "i < length wallets" for i
    using c(2) that pf_each_length [OF c(1)] by (simp add: concat_eq_Nil_conv)
  have "\<exists>log bal. prefix log (pf_calls pf) \<and> log \<noteq> []
      \<and> last log = (ReadHttp, balance_payload cx (cw_address (wallets ! i)))
      \<and> eth_get_balance (px_text_reply cx) (px_u256 cx) (px_node cx log) = Inr bal
      \<and> unat (snd (po_gas_limits out ! i)) * unat (snd (pf_fees cx (po_base_fee_wei out))) * unat (pf_tx_per_wallet (px_cfg cx)) \<le> unat bal"
    if i: "i < length wallets" for i
  proof -
    obtain log bal where l: "prefix log (pf_calls q)" "log \<noteq> []" "last log = (ReadHttp, balance_payload cx (cw_address (wallets ! i)))"
        "eth_get_balance (px_text_reply cx) (px_u256 cx) (px_node cx log) = Inr bal"
        "\<not> bal < cp_per_wallet_worst_wei ?projection ! i"
      using checked_balances [OF c(1)] i short [OF i] w5(2) [OF i] by fastforce
    then have "unat (cp_per_wallet_worst_wei ?projection ! i) \<le> unat bal" by (simp add: word_le_nat_alt [symmetric] not_less)
    with l show ?thesis unfolding worst [OF i] wallet_cost_exact c(3) by auto
  qed
  moreover have "skip \<or> (\<exists>input. px_answer cx = Some input \<and> user_agrees input)"
    using c(4) by (auto simp: pf_prompt_def split: if_splits option.splits)
  ultimately show ?thesis by blast
qed

section \<open>Waiting for a receipt\<close>

lemma http_call_calls: "length (pf_calls (snd (http_call cx ep payload pf))) = Suc (length (pf_calls pf))"
  by (simp add: http_call_def Let_def)

lemma receipt_polls: "elapsed < RECEIPT_TIMEOUT \<Longrightarrow> \<exists>n. length (pf_calls (snd (receipt_loop cx payload elapsed pf))) = length (pf_calls pf) + Suc n
    \<and> elapsed + n * 500000000 < RECEIPT_TIMEOUT"
proof (induction cx payload elapsed pf rule: receipt_loop.induct)
  case (1 cx payload elapsed pf)
  obtain reply pf1 where h: "http_call cx ReadHttp payload pf = (reply, pf1)" by fastforce
  then have c: "length (pf_calls pf1) = Suc (length (pf_calls pf))" using http_call_calls [of cx ReadHttp payload pf] by simp
  let ?t = "elapsed + px_took cx (pf_calls pf1)"
  show ?case
  proof (cases "\<exists>text v. ?t < RECEIPT_TIMEOUT \<and> reply = Inr text \<and> px_parse cx text = Inr v
      \<and> \<not> json_is_object (json_index ''result'' v) \<and> ?t + 500000000 < RECEIPT_TIMEOUT")
    case True
    then obtain body v where t: "?t < RECEIPT_TIMEOUT" "reply = Inr body" "px_parse cx body = Inr v"
      "\<not> json_is_object (json_index ''result'' v)" "?t + 500000000 < RECEIPT_TIMEOUT" by blast
    from 1(1) [OF refl h [symmetric] refl _ t(2,3,4) _ t(5)] t(1,5) obtain n where
      n: "length (pf_calls (snd (receipt_loop cx payload (?t + 500000000) pf1))) = length (pf_calls pf1) + Suc n"
        "?t + 500000000 + n * 500000000 < RECEIPT_TIMEOUT" by auto
    then show ?thesis using t h c by (subst receipt_loop.simps, intro exI [of _ "Suc n"]) simp
  next
    case False
    then have "length (pf_calls (snd (receipt_loop cx payload elapsed pf))) = length (pf_calls pf1)"
      using h by (subst receipt_loop.simps) (auto simp: Let_def split: sum.splits)
    then show ?thesis using c 1(2) by (intro exI [of _ 0]) simp
  qed
qed

text \<open>The wait ends after at most 120 requests, however fast the node answers.\<close>

theorem receipt_polls_bounded: "length (pf_calls (snd (wait_for_receipt cx h pf))) \<le> length (pf_calls pf) + 120"
  using receipt_polls [of 0 cx "call_payload ''eth_getTransactionReceipt'' (quoted (px_show_hash cx h))" pf]
  by (auto simp: wait_for_receipt_def RECEIPT_TIMEOUT_def)

section \<open>A pre-flight of one wallet\<close>

definition pf_demo_cfg :: cut_config where
  "pf_demo_cfg = \<lparr>cg_chain = \<lparr>ch_name = [], ch_chain_id = 1, ch_rpc_ws = [], ch_rpc_http = [], ch_rpc_http_send = None, ch_bundle_url = None\<rparr>,
     cg_timing = \<lparr>cs_start_ms = 0, cs_end_ms = 100, cs_step_ms = 50, cs_samples = 2\<rparr>,
     cg_gas = \<lparr>ga_max_priority_fee_gwei = 1, ga_max_fee_multiplier = 2\<rparr>,
     cg_tracking = \<lparr>tg_inclusion_lookahead_blocks = 2, tg_abort_on_consecutive_failed_blocks = 5\<rparr>,
     cg_swap = \<lparr>sw_router_address = [], sw_pool_fee_tier = 0, sw_token_a = [], sw_token_b = [], sw_amount_in_a = [], sw_amount_in_b = [],
       sw_slippage_bps = 0\<rparr>,
     cg_wallets = [], cg_send = \<lparr>sd_worker_threads = None, sd_spin_window_us = None\<rparr>\<rparr>"

text \<open>The node answers the ninth request with a block and the thirteenth with a receipt, all others with the
  digit 1, which the parsers read as the number, field or hash that is asked for; allowances and balances are the
  largest number.\<close>

definition pf_demo_reply :: "nat \<Rightarrow> string" where
  "pf_demo_reply n = (if n = 9 \<or> n = 13 then ''r'' else ''1'')"

definition pf_demo_ctx :: preflight_ctx where
  "pf_demo_ctx = \<lparr>px_cfg = pf_demo_cfg, px_node = (\<lambda>calls. Inr (pf_demo_reply (length calls))), px_took = (\<lambda>calls. 1000000),
     px_parse = (\<lambda>s. Inr (JObj [(''result'', if s = ''1'' then JStr s else JObj [(''baseFeePerGas'', JStr ''1''), (''gasUsed'', JStr ''1''), (''status'', JStr ''1'')])])),
     px_text_reply = (\<lambda>s. Inr \<lparr>rr_result = Some s, rr_error = None\<rparr>), px_hash_reply = (\<lambda>s. Inr \<lparr>rr_result = Some 77, rr_error = None\<rparr>),
     px_u256 = (\<lambda>s. Some (- 1)), px_address = (\<lambda>s. Inr 5), px_amount = (\<lambda>s. Inr 3), px_show_address = (\<lambda>a. []), px_show_hash = (\<lambda>h. []),
     px_allowance_call = (\<lambda>a b. []), px_approve_call = (\<lambda>a n. []), px_balance_call = (\<lambda>a. []), px_abi = (\<lambda>p. []),
     px_sign = (\<lambda>a p. Inr (77, [])), px_gwei = (\<lambda>r. 1), px_scale = (\<lambda>b m. b), px_margin = (\<lambda>g. g), px_answer = Some ''Yes ''\<rparr>"

lemma pf_demo_hex: "trim_0x ''1'' = ''1''" "1 < k \<Longrightarrow> from_hex k ''1'' = Some 1"
  by (subst trim_0x.simps, simp) (simp add: from_hex_def hex_digit_val_def Let_def)

lemma pf_demo_fields:
  "px_cfg pf_demo_ctx = pf_demo_cfg" "px_node pf_demo_ctx calls = Inr (pf_demo_reply (length calls))" "px_took pf_demo_ctx calls = 1000000"
  "px_text_reply pf_demo_ctx s = Inr \<lparr>rr_result = Some s, rr_error = None\<rparr>"
  "px_hash_reply pf_demo_ctx s = Inr \<lparr>rr_result = Some 77, rr_error = None\<rparr>"
  "px_u256 pf_demo_ctx s = Some (- 1)" "px_address pf_demo_ctx s = Inr 5" "px_amount pf_demo_ctx s = Inr 3"
  "px_sign pf_demo_ctx a p = Inr (77, [])" "px_gwei pf_demo_ctx r = 1" "px_scale pf_demo_ctx b r = b" "px_margin pf_demo_ctx g = g"
  "px_answer pf_demo_ctx = Some ''Yes ''" "ch_chain_id (cg_chain pf_demo_cfg) = 1"
  by (simp_all add: pf_demo_ctx_def pf_demo_cfg_def)

lemma pf_demo_parse: "px_parse pf_demo_ctx s = Inr (JObj [(''result'', if s = ''1'' then JStr s
    else JObj [(''baseFeePerGas'', JStr ''1''), (''gasUsed'', JStr ''1''), (''status'', JStr ''1'')])])"
  by (simp add: pf_demo_ctx_def)

lemmas pf_demo_eval = rpc_ask_def http_call_def pf_bind_def pf_demo_fields pf_demo_hex pf_demo_parse Let_def pf_demo_reply_def

definition pf_demo_state :: "nat \<Rightarrow> u64 \<Rightarrow> preflight \<Rightarrow> bool" where
  "pf_demo_state n k pf \<longleftrightarrow> length (pf_calls pf) = n \<and> pf_wallets pf = [\<lparr>cw_label = ''w'', cw_address = 5, cw_nonce = k\<rparr>]"

lemma pf_demo_sanity: "pf_demo_state 0 k pf \<Longrightarrow> \<exists>q. rpc_sanity pf_demo_ctx pf = (Inr (), q) \<and> pf_demo_state 4 k q"
  by (simp add: rpc_sanity_def ask_chain_id_def ask_block_number_def pf_demo_eval pf_demo_state_def
    eth_chain_id_def eth_block_number_def hex_u64_reply_def numeral_3_eq_3 trunc_u64_def)

lemma pf_demo_load: "pf_demo_state 4 k pf \<Longrightarrow> \<exists>ns q. pf_each (load_wallet pf_demo_ctx) [0] pf = (Inr ns, q) \<and> pf_demo_state 6 1 q"
  by (simp add: load_wallet_def ask_balance_def ask_nonce_def pf_demo_eval pf_demo_state_def
    eth_get_balance_def eth_get_transaction_count_def hex_u64_reply_def set_nonce_def)

lemma pf_demo_call: "pf_demo_state n k pf \<Longrightarrow> n \<noteq> 8 \<Longrightarrow> n \<noteq> 12 \<Longrightarrow>
    \<exists>q. call_u256 pf_demo_ctx what to data pf = (Inr (- 1), q) \<and> pf_demo_state (Suc n) k q"
  by (simp add: call_u256_def json_index_def pf_demo_eval pf_demo_state_def)

lemma pf_demo_allowed:
  assumes "pf_demo_state n k pf" "n \<noteq> 8" "n \<noteq> 12"
  shows "\<exists>q. approve_token pf_demo_ctx router i token pf = (Inr (), q) \<and> pf_demo_state (Suc n) k q"
proof -
  have t: "ALLOWANCE_THRESHOLD \<le> - 1" by simp
  obtain q where "call_u256 pf_demo_ctx ''allowance'' token (px_allowance_call pf_demo_ctx (cw_address (pf_wallets pf ! i)) router) pf
      = (Inr (- 1), q)" "pf_demo_state (Suc n) k q"
    using pf_demo_call [OF assms] by blast
  then show ?thesis unfolding approve_token_def by (intro exI [of _ q]) (simp add: pf_bind_def t)
qed

lemma pf_demo_approve:
  assumes "pf_demo_state 6 k pf"
  shows "\<exists>q. approve_tokens_if_needed pf_demo_ctx pf = (Inr (), q) \<and> pf_demo_state 8 k q"
proof -
  obtain p where p: "approve_token pf_demo_ctx 5 0 5 pf = (Inr (), p)" "pf_demo_state (Suc 6) k p"
    using pf_demo_allowed [OF assms, of 5 0 5] by auto
  obtain q where q: "approve_token pf_demo_ctx 5 0 5 p = (Inr (), q)" "pf_demo_state 8 k q"
    using pf_demo_allowed [OF p(2), of 5 0 5] by auto
  have "length (pf_wallets pf) = 1" using assms by (simp add: pf_demo_state_def)
  with p q show ?thesis
    by (simp add: approve_tokens_if_needed_def address_of_def pf_demo_fields pf_bind_def)
qed

lemma pf_demo_base: "pf_demo_state 8 k pf \<Longrightarrow> \<exists>q. ask_base_fee pf_demo_ctx pf = (Inr 1, q) \<and> pf_demo_state 9 k q"
  by (simp add: ask_base_fee_def latest_base_fee_def json_index_def pf_demo_eval pf_demo_state_def)

lemma pf_demo_receipt: "length (pf_calls pf) = 12 \<Longrightarrow>
    wait_for_receipt pf_demo_ctx h pf = (Inr 1, pf\<lparr>pf_calls := pf_calls (snd (wait_for_receipt pf_demo_ctx h pf))\<rparr>)
    \<and> length (pf_calls (snd (wait_for_receipt pf_demo_ctx h pf))) = 13"
  unfolding wait_for_receipt_def
  by (subst (1 2 3) receipt_loop.simps) (simp add: receipt_outcome_def json_index_def pf_demo_eval RECEIPT_TIMEOUT_def)

lemma pf_demo_send: "pf_demo_state 11 1 pf \<Longrightarrow>
    \<exists>h q. sign_and_send pf_demo_ctx 0 to data g fee rj pf = (Inr h, q) \<and> pf_demo_state 12 2 q"
  by (simp add: sign_and_send_def pf_fees_def consume_nonce_def send_raw_outcome_def pf_demo_eval pf_demo_state_def)

lemma pf_demo_calibrate:
  assumes "pf_demo_state 9 1 pf"
  shows "\<exists>q. calibrate_wallet pf_demo_ctx router fee 0 pf = (Inr (''w'', 1), q) \<and> pf_demo_state 13 2 q"
proof -
  obtain p where p: "call_u256 pf_demo_ctx ''balanceOf'' 5 (px_balance_call pf_demo_ctx 5) pf = (Inr (- 1), p)" "pf_demo_state 10 1 p"
    using pf_demo_call [OF assms, of "''balanceOf''" 5] by auto
  obtain q where q: "call_u256 pf_demo_ctx ''balanceOf'' 5 (px_balance_call pf_demo_ctx 5) p = (Inr (- 1), q)" "pf_demo_state 11 1 q"
    using pf_demo_call [OF p(2), of "''balanceOf''" 5] by auto
  have w: "cw_address (pf_wallets pf ! 0) = 5" using assms by (simp add: pf_demo_state_def)
  have init: "initialize_with_amounts (- 1) 3 (- 1) 3 = Some 0" by (simp add: initialize_with_amounts_def)
  let ?enc = "\<lparr>se_token_a = 5, se_token_b = 5, se_fee = 0, se_amount_in_a = 3, se_amount_in_b = 3, se_recipient = 5\<rparr>"
  obtain h r where r: "sign_and_send pf_demo_ctx 0 router (px_abi pf_demo_ctx (swap_params ?enc (current_direction 0))) 250000 fee SwapRejected q
      = (Inr h, r)" "pf_demo_state 12 2 r"
    using pf_demo_send [OF q(2)] by blast
  have "length (pf_calls r) = 12" "pf_wallets r = [\<lparr>cw_label = ''w'', cw_address = 5, cw_nonce = 2\<rparr>]"
    using r(2) by (simp_all add: pf_demo_state_def)
  with pf_demo_receipt [of r h] obtain t where t: "wait_for_receipt pf_demo_ctx h r = (Inr 1, t)" "pf_demo_state 13 2 t"
    by (metis (no_types, lifting) pf_demo_state_def preflight.select_convs(2) preflight.surjective preflight.update_convs(1) snd_conv)
  have enc: "encoder_of pf_demo_ctx 5 = Inr ?enc"
    by (simp add: encoder_of_def swap_encoder_new_def pf_demo_fields) (simp add: pf_demo_cfg_def)
  have "perform_calibration_swap pf_demo_ctx 0 router fee pf = (Inr 1, t)"
    using w p(1) q(1) r(1) t(1) init enc
    by (simp add: perform_calibration_swap_def erc20_balance_def address_of_def amount_of_def pf_demo_fields pf_bind_def Let_def)
  with t(2) show ?thesis by (simp add: calibrate_wallet_def pf_bind_def pf_demo_fields pf_demo_state_def)
qed

lemma pf_demo_agrees: "user_agrees ''Yes ''"
  by code_simp

lemma pf_demo_confirm:
  assumes "pf_demo_state 13 k pf"
  shows "\<exists>q. pf_confirm pf_demo_ctx False [(''w'', 1)] 1 pf = (Inr (), q)"
proof -
  have c: "\<not> (- 1 :: u256) < x" for x by (simp add: not_less)
  have "pf_prompt pf_demo_ctx False = Inr ()"
    by (simp add: pf_prompt_def pf_demo_fields pf_demo_agrees)
  then show ?thesis using assms
    by (simp add: pf_confirm_def check_balance_def ask_balance_def eth_get_balance_def pf_demo_eval pf_demo_state_def c)
qed

lemma pf_demo_runs: "\<exists>out pf. preflight_run pf_demo_ctx False (preflight_new [\<lparr>cw_label = ''w'', cw_address = 5, cw_nonce = 0\<rparr>]) = (Inr out, pf)"
proof -
  let ?pf = "preflight_new [\<lparr>cw_label = ''w'', cw_address = 5, cw_nonce = 0\<rparr>]"
  have "pf_demo_state 0 0 ?pf" by (simp add: preflight_new_def pf_demo_state_def)
  then obtain p1 where p1: "rpc_sanity pf_demo_ctx ?pf = (Inr (), p1)" "pf_demo_state 4 0 p1" using pf_demo_sanity by blast
  obtain ns p2 where p2: "pf_each (load_wallet pf_demo_ctx) [0] p1 = (Inr ns, p2)" "pf_demo_state 6 1 p2" using pf_demo_load [OF p1(2)] by blast
  obtain p3 where p3: "approve_tokens_if_needed pf_demo_ctx p2 = (Inr (), p3)" "pf_demo_state 8 1 p3" using pf_demo_approve [OF p2(2)] by blast
  obtain p4 where p4: "ask_base_fee pf_demo_ctx p3 = (Inr 1, p4)" "pf_demo_state 9 1 p4" using pf_demo_base [OF p3(2)] by blast
  obtain p5 where p5: "calibrate_wallet pf_demo_ctx 5 1 0 p4 = (Inr (''w'', 1), p5)" "pf_demo_state 13 2 p5"
    using pf_demo_calibrate [OF p4(2)] by blast
  obtain q where q: "pf_confirm pf_demo_ctx False [(''w'', 1)] 1 p5 = (Inr (), q)" using pf_demo_confirm [OF p5(2)] by blast
  have "length (pf_wallets p1) = 1" "length (pf_wallets p4) = 1" using p1(2) p4(2) by (simp_all add: pf_demo_state_def)
  with p1(1) p2(1) p3(1) p4(1) p5(1) q show ?thesis
    by (simp add: preflight_run_def address_of_def pf_demo_fields pf_bind_def del: pf_each.simps) (simp add: pf_bind_def)
qed

theorem preflight_nonces_in_step_witness:
  "\<exists>out pf. preflight_run pf_demo_ctx False (preflight_new [\<lparr>cw_label = ''w'', cw_address = 5, cw_nonce = 0\<rparr>]) = (Inr out, pf)
    \<and> cw_nonce (pf_wallets pf ! 0) = snd (po_wallet_initial_nonces out ! 0) + of_nat (length (nonces_of 0 (pf_txs pf)))
    \<and> 1 \<le> length (nonces_of 0 (pf_txs pf))"
proof -
  obtain out pf where run: "preflight_run pf_demo_ctx False (preflight_new [\<lparr>cw_label = ''w'', cw_address = 5, cw_nonce = 0\<rparr>]) = (Inr out, pf)"
    using pf_demo_runs by blast
  from preflight_nonces_in_step [OF run] show ?thesis using run by (auto simp: Let_def)
qed

theorem preflight_affordable_witness:
  "\<exists>out pf bal. preflight_run pf_demo_ctx False (preflight_new [\<lparr>cw_label = ''w'', cw_address = 5, cw_nonce = 0\<rparr>]) = (Inr out, pf)
    \<and> unat (snd (po_gas_limits out ! 0)) * unat (snd (pf_fees pf_demo_ctx (po_base_fee_wei out))) * unat (pf_tx_per_wallet pf_demo_cfg)
        \<le> unat (bal :: u256)"
proof -
  obtain out pf where run: "preflight_run pf_demo_ctx False (preflight_new [\<lparr>cw_label = ''w'', cw_address = 5, cw_nonce = 0\<rparr>]) = (Inr out, pf)"
    using pf_demo_runs by blast
  from preflight_affordable [OF run] have "\<exists>bal :: u256. unat (snd (po_gas_limits out ! 0))
      * unat (snd (pf_fees pf_demo_ctx (po_base_fee_wei out))) * unat (pf_tx_per_wallet pf_demo_cfg) \<le> unat bal"
    by (auto simp: pf_demo_fields)
  with run show ?thesis by blast
qed

end
