(* ===== verification/LeaderMap.thy ===== *)
theory LeaderMap
  imports Complex_Main BTreeMap KeyStore Json "HOL-Library.List_Lexorder" "HOL-Library.Char_ord" "HOL-Library.Multiset"
begin

text \<open>
  The leader map tool (\<open>crates/solana-leader-map/src/\<close>): the snapshot of an epoch (\<open>domain.rs\<close>), the slot map and
  the summary per country (\<open>aggregate.rs\<close>), the directory of cached snapshots (\<open>cache.rs\<close>), the decoding of the
  two services (\<open>solana_rpc.rs\<close>, \<open>validators_app.rs\<close>) and the commands (\<open>cli.rs\<close>).  The share in percent (f64),
  the JSON text of a snapshot and the HTTP exchanges are parameters.
\<close>

declare split_paired_All [simp del] split_paired_Ex [simp del]

type_synonym identity = string

section \<open>The snapshot\<close>

record validator_info =
  vi_identity :: identity
  vi_name :: "string option"
  vi_vote_account :: "string option"
  vi_active_stake_lamports :: u64
  vi_country_code :: "string option"
  vi_data_center_key :: "string option"
  vi_asn :: "u64 option"
  vi_asn_organization :: "string option"
  vi_ip :: "string option"

record epoch_info =
  ep_epoch :: u64
  ep_absolute_slot :: u64
  ep_slot_index :: u64
  ep_slots_in_epoch :: u64

definition epoch_first_slot :: "epoch_info \<Rightarrow> u64" where
  "epoch_first_slot e = ep_absolute_slot e - ep_slot_index e"

definition epoch_last_slot :: "epoch_info \<Rightarrow> u64" where
  "epoch_last_slot e = epoch_first_slot e + ep_slots_in_epoch e - 1"

text \<open>The schedule lists each leader with its slots, counted from the start of the epoch, in the order of the names.\<close>

record epoch_snapshot =
  sn_fetched_at :: instant
  sn_epoch :: epoch_info
  sn_validators :: "validator_info list"
  sn_schedule :: "(identity, u64 list) btree"

record slot_entry =
  sl_absolute_slot :: u64
  sl_identity :: identity
  sl_validator_name :: "string option"
  sl_country_code :: "string option"
  sl_data_center_key :: "string option"
  sl_stake_lamports :: u64

section \<open>The slot map\<close>

definition by_identity :: "validator_info list \<Rightarrow> (identity, validator_info) btree" where
  "by_identity vs = fold (\<lambda>v. bt_insert (vi_identity v) v) vs []"

definition slot_entry_of :: "(identity, validator_info) btree \<Rightarrow> identity \<Rightarrow> u64 \<Rightarrow> slot_entry" where
  "slot_entry_of m ident slot = (let info = bt_get m ident in
     \<lparr>sl_absolute_slot = slot, sl_identity = ident, sl_validator_name = Option.bind info vi_name,
      sl_country_code = Option.bind info vi_country_code, sl_data_center_key = Option.bind info vi_data_center_key,
      sl_stake_lamports = (case info of Some v \<Rightarrow> vi_active_stake_lamports v | None \<Rightarrow> 0)\<rparr>)"

definition place_slots :: "(identity, validator_info) btree \<Rightarrow> u64 \<Rightarrow> identity \<times> u64 list \<Rightarrow> (u64, slot_entry) btree \<Rightarrow> (u64, slot_entry) btree" where
  "place_slots m first leader = fold (\<lambda>idx. bt_insert (first + idx) (slot_entry_of m (fst leader) (first + idx))) (snd leader)"

definition build_slot_map :: "epoch_snapshot \<Rightarrow> (u64, slot_entry) btree" where
  "build_slot_map snap = fold (place_slots (by_identity (sn_validators snap)) (epoch_first_slot (sn_epoch snap))) (sn_schedule snap) []"

section \<open>The summary per country\<close>

record country_summary =
  cy_country_code :: string
  cy_slot_count :: u64
  cy_slot_percentage :: real
  cy_stake_lamports :: "128 word"
  cy_stake_percentage :: real
  cy_validator_count :: u64

record epoch_summary =
  su_epoch :: u64
  su_total_slots :: u64
  su_mapped_slots :: u64
  su_unknown_slots :: u64
  su_countries :: "country_summary list"
  su_total_stake_lamports :: "128 word"

definition UNKNOWN_COUNTRY :: string where
  "UNKNOWN_COUNTRY = ''??''"

text \<open>\<open>*m.entry(k).or_insert(0) += n\<close>\<close>

definition bump :: "string \<Rightarrow> 'a::len word \<Rightarrow> (string, 'a word) btree \<Rightarrow> (string, 'a word) btree" where
  "bump k n m = bt_insert k (bt_get_or 0 m k + n) m"

definition slots_per_country :: "slot_entry list \<Rightarrow> (string, u64) btree \<times> u64" where
  "slots_per_country es = fold (\<lambda>e (m, unknown). case sl_country_code e of
     Some cc \<Rightarrow> (bump cc 1 m, unknown) | None \<Rightarrow> (m, unknown + 1)) es ([], 0)"

definition country_of :: "validator_info \<Rightarrow> string" where
  "country_of v = (case vi_country_code v of Some cc \<Rightarrow> cc | None \<Rightarrow> UNKNOWN_COUNTRY)"

definition stake_per_country :: "validator_info list \<Rightarrow> (string, 128 word) btree" where
  "stake_per_country vs = fold (\<lambda>v. bump (country_of v) (ucast (vi_active_stake_lamports v))) vs []"

definition validators_per_country :: "validator_info list \<Rightarrow> (string, u64) btree" where
  "validators_per_country vs = fold (\<lambda>v. bump (country_of v) 1) vs []"

definition pct :: "(128 word \<Rightarrow> 128 word \<Rightarrow> real) \<Rightarrow> 128 word \<Rightarrow> 128 word \<Rightarrow> real" where
  "pct share part whole = (if whole = 0 then 0 else share part whole)"

text \<open>The sorted set of countries, then a record for each, then a stable sort by falling share of the slots.\<close>

definition all_countries :: "(string, u64) btree \<Rightarrow> (string, 128 word) btree \<Rightarrow> u64 \<Rightarrow> string list" where
  "all_countries slots stake unknown = sort (remdups (bt_keys slots @ bt_keys stake @ (if unknown > 0 then [UNKNOWN_COUNTRY] else [])))"

definition country_summary_of :: "(128 word \<Rightarrow> 128 word \<Rightarrow> real) \<Rightarrow> epoch_snapshot \<Rightarrow> slot_entry list \<Rightarrow> u64 \<Rightarrow> 128 word \<Rightarrow> string \<Rightarrow> country_summary" where
  "country_summary_of share snap es total_slots total_stake cc =
     (let (slots, unknown) = slots_per_country es;
          slot_count = (if cc = UNKNOWN_COUNTRY then unknown else bt_get_or 0 slots cc);
          stake = bt_get_or 0 (stake_per_country (sn_validators snap)) cc
      in \<lparr>cy_country_code = cc, cy_slot_count = slot_count, cy_slot_percentage = pct share (ucast slot_count) (ucast total_slots),
          cy_stake_lamports = stake, cy_stake_percentage = pct share stake total_stake,
          cy_validator_count = bt_get_or 0 (validators_per_country (sn_validators snap)) cc\<rparr>)"

definition summarize :: "(128 word \<Rightarrow> 128 word \<Rightarrow> real) \<Rightarrow> epoch_snapshot \<Rightarrow> (u64, slot_entry) btree \<Rightarrow> epoch_summary" where
  "summarize share snap slot_map =
     (let es = map snd slot_map; total_slots = of_nat (length slot_map);
          total_stake = sum_list (map (\<lambda>v. ucast (vi_active_stake_lamports v)) (sn_validators snap));
          (slots, unknown) = slots_per_country es;
          countries = map (country_summary_of share snap es total_slots total_stake)
            (all_countries slots (stake_per_country (sn_validators snap)) unknown)
      in \<lparr>su_epoch = ep_epoch (sn_epoch snap), su_total_slots = total_slots, su_mapped_slots = total_slots - unknown,
          su_unknown_slots = unknown, su_countries = sort_key (\<lambda>c. - cy_slot_percentage c) countries,
          su_total_stake_lamports = total_stake\<rparr>)"

section \<open>The cache\<close>

text \<open>A directory: names and contents, in the order the directory is read.\<close>

type_synonym leader_dir = "(string, string) hmap"

datatype leader_error = LmRead string | LmWrite string | LmParse string | LmRpc string | LmNoSnapshot | LmBadRange string | LmEmptyRange

definition snapshot_name :: "u64 \<Rightarrow> string" where
  "snapshot_name epoch = ''leader-map-epoch-'' @ dec_digits (unat epoch) @ ''.json''"

text \<open>What \<open>fs::write\<close> does: it writes the whole text, cannot open the file, or breaks off and leaves a part of it.\<close>

datatype write_result = WroteAll | WroteNothing | WrotePart string

definition cache_save :: "(epoch_snapshot \<Rightarrow> string) \<Rightarrow> write_result \<Rightarrow> epoch_snapshot \<Rightarrow> leader_dir \<Rightarrow> (leader_error + unit) \<times> leader_dir" where
  "cache_save to_json written snap dir = (let path = snapshot_name (ep_epoch (sn_epoch snap)) in case written of
     WroteAll \<Rightarrow> (Inr (), hm_insert path (to_json snap) dir)
   | WroteNothing \<Rightarrow> (Inl (LmWrite path), dir)
   | WrotePart part \<Rightarrow> (Inl (LmWrite path), hm_insert path part dir))"

definition cache_load :: "(string \<Rightarrow> string + epoch_snapshot) \<Rightarrow> u64 \<Rightarrow> leader_dir \<Rightarrow> leader_error + epoch_snapshot" where
  "cache_load from_json epoch dir = (case hm_get dir (snapshot_name epoch) of
     None \<Rightarrow> Inl (LmRead (snapshot_name epoch))
   | Some raw \<Rightarrow> (case from_json raw of Inl e \<Rightarrow> Inl (LmParse e) | Inr snap \<Rightarrow> Inr snap))"

definition strip_prefix :: "string \<Rightarrow> string \<Rightarrow> string option" where
  "strip_prefix p s = (if take (length p) s = p then Some (drop (length p) s) else None)"

definition strip_suffix :: "string \<Rightarrow> string \<Rightarrow> string option" where
  "strip_suffix p s = map_option rev (strip_prefix (rev p) (rev s))"

definition signed_u64 :: "string \<Rightarrow> u64 option" where
  "signed_u64 s = (case s of c # ds \<Rightarrow> if c = CHR ''+'' then parse_u64 ds else parse_u64 s | [] \<Rightarrow> None)"

definition epoch_of_name :: "string \<Rightarrow> u64 option" where
  "epoch_of_name name = Option.bind (strip_prefix ''leader-map-epoch-'' name) (\<lambda>rest.
     Option.bind (strip_suffix ''.json'' rest) signed_u64)"

definition newest_epoch :: "leader_dir \<Rightarrow> u64 option" where
  "newest_epoch dir = fold (\<lambda>f newest. case epoch_of_name (fst f) of
       None \<Rightarrow> newest
     | Some epoch \<Rightarrow> if (case newest of None \<Rightarrow> True | Some e \<Rightarrow> epoch > e) then Some epoch else newest) dir None"

definition latest_snapshot :: "(string \<Rightarrow> string + epoch_snapshot) \<Rightarrow> leader_dir \<Rightarrow> leader_error + epoch_snapshot option" where
  "latest_snapshot from_json dir = (case newest_epoch dir of
     None \<Rightarrow> Inr None
   | Some epoch \<Rightarrow> (case cache_load from_json epoch dir of Inl e \<Rightarrow> Inl e | Inr snap \<Rightarrow> Inr (Some snap)))"

section \<open>The services\<close>

text \<open>A reply of the node: a transport error, or a status with a body; \<open>from_value\<close> decodes the result.\<close>

definition leader_rpc :: "(string \<Rightarrow> string + json) \<Rightarrow> (json \<Rightarrow> (64 word \<times> string) option) \<Rightarrow> (json \<Rightarrow> string) \<Rightarrow> (json \<Rightarrow> string + 'r) \<Rightarrow>
    string + (bool \<times> string) \<Rightarrow> leader_error + 'r" where
  "leader_rpc parse rpc_error show_json from_value reply = (case reply of
     Inl e \<Rightarrow> Inl (LmRpc e)
   | Inr (success, body) \<Rightarrow>
       if \<not> success then Inl (LmRpc body)
       else (case parse body of
           Inl e \<Rightarrow> Inl (LmRpc e)
         | Inr raw \<Rightarrow> (case json_get ''error'' raw of
             Some err \<Rightarrow> Inl (LmRpc (case rpc_error err of Some (code, message) \<Rightarrow> message | None \<Rightarrow> show_json err))
           | None \<Rightarrow> (case json_get ''result'' raw of
               None \<Rightarrow> Inl (LmRpc ''no result'')
             | Some v \<Rightarrow> (case from_value v of Inl e \<Rightarrow> Inl (LmRpc e) | Inr r \<Rightarrow> Inr r)))))"

record raw_validator =
  rv_account :: "string option"
  rv_name :: "string option"
  rv_vote_account :: "string option"
  rv_active_stake :: "u64 option"
  rv_country_code :: "string option"
  rv_data_center_key :: "string option"
  rv_autonomous_system_number :: "u64 option"
  rv_asn :: "string option"
  rv_ip :: "string option"

definition map_raw :: "raw_validator \<Rightarrow> validator_info option" where
  "map_raw r = map_option (\<lambda>ident. \<lparr>vi_identity = ident, vi_name = rv_name r, vi_vote_account = rv_vote_account r,
     vi_active_stake_lamports = (case rv_active_stake r of Some s \<Rightarrow> s | None \<Rightarrow> 0), vi_country_code = rv_country_code r,
     vi_data_center_key = rv_data_center_key r, vi_asn = rv_autonomous_system_number r, vi_asn_organization = rv_asn r,
     vi_ip = rv_ip r\<rparr>) (rv_account r)"

definition fetch_all_validators :: "(string \<Rightarrow> string + raw_validator list) \<Rightarrow> string + (bool \<times> string) \<Rightarrow> leader_error + validator_info list" where
  "fetch_all_validators parse reply = (case reply of
     Inl e \<Rightarrow> Inl (LmRpc e)
   | Inr (success, body) \<Rightarrow>
       if \<not> success then Inl (LmRpc body)
       else (case parse body of Inl e \<Rightarrow> Inl (LmParse e) | Inr raw \<Rightarrow> Inr (List.map_filter map_raw raw)))"

section \<open>The commands\<close>

definition leader_fetch :: "(epoch_snapshot \<Rightarrow> string) \<Rightarrow> instant \<Rightarrow> leader_error + epoch_info \<Rightarrow> leader_error + validator_info list \<Rightarrow>
    leader_error + (identity, u64 list) btree \<Rightarrow> bool \<Rightarrow> write_result \<Rightarrow> leader_dir \<Rightarrow> (leader_error + unit) \<times> leader_dir" where
  "leader_fetch to_json now epoch_reply validators_reply schedule_reply force written dir = (case epoch_reply of
     Inl e \<Rightarrow> (Inl e, dir)
   | Inr epoch \<Rightarrow>
       if hm_get dir (snapshot_name (ep_epoch epoch)) \<noteq> None \<and> \<not> force then (Inr (), dir)
       else (case (validators_reply, schedule_reply) of
           (Inr validators, Inr schedule) \<Rightarrow>
             cache_save to_json written \<lparr>sn_fetched_at = now, sn_epoch = epoch, sn_validators = validators, sn_schedule = schedule\<rparr> dir
         | (Inl e, _) \<Rightarrow> (Inl e, dir)
         | (_, Inl e) \<Rightarrow> (Inl e, dir)))"

definition load_snapshot :: "(string \<Rightarrow> string + epoch_snapshot) \<Rightarrow> u64 option \<Rightarrow> leader_dir \<Rightarrow> leader_error + epoch_snapshot" where
  "load_snapshot from_json epoch dir = (case epoch of
     Some e \<Rightarrow> cache_load from_json e dir
   | None \<Rightarrow> (case latest_snapshot from_json dir of
       Inl e \<Rightarrow> Inl e | Inr None \<Rightarrow> Inl LmNoSnapshot | Inr (Some snap) \<Rightarrow> Inr snap))"

definition summary_cmd :: "(128 word \<Rightarrow> 128 word \<Rightarrow> real) \<Rightarrow> (string \<Rightarrow> string + epoch_snapshot) \<Rightarrow> u64 option \<Rightarrow> leader_dir \<Rightarrow> leader_error + epoch_summary" where
  "summary_cmd share from_json epoch dir = (case load_snapshot from_json epoch dir of
     Inl e \<Rightarrow> Inl e | Inr snap \<Rightarrow> Inr (summarize share snap (build_slot_map snap)))"

definition at_cmd :: "(string \<Rightarrow> string + epoch_snapshot) \<Rightarrow> u64 \<Rightarrow> u64 option \<Rightarrow> leader_dir \<Rightarrow> leader_error + slot_entry option" where
  "at_cmd from_json slot epoch dir = (case load_snapshot from_json epoch dir of
     Inl e \<Rightarrow> Inl e | Inr snap \<Rightarrow> Inr (bt_get (build_slot_map snap) slot))"

text \<open>\<open>input.split("..")\<close>\<close>

fun split_dots :: "string \<Rightarrow> string list" where
  "split_dots [] = [[]]"
| "split_dots (c # s) = (if c = CHR ''.'' \<and> s \<noteq> [] \<and> hd s = CHR ''.'' then [] # split_dots (tl s)
     else (case split_dots s of [] \<Rightarrow> [[c]] | p # ps \<Rightarrow> (c # p) # ps))"

definition parse_range :: "string \<Rightarrow> leader_error + u64 \<times> u64" where
  "parse_range input = (case split_dots input of
     [a, b] \<Rightarrow> (case signed_u64 a of
         None \<Rightarrow> Inl (LmBadRange input)
       | Some start \<Rightarrow> (case signed_u64 b of None \<Rightarrow> Inl (LmBadRange input) | Some end' \<Rightarrow> Inr (start, end')))
   | _ \<Rightarrow> Inl (LmBadRange input))"

definition slots_cmd :: "(string \<Rightarrow> string + epoch_snapshot) \<Rightarrow> string \<Rightarrow> u64 option \<Rightarrow> leader_dir \<Rightarrow> leader_error + slot_entry list" where
  "slots_cmd from_json input epoch dir = (case parse_range input of
     Inl e \<Rightarrow> Inl e
   | Inr (start, end') \<Rightarrow>
       if end' < start then Inl LmEmptyRange
       else (case load_snapshot from_json epoch dir of
           Inl e \<Rightarrow> Inl e
         | Inr snap \<Rightarrow> Inr (List.map_filter (bt_get (build_slot_map snap)) (map of_nat [unat start..<Suc (unat end')]))))"

section \<open>The slot map is the schedule\<close>

definition leader_at :: "epoch_snapshot \<Rightarrow> u64 \<Rightarrow> identity option" where
  "leader_at snap slot = map_option fst (find (\<lambda>l. slot - epoch_first_slot (sn_epoch snap) \<in> set (snd l)) (rev (sn_schedule snap)))"

definition info_for :: "epoch_snapshot \<Rightarrow> identity \<Rightarrow> validator_info option" where
  "info_for snap ident = find (\<lambda>v. vi_identity v = ident) (rev (sn_validators snap))"

lemma by_identity_get: "bt_get (by_identity vs) ident = find (\<lambda>v. vi_identity v = ident) (rev vs)"
  by (induction vs rule: rev_induct) (auto simp: by_identity_def bt_get_def [of "[]"])

lemma place_slots_get: "bt_get (place_slots m first leader out) slot =
    (if slot - first \<in> set (snd leader) then Some (slot_entry_of m (fst leader) slot) else bt_get out slot)"
proof -
  have "bt_get (fold (\<lambda>idx. bt_insert (first + idx) (slot_entry_of m i (first + idx))) idxs out) slot =
      (if slot - first \<in> set idxs then Some (slot_entry_of m i slot) else bt_get out slot)" for idxs i
    by (induction idxs arbitrary: out) (auto simp: algebra_simps)
  then show ?thesis by (simp add: place_slots_def)
qed

lemma build_slot_map_get: "bt_get (build_slot_map snap) slot =
    map_option (\<lambda>ident. slot_entry_of (by_identity (sn_validators snap)) ident slot) (leader_at snap slot)"
proof -
  have "bt_get (fold (place_slots m first) ls []) slot =
      map_option (\<lambda>ident. slot_entry_of m ident slot) (map_option fst (find (\<lambda>l. slot - first \<in> set (snd l)) (rev ls)))" for m first ls
    by (induction ls rule: rev_induct) (auto simp: place_slots_get bt_get_def [of "[]"])
  then show ?thesis by (simp add: build_slot_map_def leader_at_def)
qed

lemma build_slot_map_ok: "bt_ok (build_slot_map snap)"
proof -
  have "bt_ok (place_slots m first l out)" if "bt_ok out" for m first l and out :: "(u64, slot_entry) btree"
    unfolding place_slots_def by (rule fold_invariant) (use that in auto)
  then have "bt_ok (fold (place_slots m first) ls out)" if "bt_ok out" for m first ls and out :: "(u64, slot_entry) btree"
    using that by (induction ls arbitrary: out) auto
  then show ?thesis by (simp add: build_slot_map_def)
qed

text \<open>
  A command looks a slot up in the schedule of the snapshot: it finds the leader the schedule gives the slot,
  with the name, country, data center and stake of that leader's validator record (the last one of its identity),
  none and a stake of zero when it has no record; a slot the schedule does not give is absent.
\<close>

theorem leader_map_exact:
  "at_cmd from_json slot epoch dir = (case load_snapshot from_json epoch dir of
      Inl e \<Rightarrow> Inl e
    | Inr snap \<Rightarrow> Inr (map_option (\<lambda>ident. let info = info_for snap ident in
        \<lparr>sl_absolute_slot = slot, sl_identity = ident, sl_validator_name = Option.bind info vi_name,
         sl_country_code = Option.bind info vi_country_code, sl_data_center_key = Option.bind info vi_data_center_key,
         sl_stake_lamports = (case info of Some v \<Rightarrow> vi_active_stake_lamports v | None \<Rightarrow> 0)\<rparr>) (leader_at snap slot)))"
  by (simp add: at_cmd_def build_slot_map_get slot_entry_of_def by_identity_get info_for_def split: sum.splits)

section \<open>The shares add up\<close>

lemma bump_get: "bt_get_or 0 (bump k n m) j = (if j = k then bt_get_or 0 m j + n else bt_get_or 0 m j)"
  by (simp add: bump_def bt_get_or_def)

lemma bump_keys: "set (bt_keys (bump k n m)) = insert k (set (bt_keys m))"
  by (simp add: bump_def bt_keys_def)

lemma fold_bump:
  "bt_get_or 0 (fold (\<lambda>x. bump (key x) (w x)) xs m) k = bt_get_or 0 m k + sum_list (map w (filter (\<lambda>x. key x = k) xs))"
  "set (bt_keys (fold (\<lambda>x. bump (key x) (w x)) xs m)) = key ` set xs \<union> set (bt_keys m)"
  by (induction xs arbitrary: m) (auto simp: bump_get bump_keys algebra_simps)

text \<open>Sums by key over a set of keys that covers the list.\<close>

lemma sum_by_key:
  fixes w :: "'x \<Rightarrow> 'a::len word"
  assumes "distinct ks" "key ` set xs \<subseteq> set ks"
  shows "sum_list (map (\<lambda>k. sum_list (map w (filter (\<lambda>x. key x = k) xs))) ks) = sum_list (map w xs)"
  using assms(2)
proof (induction xs)
  case (Cons x xs)
  have "sum_list (map (\<lambda>k. if key x = k then w x else 0) ks) = w x"
    using assms(1) Cons.prems by (simp add: sum_list_distinct_conv_sum_set)
  moreover have eq: "map (\<lambda>k. sum_list (map w (filter (\<lambda>x. key x = k) (x # xs)))) ks =
      map (\<lambda>k. (if key x = k then w x else 0) + sum_list (map w (filter (\<lambda>x. key x = k) xs))) ks" by simp
  ultimately show ?case using Cons unfolding eq sum_list_addf by simp
qed (simp add: sum_list_0)


definition slot_country :: "slot_entry \<Rightarrow> string" where
  "slot_country e = (case sl_country_code e of Some cc \<Rightarrow> cc | None \<Rightarrow> UNKNOWN_COUNTRY)"

lemma slots_per_country_eq:
  "slots_per_country es = (fold (\<lambda>e. bump (slot_country e) 1) (filter (\<lambda>e. sl_country_code e \<noteq> None) es) [],
     of_nat (length (filter (\<lambda>e. sl_country_code e = None) es)))"
proof -
  have "fold (\<lambda>e (m, unknown). case sl_country_code e of Some cc \<Rightarrow> (bump cc 1 m, unknown) | None \<Rightarrow> (m, unknown + 1)) es (m, u) =
      (fold (\<lambda>e. bump (slot_country e) 1) (filter (\<lambda>e. sl_country_code e \<noteq> None) es) m,
       u + of_nat (length (filter (\<lambda>e. sl_country_code e = None) es)))" for m and u :: u64
    by (induction es arbitrary: m u) (auto simp: slot_country_def)
  from this [of "[]" 0] show ?thesis by (simp only: slots_per_country_def add_0)
qed

lemma sum_ones: "sum_list (map (\<lambda>x. 1) xs) = (of_nat (length xs) :: 'a::len word)"
  by (induction xs) simp_all

text \<open>The slots of a country, when no validator states the placeholder as its country.\<close>

lemma country_slot_count:
  assumes "\<forall>e \<in> set es. sl_country_code e \<noteq> Some UNKNOWN_COUNTRY"
  shows "cy_slot_count (country_summary_of share snap es total_slots total_stake cc) =
    sum_list (map (\<lambda>e. 1) (filter (\<lambda>e. slot_country e = cc) es))"
proof -
  have u: "filter (\<lambda>e. slot_country e = UNKNOWN_COUNTRY) es = filter (\<lambda>e. sl_country_code e = None) es"
    using assms by (intro filter_cong) (auto simp: slot_country_def split: option.splits)
  have k: "filter (\<lambda>e. slot_country e = cc) (filter (\<lambda>e. sl_country_code e \<noteq> None) es) = filter (\<lambda>e. slot_country e = cc) es"
    if "cc \<noteq> UNKNOWN_COUNTRY"
    unfolding filter_filter using that by (intro filter_cong) (auto simp: slot_country_def split: option.splits)
  show ?thesis
  proof (cases "cc = UNKNOWN_COUNTRY")
    case True
    then show ?thesis unfolding country_summary_of_def slots_per_country_eq Let_def sum_ones by (simp add: u)
  next
    case False
    show ?thesis unfolding country_summary_of_def slots_per_country_eq Let_def
      by (simp only: prod.case country_summary.simps fold_bump k [OF False] False if_False bt_get_or_Nil add_0)
  qed
qed

lemma set_all_countries: "set (all_countries slots stake unknown) =
    set (bt_keys slots) \<union> set (bt_keys stake) \<union> (if unknown > 0 then {UNKNOWN_COUNTRY} else {})"
  by (simp add: all_countries_def Un_assoc)

lemma distinct_all_countries: "distinct (all_countries slots stake unknown)"
  by (simp add: all_countries_def)

lemma sum_list_sorted: "sum_list (map f (sort_key g xs)) = (sum_list (map f xs) :: 'a::len word)"
proof -
  have "sum_mset (mset (map f (sort_key g xs))) = sum_mset (mset (map f xs))" by simp
  then show ?thesis by (simp only: sum_mset_sum_list)
qed

text \<open>
  C33. The summary of a snapshot is a partition: its countries are distinct and ordered by falling share, their slot
  counts add up to the slots of the map, their stakes to the stake of all validators and their validator counts to
  the number of validators; slots without a country are the unknown ones.  A validator whose own country code is
  the placeholder is excluded: its slots would be lost.
\<close>

theorem country_shares_add_up:
  assumes "\<forall>v \<in> set (sn_validators snap). vi_country_code v \<noteq> Some UNKNOWN_COUNTRY" "length (build_slot_map snap) < 2 ^ 64"
  shows "let su = summarize share snap (build_slot_map snap); cs = su_countries su in
    distinct (map cy_country_code cs) \<and> sorted (map (\<lambda>c. - cy_slot_percentage c) cs)
    \<and> sum_list (map cy_slot_count cs) = su_total_slots su
    \<and> sum_list (map cy_stake_lamports cs) = su_total_stake_lamports su
    \<and> sum_list (map cy_validator_count cs) = of_nat (length (sn_validators snap))
    \<and> su_mapped_slots su = of_nat (length (filter (\<lambda>e. sl_country_code e \<noteq> None) (map snd (build_slot_map snap))))"
proof -
  define es where "es = map snd (build_slot_map snap)"
  let ?vs = "sn_validators snap"
  obtain slots unknown where sp: "slots_per_country es = (slots, unknown)" by fastforce
  define ks where "ks = all_countries slots (stake_per_country ?vs) unknown"
  define total_stake where "total_stake = (sum_list (map (\<lambda>v. ucast (vi_active_stake_lamports v)) ?vs) :: 128 word)"
  let ?cs = "map (country_summary_of share snap es (of_nat (length es)) total_stake) ks"
  have len: "length (build_slot_map snap) = length es" by (simp add: es_def)
  have su: "su_countries (summarize share snap (build_slot_map snap)) = sort_key (\<lambda>c. - cy_slot_percentage c) ?cs"
      "su_total_slots (summarize share snap (build_slot_map snap)) = of_nat (length es)"
      "su_mapped_slots (summarize share snap (build_slot_map snap)) = of_nat (length es) - unknown"
      "su_total_stake_lamports (summarize share snap (build_slot_map snap)) = total_stake"
    by (simp_all add: summarize_def Let_def es_def [symmetric] sp ks_def total_stake_def len)
  have entry: "sl_country_code e \<noteq> Some UNKNOWN_COUNTRY" if "e \<in> set es" for e
  proof -
    from that obtain slot where "bt_get (build_slot_map snap) slot = Some e"
      using build_slot_map_ok [of snap] by (auto simp: es_def bt_get_in_set)
    then obtain ident where e: "e = slot_entry_of (by_identity ?vs) ident slot" by (auto simp: build_slot_map_get)
    show ?thesis using assms(1) find_in_set [of _ "rev ?vs"]
      by (auto simp: e slot_entry_of_def by_identity_get Let_def bind_eq_Some_conv)
  qed
  have lt: "length (filter (\<lambda>e. sl_country_code e = None) es) < 2 ^ 64" using assms(2) length_filter_le [of _ es] len by (metis le_less_trans)
  have ks: "distinct ks" "slot_country ` set es \<subseteq> set ks" "country_of ` set ?vs \<subseteq> set ks"
  proof -
    show "distinct ks" by (simp add: ks_def distinct_all_countries)
    show "country_of ` set ?vs \<subseteq> set ks" by (auto simp: ks_def set_all_countries stake_per_country_def fold_bump)
    have "unknown > 0" if "e \<in> set es" "sl_country_code e = None" for e
    proof -
      have "filter (\<lambda>e. sl_country_code e = None) es \<noteq> []" using that by (auto simp: filter_empty_conv)
      then have "0 < unat unknown" using sp lt by (auto simp: slots_per_country_eq unat_of_nat)
      then show ?thesis by (simp add: unat_gt_0 word_neq_0_conv)
    qed
    then have "slot_country e \<in> set ks" if e: "e \<in> set es" for e
    proof (cases "sl_country_code e")
      case None
      with \<open>\<And>e. e \<in> set es \<Longrightarrow> sl_country_code e = None \<Longrightarrow> unknown > 0\<close> [OF e] show ?thesis
        by (simp add: ks_def set_all_countries slot_country_def)
    next
      case (Some cc)
      with e have "slot_country e \<in> slot_country ` set (filter (\<lambda>e. sl_country_code e \<noteq> None) es)" by (intro imageI) simp
      then show ?thesis using sp unfolding ks_def set_all_countries slots_per_country_eq by (auto simp: fold_bump)
    qed
    then show "slot_country ` set es \<subseteq> set ks" by blast
  qed
  have "sum_list (map cy_slot_count ?cs) = of_nat (length es)"
    using country_slot_count [of es] entry sum_by_key [OF ks(1,2), of "\<lambda>e. 1"] by (simp add: comp_def sum_ones)
  moreover have "sum_list (map cy_stake_lamports ?cs) = total_stake"
    using sum_by_key [OF ks(1,3), of "\<lambda>v. ucast (vi_active_stake_lamports v) :: 128 word"]
    by (simp add: comp_def country_summary_of_def case_prod_unfold Let_def stake_per_country_def fold_bump total_stake_def
        bt_get_or_Nil)
  moreover have "sum_list (map cy_validator_count ?cs) = of_nat (length ?vs)"
    using sum_by_key [OF ks(1,3), of "\<lambda>v. 1 :: u64"]
    by (simp add: comp_def country_summary_of_def case_prod_unfold Let_def validators_per_country_def fold_bump sum_ones
        bt_get_or_Nil)
  moreover have "of_nat (length es) - unknown = of_nat (length (filter (\<lambda>e. sl_country_code e \<noteq> None) es))"
    using sp sum_length_filter_compl [of "\<lambda>e. sl_country_code e = None" es]
    by (auto simp: slots_per_country_eq algebra_simps simp flip: of_nat_add)
  moreover have "distinct (map cy_country_code (sort_key (\<lambda>c. - cy_slot_percentage c) ?cs))"
    using ks(1) by (simp add: distinct_map inj_on_def country_summary_of_def case_prod_unfold Let_def)
  ultimately show ?thesis unfolding Let_def su sum_list_sorted es_def [symmetric] by simp
qed

section \<open>The cache gives back what was saved\<close>

lemma strip_prefix_append [simp]: "strip_prefix p (p @ s) = Some s"
  by (simp add: strip_prefix_def)

lemma strip_suffix_append: "strip_suffix p (s @ p) = Some s"
  unfolding strip_suffix_def rev_append strip_prefix_append by simp

lemma parse_dec_digits: "parse_u64 (dec_digits (unat n)) = Some n"
  using dec_digits_read [of "unat n"] unat_bound [of n] by (simp add: parse_u64_def)

lemma signed_dec_digits: "signed_u64 (dec_digits (unat n)) = Some n"
proof -
  obtain c ds where d: "dec_digits (unat n) = c # ds" using dec_digits_read [of "unat n"] by (cases "dec_digits (unat n)") auto
  then have "is_ascii_digit c" using dec_digits_read [of "unat n"] by simp
  then have "c \<noteq> CHR ''+''" by (auto simp: is_ascii_digit_def)
  with parse_dec_digits [of n] d show ?thesis by (simp add: signed_u64_def)
qed

lemma epoch_of_snapshot_name: "epoch_of_name (snapshot_name epoch) = Some epoch"
  unfolding epoch_of_name_def snapshot_name_def strip_prefix_append
  by (simp add: strip_suffix_append signed_dec_digits)

lemma newest_epoch_max:
  assumes "(name, text) \<in> set dir" "epoch_of_name name = Some epoch" "\<And>f e. f \<in> set dir \<Longrightarrow> epoch_of_name (fst f) = Some e \<Longrightarrow> e \<le> epoch"
  shows "newest_epoch dir = Some epoch"
proof -
  let ?step = "\<lambda>f newest. case epoch_of_name (fst f) of
       None \<Rightarrow> newest
     | Some epoch \<Rightarrow> if (case newest of None \<Rightarrow> True | Some e \<Rightarrow> epoch > e) then Some epoch else newest"
  have "(\<exists>f \<in> set fs. epoch_of_name (fst f) = Some epoch) \<or> acc = Some epoch \<Longrightarrow>
      \<forall>f \<in> set fs. \<forall>e. epoch_of_name (fst f) = Some e \<longrightarrow> e \<le> epoch \<Longrightarrow> (\<forall>e. acc = Some e \<longrightarrow> e \<le> epoch) \<Longrightarrow>
      fold ?step fs acc = Some epoch" for fs :: leader_dir and acc
  proof (induction fs arbitrary: acc)
    case (Cons f fs)
    have "(\<exists>f \<in> set fs. epoch_of_name (fst f) = Some epoch) \<or> ?step f acc = Some epoch"
      using Cons.prems by (cases "epoch_of_name (fst f)"; cases acc) (auto simp: not_less)
    moreover have "\<forall>e. ?step f acc = Some e \<longrightarrow> e \<le> epoch"
      using Cons.prems by (auto split: option.splits if_splits)
    ultimately show ?case using Cons.IH [of "?step f acc"] Cons.prems(2) by (simp only: fold_simps(2) list.set_intros(2) comp_def) simp
  qed simp
  from this [of dir None] show ?thesis unfolding newest_epoch_def
  proof (rule meta_mp)
    show "(\<exists>f \<in> set dir. epoch_of_name (fst f) = Some epoch) \<or> None = Some epoch" using assms(1,2) by force
  qed (use assms(3) in auto)
qed

text \<open>
  C34. What a fetch saves is what the commands use next: when the fetch succeeds, the snapshot is of an epoch not older than
  those in the directory and its text reads back, the commands without an explicit epoch load that very snapshot,
  and so do those with its epoch.
\<close>

theorem fetched_snapshot_is_used:
  assumes "leader_fetch to_json now (Inr epoch) (Inr validators) (Inr schedule) True written dir = (Inr (), dir')"
    and "from_json (to_json \<lparr>sn_fetched_at = now, sn_epoch = epoch, sn_validators = validators, sn_schedule = schedule\<rparr>)
      = Inr \<lparr>sn_fetched_at = now, sn_epoch = epoch, sn_validators = validators, sn_schedule = schedule\<rparr>"
    and "\<forall>f \<in> set dir. \<forall>e. epoch_of_name (fst f) = Some e \<longrightarrow> e \<le> ep_epoch epoch"
  shows "load_snapshot from_json None dir' = Inr \<lparr>sn_fetched_at = now, sn_epoch = epoch, sn_validators = validators, sn_schedule = schedule\<rparr>
    \<and> load_snapshot from_json (Some (ep_epoch epoch)) dir'
        = Inr \<lparr>sn_fetched_at = now, sn_epoch = epoch, sn_validators = validators, sn_schedule = schedule\<rparr>"
proof -
  let ?snap = "\<lparr>sn_fetched_at = now, sn_epoch = epoch, sn_validators = validators, sn_schedule = schedule\<rparr>"
  let ?name = "snapshot_name (ep_epoch epoch)"
  have dir': "dir' = hm_insert ?name (to_json ?snap) dir" using assms(1)
    by (simp add: leader_fetch_def cache_save_def Let_def split: write_result.splits)
  have load: "cache_load from_json (ep_epoch epoch) dir' = Inr ?snap" using assms(2) by (simp add: cache_load_def dir')
  have names: "fst ` set dir' \<subseteq> insert ?name (fst ` set dir)"
    unfolding dir' using set_hm_keys_insert [of ?name "to_json ?snap" dir] by (simp add: hm_keys_def)
  have "hm_get dir' ?name = Some (to_json ?snap)" by (simp add: dir')
  then have "(?name, to_json ?snap) \<in> set dir'" unfolding hm_get_def by (rule map_of_SomeD)
  moreover have "e \<le> ep_epoch epoch" if "f \<in> set dir'" "epoch_of_name (fst f) = Some e" for f e
    using names that assms(3) epoch_of_snapshot_name [of "ep_epoch epoch"] by fastforce
  ultimately have "newest_epoch dir' = Some (ep_epoch epoch)" using newest_epoch_max [OF _ epoch_of_snapshot_name] by blast
  with load show ?thesis by (simp add: load_snapshot_def latest_snapshot_def)
qed

text \<open>
  A fetch whose write breaks off reports the error but leaves the part in the directory, and a part is enough for the
  next fetch of the epoch to succeed without asking for anything: every command on that epoch then fails, until a
  fetch is forced.
\<close>

lemma broken_write_sticks:
  assumes "leader_fetch to_json now (Inr epoch) (Inr validators) (Inr schedule) force (WrotePart part) dir = (r, dir')"
    and "hm_get dir (snapshot_name (ep_epoch epoch)) = None \<or> force" "from_json part = Inl e"
  shows "r = Inl (LmWrite (snapshot_name (ep_epoch epoch)))"
    and "leader_fetch to_json now' (Inr epoch) validators_reply schedule_reply False written dir' = (Inr (), dir')"
    and "load_snapshot from_json (Some (ep_epoch epoch)) dir' = Inl (LmParse e)"
  using assms by (auto simp: leader_fetch_def cache_save_def cache_load_def load_snapshot_def Let_def split: if_splits)

section \<open>An epoch of three slots\<close>

definition demo_epoch :: "u64 \<Rightarrow> epoch_info" where
  "demo_epoch n = \<lparr>ep_epoch = n, ep_absolute_slot = 101, ep_slot_index = 1, ep_slots_in_epoch = 3\<rparr>"

definition demo_validators :: "validator_info list" where
  "demo_validators = [\<lparr>vi_identity = ''A'', vi_name = None, vi_vote_account = None, vi_active_stake_lamports = 5, vi_country_code = Some ''DE'',
     vi_data_center_key = None, vi_asn = None, vi_asn_organization = None, vi_ip = None\<rparr>]"

definition demo_leaders :: "(identity, u64 list) btree" where
  "demo_leaders = [(''A'', [0, 2]), (''B'', [1])]"

definition demo_snapshot :: "u64 \<Rightarrow> epoch_snapshot" where
  "demo_snapshot n = \<lparr>sn_fetched_at = 0, sn_epoch = demo_epoch n, sn_validators = demo_validators, sn_schedule = demo_leaders\<rparr>"

lemma demo_slot_map: "length (build_slot_map (demo_snapshot 8)) = 3"
  by (simp add: build_slot_map_def demo_snapshot_def demo_leaders_def demo_epoch_def place_slots_def epoch_first_slot_def)

theorem country_shares_add_up_witness:
  "sum_list (map cy_slot_count (su_countries (summarize (\<lambda>a b. 0) (demo_snapshot 8) (build_slot_map (demo_snapshot 8))))) = 3
    \<and> sum_list (map cy_stake_lamports (su_countries (summarize (\<lambda>a b. 0) (demo_snapshot 8) (build_slot_map (demo_snapshot 8))))) = 5"
proof -
  have "\<forall>v \<in> set (sn_validators (demo_snapshot 8)). vi_country_code v \<noteq> Some UNKNOWN_COUNTRY"
    by (simp add: demo_snapshot_def demo_validators_def UNKNOWN_COUNTRY_def)
  moreover have "length (build_slot_map (demo_snapshot 8)) < 2 ^ 64" by (simp add: demo_slot_map)
  moreover have "su_total_slots (summarize (\<lambda>a b. 0) (demo_snapshot 8) (build_slot_map (demo_snapshot 8))) = 3"
    "su_total_stake_lamports (summarize (\<lambda>a b. 0) (demo_snapshot 8) (build_slot_map (demo_snapshot 8))) = 5"
    by (simp_all add: summarize_def Let_def case_prod_unfold demo_slot_map) (simp add: demo_snapshot_def demo_validators_def)
  ultimately show ?thesis using country_shares_add_up [of "demo_snapshot 8" "\<lambda>a b. 0"] by (simp add: Let_def)
qed

theorem fetched_snapshot_is_used_witness:
  "load_snapshot (\<lambda>s. Inr (demo_snapshot 8)) None
      (snd (leader_fetch (\<lambda>s. []) 0 (Inr (demo_epoch 8)) (Inr demo_validators) (Inr demo_leaders) True WroteAll [(snapshot_name 7, [])]))
    = Inr (demo_snapshot 8)"
proof -
  let ?r = "leader_fetch (\<lambda>s. []) 0 (Inr (demo_epoch 8)) (Inr demo_validators) (Inr demo_leaders) True WroteAll [(snapshot_name 7, [])]"
  have "?r = (Inr (), snd ?r)" by (simp add: leader_fetch_def cache_save_def Let_def)
  moreover have "\<forall>f \<in> set [(snapshot_name 7, [] :: string)]. \<forall>e. epoch_of_name (fst f) = Some e \<longrightarrow> e \<le> ep_epoch (demo_epoch 8)"
    by (simp add: epoch_of_snapshot_name demo_epoch_def)
  ultimately show ?thesis
    using fetched_snapshot_is_used [where to_json = "\<lambda>s. []" and now = 0 and epoch = "demo_epoch 8" and validators = demo_validators
        and schedule = demo_leaders and dir = "[(snapshot_name 7, [])]" and dir' = "snd ?r" and from_json = "\<lambda>s. Inr (demo_snapshot 8)"]
    by (simp add: demo_snapshot_def)
qed

end
