(* ===== verification/FanFinality.thy ===== *)
theory FanFinality
  imports FanMatcher
begin

text \<open>
  The finality tracker and the RPC fallback of the earlier bench (\<open>crates/fan-out-bench/src/finality_tracker.rs\<close>,
  \<open>rpc_fallback.rs\<close>): each asks the node for the status of up to a hundred signatures per turn, writes an update for
  every settled one and puts the others at the end of its list.  The node is a parameter; a line written to the
  side file is an element of a list (its text and a failed write are left out).
\<close>

section \<open>The reply of the node\<close>

datatype confirmation = ConfProcessed | ConfConfirmed | ConfFinalized

record sig_status =
  sg_slot :: u64
  sg_confirmations :: "nat option"
  sg_err :: "string option"
  sg_confirmation_status :: "confirmation option"

type_synonym status_reply = "string + sig_status option list"

section \<open>A chunk\<close>

text \<open>The loop over the drained chunk and its statuses; \<open>clk i\<close> is the clock at the i-th entry.  The settled ones with
  their verdict, and the others.\<close>

fun settle_chunk :: "(finality_queue_entry \<Rightarrow> sig_status option \<Rightarrow> instant \<Rightarrow> string option) \<Rightarrow> (nat \<Rightarrow> instant) \<Rightarrow> nat \<Rightarrow>
    (finality_queue_entry \<times> sig_status option) list \<Rightarrow>
    (finality_queue_entry \<times> sig_status option \<times> string) list \<times> finality_queue_entry list" where
  "settle_chunk classify clk i [] = ([], [])"
| "settle_chunk classify clk i ((entry, status) # rest) =
     (let (settled, still) = settle_chunk classify clk (i + 1) rest in
      case classify entry status (clk i) of
        Some fs \<Rightarrow> ((entry, status, fs) # settled, still)
      | None \<Rightarrow> (settled, entry # still))"

definition CHUNK_SIZE :: nat where
  "CHUNK_SIZE = 100"

record poll_readings =
  po_arrived :: "finality_queue_entry list"
  po_reply :: status_reply
  po_now :: instant
  po_clk :: "nat \<Rightarrow> instant"

section \<open>The finality tracker\<close>

record finality_update =
  fu_trigger_id :: fan_trigger_id
  fu_sender_id :: u8
  fu_signature :: signature
  fu_final_status :: string
  fu_finalization_slot :: "u64 option"
  fu_finalization_checked_at_ns :: u64

record finality_tracker =
  fy_pending :: "finality_queue_entry list"
  fy_file :: "finality_update list"
  fy_finality_confirmed :: u64
  fy_finality_uncertain :: u64

definition finality_tracker_new :: finality_tracker where
  "finality_tracker_new = \<lparr>fy_pending = [], fy_file = [], fy_finality_confirmed = 0, fy_finality_uncertain = 0\<rparr>"

definition finality_verdict :: "finality_queue_entry \<Rightarrow> sig_status option \<Rightarrow> instant \<Rightarrow> string option" where
  "finality_verdict entry status now = (case status of
     Some s \<Rightarrow> if sg_confirmation_status s = Some ConfFinalized then Some ''CONFIRMED'' else None
   | None \<Rightarrow> if since now (fq_queued_at entry) > 300 * 10 ^ 9 then Some ''UNCERTAIN_NO_STATUS'' else None)"

definition write_finality :: "u64 \<Rightarrow> finality_queue_entry \<times> sig_status option \<times> string \<Rightarrow> finality_tracker \<Rightarrow> finality_tracker" where
  "write_finality now_ns esf ft = (let (entry, status, fs) = esf in
     ft\<lparr>fy_file := fy_file ft @ [\<lparr>fu_trigger_id = fq_trigger_id entry, fu_sender_id = fq_sender_id entry,
          fu_signature = fq_signature entry, fu_final_status = fs, fu_finalization_slot = map_option sg_slot status,
          fu_finalization_checked_at_ns = now_ns\<rparr>],
        fy_finality_confirmed := (if fs = ''CONFIRMED'' then fy_finality_confirmed ft + 1 else fy_finality_confirmed ft),
        fy_finality_uncertain := (if fs = ''UNCERTAIN_NO_STATUS'' then fy_finality_uncertain ft + 1 else fy_finality_uncertain ft)\<rparr>)"

definition finality_turn :: "instant \<Rightarrow> poll_readings \<Rightarrow> finality_tracker \<Rightarrow> finality_tracker" where
  "finality_turn anchor po ft =
     (let pending = fy_pending ft @ po_arrived po in
      if pending = [] then ft\<lparr>fy_pending := pending\<rparr>
      else let chunk_size = min (length pending) CHUNK_SIZE in
        case po_reply po of
          Inl e \<Rightarrow> ft\<lparr>fy_pending := pending\<rparr>
        | Inr statuses \<Rightarrow>
            let now_ns = trunc_u64 (since (po_now po) anchor);
                (settled, still) = settle_chunk finality_verdict (po_clk po) 0 (zip (take chunk_size pending) statuses)
            in fold (write_finality now_ns) settled (ft\<lparr>fy_pending := drop chunk_size pending @ still\<rparr>))"

section \<open>The RPC fallback\<close>

record fallback_update =
  fb_trigger_id :: fan_trigger_id
  fb_sender_id :: u8
  fb_signature :: signature
  fb_final_status :: string
  fb_finalization_checked_at_ns :: u64

record fan_fallback =
  fx_pending :: "finality_queue_entry list"
  fx_file :: "fallback_update list"
  fx_recovered_landed :: u64
  fx_confirmed_missing :: u64
  fx_error :: u64

definition fan_fallback_new :: fan_fallback where
  "fan_fallback_new = \<lparr>fx_pending = [], fx_file = [], fx_recovered_landed = 0, fx_confirmed_missing = 0, fx_error = 0\<rparr>"

definition fallback_verdict :: "u64 \<Rightarrow> finality_queue_entry \<Rightarrow> sig_status option \<Rightarrow> instant \<Rightarrow> string option" where
  "fallback_verdict max_age_secs entry status now =
     (let age = since now (fq_queued_at entry) div 10 ^ 9 in
      if status \<noteq> None then Some ''CONFIRMED''
      else if age \<ge> unat max_age_secs then Some ''UNCERTAIN_NO_STATUS'' else None)"

definition write_fallback :: "u64 \<Rightarrow> finality_queue_entry \<times> sig_status option \<times> string \<Rightarrow> fan_fallback \<Rightarrow> fan_fallback" where
  "write_fallback now_ns esf fb = (let (entry, status, fs) = esf in
     fb\<lparr>fx_file := fx_file fb @ [\<lparr>fb_trigger_id = fq_trigger_id entry, fb_sender_id = fq_sender_id entry,
          fb_signature = fq_signature entry, fb_final_status = fs, fb_finalization_checked_at_ns = now_ns\<rparr>],
        fx_recovered_landed := (if fs = ''CONFIRMED'' then fx_recovered_landed fb + 1 else fx_recovered_landed fb),
        fx_confirmed_missing := (if fs = ''UNCERTAIN_NO_STATUS'' then fx_confirmed_missing fb + 1 else fx_confirmed_missing fb)\<rparr>)"

definition fallback_turn :: "u64 \<Rightarrow> instant \<Rightarrow> poll_readings \<Rightarrow> fan_fallback \<Rightarrow> fan_fallback" where
  "fallback_turn max_age_secs anchor po fb =
     (let pending = fx_pending fb @ po_arrived po in
      if pending = [] then fb\<lparr>fx_pending := pending\<rparr>
      else let chunk_size = min (length pending) CHUNK_SIZE in
        case po_reply po of
          Inl e \<Rightarrow> fb\<lparr>fx_pending := pending, fx_error := fx_error fb + 1\<rparr>
        | Inr statuses \<Rightarrow>
            let now_ns = trunc_u64 (since (po_now po) anchor);
                (settled, still) = settle_chunk (fallback_verdict max_age_secs) (po_clk po) 0 (zip (take chunk_size pending) statuses)
            in fold (write_fallback now_ns) settled (fb\<lparr>fx_pending := drop chunk_size pending @ still\<rparr>))"

definition finality_run :: "instant \<Rightarrow> poll_readings list \<Rightarrow> finality_tracker \<Rightarrow> finality_tracker" where
  "finality_run anchor pos ft = fold (finality_turn anchor) pos ft"

definition fallback_run :: "u64 \<Rightarrow> instant \<Rightarrow> poll_readings list \<Rightarrow> fan_fallback \<Rightarrow> fan_fallback" where
  "fallback_run max_age_secs anchor pos fb = fold (fallback_turn max_age_secs anchor) pos fb"

section \<open>Nothing is lost when every signature is answered\<close>

type_synonym entry_id = "fan_trigger_id \<times> u8 \<times> signature"

definition queue_id :: "finality_queue_entry \<Rightarrow> entry_id" where
  "queue_id e = (fq_trigger_id e, fq_sender_id e, fq_signature e)"

lemma settle_chunk_accounts:
  "image_mset queue_id (mset (map fst xs)) = mset (map (queue_id \<circ> fst) (fst (settle_chunk classify clk i xs)))
     + mset (map queue_id (snd (settle_chunk classify clk i xs)))"
proof (induction classify clk i xs rule: settle_chunk.induct)
  case (2 classify clk i entry status rest)
  obtain settled still where r: "settle_chunk classify clk (i + 1) rest = (settled, still)" by fastforce
  with 2 show ?case by (cases "classify entry status (clk i)") (simp_all add: r)
qed simp

lemma settle_chunk_verdicts:
  "(e, s, fs) \<in> set (fst (settle_chunk classify clk i xs)) \<Longrightarrow> (e, s) \<in> set xs \<and> (\<exists>j. classify e s (clk j) = Some fs)"
proof (induction classify clk i xs rule: settle_chunk.induct)
  case (2 classify clk i entry status rest)
  obtain settled still where r: "settle_chunk classify clk (i + 1) rest = (settled, still)" by fastforce
  with 2 show ?case by (cases "classify entry status (clk i)") (auto simp: r)
qed simp

text \<open>One status for every signature asked about, as the node documents it.\<close>

definition full_reply :: "finality_queue_entry list \<Rightarrow> poll_readings \<Rightarrow> bool" where
  "full_reply pending po = (case po_reply po of Inl e \<Rightarrow> True
     | Inr statuses \<Rightarrow> length statuses = min (length (pending @ po_arrived po)) CHUNK_SIZE)"

lemma chunk_split:
  assumes "length statuses = min (length pending) CHUNK_SIZE"
    and "settle_chunk classify clk 0 (zip (take (min (length pending) CHUNK_SIZE) pending) statuses) = (settled, still)"
  shows "image_mset queue_id (mset pending) = mset (map (queue_id \<circ> fst) settled)
     + mset (map queue_id (drop (min (length pending) CHUNK_SIZE) pending @ still))"
proof -
  let ?n = "min (length pending) CHUNK_SIZE"
  have zip: "map fst (zip (take ?n pending) statuses) = take ?n pending" using assms(1) by (intro map_fst_zip) simp
  have "mset pending = mset (take ?n pending) + mset (drop ?n pending)"
    by (metis append_take_drop_id mset_append)
  then have "image_mset queue_id (mset pending) = image_mset queue_id (mset (take ?n pending)) + image_mset queue_id (mset (drop ?n pending))"
    by simp
  also have "image_mset queue_id (mset (take ?n pending)) = mset (map (queue_id \<circ> fst) settled) + mset (map queue_id still)"
    using settle_chunk_accounts [of "zip (take ?n pending) statuses" classify clk 0] unfolding assms(2) zip by simp
  finally show ?thesis by (simp add: ac_simps)
qed

lemma write_finality_effect:
  "fy_pending (fold (write_finality ns) xs ft) = fy_pending ft"
  "map (\<lambda>u. (fu_trigger_id u, fu_sender_id u, fu_signature u)) (fy_file (fold (write_finality ns) xs ft)) =
     map (\<lambda>u. (fu_trigger_id u, fu_sender_id u, fu_signature u)) (fy_file ft) @ map (queue_id \<circ> fst) xs"
  "map fu_final_status (fy_file (fold (write_finality ns) xs ft)) = map fu_final_status (fy_file ft) @ map (snd \<circ> snd) xs"
  "map fu_finalization_slot (fy_file (fold (write_finality ns) xs ft)) =
     map fu_finalization_slot (fy_file ft) @ map (map_option sg_slot \<circ> fst \<circ> snd) xs"
  by (induction xs arbitrary: ft) (simp_all add: write_finality_def queue_id_def case_prod_unfold Let_def)

lemma write_finality_counts:
  "fy_finality_confirmed (fold (write_finality ns) xs ft) = fy_finality_confirmed ft + of_nat (length (filter (\<lambda>x. snd (snd x) = ''CONFIRMED'') xs))"
  "fy_finality_uncertain (fold (write_finality ns) xs ft) = fy_finality_uncertain ft + of_nat (length (filter (\<lambda>x. snd (snd x) = ''UNCERTAIN_NO_STATUS'') xs))"
  by (induction xs arbitrary: ft) (simp_all add: write_finality_def case_prod_unfold Let_def)

lemma write_fallback_effect:
  "fx_pending (fold (write_fallback ns) xs fb) = fx_pending fb"
  "map (\<lambda>u. (fb_trigger_id u, fb_sender_id u, fb_signature u)) (fx_file (fold (write_fallback ns) xs fb)) =
     map (\<lambda>u. (fb_trigger_id u, fb_sender_id u, fb_signature u)) (fx_file fb) @ map (queue_id \<circ> fst) xs"
  by (induction xs arbitrary: fb) (simp_all add: write_fallback_def queue_id_def case_prod_unfold Let_def)

definition finality_ids :: "finality_tracker \<Rightarrow> entry_id list" where
  "finality_ids ft = map (\<lambda>u. (fu_trigger_id u, fu_sender_id u, fu_signature u)) (fy_file ft)"

text \<open>The ledger of the tracker: its counters count its lines, and every line carries a verdict.\<close>

definition finality_ok :: "entry_id multiset \<Rightarrow> finality_tracker \<Rightarrow> bool" where
  "finality_ok received ft \<longleftrightarrow> received = mset (finality_ids ft) + mset (map queue_id (fy_pending ft))
     \<and> fy_finality_confirmed ft = of_nat (length (filter (\<lambda>fs. fs = ''CONFIRMED'') (map fu_final_status (fy_file ft))))
     \<and> fy_finality_uncertain ft = of_nat (length (filter (\<lambda>fs. fs = ''UNCERTAIN_NO_STATUS'') (map fu_final_status (fy_file ft))))
     \<and> (\<forall>u \<in> set (fy_file ft). fu_final_status u = ''CONFIRMED'' \<and> fu_finalization_slot u \<noteq> None
          \<or> fu_final_status u = ''UNCERTAIN_NO_STATUS'' \<and> fu_finalization_slot u = None)"

lemma map_pair: "map f xs = map f ys @ map g zs \<Longrightarrow> map h xs = map h ys @ map k zs \<Longrightarrow>
    x \<in> set xs \<Longrightarrow> (\<exists>y \<in> set ys. f x = f y \<and> h x = h y) \<or> (\<exists>z \<in> set zs. f x = g z \<and> h x = k z)"
proof -
  assume eq: "map f xs = map f ys @ map g zs" "map h xs = map h ys @ map k zs" and "x \<in> set xs"
  then obtain i where i: "i < length xs" "x = xs ! i" by (auto simp: in_set_conv_nth)
  have len: "length xs = length ys + length zs" using arg_cong [where f = length, OF eq(1)] by simp
  have f: "f x = (map f ys @ map g zs) ! i" and h: "h x = (map h ys @ map k zs) ! i"
    using i eq by (metis nth_map)+
  show ?thesis
  proof (cases "i < length ys")
    case True
    then show ?thesis using f h by (intro disjI1 bexI [of _ "ys ! i"]) (simp_all add: nth_append)
  next
    case False
    then have "i - length ys < length zs" using i(1) len by simp
    then show ?thesis using f h False by (intro disjI2 bexI [of _ "zs ! (i - length ys)"]) (simp_all add: nth_append)
  qed
qed

lemma finality_turn_ok:
  assumes ok: "finality_ok received ft" and full: "full_reply (fy_pending ft) po"
  shows "finality_ok (received + mset (map queue_id (po_arrived po))) (finality_turn anchor po ft)"
proof -
  define p where "p = fy_pending ft @ po_arrived po"
  have total: "received + mset (map queue_id (po_arrived po)) = mset (finality_ids ft) + image_mset queue_id (mset p)"
    using ok by (simp add: finality_ok_def p_def)
  have turn_def: "finality_turn anchor po ft =
     (if p = [] then ft\<lparr>fy_pending := p\<rparr>
      else case po_reply po of Inl e \<Rightarrow> ft\<lparr>fy_pending := p\<rparr>
        | Inr statuses \<Rightarrow> (let (settled, still) = settle_chunk finality_verdict (po_clk po) 0 (zip (take (min (length p) CHUNK_SIZE) p) statuses)
            in fold (write_finality (trunc_u64 (since (po_now po) anchor))) settled (ft\<lparr>fy_pending := drop (min (length p) CHUNK_SIZE) p @ still\<rparr>)))"
    by (simp only: finality_turn_def p_def Let_def)
  have keep: "finality_ok (received + mset (map queue_id (po_arrived po))) (ft\<lparr>fy_pending := p\<rparr>)"
    using ok by (simp add: finality_ok_def finality_ids_def p_def)
  show ?thesis
  proof (cases "p = [] \<or> (\<exists>e. po_reply po = Inl e)")
    case True
    then have "finality_turn anchor po ft = ft\<lparr>fy_pending := p\<rparr>" unfolding turn_def by auto
    with keep show ?thesis by simp
  next
    case False
    then obtain statuses where st: "po_reply po = Inr statuses" by (cases "po_reply po") auto
    let ?ns = "trunc_u64 (since (po_now po) anchor)"
    obtain settled still where sc: "settle_chunk finality_verdict (po_clk po) 0 (zip (take (min (length p) CHUNK_SIZE) p) statuses) = (settled, still)"
      by fastforce
    define ft0 where "ft0 = ft\<lparr>fy_pending := drop (min (length p) CHUNK_SIZE) p @ still\<rparr>"
    have ft0: "fy_file ft0 = fy_file ft" "fy_pending ft0 = drop (min (length p) CHUNK_SIZE) p @ still"
      "fy_finality_confirmed ft0 = fy_finality_confirmed ft" "fy_finality_uncertain ft0 = fy_finality_uncertain ft"
      by (simp_all add: ft0_def)
    let ?ft = "fold (write_finality ?ns) settled ft0"
    have turn: "finality_turn anchor po ft = ?ft" using False by (simp add: turn_def st sc ft0_def)
    have len: "length statuses = min (length p) CHUNK_SIZE" using full by (simp add: full_reply_def st p_def)
    note eff = write_finality_effect [of ?ns settled ft0, unfolded ft0] write_finality_counts [of ?ns settled ft0, unfolded ft0]
    have verdict: "snd (snd z) = ''CONFIRMED'' \<and> fst (snd z) \<noteq> None \<or> snd (snd z) = ''UNCERTAIN_NO_STATUS'' \<and> fst (snd z) = None"
      if "z \<in> set settled" for z
    proof -
      obtain e s fs where z: "z = (e, s, fs)" using prod_cases3 by blast
      have "(e, s, fs) \<in> set (fst (settle_chunk finality_verdict (po_clk po) 0 (zip (take (min (length p) CHUNK_SIZE) p) statuses)))"
        using that by (simp add: sc z)
      from settle_chunk_verdicts [OF this] obtain j where "finality_verdict e s (po_clk po j) = Some fs" by blast
      then show ?thesis unfolding z by (cases s) (auto simp: finality_verdict_def split: if_splits)
    qed
    have acc: "received + mset (map queue_id (po_arrived po)) = mset (finality_ids ?ft) + mset (map queue_id (fy_pending ?ft))"
      unfolding total chunk_split [OF len sc] finality_ids_def eff(1,2) by simp
    have lines: "fu_final_status u = ''CONFIRMED'' \<and> fu_finalization_slot u \<noteq> None
          \<or> fu_final_status u = ''UNCERTAIN_NO_STATUS'' \<and> fu_finalization_slot u = None" if u: "u \<in> set (fy_file ?ft)" for u
      using map_pair [OF eff(3,4) u]
    proof
      assume "\<exists>y \<in> set (fy_file ft). fu_final_status u = fu_final_status y \<and> fu_finalization_slot u = fu_finalization_slot y"
      with ok show ?thesis unfolding finality_ok_def by metis
    next
      assume "\<exists>z \<in> set settled. fu_final_status u = (snd \<circ> snd) z \<and> fu_finalization_slot u = (map_option sg_slot \<circ> fst \<circ> snd) z"
      then obtain z where z: "z \<in> set settled" "fu_final_status u = snd (snd z)" "fu_finalization_slot u = map_option sg_slot (fst (snd z))" by auto
      from verdict [OF z(1)] show ?thesis unfolding z(2,3) by simp
    qed
    have cnt: "length (filter P (map (snd \<circ> snd) settled)) = length (filter (\<lambda>x. P (snd (snd x))) settled)" for P
      by (simp add: filter_map o_def)
    have conf: "fy_finality_confirmed ?ft = of_nat (length (filter (\<lambda>fs. fs = ''CONFIRMED'') (map fu_final_status (fy_file ?ft))))"
      using ok unfolding finality_ok_def eff(3,5) filter_append length_append cnt of_nat_add by simp
    have unc: "fy_finality_uncertain ?ft = of_nat (length (filter (\<lambda>fs. fs = ''UNCERTAIN_NO_STATUS'') (map fu_final_status (fy_file ?ft))))"
      using ok unfolding finality_ok_def eff(3,6) filter_append length_append cnt of_nat_add by simp
    from acc lines conf unc show ?thesis unfolding turn finality_ok_def by blast
  qed
qed

fun full_replies :: "instant \<Rightarrow> poll_readings list \<Rightarrow> finality_tracker \<Rightarrow> bool" where
  "full_replies anchor [] ft \<longleftrightarrow> True"
| "full_replies anchor (po # pos) ft \<longleftrightarrow> full_reply (fy_pending ft) po \<and> full_replies anchor pos (finality_turn anchor po ft)"

definition arrived_ids :: "poll_readings list \<Rightarrow> entry_id list" where
  "arrived_ids pos = concat (map (map queue_id \<circ> po_arrived) pos)"

lemma finality_run_ok:
  "finality_ok received ft \<Longrightarrow> full_replies anchor pos ft \<Longrightarrow> finality_ok (received + mset (arrived_ids pos)) (finality_run anchor pos ft)"
proof (induction pos arbitrary: received ft)
  case (Cons po pos)
  from Cons.IH [OF finality_turn_ok [OF Cons.prems(1)]] Cons.prems(2) show ?case
    by (simp add: finality_run_def arrived_ids_def add.assoc)
qed (simp add: finality_run_def arrived_ids_def)

definition fallback_ids :: "fan_fallback \<Rightarrow> entry_id list" where
  "fallback_ids fb = map (\<lambda>u. (fb_trigger_id u, fb_sender_id u, fb_signature u)) (fx_file fb)"

lemma fallback_turn_accounts:
  assumes "received = mset (fallback_ids fb) + mset (map queue_id (fx_pending fb))" and full: "full_reply (fx_pending fb) po"
  shows "received + mset (map queue_id (po_arrived po)) =
     mset (fallback_ids (fallback_turn max_age anchor po fb)) + mset (map queue_id (fx_pending (fallback_turn max_age anchor po fb)))"
proof -
  define p where "p = fx_pending fb @ po_arrived po"
  have total: "received + mset (map queue_id (po_arrived po)) = mset (fallback_ids fb) + image_mset queue_id (mset p)"
    using assms(1) by (simp add: p_def)
  have turn_def: "fallback_turn max_age anchor po fb =
     (if p = [] then fb\<lparr>fx_pending := p\<rparr>
      else case po_reply po of Inl e \<Rightarrow> fb\<lparr>fx_pending := p, fx_error := fx_error fb + 1\<rparr>
        | Inr statuses \<Rightarrow> (let (settled, still) = settle_chunk (fallback_verdict max_age) (po_clk po) 0 (zip (take (min (length p) CHUNK_SIZE) p) statuses)
            in fold (write_fallback (trunc_u64 (since (po_now po) anchor))) settled (fb\<lparr>fx_pending := drop (min (length p) CHUNK_SIZE) p @ still\<rparr>)))"
    by (simp only: fallback_turn_def p_def Let_def)
  show ?thesis
  proof (cases "p = [] \<or> (\<exists>e. po_reply po = Inl e)")
    case True
    then show ?thesis unfolding turn_def total by (auto simp: fallback_ids_def)
  next
    case False
    then obtain statuses where st: "po_reply po = Inr statuses" by (cases "po_reply po") auto
    obtain settled still where sc: "settle_chunk (fallback_verdict max_age) (po_clk po) 0 (zip (take (min (length p) CHUNK_SIZE) p) statuses) = (settled, still)"
      by fastforce
    define fb0 where "fb0 = fb\<lparr>fx_pending := drop (min (length p) CHUNK_SIZE) p @ still\<rparr>"
    have turn: "fallback_turn max_age anchor po fb = fold (write_fallback (trunc_u64 (since (po_now po) anchor))) settled fb0"
      using False by (simp add: turn_def st sc fb0_def)
    have len: "length statuses = min (length p) CHUNK_SIZE" using full by (simp add: full_reply_def st p_def)
    have fb0: "fx_file fb0 = fx_file fb" "fx_pending fb0 = drop (min (length p) CHUNK_SIZE) p @ still" by (simp_all add: fb0_def)
    show ?thesis unfolding total turn chunk_split [OF len sc] fallback_ids_def write_fallback_effect fb0 by simp
  qed
qed

fun fallback_replies :: "u64 \<Rightarrow> instant \<Rightarrow> poll_readings list \<Rightarrow> fan_fallback \<Rightarrow> bool" where
  "fallback_replies max_age anchor [] fb \<longleftrightarrow> True"
| "fallback_replies max_age anchor (po # pos) fb \<longleftrightarrow> full_reply (fx_pending fb) po
     \<and> fallback_replies max_age anchor pos (fallback_turn max_age anchor po fb)"

lemma fallback_accounts:
  "received = mset (fallback_ids fb) + mset (map queue_id (fx_pending fb)) \<Longrightarrow> fallback_replies max_age anchor pos fb \<Longrightarrow>
   received + mset (arrived_ids pos) = mset (fallback_ids (fallback_run max_age anchor pos fb))
     + mset (map queue_id (fx_pending (fallback_run max_age anchor pos fb)))"
proof (induction pos arbitrary: received fb)
  case (Cons po pos)
  have full: "full_reply (fx_pending fb) po" "fallback_replies max_age anchor pos (fallback_turn max_age anchor po fb)"
    using Cons.prems(2) by simp_all
  from Cons.IH [OF fallback_turn_accounts [OF Cons.prems(1) full(1)] full(2)] show ?case
    by (simp add: fallback_run_def arrived_ids_def add.assoc)
qed (simp add: fallback_run_def arrived_ids_def)

text \<open>
  No tentative record is forgotten: while the node answers with one status per signature (or fails as a whole), every
  entry the tracker received is either still pending or has exactly one update line; a line says CONFIRMED with the
  slot of a status, or UNCERTAIN_NO_STATUS without one, and the counters count the lines of each kind.
\<close>

theorem finality_accounts:
  assumes "full_replies anchor pos finality_tracker_new"
  shows "let ft = finality_run anchor pos finality_tracker_new in
     mset (arrived_ids pos) = mset (finality_ids ft) + mset (map queue_id (fy_pending ft))
   \<and> fy_finality_confirmed ft = of_nat (length (filter (\<lambda>u. fu_final_status u = ''CONFIRMED'') (fy_file ft)))
   \<and> fy_finality_uncertain ft = of_nat (length (filter (\<lambda>u. fu_final_status u = ''UNCERTAIN_NO_STATUS'') (fy_file ft)))
   \<and> (\<forall>u \<in> set (fy_file ft). fu_final_status u = (if fu_finalization_slot u = None then ''UNCERTAIN_NO_STATUS'' else ''CONFIRMED''))"
proof -
  have "finality_ok {#} finality_tracker_new" by (simp add: finality_ok_def finality_tracker_new_def finality_ids_def)
  from finality_run_ok [OF this assms] have ok: "finality_ok (mset (arrived_ids pos)) (finality_run anchor pos finality_tracker_new)" by simp
  have cnt: "length (filter P (map f xs)) = length (filter (\<lambda>x. P (f x)) xs)" for P and f :: "finality_update \<Rightarrow> string" and xs
    by (simp add: filter_map o_def)
  show ?thesis using ok unfolding finality_ok_def Let_def cnt by auto
qed

definition demo_queue_entry :: "signature \<Rightarrow> finality_queue_entry" where
  "demo_queue_entry s = \<lparr>fq_trigger_id = [1], fq_sender_id = 1, fq_signature = s, fq_queued_at = 0\<rparr>"

definition demo_polls :: "poll_readings list" where
  "demo_polls =
     [\<lparr>po_arrived = [demo_queue_entry 8, demo_queue_entry 9],
       po_reply = Inr [Some \<lparr>sg_slot = 5, sg_confirmations = None, sg_err = None, sg_confirmation_status = Some ConfFinalized\<rparr>, None],
       po_now = 7, po_clk = (\<lambda>i. 7)\<rparr>,
      \<lparr>po_arrived = [], po_reply = Inr [None], po_now = 301 * 10 ^ 9, po_clk = (\<lambda>i. 301 * 10 ^ 9)\<rparr>]"

theorem finality_accounts_witness:
  "let ft = finality_run 0 demo_polls finality_tracker_new in
     map fu_final_status (fy_file ft) = [''CONFIRMED'', ''UNCERTAIN_NO_STATUS''] \<and> fy_pending ft = []
   \<and> mset (arrived_ids demo_polls) = mset (finality_ids ft) \<and> fy_finality_confirmed ft = 1"
proof -
  let ?ft = "finality_run 0 demo_polls finality_tracker_new"
  note eval = demo_polls_def finality_tracker_new_def finality_turn_def full_reply_def CHUNK_SIZE_def finality_verdict_def
    write_finality_def demo_queue_entry_def since_def
  have "full_replies 0 demo_polls finality_tracker_new" by (simp add: eval Let_def)
  note acc = finality_accounts [OF this]
  have lines: "map fu_final_status (fy_file ?ft) = [''CONFIRMED'', ''UNCERTAIN_NO_STATUS'']" "fy_pending ?ft = []"
    by (simp_all add: finality_run_def eval Let_def)
  have "length (filter (\<lambda>u. fu_final_status u = ''CONFIRMED'') (fy_file ?ft)) = 1"
    by (simp add: finality_run_def eval Let_def)
  with acc lines show ?thesis by (simp add: Let_def)
qed

text \<open>Both programs take any status for a success: the error of a failed transaction is not looked at.  And a reply with
  fewer statuses than signatures loses the entries behind its end: the chunk is drained, the pairing stops early.\<close>

lemma failed_transaction_confirmed:
  "finality_verdict e (Some (s\<lparr>sg_err := x\<rparr>)) t = finality_verdict e (Some s) t" "fallback_verdict m e (Some (s\<lparr>sg_err := x\<rparr>)) t = Some ''CONFIRMED''"
  by (simp_all add: finality_verdict_def fallback_verdict_def)

lemma short_reply_loses_entries:
  assumes "fy_pending ft = p" "p \<noteq> []" "length p \<le> CHUNK_SIZE" "po_arrived po = []" "po_reply po = Inr []"
  shows "finality_turn anchor po ft = ft\<lparr>fy_pending := []\<rparr>"
  using assms by (simp add: finality_turn_def Let_def min_def)

end
