(* ===== verification/TickPrepare.thy ===== *)
theory TickPrepare
  imports Schedule TxBuilder KeyStore "HOL-Library.Multiset"
begin

text \<open>
  The first bench (\<open>crates/tick-trigger-bench/src/\<close>), before the send: its counters (\<open>counters.rs\<close>), the schedule
  (\<open>schedule.rs\<close>), the self-transfer (\<open>wallet.rs\<close>), the pool of signed transactions (\<open>tx_pool.rs\<close>) and the preparer
  (\<open>preparer.rs\<close>).  The preparer never reads the pool, so a cycle is a function from its own state to the pool
  operations it performs, which interleave with those of the observer in any way.  The generator of the ticks is the
  one of \<open>Schedule\<close>; signing and serialisation are parameters.
\<close>

section \<open>Counters\<close>

record tick_counters =
  kc_pool_empty :: u64
  kc_send_queue_full :: u64
  kc_match_queue_full :: u64
  kc_send_http_error :: u64
  kc_send_network_error :: u64
  kc_preparer_blockhash_fail :: u64
  kc_preparer_signing_fail :: u64
  kc_fork_tick_overflow :: u64
  kc_rpc_fallback_error :: u64
  kc_tick_event_queue_full :: u64
  kc_send_event_queue_full :: u64
  kc_final_queue_full :: u64
  kc_blockhash_expired :: u64
  kc_schedule_contains_calls :: u64
  kc_schedule_contains_true :: u64

definition tick_counters_new :: tick_counters where
  "tick_counters_new = \<lparr>kc_pool_empty = 0, kc_send_queue_full = 0, kc_match_queue_full = 0, kc_send_http_error = 0,
     kc_send_network_error = 0, kc_preparer_blockhash_fail = 0, kc_preparer_signing_fail = 0, kc_fork_tick_overflow = 0,
     kc_rpc_fallback_error = 0, kc_tick_event_queue_full = 0, kc_send_event_queue_full = 0, kc_final_queue_full = 0,
     kc_blockhash_expired = 0, kc_schedule_contains_calls = 0, kc_schedule_contains_true = 0\<rparr>"

text \<open>The fields with their names, in the order of the snapshot, and what grew since an earlier snapshot.\<close>

definition named_counters :: "(string \<times> (tick_counters \<Rightarrow> u64)) list" where
  "named_counters = [(''pool_empty'', kc_pool_empty), (''send_queue_full'', kc_send_queue_full),
     (''match_queue_full'', kc_match_queue_full), (''send_http_error'', kc_send_http_error),
     (''send_network_error'', kc_send_network_error), (''preparer_blockhash_fail'', kc_preparer_blockhash_fail),
     (''preparer_signing_fail'', kc_preparer_signing_fail), (''fork_tick_overflow'', kc_fork_tick_overflow),
     (''rpc_fallback_error'', kc_rpc_fallback_error), (''tick_event_queue_full'', kc_tick_event_queue_full),
     (''send_event_queue_full'', kc_send_event_queue_full), (''final_queue_full'', kc_final_queue_full),
     (''blockhash_expired'', kc_blockhash_expired), (''schedule_contains_calls'', kc_schedule_contains_calls),
     (''schedule_contains_true'', kc_schedule_contains_true)]"

definition tick_deltas_vs :: "tick_counters \<Rightarrow> tick_counters \<Rightarrow> (string \<times> u64) list" where
  "tick_deltas_vs cur prev = filter (\<lambda>e. snd e > 0) (map (\<lambda>(name, f). (name, sat_sub (f cur) (f prev))) named_counters)"

section \<open>The schedule\<close>

definition TX_PER_SLOT :: nat where
  "TX_PER_SLOT = 3"

record tick_schedule =
  ks_seed :: u64
  ks_start_slot :: u64
  ks_num_slots :: u64
  ks_entries :: "schedule_entry list"

text \<open>The draws of a slot are repeated until three ticks differ; \<open>rng\<close> is the generator seeded with \<open>seed\<close>.\<close>

fun tick_entries :: "('r \<Rightarrow> u8 \<times> 'r) \<Rightarrow> u64 list \<Rightarrow> 'r \<Rightarrow> schedule_entry list option" where
  "tick_entries draw [] r = Some []"
| "tick_entries draw (slot # slots) r = (case pick_ticks draw TX_PER_SLOT [] r of
     None \<Rightarrow> None
   | Some (ticks, r') \<Rightarrow> map_option (\<lambda>out. map (\<lambda>tick. \<lparr>se_slot = slot, se_tick = tick\<rparr>) (sort ticks) @ out)
       (tick_entries draw slots r'))"

definition tick_generate :: "('r \<Rightarrow> u8 \<times> 'r) \<Rightarrow> 'r \<Rightarrow> u64 \<Rightarrow> u64 \<Rightarrow> u64 \<Rightarrow> tick_schedule option" where
  "tick_generate draw rng start_slot num_slots seed =
     map_option (\<lambda>es. \<lparr>ks_seed = seed, ks_start_slot = start_slot, ks_num_slots = num_slots, ks_entries = es\<rparr>)
       (tick_entries draw (map (\<lambda>offset. start_slot + of_nat offset) [0..<unat num_slots]) rng)"

definition schedule_set :: "schedule_entry list \<Rightarrow> (u64 \<times> u8) set" where
  "schedule_set es = set (map (\<lambda>e. (se_slot e, se_tick e)) es)"

section \<open>The transaction\<close>

text \<open>\<open>tip_pk\<close> is the first Helius tip account.\<close>

definition build_self_transfer :: "keypair \<Rightarrow> pubkey \<Rightarrow> u64 \<Rightarrow> u64 \<Rightarrow> u64 \<Rightarrow> hash \<Rightarrow> transaction" where
  "build_self_transfer payer tip_pk amount_lamports priority_fee_microlamports helius_tip_lamports blockhash =
     (let payer_pk = kp_pubkey payer in
      sign_tx payer
        ((if priority_fee_microlamports > 0 then [SetComputeUnitPrice priority_fee_microlamports] else [])
         @ [SetComputeUnitLimit 2000]
         @ (if helius_tip_lamports > 0 then [Transfer payer_pk tip_pk helius_tip_lamports] else [])
         @ [Transfer payer_pk payer_pk amount_lamports]) blockhash)"

section \<open>The pool\<close>

record presigned =
  ps_serialized :: "u8 list"
  ps_signature :: signature
  ps_blockhash :: hash
  ps_built_at :: instant

type_synonym tick_pool = "(u64 \<times> u8, presigned) hmap"

definition tick_pool_insert :: "u64 \<Rightarrow> u8 \<Rightarrow> presigned \<Rightarrow> tick_pool \<Rightarrow> bool \<times> tick_pool" where
  "tick_pool_insert slot tick tx p = (hm_get p (slot, tick) = None, hm_insert (slot, tick) tx p)"

definition tick_pool_take :: "u64 \<Rightarrow> u8 \<Rightarrow> tick_pool \<Rightarrow> presigned option \<times> tick_pool" where
  "tick_pool_take slot tick p = hm_remove (slot, tick) p"

definition tick_prune_older_than :: "u64 \<Rightarrow> tick_pool \<Rightarrow> nat \<times> tick_pool" where
  "tick_prune_older_than cutoff_slot p = (let keys = filter (\<lambda>k. fst k < cutoff_slot) (hm_keys p) in
     (length keys, fold hm_delete keys p))"

datatype pool_op = PoolInsert u64 u8 presigned | PoolTake u64 u8 | PoolPrune u64

fun apply_pool_op :: "pool_op \<Rightarrow> tick_pool \<Rightarrow> tick_pool" where
  "apply_pool_op (PoolInsert slot tick tx) p = snd (tick_pool_insert slot tick tx p)"
| "apply_pool_op (PoolTake slot tick) p = snd (tick_pool_take slot tick p)"
| "apply_pool_op (PoolPrune cutoff) p = snd (tick_prune_older_than cutoff p)"

section \<open>The preparer\<close>

definition BLOCKHASH_MAX_AGE :: duration where
  "BLOCKHASH_MAX_AGE = 50 * 10 ^ 9"

record tick_preparer_cfg =
  kf_schedule :: "schedule_entry list"
  kf_keypair :: keypair
  kf_look_ahead_slots :: u64
  kf_amount_lamports :: u64
  kf_priority_fee_microlamports :: u64
  kf_helius_tip_lamports :: u64
  kf_tip_pk :: pubkey
  kf_serialize :: "transaction \<Rightarrow> u8 list"

record tick_preparer =
  kr_already_signed :: "(u64 \<times> u8, instant) hmap"
  kr_counters :: tick_counters

definition tick_preparer_new :: tick_preparer where
  "tick_preparer_new = \<lparr>kr_already_signed = [], kr_counters = tick_counters_new\<rparr>"

text \<open>What a cycle reads: the reply of the node, the clock, the slot of the observer, the clock at each signature.\<close>

record cycle_readings =
  cy_blockhash :: "string + hash"
  cy_now :: instant
  cy_now_slot :: u64
  cy_built_at :: "nat \<Rightarrow> instant"

definition stale_keys :: "instant \<Rightarrow> (u64 \<times> u8, instant) hmap \<Rightarrow> (u64 \<times> u8) list" where
  "stale_keys now marks = map fst (filter (\<lambda>e. since now (snd e) \<ge> BLOCKHASH_MAX_AGE) marks)"

definition tick_presign :: "tick_preparer_cfg \<Rightarrow> hash \<Rightarrow> nat \<Rightarrow> instant \<Rightarrow> presigned" where
  "tick_presign cfg blockhash new_signed built_at =
     (let amount = sat_add (kf_amount_lamports cfg) (of_nat new_signed);
          tx = build_self_transfer (kf_keypair cfg) (kf_tip_pk cfg) amount (kf_priority_fee_microlamports cfg)
            (kf_helius_tip_lamports cfg) blockhash
      in \<lparr>ps_serialized = kf_serialize cfg tx, ps_signature = tr_signature tx, ps_blockhash = blockhash, ps_built_at = built_at\<rparr>)"

definition in_window :: "u64 \<Rightarrow> u64 \<Rightarrow> u64 \<Rightarrow> bool" where
  "in_window now_slot look_ahead slot \<longleftrightarrow> \<not> (slot < now_slot \<or> slot \<ge> now_slot + look_ahead)"

fun sign_window :: "tick_preparer_cfg \<Rightarrow> cycle_readings \<Rightarrow> hash \<Rightarrow> schedule_entry list \<Rightarrow> nat \<Rightarrow> (u64 \<times> u8, instant) hmap \<Rightarrow>
    (u64 \<times> u8, instant) hmap \<times> pool_op list" where
  "sign_window cfg cy blockhash [] new_signed marks = (marks, [])"
| "sign_window cfg cy blockhash (e # es) new_signed marks =
     (if \<not> in_window (cy_now_slot cy) (kf_look_ahead_slots cfg) (se_slot e) then sign_window cfg cy blockhash es new_signed marks
      else if hm_get marks (se_slot e, se_tick e) \<noteq> None then sign_window cfg cy blockhash es new_signed marks
      else let built_at = cy_built_at cy new_signed;
               pre = tick_presign cfg blockhash new_signed built_at;
               (marks', ops) = sign_window cfg cy blockhash es (new_signed + 1)
                 (hm_insert (se_slot e, se_tick e) built_at marks)
           in (marks', PoolInsert (se_slot e) (se_tick e) pre # ops))"

definition prepare_cycle :: "tick_preparer_cfg \<Rightarrow> cycle_readings \<Rightarrow> tick_preparer \<Rightarrow> tick_preparer \<times> pool_op list" where
  "prepare_cycle cfg cy st = (case cy_blockhash cy of
     Inl e \<Rightarrow> (st\<lparr>kr_counters := (kr_counters st)\<lparr>kc_preparer_blockhash_fail := kc_preparer_blockhash_fail (kr_counters st) + 1\<rparr>\<rparr>, [])
   | Inr blockhash \<Rightarrow>
       let expired = stale_keys (cy_now cy) (kr_already_signed st);
           marks1 = fold hm_delete expired (kr_already_signed st);
           evictions = map (\<lambda>k. PoolTake (fst k) (snd k)) expired
       in if cy_now_slot cy = 0 then (st\<lparr>kr_already_signed := marks1\<rparr>, evictions)
          else let (marks2, ops) = sign_window cfg cy blockhash (kf_schedule cfg) 0 marks1
               in (st\<lparr>kr_already_signed := marks2\<rparr>, evictions @ ops @ [PoolPrune (sat_sub (cy_now_slot cy) 2)]))"

fun prepare_run :: "tick_preparer_cfg \<Rightarrow> cycle_readings list \<Rightarrow> tick_preparer \<Rightarrow> tick_preparer \<times> pool_op list" where
  "prepare_run cfg [] st = (st, [])"
| "prepare_run cfg (cy # cys) st = (let (st1, ops) = prepare_cycle cfg cy st; (st2, rest) = prepare_run cfg cys st1
     in (st2, ops @ rest))"

section \<open>Facts\<close>

fun op_inserts :: "pool_op list \<Rightarrow> ((u64 \<times> u8) \<times> presigned) list" where
  "op_inserts [] = []"
| "op_inserts (PoolInsert slot tick tx # ops) = ((slot, tick), tx) # op_inserts ops"
| "op_inserts (PoolTake slot tick # ops) = op_inserts ops"
| "op_inserts (PoolPrune cutoff # ops) = op_inserts ops"

lemma op_inserts_append [simp]: "op_inserts (xs @ ys) = op_inserts xs @ op_inserts ys"
  by (induction xs rule: op_inserts.induct) simp_all

lemma op_inserts_takes [simp]: "op_inserts (map (\<lambda>k. PoolTake (f k) (g k)) ks) = []"
  by (induction ks) simp_all

text \<open>The window as a reference: the entries of the window not signed yet, each once, in the order of the schedule, the
  k-th of them with the k-th amount.\<close>

definition sched_key :: "schedule_entry \<Rightarrow> u64 \<times> u8" where
  "sched_key e = (se_slot e, se_tick e)"

fun due_keys :: "tick_preparer_cfg \<Rightarrow> u64 \<Rightarrow> schedule_entry list \<Rightarrow> (u64 \<times> u8) set \<Rightarrow> (u64 \<times> u8) list" where
  "due_keys cfg now_slot [] done_set = []"
| "due_keys cfg now_slot (e # es) done_set =
     (if in_window now_slot (kf_look_ahead_slots cfg) (se_slot e) \<and> sched_key e \<notin> done_set
      then sched_key e # due_keys cfg now_slot es (insert (sched_key e) done_set)
      else due_keys cfg now_slot es done_set)"

lemma due_keys_props:
  "distinct (due_keys cfg ns es D)" "set (due_keys cfg ns es D) \<inter> D = {}"
  "set (due_keys cfg ns es D) = sched_key ` {e \<in> set es. in_window ns (kf_look_ahead_slots cfg) (se_slot e)} - D"
proof -
  have "distinct (due_keys cfg ns es D) \<and> set (due_keys cfg ns es D) = sched_key ` {e \<in> set es. in_window ns (kf_look_ahead_slots cfg) (se_slot e)} - D"
  proof (induction es arbitrary: D)
    case (Cons e es)
    show ?case
    proof (cases "in_window ns (kf_look_ahead_slots cfg) (se_slot e) \<and> sched_key e \<notin> D")
      case True
      from Cons.IH [of "insert (sched_key e) D"] True show ?thesis by auto
    next
      case False
      then have "due_keys cfg ns (e # es) D = due_keys cfg ns es D" by (simp only: due_keys.simps if_False)
      with Cons.IH [of D] False show ?thesis by auto
    qed
  qed simp
  then show "distinct (due_keys cfg ns es D)" "set (due_keys cfg ns es D) \<inter> D = {}"
    "set (due_keys cfg ns es D) = sched_key ` {e \<in> set es. in_window ns (kf_look_ahead_slots cfg) (se_slot e)} - D"
    by auto
qed

lemma sign_window_ref:
  "op_inserts (snd (sign_window cfg cy bh es n marks)) =
     map (\<lambda>(i, k). (k, tick_presign cfg bh (n + i) (cy_built_at cy (n + i))))
       (enumerate 0 (due_keys cfg (cy_now_slot cy) es (set (hm_keys marks))))"
  "set (hm_keys (fst (sign_window cfg cy bh es n marks))) =
     set (hm_keys marks) \<union> set (due_keys cfg (cy_now_slot cy) es (set (hm_keys marks)))"
proof -
  have "op_inserts (snd (sign_window cfg cy bh es n marks)) =
     map (\<lambda>(i, k). (k, tick_presign cfg bh (n + i) (cy_built_at cy (n + i))))
       (enumerate 0 (due_keys cfg (cy_now_slot cy) es (set (hm_keys marks))))
   \<and> set (hm_keys (fst (sign_window cfg cy bh es n marks))) =
     set (hm_keys marks) \<union> set (due_keys cfg (cy_now_slot cy) es (set (hm_keys marks)))"
  proof (induction es arbitrary: n marks)
    case Nil
    show ?case by simp
  next
    case (Cons e es)
    let ?k = "sched_key e"
    show ?case
    proof (cases "in_window (cy_now_slot cy) (kf_look_ahead_slots cfg) (se_slot e) \<and> ?k \<notin> set (hm_keys marks)")
      case False
      then have skip: "sign_window cfg cy bh (e # es) n marks = sign_window cfg cy bh es n marks"
        "due_keys cfg (cy_now_slot cy) (e # es) (set (hm_keys marks)) = due_keys cfg (cy_now_slot cy) es (set (hm_keys marks))"
        by (auto simp: hm_keys_get sched_key_def)
      show ?thesis unfolding skip by (rule Cons.IH)
    next
      case True
      let ?s = "hm_insert ?k (cy_built_at cy n) marks"
      obtain s' ops where r: "sign_window cfg cy bh es (n + 1) ?s = (s', ops)" by fastforce
      have step: "sign_window cfg cy bh (e # es) n marks =
          (s', PoolInsert (se_slot e) (se_tick e) (tick_presign cfg bh n (cy_built_at cy n)) # ops)"
        using True r by (simp add: hm_keys_get sched_key_def)
      have due: "due_keys cfg (cy_now_slot cy) (e # es) (set (hm_keys marks)) =
          ?k # due_keys cfg (cy_now_slot cy) es (set (hm_keys ?s))"
        using True by (simp add: set_hm_keys_insert)
      have shift: "map (\<lambda>(i, k). (k, tick_presign cfg bh (n + 1 + i) (cy_built_at cy (n + 1 + i)))) (enumerate 0 ks) =
          map (\<lambda>(i, k). (k, tick_presign cfg bh (n + i) (cy_built_at cy (n + i)))) (enumerate 1 ks)" for ks :: "(u64 \<times> u8) list"
        by (rule nth_equalityI) (simp_all add: nth_enumerate_eq)
      note IH = Cons.IH [of "n + 1" ?s, unfolded r fst_conv snd_conv shift]
      show ?thesis unfolding step due using IH by (simp add: sched_key_def set_hm_keys_insert)
    qed
  qed
  then show "op_inserts (snd (sign_window cfg cy bh es n marks)) =
     map (\<lambda>(i, k). (k, tick_presign cfg bh (n + i) (cy_built_at cy (n + i))))
       (enumerate 0 (due_keys cfg (cy_now_slot cy) es (set (hm_keys marks))))"
    "set (hm_keys (fst (sign_window cfg cy bh es n marks))) =
     set (hm_keys marks) \<union> set (due_keys cfg (cy_now_slot cy) es (set (hm_keys marks)))" by blast+
qed

lemma stale_keys_set: "hm_ok marks \<Longrightarrow> k \<in> set (stale_keys now marks) \<longleftrightarrow> (\<exists>b. hm_get marks k = Some b \<and> since now b \<ge> BLOCKHASH_MAX_AGE)"
  by (force simp: stale_keys_def hm_get_in_set)

end
