(* ===== verification/TickObserver.thy ===== *)
theory TickObserver
  imports TickPrepare Channel Entries
begin

text \<open>
  The observer of the first bench (\<open>crates/tick-trigger-bench/src/observer.rs\<close>): it counts the PoH ticks of every slot
  by their hashes, takes the transaction of a scheduled tick from the pool and queues it for the dispatcher, and reports
  the pending signatures it sees.  The preparer's pool operations and the changes of the pending signatures by the other
  threads are events of their own.
\<close>

definition TICK_HASHES :: u64 where
  "TICK_HASHES = 62500"

record tick_slot_state =
  tss_tick_idx :: u8
  tss_hash_count :: u64
  tss_cumulative_hashes_in_slot :: u64
  tss_seen_entries :: "hash set"

definition tick_slot_default :: tick_slot_state where
  "tick_slot_default = \<lparr>tss_tick_idx = 0, tss_hash_count = 0, tss_cumulative_hashes_in_slot = 0, tss_seen_entries = {}\<rparr>"

record send_command =
  cm_tx :: presigned
  cm_schedule_slot :: u64
  cm_schedule_tick :: u8
  cm_trigger_observed_at :: instant

record tick_match_event =
  tm_signature :: signature
  tm_observed_at :: instant
  tm_observed_slot :: u64
  tm_observed_entry_index :: u32
  tm_observed_tick_in_slot :: "u8 option"
  tm_observed_cumulative_hashes_in_slot :: "u64 option"

record tick_event =
  ke_observed_at :: instant
  ke_slot :: u64
  ke_tick_idx :: u8
  ke_num_hashes :: u64

record tick_observer =
  to_slot_state :: "(u64, tick_slot_state) hmap"
  to_first_slot_seen :: "u64 option"
  to_pool :: tick_pool
  to_send_queue :: "send_command chan"
  to_match_queue :: "tick_match_event chan"
  to_tick_event_tx :: "tick_event chan"
  to_pending_sigs :: "signature set"
  to_current_slot :: u64
  to_counters :: tick_counters

definition tick_observer_new :: "u64 \<Rightarrow> nat option \<Rightarrow> tick_observer" where
  "tick_observer_new current_slot cap =
     \<lparr>to_slot_state = [], to_first_slot_seen = None, to_pool = [], to_send_queue = chan_new cap, to_match_queue = chan_new cap,
      to_tick_event_tx = chan_new cap, to_pending_sigs = {}, to_current_slot = current_slot, to_counters = tick_counters_new\<rparr>"

section \<open>One entry\<close>

text \<open>A valid tick, already counted: report it, and below the limit send what is prepared for it.\<close>

definition tick_fire :: "(u64 \<times> u8) set \<Rightarrow> entry_obs \<Rightarrow> u8 \<Rightarrow> tick_observer \<Rightarrow> tick_observer" where
  "tick_fire schedule obs tick_val ob =
     (let ev = \<lparr>ke_observed_at = obs_observed_at obs, ke_slot = obs_slot obs, ke_tick_idx = tick_val, ke_num_hashes = obs_num_hashes obs\<rparr>;
          (ttx, ok) = try_send (to_tick_event_tx ob) ev;
          c0 = to_counters ob;
          c1 = (if ok then c0 else c0\<lparr>kc_tick_event_queue_full := kc_tick_event_queue_full c0 + 1\<rparr>);
          ob1 = ob\<lparr>to_tick_event_tx := ttx, to_counters := c1\<rparr>
      in if tick_val > 64 then ob1\<lparr>to_counters := c1\<lparr>kc_fork_tick_overflow := kc_fork_tick_overflow c1 + 1\<rparr>\<rparr>
         else let c2 = c1\<lparr>kc_schedule_contains_calls := kc_schedule_contains_calls c1 + 1\<rparr> in
           if (obs_slot obs, tick_val) \<notin> schedule then ob1\<lparr>to_counters := c2\<rparr>
           else let c3 = c2\<lparr>kc_schedule_contains_true := kc_schedule_contains_true c2 + 1\<rparr>;
                    (tx, pool) = tick_pool_take (obs_slot obs) tick_val (to_pool ob1)
             in case tx of
                  None \<Rightarrow> ob1\<lparr>to_pool := pool, to_counters := c3\<lparr>kc_pool_empty := kc_pool_empty c3 + 1\<rparr>\<rparr>
                | Some tx \<Rightarrow>
                    let cmd = \<lparr>cm_tx = tx, cm_schedule_slot = obs_slot obs, cm_schedule_tick = tick_val,
                               cm_trigger_observed_at = obs_observed_at obs\<rparr>;
                        (q, sent) = try_send (to_send_queue ob1) cmd
                    in ob1\<lparr>to_pool := pool, to_send_queue := q,
                           to_counters := (if sent then c3 else c3\<lparr>kc_send_queue_full := kc_send_queue_full c3 + 1\<rparr>)\<rparr>)"

text \<open>The tick counting of an entry outside the warm-up slot; the flag says that the loop continues with the next entry.\<close>

definition tick_count :: "(u64 \<times> u8) set \<Rightarrow> entry_obs \<Rightarrow> tick_observer \<Rightarrow> tick_observer \<times> bool" where
  "tick_count schedule obs ob =
     (let slot = obs_slot obs;
          st = (case hm_get (to_slot_state ob) slot of None \<Rightarrow> tick_slot_default | Some st \<Rightarrow> st)
      in if obs_entry_hash obs \<in> tss_seen_entries st
         then (ob\<lparr>to_slot_state := hm_insert slot st (to_slot_state ob)\<rparr>, False)
         else
           let st1 = st\<lparr>tss_seen_entries := insert (obs_entry_hash obs) (tss_seen_entries st),
                 tss_hash_count := sat_add (tss_hash_count st) (obs_num_hashes obs),
                 tss_cumulative_hashes_in_slot := sat_add (tss_cumulative_hashes_in_slot st) (obs_num_hashes obs)\<rparr>
           in if obs_tx_count obs \<noteq> 0 then (ob\<lparr>to_slot_state := hm_insert slot st1 (to_slot_state ob)\<rparr>, False)
              else if tss_hash_count st1 = TICK_HASHES
              then let st2 = st1\<lparr>tss_tick_idx := sat_add (tss_tick_idx st1) 1, tss_hash_count := 0\<rparr>;
                       ob1 = ob\<lparr>to_slot_state := hm_insert slot st2 (to_slot_state ob)\<rparr>
                   in (tick_fire schedule obs (tss_tick_idx st2) ob1, tss_tick_idx st2 > 64)
              else (ob\<lparr>to_slot_state := hm_insert slot st1 (to_slot_state ob),
                       to_counters := (to_counters ob)\<lparr>kc_fork_tick_overflow := kc_fork_tick_overflow (to_counters ob) + 1\<rparr>\<rparr>, False))"

definition report_match :: "entry_obs \<Rightarrow> signature \<Rightarrow> tick_observer \<Rightarrow> tick_observer" where
  "report_match obs sig ob =
     (if sig \<in> to_pending_sigs ob
      then let st = hm_get (to_slot_state ob) (obs_slot obs);
               ev = \<lparr>tm_signature = sig, tm_observed_at = obs_observed_at obs, tm_observed_slot = obs_slot obs,
                     tm_observed_entry_index = obs_entry_index obs, tm_observed_tick_in_slot = map_option tss_tick_idx st,
                     tm_observed_cumulative_hashes_in_slot = map_option tss_cumulative_hashes_in_slot st\<rparr>;
               (q, ok) = try_send (to_match_queue ob) ev;
               c = to_counters ob
           in ob\<lparr>to_match_queue := q,
                 to_counters := (if ok then c else c\<lparr>kc_match_queue_full := kc_match_queue_full c + 1\<rparr>)\<rparr>
      else ob)"

definition observe_entry :: "(u64 \<times> u8) set \<Rightarrow> entry_obs \<Rightarrow> tick_observer \<Rightarrow> tick_observer" where
  "observe_entry schedule obs ob =
     (let slot = obs_slot obs;
          ob1 = (if length (to_slot_state ob) > 4096
            then ob\<lparr>to_slot_state := hm_retain (\<lambda>s _. s + 200 \<ge> slot) (to_slot_state ob)\<rparr> else ob);
          ob2 = ob1\<lparr>to_current_slot := slot,
            to_first_slot_seen := (case to_first_slot_seen ob1 of None \<Rightarrow> Some slot | Some s \<Rightarrow> Some s)\<rparr>;
          (ob3, skip) = (if to_first_slot_seen ob2 = Some slot then (ob2, False) else tick_count schedule obs ob2)
      in if skip then ob3 else fold (report_match obs) (obs_signatures obs) ob3)"

section \<open>The run\<close>

datatype tick_observer_event = KEntry entry_obs | KPool pool_op | KPending "signature set"

fun tick_observer_step :: "(u64 \<times> u8) set \<Rightarrow> tick_observer_event \<Rightarrow> tick_observer \<Rightarrow> tick_observer" where
  "tick_observer_step schedule (KEntry obs) ob = observe_entry schedule obs ob"
| "tick_observer_step schedule (KPool op) ob = ob\<lparr>to_pool := apply_pool_op op (to_pool ob)\<rparr>"
| "tick_observer_step schedule (KPending sigs) ob = ob\<lparr>to_pending_sigs := sigs\<rparr>"

definition tick_observer_run :: "(u64 \<times> u8) set \<Rightarrow> tick_observer_event list \<Rightarrow> tick_observer \<Rightarrow> tick_observer" where
  "tick_observer_run schedule es ob = fold (tick_observer_step schedule) es ob"

section \<open>What is sent was prepared\<close>

fun pool_ops :: "tick_observer_event list \<Rightarrow> pool_op list" where
  "pool_ops [] = []"
| "pool_ops (KPool op # es) = op # pool_ops es"
| "pool_ops (_ # es) = pool_ops es"

lemma pool_ops_append [simp]: "pool_ops (xs @ ys) = pool_ops xs @ pool_ops ys"
  by (induction xs rule: pool_ops.induct) simp_all

definition command_entry :: "send_command \<Rightarrow> (u64 \<times> u8) \<times> presigned" where
  "command_entry c = ((cm_schedule_slot c, cm_schedule_tick c), cm_tx c)"

text \<open>Hash maps as multisets of their entries.\<close>

lemma mset_hm_delete: "hm_ok m \<Longrightarrow> mset (hm_delete k m) \<subseteq># mset m"
  by (simp add: hm_delete_def AList.delete_eq multiset_filter_subset)

lemma mset_hm_remove:
  assumes "hm_ok m" "hm_get m k = Some v"
  shows "mset m = add_mset (k, v) (mset (hm_delete k m))"
  using assms
proof (induction m)
  case (Cons e m)
  obtain a b where e: "e = (a, b)" by (cases e)
  show ?case
  proof (cases "a = k")
    case True
    with Cons.prems e have "hm_get m k = None" by (simp add: hm_ok_def hm_get_def map_of_eq_None_iff)
    from hm_delete_absent [OF this] True e Cons.prems(2) show ?thesis by (simp add: hm_delete_def hm_get_def)
  next
    case False
    with Cons e show ?thesis by (simp add: hm_ok_def hm_delete_def hm_get_def)
  qed
qed (simp add: hm_get_def)

lemma mset_hm_insert: "mset (hm_insert k v m) \<subseteq># add_mset (k, v) (mset m)"
proof (induction m)
  case (Cons e m)
  obtain a b where e: "e = (a, b)" by (cases e)
  show ?case
  proof (cases "a = k")
    case True
    with e have "mset (hm_insert k v (e # m)) = add_mset (k, v) (mset m)" by (simp add: hm_insert_def)
    then show ?thesis by (simp add: subset_mset.add_increasing2 e)
  next
    case False
    with e have "mset (hm_insert k v (e # m)) = add_mset e (mset (hm_insert k v m))" by (simp add: hm_insert_def)
    also have "\<dots> \<subseteq># add_mset e (add_mset (k, v) (mset m))" using Cons.IH by simp
    finally show ?thesis by (simp add: add_mset_commute)
  qed
qed (simp add: hm_insert_def)

lemma fold_hm_delete_mset: "hm_ok m \<Longrightarrow> mset (fold hm_delete ks m) \<subseteq># mset m"
  by (induction ks arbitrary: m) (simp_all, meson hm_ok_delete mset_hm_delete subset_mset.order_trans)

text \<open>The invariant: what was sent and what the pool holds was inserted, each insertion counted once.\<close>

definition tick_pool_ok :: "(u64 \<times> u8) set \<Rightarrow> ((u64 \<times> u8) \<times> presigned) multiset \<Rightarrow> tick_observer \<Rightarrow> bool" where
  "tick_pool_ok schedule ins ob \<longleftrightarrow> hm_ok (to_pool ob)
     \<and> mset (map command_entry (ch_offered (to_send_queue ob))) + mset (to_pool ob) \<subseteq># ins
     \<and> (\<forall>c \<in> set (ch_offered (to_send_queue ob)). (cm_schedule_slot c, cm_schedule_tick c) \<in> schedule)"

lemma tick_pool_ok_smaller:
  assumes "tick_pool_ok schedule ins ob" "hm_ok p" "mset p \<subseteq># add_mset x (mset (to_pool ob))"
  shows "tick_pool_ok schedule (add_mset x ins) (ob\<lparr>to_pool := p\<rparr>)"
proof -
  have "mset (map command_entry (ch_offered (to_send_queue ob))) + mset p
      \<subseteq># mset (map command_entry (ch_offered (to_send_queue ob))) + add_mset x (mset (to_pool ob))"
    using assms(3) by (rule subset_mset.add_left_mono)
  also have "\<dots> \<subseteq># add_mset x ins" using assms(1) by (simp add: tick_pool_ok_def)
  finally show ?thesis using assms by (simp add: tick_pool_ok_def)
qed

lemma tick_pool_ok_shrunk:
  assumes "tick_pool_ok schedule ins ob" "hm_ok p" "mset p \<subseteq># mset (to_pool ob)"
  shows "tick_pool_ok schedule ins (ob\<lparr>to_pool := p\<rparr>)"
proof -
  have "mset (map command_entry (ch_offered (to_send_queue ob))) + mset p
      \<subseteq># mset (map command_entry (ch_offered (to_send_queue ob))) + mset (to_pool ob)"
    using assms(3) by (rule subset_mset.add_left_mono)
  also have "\<dots> \<subseteq># ins" using assms(1) by (simp add: tick_pool_ok_def)
  finally show ?thesis using assms by (simp add: tick_pool_ok_def)
qed

lemma tick_pool_ok_same: "to_pool ob' = to_pool ob \<Longrightarrow> ch_offered (to_send_queue ob') = ch_offered (to_send_queue ob) \<Longrightarrow>
    tick_pool_ok schedule ins ob' = tick_pool_ok schedule ins ob"
  by (simp add: tick_pool_ok_def)

lemma tick_fire_pool_ok:
  assumes "tick_pool_ok schedule ins ob"
  shows "tick_pool_ok schedule ins (tick_fire schedule obs tick_val ob)"
proof -
  let ?k = "(obs_slot obs, tick_val)"
  have ok: "hm_ok (to_pool ob)" using assms by (simp add: tick_pool_ok_def)
  show ?thesis
  proof (cases "tick_val > 64 \<or> ?k \<notin> schedule")
    case True
    then have "to_pool (tick_fire schedule obs tick_val ob) = to_pool ob"
      "to_send_queue (tick_fire schedule obs tick_val ob) = to_send_queue ob"
      by (auto simp: tick_fire_def case_prod_unfold Let_def)
    then show ?thesis using assms by (simp add: tick_pool_ok_def)
  next
    case False
    then have low: "\<not> tick_val > 64" and hit: "?k \<in> schedule" by auto
    show ?thesis
    proof (cases "hm_get (to_pool ob) ?k")
      case None
      have "to_pool (tick_fire schedule obs tick_val ob) = hm_delete ?k (to_pool ob)"
        "to_send_queue (tick_fire schedule obs tick_val ob) = to_send_queue ob"
        using low hit None by (simp_all add: tick_fire_def tick_pool_take_def hm_remove_def case_prod_unfold Let_def)
      then show ?thesis using assms hm_delete_absent [OF None] by (simp add: tick_pool_ok_def)
    next
      case (Some tx)
      let ?cmd = "\<lparr>cm_tx = tx, cm_schedule_slot = obs_slot obs, cm_schedule_tick = tick_val,
                               cm_trigger_observed_at = obs_observed_at obs\<rparr>"
      have eq: "to_pool (tick_fire schedule obs tick_val ob) = hm_delete ?k (to_pool ob)"
        "ch_offered (to_send_queue (tick_fire schedule obs tick_val ob)) = ch_offered (to_send_queue ob) @ [?cmd]"
        using low hit Some by (simp_all add: tick_fire_def tick_pool_take_def hm_remove_def case_prod_unfold Let_def)
      have "mset (to_pool ob) = add_mset (?k, tx) (mset (hm_delete ?k (to_pool ob)))"
        by (rule mset_hm_remove [OF ok Some])
      with assms hit ok show ?thesis unfolding tick_pool_ok_def eq by (auto simp: command_entry_def)
    qed
  qed
qed

lemma tick_count_pool_ok:
  assumes "tick_pool_ok schedule ins ob"
  shows "tick_pool_ok schedule ins (fst (tick_count schedule obs ob))"
proof -
  have same: "tick_pool_ok schedule ins (ob\<lparr>to_slot_state := m\<rparr>)" "tick_pool_ok schedule ins (ob\<lparr>to_slot_state := m, to_counters := c\<rparr>)" for m c
    using assms by (simp_all add: tick_pool_ok_def)
  note fire = tick_fire_pool_ok [OF same(1)]
  show ?thesis by (simp add: tick_count_def same fire Let_def)
qed

lemma report_match_frame: "to_pool (report_match obs sig ob) = to_pool ob"
  "to_send_queue (report_match obs sig ob) = to_send_queue ob"
  by (simp_all add: report_match_def case_prod_unfold Let_def)

lemma report_matches_frame: "to_pool (fold (report_match obs) sigs ob) = to_pool ob"
  "to_send_queue (fold (report_match obs) sigs ob) = to_send_queue ob"
  by (induction sigs arbitrary: ob) (simp_all add: report_match_frame)

lemma observe_entry_pool_ok:
  assumes "tick_pool_ok schedule ins ob"
  shows "tick_pool_ok schedule ins (observe_entry schedule obs ob)"
proof -
  define ob1 where "ob1 = (if length (to_slot_state ob) > 4096
      then ob\<lparr>to_slot_state := hm_retain (\<lambda>s _. s + 200 \<ge> obs_slot obs) (to_slot_state ob)\<rparr> else ob)"
  define ob2 where "ob2 = ob1\<lparr>to_current_slot := obs_slot obs,
            to_first_slot_seen := (case to_first_slot_seen ob1 of None \<Rightarrow> Some (obs_slot obs) | Some s \<Rightarrow> Some s)\<rparr>"
  have ok2: "tick_pool_ok schedule ins ob2"
    using assms by (simp add: ob2_def ob1_def tick_pool_ok_def)
  define r where "r = (if to_first_slot_seen ob2 = Some (obs_slot obs) then (ob2, False) else tick_count schedule obs ob2)"
  have ok3: "tick_pool_ok schedule ins (fst r)"
    using ok2 tick_count_pool_ok [OF ok2] by (simp add: r_def)
  have "observe_entry schedule obs ob = (if snd r then fst r else fold (report_match obs) (obs_signatures obs) (fst r))"
    by (simp add: observe_entry_def ob1_def ob2_def r_def case_prod_unfold Let_def)
  with ok3 show ?thesis by (simp add: tick_pool_ok_def report_matches_frame)
qed

lemma pool_op_ok:
  assumes "tick_pool_ok schedule ins ob"
  shows "tick_pool_ok schedule (ins + mset (op_inserts [op])) (ob\<lparr>to_pool := apply_pool_op op (to_pool ob)\<rparr>)"
proof -
  have ok: "hm_ok (to_pool ob)" using assms by (simp add: tick_pool_ok_def)
  show ?thesis
  proof (cases op)
    case (PoolInsert slot tick tx)
    have "tick_pool_ok schedule (add_mset ((slot, tick), tx) ins) (ob\<lparr>to_pool := hm_insert (slot, tick) tx (to_pool ob)\<rparr>)"
      by (rule tick_pool_ok_smaller [OF assms]) (simp_all add: ok mset_hm_insert)
    with PoolInsert show ?thesis by (simp add: tick_pool_insert_def)
  next
    case (PoolTake slot tick)
    have "tick_pool_ok schedule ins (ob\<lparr>to_pool := hm_delete (slot, tick) (to_pool ob)\<rparr>)"
      by (rule tick_pool_ok_shrunk [OF assms]) (simp_all add: ok mset_hm_delete)
    with PoolTake show ?thesis by (simp add: tick_pool_take_def hm_remove_def)
  next
    case (PoolPrune cutoff)
    have "tick_pool_ok schedule ins (ob\<lparr>to_pool := snd (tick_prune_older_than cutoff (to_pool ob))\<rparr>)"
      by (rule tick_pool_ok_shrunk [OF assms]) (simp_all add: ok tick_prune_older_than_def hm_fold_delete(3) fold_hm_delete_mset Let_def)
    with PoolPrune show ?thesis by simp
  qed
qed

lemma tick_observer_pool_ok:
  "tick_pool_ok schedule ins ob \<Longrightarrow> tick_pool_ok schedule (ins + mset (op_inserts (pool_ops es))) (tick_observer_run schedule es ob)"
proof (induction es arbitrary: ins ob)
  case (Cons e es)
  show ?case
  proof (cases e)
    case (KEntry obs)
    from Cons.IH [OF observe_entry_pool_ok [OF Cons.prems]] KEntry show ?thesis by (simp add: tick_observer_run_def)
  next
    case (KPool op)
    have split: "mset (op_inserts (pool_ops (e # es))) = mset (op_inserts [op]) + mset (op_inserts (pool_ops es))"
      unfolding KPool by (cases op) simp_all
    have run: "tick_observer_run schedule (e # es) ob = tick_observer_run schedule es (ob\<lparr>to_pool := apply_pool_op op (to_pool ob)\<rparr>)"
      unfolding KPool by (simp add: tick_observer_run_def)
    show ?thesis unfolding split run by (simp only: add.assoc [symmetric] Cons.IH [OF pool_op_ok [OF Cons.prems, of op]])
  next
    case (KPending sigs)
    have "tick_pool_ok schedule ins (ob\<lparr>to_pending_sigs := sigs\<rparr>)" using Cons.prems by (simp add: tick_pool_ok_def)
    from Cons.IH [OF this] KPending show ?thesis by (simp add: tick_observer_run_def)
  qed
qed (simp add: tick_observer_run_def)

end
