(* ===== verification/TickSend.thy ===== *)
theory TickSend
  imports TickObserver Json
begin

text \<open>
  The Helius client (\<open>crates/tick-trigger-bench/src/helius_sender.rs\<close>) and the send dispatcher (\<open>sender.rs\<close>) of the
  first bench.  The dispatcher processes up to \<open>max_inflight\<close> commands at a time; a command is one step when it is
  started and one when its answer arrives, and the steps of different commands interleave in any order.  The HTTP
  exchange, base64 and the JSON decoder are parameters.
\<close>

section \<open>The Helius client\<close>

record tick_helius =
  hx_endpoint :: string
  hx_api_key :: "string option"
  hx_swqos_only :: bool

datatype tick_send_error = TsHttpStatus u16 string | TsRpcError string | TsNetwork string | TsParse string

definition tick_helius_new :: "string \<Rightarrow> string option \<Rightarrow> bool \<Rightarrow> tick_helius" where
  "tick_helius_new endpoint api_key swqos_only =
     \<lparr>hx_endpoint = rev (dropWhile (\<lambda>c. c = CHR ''/'') (rev endpoint)), hx_api_key = api_key, hx_swqos_only = swqos_only\<rparr>"

definition tick_send_body :: "string \<Rightarrow> json" where
  "tick_send_body encoded = JObj [(''jsonrpc'', JStr ''2.0''), (''id'', JNum 1), (''method'', JStr ''sendTransaction''),
     (''params'', JArr [JStr encoded, JObj [(''encoding'', JStr ''base64''), (''skipPreflight'', JBool True), (''maxRetries'', JNum 0)]])]"

fun query_text :: "(string \<times> string) list \<Rightarrow> string" where
  "query_text [] = []"
| "query_text [(k, v)] = k @ ''='' @ v"
| "query_text ((k, v) # q # qs) = k @ ''='' @ v @ ''&'' @ query_text (q # qs)"

definition tick_send_url :: "tick_helius \<Rightarrow> string" where
  "tick_send_url hx =
     (let qs = (case hx_api_key hx of Some k \<Rightarrow> [(''api-key'', k)] | None \<Rightarrow> [])
          @ [(''swqos_only'', if hx_swqos_only hx then ''true'' else ''false'')];
          url = hx_endpoint hx @ ''/fast''
      in if qs = [] then url else url @ ''?'' @ query_text qs)"

text \<open>The decoded reply: the result and the message of the error, each if present; else the text of the decoder.\<close>

record rpc_resp =
  rx_result :: "string option"
  rx_error :: "string option"

definition is_success :: "u16 \<Rightarrow> bool" where
  "is_success status \<longleftrightarrow> 200 \<le> status \<and> status < 300"

text \<open>\<open>reply\<close>: a network error, or the status with the body, when that could be read.\<close>

definition tick_classify :: "(string \<Rightarrow> string + rpc_resp) \<Rightarrow> string + (u16 \<times> string option) \<Rightarrow> tick_send_error + string" where
  "tick_classify decode reply = (case reply of
     Inl e \<Rightarrow> Inl (TsNetwork e)
   | Inr (status, body) \<Rightarrow>
       let text1 = (case body of Some b \<Rightarrow> b | None \<Rightarrow> []) in
       if \<not> is_success status then Inl (TsHttpStatus status text1)
       else (case decode text1 of
           Inl e \<Rightarrow> Inl (TsParse (''body: '' @ text1 @ '' err: '' @ e))
         | Inr parsed \<Rightarrow> (case rx_error parsed of
             Some msg \<Rightarrow> Inl (TsRpcError msg)
           | None \<Rightarrow> (case rx_result parsed of
               Some r \<Rightarrow> Inr r
             | None \<Rightarrow> Inl (TsParse (''missing result: '' @ text1))))))"

definition send_raw :: "(u8 list \<Rightarrow> string) \<Rightarrow> (string \<Rightarrow> string + rpc_resp) \<Rightarrow>
    (string \<Rightarrow> json \<Rightarrow> string + (u16 \<times> string option)) \<Rightarrow> tick_helius \<Rightarrow> u8 list \<Rightarrow> tick_send_error + string" where
  "send_raw b64 decode post hx bytes = tick_classify decode (post (tick_send_url hx) (tick_send_body (b64 bytes)))"

section \<open>The dispatcher\<close>

record tick_send_event =
  tv_signature :: signature
  tv_schedule_slot :: u64
  tv_schedule_tick :: u8
  tv_trigger_observed_at :: instant
  tv_send_at :: instant
  tv_response_at :: instant
  tv_error :: "string option"

record tick_dispatcher =
  td_queue :: "send_command list"
  td_inflight :: "(send_command \<times> instant) list"
  td_send_event_tx :: "tick_send_event chan"
  td_pending_sigs :: "signature set"
  td_counters :: tick_counters

definition tick_dispatcher_new :: "nat option \<Rightarrow> tick_dispatcher" where
  "tick_dispatcher_new cap = \<lparr>td_queue = [], td_inflight = [], td_send_event_tx = chan_new cap, td_pending_sigs = {},
     td_counters = tick_counters_new\<rparr>"

fun send_error_text :: "tick_send_error \<Rightarrow> string" where
  "send_error_text (TsHttpStatus code body) = ''http '' @ dec_digits (unat code) @ '': '' @ body"
| "send_error_text (TsNetwork e) = ''net: '' @ e"
| "send_error_text (TsRpcError msg) = ''rpc: '' @ msg"
| "send_error_text (TsParse msg) = ''parse: '' @ msg"

fun count_send_error :: "tick_send_error \<Rightarrow> tick_counters \<Rightarrow> tick_counters" where
  "count_send_error (TsNetwork e) c = c\<lparr>kc_send_network_error := kc_send_network_error c + 1\<rparr>"
| "count_send_error _ c = c\<lparr>kc_send_http_error := kc_send_http_error c + 1\<rparr>"

text \<open>The first half of \<open>process_one\<close>, up to the request: the age check and the pending signature.\<close>

definition begin_one :: "duration \<Rightarrow> instant \<Rightarrow> instant \<Rightarrow> send_command \<Rightarrow> tick_dispatcher \<Rightarrow> tick_dispatcher" where
  "begin_one max_age check_at send_at cmd td =
     (if since check_at (ps_built_at (cm_tx cmd)) > max_age
      then td\<lparr>td_counters := (td_counters td)\<lparr>kc_blockhash_expired := kc_blockhash_expired (td_counters td) + 1\<rparr>\<rparr>
      else td\<lparr>td_pending_sigs := insert (ps_signature (cm_tx cmd)) (td_pending_sigs td),
              td_inflight := td_inflight td @ [(cmd, send_at)]\<rparr>)"

text \<open>The second half: the outcome is counted and the event is handed on.\<close>

definition finish_one :: "tick_send_error + string \<Rightarrow> instant \<Rightarrow> send_command \<times> instant \<Rightarrow> tick_dispatcher \<Rightarrow> tick_dispatcher" where
  "finish_one result response_at ci td =
     (let (cmd, send_at) = ci;
          c = (case result of Inr _ \<Rightarrow> td_counters td | Inl e \<Rightarrow> count_send_error e (td_counters td));
          ev = \<lparr>tv_signature = ps_signature (cm_tx cmd), tv_schedule_slot = cm_schedule_slot cmd,
                tv_schedule_tick = cm_schedule_tick cmd, tv_trigger_observed_at = cm_trigger_observed_at cmd,
                tv_send_at = send_at, tv_response_at = response_at,
                tv_error = (case result of Inr _ \<Rightarrow> None | Inl e \<Rightarrow> Some (send_error_text e))\<rparr>;
          (tx, ok) = try_send (td_send_event_tx td) ev
      in td\<lparr>td_send_event_tx := tx,
            td_counters := (if ok then c else c\<lparr>kc_send_event_queue_full := kc_send_event_queue_full c + 1\<rparr>)\<rparr>)"

text \<open>A command arrives; a queued command is started if there is room; the request of the k-th command in flight
  ends; the finalizer removes a signature.\<close>

datatype tick_dispatcher_event =
    TArrive send_command
  | TStart instant instant
  | TDone nat "string + (u16 \<times> string option)" instant
  | TSettled signature

record tick_dispatcher_cfg =
  tk_max_age :: duration
  tk_max_inflight :: nat
  tk_decode :: "string \<Rightarrow> string + rpc_resp"

fun tick_dispatcher_step :: "tick_dispatcher_cfg \<Rightarrow> tick_dispatcher_event \<Rightarrow> tick_dispatcher \<Rightarrow> tick_dispatcher" where
  "tick_dispatcher_step cfg (TArrive cmd) td = td\<lparr>td_queue := td_queue td @ [cmd]\<rparr>"
| "tick_dispatcher_step cfg (TStart check_at send_at) td = (case td_queue td of
     [] \<Rightarrow> td
   | cmd # rest \<Rightarrow> if length (td_inflight td) < tk_max_inflight cfg
       then begin_one (tk_max_age cfg) check_at send_at cmd (td\<lparr>td_queue := rest\<rparr>) else td)"
| "tick_dispatcher_step cfg (TDone k reply response_at) td =
     (if k < length (td_inflight td)
      then finish_one (tick_classify (tk_decode cfg) reply) response_at (td_inflight td ! k)
        (td\<lparr>td_inflight := take k (td_inflight td) @ drop (Suc k) (td_inflight td)\<rparr>)
      else td)"
| "tick_dispatcher_step cfg (TSettled sig) td = td\<lparr>td_pending_sigs := td_pending_sigs td - {sig}\<rparr>"

definition tick_dispatcher_run :: "tick_dispatcher_cfg \<Rightarrow> tick_dispatcher_event list \<Rightarrow> tick_dispatcher \<Rightarrow> tick_dispatcher" where
  "tick_dispatcher_run cfg es td = fold (tick_dispatcher_step cfg) es td"

section \<open>Every command is accounted for\<close>

text \<open>The part of a command that its send event repeats.\<close>

definition command_id :: "send_command \<Rightarrow> signature \<times> u64 \<times> u8 \<times> instant" where
  "command_id c = (ps_signature (cm_tx c), cm_schedule_slot c, cm_schedule_tick c, cm_trigger_observed_at c)"

definition send_event_id :: "tick_send_event \<Rightarrow> signature \<times> u64 \<times> u8 \<times> instant" where
  "send_event_id e = (tv_signature e, tv_schedule_slot e, tv_schedule_tick e, tv_trigger_observed_at e)"

fun command_arrivals :: "tick_dispatcher_event list \<Rightarrow> send_command list" where
  "command_arrivals [] = []"
| "command_arrivals (TArrive cmd # es) = cmd # command_arrivals es"
| "command_arrivals (_ # es) = command_arrivals es"

definition settled_sigs :: "tick_dispatcher_event list \<Rightarrow> signature set" where
  "settled_sigs es = {s. TSettled s \<in> set es}"

text \<open>\<open>old\<close> are the commands found too old when their turn came.\<close>

definition commands_accounted :: "send_command list \<Rightarrow> send_command list \<Rightarrow> tick_dispatcher \<Rightarrow> bool" where
  "commands_accounted arrived old td \<longleftrightarrow> kc_blockhash_expired (td_counters td) = of_nat (length old)
     \<and> mset (map command_id arrived) = mset (map command_id old) + mset (map command_id (td_queue td))
           + mset (map (command_id \<circ> fst) (td_inflight td)) + mset (map send_event_id (ch_offered (td_send_event_tx td)))"

definition tick_dispatch_ok :: "tick_dispatcher_cfg \<Rightarrow> signature set \<Rightarrow> tick_dispatcher \<Rightarrow> bool" where
  "tick_dispatch_ok cfg settled td \<longleftrightarrow> length (td_inflight td) \<le> tk_max_inflight cfg
     \<and> (\<forall>ci \<in> set (td_inflight td). ps_signature (cm_tx (fst ci)) \<in> td_pending_sigs td \<union> settled)
     \<and> (\<forall>e \<in> set (ch_offered (td_send_event_tx td)). tv_signature e \<in> td_pending_sigs td \<union> settled)"

lemma begin_one_accounted:
  assumes "commands_accounted arrived old td" "td_queue td = cmd # rest"
  shows "\<exists>old'. commands_accounted arrived old' (begin_one max_age check_at send_at cmd (td\<lparr>td_queue := rest\<rparr>))"
proof (cases "since check_at (ps_built_at (cm_tx cmd)) > max_age")
  case True
  with assms have "commands_accounted arrived (cmd # old) (begin_one max_age check_at send_at cmd (td\<lparr>td_queue := rest\<rparr>))"
    by (simp add: commands_accounted_def begin_one_def)
  then show ?thesis ..
next
  case False
  with assms have "commands_accounted arrived old (begin_one max_age check_at send_at cmd (td\<lparr>td_queue := rest\<rparr>))"
    by (simp add: commands_accounted_def begin_one_def)
  then show ?thesis ..
qed

lemma begin_one_ok:
  assumes "tick_dispatch_ok cfg settled td" "length (td_inflight td) < tk_max_inflight cfg"
  shows "tick_dispatch_ok cfg settled (begin_one max_age check_at send_at cmd (td\<lparr>td_queue := rest\<rparr>))"
  using assms by (auto simp: tick_dispatch_ok_def begin_one_def)

lemma finish_one_effect:
  "td_queue (finish_one r t ci td) = td_queue td" "td_inflight (finish_one r t ci td) = td_inflight td"
  "td_pending_sigs (finish_one r t ci td) = td_pending_sigs td"
  "kc_blockhash_expired (td_counters (finish_one r t ci td)) = kc_blockhash_expired (td_counters td)"
  "\<exists>ev. ch_offered (td_send_event_tx (finish_one r t ci td)) = ch_offered (td_send_event_tx td) @ [ev]
     \<and> send_event_id ev = command_id (fst ci) \<and> tv_signature ev = ps_signature (cm_tx (fst ci))"
proof -
  have count: "kc_blockhash_expired (count_send_error e c) = kc_blockhash_expired c" for e c
    by (cases "(e, c)" rule: count_send_error.cases) simp_all
  show "td_queue (finish_one r t ci td) = td_queue td" "td_inflight (finish_one r t ci td) = td_inflight td"
    "td_pending_sigs (finish_one r t ci td) = td_pending_sigs td"
    by (simp_all add: finish_one_def case_prod_unfold Let_def)
  show "kc_blockhash_expired (td_counters (finish_one r t ci td)) = kc_blockhash_expired (td_counters td)"
    by (cases r) (simp_all add: finish_one_def count case_prod_unfold Let_def)
  show "\<exists>ev. ch_offered (td_send_event_tx (finish_one r t ci td)) = ch_offered (td_send_event_tx td) @ [ev]
     \<and> send_event_id ev = command_id (fst ci) \<and> tv_signature ev = ps_signature (cm_tx (fst ci))"
    by (simp add: finish_one_def command_id_def send_event_id_def case_prod_unfold Let_def)
qed

lemma mset_take_drop_nth: "k < length xs \<Longrightarrow> mset xs = add_mset (xs ! k) (mset (take k xs @ drop (Suc k) xs))"
  by (metis add_mset_add_single id_take_nth_drop mset.simps(2) mset_append union_mset_add_mset_right)

lemma finish_one_accounted:
  assumes "commands_accounted arrived old td" "k < length (td_inflight td)"
  shows "commands_accounted arrived old (finish_one r t (td_inflight td ! k)
     (td\<lparr>td_inflight := take k (td_inflight td) @ drop (Suc k) (td_inflight td)\<rparr>))"
proof -
  let ?ci = "td_inflight td ! k" and ?rest = "take k (td_inflight td) @ drop (Suc k) (td_inflight td)"
  let ?td = "finish_one r t ?ci (td\<lparr>td_inflight := ?rest\<rparr>)"
  obtain ev where ev: "ch_offered (td_send_event_tx ?td) = ch_offered (td_send_event_tx td) @ [ev]"
    "send_event_id ev = command_id (fst ?ci)"
    using finish_one_effect(5) [of r t ?ci "td\<lparr>td_inflight := ?rest\<rparr>"] by auto
  have eff: "td_queue ?td = td_queue td" "td_inflight ?td = ?rest"
    "kc_blockhash_expired (td_counters ?td) = kc_blockhash_expired (td_counters td)"
    by (simp_all add: finish_one_effect)
  have "mset (map (command_id \<circ> fst) (td_inflight td)) = image_mset (command_id \<circ> fst) (mset (td_inflight td))" by simp
  also have "\<dots> = image_mset (command_id \<circ> fst) (add_mset ?ci (mset ?rest))" unfolding mset_take_drop_nth [OF assms(2)] ..
  finally have fl: "mset (map (command_id \<circ> fst) (td_inflight td)) = add_mset (command_id (fst ?ci)) (mset (map (command_id \<circ> fst) ?rest))"
    by simp
  show ?thesis using assms(1) unfolding commands_accounted_def eff ev(1) fl by (simp add: ev(2))
qed

lemma finish_one_ok:
  assumes "tick_dispatch_ok cfg settled td" and k: "k < length (td_inflight td)"
  shows "tick_dispatch_ok cfg settled (finish_one r t (td_inflight td ! k)
     (td\<lparr>td_inflight := take k (td_inflight td) @ drop (Suc k) (td_inflight td)\<rparr>))"
proof -
  let ?ci = "td_inflight td ! k" and ?rest = "take k (td_inflight td) @ drop (Suc k) (td_inflight td)"
  let ?td = "finish_one r t ?ci (td\<lparr>td_inflight := ?rest\<rparr>)"
  obtain ev where ev: "ch_offered (td_send_event_tx ?td) = ch_offered (td_send_event_tx td) @ [ev]"
    "tv_signature ev = ps_signature (cm_tx (fst ?ci))"
    using finish_one_effect(5) [of r t ?ci "td\<lparr>td_inflight := ?rest\<rparr>"] by auto
  have eff: "td_inflight ?td = ?rest" "td_pending_sigs ?td = td_pending_sigs td" by (simp_all add: finish_one_effect)
  have "set ?rest \<subseteq> set (td_inflight td)" using set_take_subset set_drop_subset by (metis set_append Un_least)
  moreover have "?ci \<in> set (td_inflight td)" using k by simp
  moreover have "length ?rest \<le> length (td_inflight td)" by simp
  ultimately show ?thesis using assms(1) ev(2) unfolding tick_dispatch_ok_def eff ev(1) by auto
qed

lemma tick_dispatcher_step_accounted:
  assumes "commands_accounted arrived old td"
  shows "\<exists>old'. commands_accounted (arrived @ command_arrivals [e]) old' (tick_dispatcher_step cfg e td)"
proof (cases e)
  case (TArrive cmd)
  with assms have "commands_accounted (arrived @ command_arrivals [e]) old (tick_dispatcher_step cfg e td)"
    by (simp add: commands_accounted_def)
  then show ?thesis ..
next
  case (TStart check_at send_at)
  show ?thesis
  proof (cases "td_queue td")
    case Nil
    with assms TStart show ?thesis by auto
  next
    case (Cons cmd rest)
    with begin_one_accounted [OF assms Cons] assms TStart show ?thesis by auto
  qed
next
  case (TDone k reply t)
  with finish_one_accounted [OF assms] assms show ?thesis by auto
next
  case (TSettled sig)
  with assms have "commands_accounted (arrived @ command_arrivals [e]) old (tick_dispatcher_step cfg e td)"
    by (simp add: commands_accounted_def)
  then show ?thesis ..
qed

lemma tick_dispatcher_step_ok:
  assumes "tick_dispatch_ok cfg settled td"
  shows "tick_dispatch_ok cfg (settled \<union> settled_sigs [e]) (tick_dispatcher_step cfg e td)"
proof (cases e)
  case (TStart check_at send_at)
  with assms begin_one_ok [OF assms] show ?thesis by (cases "td_queue td") (simp_all add: settled_sigs_def)
next
  case (TDone k reply t)
  with assms finish_one_ok [OF assms] show ?thesis by (simp add: settled_sigs_def)
qed (use assms in \<open>auto simp: tick_dispatch_ok_def settled_sigs_def\<close>)

lemma tick_dispatcher_run_accounted:
  "commands_accounted arrived old td \<Longrightarrow> \<exists>old'. commands_accounted (arrived @ command_arrivals es) old' (tick_dispatcher_run cfg es td)"
proof (induction es arbitrary: arrived old td)
  case (Cons e es)
  have split: "command_arrivals (e # es) = command_arrivals [e] @ command_arrivals es" by (cases e) simp_all
  obtain old' where "commands_accounted (arrived @ command_arrivals [e]) old' (tick_dispatcher_step cfg e td)"
    using tick_dispatcher_step_accounted [OF Cons.prems] by blast
  from Cons.IH [OF this] show ?case unfolding split by (simp add: tick_dispatcher_run_def)
qed (auto simp: tick_dispatcher_run_def)

lemma tick_dispatcher_run_ok:
  "tick_dispatch_ok cfg settled td \<Longrightarrow> tick_dispatch_ok cfg (settled \<union> settled_sigs es) (tick_dispatcher_run cfg es td)"
proof (induction es arbitrary: settled td)
  case (Cons e es)
  have "settled_sigs (e # es) = settled_sigs [e] \<union> settled_sigs es" by (auto simp: settled_sigs_def)
  with Cons.IH [OF tick_dispatcher_step_ok [OF Cons.prems, of e]] show ?case by (simp add: tick_dispatcher_run_def Un_assoc)
qed (simp add: tick_dispatcher_run_def settled_sigs_def)

end
