(* ===== verification/TickWriter.thy ===== *)
theory TickWriter
  imports TickSend FanFinality
begin

text \<open>
  The back half of the first bench (\<open>crates/tick-trigger-bench/src/\<close>): the finalizer and the Parquet loop of
  \<open>writer.rs\<close>, the RPC fallback (\<open>rpc_fallback.rs\<close>), the leader lookup (\<open>leader_cache.rs\<close>), the tick side file
  (\<open>sidecar.rs\<close>) and the main loop (\<open>runtime.rs\<close>).  The encoding of a batch is left out: a written
  batch is its list of rows, and whether the write succeeds is an argument.
\<close>

section \<open>The finalizer\<close>

record pending_record =
  pg_send :: tick_send_event
  pg_match_event :: "tick_match_event option"
  pg_inserted_at :: instant

record tick_final =
  fl_send :: tick_send_event
  fl_match_event :: "tick_match_event option"
  fl_status :: string

record finalizer =
  fz_map :: "(signature, pending_record) hmap"
  fz_early_matches :: "(signature, tick_match_event) hmap"
  fz_last_sweep :: instant
  fz_final_tx :: "tick_final chan"
  fz_pending_sigs :: "signature set"
  fz_fallback_queue :: "signature list"
  fz_counters :: tick_counters

definition finalizer_new :: "instant \<Rightarrow> nat option \<Rightarrow> finalizer" where
  "finalizer_new now cap = \<lparr>fz_map = [], fz_early_matches = [], fz_last_sweep = now, fz_final_tx = chan_new cap,
     fz_pending_sigs = {}, fz_fallback_queue = [], fz_counters = tick_counters_new\<rparr>"

definition final_offer :: "tick_final \<Rightarrow> finalizer \<Rightarrow> finalizer" where
  "final_offer r fz = (let (tx, ok) = try_send (fz_final_tx fz) r; c = fz_counters fz in
     fz\<lparr>fz_final_tx := tx, fz_counters := (if ok then c else c\<lparr>kc_final_queue_full := kc_final_queue_full c + 1\<rparr>)\<rparr>)"

definition emit_final :: "signature \<Rightarrow> pending_record \<Rightarrow> finalizer \<Rightarrow> finalizer" where
  "emit_final sig p fz =
     (let status = (if pg_match_event p \<noteq> None then ''OBSERVED'' else ''UNKNOWN_PENDING'');
          fz1 = fz\<lparr>fz_pending_sigs := fz_pending_sigs fz - {sig}\<rparr>;
          fz2 = (if status = ''UNKNOWN_PENDING'' then fz1\<lparr>fz_fallback_queue := fz_fallback_queue fz1 @ [sig]\<rparr> else fz1)
      in final_offer \<lparr>fl_send = pg_send p, fl_match_event = pg_match_event p, fl_status = status\<rparr> fz2)"

text \<open>A completed record: out of the map, its signature no longer pending, handed on.\<close>

definition complete_record :: "signature \<Rightarrow> pending_record \<Rightarrow> finalizer \<Rightarrow> finalizer" where
  "complete_record sig p fz = final_offer \<lparr>fl_send = pg_send p, fl_match_event = pg_match_event p, fl_status = ''OBSERVED''\<rparr>
     (fz\<lparr>fz_map := hm_delete sig (fz_map fz), fz_pending_sigs := fz_pending_sigs fz - {sig}\<rparr>)"

definition finalize_send :: "tick_send_event \<Rightarrow> instant \<Rightarrow> finalizer \<Rightarrow> finalizer" where
  "finalize_send ev inserted_at fz =
     (let sig = tv_signature ev;
          (match_event, early) = hm_remove sig (fz_early_matches fz);
          p = (case hm_get (fz_map fz) sig of Some p \<Rightarrow> p
            | None \<Rightarrow> \<lparr>pg_send = ev, pg_match_event = match_event, pg_inserted_at = inserted_at\<rparr>);
          fz1 = fz\<lparr>fz_early_matches := early, fz_map := hm_insert sig p (fz_map fz)\<rparr>
      in if match_event \<noteq> None then complete_record sig p fz1 else fz1)"

definition finalize_match :: "tick_match_event \<Rightarrow> finalizer \<Rightarrow> finalizer" where
  "finalize_match ev fz =
     (let sig = tm_signature ev in
      case hm_get (fz_map fz) sig of
        Some p \<Rightarrow> complete_record sig (p\<lparr>pg_match_event := Some ev\<rparr>) fz
      | None \<Rightarrow> fz\<lparr>fz_early_matches := hm_insert sig ev (fz_early_matches fz)\<rparr>)"

definition emit_pending :: "signature \<Rightarrow> finalizer \<Rightarrow> finalizer" where
  "emit_pending sig fz = (case hm_get (fz_map fz) sig of
     None \<Rightarrow> fz | Some p \<Rightarrow> emit_final sig p (fz\<lparr>fz_map := hm_delete sig (fz_map fz)\<rparr>))"

definition finalizer_sweep :: "duration \<Rightarrow> instant \<Rightarrow> finalizer \<Rightarrow> finalizer" where
  "finalizer_sweep deadline now fz =
     (if since now (fz_last_sweep fz) > 500 * 10 ^ 6
      then (fold emit_pending (map fst (filter (\<lambda>e. since now (pg_inserted_at (snd e)) > deadline) (fz_map fz))) fz)\<lparr>fz_last_sweep := now\<rparr>
      else fz)"

text \<open>What \<open>select!\<close> yields: a send event with the clock of its insertion, a match, nothing (or a closed match channel), or
  the closed channel of the send events.  A turn is the reading of the stop flag, the event, and the clock of the sweep.\<close>

datatype finalizer_event = FzSend tick_send_event instant | FzMatch tick_match_event | FzNothing | FzClosed

type_synonym finalizer_turn = "bool \<times> finalizer_event \<times> instant"

fun finalizer_handle :: "finalizer_event \<Rightarrow> finalizer \<Rightarrow> finalizer" where
  "finalizer_handle (FzSend ev t) fz = finalize_send ev t fz"
| "finalizer_handle (FzMatch ev) fz = finalize_match ev fz"
| "finalizer_handle FzNothing fz = fz"
| "finalizer_handle FzClosed fz = fz"

definition finalizer_flush :: "finalizer \<Rightarrow> finalizer" where
  "finalizer_flush fz = fold emit_pending (hm_keys (fz_map fz)) fz"

text \<open>The loop: the state, and whether the thread has left it (and flushed).\<close>

fun finalize_loop :: "duration \<Rightarrow> finalizer_turn list \<Rightarrow> finalizer \<Rightarrow> finalizer \<times> bool" where
  "finalize_loop deadline [] fz = (fz, False)"
| "finalize_loop deadline ((stop, ev, now) # turns) fz =
     (if stop \<and> fz_map fz = [] \<or> ev = FzClosed then (finalizer_flush fz, True)
      else finalize_loop deadline turns (finalizer_sweep deadline now (finalizer_handle ev fz)))"

section \<open>Leaders\<close>

definition LEADER_SLOTS_PER_EPOCH :: u64 where
  "LEADER_SLOTS_PER_EPOCH = 432000"

text \<open>The leader schedule of the node lists for every leader (a base-58 text) the offsets of its slots.\<close>

fun insert_leaders :: "(string \<Rightarrow> string + pubkey) \<Rightarrow> u64 \<Rightarrow> (string \<times> nat list) list \<Rightarrow> (u64, pubkey) hmap \<Rightarrow> string + (u64, pubkey) hmap" where
  "insert_leaders parse first_slot [] m = Inr m"
| "insert_leaders parse first_slot ((leader, slots) # rest) m = (case parse leader of
     Inl e \<Rightarrow> Inl e
   | Inr pk \<Rightarrow> insert_leaders parse first_slot rest (fold (\<lambda>off. hm_insert (first_slot + of_nat off) pk) slots m))"

definition leader_cache_from_rpc :: "(string \<Rightarrow> string + pubkey) \<Rightarrow> string + (string \<times> nat list) list option \<Rightarrow> u64 \<Rightarrow> string + (u64, pubkey) hmap" where
  "leader_cache_from_rpc parse reply current_slot = (case reply of
     Inl e \<Rightarrow> Inl e
   | Inr None \<Rightarrow> Inl ''RPC empty leader schedule''
   | Inr (Some raw) \<Rightarrow> insert_leaders parse (current_slot - current_slot mod LEADER_SLOTS_PER_EPOCH) raw [])"

section \<open>The rows\<close>

record tick_row =
  rw_schedule_slot :: u64
  rw_schedule_tick :: u8
  rw_schedule_leader :: "pubkey option"
  rw_tx_signature :: signature
  rw_trigger_observed_at_ns :: u64
  rw_send_at_ns :: u64
  rw_response_at_ns :: u64
  rw_send_error :: "string option"
  rw_observed_at_ns :: "u64 option"
  rw_observed_slot :: "u64 option"
  rw_observed_entry_index :: "u32 option"
  rw_observed_tick_in_slot :: "u8 option"
  rw_observed_cumulative_hashes_in_slot :: "u64 option"
  rw_observed_leader :: "pubkey option"
  rw_tick_delta :: "u32 option"
  rw_slot_delta :: "u32 option"
  rw_time_delta_ns :: "u64 option"
  rw_hash_delta :: "u64 option"
  rw_leader_changed :: "bool option"
  rw_status :: string

definition HASHES_PER_SLOT :: u64 where
  "HASHES_PER_SLOT = 64 * 62500"

definition sat_mul_u64 :: "u64 \<Rightarrow> u64 \<Rightarrow> u64" where
  "sat_mul_u64 a b = clamp_u64 (unat a * unat b)"

definition tick_delta_of :: "tick_send_event \<Rightarrow> tick_match_event \<Rightarrow> u32 option" where
  "tick_delta_of s m = (let slot_diff = sat_sub (tm_observed_slot m) (tv_schedule_slot s) in
     map_option (\<lambda>t. sat_sub (ucast t + ucast slot_diff * 64) (ucast (tv_schedule_tick s))) (tm_observed_tick_in_slot m))"

definition hash_delta_of :: "tick_send_event \<Rightarrow> tick_match_event \<Rightarrow> u64 option" where
  "hash_delta_of s m = (let slot_diff = sat_sub (tm_observed_slot m) (tv_schedule_slot s) in
     map_option (\<lambda>obs_h. let trigger_h = ucast (tv_schedule_tick s) * 62500 in
       sat_sub (sat_add (sat_mul_u64 slot_diff HASHES_PER_SLOT) obs_h) trigger_h) (tm_observed_cumulative_hashes_in_slot m))"

definition tick_row_of :: "(u64, pubkey) hmap \<Rightarrow> instant \<Rightarrow> tick_final \<Rightarrow> tick_row" where
  "tick_row_of leaders anchor r =
     (let s = fl_send r;
          ns = (\<lambda>t. trunc_u64 (since t anchor));
          base = \<lparr>rw_schedule_slot = tv_schedule_slot s, rw_schedule_tick = tv_schedule_tick s,
            rw_schedule_leader = hm_get leaders (tv_schedule_slot s), rw_tx_signature = tv_signature s,
            rw_trigger_observed_at_ns = ns (tv_trigger_observed_at s), rw_send_at_ns = ns (tv_send_at s),
            rw_response_at_ns = ns (tv_response_at s), rw_send_error = tv_error s, rw_observed_at_ns = None, rw_observed_slot = None,
            rw_observed_entry_index = None, rw_observed_tick_in_slot = None, rw_observed_cumulative_hashes_in_slot = None,
            rw_observed_leader = None, rw_tick_delta = None, rw_slot_delta = None, rw_time_delta_ns = None, rw_hash_delta = None,
            rw_leader_changed = None, rw_status = fl_status r\<rparr>
      in case fl_match_event r of
           None \<Rightarrow> base
         | Some m \<Rightarrow>
             let slot_diff = sat_sub (tm_observed_slot m) (tv_schedule_slot s)
             in base\<lparr>rw_observed_at_ns := Some (ns (tm_observed_at m)), rw_observed_slot := Some (tm_observed_slot m),
                  rw_observed_entry_index := Some (tm_observed_entry_index m),
                  rw_observed_tick_in_slot := tm_observed_tick_in_slot m,
                  rw_observed_cumulative_hashes_in_slot := tm_observed_cumulative_hashes_in_slot m,
                  rw_observed_leader := hm_get leaders (tm_observed_slot m),
                  rw_tick_delta := tick_delta_of s m, rw_slot_delta := Some (ucast slot_diff),
                  rw_time_delta_ns := Some (trunc_u64 (since (tm_observed_at m) (tv_send_at s))),
                  rw_hash_delta := hash_delta_of s m,
                  rw_leader_changed := (case (hm_get leaders (tv_schedule_slot s), hm_get leaders (tm_observed_slot m)) of
                      (Some a, Some b) \<Rightarrow> Some (a \<noteq> b) | _ \<Rightarrow> None)\<rparr>)"

section \<open>The Parquet loop\<close>

record tick_parquet =
  pw_builders :: "tick_row list"
  pw_batches :: "tick_row list list"
  pw_last_flush :: instant

definition tick_parquet_new :: "instant \<Rightarrow> tick_parquet" where
  "tick_parquet_new now = \<lparr>pw_builders = [], pw_batches = [], pw_last_flush = now\<rparr>"

text \<open>A failed write is logged and the batch is gone.\<close>

definition parquet_flush :: "bool \<Rightarrow> tick_parquet \<Rightarrow> tick_parquet" where
  "parquet_flush ok pw = pw\<lparr>pw_batches := (if ok then pw_batches pw @ [pw_builders pw] else pw_batches pw), pw_builders := []\<rparr>"

definition parquet_flush_at :: "bool \<Rightarrow> instant \<Rightarrow> tick_parquet \<Rightarrow> tick_parquet" where
  "parquet_flush_at ok now pw = (parquet_flush ok pw)\<lparr>pw_last_flush := now\<rparr>"

record parquet_cfg =
  pq_row_group_size :: nat
  pq_flush_interval :: duration
  pq_leaders :: "(u64, pubkey) hmap"
  pq_anchor :: instant

text \<open>What \<open>recv_timeout\<close> yields; a turn adds the clocks of the two flushes, the clock of the age test, and whether a write succeeds.\<close>

datatype parquet_event = PqRecord tick_final | PqTimeout | PqDisconnected

record parquet_turn =
  pv_event :: parquet_event
  pv_flushed_at :: instant
  pv_aged_at :: instant
  pv_reflushed_at :: instant
  pv_write_ok :: bool

fun parquet_loop :: "parquet_cfg \<Rightarrow> parquet_turn list \<Rightarrow> tick_parquet \<Rightarrow> tick_parquet \<times> bool" where
  "parquet_loop cfg [] pw = (pw, False)"
| "parquet_loop cfg (tn # tns) pw =
     (if pv_event tn = PqDisconnected
      then (if pw_builders pw \<noteq> [] then parquet_flush (pv_write_ok tn) pw else pw, True)
      else
        let pw1 = (case pv_event tn of
               PqRecord r \<Rightarrow> (let pw0 = pw\<lparr>pw_builders := pw_builders pw @ [tick_row_of (pq_leaders cfg) (pq_anchor cfg) r]\<rparr> in
                 if length (pw_builders pw0) \<ge> pq_row_group_size cfg then parquet_flush_at (pv_write_ok tn) (pv_flushed_at tn) pw0 else pw0)
             | _ \<Rightarrow> if pw_builders pw \<noteq> [] then parquet_flush_at (pv_write_ok tn) (pv_flushed_at tn) pw else pw);
            pw2 = (if pw_builders pw1 \<noteq> [] \<and> since (pv_aged_at tn) (pw_last_flush pw1) > pq_flush_interval cfg
               then parquet_flush_at (pv_write_ok tn) (pv_reflushed_at tn) pw1 else pw1)
        in parquet_loop cfg tns pw2)"

section \<open>The RPC fallback\<close>

record tick_fallback =
  tf_queue :: "signature list"
  tf_annotations :: "(signature \<times> bool) list"
  tf_rpc_fallback_error :: u64

definition drain_up_to :: "nat \<Rightarrow> signature list \<Rightarrow> signature list \<times> signature list" where
  "drain_up_to n q = (take (min (length q) n) q, drop (min (length q) n) q)"

definition rpc_landed :: "sig_status option \<Rightarrow> bool" where
  "rpc_landed status = (case status of None \<Rightarrow> False
     | Some s \<Rightarrow> sg_confirmations s = None \<or> sg_confirmation_status s \<noteq> None)"

text \<open>The text of an annotation names the verdict.\<close>

definition annotation_status :: "bool \<Rightarrow> string" where
  "annotation_status landed = (if landed then ''MISSING_FROM_STREAM'' else ''TRULY_MISSING'')"

definition fallback_batch :: "nat \<Rightarrow> status_reply \<Rightarrow> tick_fallback \<Rightarrow> tick_fallback" where
  "fallback_batch batch_size reply fb =
     (let (batch, rest) = drain_up_to batch_size (tf_queue fb); fb1 = fb\<lparr>tf_queue := rest\<rparr> in
      if batch = [] then fb1
      else case reply of
        Inr statuses \<Rightarrow> fb1\<lparr>tf_annotations := tf_annotations fb1 @ map (\<lambda>(sig, st). (sig, rpc_landed st)) (zip batch statuses)\<rparr>
      | Inl e \<Rightarrow> fb1\<lparr>tf_rpc_fallback_error := tf_rpc_fallback_error fb1 + 1\<rparr>)"

datatype tick_fallback_event = TfPush signature | TfBatch status_reply

fun tick_fallback_step :: "nat \<Rightarrow> tick_fallback_event \<Rightarrow> tick_fallback \<Rightarrow> tick_fallback" where
  "tick_fallback_step n (TfPush sig) fb = fb\<lparr>tf_queue := tf_queue fb @ [sig]\<rparr>"
| "tick_fallback_step n (TfBatch reply) fb = fallback_batch n reply fb"

section \<open>The side file and the main loop\<close>

definition sidecar_line :: "instant \<Rightarrow> tick_event \<Rightarrow> string" where
  "sidecar_line anchor ev = ''{\"ts_ns\":'' @ dec_digits (unat (trunc_u64 (since (ke_observed_at ev) anchor)))
     @ '',\"slot\":'' @ dec_digits (unat (ke_slot ev)) @ '',\"tick_idx\":'' @ dec_digits (unat (ke_tick_idx ev))
     @ '',\"num_hashes\":'' @ dec_digits (unat (ke_num_hashes ev)) @ ''}''"

datatype sidecar_event = ScTick tick_event | ScTimeout bool | ScDisconnected

fun sidecar_loop :: "instant \<Rightarrow> sidecar_event list \<Rightarrow> string list" where
  "sidecar_loop anchor [] = []"
| "sidecar_loop anchor (ScTick ev # es) = sidecar_line anchor ev # sidecar_loop anchor es"
| "sidecar_loop anchor (ScTimeout stop # es) = (if stop then [] else sidecar_loop anchor es)"
| "sidecar_loop anchor (ScDisconnected # es) = []"

text \<open>A turn of the main loop reads the clock, the stop flag and the slot; the number of sleeps of 5 s, and whether the
  schedule was covered (then it waits for the observation deadline and leaves).\<close>

fun tick_main_loop :: "duration \<Rightarrow> schedule_entry list \<Rightarrow> (duration \<times> bool \<times> u64) list \<Rightarrow> nat \<times> bool" where
  "tick_main_loop max_duration entries [] = (0, False)"
| "tick_main_loop max_duration entries ((elapsed, stop, now_slot) # turns) =
     (if \<not> elapsed < max_duration \<or> stop then (0, False)
      else if entries \<noteq> [] \<and> now_slot > se_slot (last entries) + 10 then (0, True)
      else let (n, covered) = tick_main_loop max_duration entries turns in (n + 1, covered))"

section \<open>The distances are exact\<close>

lemma ucast_u64_small: "unat (a :: u64) < 2 ^ 32 \<Longrightarrow> unat (ucast a :: u32) = unat a"
  by (simp add: unsigned_ucast_eq take_bit_nat_eq_self)

text \<open>
  The tick and hash distances of a row are the true distances between the trigger and the inclusion, counted in ticks of
  64 per slot and hashes of 62,500 per tick, for every inclusion not before the trigger's slot and less than a
  million slots after it.
\<close>

theorem row_distances_exact:
  assumes slots: "unat (tv_schedule_slot s) \<le> unat (tm_observed_slot m)"
    "unat (tm_observed_slot m) < unat (tv_schedule_slot s) + 1000000"
  shows "tm_observed_tick_in_slot m = Some t \<Longrightarrow> (\<exists>d. tick_delta_of s m = Some d \<and> unat d =
      (unat (tm_observed_slot m) * 64 + unat t) - (unat (tv_schedule_slot s) * 64 + unat (tv_schedule_tick s)))"
    and "tm_observed_cumulative_hashes_in_slot m = Some h \<Longrightarrow> unat h < 2 ^ 62 \<Longrightarrow> (\<exists>d. hash_delta_of s m = Some d \<and> unat d =
      (unat (tm_observed_slot m) * 4000000 + unat h) - (unat (tv_schedule_slot s) * 4000000 + unat (tv_schedule_tick s) * 62500))"
proof -
  let ?sd = "sat_sub (tm_observed_slot m) (tv_schedule_slot s)"
  have sd: "unat ?sd = unat (tm_observed_slot m) - unat (tv_schedule_slot s)" by (rule unat_sat_sub)
  have sdb: "unat ?sd < 1000000" using slots unfolding sd by linarith
  have tick: "unat (tv_schedule_tick s) < 256" using unat_bound [of "tv_schedule_tick s"] by simp
  {
    assume t: "tm_observed_tick_in_slot m = Some t"
    have tb: "unat t < 256" using unat_bound [of t] by simp
    have "unat (ucast t + ucast ?sd * 64 :: u32) = unat t + unat ?sd * 64"
    proof -
      have a: "unat (ucast t :: u32) = unat t" using tb by (simp add: unsigned_ucast_eq take_bit_nat_eq_self)
      have b: "unat (ucast ?sd :: u32) = unat ?sd" using sdb by (intro ucast_u64_small) simp
      have "unat (ucast ?sd * 64 :: u32) = unat ?sd * 64" using b sdb by (simp add: unat_word_ariths)
      then show ?thesis using a sdb tb by (simp add: unat_word_ariths)
    qed
    moreover have "unat (ucast (tv_schedule_tick s) :: u32) = unat (tv_schedule_tick s)"
      using tick by (simp add: unsigned_ucast_eq take_bit_nat_eq_self)
    ultimately have "unat (sat_sub (ucast t + ucast ?sd * 64 :: u32) (ucast (tv_schedule_tick s))) =
        unat t + unat ?sd * 64 - unat (tv_schedule_tick s)" by (simp only: unat_sat_sub)
    moreover have "unat t + unat ?sd * 64 - unat (tv_schedule_tick s) =
        (unat (tm_observed_slot m) * 64 + unat t) - (unat (tv_schedule_slot s) * 64 + unat (tv_schedule_tick s))"
      unfolding sd using slots(1) by (simp add: diff_mult_distrib)
    ultimately show "\<exists>d. tick_delta_of s m = Some d \<and> unat d =
      (unat (tm_observed_slot m) * 64 + unat t) - (unat (tv_schedule_slot s) * 64 + unat (tv_schedule_tick s))"
      by (simp add: tick_delta_of_def t Let_def)
  }
  {
    assume h: "tm_observed_cumulative_hashes_in_slot m = Some h" "unat h < 2 ^ 62"
    have k: "unat HASHES_PER_SLOT = 4000000" by (simp add: HASHES_PER_SLOT_def)
    have "unat (sat_mul_u64 ?sd HASHES_PER_SLOT) = unat ?sd * 4000000"
      using sdb unfolding sat_mul_u64_def unat_clamp_u64 k by (simp add: min_def)
    then have sum: "unat (sat_add (sat_mul_u64 ?sd HASHES_PER_SLOT) h) = unat ?sd * 4000000 + unat h"
      using sdb h(2) by (simp add: unat_sat_add)
    have tr: "unat (ucast (tv_schedule_tick s) * 62500 :: u64) = unat (tv_schedule_tick s) * 62500"
    proof -
      have "unat (ucast (tv_schedule_tick s) :: u64) = unat (tv_schedule_tick s)"
        using tick by (simp add: unsigned_ucast_eq take_bit_nat_eq_self)
      then show ?thesis using tick by (simp add: unat_word_ariths)
    qed
    have "unat ?sd * 4000000 + unat h - unat (tv_schedule_tick s) * 62500 =
        (unat (tm_observed_slot m) * 4000000 + unat h) - (unat (tv_schedule_slot s) * 4000000 + unat (tv_schedule_tick s) * 62500)"
      unfolding sd using slots(1) by (simp add: diff_mult_distrib)
    then show "\<exists>d. hash_delta_of s m = Some d \<and> unat d =
      (unat (tm_observed_slot m) * 4000000 + unat h) - (unat (tv_schedule_slot s) * 4000000 + unat (tv_schedule_tick s) * 62500)"
      using sum tr by (simp add: hash_delta_of_def h(1) Let_def unat_sat_sub)
  }
qed

end
