(* ===== verification/TickRun.thy ===== *)
theory TickRun
  imports TickWriter
begin

text \<open>What the runs of the first bench guarantee, over all interleavings of its threads' steps.\<close>

section \<open>One record per send\<close>

definition offered_finals :: "finalizer \<Rightarrow> tick_final list" where
  "offered_finals fz = ch_offered (fz_final_tx fz)"

abbreviation final_sig :: "tick_final \<Rightarrow> signature" where
  "final_sig r \<equiv> tv_signature (fl_send r)"

definition final_honest :: "tick_send_event set \<Rightarrow> tick_match_event set \<Rightarrow> tick_final \<Rightarrow> bool" where
  "final_honest S M r \<longleftrightarrow> fl_send r \<in> S
     \<and> fl_status r = (if fl_match_event r = None then ''UNKNOWN_PENDING'' else ''OBSERVED'')
     \<and> (\<forall>m. fl_match_event r = Some m \<longrightarrow> m \<in> M \<and> tm_signature m = final_sig r)"

definition entry_ok :: "tick_send_event set \<Rightarrow> signature \<Rightarrow> pending_record \<Rightarrow> bool" where
  "entry_ok S sig p \<longleftrightarrow> tv_signature (pg_send p) = sig \<and> pg_match_event p = None \<and> pg_send p \<in> S"

definition fz_ok :: "tick_send_event list \<Rightarrow> tick_match_event set \<Rightarrow> finalizer \<Rightarrow> bool" where
  "fz_ok S M fz \<longleftrightarrow> hm_ok (fz_map fz)
     \<and> (\<forall>sig p. hm_get (fz_map fz) sig = Some p \<longrightarrow> entry_ok (set S) sig p)
     \<and> (\<forall>sig m. hm_get (fz_early_matches fz) sig = Some m \<longrightarrow> tm_signature m = sig \<and> m \<in> M \<and> hm_get (fz_map fz) sig = None)
     \<and> mset (map final_sig (offered_finals fz)) + mset (hm_keys (fz_map fz)) = mset (map tv_signature S)
     \<and> (\<forall>r \<in> set (offered_finals fz). final_honest (set S) M r)
     \<and> fz_fallback_queue fz = map final_sig (filter (\<lambda>r. fl_match_event r = None) (offered_finals fz))"

lemma final_offer_effect [simp]:
  "offered_finals (final_offer r fz) = offered_finals fz @ [r]" "fz_map (final_offer r fz) = fz_map fz"
  "fz_early_matches (final_offer r fz) = fz_early_matches fz" "fz_fallback_queue (final_offer r fz) = fz_fallback_queue fz"
  by (simp_all add: final_offer_def offered_finals_def case_prod_unfold Let_def)

lemma offered_upd [simp]: "offered_finals (fz\<lparr>fz_map := a\<rparr>) = offered_finals fz" "offered_finals (fz\<lparr>fz_pending_sigs := b\<rparr>) = offered_finals fz"
  "offered_finals (fz\<lparr>fz_early_matches := c\<rparr>) = offered_finals fz" "offered_finals (fz\<lparr>fz_fallback_queue := d\<rparr>) = offered_finals fz"
  "offered_finals (fz\<lparr>fz_last_sweep := e\<rparr>) = offered_finals fz"
  by (simp_all add: offered_finals_def)

lemma fz_keys_delete: "hm_ok m \<Longrightarrow> hm_get m k = Some v \<Longrightarrow> mset (hm_keys m) = add_mset k (mset (hm_keys (hm_delete k m)))"
  using arg_cong [where f = "image_mset fst", OF mset_hm_remove [of m k v]] by (simp add: hm_keys_def)

lemma fz_keys_insert: "hm_get m k = None \<Longrightarrow> mset (hm_keys (hm_insert k v m)) = add_mset k (mset (hm_keys m))"
  by (simp add: hm_keys_insert)

lemma fz_ok_get: "fz_ok S M fz \<Longrightarrow> hm_get (fz_map fz) sig = Some p \<Longrightarrow> entry_ok (set S) sig p"
  by (simp add: fz_ok_def)

lemma fz_ok_more_matches: "fz_ok S M fz \<Longrightarrow> M \<subseteq> M' \<Longrightarrow> fz_ok S M' fz"
  unfolding fz_ok_def final_honest_def by (meson subsetD)

text \<open>A record that leaves the map is handed on, with its match or for the fallback.\<close>

lemma leave_map_ok:
  assumes ok: "fz_ok S M fz" and get: "hm_get (fz_map fz) sig = Some p"
    and fz': "fz_map fz' = hm_delete sig (fz_map fz)" "fz_early_matches fz' = fz_early_matches fz"
      "offered_finals fz' = offered_finals fz @ [r]"
      "fz_fallback_queue fz' = (if fl_match_event r = None then fz_fallback_queue fz @ [sig] else fz_fallback_queue fz)"
    and r: "fl_send r = pg_send p" "final_honest (set S) M r"
  shows "fz_ok S M fz'"
proof -
  have e: "tv_signature (pg_send p) = sig" using fz_ok_get [OF ok get] by (simp add: entry_ok_def)
  have hm: "hm_ok (fz_map fz)" using ok by (simp add: fz_ok_def)
  have "mset (map final_sig (offered_finals fz')) + mset (hm_keys (fz_map fz')) = mset (map tv_signature S)"
    using ok fz_keys_delete [OF hm get] r(1) e by (simp add: fz_ok_def fz')
  with ok r e show ?thesis by (auto simp: fz_ok_def fz')
qed

lemma emit_pending_ok:
  assumes "fz_ok S M fz"
  shows "fz_ok S M (emit_pending sig fz)"
proof (cases "hm_get (fz_map fz) sig")
  case None
  with assms show ?thesis by (simp add: emit_pending_def)
next
  case (Some p)
  have e: "entry_ok (set S) sig p" using fz_ok_get [OF assms Some] .
  show ?thesis
    by (rule leave_map_ok [OF assms Some, where r = "\<lparr>fl_send = pg_send p, fl_match_event = None, fl_status = ''UNKNOWN_PENDING''\<rparr>"])
       (use e in \<open>simp_all add: emit_pending_def Some emit_final_def entry_ok_def final_honest_def Let_def\<close>)
qed

lemma emit_all_ok: "fz_ok S M fz \<Longrightarrow> fz_ok S M (fold emit_pending sigs fz)"
  by (induction sigs arbitrary: fz) (simp_all add: emit_pending_ok)

lemma sweep_ok: "fz_ok S M fz \<Longrightarrow> fz_ok S M (finalizer_sweep deadline now fz)"
  using emit_all_ok [of S M fz] by (simp add: finalizer_sweep_def fz_ok_def)

lemma finalize_match_ok:
  assumes ok: "fz_ok S M fz" and ev: "ev \<in> M"
  shows "fz_ok S M (finalize_match ev fz)"
proof (cases "hm_get (fz_map fz) (tm_signature ev)")
  case None
  with assms show ?thesis by (simp add: finalize_match_def fz_ok_def Let_def)
next
  case (Some p)
  have e: "entry_ok (set S) (tm_signature ev) p" using fz_ok_get [OF ok Some] .
  show ?thesis
    by (rule leave_map_ok [OF ok Some, where r = "\<lparr>fl_send = pg_send p, fl_match_event = Some ev, fl_status = ''OBSERVED''\<rparr>"])
       (use e ev in \<open>simp_all add: finalize_match_def Some complete_record_def entry_ok_def final_honest_def Let_def\<close>)
qed

lemma finalize_send_ok:
  assumes ok: "fz_ok S M fz" and fresh: "tv_signature ev \<notin> tv_signature ` set S"
  shows "fz_ok (S @ [ev]) M (finalize_send ev t fz)"
proof -
  let ?sig = "tv_signature ev"
  have grow: "entry_ok (set S) sig p \<Longrightarrow> entry_ok (set (S @ [ev])) sig p"
    "final_honest (set S) M r \<Longrightarrow> final_honest (set (S @ [ev])) M r" for sig p r
    by (auto simp: entry_ok_def final_honest_def)
  have hm: "hm_ok (fz_map fz)" using ok by (simp add: fz_ok_def)
  have none: "hm_get (fz_map fz) ?sig = None"
  proof (rule ccontr)
    assume "hm_get (fz_map fz) ?sig \<noteq> None"
    then obtain p where "hm_get (fz_map fz) ?sig = Some p" by blast
    from fz_ok_get [OF ok this] have "tv_signature (pg_send p) = ?sig" "pg_send p \<in> set S" by (simp_all add: entry_ok_def)
    then have "?sig \<in> tv_signature ` set S" by (metis imageI)
    with fresh show False by contradiction
  qed
  let ?em = "hm_get (fz_early_matches fz) ?sig"
  let ?p = "\<lparr>pg_send = ev, pg_match_event = ?em, pg_inserted_at = t\<rparr>"
  let ?fz1 = "fz\<lparr>fz_early_matches := hm_delete ?sig (fz_early_matches fz), fz_map := hm_insert ?sig ?p (fz_map fz)\<rparr>"
  have step: "finalize_send ev t fz = (if ?em \<noteq> None then complete_record ?sig ?p ?fz1 else ?fz1)"
    by (simp add: finalize_send_def hm_remove_def none Let_def)
  show ?thesis
  proof (cases ?em)
    case None
    have "fz_ok (S @ [ev]) M ?fz1"
      using ok grow none None fz_keys_insert [OF none, of ?p] by (simp add: fz_ok_def entry_ok_def)
    with None show ?thesis by (simp add: step)
  next
    case (Some m)
    have m: "tm_signature m = ?sig" "m \<in> M" using ok Some by (simp_all add: fz_ok_def)
    have del: "hm_get (hm_delete ?sig (hm_insert ?sig ?p (fz_map fz))) k = hm_get (fz_map fz) k" for k using none by simp
    have keys: "mset (hm_keys (hm_delete ?sig (hm_insert ?sig ?p (fz_map fz)))) = mset (hm_keys (fz_map fz))"
      using fz_keys_delete [of "hm_insert ?sig ?p (fz_map fz)" ?sig ?p] fz_keys_insert [OF none, of ?p] hm by simp
    have "final_honest (set (S @ [ev])) M \<lparr>fl_send = ev, fl_match_event = ?em, fl_status = ''OBSERVED''\<rparr>"
      using m Some by (simp add: final_honest_def)
    then have "fz_ok (S @ [ev]) M (complete_record ?sig ?p ?fz1)"
      using ok grow Some hm keys unfolding fz_ok_def by (simp add: complete_record_def del)
    with Some show ?thesis by (simp add: step)
  qed
qed

fun sends_of :: "finalizer_turn list \<Rightarrow> tick_send_event list" where
  "sends_of [] = []"
| "sends_of ((stop, FzSend ev t, now) # tns) = ev # sends_of tns"
| "sends_of ((stop, _, now) # tns) = sends_of tns"

definition matches_of :: "finalizer_turn list \<Rightarrow> tick_match_event set" where
  "matches_of tns = {m. \<exists>stop now. (stop, FzMatch m, now) \<in> set tns}"

lemma sends_of_append [simp]: "sends_of (xs @ ys) = sends_of xs @ sends_of ys"
  by (induction xs rule: sends_of.induct) simp_all

definition fz_turns :: "duration \<Rightarrow> finalizer_turn list \<Rightarrow> finalizer \<Rightarrow> finalizer" where
  "fz_turns deadline tns fz = fold (\<lambda>(stop, ev, now). finalizer_sweep deadline now \<circ> finalizer_handle ev) tns fz"

lemma fz_turns_ok:
  assumes "fz_ok [] {} fz" "distinct (map tv_signature (sends_of tns))"
  shows "fz_ok (sends_of tns) (matches_of tns) (fz_turns deadline tns fz)"
  using assms(2)
proof (induction tns rule: rev_induct)
  case Nil
  with assms(1) show ?case by (simp add: fz_turns_def matches_of_def)
next
  case (snoc tn tns)
  obtain stop ev now where tn: "tn = (stop, ev, now)" by (cases tn)
  have d: "distinct (map tv_signature (sends_of tns))" using snoc.prems by simp
  have run: "fz_turns deadline (tns @ [tn]) fz = finalizer_sweep deadline now (finalizer_handle ev (fz_turns deadline tns fz))"
    by (simp add: fz_turns_def tn)
  have sub: "matches_of tns \<subseteq> matches_of (tns @ [tn])" by (auto simp: matches_of_def)
  have ok: "fz_ok (sends_of tns) (matches_of (tns @ [tn])) (fz_turns deadline tns fz)"
    using fz_ok_more_matches [OF snoc.IH [OF d] sub] .
  have "fz_ok (sends_of (tns @ [tn])) (matches_of (tns @ [tn])) (finalizer_handle ev (fz_turns deadline tns fz))"
  proof (cases ev)
    case (FzSend e t)
    with snoc.prems have "tv_signature e \<notin> tv_signature ` set (sends_of tns)" by (simp add: tn)
    from finalize_send_ok [OF ok this] FzSend show ?thesis by (simp add: tn)
  next
    case (FzMatch m)
    then have "m \<in> matches_of (tns @ [tn])" by (auto simp: matches_of_def tn)
    from finalize_match_ok [OF ok this] FzMatch show ?thesis by (simp add: tn)
  qed (use ok in \<open>simp_all add: tn\<close>)
  then show ?case unfolding run by (rule sweep_ok)
qed

lemma emit_pending_keys: "hm_keys (fz_map (emit_pending sig fz)) = removeAll sig (hm_keys (fz_map fz))"
proof (cases "hm_get (fz_map fz) sig")
  case None
  with hm_keys_get have "sig \<notin> set (hm_keys (fz_map fz))" by metis
  then show ?thesis using None by (simp add: emit_pending_def)
qed (simp add: emit_pending_def emit_final_def hm_keys_delete Let_def)

lemma flush_empties: "hm_keys (fz_map (fold emit_pending sigs fz)) = filter (\<lambda>k. k \<notin> set sigs) (hm_keys (fz_map fz))"
  by (induction sigs arbitrary: fz) (simp_all add: emit_pending_keys removeAll_filter_not_eq, metis (lifting) filter_cong)

text \<open>
  The finalizer of the first bench: when it leaves its loop it has written, for some prefix of its turns, exactly one
  record for every send event of the prefix; a record is OBSERVED exactly if it carries a match of its own signature
  that was received, else UNKNOWN_PENDING, and the fallback queue holds the signatures of the unknown ones in order.
\<close>

lemma finalize_loop_prefix:
  "finalize_loop deadline tns fz = (fz', left) \<Longrightarrow>
   \<exists>n. fz' = (if left then finalizer_flush else id) (fz_turns deadline (take n tns) fz) \<and> (\<not> left \<longrightarrow> n = length tns)"
proof (induction deadline tns fz rule: finalize_loop.induct)
  case (1 deadline fz)
  then show ?case by (auto simp: fz_turns_def)
next
  case (2 deadline stop ev now turns fz)
  show ?case
  proof (cases "stop \<and> fz_map fz = [] \<or> ev = FzClosed")
    case True
    with 2(2) show ?thesis by (intro exI [of _ 0]) (auto simp: fz_turns_def)
  next
    case False
    with 2(2) have "finalize_loop deadline turns (finalizer_sweep deadline now (finalizer_handle ev fz)) = (fz', left)"
      by (simp only: finalize_loop.simps if_False)
    from 2(1) [OF False this] obtain n where n: "fz' = (if left then finalizer_flush else id)
        (fz_turns deadline (take n turns) (finalizer_sweep deadline now (finalizer_handle ev fz)))" "\<not> left \<longrightarrow> n = length turns" by blast
    then show ?thesis by (intro exI [of _ "Suc n"]) (simp add: fz_turns_def)
  qed
qed

theorem finalizer_one_record_each:
  assumes "distinct (map tv_signature (sends_of tns))" "finalize_loop deadline tns (finalizer_new t0 cap) = (fz, True)"
  shows "\<exists>n. let S = sends_of (take n tns) in
     mset (map final_sig (offered_finals fz)) = mset (map tv_signature S)
   \<and> (\<forall>r \<in> set (offered_finals fz). final_honest (set S) (matches_of (take n tns)) r)
   \<and> fz_fallback_queue fz = map final_sig (filter (\<lambda>r. fl_match_event r = None) (offered_finals fz))"
proof -
  obtain n where fz: "fz = finalizer_flush (fz_turns deadline (take n tns) (finalizer_new t0 cap))"
    using finalize_loop_prefix [OF assms(2)] by auto
  have "sends_of tns = sends_of (take n tns) @ sends_of (drop n tns)" by (metis append_take_drop_id sends_of_append)
  then have d: "distinct (map tv_signature (sends_of (take n tns)))" using assms(1) by simp
  have "fz_ok [] {} (finalizer_new t0 cap)" by (simp add: fz_ok_def finalizer_new_def offered_finals_def hm_keys_def)
  from emit_all_ok [OF fz_turns_ok [OF this d]]
  have ok: "fz_ok (sends_of (take n tns)) (matches_of (take n tns)) fz" unfolding fz finalizer_flush_def .
  have "hm_keys (fz_map fz) = []" unfolding fz finalizer_flush_def flush_empties by simp
  with ok show ?thesis unfolding fz_ok_def Let_def by (intro exI [of _ n]) simp
qed

text \<open>But the loop may leave early: once the stop flag is set and nothing is pending it ends, and the send events that are
  still in the channel, or come from requests in flight, get no record.\<close>

lemma finalizer_leaves_sends_unread:
  "fz_map fz = [] \<Longrightarrow> finalize_loop deadline ((True, FzSend ev t, now) # tns) fz = (fz, True)"
  by (simp add: finalizer_flush_def hm_keys_def)

section \<open>The fallback\<close>

fun pushed_sigs :: "tick_fallback_event list \<Rightarrow> signature list" where
  "pushed_sigs [] = []"
| "pushed_sigs (TfPush sig # es) = sig # pushed_sigs es"
| "pushed_sigs (TfBatch reply # es) = pushed_sigs es"

text \<open>Every batch is answered in full.\<close>

fun batches_answered :: "nat \<Rightarrow> tick_fallback_event list \<Rightarrow> tick_fallback \<Rightarrow> bool" where
  "batches_answered n [] fb \<longleftrightarrow> True"
| "batches_answered n (TfPush sig # es) fb \<longleftrightarrow> batches_answered n es (tick_fallback_step n (TfPush sig) fb)"
| "batches_answered n (TfBatch reply # es) fb \<longleftrightarrow>
     (\<exists>statuses. reply = Inr statuses \<and> length statuses = min (length (tf_queue fb)) n)
     \<and> batches_answered n es (fallback_batch n reply fb)"

lemma fallback_batch_keeps:
  assumes "length statuses = min (length (tf_queue fb)) n"
  shows "map fst (tf_annotations (fallback_batch n (Inr statuses) fb)) @ tf_queue (fallback_batch n (Inr statuses) fb) =
     map fst (tf_annotations fb) @ tf_queue fb"
proof -
  let ?b = "take (min (length (tf_queue fb)) n) (tf_queue fb)"
  have "map (fst \<circ> (\<lambda>(sig, st). (sig, rpc_landed st))) (zip ?b statuses) = map fst (zip ?b statuses)" by auto
  also have "\<dots> = ?b" using assms by (intro map_fst_zip) simp
  finally have "map (fst \<circ> (\<lambda>(sig, st). (sig, rpc_landed st))) (zip ?b statuses) @ drop (min (length (tf_queue fb)) n) (tf_queue fb) = tf_queue fb"
    by (simp only: append_take_drop_id)
  then show ?thesis by (simp add: fallback_batch_def drain_up_to_def Let_def)
qed

text \<open>While the node answers, the annotations are the pushed signatures in order, none lost and none twice; a batch whose
  request fails is drained all the same and never asked about again.\<close>

lemma annotations_in_order:
  "batches_answered n es fb \<Longrightarrow> map fst (tf_annotations (fold (tick_fallback_step n) es fb)) @ tf_queue (fold (tick_fallback_step n) es fb) =
     map fst (tf_annotations fb) @ tf_queue fb @ pushed_sigs es"
proof (induction es arbitrary: fb)
  case (Cons e es)
  show ?case
  proof (cases e)
    case (TfPush sig)
    with Cons show ?thesis by simp
  next
    case (TfBatch reply)
    with Cons.prems obtain statuses where r: "reply = Inr statuses" "length statuses = min (length (tf_queue fb)) n"
      "batches_answered n es (fallback_batch n reply fb)" by auto
    from Cons.IH [OF r(3)] fallback_batch_keeps [OF r(2)] TfBatch r(1) show ?thesis by simp
  qed
qed simp

lemma failed_batch_lost:
  assumes "tf_queue fb \<noteq> []" "0 < n"
  shows "fallback_batch n (Inl e) fb = fb\<lparr>tf_queue := drop (min (length (tf_queue fb)) n) (tf_queue fb),
     tf_rpc_fallback_error := tf_rpc_fallback_error fb + 1\<rparr>"
  using assms by (simp add: fallback_batch_def drain_up_to_def Let_def)

section \<open>Every row is written\<close>

fun received_finals :: "parquet_turn list \<Rightarrow> tick_final list" where
  "received_finals [] = []"
| "received_finals (tn # tns) = (case pv_event tn of PqRecord r \<Rightarrow> r # received_finals tns
     | PqTimeout \<Rightarrow> received_finals tns | PqDisconnected \<Rightarrow> [])"

definition parquet_rows :: "tick_parquet \<Rightarrow> tick_row list" where
  "parquet_rows pw = concat (pw_batches pw) @ pw_builders pw"

lemma flush_rows [simp]: "parquet_rows (parquet_flush True pw) = parquet_rows pw" "parquet_rows (parquet_flush_at True t pw) = parquet_rows pw"
  by (simp_all add: parquet_rows_def parquet_flush_def parquet_flush_at_def)

lemma flush_at_builders [simp]: "pw_builders (parquet_flush_at ok t pw) = []" "pw_builders (parquet_flush ok pw) = []"
  by (simp_all add: parquet_flush_at_def parquet_flush_def)

theorem parquet_rows_complete:
  assumes "\<forall>tn \<in> set tns. pv_write_ok tn" "parquet_loop cfg tns pw = (pw', left)"
  shows "parquet_rows pw' = parquet_rows pw @ map (tick_row_of (pq_leaders cfg) (pq_anchor cfg)) (received_finals tns)
    \<and> (left \<longrightarrow> pw_builders pw' = [])"
  using assms
proof (induction cfg tns pw rule: parquet_loop.induct)
  case (1 cfg pw)
  then show ?case by simp
next
  case (2 cfg tn tns pw)
  have ok: "pv_write_ok tn" using 2(2) by simp
  show ?case
  proof (cases "pv_event tn = PqDisconnected")
    case True
    with 2(3) ok show ?thesis by (auto split: if_splits)
  next
    case False
    define pw1 where "pw1 = (case pv_event tn of
               PqRecord r \<Rightarrow> (let pw0 = pw\<lparr>pw_builders := pw_builders pw @ [tick_row_of (pq_leaders cfg) (pq_anchor cfg) r]\<rparr> in
                 if length (pw_builders pw0) \<ge> pq_row_group_size cfg then parquet_flush_at (pv_write_ok tn) (pv_flushed_at tn) pw0 else pw0)
             | _ \<Rightarrow> if pw_builders pw \<noteq> [] then parquet_flush_at (pv_write_ok tn) (pv_flushed_at tn) pw else pw)"
    define pw2 where "pw2 = (if pw_builders pw1 \<noteq> [] \<and> since (pv_aged_at tn) (pw_last_flush pw1) > pq_flush_interval cfg
               then parquet_flush_at (pv_write_ok tn) (pv_reflushed_at tn) pw1 else pw1)"
    have loop: "parquet_loop cfg (tn # tns) pw = parquet_loop cfg tns pw2"
      using False unfolding parquet_loop.simps pw2_def pw1_def Let_def by (simp only: if_False)
    have rows1: "parquet_rows pw1 = parquet_rows pw @ (case pv_event tn of PqRecord r \<Rightarrow> [tick_row_of (pq_leaders cfg) (pq_anchor cfg) r] | _ \<Rightarrow> [])"
      using ok by (cases "pv_event tn") (simp_all add: pw1_def Let_def, simp add: parquet_rows_def)
    have rows2: "parquet_rows pw2 = parquet_rows pw1" using ok by (simp add: pw2_def)
    have IH: "parquet_rows pw' = parquet_rows pw2 @ map (tick_row_of (pq_leaders cfg) (pq_anchor cfg)) (received_finals tns) \<and> (left \<longrightarrow> pw_builders pw' = [])"
      using 2(1) [OF False pw1_def pw2_def] 2(2,3) loop by simp
    show ?thesis using IH rows1 rows2 False by (cases "pv_event tn") simp_all
  qed
qed

section \<open>What is sent was prepared for its trigger\<close>

definition prepared_by :: "tick_preparer_cfg \<Rightarrow> cycle_readings list \<Rightarrow> (u64 \<times> u8) \<times> presigned \<Rightarrow> bool" where
  "prepared_by cfg cys e \<longleftrightarrow> fst e \<in> schedule_set (kf_schedule cfg)
     \<and> (\<exists>cy \<in> set cys. \<exists>bh n. cy_blockhash cy = Inr bh \<and> snd e = tick_presign cfg bh n (cy_built_at cy n)
          \<and> in_window (cy_now_slot cy) (kf_look_ahead_slots cfg) (fst (fst e)))"

lemma prepare_cycle_prepared:
  assumes "e \<in> set (op_inserts (snd (prepare_cycle cfg cy st)))"
  shows "prepared_by cfg [cy] e"
proof (cases "cy_blockhash cy")
  case (Inl err)
  with assms show ?thesis by (simp add: prepare_cycle_def)
next
  case (Inr bh)
  let ?signed = "fold hm_delete (stale_keys (cy_now cy) (kr_already_signed st)) (kr_already_signed st)"
  show ?thesis
  proof (cases "cy_now_slot cy = 0")
    case True
    with assms Inr show ?thesis by (simp add: prepare_cycle_def Let_def)
  next
    case False
    with assms Inr have "e \<in> set (op_inserts (snd (sign_window cfg cy bh (kf_schedule cfg) 0 ?signed)))"
      by (simp add: prepare_cycle_def Let_def case_prod_unfold)
    then obtain ik where ik: "ik \<in> set (enumerate 0 (due_keys cfg (cy_now_slot cy) (kf_schedule cfg) (set (hm_keys ?signed))))"
      "e = (snd ik, tick_presign cfg bh (0 + fst ik) (cy_built_at cy (0 + fst ik)))"
      unfolding sign_window_ref(1) by (auto simp: case_prod_unfold)
    define i k where "i = fst ik" and "k = snd ik"
    have e: "e = (k, tick_presign cfg bh i (cy_built_at cy i))"
      "k \<in> set (due_keys cfg (cy_now_slot cy) (kf_schedule cfg) (set (hm_keys ?signed)))"
      using ik by (simp_all add: i_def k_def in_set_enumerate_eq) (metis nth_mem)
    from e(2) obtain x where "x \<in> set (kf_schedule cfg)" "in_window (cy_now_slot cy) (kf_look_ahead_slots cfg) (se_slot x)" "k = sched_key x"
      unfolding due_keys_props(3) by auto
    then show ?thesis using e(1) Inr by (auto simp: prepared_by_def schedule_set_def sched_key_def)
  qed
qed

lemma prepare_run_prepared: "e \<in> set (op_inserts (snd (prepare_run cfg cys st))) \<Longrightarrow> prepared_by cfg cys e"
proof (induction cfg cys st rule: prepare_run.induct)
  case (2 cfg cy cys st)
  obtain st1 ops where c: "prepare_cycle cfg cy st = (st1, ops)" by fastforce
  obtain st2 rest where r: "prepare_run cfg cys st1 = (st2, rest)" by fastforce
  have "e \<in> set (op_inserts ops) \<or> e \<in> set (op_inserts rest)" using 2(2) by (simp add: c r)
  then show ?case
  proof
    assume "e \<in> set (op_inserts ops)"
    with prepare_cycle_prepared [of e cfg cy st] c show ?thesis by (auto simp: prepared_by_def)
  next
    assume "e \<in> set (op_inserts rest)"
    with 2(1) [of "(st1, ops)" st1 ops] c r show ?thesis by (auto simp: prepared_by_def)
  qed
qed simp

text \<open>
  Observer and preparer together: whatever entries arrive and however the preparer's pool operations and the other
  threads interleave with them, every command handed to the dispatcher is for a scheduled slot and tick and carries a
  transaction the preparer signed for just that slot and tick within its window, and each signed transaction is handed
  over at most once.
\<close>

theorem tick_sends_prepared:
  assumes "pool_ops es = snd (prepare_run cfg cys tick_preparer_new)"
    and cmds_def: "cmds = ch_offered (to_send_queue (tick_observer_run (schedule_set (kf_schedule cfg)) es (tick_observer_new slot0 cap)))"
  shows "mset (map command_entry cmds) \<subseteq># mset (op_inserts (pool_ops es))
    \<and> (\<forall>c \<in> set cmds. (cm_schedule_slot c, cm_schedule_tick c) \<in> schedule_set (kf_schedule cfg) \<and> prepared_by cfg cys (command_entry c))"
proof -
  let ?S = "schedule_set (kf_schedule cfg)" and ?ob = "tick_observer_new slot0 cap"
  have "tick_pool_ok ?S {#} ?ob" by (simp add: tick_pool_ok_def tick_observer_new_def)
  from tick_observer_pool_ok [OF this, of es]
  have ok: "mset (map command_entry cmds) + mset (to_pool (tick_observer_run ?S es ?ob)) \<subseteq># mset (op_inserts (pool_ops es))"
    "\<forall>c \<in> set cmds. (cm_schedule_slot c, cm_schedule_tick c) \<in> ?S"
    by (simp_all add: tick_pool_ok_def cmds_def)
  have sub: "mset (map command_entry cmds) \<subseteq># mset (op_inserts (pool_ops es))"
    using ok(1) by (meson mset_subset_eq_add_left subset_mset.order_trans)
  have "prepared_by cfg cys (command_entry c)" if "c \<in> set cmds" for c
  proof -
    have "command_entry c \<in># mset (map command_entry cmds)" using that by simp
    with sub have "command_entry c \<in> set (op_inserts (pool_ops es))" by (meson mset_subset_eqD set_mset_mset in_multiset_in_set)
    then show ?thesis unfolding assms(1) by (rule prepare_run_prepared)
  qed
  with sub ok(2) show ?thesis by blast
qed

text \<open>After a cycle with a blockhash and a running observer, every scheduled entry of the window is signed.\<close>

lemma window_signed:
  assumes "cy_blockhash cy = Inr bh" "cy_now_slot cy \<noteq> 0" "x \<in> set (kf_schedule cfg)"
    "in_window (cy_now_slot cy) (kf_look_ahead_slots cfg) (se_slot x)"
  shows "sched_key x \<in> set (hm_keys (kr_already_signed (fst (prepare_cycle cfg cy st))))"
proof -
  let ?signed = "fold hm_delete (stale_keys (cy_now cy) (kr_already_signed st)) (kr_already_signed st)"
  have "kr_already_signed (fst (prepare_cycle cfg cy st)) = fst (sign_window cfg cy bh (kf_schedule cfg) 0 ?signed)"
    using assms(1,2) by (simp add: prepare_cycle_def Let_def case_prod_unfold)
  then have "set (hm_keys (kr_already_signed (fst (prepare_cycle cfg cy st)))) = set (hm_keys ?signed)
      \<union> (sched_key ` {e \<in> set (kf_schedule cfg). in_window (cy_now_slot cy) (kf_look_ahead_slots cfg) (se_slot e)} - set (hm_keys ?signed))"
    by (simp only: sign_window_ref(2) due_keys_props(3))
  then show ?thesis using assms(3,4) by blast
qed

text \<open>Two cycles that get the same blockhash sign identical transactions: the amount starts again from its base, so the
  n-th transaction of both has the same signature, and the second send is taken for the first.\<close>

lemma same_blockhash_same_transaction:
  "ps_signature (tick_presign cfg bh n t) = ps_signature (tick_presign cfg bh n t') \<and> ps_serialized (tick_presign cfg bh n t) = ps_serialized (tick_presign cfg bh n t')"
  by (simp add: tick_presign_def Let_def)

end
