(* ===== verification/Spec2Isabelle.thy ===== *)
theory Spec2Isabelle
  imports Merger PohOrder Ordering NonceManager TriggerEngine Schedule Preparer JitoTip Recorder Dispatcher MainLoop
    FanPipelineRun FanSchedule FanClients CutoffRun CorrelatorRun ShredstreamRun
    CutoffPreflightRun LeaderMap FanFinality TickRun
begin

text \<open>
  Verification of the send-path bench \<open>tick-trigger-fan-out-bench\<close> (\<open>src/crates/\<close>; the third run
  program, \<open>bin/phase3_run.rs\<close>, with the entry model of \<open>entry-sources\<close>).

  \<^bold>\<open>The program.\<close>  Two sources deliver the PoH entries of the chain.  The merger forwards the first
  arrival of each; the PoH supervisor puts the entries of every slot in order, with Missing markers
  and an end event; the trigger engine fires a trigger at each scheduled (slot, tick) and reports the
  pending signatures it sees in an entry.  The schedule pump draws those ticks ahead of time and hands
  them to the engine and to the preparer, which signs one transaction per sender into the pool, on a
  leased durable nonce or on the cached blockhash.  The dispatcher takes the list of a trigger from the
  pool, registers every attempt with the recorder and spawns its send; the recorder joins the
  registrations, the send outcomes and the matches into one record per attempt, and on a match makes
  the nonce of the attempt ready again with the locally computed next hash.  An RPC poller is the
  safety net of the nonces, a refresher thread keeps the blockhash, a tip updater the Jito tip, and
  the main loop ends the run.

  \<^bold>\<open>Theories and sources\<close> (paths below \<open>crates/tick-trigger-fan-out-bench/src/\<close>).
    \<^item> \<open>Prelude\<close> (machine integers, clocks, saturating operations, list lemmas), \<open>BTreeMap\<close> (ordered
      map; locales \<open>ordered_map\<close>, \<open>window_map\<close>), \<open>KeyStore\<close> (hash map; locale \<open>hand_over\<close>),
      \<open>RoundRobin\<close> (locale \<open>round_robin\<close>; the tip rotator of \<open>tip_accounts.rs\<close>), \<open>Channel\<close> (the
      sending half of a channel, with the history of what was offered), \<open>Json\<close> (JSON values).
    \<^item> \<open>Entries\<close>: \<open>EntryObservation\<close>.  \<open>Merger\<close>: \<open>merger.rs\<close>.  \<open>PohSupervisor\<close>, \<open>PohOrder\<close>:
      \<open>poh_supervisor.rs\<close>, the code and what it promises.  \<open>Ordering\<close>: \<open>ordering.rs\<close>.
    \<^item> \<open>NonceState\<close>, \<open>SlotHashCache\<close>, \<open>NonceManager\<close>: \<open>nonce/state.rs\<close>, \<open>nonce/local_compute.rs\<close>,
      \<open>nonce/manager.rs\<close>, \<open>nonce/rpc_fallback.rs\<close>, \<open>nonce/bootstrap.rs\<close> (locale \<open>lease_pool\<close>).
    \<^item> \<open>TriggerEngine\<close>: \<open>trigger_engine.rs\<close>.  \<open>Schedule\<close>: \<open>schedule.rs\<close> and the pump thread.
    \<^item> \<open>Config\<close>: \<open>config.rs\<close>.  \<open>TxBuilder\<close>: \<open>tx_builder.rs\<close>.  \<open>TxPool\<close>: \<open>tx_pool.rs\<close>,
      \<open>blockhash_cache.rs\<close>.  \<open>Preparer\<close>: \<open>preparer.rs\<close>.
    \<^item> \<open>Senders\<close>: \<open>senders/mod.rs\<close>, \<open>helius.rs\<close>, \<open>triton.rs\<close>, \<open>jito/mod.rs\<close>, \<open>jito/json_rpc.rs\<close>
      (locale \<open>sender_contract\<close>).  \<open>JitoTip\<close>: \<open>jito/tip_updater.rs\<close>.
    \<^item> \<open>Recorder\<close>: \<open>recorder.rs\<close>.  \<open>Dispatcher\<close>: the sender set-up and the dispatcher loop,
      \<open>MainLoop\<close>: the main loop and the report, of \<open>bin/phase3_run.rs\<close>.
    \<^item> This theory: the properties that span components.

  \<^bold>\<open>The earlier bench, \<open>fan-out-bench\<close>\<close> (paths below \<open>crates/fan-out-bench/src/\<close>): an observer counts
  ticks and fires the triggers, a matcher owns every attempt and writes one final record for it.
    \<^item> \<open>FanSlotCache\<close>: \<open>slot_hash_cache.rs\<close>.  \<open>FanObserver\<close>: \<open>merger.rs\<close>, \<open>observer.rs\<close>.  \<open>FanMatcher\<close>:
      \<open>matcher.rs\<close>, \<open>attempt_state.rs\<close>, \<open>outcome.rs\<close>; its nonce manager is the code of \<open>NonceManager\<close>.
    \<^item> \<open>FanBuilder\<close>: \<open>config.rs\<close>, \<open>memo.rs\<close>, \<open>tip_accounts.rs\<close>, \<open>tx_builder.rs\<close>.  \<open>FanPipeline\<close>: \<open>pool.rs\<close>,
      \<open>preparer.rs\<close>, \<open>trigger_id.rs\<close>, \<open>dispatcher.rs\<close>, and what its runs guarantee in \<open>FanPipelineRun\<close>.
      \<open>FanSchedule\<close>: \<open>schedule.rs\<close>, \<open>schedule_pump.rs\<close>, the bridge of \<open>runtime.rs\<close>, \<open>budget_watcher.rs\<close>.
    \<^item> \<open>FanSenders\<close>, \<open>FanClients\<close>: \<open>senders/\<close>, \<open>http_jsonrpc.rs\<close>, the sender set-up of \<open>bin/run.rs\<close> (locale
      \<open>fan_sender_contract\<close>).  \<open>FanFinality\<close>: \<open>finality_tracker.rs\<close>, \<open>rpc_fallback.rs\<close>.

  \<^bold>\<open>The first bench, \<open>tick-trigger-bench\<close>\<close> (paths below \<open>crates/tick-trigger-bench/src/\<close>): one sender, a
  schedule fixed before the run, transactions signed cycle by cycle on the latest blockhash.
    \<^item> \<open>TickPrepare\<close>: \<open>counters.rs\<close>, \<open>schedule.rs\<close>, the transfer of \<open>wallet.rs\<close>, \<open>tx_pool.rs\<close>, \<open>preparer.rs\<close>.
      \<open>TickObserver\<close>: \<open>observer.rs\<close>.  \<open>TickSend\<close>: \<open>helius_sender.rs\<close>, \<open>sender.rs\<close>.  \<open>TickWriter\<close>: \<open>writer.rs\<close>,
      \<open>rpc_fallback.rs\<close>, \<open>leader_cache.rs\<close>, \<open>sidecar.rs\<close>, the main loop of \<open>runtime.rs\<close>; what its runs guarantee
      is in \<open>TickRun\<close>.

  \<^bold>\<open>The inclusion cut-off tool, \<open>tx-cutoff\<close>\<close> (paths below \<open>crates/tx-cutoff/src/\<close>): at every new block of an
  Ethereum chain it sends one transaction per wallet at a planned offset into the block and finds out
  in which block it is included; the report estimates the latest offset that still makes the next block.
    \<^item> \<open>CutoffPreflight\<close>, \<open>CutoffPreflightRun\<close>: \<open>preflight.rs\<close>, the initial directions of \<open>main.rs\<close>.
    \<^item> \<open>CutoffPlan\<close>: \<open>scheduler.rs\<close>, \<open>config.rs\<close>, \<open>wallet.rs\<close>, \<open>swap.rs\<close>, \<open>time.rs\<close>.  \<open>CutoffTracker\<close>:
      \<open>tracker.rs\<close>, \<open>report.rs\<close>.  \<open>CutoffRpc\<close>: \<open>rpc.rs\<close>.  \<open>CutoffEngine\<close>: \<open>engine.rs\<close>, and what its
      runs guarantee in \<open>CutoffRun\<close>.

  \<^bold>\<open>The sources and their comparison\<close>: \<open>Shredstream\<close> and \<open>ShredstreamRun\<close> model the raw ShredStream source
  of \<open>crates/entry-sources/src/\<close> (\<open>counters.rs\<close>, \<open>shredstream/udp_rx.rs\<close>, \<open>fec_tracker.rs\<close>, \<open>deshred.rs\<close>), which
  gathers shreds into FEC sets and decodes a complete set into entries.  \<open>Correlator\<close> and \<open>CorrelatorRun\<close> model
  \<open>crates/entry-comparator/src/\<close> (\<open>diff_record.rs\<close>, \<open>correlator.rs\<close>, \<open>writer.rs\<close>, \<open>report.rs\<close>), which pairs the
  observations of two sources, writes a record per pair and reports who was first.  \<open>LeaderMap\<close> models
  \<open>crates/solana-leader-map/src/\<close>: the leader and country of every slot of an epoch, the shares, the cache.

  \<^bold>\<open>How the code is modelled.\<close>  The state of a thread is a record; a handler is a function on it, with
  the branches and early returns of the code; the loop is a function over the list of events the
  thread receives, in the order it receives them, and every read of a clock or of shared state that
  another thread writes is an argument of the step.  Where threads share state (pool, nonce manager,
  pending signatures, caches), the actions of the other threads are events of their own, so a theorem
  on all event lists holds for every interleaving of steps; a lock-protected or atomic operation is
  one step.  Unsigned integers are words of their width (they wrap), instants and durations are
  natural numbers of nanoseconds.  Counters are words and wrap as in the code.

  \<^bold>\<open>What is shown.\<close>  Merger: exactly-once within the window, accounting.  Supervisor: the events of a
  slot follow the segment grammar, every slot ends, the counters are exact, a sweep seals what lags.
  Ordering: streamed statistics equal those of the whole sequence, one report per slot.  Engine: the
  triggers are those of a reference that fires once, matches are bounded, counters exact.  Nonces:
  leases are exclusive, the state machine, recovery by polling, the bootstrap checks, the parser, the
  next hash.  Schedule: chunks are exact, pump and engine agree.  Builder: the memo reads back, a
  transaction is attributable.  Pool and caches: handed out once, last successful fetch.  Preparer: no
  entry is lost, every sender that can sign does.  Senders: outcomes are classified, two decoders
  agree, the token stays private in answered sends, throttle and rotation.  Tip: bounded.  Recorder:
  one justified record per attempt, the books balance.  Dispatcher: every send is registered and
  awaited, everything prepared is sent.  Main loop: it ends in time.  Across
  components: a record is about a transaction that was sent, Landed only if that one was matched; a
  match readies the nonce for the next lease; and the failures the model exposed.

  The earlier bench: the triggers are those of a reference that only adds up hashes; what is sent was prepared for
  that sender; every outcome of a client means what the provider answered (\<open>outcome_means\<close>, which reads the reply on
  its own, beside the decoders); back-off, one record per attempt, siblings; the hash the nonce is derived from is the
  final tick's when the ticks after the last cached one were empty; nothing is lost by the finality
  tracker while every signature is answered.  The first bench: what is sent was prepared for its tick, every command
  is accounted for, one record per send, the distances in ticks and hashes are exact.  The cut-off tool: nonces and
  costs of the pre-flight, the books of a run, the classification of a transaction, and the estimated cut-off, where
  the comparison of two f64 quotients is shown to be exact for the numbers of records a run can have.  The
  sources and tools: a FEC set is handed on exactly when it is complete, entries are numbered without gaps, the
  correlator accounts for every observation, its report counts the rows, the shares of the countries add up, a saved
  snapshot is the one loaded.

  \<^bold>\<open>Bounds and fuel.\<close>  No definition carries fuel that the code does not: the rejection loop of the
  schedule is a \<open>partial_function\<close> in the option type and is shown to return for every fair
  generator; the bound of the nonce walk is the look-back of the code (5 slots).

  \<^bold>\<open>Parameters.\<close>  The SDK and the libraries: the hash function, ed25519 signing, base-58 and JSON
  decoding, the HTTP transport (a reply or an error text), the random generator and its shuffle, the
  f64 arithmetic (tip interpolation, gas prices, shares in percent; for the cut-off only the rounding of a
  quotient, of which monotonicity and the relative error of IEEE 754 are assumed), the RPC nodes (accounts, blockhash,
  slot, balance, blocks), the ABI encoder and signer of the Ethereum library, the quantile of a
  histogram, whether a write to a file succeeds.

  \<^bold>\<open>Not modelled.\<close>  Everywhere: thread creation and core pinning, logging and printed text, connection warm-up,
  argument parsing, the text of configuration and key files, the encoding of Parquet files.  In the send-path bench:
  the observation programs \<open>bin/phase1_observe.rs\<close> and \<open>bin/phase2_observe.rs\<close>, which wire the
  components here to printed reports, and the Jito smoke tests.  In \<open>entry-sources\<close>: the gRPC sources, which
  decode the messages of a service.  In \<open>tx-cutoff\<close>: the WebSocket subscription and the printed tables.  In
  \<open>entry-comparator\<close>: the wiring of its threads and the fetch of its leader schedule.  In \<open>fan-out-bench\<close> and
  \<open>tick-trigger-bench\<close>: the wiring of the channels in \<open>runtime.rs\<close> and the metadata of a run.
\<close>

section \<open>A landing feeds the next lease\<close>

lemma landing_ready:
  assumes "get_by_id i mgr = Some k"
  shows "state_at (snd (on_landing_with_blockhash i h mgr)) k = Ready h"
proof -
  have k: "k < length (nm_entries mgr)"
    using assms find_in_set [of _ "[0..<length (nm_entries mgr)]" k] by (auto simp: get_by_id_def)
  with assms show ?thesis
    by (auto simp: on_landing_with_blockhash_def state_at_def set_state_def split: nonce_state.splits)
qed

lemma close_attempt_nonces [frame]: "rc_nonce_manager (close_attempt cfg k oc d rc) = rc_nonce_manager rc"
  by (auto simp: close_attempt_def emit_record_def Let_def split: option.splits prod.splits)

text \<open>
  C6. The loop that keeps durable nonces going: when the engine matches the signature of an open
  attempt, the recorder makes the attempt's nonce ready with the hash derived from the last cached
  slot before the landing, and the next lease of that nonce signs with it; without a cached slot in
  the look-back the nonce waits for the poller instead, and is not leased.
\<close>

theorem match_readies_nonce:
  assumes "hm_get (rc_sig_to_key rc) (mv_signature m) = Some key" "hm_get (rc_attempts rc) key = Some att"
    and "at_register att = Some reg" "rg_nonce_id reg = Some i"
    and "rc_nonce_manager rc = Some mgr" "rc_slot_hash_cache rc = Some cache"
    and "get_by_id i mgr = Some k" "state_at mgr k = InFlight h t0"
  shows "\<exists>mgr'. rc_nonce_manager (handle_match cfg m now rc) = Some mgr'
    \<and> (case next_nonce_for_landed_slot (rk_hashv cfg) (mv_observed_slot m) 5 cache of
         Some (_, _, x) \<Rightarrow> state_at mgr' k = Ready x
           \<and> (\<forall>t mgr''. take_index t mgr' = (Some k, mgr'') \<longrightarrow> state_at mgr'' k = InFlight x t)
       | None \<Rightarrow> state_at mgr' k = AwaitingUpdate h now \<and> (\<forall>t. fst (take_index t mgr') \<noteq> Some k))"
proof -
  let ?hook = "nonce_hook cfg m now (att\<lparr>at_matched := Some m\<rparr>) (rc\<lparr>rc_attempts := hm_insert key (att\<lparr>at_matched := Some m\<rparr>) (rc_attempts rc)\<rparr>)"
  have k: "k < length (nm_entries mgr)"
    using assms(7) find_in_set [of _ "[0..<length (nm_entries mgr)]" k] by (auto simp: get_by_id_def)
  have hm: "rc_nonce_manager (handle_match cfg m now rc) = rc_nonce_manager ?hook"
    using assms(1,2) by (simp add: handle_match_def Let_def frame)
  show ?thesis
  proof (cases "next_nonce_for_landed_slot (rk_hashv cfg) (mv_observed_slot m) 5 cache")
    case None
    then have "rc_nonce_manager ?hook = Some (on_observed_landing i now mgr)"
      using assms by (simp add: nonce_hook_def)
    moreover have "state_at (on_observed_landing i now mgr) k = AwaitingUpdate h now"
      using assms(7,8) k by (simp add: on_observed_landing_def state_at_def set_state_def)
    moreover have "fst (take_index t nm) \<noteq> Some k" if "state_at nm k = AwaitingUpdate h now" for t nm
      using that find_in_set [of "\<lambda>i. is_ready (state_at nm i)" _ k]
      by (auto simp: take_index_def find_ready_def Let_def split: option.splits)
    ultimately show ?thesis using hm None by auto
  next
    case (Some r)
    obtain s hh x where r: "r = (s, hh, x)" by (cases r)
    then have "rc_nonce_manager ?hook = Some (snd (on_landing_with_blockhash i x mgr))"
      using assms Some by (simp add: nonce_hook_def)
    moreover have "state_at mgr'' k = InFlight x t"
      if "state_at nm k = Ready x" "k < length (nm_entries nm)" "take_index t nm = (Some k, mgr'')" for t nm mgr''
      using that by (auto simp: take_index_def state_at_def set_state_def Let_def split: if_splits option.splits)
    moreover have "length (nm_entries (snd (on_landing_with_blockhash i x mgr))) = length (nm_entries mgr)"
      by (auto simp: on_landing_with_blockhash_def set_state_def split: option.splits nonce_state.splits)
    ultimately show ?thesis using hm Some r landing_ready [OF assms(7), of x] k by auto
  qed
qed

definition landing_rc :: recorder where
  "landing_rc = handle_register sample_cfg (sample_register 1 2 77 (Some 7))
     (recorder_new 0 (Some (snd (take_index 5 nonce_demo))) (Some (hash_cache_run 8 [(100, 55)])))"

theorem match_readies_nonce_witness:
  "\<exists>mgr. rc_nonce_manager (handle_match sample_cfg (sample_match 77 101) 8 landing_rc) = Some mgr
    \<and> state_at mgr 0 = Ready 9"
proof -
  let ?mgr = "snd (take_index 5 nonce_demo)" and ?cache = "hash_cache_run 8 [(100, 55)]"
    and ?reg = "sample_register 1 2 77 (Some 7)"
  let ?att = "\<lparr>at_register = Some ?reg, at_send = None, at_matched = None, at_deadline_at = 95\<rparr>"
  have rc: "hm_get (rc_sig_to_key landing_rc) (mv_signature (sample_match 77 101)) = Some (1, 2)"
    "hm_get (rc_attempts landing_rc) (1, 2) = Some ?att"
    "rc_nonce_manager landing_rc = Some ?mgr" "rc_slot_hash_cache landing_rc = Some ?cache"
    by (simp_all add: landing_rc_def recorder_eval)
  have mgr: "get_by_id 7 ?mgr = Some 0" "state_at ?mgr 0 = InFlight 1 5"
    by (simp_all add: nonce_demo_def nonce_manager_new_def take_index_def find_ready_def set_state_def
        state_at_def get_by_id_def Let_def)
  have c: "?cache = \<lparr>hc_inner = [(100, 55)], hc_window = 8\<rparr>"
    by (simp add: hash_cache_run_def hash_cache_new_def record_entry_def Let_def bt_last_def)
  have five: "unat (5 :: u64) = Suc 4" by simp
  have cache: "next_nonce_for_landed_slot (rk_hashv sample_cfg) (mv_observed_slot (sample_match 77 101)) 5 ?cache = Some (100, 55, 9)"
    unfolding c next_nonce_for_landed_slot_def five nonce_walk.simps
    by (simp add: sample_cfg_def sample_match_def compute_next_durable_nonce_def checked_sub_def bt_get_def)
  have "at_register ?att = Some ?reg" "rg_nonce_id ?reg = Some 7" by (simp_all add: sample_register_def)
  from match_readies_nonce [OF rc(1,2) this rc(3,4) mgr, of sample_cfg 8] cache show ?thesis by auto
qed


section \<open>From the dispatcher to the record\<close>

text \<open>
  C4. Records are honest across threads: when the recorder hears only registrations the dispatcher
  offered, no attempt twice, every record it writes is about a transaction the dispatcher spawned a
  send of, with its trigger, sender and signature, and the signature was put up for matching; a
  record says \<open>Landed\<close> only if that very signature was matched.
\<close>

theorem landed_was_sent:
  assumes pool: "list_all inserts_signed es"
    and heard: "set (registers (map fst turns)) \<subseteq> set (ch_offered (ds_register_tx (dispatcher_run dcfg es (dispatcher_new tips dcfg cap))))"
    and once: "distinct (map rkey (registers (map fst turns)))"
    and r: "r \<in> set (rc_emitted (fst (recorder_run rcfg turns (recorder_new now mgr cache))))"
  shows "\<exists>sp \<in> set (ds_spawned (dispatcher_run dcfg es (dispatcher_new tips dcfg cap))).
      spawn_id sp = (wr_trigger_id r, wr_sender_id r, wr_tx_signature r)
    \<and> wr_tx_signature r \<in> ds_pending_sigs (dispatcher_run dcfg es (dispatcher_new tips dcfg cap)) \<union> removed_sigs es
    \<and> (wr_final_outcome r = Landed \<longrightarrow> (\<exists>m t. RMatch m t \<in> set (map fst turns) \<and> mv_signature m = tr_signature (sp_tx sp)))"
proof -
  let ?ds = "dispatcher_run dcfg es (dispatcher_new tips dcfg cap)"
  have ok: "ds_ok (removed_sigs es) ?ds" using dispatcher_ok_run [OF pool] .
  have j: "justified (rk_anchor rcfg) (map fst turns) r"
    using recorder_ok_run [OF once, of rcfg now mgr cache] r by (auto simp: rec_ok_def)
  then obtain reg att oc where reg: "r = make_record (rk_anchor rcfg) reg att oc" "at_register att = Some reg"
      "att_ok (map fst turns) (rkey reg) att"
    and landed: "oc = Landed \<longrightarrow> (\<exists>m t. at_matched att = Some m \<and> RMatch m t \<in> set (map fst turns) \<and> mv_signature m = rg_signature reg)"
    unfolding justified_def by blast
  have "reg \<in> set (registers (map fst turns))" using reg by (auto simp: att_ok_def)
  with heard have "reg_id reg \<in> set (map reg_id (ch_offered (ds_register_tx ?ds)))" by auto
  with ok obtain sp where sp: "sp \<in> set (ds_spawned ?ds)" "spawn_id sp = reg_id reg" unfolding ds_ok_def by auto
  have id: "reg_id reg = (wr_trigger_id r, wr_sender_id r, wr_tx_signature r)"
    by (simp add: reg(1) reg_id_def make_record_def Let_def)
  with sp have sig: "tr_signature (sp_tx sp) = rg_signature reg" "wr_tx_signature r = rg_signature reg"
    by (simp_all add: spawn_id_def reg_id_def)
  have "wr_tx_signature r \<in> ds_pending_sigs ?ds \<union> removed_sigs es"
    using ok sp(1) sig unfolding ds_ok_def by metis
  moreover have "wr_final_outcome r = Landed \<longrightarrow> (\<exists>m t. RMatch m t \<in> set (map fst turns) \<and> mv_signature m = tr_signature (sp_tx sp))"
    using landed sig reg(1) by auto
  ultimately show ?thesis using sp id by (intro bexI [OF _ sp(1)]) simp
qed

theorem landed_was_sent_witness:
  "let ds = dispatcher_run demo_dispatcher_cfg [DPoolInsert (100, 7) [demo_variant], DTrigger demo_trigger (\<lambda>i. 5)]
        (dispatcher_new (\<lambda>k. [8]) demo_dispatcher_cfg None);
      regs = ch_offered (ds_register_tx ds);
      turns = map (\<lambda>e. (e, 0, 0, 0)) (map RRegister regs @ map (\<lambda>reg. RMatch (sample_match (rg_signature reg) 101) 8) regs)
    in \<exists>r \<in> set (rc_emitted (fst (recorder_run sample_cfg turns (recorder_new 0 None None)))).
         wr_final_outcome r = Landed \<and> (\<exists>sp \<in> set (ds_spawned ds). tr_signature (sp_tx sp) = wr_tx_signature r)"
proof -
  let ?es = "[DPoolInsert (100, 7) [demo_variant], DTrigger demo_trigger (\<lambda>i. 5)]"
  let ?ds = "dispatcher_run demo_dispatcher_cfg ?es (dispatcher_new (\<lambda>k. [8]) demo_dispatcher_cfg None)"
  let ?reg = "registration demo_trigger demo_sender \<lparr>cl_endpoint_url = ''u'', cl_protocol = ''HTTP_JSONRPC''\<rparr> demo_variant"
  let ?turns = "map (\<lambda>e. (e, 0, 0, 0)) [RRegister ?reg, RMatch (sample_match (rg_signature ?reg) 101) 8]
    :: (recorder_event \<times> instant \<times> instant \<times> instant) list"
  have regs: "ch_offered (ds_register_tx ?ds) = [?reg]"
    by (simp add: dispatcher_run_def dispatch_def trigger_variants_def pool_take_def fan_out_def dispatcher_new_def demo_trigger_def
        demo_dispatcher_cfg_def demo_variant_fields pool_insert_all_def hm_get_def hm_insert_def hm_remove_def hm_delete_def
        demo_sender_def sender_config_min_def Let_def)
  let ?rs = "rc_emitted (fst (recorder_run sample_cfg ?turns (recorder_new 0 None None)))"
  have rs: "map wr_final_outcome ?rs = [Landed]"
    by (simp add: recorder_eval registration_def)
  then obtain r where r: "?rs = [r]" "wr_final_outcome r = Landed" by (cases ?rs) auto
  have "list_all inserts_signed ?es" by (simp add: demo_variant_fields)
  moreover have "set (registers (map fst ?turns)) \<subseteq> set (ch_offered (ds_register_tx ?ds))"
    unfolding regs by simp
  moreover have "distinct (map rkey (registers (map fst ?turns)))" by simp
  moreover have "r \<in> set ?rs" using r by simp
  ultimately obtain sp where "sp \<in> set (ds_spawned ?ds)" "spawn_id sp = (wr_trigger_id r, wr_sender_id r, wr_tx_signature r)"
    using landed_was_sent [of ?es ?turns demo_dispatcher_cfg "\<lambda>k. [8]" None r sample_cfg 0 None None] by blast
  with r show ?thesis unfolding Let_def regs by (intro bexI [of _ r]) (auto simp: spawn_id_def)
qed

section \<open>A lease outlived by its transaction\<close>

definition reissue_start :: preparer where
  "reissue_start = \<lparr>pr_senders = sender_slots (\<lambda>k. [8, 9]) [sender_config_min 3 ''a'' Triton ''u''],
     pr_rx = [\<lparr>se_slot = 1025, se_tick = 7\<rparr>, \<lparr>se_slot = 1120, se_tick = 7\<rparr>], pr_pending = None, pr_last_evict = 0, pr_pool = [],
     pr_nonce_manager = Some nonce_demo,
     pr_blockhash_cache = cache_new, pr_counters = preparer_counters_new\<rparr>"

definition reissue_readings :: "u64 \<Rightarrow> instant \<Rightarrow> readings" where
  "reissue_readings slot now = \<lparr>rd_current_slot = slot, rd_prepared_at = now, rd_lease_at = now, rd_tips = (\<lambda>i. None),
     rd_elapsed_at = now, rd_evict_at = now, rd_evict_slot = slot\<rparr>"

definition reissue_poll :: "instant \<Rightarrow> nonce_manager \<Rightarrow> nonce_manager" where
  "reissue_poll now = poll_once (\<lambda>c. Inr (map (\<lambda>pk. Some (nonce_account_bytes 1 1 9 1 (replicate 8 0))) c) :: unit + u8 list option list)
     45000000000 15000000000 now"

text \<open>
  C40. One nonce, two prepared triggers: the lease deadline (45 s) is shorter than the schedule's
  look-ahead (from 100 to 130 slots, about 40 to 52 s), so the poller can find a lease expired whose
  transaction waits unsent in the pool, find the nonce unchanged on chain, and make it ready again;
  the next trigger is then signed with the same nonce and hash while the first is still pooled, and
  of the two at most one can land.
\<close>

theorem stale_lease_reissued:
  "let pr1 = preparer_turn demo_cfg (reissue_readings 900 1) reissue_start;
       pr2 = preparer_step demo_cfg (PNonces (map_option (reissue_poll 46000000001) (pr_nonce_manager pr1))) pr1;
       pr3 = preparer_turn demo_cfg (reissue_readings 1015 46000000002) pr2
   in map_option (map (\<lambda>v. (pt_nonce_id v, pt_blockhash v))) (hm_get (pr_pool pr3) (1025, 7)) = Some [(Some 7, 1)]
    \<and> map_option (map (\<lambda>v. (pt_nonce_id v, pt_blockhash v))) (hm_get (pr_pool pr3) (1120, 7)) = Some [(Some 7, 1)]"
proof -
  let ?m1 = "\<lparr>nm_entries = [\<lparr>ne_id = 7, ne_pubkey = 70, ne_state = InFlight 1 1\<rparr>], nm_pubkey_index = [(70, 0)], nm_rr_cursor = 1\<rparr>"
  let ?m2 = "\<lparr>nm_entries = [\<lparr>ne_id = 7, ne_pubkey = 70, ne_state = Ready 1\<rparr>], nm_pubkey_index = [(70, 0)], nm_rr_cursor = 1\<rparr>"
  have m0: "nonce_demo = \<lparr>nm_entries = [\<lparr>ne_id = 7, ne_pubkey = 70, ne_state = Ready 1\<rparr>], nm_pubkey_index = [(70, 0)], nm_rr_cursor = 0\<rparr>"
    by (simp add: nonce_demo_def nonce_manager_new_def)
  have parse: "parse_nonce_account_data (nonce_account_bytes 1 1 9 1 (replicate 8 0)) = Inr \<lparr>na_authority = 9, na_blockhash = 1\<rparr>"
    by (simp add: parse_nonce_account_data_def bytes_at_layout)
  have poll: "reissue_poll 46000000001 ?m1 = ?m2"
    by (simp add: reissue_poll_def poll_once_def tick_timeouts_def timed_out_def since_def refresh_batch_def refresh_one_def parse
        on_fallback_refresh_def get_by_pubkey_def bt_get_def state_at_def set_state_def Let_def)
  note turn = preparer_turn_def prepare_entry_def is_past_def take_lease_def take_ready_def take_index_def find_ready_def
    state_at_def set_state_def prepare_signed_def sign_variant_def sender_slots_def sender_config_min_def demo_cfg_def
    maybe_evict_def since_def pool_evict_below_def pool_len_def sat_sub_def pool_insert_all_def hm_insert_def
    hm_get_def reissue_readings_def Let_def
  let ?pr1 = "preparer_turn demo_cfg (reissue_readings 900 1) reissue_start"
  have nm: "pr_nonce_manager ?pr1 = Some ?m1"
    by (simp add: turn reissue_start_def m0)
  have pr1: "pr_rx ?pr1 = [\<lparr>se_slot = 1120, se_tick = 7\<rparr>]" "pr_pending ?pr1 = None" "pr_last_evict ?pr1 = 0"
    "pr_senders ?pr1 = pr_senders reissue_start"
    by (simp_all add: turn reissue_start_def m0)
  have "\<exists>v. pr_pool ?pr1 = [((1025, 7), [v])] \<and> pt_nonce_id v = Some 7 \<and> pt_blockhash v = 1"
    by (simp add: turn reissue_start_def m0)
  then obtain v where v: "pr_pool ?pr1 = [((1025, 7), [v])]" "pt_nonce_id v = Some 7" "pt_blockhash v = 1" by blast
  have turn2: "\<exists>w. hm_get (pr_pool (preparer_turn demo_cfg (reissue_readings 1015 46000000002) pr)) (1025, 7) = Some [v]
      \<and> hm_get (pr_pool (preparer_turn demo_cfg (reissue_readings 1015 46000000002) pr)) (1120, 7) = Some [w]
      \<and> pt_nonce_id w = Some 7 \<and> pt_blockhash w = 1"
    if "pr_rx pr = [\<lparr>se_slot = 1120, se_tick = 7\<rparr>]" "pr_pending pr = None" "pr_last_evict pr = 0"
      "pr_senders pr = pr_senders reissue_start" "pr_pool pr = [((1025, 7), [v])]" "pr_nonce_manager pr = Some ?m2" for pr
    using that by (simp add: turn hm_retain_def reissue_start_def)
  define pr2 where "pr2 = ?pr1\<lparr>pr_nonce_manager := Some ?m2\<rparr>"
  have step: "preparer_step demo_cfg (PNonces (map_option (reissue_poll 46000000001) (pr_nonce_manager ?pr1))) ?pr1 = pr2"
    by (simp only: preparer_step.simps nm option.map poll pr2_def)
  have upd: "pr_rx (p\<lparr>pr_nonce_manager := m\<rparr>) = pr_rx p" "pr_pending (p\<lparr>pr_nonce_manager := m\<rparr>) = pr_pending p"
    "pr_last_evict (p\<lparr>pr_nonce_manager := m\<rparr>) = pr_last_evict p" "pr_senders (p\<lparr>pr_nonce_manager := m\<rparr>) = pr_senders p"
    "pr_pool (p\<lparr>pr_nonce_manager := m\<rparr>) = pr_pool p" "pr_nonce_manager (p\<lparr>pr_nonce_manager := m\<rparr>) = m" for p m
    by simp_all
  have "pr_rx pr2 = [\<lparr>se_slot = 1120, se_tick = 7\<rparr>]" "pr_pending pr2 = None" "pr_last_evict pr2 = 0"
    "pr_senders pr2 = pr_senders reissue_start" "pr_pool pr2 = [((1025, 7), [v])]" "pr_nonce_manager pr2 = Some ?m2"
    unfolding pr2_def upd by (fact pr1 v(1) refl)+
  from turn2 [OF this] obtain w where
    "hm_get (pr_pool (preparer_turn demo_cfg (reissue_readings 1015 46000000002) pr2)) (1025, 7) = Some [v]"
    "hm_get (pr_pool (preparer_turn demo_cfg (reissue_readings 1015 46000000002) pr2)) (1120, 7) = Some [w]"
    "pt_nonce_id w = Some 7" "pt_blockhash w = 1" by blast
  with v(2,3) show ?thesis unfolding Let_def step by simp
qed

end
